(* ===== verification/Prelude.thy ===== *)
theory Prelude
  imports Complex_Main "HOL-Library.Word"
begin

text \<open>
  Shared vocabulary of the development: the machine integers of the C++ sources, the errno
  values the code returns negated, raw memory as byte lists with \<open>memcpy\<close>/\<open>memmove\<close>, and
  \<open>std::map\<close> as a key-sorted association list. The collections declared here are extended by
  the component theories and carry their proofs.
\<close>

unbundle bit_operations_syntax

section \<open>Collections\<close>

named_theorems mem_simps \<open>lengths, prefixes and bounds of raw memory operations\<close>
named_theorems world_simps \<open>what the operating system calls leave unchanged\<close>
named_theorems ep_frame \<open>which parts of an endpoint an operation leaves unchanged\<close>
named_theorems om_simps \<open>lookup laws of ordered maps\<close>

section \<open>Machine integers\<close>

type_synonym u8 = "8 word"
type_synonym u16 = "16 word"
type_synonym u32 = "32 word"
type_synonym u64 = "64 word"
type_synonym bytes = "u8 list"

abbreviation UINT32_MAX :: u32 where "UINT32_MAX \<equiv> 0xFFFFFFFF"

section \<open>Error numbers (Linux)\<close>

abbreviation ENOENT :: int where "ENOENT \<equiv> 2"
abbreviation EAGAIN :: int where "EAGAIN \<equiv> 11"
abbreviation EBUSY :: int where "EBUSY \<equiv> 16"
abbreviation EEXIST :: int where "EEXIST \<equiv> 17"
abbreviation EINVAL :: int where "EINVAL \<equiv> 22"
abbreviation EPIPE :: int where "EPIPE \<equiv> 32"
abbreviation ERANGE :: int where "ERANGE \<equiv> 34"
abbreviation ENOSYS :: int where "ENOSYS \<equiv> 38"
abbreviation ENOBUFS :: int where "ENOBUFS \<equiv> 105"

section \<open>Raw memory\<close>

text \<open>
  A malloc'ed block is the list of its bytes. \<open>memwrite d off bs\<close> is \<open>memcpy\<close> of \<open>bs\<close> to
  \<open>d + off\<close>; it keeps the length of the block exactly when the write is in bounds, so "the
  block keeps its length" is the statement that no write runs over its end.
\<close>

definition memwrite :: "'a list \<Rightarrow> nat \<Rightarrow> 'a list \<Rightarrow> 'a list" where
  "memwrite d off bs = take off d @ bs @ drop (off + length bs) d"

definition memread :: "'a list \<Rightarrow> nat \<Rightarrow> nat \<Rightarrow> 'a list" where
  "memread d off n = take n (drop off d)"

text \<open>\<open>memmove(d, d + k, n)\<close>: the source is read before the destination is written.\<close>

definition memmove_down :: "'a list \<Rightarrow> nat \<Rightarrow> nat \<Rightarrow> 'a list" where
  "memmove_down d k n = memwrite d 0 (memread d k n)"

lemma length_memwrite [mem_simps]:
  "off + length bs \<le> length d \<Longrightarrow> length (memwrite d off bs) = length d"
  by (simp add: memwrite_def)

lemma length_memread [mem_simps]:
  "off + n \<le> length d \<Longrightarrow> length (memread d off n) = n"
  by (simp add: memread_def)

lemma length_memmove_down [mem_simps]:
  "k + n \<le> length d \<Longrightarrow> length (memmove_down d k n) = length d"
  by (simp add: memmove_down_def length_memwrite length_memread)

lemma take_memwrite_append [mem_simps]:
  "off \<le> length d \<Longrightarrow> take (off + length bs) (memwrite d off bs) = take off d @ bs"
  by (simp add: memwrite_def)

lemma take_memmove_down [mem_simps]:
  "k + n \<le> length d \<Longrightarrow> take n (memmove_down d k n) = take n (drop k d)"
  by (simp add: memmove_down_def memwrite_def memread_def)

lemma take_drop_prefix [mem_simps]:
  "k \<le> m \<Longrightarrow> take (m - k) (drop k d) = drop k (take m d)"
  by (simp add: drop_take)

section \<open>Ordered maps\<close>

text \<open>
  \<open>std::map\<close> (and, where no iteration order is observed, \<open>std::unordered_map\<close>) as an
  association list in ascending key order. The interface is a locale; the list implementation
  is interpreted below and the clients use the laws.
\<close>

locale ordered_map =
  fixes get :: "'m \<Rightarrow> 'k::linorder \<Rightarrow> 'v option"
    and put :: "'k \<Rightarrow> 'v \<Rightarrow> 'm \<Rightarrow> 'm"
    and del :: "'k \<Rightarrow> 'm \<Rightarrow> 'm"
    and keys :: "'m \<Rightarrow> 'k list"
    and inv :: "'m \<Rightarrow> bool"
  assumes get_put: "inv m \<Longrightarrow> get (put k v m) = (get m)(k \<mapsto> v)"
    and get_del: "inv m \<Longrightarrow> get (del k m) = (get m)(k := None)"
    and keys_get: "inv m \<Longrightarrow> set (keys m) = dom (get m)"
    and keys_sorted: "inv m \<Longrightarrow> sorted (keys m) \<and> distinct (keys m)"
    and inv_put: "inv m \<Longrightarrow> inv (put k v m)"
    and inv_del: "inv m \<Longrightarrow> inv (del k m)"
begin

lemma get_put_same: "inv m \<Longrightarrow> get (put k v m) k = Some v"
  by (simp add: get_put)

lemma get_put_other: "inv m \<Longrightarrow> k' \<noteq> k \<Longrightarrow> get (put k v m) k' = get m k'"
  by (simp add: get_put)

lemma get_del_same: "inv m \<Longrightarrow> get (del k m) k = None"
  by (simp add: get_del)

lemma keys_put: "inv m \<Longrightarrow> set (keys (put k v m)) = insert k (set (keys m))"
  by (simp add: keys_get inv_put get_put)

lemma keys_del: "inv m \<Longrightarrow> set (keys (del k m)) = set (keys m) - {k}"
  by (simp add: keys_get inv_del get_del)

text \<open>The iteration order is determined by the content: two maps with the same lookups are
  iterated over the same keys.\<close>

lemma keys_unique: "inv m \<Longrightarrow> inv m' \<Longrightarrow> get m = get m' \<Longrightarrow> keys m = keys m'"
  using keys_sorted keys_get by (metis sorted_distinct_set_unique)

end

type_synonym ('k, 'v) omap = "('k \<times> 'v) list"

definition om_get :: "('k, 'v) omap \<Rightarrow> 'k \<Rightarrow> 'v option" where
  "om_get m k = map_of m k"

fun om_put :: "'k::linorder \<Rightarrow> 'v \<Rightarrow> ('k, 'v) omap \<Rightarrow> ('k, 'v) omap" where
  "om_put k v [] = [(k, v)]"
| "om_put k v ((k', v') # m) =
     (if k < k' then (k, v) # (k', v') # m
      else if k = k' then (k, v) # m
      else (k', v') # om_put k v m)"

definition om_del :: "'k \<Rightarrow> ('k, 'v) omap \<Rightarrow> ('k, 'v) omap" where
  "om_del k m = filter (\<lambda>e. fst e \<noteq> k) m"

definition om_keys :: "('k, 'v) omap \<Rightarrow> 'k list" where
  "om_keys m = map fst m"

definition om_inv :: "('k::linorder, 'v) omap \<Rightarrow> bool" where
  "om_inv m \<longleftrightarrow> sorted (map fst m) \<and> distinct (map fst m)"

lemma om_inv_Nil [simp]: "om_inv []"
  by (simp add: om_inv_def)

lemma om_get_Nil [simp]: "om_get [] k = None"
  by (simp add: om_get_def)

lemma set_fst_om_put: "set (map fst (om_put k v m)) = insert k (set (map fst m))"
  by (induction m rule: om_put.induct [of "\<lambda>k v m. set (map fst (om_put k v m)) = insert k (set (map fst m))"]) auto

lemma om_inv_put: "om_inv m \<Longrightarrow> om_inv (om_put k v m)"
proof (induction k v m rule: om_put.induct)
  case (2 k v k' v' m)
  have "\<forall>x\<in>set (map fst m). k' < x" if "om_inv ((k', v') # m)"
    using that by (fastforce simp: om_inv_def order.strict_iff_order)
  with 2 show ?case
    using set_fst_om_put [of k v m] by (force simp: om_inv_def)
qed (simp add: om_inv_def)

lemma om_get_put: "om_inv m \<Longrightarrow> om_get (om_put k v m) = (om_get m)(k \<mapsto> v)"
proof (induction k v m rule: om_put.induct)
  case (2 k v k' v' m)
  then have "om_inv m" by (simp add: om_inv_def)
  with 2 show ?case by (auto simp: om_get_def fun_eq_iff)
qed (simp add: om_get_def fun_eq_iff)

lemma om_get_del: "om_get (om_del k m) = (om_get m)(k := None)"
  by (induction m) (auto simp: om_get_def om_del_def fun_eq_iff)

lemma om_inv_del: "om_inv m \<Longrightarrow> om_inv (om_del k m)"
  by (simp add: om_inv_def om_del_def sorted_map distinct_map_filter sorted_wrt_filter)

interpretation om: ordered_map om_get om_put om_del om_keys om_inv
proof unfold_locales
  fix m :: "('a::linorder, 'b) omap" and k v
  assume m: "om_inv m"
  show "om_get (om_put k v m) = (om_get m)(k \<mapsto> v)" using m by (rule om_get_put)
  show "om_get (om_del k m) = (om_get m)(k := None)" by (rule om_get_del)
  show "set (om_keys m) = dom (om_get m)"
    using dom_map_of_conv_image_fst [of m] by (simp add: om_keys_def om_get_def dom_def)
  show "sorted (om_keys m) \<and> distinct (om_keys m)" using m by (simp add: om_inv_def om_keys_def)
  show "om_inv (om_put k v m)" using m by (rule om_inv_put)
  show "om_inv (om_del k m)" using m by (rule om_inv_del)
qed

lemmas om_laws [om_simps] =
  om.get_put om.get_del om.keys_put om.keys_del om.inv_put om.inv_del

section \<open>Running step functions, simulation\<close>

text \<open>
  A component is a step function from an input and a state to an output and a new state, with
  \<open>None\<close> for undefined behaviour of the C++ code. \<open>run_steps\<close> feeds it a list of inputs.
  A simulation relates such a component to a total abstract one; that the outputs of whole
  runs agree is proved once, for every instance.
\<close>

fun run_steps :: "('i \<Rightarrow> 'c \<Rightarrow> ('o \<times> 'c) option) \<Rightarrow> 'i list \<Rightarrow> 'c \<Rightarrow> ('o list \<times> 'c) option" where
  "run_steps step [] c = Some ([], c)"
| "run_steps step (i # is) c =
     (case step i c of
        None \<Rightarrow> None
      | Some (out, c') \<Rightarrow>
          (case run_steps step is c' of
             None \<Rightarrow> None
           | Some (outs, c'') \<Rightarrow> Some (out # outs, c'')))"

fun run_spec :: "('i \<Rightarrow> 'a \<Rightarrow> 'o \<times> 'a) \<Rightarrow> 'i list \<Rightarrow> 'a \<Rightarrow> 'o list \<times> 'a" where
  "run_spec spec [] a = ([], a)"
| "run_spec spec (i # is) a =
     (let (out, a') = spec i a; (outs, a'') = run_spec spec is a' in (out # outs, a''))"

text \<open>Inputs the specification admits, each in the state reached so far.\<close>

fun admitted :: "('i \<Rightarrow> 'a \<Rightarrow> 'o \<times> 'a) \<Rightarrow> ('i \<Rightarrow> 'a \<Rightarrow> bool) \<Rightarrow> 'i list \<Rightarrow> 'a \<Rightarrow> bool" where
  "admitted spec adm [] a = True"
| "admitted spec adm (i # is) a = (adm i a \<and> admitted spec adm is (snd (spec i a)))"

locale simulation =
  fixes step :: "'i \<Rightarrow> 'c \<Rightarrow> ('o \<times> 'c) option"
    and spec :: "'i \<Rightarrow> 'a \<Rightarrow> 'o \<times> 'a"
    and adm :: "'i \<Rightarrow> 'a \<Rightarrow> bool"
    and rel :: "'c \<Rightarrow> 'a \<Rightarrow> bool"
  assumes step_simulates:
    "rel c a \<Longrightarrow> adm i a \<Longrightarrow> \<exists>c'. step i c = Some (fst (spec i a), c') \<and> rel c' (snd (spec i a))"
begin

lemma run_simulates:
  "rel c a \<Longrightarrow> admitted spec adm is a \<Longrightarrow>
   \<exists>c'. run_steps step is c = Some (fst (run_spec spec is a), c') \<and> rel c' (snd (run_spec spec is a))"
proof (induction "is" arbitrary: c a)
  case Nil
  then show ?case by simp
next
  case (Cons i "is")
  from Cons.prems have adm: "adm i a" "admitted spec adm is (snd (spec i a))" by simp_all
  from step_simulates [OF Cons.prems(1) adm(1)] obtain c1
    where c1: "step i c = Some (fst (spec i a), c1)" "rel c1 (snd (spec i a))" by blast
  from Cons.IH [OF c1(2) adm(2)] obtain c2
    where "run_steps step is c1 = Some (fst (run_spec spec is (snd (spec i a))), c2)"
      and "rel c2 (snd (run_spec spec is (snd (spec i a))))" by blast
  with c1(1) show ?case by (simp add: case_prod_unfold Let_def)
qed

end

end
