(* ===== verification/Serial.thy ===== *)
theory Serial
  imports Prelude
begin

text \<open>
  The attributes of a serial line (\<open>struct termios\<close> and \<open>termios2\<close>): the flags with their values on Linux, the
  changes \<open>reset_uart\<close> (common/xtermios.cpp) and \<open>UartEndpoint\<close> (endpoint.cpp) make to them, and what is left of the
  old attributes after them. The kernel keeps 19 control characters; the structure of the C library has 32.
\<close>

section \<open>Attributes\<close>

record termios =
  c_iflag :: u32
  c_oflag :: u32
  c_cflag :: u32
  c_lflag :: u32
  c_cc :: bytes
  c_ispeed :: u32
  c_ospeed :: u32

abbreviation KERNEL_NCCS :: nat where "KERNEL_NCCS \<equiv> 19"
abbreviation NCCS :: nat where "NCCS \<equiv> 32"
abbreviation VTIME :: nat where "VTIME \<equiv> 5"
abbreviation VMIN :: nat where "VMIN \<equiv> 6"

abbreviation CSIZE :: u32 where "CSIZE \<equiv> 0x30"
abbreviation CS8 :: u32 where "CS8 \<equiv> 0x30"
abbreviation CREAD :: u32 where "CREAD \<equiv> 0x80"
abbreviation PARENB :: u32 where "PARENB \<equiv> 0x100"
abbreviation CLOCAL :: u32 where "CLOCAL \<equiv> 0x800"
abbreviation CBAUD :: u32 where "CBAUD \<equiv> 0x100F"
abbreviation B1200 :: u32 where "B1200 \<equiv> 0x9"
abbreviation BOTHER :: u32 where "BOTHER \<equiv> 0x1000"
abbreviation CRTSCTS :: u32 where "CRTSCTS \<equiv> 0x80000000"

section \<open>Reset\<close>

text \<open>The flags \<open>reset_uart\<close> sets and clears: \<open>BRKINT | ICRNL | IMAXBEL\<close> and
  \<open>INLCR | IGNCR | IUTF8 | IXOFF | IUCLC | IXANY\<close>; \<open>OPOST | ONLCR\<close> and \<open>OLCUC | OCRNL | ONLRET | OFILL | OFDEL\<close> (the others are 0);
  \<open>ISIG | ICANON | IEXTEN | ECHO | ECHOE | ECHOK | ECHOCTL | ECHOKE\<close> and \<open>ECHONL | NOFLSH | XCASE | TOSTOP | ECHOPRT\<close>.\<close>

definition iflags_set :: u32 where "iflags_set = 0x2 OR 0x100 OR 0x2000"
definition iflags_clear :: u32 where "iflags_clear = 0x40 OR 0x80 OR 0x4000 OR 0x1000 OR 0x200 OR 0x800"
definition oflags_set :: u32 where "oflags_set = 0x1 OR 0x4"
definition oflags_clear :: u32 where "oflags_clear = 0x2 OR 0x8 OR 0x20 OR 0x40 OR 0x80"
definition lflags_set :: u32 where "lflags_set = 0x1 OR 0x2 OR 0x8000 OR 0x8 OR 0x10 OR 0x20 OR 0x200 OR 0x800"
definition lflags_clear :: u32 where "lflags_clear = 0x40 OR 0x80 OR 0x4 OR 0x100 OR 0x400"

definition default_cc :: bytes where
  "default_cc = [0x03, 0x1C, 0x7F, 0x15, 0x04, 0, 0, 0, 0x11, 0x13, 0x1A, 0, 0x12, 0x0F, 0x17, 0x16] @ replicate 16 0"

definition sane :: "termios \<Rightarrow> termios" where
  "sane tc =
     tc\<lparr>c_cflag := CREAD,
        c_iflag := (c_iflag tc OR iflags_set) AND NOT iflags_clear,
        c_oflag := (c_oflag tc OR oflags_set) AND NOT oflags_clear,
        c_lflag := (c_lflag tc OR lflags_set) AND NOT lflags_clear,
        c_cc := default_cc\<rparr>"

text \<open>\<open>cfsetspeed\<close> writes the code of the speed into the control flags, too.\<close>

definition cfsetspeed_1200 :: "termios \<Rightarrow> termios" where
  "cfsetspeed_1200 tc = tc\<lparr>c_ispeed := 1200, c_ospeed := 1200, c_cflag := (c_cflag tc AND NOT CBAUD) OR B1200\<rparr>"

section \<open>Raw lines\<close>

text \<open>The flags \<open>UartEndpoint::open\<close> clears: \<open>IGNBRK | BRKINT | ICRNL | INLCR | PARMRK | INPCK | ISTRIP | IXON\<close>,
  \<open>OCRNL | ONLCR | ONLRET | ONOCR | OFILL | OPOST\<close>, and \<open>ECHO | ECHOE | ECHOK | ECHOCTL | ECHOKE | ECHONL | ICANON | IEXTEN | ISIG\<close>
  with \<open>TOSTOP\<close>.\<close>

definition raw_iflags :: u32 where "raw_iflags = 0x1 OR 0x2 OR 0x100 OR 0x40 OR 0x8 OR 0x10 OR 0x20 OR 0x400"
definition raw_oflags :: u32 where "raw_oflags = 0x8 OR 0x4 OR 0x20 OR 0x10 OR 0x40 OR 0x1"
definition raw_lflags :: u32 where "raw_lflags = 0x8 OR 0x10 OR 0x20 OR 0x200 OR 0x800 OR 0x40 OR 0x2 OR 0x8000 OR 0x1 OR 0x100"

definition raw_line :: "termios \<Rightarrow> termios" where
  "raw_line tc =
     tc\<lparr>c_iflag := c_iflag tc AND NOT raw_iflags,
        c_oflag := c_oflag tc AND NOT raw_oflags,
        c_lflag := c_lflag tc AND NOT raw_lflags,
        c_cflag := (c_cflag tc AND NOT CRTSCTS AND NOT (CSIZE OR PARENB)) OR CLOCAL OR CS8,
        c_cc := (c_cc tc)[VMIN := 0, VTIME := 0]\<rparr>"

definition with_speed :: "u32 \<Rightarrow> termios \<Rightarrow> termios" where
  "with_speed baudrate tc =
     tc\<lparr>c_cflag := (c_cflag tc AND NOT CBAUD) OR BOTHER, c_ispeed := baudrate, c_ospeed := baudrate\<rparr>"

definition with_flow_control :: "bool \<Rightarrow> termios \<Rightarrow> termios" where
  "with_flow_control enabled tc =
     tc\<lparr>c_cflag := (if enabled then c_cflag tc OR CRTSCTS else c_cflag tc AND NOT CRTSCTS)\<rparr>"

section \<open>What is left of the old attributes\<close>

text \<open>A line is raw when no character is changed, echoed or given a meaning in either direction. The flags that must be off are
  listed by the numbers of their bits, as the manual page of \<open>termios\<close> has them: on input \<open>IGNBRK\<close>, \<open>BRKINT\<close>, \<open>PARMRK\<close>, \<open>INPCK\<close>,
  \<open>ISTRIP\<close>, \<open>INLCR\<close>, \<open>IGNCR\<close>, \<open>ICRNL\<close>, \<open>IUCLC\<close>, \<open>IXON\<close>, \<open>IXANY\<close>, \<open>IXOFF\<close>; on output \<open>OPOST\<close>, \<open>OLCUC\<close>, \<open>ONLCR\<close>, \<open>OCRNL\<close>,
  \<open>ONOCR\<close>, \<open>ONLRET\<close>, \<open>OFILL\<close>; of the terminal \<open>ISIG\<close>, \<open>ICANON\<close>, \<open>XCASE\<close>, \<open>ECHO\<close>, \<open>ECHOE\<close>, \<open>ECHOK\<close>, \<open>ECHONL\<close>, \<open>TOSTOP\<close>, \<open>ECHOCTL\<close>,
  \<open>ECHOPRT\<close>, \<open>ECHOKE\<close>, \<open>IEXTEN\<close>. A read returns what is there (\<open>VMIN\<close> and \<open>VTIME\<close> are 0).\<close>

definition is_raw :: "termios \<Rightarrow> bool" where
  "is_raw tc \<longleftrightarrow>
     list_all (\<lambda>i. \<not> bit (c_iflag tc) i) [0, 1, 3, 4, 5, 6, 7, 8, 9, 10, 11, 12] \<and>
     list_all (\<lambda>i. \<not> bit (c_oflag tc) i) [0, 1, 2, 3, 4, 5, 6] \<and>
     list_all (\<lambda>i. \<not> bit (c_lflag tc) i) [0, 1, 2, 3, 4, 5, 6, 8, 9, 10, 11, 15] \<and>
     c_cc tc ! VMIN = 0 \<and> c_cc tc ! VTIME = 0"

lemma set_and_clear: "s AND c = 0 \<Longrightarrow> (((w :: u32) OR s) AND NOT c) AND (s OR c) = s"
proof (rule bit_word_eqI)
  fix n
  assume d: "s AND c = 0" and n: "n < LENGTH(32)"
  have "\<not> (bit s n \<and> bit c n)" using arg_cong [OF d, of "\<lambda>x. bit x n"] by (simp add: bit_simps)
  then show "bit (((w OR s) AND NOT c) AND (s OR c)) n = bit s n" using n by (auto simp: bit_simps)
qed

text \<open>The flags a reset is about do not depend on what they were before.\<close>

lemma sane_known_flags:
  "c_iflag (sane tc) AND (iflags_set OR iflags_clear) = iflags_set" "c_oflag (sane tc) AND (oflags_set OR oflags_clear) = oflags_set"
  "c_lflag (sane tc) AND (lflags_set OR lflags_clear) = lflags_set"
proof -
  have "iflags_set AND iflags_clear = 0" "oflags_set AND oflags_clear = 0" "lflags_set AND lflags_clear = 0"
    by (simp_all add: iflags_set_def iflags_clear_def oflags_set_def oflags_clear_def lflags_set_def lflags_clear_def)
  from set_and_clear [OF this(1)] set_and_clear [OF this(2)] set_and_clear [OF this(3)]
  show "c_iflag (sane tc) AND (iflags_set OR iflags_clear) = iflags_set" "c_oflag (sane tc) AND (oflags_set OR oflags_clear) = oflags_set"
    "c_lflag (sane tc) AND (lflags_set OR lflags_clear) = lflags_set"
    by (simp_all add: sane_def)
qed

lemma cleared_bits: "list_all (bit (c OR r)) is \<Longrightarrow> list_all (\<lambda>i. \<not> bit ((((x :: u32) OR s) AND NOT c) AND NOT r) i) is"
  by (auto simp: list_all_iff bit_simps)

text \<open>Every flag of a line that is not raw is cleared by the reset or by \<open>open\<close>.\<close>

lemma masks_cover:
  "list_all (bit (iflags_clear OR raw_iflags)) [0, 1, 3, 4, 5, 6, 7, 8, 9, 10, 11, 12]"
  "list_all (bit (oflags_clear OR raw_oflags)) [0, 1, 2, 3, 4, 5, 6]"
  "list_all (bit (lflags_clear OR raw_lflags)) [0, 1, 2, 3, 4, 5, 6, 8, 9, 10, 11, 15]"
  by (simp_all add: raw_iflags_def raw_oflags_def raw_lflags_def iflags_clear_def oflags_clear_def lflags_clear_def)

lemma sane_then_raw: "is_raw (raw_line (t\<lparr>c_cc := take KERNEL_NCCS (c_cc t)\<rparr>))" if "t = cfsetspeed_1200 (sane tc)"
  using masks_cover [THEN cleared_bits]
  by (simp add: that is_raw_def raw_line_def cfsetspeed_1200_def sane_def default_cc_def del: list.pred_inject)

lemma raw_kept [simp]: "is_raw (with_speed b tc) = is_raw tc" "is_raw (with_flow_control f tc) = is_raw tc"
  by (simp_all add: is_raw_def with_speed_def with_flow_control_def)

text \<open>The control flags of a line that was reset, made raw and given a speed are known completely: eight bits, no parity, one stop bit,
  modem lines ignored, flow control as asked for.\<close>

lemma control_flags:
  "c_cflag (with_speed b (raw_line (cfsetspeed_1200 (sane tc)))) = CREAD OR CLOCAL OR CS8 OR BOTHER"
  "c_cflag (with_flow_control True (with_speed b (raw_line (cfsetspeed_1200 (sane tc))))) = CREAD OR CLOCAL OR CS8 OR BOTHER OR CRTSCTS"
  by (simp_all add: with_speed_def with_flow_control_def raw_line_def cfsetspeed_1200_def sane_def)

end
