(* ===== verification/World.thy ===== *)
theory World
  imports Serial
begin

text \<open>
  What the router's objects share: the operating system (steady clock, sockets, epoll, timer
  file descriptors) and the parts of the \<open>Mainloop\<close> singleton every endpoint reaches through
  \<open>Mainloop::get_instance()\<close>, namely the list of \<open>Timeout\<close> objects and the flag
  \<open>should_process_tcp_hangups\<close> (mainloop.h, mainloop.cpp, timeout.cpp).

  The system's answers are inputs of the model: the \<open>k\<close>-th reading of the clock, the result of
  the \<open>k\<close>-th \<open>write\<close>/\<open>sendto\<close>, of the \<open>k\<close>-th \<open>read\<close>/\<open>recvfrom\<close> and of the \<open>k\<close>-th other
  call are functions of the call counter; \<open>w_inet\<close> is the address a textual one stands for,
  \<open>w_norm6\<close> the text \<open>inet_ntop\<close> makes of an IPv6 address, \<open>w_ifaddrs\<close> what \<open>getifaddrs\<close> lists and
  \<open>w_ifindex\<close> the number of an interface; \<open>w_timerfd_ok t\<close> says that the \<open>t\<close>-th timer is created and registered. What the code hands to the system is recorded:
  \<open>w_wire\<close> lists the bytes the kernel took, per call and file descriptor, \<open>w_tty\<close> are the attributes of
  the serial line behind a descriptor, \<open>w_low_latency\<close> the lines asked for low latency, and \<open>w_stdout\<close> the text printed. Timers are polled for input as long as they exist, and their
  registration is not part of \<open>w_epoll\<close>.
\<close>

section \<open>State\<close>

record sockaddr =
  sa_addr :: bytes
  sa_port :: u16
  sa_scope :: u32

text \<open>An address of an interface: its text, if it is one of IPv6, possibly with the name of the interface at the end.\<close>

record ifaddr =
  ifa_name :: string
  ifa_host6 :: "string option"

datatype snd_res = SndOk nat | SndErr int
datatype rcv_res = RcvOk bytes sockaddr | RcvErr nat

record itimerspec =
  it_sec :: nat
  it_nsec :: nat

datatype callback =
    CbFlush nat
  | CbNoMessage nat
  | CbRetry nat
  | CbChangeBaud nat
  | CbResend
  | CbLogAggregate
  | CbPrintStatistics
  | CbLoggingStart nat
  | CbLogFsync nat
  | CbLogAlive nat

text \<open>\<open>class Timeout\<close> (timeout.h): the callback and the mark that asks for its removal. Its
  file descriptor is the number of the timer.\<close>

record timeout =
  to_id :: nat
  remove_me :: bool
  to_cb :: callback

record world =
  w_clock :: "nat \<Rightarrow> int"
  w_tick :: nat
  w_snd :: "nat \<Rightarrow> snd_res"
  w_sndtick :: nat
  w_rcv :: "nat \<Rightarrow> rcv_res"
  w_rcvtick :: nat
  w_sys :: "nat \<Rightarrow> int"
  w_systick :: nat
  w_inet :: "string \<Rightarrow> bytes"
  w_norm6 :: "string \<Rightarrow> string"
  w_ifaddrs :: "ifaddr list"
  w_ifindex :: "string \<Rightarrow> u32"
  w_tty :: "int \<Rightarrow> termios"
  w_low_latency :: "int set"
  w_stdout :: string
  w_junk :: "nat \<Rightarrow> u8"
  w_wire :: "(int \<times> bytes) list"
  w_epoll :: "int \<rightharpoonup> bool"
  w_timerfd_ok :: "nat \<Rightarrow> bool"
  w_next_timer :: nat
  w_timer :: "nat \<Rightarrow> itimerspec"
  w_timeouts :: "timeout list"
  should_process_tcp_hangups :: bool

section \<open>System calls\<close>

definition steady_now :: "world \<Rightarrow> int \<times> world" where
  "steady_now w = (w_clock w (w_tick w), w\<lparr>w_tick := Suc (w_tick w)\<rparr>)"

definition sys_send :: "int \<Rightarrow> bytes \<Rightarrow> world \<Rightarrow> snd_res \<times> world" where
  "sys_send fd bs w =
     (let res = w_snd w (w_sndtick w); w1 = w\<lparr>w_sndtick := Suc (w_sndtick w)\<rparr>
      in case res of
           SndOk n \<Rightarrow> (res, w1\<lparr>w_wire := w_wire w @ [(fd, take n bs)]\<rparr>)
         | SndErr e \<Rightarrow> (res, w1))"

definition sys_recv :: "nat \<Rightarrow> world \<Rightarrow> rcv_res \<times> world" where
  "sys_recv len w =
     (let w1 = w\<lparr>w_rcvtick := Suc (w_rcvtick w)\<rparr>
      in case w_rcv w (w_rcvtick w) of
           RcvOk bs a \<Rightarrow> (RcvOk (take len bs) a, w1)
         | RcvErr e \<Rightarrow> (RcvErr e, w1))"

text \<open>A fresh block of memory has some content.\<close>

definition malloc :: "nat \<Rightarrow> world \<Rightarrow> bytes" where
  "malloc n w = map (w_junk w) [0..<n]"

definition sys_call :: "world \<Rightarrow> int \<times> world" where
  "sys_call w = (w_sys w (w_systick w), w\<lparr>w_systick := Suc (w_systick w)\<rparr>)"

text \<open>Serial lines: the C library's \<open>tcgetattr\<close> and \<open>tcsetattr\<close>, and \<open>TCGETS2\<close> and \<open>TCSETS2\<close>. A call that succeeds takes all
  attributes.\<close>

definition tty_get :: "int \<Rightarrow> world \<Rightarrow> int \<times> termios \<times> world" where
  "tty_get fd w = (let (r, w1) = sys_call w in (r, w_tty w fd, w1))"

definition tty_set :: "int \<Rightarrow> termios \<Rightarrow> world \<Rightarrow> int \<times> world" where
  "tty_set fd tc w =
     (let (r, w1) = sys_call w in (r, if r = -1 then w1 else w1\<lparr>w_tty := (w_tty w1)(fd := tc)\<rparr>))"

definition tcgetattr :: "int \<Rightarrow> world \<Rightarrow> int \<times> termios \<times> world" where
  "tcgetattr fd w =
     (let (r, tc, w1) = tty_get fd w in (r, tc\<lparr>c_cc := c_cc tc @ replicate (NCCS - KERNEL_NCCS) 0\<rparr>, w1))"

definition tcsetattr :: "int \<Rightarrow> termios \<Rightarrow> world \<Rightarrow> int \<times> world" where
  "tcsetattr fd tc w = tty_set fd (tc\<lparr>c_cc := take KERNEL_NCCS (c_cc tc)\<rparr>) w"

section \<open>Epoll registration\<close>

text \<open>\<open>w_epoll fd\<close> is \<open>Some out\<close> for a registered descriptor, always polled for input and
  for output when \<open>out\<close> holds. \<open>epoll_ctl\<close> fails on a descriptor that is (not) registered.\<close>

definition mod_fd :: "int \<Rightarrow> bool \<Rightarrow> world \<Rightarrow> int \<times> world" where
  "mod_fd fd out w =
     (if w_epoll w fd = None then (-1, w)
      else (0, w\<lparr>w_epoll := (w_epoll w)(fd \<mapsto> out)\<rparr>))"

definition add_fd :: "int \<Rightarrow> bool \<Rightarrow> world \<Rightarrow> int \<times> world" where
  "add_fd fd out w =
     (if w_epoll w fd \<noteq> None then (-1, w)
      else (0, w\<lparr>w_epoll := (w_epoll w)(fd \<mapsto> out)\<rparr>))"

definition remove_fd :: "int \<Rightarrow> world \<Rightarrow> int \<times> world" where
  "remove_fd fd w =
     (if w_epoll w fd = None then (-1, w)
      else (0, w\<lparr>w_epoll := (w_epoll w)(fd := None)\<rparr>))"

section \<open>Timeouts\<close>

definition mod_timeout :: "nat \<Rightarrow> u32 \<Rightarrow> world \<Rightarrow> world" where
  "mod_timeout t timeout_msec w =
     (let ts = \<lparr>it_sec = unat timeout_msec div 1000,
                it_nsec = (unat timeout_msec mod 1000) * 1000000\<rparr>
      in w\<lparr>w_timer := (w_timer w)(t := ts)\<rparr>)"

definition timer_armed :: "world \<Rightarrow> nat \<Rightarrow> bool" where
  "timer_armed w t \<longleftrightarrow> it_sec (w_timer w t) \<noteq> 0 \<or> it_nsec (w_timer w t) \<noteq> 0"

definition add_timeout :: "u32 \<Rightarrow> callback \<Rightarrow> world \<Rightarrow> nat option \<times> world" where
  "add_timeout timeout_msec cb w =
     (let t = w_next_timer w; w1 = w\<lparr>w_next_timer := Suc t\<rparr>
      in if w_timerfd_ok w t then
           (Some t, (mod_timeout t timeout_msec w1)
                      \<lparr>w_timeouts := \<lparr>to_id = t, remove_me = False, to_cb = cb\<rparr> # w_timeouts w\<rparr>)
         else (None, w1))"

definition del_timeout :: "nat \<Rightarrow> world \<Rightarrow> world" where
  "del_timeout t w =
     w\<lparr>w_timeouts := map (\<lambda>x. if to_id x = t then x\<lparr>remove_me := True\<rparr> else x) (w_timeouts w)\<rparr>"

text \<open>\<open>Mainloop::_del_timeouts\<close>: first the leading marked objects are dropped, then the rest
  of the list is walked with a previous and a current pointer.\<close>

fun del_leading :: "timeout list \<Rightarrow> timeout list" where
  "del_leading [] = []"
| "del_leading (t # ts) = (if remove_me t then del_leading ts else t # ts)"

fun del_following :: "timeout \<Rightarrow> timeout list \<Rightarrow> timeout list" where
  "del_following prev [] = [prev]"
| "del_following prev (current # ts) =
     (if remove_me current then del_following prev ts
      else prev # del_following current ts)"

definition del_timeouts :: "world \<Rightarrow> world" where
  "del_timeouts w =
     w\<lparr>w_timeouts := (case del_leading (w_timeouts w) of
                        [] \<Rightarrow> [] | t # ts \<Rightarrow> del_following t ts)\<rparr>"

text \<open>\<open>Timeout::handle_read\<close>: the callback runs unless the timer reported no expiry or the
  object was marked; a callback that returns false marks it.\<close>

definition timeout_due :: "int \<Rightarrow> nat \<Rightarrow> timeout \<Rightarrow> bool" where
  "timeout_due ret val t \<longleftrightarrow> \<not> (ret < 1 \<or> val = 0 \<or> remove_me t)"

definition timeout_after_cb :: "timeout \<Rightarrow> bool \<Rightarrow> world \<Rightarrow> world" where
  "timeout_after_cb t cb_result w = (if cb_result then w else del_timeout (to_id t) w)"

section \<open>Lemmas\<close>

text \<open>The bytes sent on one descriptor, in order.\<close>

definition wire_of :: "int \<Rightarrow> world \<Rightarrow> bytes" where
  "wire_of fd w = concat (map snd (filter (\<lambda>p. fst p = fd) (w_wire w)))"

lemma sys_send_wire:
  assumes "sys_send fd bs w = (res, w')"
  shows "wire_of fd w' = wire_of fd w @ (case res of SndOk n \<Rightarrow> take n bs | SndErr _ \<Rightarrow> [])"
    and "fd' \<noteq> fd \<Longrightarrow> wire_of fd' w' = wire_of fd' w"
    and "res = w_snd w (w_sndtick w)"
  using assms by (auto simp: sys_send_def wire_of_def Let_def split: snd_res.splits)

lemma sys_send_frame [world_simps]:
  assumes "sys_send fd bs w = (res, w')"
  shows "w_epoll w' = w_epoll w" "w_timer w' = w_timer w" "w_timeouts w' = w_timeouts w"
    and "w_snd w' = w_snd w" "w_sndtick w' = Suc (w_sndtick w)"
    and "w_clock w' = w_clock w" "w_tick w' = w_tick w"
    and "should_process_tcp_hangups w' = should_process_tcp_hangups w"
  using assms by (auto simp: sys_send_def Let_def split: snd_res.splits)

lemma mod_timeout_frame [simp]:
  "w_wire (mod_timeout t ms w) = w_wire w" "w_snd (mod_timeout t ms w) = w_snd w"
  "w_sndtick (mod_timeout t ms w) = w_sndtick w" "w_epoll (mod_timeout t ms w) = w_epoll w"
  "w_clock (mod_timeout t ms w) = w_clock w" "w_tick (mod_timeout t ms w) = w_tick w"
  "w_timeouts (mod_timeout t ms w) = w_timeouts w"
  "should_process_tcp_hangups (mod_timeout t ms w) = should_process_tcp_hangups w"
  "wire_of fd (mod_timeout t ms w) = wire_of fd w"
  by (simp_all add: mod_timeout_def wire_of_def)

lemma div_mod_zero_iff: "(n div 1000 = 0 \<and> n mod 1000 = 0) = (n = (0::nat))"
  using div_mult_mod_eq [of n 1000] by auto

lemma timer_armed_mod_timeout [simp]:
  "timer_armed (mod_timeout t ms w) t' = (if t' = t then ms \<noteq> 0 else timer_armed w t')"
proof -
  have "(unat ms div 1000 = 0 \<and> unat ms mod 1000 = 0) = (ms = 0)"
    by (simp only: div_mod_zero_iff unat_eq_zero)
  then have "(unat ms div 1000 \<noteq> 0 \<or> unat ms mod 1000 \<noteq> 0) = (ms \<noteq> 0)" by argo
  then show ?thesis
    by (simp add: timer_armed_def mod_timeout_def)
qed

lemma del_following_filter:
  "\<not> remove_me prev \<Longrightarrow> del_following prev ts = prev # filter (\<lambda>t. \<not> remove_me t) ts"
  by (induction prev ts rule: del_following.induct) auto

lemma del_leading_Cons: "del_leading ts = t # ts' \<Longrightarrow> \<not> remove_me t"
  by (induction ts) (auto split: if_splits)

lemma filter_del_leading:
  "filter (\<lambda>t. \<not> remove_me t) (del_leading ts) = filter (\<lambda>t. \<not> remove_me t) ts"
  by (induction ts) auto

lemma w_timeouts_del_timeouts [world_simps]:
  "w_timeouts (del_timeouts w) = filter (\<lambda>t. \<not> remove_me t) (w_timeouts w)"
proof (cases "del_leading (w_timeouts w)")
  case Nil
  then show ?thesis
    using filter_del_leading [of "w_timeouts w"] by (simp add: del_timeouts_def)
next
  case (Cons t ts)
  then have "\<not> remove_me t" by (rule del_leading_Cons)
  with Cons show ?thesis
    using filter_del_leading [of "w_timeouts w"]
    by (simp add: del_timeouts_def del_following_filter)
qed

section \<open>Properties\<close>

text \<open>A world for examples: the kernel takes three bytes at a time and refuses every other
  write, timers can be created, calls return 7 and nothing is received.\<close>

definition ex_tty :: termios where
  "ex_tty = \<lparr>c_iflag = 0x500, c_oflag = 0x5, c_cflag = 0xBF, c_lflag = 0x8A3B, c_cc = replicate KERNEL_NCCS 1, c_ispeed = 38400, c_ospeed = 38400\<rparr>"

definition ex_world :: world where
  "ex_world =
     \<lparr>w_clock = int, w_tick = 0, w_snd = (\<lambda>k. if even k then SndOk 3 else SndErr EAGAIN), w_sndtick = 0,
      w_rcv = (\<lambda>_. RcvErr 11), w_rcvtick = 0, w_sys = (\<lambda>_. 7), w_systick = 0,
      w_inet = (\<lambda>_. [127, 0, 0, 1]), w_norm6 = (\<lambda>x. x), w_ifaddrs = [], w_ifindex = (\<lambda>_. 0),
      w_tty = (\<lambda>_. ex_tty), w_low_latency = {}, w_stdout = [],
      w_junk = (\<lambda>_. 0), w_wire = [], w_epoll = Map.empty, w_timerfd_ok = (\<lambda>_. True), w_next_timer = 1,
      w_timer = (\<lambda>_. \<lparr>it_sec = 0, it_nsec = 0\<rparr>), w_timeouts = [], should_process_tcp_hangups = False\<rparr>"

text \<open>\<open>Mainloop::_del_timeouts\<close>, which first drops marked objects from the front of the list
  and then unlinks the others with two pointers, removes exactly the timeouts marked for
  removal, keeps the order of the rest and changes nothing else.\<close>

theorem del_timeouts_exact:
  "del_timeouts w = w\<lparr>w_timeouts := filter (\<lambda>t. \<not> remove_me t) (w_timeouts w)\<rparr>"
  using w_timeouts_del_timeouts [of w] by (simp add: del_timeouts_def)

text \<open>\<open>Mainloop::mod_timeout\<close> arms a timer with exactly the requested number of
  milliseconds, and with a nanosecond part the kernel accepts.\<close>

lemma mod_timeout_exact:
  "it_sec (w_timer (mod_timeout t ms w) t) * 1000000000 + it_nsec (w_timer (mod_timeout t ms w) t) = unat ms * 1000000
   \<and> it_nsec (w_timer (mod_timeout t ms w) t) < 1000000000"
proof -
  obtain d m where d: "unat ms div 1000 = d" and m: "unat ms mod 1000 = m" by simp
  have "d * 1000 + m = unat ms" using div_mult_mod_eq [of "unat ms" 1000] by (simp add: d m)
  moreover have "m < 1000" using m by auto
  ultimately show ?thesis unfolding mod_timeout_def by (simp add: d m)
qed

end
