(* ===== verification/Wire.thy ===== *)
theory Wire
  imports Prelude
begin

text \<open>
  Messages in memory and on the wire: \<open>struct buffer\<close> (comm.h), the MAVLink 1 and 2 headers
  and the owned copy \<open>CachedMsg\<close> (endpoint.h), and the part of the MAVLink C library the
  router calls. That library is a submodule and not part of the sources, so it is the
  parameter \<open>mavlib\<close>: its constants, the message table and the checksum. What the proofs need
  of it is the predicate \<open>mavlib_ok\<close>.
\<close>

section \<open>Message information\<close>

text \<open>\<open>payload\<close> is a pointer into the data of the buffer: the offset, or \<open>None\<close> for a null
  pointer.\<close>

record msg_info =
  msg_id :: u32
  target_sysid :: int
  target_compid :: int
  src_sysid :: u8
  src_compid :: u8
  payload_len :: u8
  payload :: "nat option"

record buffer =
  b_data :: bytes
  b_curr :: msg_info

abbreviation b_len :: "buffer \<Rightarrow> nat" where
  "b_len b \<equiv> length (b_data b)"

section \<open>The MAVLink library\<close>

record msg_entry =
  me_msgid :: u32
  me_crc_extra :: u8
  me_max_msg_len :: u8
  me_flags :: u8
  me_target_system_ofs :: u8
  me_target_component_ofs :: u8

record mavlib =
  STX2 :: u8
  STX1 :: u8
  IFLAG_SIGNED :: u8
  SIGNATURE_BLOCK_LEN :: nat
  MAX_PACKET_LEN :: nat
  FLAG_HAVE_TARGET_SYSTEM :: u8
  FLAG_HAVE_TARGET_COMPONENT :: u8
  get_msg_entry :: "u32 \<Rightarrow> msg_entry option"
  crc_calculate :: "bytes \<Rightarrow> u16"
  crc_accumulate :: "u8 \<Rightarrow> u16 \<Rightarrow> u16"

text \<open>The start markers differ, and the longest packet (header, 255 bytes of payload,
  checksum, signature) fits \<open>MAVLINK_MAX_PACKET_LEN\<close>.\<close>

definition mavlib_ok :: "mavlib \<Rightarrow> bool" where
  "mavlib_ok M \<longleftrightarrow> STX2 M \<noteq> STX1 M \<and> 10 + 255 + 2 + SIGNATURE_BLOCK_LEN M \<le> MAX_PACKET_LEN M"

section \<open>Wire headers\<close>

record mavlink2_header =
  h2_magic :: u8
  h2_payload_len :: u8
  h2_incompat_flags :: u8
  h2_compat_flags :: u8
  h2_seq :: u8
  h2_sysid :: u8
  h2_compid :: u8
  h2_msgid :: u32

abbreviation sizeof_mavlink2_header :: nat where "sizeof_mavlink2_header \<equiv> 10"

text \<open>The packed struct laid over the bytes; \<open>msgid\<close> is a 24 bit field, stored little endian.\<close>

definition mavlink2_header_at :: "bytes \<Rightarrow> mavlink2_header" where
  "mavlink2_header_at d =
     \<lparr>h2_magic = d ! 0, h2_payload_len = d ! 1, h2_incompat_flags = d ! 2,
      h2_compat_flags = d ! 3, h2_seq = d ! 4, h2_sysid = d ! 5, h2_compid = d ! 6,
      h2_msgid = ucast (d ! 7) OR push_bit 8 (ucast (d ! 8)) OR push_bit 16 (ucast (d ! 9))\<rparr>"

record mavlink1_header =
  h1_magic :: u8
  h1_payload_len :: u8
  h1_seq :: u8
  h1_sysid :: u8
  h1_compid :: u8
  h1_msgid :: u8

abbreviation sizeof_mavlink1_header :: nat where "sizeof_mavlink1_header \<equiv> 6"

definition mavlink1_header_at :: "bytes \<Rightarrow> mavlink1_header" where
  "mavlink1_header_at d =
     \<lparr>h1_magic = d ! 0, h1_payload_len = d ! 1, h1_seq = d ! 2, h1_sysid = d ! 3,
      h1_compid = d ! 4, h1_msgid = d ! 5\<rparr>"

section \<open>Cached messages\<close>

record cached_msg =
  cm_data :: bytes
  cm_curr :: msg_info
  cm_payload_ofs :: nat

definition CachedMsg :: "buffer \<Rightarrow> cached_msg" where
  "CachedMsg buf =
     \<lparr>cm_data = b_data buf, cm_curr = b_curr buf,
      cm_payload_ofs = (case payload (b_curr buf) of None \<Rightarrow> 0 | Some ofs \<Rightarrow> ofs)\<rparr>"

definition as_buffer :: "cached_msg \<Rightarrow> buffer" where
  "as_buffer cm =
     \<lparr>b_data = cm_data cm, b_curr = (cm_curr cm)\<lparr>payload := Some (cm_payload_ofs cm)\<rparr>\<rparr>"

text \<open>The view on a cached message is the message, down to the payload pointer.\<close>

lemma as_buffer_CachedMsg:
  "payload (b_curr buf) \<noteq> None \<Longrightarrow> as_buffer (CachedMsg buf) = buf"
  by (auto simp: as_buffer_def CachedMsg_def)

lemma b_data_as_buffer [simp]: "b_data (as_buffer cm) = cm_data cm"
  by (simp add: as_buffer_def)

lemma msg_id_as_buffer [simp]: "msg_id (b_curr (as_buffer cm)) = msg_id (cm_curr cm)"
  by (simp add: as_buffer_def)

lemma cm_data_CachedMsg [simp]: "cm_data (CachedMsg buf) = b_data buf"
  by (simp add: CachedMsg_def)

lemma cm_curr_CachedMsg [simp]: "cm_curr (CachedMsg buf) = b_curr buf"
  by (simp add: CachedMsg_def)

section \<open>Properties\<close>

text \<open>A message kept by value and viewed again through \<open>CachedMsg::as_buffer\<close> is the message,
  with its payload pointer at the same place of the copied data.\<close>

lemma cached_msg_roundtrip:
  "payload (b_curr buf) \<noteq> None \<Longrightarrow> as_buffer (CachedMsg buf) = buf"
  by (rule as_buffer_CachedMsg)

text \<open>A small instance of the library: one known message with a toy checksum.\<close>

definition ex_mavlib :: mavlib where
  "ex_mavlib =
     \<lparr>STX2 = 253, STX1 = 254, IFLAG_SIGNED = 1, SIGNATURE_BLOCK_LEN = 13, MAX_PACKET_LEN = 280,
      FLAG_HAVE_TARGET_SYSTEM = 1, FLAG_HAVE_TARGET_COMPONENT = 2,
      get_msg_entry = [33 \<mapsto> \<lparr>me_msgid = 33, me_crc_extra = 104, me_max_msg_len = 28, me_flags = 0,
                               me_target_system_ofs = 0, me_target_component_ofs = 0\<rparr>],
      crc_calculate = (\<lambda>bs. of_nat (length bs)), crc_accumulate = (\<lambda>x c. c + ucast x)\<rparr>"

lemma mavlib_ok_ex [simp]: "mavlib_ok ex_mavlib" "MAX_PACKET_LEN ex_mavlib = 280"
  "STX2 ex_mavlib = 253" "STX1 ex_mavlib = 254"
  by (simp_all add: mavlib_ok_def ex_mavlib_def)

definition ex_buffer :: buffer where
  "ex_buffer =
     \<lparr>b_data = [254, 0, 5, 1, 2, 0, 9, 9],
      b_curr = \<lparr>msg_id = 0, target_sysid = -1, target_compid = -1, src_sysid = 1, src_compid = 2,
                payload_len = 0, payload = Some 6\<rparr>\<rparr>"

lemma cached_msg_roundtrip_witness: "as_buffer (CachedMsg ex_buffer) = ex_buffer"
  using cached_msg_roundtrip [of ex_buffer] by (simp add: ex_buffer_def)

end
