(* ===== verification/Float32.thy ===== *)
theory Float32
  imports Prelude
begin

text \<open>
  The single-precision arithmetic behind the throttle period (endpoint.cpp,
  \<open>update_throttle_info\<close>): a finite \<open>float\<close> is the rational number it stands for, and an
  operation is the exact one followed by \<open>f32_round\<close>, rounding to 24 significant bits, ties
  to even, with the least exponent of the format. Overflow to infinity is left out: the
  period is computed for rates above \<open>FLT_EPSILON\<close>, where no intermediate value exceeds 2^43.
\<close>

section \<open>Rounding\<close>

function ilog :: "int \<Rightarrow> int" where
  "ilog n = (if n < 2 then 0 else 1 + ilog (n div 2))"
  by pat_completeness auto
termination
  by (relation "measure nat") auto

declare ilog.simps [simp del]

definition round_even :: "rat \<Rightarrow> int" where
  "round_even x =
     (let f = \<lfloor>x\<rfloor>; d = x - of_int f
      in if d < 1 / 2 then f else if d > 1 / 2 then f + 1 else if even f then f else f + 1)"

text \<open>The exponent \<open>e\<close> of a positive rational: \<open>2^e \<le> x < 2^(e+1)\<close>.\<close>

definition exponent_of :: "rat \<Rightarrow> int" where
  "exponent_of x =
     (let (a, b) = quotient_of x; e = ilog a - ilog b
      in if 2 powi e \<le> x then e else e - 1)"

definition f32_round :: "rat \<Rightarrow> rat" where
  "f32_round x =
     (if x = 0 then 0
      else let ulp = 2 powi (max (exponent_of \<bar>x\<bar>) (-126) - 23)
           in of_int (round_even (x / ulp)) * ulp)"

text \<open>The same for \<open>double\<close>, with 53 significant bits.\<close>

definition f64_round :: "rat \<Rightarrow> rat" where
  "f64_round x =
     (if x = 0 then 0
      else let ulp = 2 powi (max (exponent_of \<bar>x\<bar>) (-1022) - 52)
           in of_int (round_even (x / ulp)) * ulp)"

definition FLT_EPSILON :: rat where
  "FLT_EPSILON = 1 / 8388608"

section \<open>The throttle period\<close>

text \<open>\<open>duration_cast<microseconds>(duration<float>(1.f / rate))\<close>: the quotient and the product
  are single-precision, the conversion truncates.\<close>

definition period_us :: "rat \<Rightarrow> int" where
  "period_us rate = \<lfloor>f32_round (f32_round (1 / rate) * 1000000)\<rfloor>"

lemma round_even_bounds: "of_int (round_even x) - 1/2 \<le> x" "x \<le> of_int (round_even x) + 1/2"
  unfolding round_even_def Let_def by (auto split: if_splits) linarith+

lemma round_even_nonneg: "0 \<le> x \<Longrightarrow> 0 \<le> round_even x"
proof -
  assume "0 \<le> x"
  then have "0 \<le> \<lfloor>x\<rfloor>" by simp
  then show ?thesis unfolding round_even_def Let_def by (auto split: if_splits)
qed

lemma f32_round_nonneg: "0 \<le> x \<Longrightarrow> 0 \<le> f32_round x"
  unfolding f32_round_def Let_def
  by (auto intro!: mult_nonneg_nonneg round_even_nonneg divide_nonneg_nonneg simp: of_int_0_le_iff)

lemma period_us_nonneg: "0 \<le> rate \<Longrightarrow> 0 \<le> period_us rate"
  unfolding period_us_def by (auto intro!: f32_round_nonneg mult_nonneg_nonneg)

text \<open>Rounding does not lose more than one part in \<open>2^24\<close> of a number that is not too small.\<close>

lemma ilog_bounds: "1 \<le> n \<Longrightarrow> 0 \<le> ilog n \<and> (2 :: rat) powi ilog n \<le> of_int n \<and> of_int n < (2 :: rat) powi (ilog n + 1)"
proof (induction n rule: ilog.induct)
  case (1 n)
  show ?case
  proof (cases "n < 2")
    case True
    then show ?thesis using 1(2) by (simp add: ilog.simps [of n])
  next
    case False
    then have h: "1 \<le> n div 2" by simp
    have l: "ilog n = 1 + ilog (n div 2)" using False by (simp add: ilog.simps [of n])
    note i = 1(1) [OF False h]
    have two: "(2 :: rat) powi (1 + k) = 2 * 2 powi k" "(2 :: rat) powi (2 + k) = 4 * 2 powi k" for k by (simp_all add: power_int_add)
    have "2 * (n div 2) \<le> n" "n < 2 * (n div 2) + 2" by auto
    then have "of_int (2 * (n div 2)) \<le> (of_int n :: rat)" "(of_int n :: rat) < of_int (2 * (n div 2) + 2)"
      by (simp_all only: of_int_le_iff of_int_less_iff)
    moreover have "of_int (n div 2) + (1 :: rat) \<le> 2 powi (ilog (n div 2) + 1)"
    proof -
      define m :: int where "m = 2 ^ nat (ilog (n div 2) + 1)"
      have m: "(2 :: rat) powi (ilog (n div 2) + 1) = of_int m" using i by (simp add: power_int_def m_def)
      have "(of_int (n div 2) :: rat) < of_int m" using i m by simp
      then have "n div 2 + 1 \<le> m" by (simp only: of_int_less_iff)
      then have "(of_int (n div 2 + 1) :: rat) \<le> of_int m" by (simp only: of_int_le_iff)
      then show ?thesis unfolding m by simp
    qed
    ultimately show ?thesis using i unfolding l by (simp add: two add.commute [of _ 1])
  qed
qed

lemma exponent_of_le: "0 < x \<Longrightarrow> 2 powi exponent_of x \<le> x"
proof -
  assume x: "0 < x"
  obtain a b where q: "quotient_of x = (a, b)" by fastforce
  have b: "0 < b" using quotient_of_denom_pos [OF q] .
  have xq: "x = of_int a / of_int b" using quotient_of_div [OF q] .
  have a: "0 < a" using x b unfolding xq by (simp add: zero_less_divide_iff)
  note A = ilog_bounds [of a] and B = ilog_bounds [of b]
  have "(2 :: rat) powi (ilog a - ilog b - 1) = 2 powi ilog a / 2 powi (ilog b + 1)"
    by (simp add: power_int_diff power_int_add)
  also have "\<dots> \<le> of_int a / of_int b"
    using A B a b by (intro frac_le) simp_all
  finally have "2 powi (ilog a - ilog b - 1) \<le> x" by (simp add: xq)
  then show ?thesis by (auto simp: exponent_of_def q Let_def)
qed

lemma f32_round_ge:
  assumes "2 powi (-126) \<le> x"
  shows "x * (1 - 1 / 2 ^ 24) \<le> f32_round x"
proof -
  have p: "(0 :: rat) < 2 powi (-126)" by simp
  then have x: "0 < x" using assms by linarith
  define ulp :: rat where "ulp = 2 powi (max (exponent_of x) (-126) - 23)"
  have u: "0 < ulp" by (simp add: ulp_def)
  have "2 powi max (exponent_of x) (-126) \<le> x" using assms exponent_of_le [OF x] by (simp add: max_def)
  moreover have "ulp * 2 ^ 23 = 2 powi max (exponent_of x) (-126)" by (simp add: ulp_def power_int_diff)
  ultimately have "ulp \<le> x / 2 ^ 23" by simp
  moreover have "f32_round x = of_int (round_even (x / ulp)) * ulp" using x by (simp add: f32_round_def ulp_def Let_def)
  moreover have "(x / ulp - 1 / 2) * ulp \<le> of_int (round_even (x / ulp)) * ulp"
    using round_even_bounds(2) [of "x / ulp"] u by (intro mult_right_mono) simp_all
  then have "x - ulp / 2 \<le> of_int (round_even (x / ulp)) * ulp" using u by (simp add: left_diff_distrib)
  ultimately show ?thesis by (simp add: right_diff_distrib)
qed

text \<open>The period is that of the rate, up to the rounding of two operations and of the last microsecond.\<close>

lemma period_us_lower_normal:
  assumes "0 < r" "r \<le> 2 ^ 100"
  shows "(1 - 1 / 2 ^ 23) * 1000000 / r - 1 < of_int (period_us r)"
proof -
  define q where "q = f32_round (1 / r)"
  have "(2 :: rat) powi (-126) \<le> 2 powi (-100)" by simp
  also have "\<dots> \<le> 1 / r" using assms by (simp add: power_int_minus field_simps)
  finally have q: "1 / r * (1 - 1 / 2 ^ 24) \<le> q" unfolding q_def by (rule f32_round_ge)
  have "(2 :: rat) powi (-126) \<le> 2 powi (-100) * (1 - 1 / 2 ^ 24)" by (simp add: power_int_minus)
  also have "\<dots> \<le> 1 / r * (1 - 1 / 2 ^ 24)" using assms by (intro mult_right_mono) (simp_all add: power_int_minus field_simps)
  also have "\<dots> \<le> q * 1000000" using q assms by (simp add: field_simps)
  finally have "q * 1000000 * (1 - 1 / 2 ^ 24) \<le> f32_round (q * 1000000)" by (rule f32_round_ge)
  moreover have "1 / r * (1 - 1 / 2 ^ 24) * 1000000 * (1 - 1 / 2 ^ 24) \<le> q * 1000000 * (1 - 1 / 2 ^ 24)"
    using q by (intro mult_right_mono) simp_all
  moreover have "(1 - 1 / 2 ^ 23) * 1000000 / r \<le> 1 / r * (1 - 1 / 2 ^ 24) * 1000000 * (1 - 1 / 2 ^ 24)"
    using assms(1) by (simp add: field_simps)
  ultimately show ?thesis unfolding period_us_def q_def [symmetric] by linarith
qed

lemma period_us_lower:
  assumes "0 < r" shows "(1 - 1 / 2 ^ 23) * 1000000 / r - 1 < of_int (period_us r)"
proof (cases "r \<le> 2 ^ 100")
  case False
  then have "(1 - 1 / 2 ^ 23) * 1000000 / r < 1" by (simp add: field_simps)
  moreover have "0 \<le> (of_int (period_us r) :: rat)" using period_us_nonneg [of r] assms by simp
  ultimately show ?thesis by linarith
qed (rule period_us_lower_normal [OF assms])

text \<open>A message throttled to 10 Hz, 2.5 Hz and 1 Hz has a period of 100 ms, 400 ms and 1 s.\<close>

lemma period_us_examples:
  "period_us 10 = 100000" "period_us (5/2) = 400000" "period_us 1 = 1000000"
  by code_simp+

end
