(* ===== verification/Endpoint.thy ===== *)
theory Endpoint
  imports World Wire Float32
begin

text \<open>
  The base class \<open>Endpoint\<close> (endpoint.h, endpoint.cpp): its state, the table of systems seen
  on it, the message filters, the routing decision \<open>accept_msg\<close>, throttling and the throttle
  cache. The fields the subclasses add are grouped in one record per subclass; an object of
  another subclass does not use them, and \<open>ep_type\<close> selects the overriding operation.
  \<open>group_members\<close> are references to other endpoints, here their numbers.
\<close>

section \<open>State\<close>

datatype ep_type = UART | UDP | TCP | LOG

datatype udp_mode = Undefined | Server | Client | Receiver

datatype accept_state = Accepted | Filtered | Rejected | Throttled | Cached

record read_stat =
  crc_error_bytes :: u64
  handled_bytes :: u64
  rs_total :: u32
  crc_error :: u32
  handled :: u32
  drop_seq_total :: u32
  expected_seq :: u8

record write_stat =
  ws_bytes :: u64
  ws_total :: u32

record filters =
  allowed_msg_ids :: "u32 list"
  blocked_msg_ids :: "u32 list"
  allowed_src_comps :: "u8 list"
  blocked_src_comps :: "u8 list"
  allowed_src_systems :: "u8 list"
  blocked_src_systems :: "u8 list"

record throttle_info =
  rate :: rat
  next_timestamp :: int

record uart_part =
  current_baud_idx :: nat
  change_baud_timeout :: "nat option"
  baudrates :: "u32 list"

text \<open>Fields with the same name and meaning in \<open>UdpEndpoint\<close> and \<open>TcpEndpoint\<close>.\<close>

record net_part =
  is_ipv6 :: bool
  sockaddr4 :: sockaddr
  sockaddr6 :: sockaddr
  write_scheduled :: bool
  write_schedule_timer :: nat
  coalesce_bytes :: u32
  coalesce_ms :: u64
  coalesce_nodelay :: "u32 set"

record udp_part =
  mode :: udp_mode
  config_sock4 :: sockaddr
  config_sock6 :: sockaddr
  nomessage_timeout :: "nat option"

record tcp_part =
  tcp_ip :: string
  tcp_port :: u64
  valid :: bool
  retry_timeout :: int

record endpoint =
  ep_id :: nat
  ep_type :: ep_type
  ep_name :: string
  ep_fd :: int
  rx_data :: bytes
  rx_len :: nat
  tx_data :: bytes
  tx_len :: nat
  last_packet_len :: nat
  group_name :: string
  group_members :: "nat list"
  rstat :: read_stat
  wstat :: write_stat
  dropped_msgs :: u32
  msg_cache_dropped :: u32
  sys_comp_ids :: "u16 list"
  outgoing :: filters
  incoming :: filters
  message_throttle_map :: "(u32, throttle_info) omap"
  msg_cache :: "(u32, cached_msg list) omap"
  throttle_cache_msg_ids :: "u32 set"
  uart :: uart_part
  net :: net_part
  udp :: udp_part
  tcp :: tcp_part

abbreviation TX_BUF_MAX_SIZE :: nat where "TX_BUF_MAX_SIZE \<equiv> 8192"
abbreviation MSG_CACHE_MAX_SIZE :: nat where "MSG_CACHE_MAX_SIZE \<equiv> 2048"

definition RX_BUF_MAX_SIZE :: "mavlib \<Rightarrow> nat" where
  "RX_BUF_MAX_SIZE M = MAX_PACKET_LEN M * 4"

text \<open>The valid bytes of the two buffers.\<close>

definition rx_bytes :: "endpoint \<Rightarrow> bytes" where
  "rx_bytes e = take (rx_len e) (rx_data e)"

definition tx_bytes :: "endpoint \<Rightarrow> bytes" where
  "tx_bytes e = take (tx_len e) (tx_data e)"

definition no_filters :: filters where
  "no_filters = \<lparr>allowed_msg_ids = [], blocked_msg_ids = [], allowed_src_comps = [],
     blocked_src_comps = [], allowed_src_systems = [], blocked_src_systems = []\<rparr>"

definition zero_sockaddr :: sockaddr where
  "zero_sockaddr = \<lparr>sa_addr = [], sa_port = 0, sa_scope = 0\<rparr>"

text \<open>The constructors: the base class part, with the contents of the freshly allocated
  buffers as arguments.\<close>

definition Endpoint_init :: "nat \<Rightarrow> ep_type \<Rightarrow> string \<Rightarrow> bytes \<Rightarrow> bytes \<Rightarrow> endpoint" where
  "Endpoint_init this type name rx tx =
     \<lparr>ep_id = this, ep_type = type, ep_name = name, ep_fd = -1,
      rx_data = rx, rx_len = 0, tx_data = tx, tx_len = 0, last_packet_len = 0,
      group_name = [], group_members = [],
      rstat = \<lparr>crc_error_bytes = 0, handled_bytes = 0, rs_total = 0, crc_error = 0, handled = 0,
               drop_seq_total = 0, expected_seq = 0\<rparr>,
      wstat = \<lparr>ws_bytes = 0, ws_total = 0\<rparr>,
      dropped_msgs = 0, msg_cache_dropped = 0, sys_comp_ids = [],
      outgoing = no_filters, incoming = no_filters,
      message_throttle_map = [], msg_cache = [], throttle_cache_msg_ids = {},
      uart = \<lparr>current_baud_idx = 0, change_baud_timeout = None, baudrates = []\<rparr>,
      net = \<lparr>is_ipv6 = False, sockaddr4 = zero_sockaddr, sockaddr6 = zero_sockaddr,
             write_scheduled = False, write_schedule_timer = 0, coalesce_bytes = 0,
             coalesce_ms = 0, coalesce_nodelay = {}\<rparr>,
      udp = \<lparr>mode = Undefined, config_sock4 = zero_sockaddr, config_sock6 = zero_sockaddr,
             nomessage_timeout = None\<rparr>,
      tcp = \<lparr>tcp_ip = [], tcp_port = 0, valid = True, retry_timeout = 0\<rparr>\<rparr>"

section \<open>Systems seen on an endpoint\<close>

text \<open>\<open>_add_sys_comp_id\<close> and the two-argument \<open>has_sys_comp_id\<close> build the 16 bit key from 8 bit
  and from masked \<open>unsigned\<close> arguments.\<close>

definition sys_comp_key :: "u8 \<Rightarrow> u8 \<Rightarrow> u16" where
  "sys_comp_key sysid compid = push_bit 8 (ucast sysid) OR ucast compid"

definition has_sys_id :: "endpoint \<Rightarrow> u32 \<Rightarrow> bool" where
  "has_sys_id e sysid \<longleftrightarrow>
     list_ex (\<lambda>sc. ucast (drop_bit 8 sc) = sysid AND 0x00FF) (sys_comp_ids e)"

definition has_sys_comp_id :: "endpoint \<Rightarrow> u16 \<Rightarrow> bool" where
  "has_sys_comp_id e sys_comp_id \<longleftrightarrow> list_ex (\<lambda>sc. sys_comp_id = sc) (sys_comp_ids e)"

definition has_sys_comp_id2 :: "endpoint \<Rightarrow> u32 \<Rightarrow> u32 \<Rightarrow> bool" where
  "has_sys_comp_id2 e sysid compid =
     has_sys_comp_id e (ucast (push_bit 8 (sysid AND 0xFF) OR (compid AND 0xFF)))"

section \<open>Throttling\<close>

definition is_throttling_enabled :: "endpoint \<Rightarrow> u32 \<Rightarrow> bool" where
  "is_throttling_enabled e mid \<longleftrightarrow>
     mid \<noteq> UINT32_MAX \<and> message_throttle_map e \<noteq> [] \<and> om_get (message_throttle_map e) mid \<noteq> None"

definition should_throttle_msg :: "endpoint \<Rightarrow> u32 \<Rightarrow> world \<Rightarrow> bool \<times> world" where
  "should_throttle_msg e mid w =
     (case om_get (message_throttle_map e) mid of
        None \<Rightarrow> (False, w)
      | Some thr_info \<Rightarrow>
          if rate thr_info < FLT_EPSILON then (False, w)
          else (let (now, w1) = steady_now w in (now < next_timestamp thr_info, w1)))"

definition update_throttle_info :: "endpoint \<Rightarrow> u32 \<Rightarrow> world \<Rightarrow> endpoint \<times> world" where
  "update_throttle_info e mid w =
     (case om_get (message_throttle_map e) mid of
        None \<Rightarrow> (e, w)
      | Some thr_info \<Rightarrow>
          (let (now, w1) = steady_now w;
               period = period_us (rate thr_info) * 1000;
               start = (if now > next_timestamp thr_info + 2 * period then now
                        else next_timestamp thr_info)
           in (e\<lparr>message_throttle_map :=
                   om_put mid (thr_info\<lparr>next_timestamp := start + period\<rparr>) (message_throttle_map e)\<rparr>,
               w1)))"

text \<open>A new entry of the throttle map starts at the current time.\<close>

definition set_message_throttling :: "u32 \<Rightarrow> rat \<Rightarrow> endpoint \<Rightarrow> world \<Rightarrow> endpoint \<times> world" where
  "set_message_throttling mid r e w =
     (if r > FLT_EPSILON then
        (case om_get (message_throttle_map e) mid of
           Some thr_info \<Rightarrow>
             (e\<lparr>message_throttle_map := om_put mid (thr_info\<lparr>rate := r\<rparr>) (message_throttle_map e)\<rparr>, w)
         | None \<Rightarrow>
             (let (now, w1) = steady_now w
              in (e\<lparr>message_throttle_map :=
                      om_put mid \<lparr>rate = r, next_timestamp = now\<rparr> (message_throttle_map e)\<rparr>, w1)))
      else (e\<lparr>message_throttle_map := om_del mid (message_throttle_map e)\<rparr>, w))"

definition throttle_cache_add_msg_id :: "u32 \<Rightarrow> endpoint \<Rightarrow> endpoint" where
  "throttle_cache_add_msg_id mid e =
     e\<lparr>throttle_cache_msg_ids := insert mid (throttle_cache_msg_ids e)\<rparr>"

section \<open>The throttle cache\<close>

definition has_cached_msgs :: "endpoint \<Rightarrow> bool" where
  "has_cached_msgs e \<longleftrightarrow> msg_cache e \<noteq> []"

definition has_cached_msg_id :: "endpoint \<Rightarrow> u32 \<Rightarrow> bool" where
  "has_cached_msg_id e mid \<longleftrightarrow> om_get (msg_cache e) mid \<noteq> None"

definition cache_size :: "endpoint \<Rightarrow> nat" where
  "cache_size e = foldl (\<lambda>total queue. total + length (snd queue)) 0 (msg_cache e)"

definition cached_queue :: "endpoint \<Rightarrow> u32 \<Rightarrow> cached_msg list" where
  "cached_queue e mid = (case om_get (msg_cache e) mid of None \<Rightarrow> [] | Some q \<Rightarrow> q)"

definition cache_msg :: "buffer \<Rightarrow> endpoint \<Rightarrow> endpoint" where
  "cache_msg pbuf e =
     (if cache_size e \<ge> MSG_CACHE_MAX_SIZE then e\<lparr>msg_cache_dropped := msg_cache_dropped e + 1\<rparr>
      else let mid = msg_id (b_curr pbuf)
           in e\<lparr>msg_cache := om_put mid (cached_queue e mid @ [CachedMsg pbuf]) (msg_cache e)\<rparr>)"

text \<open>The earliest time a cached message is due: \<open>time_point::max()\<close> when there is none, and
  \<open>time_point::min()\<close> as soon as a queue is found whose throttling was switched off.\<close>

definition TIME_MIN :: int where
  "TIME_MIN = - 9223372036854775808"

definition TIME_MAX :: int where
  "TIME_MAX = 9223372036854775807"

fun earliest_deadline ::
  "(u32, throttle_info) omap \<Rightarrow> (u32, cached_msg list) omap \<Rightarrow> int \<Rightarrow> int" where
  "earliest_deadline thr [] earliest = earliest"
| "earliest_deadline thr ((mid, q) # cache) earliest =
     (case om_get thr mid of
        None \<Rightarrow> TIME_MIN
      | Some entry \<Rightarrow> earliest_deadline thr cache (min earliest (next_timestamp entry)))"

definition next_resend_deadline :: "endpoint \<Rightarrow> int" where
  "next_resend_deadline e = earliest_deadline (message_throttle_map e) (msg_cache e) TIME_MAX"

section \<open>Filters and the routing decision\<close>

definition vector_contains :: "'a list \<Rightarrow> 'a \<Rightarrow> bool" where
  "vector_contains vect elem \<longleftrightarrow> find (\<lambda>x. x = elem) vect \<noteq> None"

definition allowed_by_incoming_filters :: "endpoint \<Rightarrow> buffer \<Rightarrow> bool" where
  "allowed_by_incoming_filters e buf =
     (let c = b_curr buf; f = incoming e
      in if msg_id c \<noteq> UINT32_MAX \<and> allowed_msg_ids f \<noteq> [] \<and> \<not> vector_contains (allowed_msg_ids f) (msg_id c) then False
         else if msg_id c \<noteq> UINT32_MAX \<and> blocked_msg_ids f \<noteq> [] \<and> vector_contains (blocked_msg_ids f) (msg_id c) then False
         else if allowed_src_comps f \<noteq> [] \<and> \<not> vector_contains (allowed_src_comps f) (src_compid c) then False
         else if blocked_src_comps f \<noteq> [] \<and> vector_contains (blocked_src_comps f) (src_compid c) then False
         else if allowed_src_systems f \<noteq> [] \<and> \<not> vector_contains (allowed_src_systems f) (src_sysid c) then False
         else if blocked_src_systems f \<noteq> [] \<and> vector_contains (blocked_src_systems f) (src_sysid c) then False
         else True)"

definition allowed_by_outgoing_filters :: "endpoint \<Rightarrow> buffer \<Rightarrow> bool" where
  "allowed_by_outgoing_filters e buf =
     (let c = b_curr buf; f = outgoing e
      in if msg_id c \<noteq> UINT32_MAX \<and> allowed_msg_ids f \<noteq> [] \<and> \<not> vector_contains (allowed_msg_ids f) (msg_id c) then False
         else if msg_id c \<noteq> UINT32_MAX \<and> blocked_msg_ids f \<noteq> [] \<and> vector_contains (blocked_msg_ids f) (msg_id c) then False
         else if msg_id c \<noteq> UINT32_MAX \<and> allowed_src_comps f \<noteq> [] \<and> \<not> vector_contains (allowed_src_comps f) (src_compid c) then False
         else if msg_id c \<noteq> UINT32_MAX \<and> blocked_src_comps f \<noteq> [] \<and> vector_contains (blocked_src_comps f) (src_compid c) then False
         else if msg_id c \<noteq> UINT32_MAX \<and> allowed_src_systems f \<noteq> [] \<and> \<not> vector_contains (allowed_src_systems f) (src_sysid c) then False
         else if msg_id c \<noteq> UINT32_MAX \<and> blocked_src_systems f \<noteq> [] \<and> vector_contains (blocked_src_systems f) (src_sysid c) then False
         else True)"

text \<open>Whether the endpoint is a routing target; \<open>sniffer_sysid\<close> is the static member.\<close>

definition is_routing_target :: "u16 \<Rightarrow> endpoint \<Rightarrow> buffer \<Rightarrow> bool" where
  "is_routing_target sniffer_sysid e pbuf =
     (let c = b_curr pbuf
      in (target_sysid c = 0 \<or> target_sysid c = -1)
         \<or> (target_compid c > 0 \<and>
            has_sys_comp_id2 e (word_of_int (target_sysid c)) (word_of_int (target_compid c)))
         \<or> ((target_compid c = 0 \<or> target_compid c = -1) \<and> has_sys_id e (word_of_int (target_sysid c)))
         \<or> (sniffer_sysid \<noteq> 0 \<and> has_sys_id e (ucast sniffer_sysid)))"

definition accept_msg :: "u16 \<Rightarrow> endpoint \<Rightarrow> buffer \<Rightarrow> world \<Rightarrow> accept_state \<times> world" where
  "accept_msg sniffer_sysid e pbuf w =
     (let c = b_curr pbuf
      in if has_sys_comp_id2 e (ucast (src_sysid c)) (ucast (src_compid c)) then (Rejected, w)
         else if \<not> allowed_by_outgoing_filters e pbuf then (Filtered, w)
         else if \<not> is_routing_target sniffer_sysid e pbuf then (Rejected, w)
         else if is_throttling_enabled e (msg_id c) then
           (let should_be_cached = msg_id c \<in> throttle_cache_msg_ids e;
                (throttle, w1) = should_throttle_msg e (msg_id c) w
            in if throttle then (if should_be_cached then Cached else Throttled, w1)
               else if should_be_cached \<and> has_cached_msg_id e (msg_id c) then (Cached, w1)
               else (Accepted, w1))
         else (Accepted, w))"

section \<open>Statistics and housekeeping\<close>

definition count_dropped_msg :: "endpoint \<Rightarrow> endpoint" where
  "count_dropped_msg e = e\<lparr>dropped_msgs := dropped_msgs e + 1\<rparr>"

definition log_aggregate :: "endpoint \<Rightarrow> endpoint" where
  "log_aggregate e =
     (let e1 = (if dropped_msgs e > 0 then e\<lparr>dropped_msgs := 0\<rparr> else e)
      in if msg_cache_dropped e1 > 0 then e1\<lparr>msg_cache_dropped := 0\<rparr> else e1)"

definition get_trimmed_zeros :: "mavlib \<Rightarrow> msg_entry \<Rightarrow> buffer \<Rightarrow> u8" where
  "get_trimmed_zeros M entry buf =
     (if b_data buf ! 0 \<noteq> STX2 M then 0
      else let plen = h2_payload_len (mavlink2_header_at (b_data buf))
           in if plen > me_max_msg_len entry then 0 else me_max_msg_len entry - plen)"

section \<open>Lemmas: keys of systems\<close>

lemma bit_sys_comp_key: "bit (sys_comp_key s c) n = (if n < 8 then bit c n else bit s (n - 8))"
  by (auto simp: sys_comp_key_def bit_simps dest: bit_imp_le_length)

lemma and_ff_take_bit: "(w :: u32) AND 0xFF = take_bit 8 w"
  by (simp add: take_bit_eq_mask mask_eq_exp_minus_1)

lemma bit_take_8: "bit (take_bit 8 (a :: u32)) n = (n < 8 \<and> bit a n)"
  by (simp add: bit_simps)

lemma masked_key:
  "ucast (push_bit 8 (a AND 0xFF) OR (b AND 0xFF) :: u32) = sys_comp_key (ucast a) (ucast b)"
  unfolding and_ff_take_bit
  by (rule bit_word_eqI) (auto simp: bit_sys_comp_key bit_simps dest: bit_imp_le_length)

lemma sys_comp_key_inject: "sys_comp_key s c = sys_comp_key s' c' \<longleftrightarrow> s = s' \<and> c = c'"
proof
  assume eq: "sys_comp_key s c = sys_comp_key s' c'"
  have "bit c n = bit c' n" if "n < 8" for n
    using arg_cong [OF eq, of "\<lambda>k. bit k n"] that by (simp add: bit_sys_comp_key)
  moreover have "bit s n = bit s' n" if "n < 8" for n
    using arg_cong [OF eq, of "\<lambda>k. bit k (n + 8)"] by (simp add: bit_sys_comp_key)
  ultimately show "s = s' \<and> c = c'" by (auto intro: bit_word_eqI)
qed simp

lemma sys_comp_key_surj: "k = sys_comp_key (ucast (drop_bit 8 k)) (ucast k)"
  by (rule bit_word_eqI) (auto simp: bit_sys_comp_key bit_simps dest: bit_imp_le_length)

lemma drop_key: "ucast (drop_bit 8 (sys_comp_key s c)) = (ucast s :: u32)"
  by (rule bit_word_eqI) (auto simp: bit_sys_comp_key bit_simps dest: bit_imp_le_length)

lemma ucast_take8: "(ucast (s::u8) :: u32) = take_bit 8 a \<longleftrightarrow> s = ucast a"
proof
  assume eq: "(ucast s :: u32) = take_bit 8 a"
  show "s = ucast a"
  proof (rule bit_word_eqI)
    fix n assume "n < LENGTH(8)"
    then show "bit s n = bit (ucast a :: u8) n"
      using arg_cong [OF eq, of "\<lambda>k. bit k n"] by (simp add: bit_simps)
  qed
next
  assume "s = ucast a"
  then show "(ucast s :: u32) = take_bit 8 a"
    by (auto intro!: bit_word_eqI simp: bit_simps)
qed

lemma has_sys_comp_id_set: "has_sys_comp_id e k \<longleftrightarrow> k \<in> set (sys_comp_ids e)"
  by (auto simp: has_sys_comp_id_def list_ex_iff)

lemma has_sys_comp_id2_set:
  "has_sys_comp_id2 e a b \<longleftrightarrow> sys_comp_key (ucast a) (ucast b) \<in> set (sys_comp_ids e)"
  by (simp only: has_sys_comp_id2_def masked_key has_sys_comp_id_set)

lemma has_sys_id_set: "has_sys_id e a \<longleftrightarrow> (\<exists>c. sys_comp_key (ucast a) c \<in> set (sys_comp_ids e))"
proof
  assume "has_sys_id e a"
  then obtain k where k: "k \<in> set (sys_comp_ids e)" "ucast (drop_bit 8 k) = a AND 0xFF"
    by (auto simp: has_sys_id_def list_ex_iff)
  have "ucast (drop_bit 8 k) = (ucast (ucast (drop_bit 8 k) :: u8) :: u32)"
    using drop_key sys_comp_key_surj by metis
  with k(2) have "ucast (drop_bit 8 k) = (ucast a :: u8)"
    by (metis and_ff_take_bit ucast_take8)
  with k(1) sys_comp_key_surj [of k] show "\<exists>c. sys_comp_key (ucast a) c \<in> set (sys_comp_ids e)"
    by metis
next
  assume "\<exists>c. sys_comp_key (ucast a) c \<in> set (sys_comp_ids e)"
  then obtain c where c: "sys_comp_key (ucast a) c \<in> set (sys_comp_ids e)" by blast
  have "ucast (drop_bit 8 (sys_comp_key (ucast a) c)) = a AND 0xFF"
    using drop_key [of "ucast a" c] ucast_take8 [of "ucast a" a] by (simp add: and_ff_take_bit)
  with c show "has_sys_id e a" unfolding has_sys_id_def list_ex_iff by blast
qed


section \<open>Filters\<close>

lemma vector_contains_set [simp]: "vector_contains xs x \<longleftrightarrow> x \<in> set xs"
  by (auto simp: vector_contains_def find_None_iff)

definition filter_passes :: "filters \<Rightarrow> msg_info \<Rightarrow> bool" where
  "filter_passes f c \<longleftrightarrow>
     (allowed_msg_ids f = [] \<or> msg_id c \<in> set (allowed_msg_ids f)) \<and> msg_id c \<notin> set (blocked_msg_ids f) \<and>
     (allowed_src_comps f = [] \<or> src_compid c \<in> set (allowed_src_comps f)) \<and>
     src_compid c \<notin> set (blocked_src_comps f) \<and>
     (allowed_src_systems f = [] \<or> src_sysid c \<in> set (allowed_src_systems f)) \<and>
     src_sysid c \<notin> set (blocked_src_systems f)"

lemma outgoing_filters_pass:
  "msg_id (b_curr b) \<noteq> UINT32_MAX \<Longrightarrow> allowed_by_outgoing_filters e b = filter_passes (outgoing e) (b_curr b)"
  by (auto simp: allowed_by_outgoing_filters_def filter_passes_def Let_def)

lemma incoming_filters_pass:
  "msg_id (b_curr b) \<noteq> UINT32_MAX \<Longrightarrow> allowed_by_incoming_filters e b = filter_passes (incoming e) (b_curr b)"
  by (auto simp: allowed_by_incoming_filters_def filter_passes_def Let_def)

section \<open>Routing decision\<close>

definition knows :: "endpoint \<Rightarrow> u8 \<Rightarrow> u8 \<Rightarrow> bool" where
  "knows e s c \<longleftrightarrow> sys_comp_key s c \<in> set (sys_comp_ids e)"

definition reaches :: "u16 \<Rightarrow> endpoint \<Rightarrow> msg_info \<Rightarrow> bool" where
  "reaches sniffer e c \<longleftrightarrow>
     target_sysid c \<in> {0, -1} \<or>
     (target_compid c > 0 \<and> knows e (word_of_int (target_sysid c)) (word_of_int (target_compid c))) \<or>
     (target_compid c \<in> {0, -1} \<and> (\<exists>k. knows e (word_of_int (target_sysid c)) k)) \<or>
     (sniffer \<noteq> 0 \<and> (\<exists>k. knows e (ucast sniffer) k))"

lemma ucast_word_of_int [simp]: "(ucast (word_of_int x :: u32) :: u8) = word_of_int x"
  by (rule bit_word_eqI) (auto simp: bit_simps)

lemma ucast_u16_u32 [simp]: "(ucast (ucast (s::u16) :: u32) :: u8) = ucast s"
  by (rule bit_word_eqI) (auto simp: bit_simps)

lemma is_routing_target_reaches: "is_routing_target sn e b = reaches sn e (b_curr b)"
  by (simp add: is_routing_target_def reaches_def knows_def has_sys_comp_id2_set has_sys_id_set Let_def)

lemma ucast_u8_u32 [simp]: "(ucast (ucast (s::u8) :: u32) :: u8) = s"
  by (rule bit_word_eqI) (auto simp: bit_simps)

lemma accept_msg_unfold:
  "accept_msg sn e b w =
     (let c = b_curr b
      in if knows e (src_sysid c) (src_compid c) then (Rejected, w)
         else if \<not> allowed_by_outgoing_filters e b then (Filtered, w)
         else if \<not> reaches sn e c then (Rejected, w)
         else if is_throttling_enabled e (msg_id c) then
           (let (throttle, w1) = should_throttle_msg e (msg_id c) w
            in if throttle then (if msg_id c \<in> throttle_cache_msg_ids e then Cached else Throttled, w1)
               else if msg_id c \<in> throttle_cache_msg_ids e \<and> has_cached_msg_id e (msg_id c) then (Cached, w1)
               else (Accepted, w1))
         else (Accepted, w))"
  by (simp add: accept_msg_def has_sys_comp_id2_set knows_def is_routing_target_reaches Let_def)

lemma is_throttling_enabled_iff:
  "is_throttling_enabled e k \<longleftrightarrow> k \<noteq> UINT32_MAX \<and> om_get (message_throttle_map e) k \<noteq> None"
  by (auto simp: is_throttling_enabled_def)

definition throttled_at :: "endpoint \<Rightarrow> u32 \<Rightarrow> int \<Rightarrow> bool" where
  "throttled_at e k now \<longleftrightarrow>
     (case om_get (message_throttle_map e) k of
        None \<Rightarrow> False
      | Some ti \<Rightarrow> rate ti \<ge> FLT_EPSILON \<and> now < next_timestamp ti)"

lemma should_throttle_msg_fst: "fst (should_throttle_msg e k w) = throttled_at e k (w_clock w (w_tick w))"
  by (auto simp: should_throttle_msg_def throttled_at_def steady_now_def split: option.splits)

lemma throttled_at_None [simp]: "om_get (message_throttle_map e) k = None \<Longrightarrow> \<not> throttled_at e k now"
  by (simp add: throttled_at_def)

lemma accept_msg_cases:
  assumes "msg_id (b_curr b) \<noteq> UINT32_MAX"
  shows "fst (accept_msg sn e b w) =
     (let c = b_curr b; k = msg_id c; late = throttled_at e k (w_clock w (w_tick w))
      in if knows e (src_sysid c) (src_compid c) then Rejected
         else if \<not> filter_passes (outgoing e) c then Filtered
         else if \<not> reaches sn e c then Rejected
         else if late \<and> k \<notin> throttle_cache_msg_ids e then Throttled
         else if late \<or> (om_get (message_throttle_map e) k \<noteq> None \<and> k \<in> throttle_cache_msg_ids e \<and>
                         has_cached_msg_id e k) then Cached
         else Accepted)"
  using assms
  by (auto simp: accept_msg_unfold outgoing_filters_pass is_throttling_enabled_iff Let_def
      should_throttle_msg_fst case_prod_unfold)

section \<open>Throttling\<close>

definition period_ns :: "rat \<Rightarrow> int" where
  "period_ns r = period_us r * 1000"

definition advanced :: "throttle_info \<Rightarrow> int \<Rightarrow> throttle_info" where
  "advanced ti now = ti\<lparr>next_timestamp :=
     (if now > next_timestamp ti + 2 * period_ns (rate ti) then now else next_timestamp ti) + period_ns (rate ti)\<rparr>"

lemma rate_advanced [simp]: "rate (advanced ti now) = rate ti"
  by (simp add: advanced_def)

lemma update_throttle_info_Some:
  "om_get (message_throttle_map e) k = Some ti \<Longrightarrow>
   update_throttle_info e k w =
     (e\<lparr>message_throttle_map :=
         om_put k (advanced ti (w_clock w (w_tick w))) (message_throttle_map e)\<rparr>,
      w\<lparr>w_tick := Suc (w_tick w)\<rparr>)"
  by (simp add: update_throttle_info_def steady_now_def Let_def advanced_def period_ns_def)

lemma should_throttle_msg_Some:
  "om_get (message_throttle_map e) k = Some ti \<Longrightarrow> FLT_EPSILON \<le> rate ti \<Longrightarrow>
   should_throttle_msg e k w =
     (w_clock w (w_tick w) < next_timestamp ti, w\<lparr>w_tick := Suc (w_tick w)\<rparr>)"
  by (simp add: should_throttle_msg_def steady_now_def)

text \<open>One message of a throttled stream offered to an endpoint: sent, and the time stamp
  advanced, unless it is too early.\<close>

definition offer :: "u32 \<Rightarrow> endpoint \<times> world \<Rightarrow> bool \<times> endpoint \<times> world" where
  "offer k s =
     (let (e, w) = s; (late, w1) = should_throttle_msg e k w
      in if late then (False, e, w1) else (True, update_throttle_info e k w1))"

fun offers :: "u32 \<Rightarrow> nat \<Rightarrow> endpoint \<times> world \<Rightarrow> nat \<times> endpoint \<times> world" where
  "offers k 0 s = (0, s)"
| "offers k (Suc n) s =
     (let (sent, s1) = offer k s; (m, s2) = offers k n s1 in ((if sent then m + 1 else m), s2))"

definition throttled_by :: "endpoint \<Rightarrow> u32 \<Rightarrow> throttle_info \<Rightarrow> bool" where
  "throttled_by e k ti \<longleftrightarrow> om_inv (message_throttle_map e) \<and> FLT_EPSILON \<le> rate ti \<and>
     om_get (message_throttle_map e) k = Some ti"

lemma offer_step:
  assumes "throttled_by e k ti" "offer k (e, w) = (sent, e', w')"
  shows "sent \<longleftrightarrow> next_timestamp ti \<le> w_clock w (w_tick w)"
    and "throttled_by e' k (if sent then advanced ti (w_clock w (Suc (w_tick w))) else ti)"
    and "w_clock w' = w_clock w" "w_tick w < w_tick w'"
  using assms
  by (auto simp: offer_def throttled_by_def should_throttle_msg_Some update_throttle_info_Some om_simps
      split: if_splits)

lemma next_timestamp_advanced:
  assumes "0 \<le> period_ns (rate ti)"
  shows "next_timestamp ti + period_ns (rate ti) \<le> next_timestamp (advanced ti now)"
    and "now - period_ns (rate ti) \<le> next_timestamp (advanced ti now)"
  using assms by (auto simp: advanced_def)

lemma offers_rate:
  assumes "throttled_by e k ti" "0 \<le> period_ns (rate ti)" "mono (w_clock w)"
    and "offers k n (e, w) = (m, e', w')"
  shows "w_tick w \<le> w_tick w' \<and>
    (m > 0 \<longrightarrow> next_timestamp ti + (int m - 1) * period_ns (rate ti) \<le> w_clock w (w_tick w'))"
  using assms
proof (induction n arbitrary: e w m ti)
  case 0
  then show ?case by simp
next
  case (Suc n)
  obtain sent e1 w1 where o: "offer k (e, w) = (sent, e1, w1)" by (metis prod_cases3)
  obtain m1 where rest: "offers k n (e1, w1) = (m1, e', w')" and m: "m = (if sent then m1 + 1 else m1)"
    using Suc.prems(4) o by (auto simp: Let_def split: prod.splits)
  define t1 where "t1 = (if sent then advanced ti (w_clock w (Suc (w_tick w))) else ti)"
  note s = offer_step [OF Suc.prems(1) o, folded t1_def]
  have IH: "w_tick w1 \<le> w_tick w'"
    "m1 > 0 \<longrightarrow> next_timestamp t1 + (int m1 - 1) * period_ns (rate ti) \<le> w_clock w (w_tick w')"
    using Suc.IH [OF s(2) _ _ rest] Suc.prems(2,3) s(3) by (auto simp: t1_def)
  show ?case
  proof (cases sent)
    case True
    have "next_timestamp ti \<le> w_clock w (w_tick w')"
      using s(1,4) True IH(1) Suc.prems(3) monoD [of "w_clock w" "w_tick w" "w_tick w'"] by force
    moreover have "next_timestamp ti + period_ns (rate ti) \<le> next_timestamp t1"
      using next_timestamp_advanced(1) [OF Suc.prems(2)] True by (simp add: t1_def)
    ultimately show ?thesis using IH s(4) True m
      by (cases "m1 = 0") (auto simp: algebra_simps)
  next
    case False
    then show ?thesis using IH s(4) m by (auto simp: t1_def)
  qed
qed


section \<open>The throttle cache\<close>

text \<open>The queues are sorted by message id, none is empty, each holds messages of its own id,
  and together they hold at most \<open>MSG_CACHE_MAX_SIZE\<close> messages.\<close>

definition cache_inv :: "endpoint \<Rightarrow> bool" where
  "cache_inv e \<longleftrightarrow> om_inv (msg_cache e) \<and> cache_size e \<le> MSG_CACHE_MAX_SIZE \<and>
     (\<forall>(k, q) \<in> set (msg_cache e). q \<noteq> [] \<and> (\<forall>m \<in> set q. msg_id (cm_curr m) = k))"

lemma foldl_length_sum:
  "foldl (\<lambda>n q. n + length (snd q)) a (xs :: ('k \<times> 'v list) list) = a + sum_list (map (length \<circ> snd) xs)"
  by (induction xs arbitrary: a) auto

lemma cache_size_sum: "cache_size e = sum_list (map (length \<circ> snd) (msg_cache e))"
  by (simp add: cache_size_def foldl_length_sum)

lemma sum_om_put:
  fixes c :: "('k::linorder, 'v list) omap"
  assumes "om_inv c"
  shows "sum_list (map (length \<circ> snd) (om_put k q c)) + (case om_get c k of None \<Rightarrow> 0 | Some q0 \<Rightarrow> length q0)
     = sum_list (map (length \<circ> snd) c) + length q"
  using assms
proof (induction k q c rule: om_put.induct)
  case (1 k v)
  then show ?case by simp
next
  case (2 k v k' v' m)
  have inv: "om_inv m" using "2.prems" by (simp add: om_inv_def)
  have "k \<notin> fst ` set m" if "k < k'"
    using "2.prems" that by (fastforce simp: om_inv_def)
  then have "map_of m k = None" if "k < k'"
    using that by (simp add: map_of_eq_None_iff)
  with 2 inv show ?case by (auto simp: om_get_def)
qed

lemma set_om_put_subset: "set (om_put k v m) \<subseteq> insert (k, v) (set m)"
  by (induction k v m rule: om_put.induct) auto

lemma om_get_in_set: "om_get c k = Some q \<Longrightarrow> (k, q) \<in> set c"
  by (simp add: om_get_def map_of_SomeD)

lemma cached_queue_msgs:
  "cache_inv e \<Longrightarrow> m \<in> set (cached_queue e k) \<Longrightarrow> msg_id (cm_curr m) = k"
  by (cases "om_get (msg_cache e) k")
     (auto simp: cached_queue_def cache_inv_def dest!: om_get_in_set bspec)

lemma cache_msg_queue:
  assumes "om_inv (msg_cache e)" "cache_size e < MSG_CACHE_MAX_SIZE"
  shows "cached_queue (cache_msg b e) k =
     (if k = msg_id (b_curr b) then cached_queue e k @ [CachedMsg b] else cached_queue e k)"
  using assms by (simp add: cache_msg_def cached_queue_def om_simps Let_def)

lemma cache_msg_size:
  assumes "om_inv (msg_cache e)"
  shows "cache_size (cache_msg b e) = min (Suc (cache_size e)) (max MSG_CACHE_MAX_SIZE (cache_size e))"
proof (cases "cache_size e < MSG_CACHE_MAX_SIZE")
  case True
  define k where "k = msg_id (b_curr b)"
  have "cache_size (cache_msg b e) + length (cached_queue e k) = cache_size e + length (cached_queue e k @ [CachedMsg b])"
    using True sum_om_put [OF assms, of k "cached_queue e k @ [CachedMsg b]"]
    by (simp add: cache_size_sum cache_msg_def k_def Let_def)
       (simp add: cached_queue_def split: option.splits)
  then show ?thesis using True by simp
next
  case False
  then show ?thesis by (simp add: cache_msg_def cache_size_def)
qed

lemma cache_msg_inv: "cache_inv e \<Longrightarrow> cache_inv (cache_msg b e)"
proof -
  assume inv: "cache_inv e"
  then have om: "om_inv (msg_cache e)" by (simp add: cache_inv_def)
  have size: "cache_size (cache_msg b e) \<le> MSG_CACHE_MAX_SIZE"
    using inv by (simp add: cache_msg_size [OF om] cache_inv_def)
  show ?thesis
  proof (cases "cache_size e < MSG_CACHE_MAX_SIZE")
    case True
    define k where "k = msg_id (b_curr b)"
    have "msg_cache (cache_msg b e) = om_put k (cached_queue e k @ [CachedMsg b]) (msg_cache e)"
      using True by (simp add: cache_msg_def k_def Let_def)
    then show ?thesis
      using size inv om set_om_put_subset [of k "cached_queue e k @ [CachedMsg b]" "msg_cache e"]
        cached_queue_msgs [OF inv, of _ k]
      by (fastforce simp: cache_inv_def om_simps k_def)
  next
    case False
    then show ?thesis using inv size by (simp add: cache_inv_def cache_msg_def cache_size_def)
  qed
qed

lemma has_cached_msg_id_queue: "cache_inv e \<Longrightarrow> has_cached_msg_id e k \<longleftrightarrow> cached_queue e k \<noteq> []"
  by (fastforce simp: has_cached_msg_id_def cached_queue_def cache_inv_def dest: om_get_in_set
      split: option.splits)

text \<open>The earliest deadline of the cached messages.\<close>

lemma earliest_deadline_le: "earliest_deadline thr c x \<le> max x TIME_MIN"
  by (induction thr c x rule: earliest_deadline.induct) (auto split: option.splits)

lemma earliest_deadline_throttled:
  assumes "\<forall>(k, q) \<in> set c. om_get thr k \<noteq> None"
  shows "earliest_deadline thr c x = Min (insert x ((\<lambda>p. next_timestamp (the (om_get thr (fst p)))) ` set c))"
  using assms
proof (induction thr c x rule: earliest_deadline.induct)
  case (2 thr k q c x)
  then obtain ti where ti: "om_get thr k = Some ti" by auto
  show ?case
  proof (cases "c = []")
    case True
    then show ?thesis using ti by (simp add: min.commute)
  next
    case False
    then show ?thesis using 2 ti by (simp add: min.assoc min.left_commute)
  qed
qed simp

section \<open>Properties\<close>

text \<open>An endpoint for examples.\<close>

definition ex_endpoint :: "ep_type \<Rightarrow> endpoint" where
  "ex_endpoint t = (Endpoint_init 0 t ''ex'' (replicate 1120 0) (replicate 8192 0))\<lparr>ep_fd := 3\<rparr>"

text \<open>C6: the routing decision of \<open>Endpoint::accept_msg\<close>, in its order of precedence. A message from
  a system and component seen on this endpoint is rejected; one the outgoing filters stop is
  filtered; one for a target not behind this endpoint, when no sniffer is there either, is
  rejected; one that comes too early for its rate is throttled, or cached when its id is on the
  cache list; one that would overtake cached messages of its id is cached; any other is
  accepted.\<close>

theorem accept_msg_decision:
  assumes "msg_id (b_curr b) \<noteq> UINT32_MAX"
  shows "fst (accept_msg sn e b w) =
     (let c = b_curr b; k = msg_id c; late = throttled_at e k (w_clock w (w_tick w))
      in if knows e (src_sysid c) (src_compid c) then Rejected
         else if \<not> filter_passes (outgoing e) c then Filtered
         else if \<not> reaches sn e c then Rejected
         else if late \<and> k \<notin> throttle_cache_msg_ids e then Throttled
         else if late \<or> (om_get (message_throttle_map e) k \<noteq> None \<and> k \<in> throttle_cache_msg_ids e \<and>
                         has_cached_msg_id e k) then Cached
         else Accepted)"
  using assms by (rule accept_msg_cases)

lemma accept_msg_decision_witness: "fst (accept_msg 0 (ex_endpoint UART) ex_buffer ex_world) = Accepted"
  using accept_msg_decision [of ex_buffer 0 "ex_endpoint UART" ex_world]
  by (simp add: ex_buffer_def ex_endpoint_def Endpoint_init_def knows_def filter_passes_def no_filters_def
      reaches_def throttled_at_def Let_def)

text \<open>After a throttled message was sent at time \<open>t\<close>, the next \<open>m\<close> messages of the id that are sent take at least \<open>m - 2\<close> periods,
  whatever the times at which messages are offered.\<close>

lemma throttle_period_bound:
  assumes "throttled_by e k ti" "mono (w_clock w)"
    and "offer k (e, w) = (True, e1, w1)" "offers k n (e1, w1) = (m, e2, w2)"
  shows "int m * period_ns (rate ti) \<le> w_clock w (w_tick w2) - w_clock w (Suc (w_tick w)) + 2 * period_ns (rate ti)"
    "w_clock w (Suc (w_tick w)) \<le> w_clock w (w_tick w2)"
proof -
  define t1 where "t1 = advanced ti (w_clock w (Suc (w_tick w)))"
  have "0 \<le> rate ti" using assms(1) by (simp add: throttled_by_def FLT_EPSILON_def)
  then have P: "0 \<le> period_ns (rate ti)" by (simp add: period_ns_def period_us_nonneg)
  note o = offer_step [OF assms(1,3)]
  have 1: "throttled_by e1 k t1" "w_clock w1 = w_clock w" "Suc (w_tick w) \<le> w_tick w1"
    using o by (simp_all add: t1_def)
  have r: "w_tick w1 \<le> w_tick w2" "m > 0 \<longrightarrow> next_timestamp t1 + (int m - 1) * period_ns (rate ti) \<le> w_clock w (w_tick w2)"
    using offers_rate [OF 1(1) _ _ assms(4)] P assms(2) 1(2) by (simp_all add: t1_def)
  have n: "w_clock w (Suc (w_tick w)) - period_ns (rate ti) \<le> next_timestamp t1"
    using next_timestamp_advanced(2) [OF P] by (simp add: t1_def)
  have c: "w_clock w (Suc (w_tick w)) \<le> w_clock w (w_tick w2)"
    using 1(3) r(1) monoD [OF assms(2)] by simp
  show "int m * period_ns (rate ti) \<le> w_clock w (w_tick w2) - w_clock w (Suc (w_tick w)) + 2 * period_ns (rate ti)"
    using r(2) n c P by (cases "m = 0") (simp_all add: algebra_simps)
  show "w_clock w (Suc (w_tick w)) \<le> w_clock w (w_tick w2)" by (rule c)
qed

text \<open>C12: throttling bounds the rate. After a throttled message was sent, the next \<open>m\<close> messages of the id that are sent, of any number that are
  offered at any times, take at least \<open>m - 2\<close> times the period \<open>10^9 / rate\<close> in nanoseconds, less the rounding of \<open>float\<close> (one part in
  \<open>2^23\<close>) and of the conversion to microseconds. The clock does not run backwards.\<close>

theorem throttle_rate_bound:
  assumes "throttled_by e k ti" "mono (w_clock w)"
    and "offer k (e, w) = (True, e1, w1)" "offers k n (e1, w1) = (m, e2, w2)"
  shows "of_nat (m - 2) * ((1 - 1 / 2 ^ 23) * 1000000000 / rate ti - 1000) \<le>
    (of_int (w_clock w (w_tick w2) - w_clock w (Suc (w_tick w))) :: rat)"
proof -
  let ?P = "(1 - 1 / 2 ^ 23) * 1000000000 / rate ti - 1000" and ?T = "w_clock w (w_tick w2) - w_clock w (Suc (w_tick w))"
  note b = throttle_period_bound [OF assms]
  have "0 < rate ti" using assms(1) by (simp add: throttled_by_def FLT_EPSILON_def)
  then have "?P \<le> of_int (period_ns (rate ti))" using period_us_lower [of "rate ti"] by (simp add: period_ns_def)
  then have 1: "of_nat (m - 2) * ?P \<le> of_nat (m - 2) * of_int (period_ns (rate ti))" by (rule mult_left_mono) simp
  have "int (m - 2) * period_ns (rate ti) \<le> ?T"
    using b by (cases "m \<le> 2") (simp_all add: of_nat_diff algebra_simps)
  then have "of_int (int (m - 2) * period_ns (rate ti)) \<le> (of_int ?T :: rat)" by (simp only: of_int_le_iff)
  then show ?thesis using 1 by simp
qed

definition ex_throttled :: endpoint where
  "ex_throttled = (ex_endpoint UART)\<lparr>message_throttle_map := [(0, \<lparr>rate = 1, next_timestamp = 0\<rparr>)]\<rparr>"

definition ex_seconds :: world where
  "ex_seconds = ex_world\<lparr>w_clock := \<lambda>k. int k * 1000000000\<rparr>"

lemma throttle_rate_bound_witness:
  "\<exists>e2 w2. offers 0 3 (snd (offer 0 (ex_throttled, ex_seconds))) = (3, e2, w2) \<and>
     (1 - 1 / 2 ^ 23) * 1000000000 - 1000 \<le> (of_int (w_clock ex_seconds (w_tick w2) - w_clock ex_seconds 1) :: rat)"
proof -
  define s1 where "s1 = snd (offer 0 (ex_throttled, ex_seconds))"
  define s2 where "s2 = offers 0 3 (fst s1, snd s1)"
  note eval = offer_def should_throttle_msg_def update_throttle_info_def steady_now_def ex_throttled_def
    ex_seconds_def ex_world_def om_get_def FLT_EPSILON_def Let_def period_us_examples
  have o: "offer 0 (ex_throttled, ex_seconds) = (True, fst s1, snd s1)"
    by (simp add: s1_def eval)
  have s2: "offers 0 3 (fst s1, snd s1) = (3, fst (snd s2), snd (snd s2))"
    by (simp add: s2_def s1_def eval numeral_3_eq_3)
  have t: "throttled_by ex_throttled 0 \<lparr>rate = 1, next_timestamp = 0\<rparr>"
    by (simp add: throttled_by_def ex_throttled_def om_inv_def om_get_def FLT_EPSILON_def)
  have tick: "w_tick ex_seconds = 0" by (simp add: ex_seconds_def ex_world_def)
  have "mono (w_clock ex_seconds)" by (simp add: ex_seconds_def mono_def)
  from throttle_rate_bound [OF t this o s2]
  have "(1 - 1 / 2 ^ 23) * 1000000000 - 1000 \<le> (of_int (w_clock ex_seconds (w_tick (snd (snd s2))) - w_clock ex_seconds 1) :: rat)"
    by (simp add: tick)
  moreover have "offers 0 3 (snd (offer 0 (ex_throttled, ex_seconds))) = (3, fst (snd s2), snd (snd s2))"
    using s2 by (simp only: s1_def prod.collapse)
  ultimately show ?thesis by blast
qed

text \<open>C40: the throttle cache keeps at most \<open>MSG_CACHE_MAX_SIZE\<close> messages, in queues sorted by message
  id that are never empty; a new message goes to the end of its queue and no other queue
  changes; when the cache is full the message is dropped and counted.\<close>

theorem cache_msg_bounded_fifo:
  assumes "cache_inv e"
  shows "cache_inv (cache_msg b e) \<and>
    (if cache_size e < MSG_CACHE_MAX_SIZE
     then (\<forall>k. cached_queue (cache_msg b e) k =
             (if k = msg_id (b_curr b) then cached_queue e k @ [CachedMsg b] else cached_queue e k)) \<and>
          cache_size (cache_msg b e) = cache_size e + 1
     else cache_msg b e = e\<lparr>msg_cache_dropped := msg_cache_dropped e + 1\<rparr>)"
proof -
  have om: "om_inv (msg_cache e)" using assms by (simp add: cache_inv_def)
  show ?thesis
    using cache_msg_inv [OF assms] cache_msg_queue [OF om] cache_msg_size [OF om, of b]
    by (auto simp: cache_msg_def)
qed

lemma cache_msg_bounded_fifo_witness:
  "cached_queue (cache_msg ex_buffer (ex_endpoint UART)) 0 = [CachedMsg ex_buffer]"
  using cache_msg_bounded_fifo [of "ex_endpoint UART" ex_buffer]
  by (simp add: ex_endpoint_def Endpoint_init_def cache_inv_def cache_size_def cached_queue_def ex_buffer_def)

end
