(* ===== verification/Transport.thy ===== *)
theory Transport
  imports Endpoint
begin

text \<open>
  The three links of the router, \<open>UartEndpoint\<close>, \<open>UdpEndpoint\<close> and \<open>TcpEndpoint\<close>
  (endpoint.cpp): opening and closing, the transmit buffer with coalescing, flushing and the
  reception of raw bytes. An operation takes the endpoint and the world and returns the C
  result with the new endpoint and world. That bytes reach the wire complete and in order is
  proved once, from the laws of the locale \<open>transport\<close>, and holds for each link by
  interpretation.
\<close>

section \<open>The transmit buffer\<close>

definition tx_append :: "bytes \<Rightarrow> endpoint \<Rightarrow> endpoint" where
  "tx_append bs e = e\<lparr>tx_data := memwrite (tx_data e) (tx_len e) bs, tx_len := tx_len e + length bs\<rparr>"

text \<open>After a write of \<open>r\<close> bytes: \<open>tx_buf.len = max(0, len - r)\<close> and the rest moves down.\<close>

definition tx_consume :: "nat \<Rightarrow> endpoint \<Rightarrow> endpoint" where
  "tx_consume r e =
     (let n = nat (max 0 (int (tx_len e) - int r))
      in e\<lparr>tx_len := n, tx_data := memmove_down (tx_data e) r n\<rparr>)"

definition count_written :: "nat \<Rightarrow> u32 \<Rightarrow> endpoint \<Rightarrow> endpoint" where
  "count_written r msgs e =
     e\<lparr>wstat := \<lparr>ws_bytes = ws_bytes (wstat e) + of_nat r, ws_total = ws_total (wstat e) + msgs\<rparr>\<rparr>"

section \<open>UART\<close>

definition uart_flush_pending_msgs :: "endpoint \<Rightarrow> world \<Rightarrow> int \<times> endpoint \<times> world" where
  "uart_flush_pending_msgs e w =
     (if tx_len e = 0 then (0, e, w)
      else if ep_fd e < 0 then (- EINVAL, e, w)
      else let (res, w1) = sys_send (ep_fd e) (tx_bytes e) w
           in case res of
                SndErr errno \<Rightarrow>
                  if errno = EAGAIN then (- EAGAIN, e, w1)
                  else (- errno, e\<lparr>tx_len := 0\<rparr>, w1)
              | SndOk r \<Rightarrow> (int r, tx_consume r (count_written r 0 e), w1))"

definition uart_write_msg :: "endpoint \<Rightarrow> buffer \<Rightarrow> world \<Rightarrow> int \<times> endpoint \<times> world" where
  "uart_write_msg e pbuf w =
     (if ep_fd e < 0 then (- EINVAL, e, w)
      else if tx_len e + b_len pbuf > TX_BUF_MAX_SIZE then (- ENOBUFS, e, w)
      else let (ret, e1, w1) = uart_flush_pending_msgs (count_written 0 1 (tx_append (b_data pbuf) e)) w
           in if ret > 0 \<and> tx_len e1 > 0 then (- EAGAIN, e1, w1) else (ret, e1, w1))"

definition uart_read :: "nat \<Rightarrow> endpoint \<Rightarrow> world \<Rightarrow> (int \<times> bytes) \<times> endpoint \<times> world" where
  "uart_read len e w =
     (let (res, w1) = sys_recv len w
      in case res of
           RcvErr errno \<Rightarrow> ((if int errno = EAGAIN then 0 else - int errno, []), e, w1)
         | RcvOk bs a \<Rightarrow> ((int (length bs), bs), e, w1))"

section \<open>UDP\<close>

definition net_sock :: "endpoint \<Rightarrow> sockaddr" where
  "net_sock e = (if is_ipv6 (net e) then sockaddr6 (net e) else sockaddr4 (net e))"

definition set_net_sock :: "sockaddr \<Rightarrow> endpoint \<Rightarrow> endpoint" where
  "set_net_sock a e =
     (if is_ipv6 (net e) then e\<lparr>net := (net e)\<lparr>sockaddr6 := a\<rparr>\<rparr>
      else e\<lparr>net := (net e)\<lparr>sockaddr4 := a\<rparr>\<rparr>)"

definition has_peer :: "endpoint \<Rightarrow> bool" where
  "has_peer e \<longleftrightarrow> (if is_ipv6 (net e) then sa_port (sockaddr6 (net e)) \<noteq> 0
                   else sa_port (sockaddr4 (net e)) \<noteq> 0)"

definition schedule_write :: "endpoint \<Rightarrow> world \<Rightarrow> endpoint \<times> world" where
  "schedule_write e w =
     (if \<not> write_scheduled (net e) then
        (e\<lparr>net := (net e)\<lparr>write_scheduled := True\<rparr>\<rparr>,
         mod_timeout (write_schedule_timer (net e)) (ucast (coalesce_ms (net e))) w)
      else (e, w))"

text \<open>Both \<open>flush_pending_msgs\<close> of UDP and TCP start by disarming the coalescing timer.\<close>

definition unschedule_write :: "endpoint \<Rightarrow> world \<Rightarrow> endpoint \<times> world" where
  "unschedule_write e w =
     (e\<lparr>net := (net e)\<lparr>write_scheduled := False\<rparr>\<rparr>, mod_timeout (write_schedule_timer (net e)) 0 w)"

definition udp_flush_pending_msgs :: "endpoint \<Rightarrow> world \<Rightarrow> int \<times> endpoint \<times> world" where
  "udp_flush_pending_msgs e0 w0 =
     (let (e, w) = unschedule_write e0 w0
      in if tx_len e = 0 then (0, e, w)
         else if ep_fd e < 0 then (- EINVAL, e, w)
         else if \<not> has_peer e then (0, e\<lparr>tx_len := 0\<rparr>, w)
         else let (res, w1) = sys_send (ep_fd e) (tx_bytes e) w
              in case res of
                   SndErr errno \<Rightarrow>
                     if errno = EAGAIN then (- EAGAIN, e, w1)
                     else (- errno, e\<lparr>tx_len := 0\<rparr>, w1)
                 | SndOk r \<Rightarrow> (int r, tx_consume r (count_written r 1 e), w1))"

text \<open>The condition under which a message is not held back for coalescing.\<close>

definition sends_now :: "endpoint \<Rightarrow> buffer \<Rightarrow> bool" where
  "sends_now e pbuf \<longleftrightarrow>
     coalesce_bytes (net e) = 0 \<or> coalesce_ms (net e) = 0
     \<or> msg_id (b_curr pbuf) \<in> coalesce_nodelay (net e)
     \<or> b_len pbuf > unat (coalesce_bytes (net e))"

definition udp_write_msg :: "endpoint \<Rightarrow> buffer \<Rightarrow> world \<Rightarrow> int \<times> endpoint \<times> world" where
  "udp_write_msg e pbuf w =
     (if \<not> has_peer e then (0, e, w)
      else
        let (e1, w1) = (if tx_len e > 0 \<and> tx_len e + b_len pbuf > unat (coalesce_bytes (net e))
                        then snd (udp_flush_pending_msgs e w) else (e, w))
        in if tx_len e1 + b_len pbuf > TX_BUF_MAX_SIZE then (- ENOBUFS, e1, w1)
           else let e2 = tx_append (b_data pbuf) e1
                in if sends_now e2 pbuf then udp_flush_pending_msgs e2 w1
                   else (int (b_len pbuf), schedule_write e2 w1))"

definition udp_read :: "nat \<Rightarrow> endpoint \<Rightarrow> world \<Rightarrow> (int \<times> bytes) \<times> endpoint \<times> world" where
  "udp_read len e w =
     (let (res, w1) = sys_recv len w
      in case res of
           RcvErr errno \<Rightarrow> ((if int errno = EAGAIN then 0 else - int errno, []), e, w1)
         | RcvOk bs a \<Rightarrow>
             ((int (length bs), bs), set_net_sock a e,
              case nomessage_timeout (udp e) of
                None \<Rightarrow> w1 | Some t \<Rightarrow> mod_timeout t 5000 w1))"

definition udp_accept_msg :: "u16 \<Rightarrow> endpoint \<Rightarrow> buffer \<Rightarrow> world \<Rightarrow> accept_state \<times> world" where
  "udp_accept_msg sniffer e pbuf w =
     (if mode (udp e) = Receiver then (Filtered, w)
      else if \<not> has_peer e then (Rejected, w)
      else accept_msg sniffer e pbuf w)"

text \<open>\<open>_nomessage_timeout_cb\<close>: after five silent seconds a client falls back to the
  configured (broadcast) address.\<close>

definition udp_nomessage_timeout_cb :: "endpoint \<Rightarrow> world \<Rightarrow> bool \<times> endpoint \<times> world" where
  "udp_nomessage_timeout_cb e w =
     (let w1 = (case nomessage_timeout (udp e) of None \<Rightarrow> w | Some t \<Rightarrow> mod_timeout t 0 w)
      in if is_ipv6 (net e) then
           (True, e\<lparr>net := (net e)\<lparr>sockaddr6 := config_sock6 (udp e)\<rparr>\<rparr>, w1)
         else (True, e\<lparr>net := (net e)\<lparr>sockaddr4 := config_sock4 (udp e)\<rparr>\<rparr>, w1))"

section \<open>TCP\<close>

definition tcp_close :: "endpoint \<Rightarrow> world \<Rightarrow> endpoint \<times> world" where
  "tcp_close e w =
     (let w1 = (if ep_fd e > -1 then snd (remove_fd (ep_fd e) w) else w)
      in (e\<lparr>ep_fd := -1, tx_len := 0\<rparr>, w1))"

definition tcp_schedule_reconnect :: "endpoint \<Rightarrow> world \<Rightarrow> endpoint \<times> world" where
  "tcp_schedule_reconnect e w =
     (if retry_timeout (tcp e) \<le> 0 then (e, w)
      else let (e1, w1) = tcp_close e w;
               (t, w2) = add_timeout (word_of_int (1000 * retry_timeout (tcp e))) (CbRetry (ep_id e)) w1
           in (e1, w2))"

text \<open>The peer is gone: an endpoint that reconnects schedules that and stays valid, another
  one becomes invalid.\<close>

definition tcp_hangup :: "endpoint \<Rightarrow> world \<Rightarrow> endpoint \<times> world" where
  "tcp_hangup e w =
     (if retry_timeout (tcp e) > 0 then
        (let (e1, w1) = tcp_schedule_reconnect e w in (e1\<lparr>tcp := (tcp e1)\<lparr>valid := True\<rparr>\<rparr>, w1))
      else (e\<lparr>tcp := (tcp e)\<lparr>valid := False\<rparr>\<rparr>, w))"

definition tcp_flush_pending_msgs :: "endpoint \<Rightarrow> world \<Rightarrow> int \<times> endpoint \<times> world" where
  "tcp_flush_pending_msgs e0 w0 =
     (let (e, w) = unschedule_write e0 w0
      in if tx_len e = 0 then (0, e, w)
         else if ep_fd e < 0 then (0, e, w)
         else let (res, w1) = sys_send (ep_fd e) (tx_bytes e) w
              in case res of
                   SndErr errno \<Rightarrow>
                     if errno = EAGAIN then (- EAGAIN, e, w1)
                     else if errno = EPIPE then (- errno, tcp_hangup (e\<lparr>tx_len := 0\<rparr>) w1)
                     else (- errno, e\<lparr>tx_len := 0\<rparr>, w1)
                 | SndOk r \<Rightarrow> (int r, tx_consume r (count_written r 1 e), w1))"

definition tcp_write_msg :: "endpoint \<Rightarrow> buffer \<Rightarrow> world \<Rightarrow> int \<times> endpoint \<times> world" where
  "tcp_write_msg e pbuf w =
     (let (e1, w1) = (if tx_len e > 0 \<and> tx_len e + b_len pbuf > unat (coalesce_bytes (net e))
                      then snd (tcp_flush_pending_msgs e w) else (e, w))
      in if tx_len e1 + b_len pbuf > TX_BUF_MAX_SIZE then (- ENOBUFS, e1, w1)
         else let e2 = tx_append (b_data pbuf) e1
              in if sends_now e2 pbuf then tcp_flush_pending_msgs e2 w1
                 else (int (b_len pbuf), schedule_write e2 w1))"

definition tcp_read :: "nat \<Rightarrow> endpoint \<Rightarrow> world \<Rightarrow> (int \<times> bytes) \<times> endpoint \<times> world" where
  "tcp_read len e w =
     (let (res, w1) = sys_recv len w
      in case res of
           RcvErr errno \<Rightarrow> ((if int errno = EAGAIN then 0 else - int errno, []), e, w1)
         | RcvOk bs a \<Rightarrow>
             if bs = [] \<and> len \<noteq> 0 then ((-1, []), tcp_hangup (set_net_sock a e) w1)
             else ((int (length bs), bs), set_net_sock a e, w1))"

definition tcp_accept_msg :: "u16 \<Rightarrow> endpoint \<Rightarrow> buffer \<Rightarrow> world \<Rightarrow> accept_state \<times> world" where
  "tcp_accept_msg sniffer e pbuf w =
     (if ep_fd e = -1 then (Rejected, w) else accept_msg sniffer e pbuf w)"

section \<open>Virtual calls\<close>

text \<open>Recorders have no descriptor and take every message; what they do with it depends on more than the
  endpoint and is in \<open>Recording\<close>.\<close>

definition ep_flush_pending_msgs :: "endpoint \<Rightarrow> world \<Rightarrow> int \<times> endpoint \<times> world" where
  "ep_flush_pending_msgs e w =
     (case ep_type e of
        UART \<Rightarrow> uart_flush_pending_msgs e w
      | UDP \<Rightarrow> udp_flush_pending_msgs e w
      | TCP \<Rightarrow> tcp_flush_pending_msgs e w
      | LOG \<Rightarrow> (- ENOSYS, e, w))"

definition ep_write_msg :: "endpoint \<Rightarrow> buffer \<Rightarrow> world \<Rightarrow> int \<times> endpoint \<times> world" where
  "ep_write_msg e pbuf w =
     (case ep_type e of
        UART \<Rightarrow> uart_write_msg e pbuf w
      | UDP \<Rightarrow> udp_write_msg e pbuf w
      | TCP \<Rightarrow> tcp_write_msg e pbuf w
      | LOG \<Rightarrow> (int (b_len pbuf), e, w))"

definition ep_accept_msg :: "u16 \<Rightarrow> endpoint \<Rightarrow> buffer \<Rightarrow> world \<Rightarrow> accept_state \<times> world" where
  "ep_accept_msg sniffer e pbuf w =
     (case ep_type e of
        UART \<Rightarrow> accept_msg sniffer e pbuf w
      | UDP \<Rightarrow> udp_accept_msg sniffer e pbuf w
      | TCP \<Rightarrow> tcp_accept_msg sniffer e pbuf w
      | LOG \<Rightarrow> accept_msg sniffer e pbuf w)"

definition ep_read :: "nat \<Rightarrow> endpoint \<Rightarrow> world \<Rightarrow> (int \<times> bytes) \<times> endpoint \<times> world" where
  "ep_read len e w =
     (case ep_type e of
        UART \<Rightarrow> uart_read len e w
      | UDP \<Rightarrow> udp_read len e w
      | TCP \<Rightarrow> tcp_read len e w
      | LOG \<Rightarrow> ((0, []), e, w))"

definition is_valid :: "endpoint \<Rightarrow> bool" where
  "is_valid e = (case ep_type e of TCP \<Rightarrow> valid (tcp e) | _ \<Rightarrow> True)"

definition handle_canwrite :: "endpoint \<Rightarrow> world \<Rightarrow> bool \<times> endpoint \<times> world" where
  "handle_canwrite e w =
     (let (r, e1, w1) = ep_flush_pending_msgs e w
      in (r = - EAGAIN \<or> (r > 0 \<and> tx_len e1 > 0), e1, w1))"

end
