(* ===== verification/Text.thy ===== *)
theory Text
  imports Float32
begin

text \<open>
  The functions of the C and C++ library on text the sources use, in the C locale: character
  classes, splitting, comparison without case and conversion to numbers. A C string is the
  list of its characters before the terminating NUL; a piece of text with a length may contain
  NUL characters.
\<close>

section \<open>Characters and splitting\<close>

abbreviation NUL :: char where "NUL \<equiv> CHR 0x00"
abbreviation LF :: char where "LF \<equiv> CHR 0x0A"

fun split_on :: "char \<Rightarrow> string \<Rightarrow> string list" where
  "split_on c [] = [[]]"
| "split_on c (x # xs) =
     (if x = c then [] # split_on c xs
      else case split_on c xs of [] \<Rightarrow> [[x]] | y # ys \<Rightarrow> (x # y) # ys)"

definition is_digit :: "char \<Rightarrow> bool" where
  "is_digit c \<longleftrightarrow> 48 \<le> (of_char c :: nat) \<and> (of_char c :: nat) \<le> 57"

definition is_space :: "char \<Rightarrow> bool" where
  "is_space c \<longleftrightarrow> (of_char c :: nat) = 32 \<or> (9 \<le> (of_char c :: nat) \<and> (of_char c :: nat) \<le> 13)"

text \<open>\<open>tolower\<close>.\<close>

definition to_lower :: "char \<Rightarrow> char" where
  "to_lower c = (if 65 \<le> (of_char c :: nat) \<and> (of_char c :: nat) \<le> 90 then char_of ((of_char c :: nat) + 32) else c)"

text \<open>A text with a length, copied to a C string (\<open>strndupa\<close>).\<close>

definition c_str :: "string \<Rightarrow> string" where
  "c_str s = takeWhile (\<lambda>c. c \<noteq> NUL) s"

text \<open>\<open>strtok\<close> with one separator: the non-empty pieces.\<close>

definition strtok_on :: "char \<Rightarrow> string \<Rightarrow> string list" where
  "strtok_on c s = filter (\<lambda>t. t \<noteq> []) (split_on c s)"

definition strtok :: "string \<Rightarrow> string list" where
  "strtok s = strtok_on (CHR '' '') s"

section \<open>Comparison\<close>

text \<open>\<open>strncasecmp(a, b, n) == 0\<close> on two texts of length \<open>n\<close>: it stops at a common NUL.\<close>

fun strncaseeq :: "string \<Rightarrow> string \<Rightarrow> bool" where
  "strncaseeq [] ys = True"
| "strncaseeq xs [] = True"
| "strncaseeq (x # xs) (y # ys) \<longleftrightarrow> to_lower x = to_lower y \<and> (x = NUL \<or> strncaseeq xs ys)"

text \<open>\<open>memcaseeq\<close> (util.h).\<close>

definition memcaseeq :: "string \<Rightarrow> string \<Rightarrow> bool" where
  "memcaseeq a b \<longleftrightarrow> length a = length b \<and> strncaseeq a b"

text \<open>\<open>strcasecmp(a, b) == 0\<close> on C strings.\<close>

definition strcaseeq :: "string \<Rightarrow> string \<Rightarrow> bool" where
  "strcaseeq a b \<longleftrightarrow> map to_lower a = map to_lower b"

text \<open>\<open>fnmatch\<close> with \<open>FNM_CASEFOLD\<close> and no other flag, for patterns of stars, question marks and
  plain characters.\<close>

fun fnmatch :: "string \<Rightarrow> string \<Rightarrow> bool" where
  "fnmatch [] s \<longleftrightarrow> s = []"
| "fnmatch (p # ps) [] \<longleftrightarrow> p = CHR ''*'' \<and> fnmatch ps []"
| "fnmatch (p # ps) (c # cs) \<longleftrightarrow>
     (if p = CHR ''*'' then fnmatch ps (c # cs) \<or> fnmatch (p # ps) cs
      else (p = CHR ''?'' \<or> to_lower p = to_lower c) \<and> fnmatch ps cs)"

section \<open>Numbers\<close>

definition digits_value :: "string \<Rightarrow> int" where
  "digits_value ds = foldl (\<lambda>v c. v * 10 + (of_char c - 48)) 0 ds"

text \<open>\<open>strtol\<close> in base 10 with the saturation of \<open>long\<close>; \<open>atoi\<close> and \<open>atol\<close> on top of it.\<close>

definition strtol :: "string \<Rightarrow> int" where
  "strtol s =
     (let s1 = dropWhile is_space s;
          neg = (s1 \<noteq> [] \<and> hd s1 = CHR ''-'');
          s2 = (if s1 \<noteq> [] \<and> (hd s1 = CHR ''-'' \<or> hd s1 = CHR ''+'') then tl s1 else s1);
          v = digits_value (takeWhile is_digit s2)
      in max (- (2 ^ 63)) (min (2 ^ 63 - 1) (if neg then - v else v)))"

definition atol :: "string \<Rightarrow> int" where
  "atol s = strtol s"

definition atoi :: "string \<Rightarrow> int" where
  "atoi s = sint (word_of_int (strtol s) :: 32 word)"

text \<open>The common part of \<open>strtol\<close> and \<open>strtoul\<close> in base 0: white space, a sign, and the digits in
  the base their prefix tells. The result is the sign, the magnitude and the rest of the text,
  or nothing when there is no digit. A prefix 0x with no digit after it is the number 0.\<close>

definition digit_val :: "char \<Rightarrow> nat" where
  "digit_val c =
     (let n = of_char (to_lower c)
      in if is_digit c then n - 48 else if 97 \<le> n \<and> n \<le> 122 then n - 87 else 36)"

definition number_base :: "string \<Rightarrow> nat \<times> string" where
  "number_base s =
     (case s of
        z # x # d # _ \<Rightarrow>
          if z = CHR ''0'' \<and> to_lower x = CHR ''x'' \<and> digit_val d < 16 then (16, drop 2 s)
          else if z = CHR ''0'' then (8, s) else (10, s)
      | z # _ \<Rightarrow> if z = CHR ''0'' then (8, s) else (10, s)
      | [] \<Rightarrow> (10, s))"

definition scan_number :: "string \<Rightarrow> (bool \<times> nat \<times> string) option" where
  "scan_number s =
     (let s1 = dropWhile is_space s;
          s2 = (if s1 \<noteq> [] \<and> (hd s1 = CHR ''-'' \<or> hd s1 = CHR ''+'') then tl s1 else s1);
          (base, s3) = number_base s2;
          ds = takeWhile (\<lambda>c. digit_val c < base) s3
      in if ds = [] then None
         else Some (s1 \<noteq> [] \<and> hd s1 = CHR ''-'', foldl (\<lambda>v c. v * base + digit_val c) 0 ds, drop (length ds) s3))"

text \<open>Value, rest and \<open>errno\<close> of \<open>strtol(s, &x, 0)\<close> and \<open>strtoul(s, &x, 0)\<close> after \<open>errno = 0\<close>, with a
  \<open>long\<close> of 64 bits. \<open>strtoul\<close> negates in the unsigned type and checks only the magnitude.\<close>

definition strtol_base0 :: "string \<Rightarrow> int \<times> string \<times> int" where
  "strtol_base0 s =
     (case scan_number s of
        None \<Rightarrow> (0, s, 0)
      | Some (neg, m, x) \<Rightarrow>
          let v = (if neg then - int m else int m)
          in if v < - (2 ^ 63) then (- (2 ^ 63), x, ERANGE)
             else if v > 2 ^ 63 - 1 then (2 ^ 63 - 1, x, ERANGE)
             else (v, x, 0))"

definition strtoul_base0 :: "string \<Rightarrow> u64 \<times> string \<times> int" where
  "strtoul_base0 s =
     (case scan_number s of
        None \<Rightarrow> (0, s, 0)
      | Some (neg, m, x) \<Rightarrow>
          if m \<ge> 2 ^ 64 then (- 1, x, ERANGE)
          else ((if neg then - of_nat m else of_nat m), x, 0))"

text \<open>\<open>printf\<close>: \<open>%u\<close>, \<open>%i\<close>, and \<open>%0Nu\<close>, which fills with zeros up to \<open>N\<close> characters.\<close>

definition digit_char :: "nat \<Rightarrow> char" where
  "digit_char d = char_of (48 + d)"

fun show_nat :: "nat \<Rightarrow> string" where
  "show_nat n = (if n < 10 then [digit_char n] else show_nat (n div 10) @ [digit_char (n mod 10)])"

declare show_nat.simps [simp del]

definition show_int :: "int \<Rightarrow> string" where
  "show_int i = (if i < 0 then CHR ''-'' # show_nat (nat (- i)) else show_nat (nat i))"

definition show_padded :: "nat \<Rightarrow> nat \<Rightarrow> string" where
  "show_padded k n = (let s = show_nat n in replicate (k - length s) (CHR ''0'') @ s)"

text \<open>\<open>atof\<close> on decimal notation (hexadecimal floats, infinities and NaN are left out), and its
  conversion to \<open>float\<close>.\<close>

definition decimal_value :: "string \<Rightarrow> rat" where
  "decimal_value s =
     (let ip = takeWhile is_digit s; s1 = drop (length ip) s;
          fp = (if s1 \<noteq> [] \<and> hd s1 = CHR ''.'' then takeWhile is_digit (tl s1) else []);
          s2 = (if s1 \<noteq> [] \<and> hd s1 = CHR ''.'' then drop (length fp) (tl s1) else s1);
          ex = (if s2 \<noteq> [] \<and> (hd s2 = CHR ''e'' \<or> hd s2 = CHR ''E'') 
                  \<and> (tl s2 \<noteq> [] \<longrightarrow> \<not> is_space (hd (tl s2))) then strtol (tl s2) else 0)
      in (of_int (digits_value ip) + of_int (digits_value fp) / 10 ^ length fp) * 10 powi ex)"

definition atof_float :: "string \<Rightarrow> rat" where
  "atof_float s =
     (let s1 = dropWhile is_space s;
          s2 = (if s1 \<noteq> [] \<and> (hd s1 = CHR ''-'' \<or> hd s1 = CHR ''+'') then tl s1 else s1);
          v = f32_round (f64_round (decimal_value s2))
      in if s1 \<noteq> [] \<and> hd s1 = CHR ''-'' then - v else v)"

section \<open>Lemmas\<close>

lemma split_on_nonempty [simp]: "split_on c s \<noteq> []"
  by (induction s) (auto split: list.splits)

lemma split_on_last [simp]: "c \<notin> set s \<Longrightarrow> split_on c s = [s]"
  by (induction s) auto

lemma split_on_append: "c \<notin> set s \<Longrightarrow> split_on c (s @ c # t) = s # split_on c t"
  by (induction s) auto

lemma strncaseeq_refl [simp]: "strncaseeq s s"
  by (induction s) auto

lemma memcaseeq_refl [simp]: "memcaseeq s s"
  by (simp add: memcaseeq_def)

text \<open>Without NUL characters the comparison is equality up to case, hence an equivalence.\<close>

lemma strncaseeq_iff:
  "length a = length b \<Longrightarrow> NUL \<notin> set a \<Longrightarrow> strncaseeq a b \<longleftrightarrow> map to_lower a = map to_lower b"
  by (induction a b rule: list_induct2) auto

lemma memcaseeq_iff: "NUL \<notin> set a \<Longrightarrow> memcaseeq a b \<longleftrightarrow> map to_lower a = map to_lower b"
  by (metis length_map memcaseeq_def strncaseeq_iff)

lemma digit_char_simps [simp]:
  assumes "d < 10"
  shows "is_digit (digit_char d)" "of_char (digit_char d) = (of_nat (48 + d) :: 'a::linordered_semidom)" "digit_val (digit_char d) = d"
    and "\<not> is_space (digit_char d)" "to_lower (digit_char d) = digit_char d"
proof -
  have c: "of_char (digit_char d) = (48 + d :: nat)" using assms by (simp add: digit_char_def)
  then show "is_digit (digit_char d)" using assms by (simp add: is_digit_def)
  show "of_char (digit_char d) = (of_nat (48 + d) :: 'a)" using c by (metis of_nat_of_char)
  show "to_lower (digit_char d) = digit_char d" using c assms by (simp add: to_lower_def)
  then show "digit_val (digit_char d) = d" using c assms by (simp add: digit_val_def is_digit_def)
  show "\<not> is_space (digit_char d)" using c assms by (simp add: is_space_def)
qed

lemma show_nat_digits: "list_all is_digit (show_nat n)"
  by (induction n rule: show_nat.induct) (simp add: show_nat.simps)

lemma show_nat_nonempty [simp]: "show_nat n \<noteq> []"
  by (subst show_nat.simps) simp

lemma digits_value_show_nat [simp]: "digits_value (show_nat n) = int n"
proof (induction n rule: show_nat.induct)
  case (1 n)
  show ?case
  proof (cases "n < 10")
    case False
    have "int (n div 10) * 10 + int (n mod 10) = int n" by presburger
    with False show ?thesis using 1 by (subst show_nat.simps) (simp add: digits_value_def)
  qed (subst show_nat.simps, simp add: digits_value_def)
qed

lemma digit_char_zero: "d < 10 \<Longrightarrow> digit_char d = CHR ''0'' \<longleftrightarrow> d = 0"
proof
  assume "d < 10" "digit_char d = CHR ''0''"
  then have "(48 + d :: nat) = of_char CHR ''0''" using digit_char_simps(2) [of d, where 'a = nat] by simp
  then show "d = 0" by simp
qed (simp add: digit_char_def char_of_eq_iff)

lemma hd_show_nat: "hd (show_nat n) = CHR ''0'' \<longleftrightarrow> n = 0"
proof (induction n rule: show_nat.induct)
  case (1 n)
  show ?case
  proof (cases "n < 10")
    case True
    then show ?thesis by (subst show_nat.simps) (simp add: digit_char_zero)
  next
    case False
    then have "n div 10 \<noteq> 0" by simp
    with 1 False show ?thesis by (subst show_nat.simps) simp
  qed
qed

lemma foldl_digit_val_show_nat: "foldl (\<lambda>v c. v * 10 + digit_val c) 0 (show_nat n) = n"
proof (induction n rule: show_nat.induct)
  case (1 n)
  then show ?case by (subst show_nat.simps) (simp add: div_mult_mod_eq)
qed

lemma digit_val_digit: "is_digit c \<Longrightarrow> digit_val c < 10"
  by (auto simp: digit_val_def is_digit_def to_lower_def Let_def)

lemma not_space_digit: "is_digit c \<Longrightarrow> \<not> is_space c"
  by (auto simp: is_digit_def is_space_def)

lemma number_base_show_nat: "number_base (show_nat n) = (if n = 0 then 8 else 10, show_nat n)"
proof -
  have x: "to_lower x \<noteq> CHR ''x''" if "x \<in> set (show_nat n)" for x
  proof -
    have "is_digit x" using that show_nat_digits [of n] by (simp add: list_all_iff)
    then show ?thesis by (auto simp: is_digit_def to_lower_def)
  qed
  show ?thesis
  proof (cases "show_nat n")
    case (Cons z zs)
    then show ?thesis using hd_show_nat [of n] x by (auto simp: number_base_def split: list.split)
  qed simp
qed

lemma scan_number_show_nat: "scan_number (show_nat n) = Some (False, n, [])"
proof -
  have d: "\<And>c. c \<in> set (show_nat n) \<Longrightarrow> is_digit c" using show_nat_digits [of n] by (simp add: list_all_iff)
  obtain c cs where c: "show_nat n = c # cs" by (cases "show_nat n") auto
  then have hd: "is_digit c" using d by simp
  have sp: "dropWhile is_space (show_nat n) = show_nat n" using c hd by (simp add: not_space_digit)
  have sg: "c \<noteq> CHR ''-'' \<and> c \<noteq> CHR ''+''" using hd by (auto simp: is_digit_def)
  have tw: "takeWhile (\<lambda>c. digit_val c < (if n = 0 then 8 else 10)) (show_nat n) = show_nat n"
    using d by (auto simp: digit_val_digit show_nat.simps [of 0])
  have hs: "\<not> (show_nat n \<noteq> [] \<and> (hd (show_nat n) = CHR ''-'' \<or> hd (show_nat n) = CHR ''+''))"
    using c sg by simp
  have f: "foldl (\<lambda>v c. v * (if n = 0 then 8 else 10) + digit_val c) 0 (show_nat n) = n"
    using foldl_digit_val_show_nat [of n] by (cases "n = 0") (simp_all add: show_nat.simps [of 0])
  show ?thesis
    using hs by (simp add: scan_number_def sp number_base_show_nat tw f)
qed

lemma Nil_show_nat [simp]: "[] \<noteq> show_nat n"
  using show_nat_nonempty [of n] by metis

lemma scan_number_minus: "scan_number (CHR ''-'' # show_nat n) = Some (True, n, [])"
proof -
  have sp: "\<not> is_space CHR ''-''" by (simp add: is_space_def)
  obtain c cs where c: "show_nat n = c # cs" "is_digit c"
    using show_nat_digits [of n] by (cases "show_nat n") auto
  then have sg: "c \<noteq> CHR ''-''" "c \<noteq> CHR ''+''" by (auto simp: is_digit_def)
  show ?thesis
    using scan_number_show_nat [of n]
    by (simp add: scan_number_def c sg sp not_space_digit Let_def case_prod_unfold split: if_splits)
qed

lemma scan_number_show_int: "scan_number (show_int v) = Some (v < 0, nat \<bar>v\<bar>, [])"
  by (simp add: show_int_def scan_number_show_nat scan_number_minus)

lemma show_int_nonempty [simp]: "show_int v \<noteq> []" "[] \<noteq> show_int v"
  by (auto simp: show_int_def)

lemma sint_word32_iff: "sint (word_of_int v :: 32 word) = v \<longleftrightarrow> - (2 ^ 31) \<le> v \<and> v < 2 ^ 31"
proof
  assume "sint (word_of_int v :: 32 word) = v"
  then show "- (2 ^ 31) \<le> v \<and> v < 2 ^ 31"
    using sint_ge [of "word_of_int v :: 32 word"] sint_lt [of "word_of_int v :: 32 word"] by simp
next
  assume "- (2 ^ 31) \<le> v \<and> v < 2 ^ 31"
  then show "sint (word_of_int v :: 32 word) = v"
    by (simp add: signed_of_int signed_take_bit_int_eq_self)
qed

end
