(* ===== verification/Setup.thy ===== *)
theory Setup
  imports Transport Text
begin

text \<open>
  Creation and configuration of endpoints (endpoint.h, endpoint.cpp): the configuration
  structs, the constructors, the checks of addresses and ports, \<open>open\<close>, \<open>setup\<close>, reconnection
  of TCP clients and the baud rate search of serial lines. System calls answer from the world
  in the order they are made; serial lines keep their attributes in the world. A timer that cannot be created leaves a
  null pointer in the code; in the model its number belongs to no timeout.
\<close>

section \<open>Configuration\<close>

record ep_config =
  c_name :: string
  allow_msg_id_out :: "u32 list"
  block_msg_id_out :: "u32 list"
  allow_src_comp_out :: "u8 list"
  block_src_comp_out :: "u8 list"
  allow_src_sys_out :: "u8 list"
  block_src_sys_out :: "u8 list"
  allow_msg_id_in :: "u32 list"
  block_msg_id_in :: "u32 list"
  allow_src_comp_in :: "u8 list"
  block_src_comp_in :: "u8 list"
  allow_src_sys_in :: "u8 list"
  block_src_sys_in :: "u8 list"
  c_group :: string
  message_throttling :: "(rat \<times> rat) list"
  throttle_cache :: "u32 list"

record uart_config = ep_config +
  device :: string
  c_baudrates :: "u32 list"
  flowcontrol :: bool

record udp_config = ep_config +
  u_address :: string
  u_port :: u64
  u_mode :: udp_mode
  u_coalesce_bytes :: u64
  u_coalesce_ms :: u64
  u_coalesce_nodelay :: "u32 list"

record tcp_config = ep_config +
  t_address :: string
  t_port :: u64
  t_retry_timeout :: int
  t_coalesce_bytes :: u64
  t_coalesce_ms :: u64
  t_coalesce_nodelay :: "u32 list"

section \<open>Addresses\<close>

definition ip_str_is_ipv6 :: "string \<Rightarrow> bool" where
  "ip_str_is_ipv6 ip \<longleftrightarrow> CHR ''['' \<in> set ip"

definition ipv6_is_linklocal :: "string \<Rightarrow> bool" where
  "ipv6_is_linklocal ip \<longleftrightarrow> take 4 ip = ''fe80'' \<or> take 2 ip = ''fc'' \<or> take 2 ip = ''fd''"

definition ipv6_is_multicast :: "string \<Rightarrow> bool" where
  "ipv6_is_multicast ip \<longleftrightarrow> take 3 ip = ''ff0''"

definition is_lower_hex :: "char \<Rightarrow> bool" where
  "is_lower_hex c \<longleftrightarrow> is_digit c \<or> (97 \<le> (of_char c :: nat) \<and> (of_char c :: nat) \<le> 102)"

text \<open>The regular expressions \<open>\d{1,3}\.\d{1,3}\.\d{1,3}\.\d{1,3}\<close> and
  \<open>\[([a-f\d]{0,4}:)+[a-f\d]{0,4}\]\<close>, matched against the whole string.\<close>

definition validate_ipv4 :: "string \<Rightarrow> bool" where
  "validate_ipv4 ip =
     (let ps = split_on (CHR ''.'') ip
      in length ps = 4 \<and> list_all (\<lambda>p. 1 \<le> length p \<and> length p \<le> 3 \<and> list_all is_digit p) ps)"

definition validate_ipv6 :: "string \<Rightarrow> bool" where
  "validate_ipv6 ip =
     (2 \<le> length ip \<and> hd ip = CHR ''['' \<and> last ip = CHR '']'' \<and>
      (let ps = split_on (CHR '':'') (butlast (tl ip))
       in 2 \<le> length ps \<and> list_all (\<lambda>p. length p \<le> 4 \<and> list_all is_lower_hex p) ps))"

definition validate_ip :: "string \<Rightarrow> bool" where
  "validate_ip ip \<longleftrightarrow> validate_ipv4 ip \<or> validate_ipv6 ip"

abbreviation ULONG_MAX :: u64 where "ULONG_MAX \<equiv> 0xFFFFFFFFFFFFFFFF"

definition uart_validate_config :: "uart_config \<Rightarrow> bool" where
  "uart_validate_config c \<longleftrightarrow> c_baudrates c \<noteq> [] \<and> device c \<noteq> []"

definition udp_validate_config :: "udp_config \<Rightarrow> bool" where
  "udp_validate_config c \<longleftrightarrow>
     u_address c \<noteq> [] \<and> validate_ip (u_address c) \<and> \<not> (u_port c = 0 \<or> u_port c = ULONG_MAX)
     \<and> u_mode c \<in> {Client, Server, Receiver}"

definition tcp_validate_config :: "tcp_config \<Rightarrow> bool" where
  "tcp_validate_config c \<longleftrightarrow>
     t_address c \<noteq> [] \<and> validate_ip (t_address c) \<and> \<not> (t_port c = 0 \<or> t_port c = ULONG_MAX)"

text \<open>The number of the interface that has an address: 0 if none has. The text of an address may end with the name of
  its interface after a percent sign.\<close>

definition cut_zone :: "string \<Rightarrow> string" where
  "cut_zone host = (if CHR ''%'' \<in> set host then rev (tl (dropWhile (\<lambda>c. c \<noteq> CHR ''%'') (rev host))) else host)"

fun ipv6_get_scope_id :: "string \<Rightarrow> ifaddr list \<Rightarrow> (string \<Rightarrow> u32) \<Rightarrow> u32" where
  "ipv6_get_scope_id ip [] index = 0"
| "ipv6_get_scope_id ip (a # addrs) index =
     (case ifa_host6 a of
        None \<Rightarrow> ipv6_get_scope_id ip addrs index
      | Some host \<Rightarrow> if cut_zone host = ip then index (ifa_name a) else ipv6_get_scope_id ip addrs index)"

section \<open>Filters, group and throttling of a configuration\<close>

definition filter_add_allowed_out_msg_id :: "u32 \<Rightarrow> endpoint \<Rightarrow> endpoint" where
  "filter_add_allowed_out_msg_id x e = e\<lparr>outgoing := (outgoing e)\<lparr>allowed_msg_ids := allowed_msg_ids (outgoing e) @ [x]\<rparr>\<rparr>"

definition filter_add_blocked_out_msg_id :: "u32 \<Rightarrow> endpoint \<Rightarrow> endpoint" where
  "filter_add_blocked_out_msg_id x e = e\<lparr>outgoing := (outgoing e)\<lparr>blocked_msg_ids := blocked_msg_ids (outgoing e) @ [x]\<rparr>\<rparr>"

definition filter_add_allowed_out_src_comp :: "u8 \<Rightarrow> endpoint \<Rightarrow> endpoint" where
  "filter_add_allowed_out_src_comp x e = e\<lparr>outgoing := (outgoing e)\<lparr>allowed_src_comps := allowed_src_comps (outgoing e) @ [x]\<rparr>\<rparr>"

definition filter_add_blocked_out_src_comp :: "u8 \<Rightarrow> endpoint \<Rightarrow> endpoint" where
  "filter_add_blocked_out_src_comp x e = e\<lparr>outgoing := (outgoing e)\<lparr>blocked_src_comps := blocked_src_comps (outgoing e) @ [x]\<rparr>\<rparr>"

definition filter_add_allowed_out_src_sys :: "u8 \<Rightarrow> endpoint \<Rightarrow> endpoint" where
  "filter_add_allowed_out_src_sys x e = e\<lparr>outgoing := (outgoing e)\<lparr>allowed_src_systems := allowed_src_systems (outgoing e) @ [x]\<rparr>\<rparr>"

definition filter_add_blocked_out_src_sys :: "u8 \<Rightarrow> endpoint \<Rightarrow> endpoint" where
  "filter_add_blocked_out_src_sys x e = e\<lparr>outgoing := (outgoing e)\<lparr>blocked_src_systems := blocked_src_systems (outgoing e) @ [x]\<rparr>\<rparr>"

definition filter_add_allowed_in_msg_id :: "u32 \<Rightarrow> endpoint \<Rightarrow> endpoint" where
  "filter_add_allowed_in_msg_id x e = e\<lparr>incoming := (incoming e)\<lparr>allowed_msg_ids := allowed_msg_ids (incoming e) @ [x]\<rparr>\<rparr>"

definition filter_add_blocked_in_msg_id :: "u32 \<Rightarrow> endpoint \<Rightarrow> endpoint" where
  "filter_add_blocked_in_msg_id x e = e\<lparr>incoming := (incoming e)\<lparr>blocked_msg_ids := blocked_msg_ids (incoming e) @ [x]\<rparr>\<rparr>"

definition filter_add_allowed_in_src_comp :: "u8 \<Rightarrow> endpoint \<Rightarrow> endpoint" where
  "filter_add_allowed_in_src_comp x e = e\<lparr>incoming := (incoming e)\<lparr>allowed_src_comps := allowed_src_comps (incoming e) @ [x]\<rparr>\<rparr>"

definition filter_add_blocked_in_src_comp :: "u8 \<Rightarrow> endpoint \<Rightarrow> endpoint" where
  "filter_add_blocked_in_src_comp x e = e\<lparr>incoming := (incoming e)\<lparr>blocked_src_comps := blocked_src_comps (incoming e) @ [x]\<rparr>\<rparr>"

definition filter_add_allowed_in_src_sys :: "u8 \<Rightarrow> endpoint \<Rightarrow> endpoint" where
  "filter_add_allowed_in_src_sys x e = e\<lparr>incoming := (incoming e)\<lparr>allowed_src_systems := allowed_src_systems (incoming e) @ [x]\<rparr>\<rparr>"

definition filter_add_blocked_in_src_sys :: "u8 \<Rightarrow> endpoint \<Rightarrow> endpoint" where
  "filter_add_blocked_in_src_sys x e = e\<lparr>incoming := (incoming e)\<lparr>blocked_src_systems := blocked_src_systems (incoming e) @ [x]\<rparr>\<rparr>"

text \<open>The loops of \<open>setup\<close> over the lists of the configuration, in its order, and the group.\<close>

definition apply_filters :: "('a) ep_config_scheme \<Rightarrow> endpoint \<Rightarrow> endpoint" where
  "apply_filters c e =
     (fold filter_add_blocked_in_src_sys (block_src_sys_in c) (
      fold filter_add_allowed_in_src_sys (allow_src_sys_in c) (
      fold filter_add_blocked_in_src_comp (block_src_comp_in c) (
      fold filter_add_allowed_in_src_comp (allow_src_comp_in c) (
      fold filter_add_blocked_in_msg_id (block_msg_id_in c) (
      fold filter_add_allowed_in_msg_id (allow_msg_id_in c) (
      fold filter_add_blocked_out_src_sys (block_src_sys_out c) (
      fold filter_add_allowed_out_src_sys (allow_src_sys_out c) (
      fold filter_add_blocked_out_src_comp (block_src_comp_out c) (
      fold filter_add_allowed_out_src_comp (allow_src_comp_out c) (
      fold filter_add_blocked_out_msg_id (block_msg_id_out c) (
      fold filter_add_allowed_out_msg_id (allow_msg_id_out c) e))))))))))))\<lparr>group_name := c_group c\<rparr>"

text \<open>Together they append the lists of the configuration to those of the endpoint.\<close>

lemma filter_add_id_folds:
  "fold filter_add_allowed_out_msg_id xs e = e\<lparr>outgoing := (outgoing e)\<lparr>allowed_msg_ids := allowed_msg_ids (outgoing e) @ xs\<rparr>\<rparr>"
  "fold filter_add_blocked_out_msg_id xs e = e\<lparr>outgoing := (outgoing e)\<lparr>blocked_msg_ids := blocked_msg_ids (outgoing e) @ xs\<rparr>\<rparr>"
  "fold filter_add_allowed_in_msg_id xs e = e\<lparr>incoming := (incoming e)\<lparr>allowed_msg_ids := allowed_msg_ids (incoming e) @ xs\<rparr>\<rparr>"
  "fold filter_add_blocked_in_msg_id xs e = e\<lparr>incoming := (incoming e)\<lparr>blocked_msg_ids := blocked_msg_ids (incoming e) @ xs\<rparr>\<rparr>"
  by (induction xs arbitrary: e) (simp_all add: filter_add_allowed_out_msg_id_def filter_add_blocked_out_msg_id_def filter_add_allowed_in_msg_id_def filter_add_blocked_in_msg_id_def)

lemma filter_add_src_folds:
  "fold filter_add_allowed_out_src_comp xs e = e\<lparr>outgoing := (outgoing e)\<lparr>allowed_src_comps := allowed_src_comps (outgoing e) @ xs\<rparr>\<rparr>"
  "fold filter_add_blocked_out_src_comp xs e = e\<lparr>outgoing := (outgoing e)\<lparr>blocked_src_comps := blocked_src_comps (outgoing e) @ xs\<rparr>\<rparr>"
  "fold filter_add_allowed_out_src_sys xs e = e\<lparr>outgoing := (outgoing e)\<lparr>allowed_src_systems := allowed_src_systems (outgoing e) @ xs\<rparr>\<rparr>"
  "fold filter_add_blocked_out_src_sys xs e = e\<lparr>outgoing := (outgoing e)\<lparr>blocked_src_systems := blocked_src_systems (outgoing e) @ xs\<rparr>\<rparr>"
  "fold filter_add_allowed_in_src_comp xs e = e\<lparr>incoming := (incoming e)\<lparr>allowed_src_comps := allowed_src_comps (incoming e) @ xs\<rparr>\<rparr>"
  "fold filter_add_blocked_in_src_comp xs e = e\<lparr>incoming := (incoming e)\<lparr>blocked_src_comps := blocked_src_comps (incoming e) @ xs\<rparr>\<rparr>"
  "fold filter_add_allowed_in_src_sys xs e = e\<lparr>incoming := (incoming e)\<lparr>allowed_src_systems := allowed_src_systems (incoming e) @ xs\<rparr>\<rparr>"
  "fold filter_add_blocked_in_src_sys xs e = e\<lparr>incoming := (incoming e)\<lparr>blocked_src_systems := blocked_src_systems (incoming e) @ xs\<rparr>\<rparr>"
  by (induction xs arbitrary: e) (simp_all add: filter_add_allowed_out_src_comp_def filter_add_blocked_out_src_comp_def filter_add_allowed_out_src_sys_def filter_add_blocked_out_src_sys_def
      filter_add_allowed_in_src_comp_def filter_add_blocked_in_src_comp_def filter_add_allowed_in_src_sys_def filter_add_blocked_in_src_sys_def)

lemma apply_filters_effect:
  "apply_filters c e =
     e\<lparr>outgoing := \<lparr>allowed_msg_ids = allowed_msg_ids (outgoing e) @ allow_msg_id_out c,
                    blocked_msg_ids = blocked_msg_ids (outgoing e) @ block_msg_id_out c,
                    allowed_src_comps = allowed_src_comps (outgoing e) @ allow_src_comp_out c,
                    blocked_src_comps = blocked_src_comps (outgoing e) @ block_src_comp_out c,
                    allowed_src_systems = allowed_src_systems (outgoing e) @ allow_src_sys_out c,
                    blocked_src_systems = blocked_src_systems (outgoing e) @ block_src_sys_out c\<rparr>,
       incoming := \<lparr>allowed_msg_ids = allowed_msg_ids (incoming e) @ allow_msg_id_in c,
                    blocked_msg_ids = blocked_msg_ids (incoming e) @ block_msg_id_in c,
                    allowed_src_comps = allowed_src_comps (incoming e) @ allow_src_comp_in c,
                    blocked_src_comps = blocked_src_comps (incoming e) @ block_src_comp_in c,
                    allowed_src_systems = allowed_src_systems (incoming e) @ allow_src_sys_in c,
                    blocked_src_systems = blocked_src_systems (incoming e) @ block_src_sys_in c\<rparr>,
       group_name := c_group c\<rparr>"
  by (cases "outgoing e"; cases "incoming e") (simp add: apply_filters_def filter_add_id_folds filter_add_src_folds)

text \<open>A message id above \<open>UINT32_MAX\<close>, which as a \<open>float\<close> is 2^32, is refused.\<close>

fun apply_throttling :: "(rat \<times> rat) list \<Rightarrow> endpoint \<Rightarrow> world \<Rightarrow> bool \<times> endpoint \<times> world" where
  "apply_throttling [] e w = (True, e, w)"
| "apply_throttling ((first, second) # cfgs) e w =
     (if first > 4294967296 then (False, e, w)
      else let (e1, w1) = set_message_throttling (word_of_int \<lfloor>first\<rfloor>) second e w
           in apply_throttling cfgs e1 w1)"

definition apply_throttle_cache :: "u32 list \<Rightarrow> endpoint \<Rightarrow> endpoint" where
  "apply_throttle_cache ids e = fold throttle_cache_add_msg_id ids e"

definition apply_coalescing :: "u64 \<Rightarrow> u64 \<Rightarrow> u32 list \<Rightarrow> endpoint \<Rightarrow> endpoint" where
  "apply_coalescing cbytes cms nodelay e =
     e\<lparr>net := (net e)\<lparr>coalesce_bytes := ucast cbytes, coalesce_ms := cms,
                      coalesce_nodelay := coalesce_nodelay (net e) \<union> set nodelay\<rparr>\<rparr>"


section \<open>Constructors and destructors\<close>

definition new_write_schedule_timer :: "endpoint \<Rightarrow> world \<Rightarrow> endpoint \<times> world" where
  "new_write_schedule_timer e w =
     (let (t, w1) = add_timeout (ucast (coalesce_ms (net e))) (CbFlush (ep_id e)) w
      in (e\<lparr>net := (net e)\<lparr>write_schedule_timer := (case t of Some n \<Rightarrow> n | None \<Rightarrow> w_next_timer w)\<rparr>\<rparr>, w1))"

definition UartEndpoint :: "nat \<Rightarrow> string \<Rightarrow> bytes \<Rightarrow> bytes \<Rightarrow> endpoint" where
  "UartEndpoint this name rx tx = Endpoint_init this UART name rx tx"

definition UdpEndpoint :: "nat \<Rightarrow> string \<Rightarrow> bytes \<Rightarrow> bytes \<Rightarrow> world \<Rightarrow> endpoint \<times> world" where
  "UdpEndpoint this name rx tx w = new_write_schedule_timer (Endpoint_init this UDP name rx tx) w"

definition TcpEndpoint :: "nat \<Rightarrow> string \<Rightarrow> bytes \<Rightarrow> bytes \<Rightarrow> world \<Rightarrow> endpoint \<times> world" where
  "TcpEndpoint this name rx tx w =
     (let e = Endpoint_init this TCP name rx tx;
          e1 = (if name = ''dynamic''
                then e\<lparr>net := (net e)\<lparr>coalesce_bytes := 5000, coalesce_ms := 33\<rparr>\<rparr> else e)
      in new_write_schedule_timer e1 w)"

definition udp_destroy :: "endpoint \<Rightarrow> world \<Rightarrow> world" where
  "udp_destroy e w =
     del_timeout (write_schedule_timer (net e))
       (case nomessage_timeout (udp e) of None \<Rightarrow> w | Some t \<Rightarrow> del_timeout t w)"

definition tcp_destroy :: "endpoint \<Rightarrow> world \<Rightarrow> endpoint \<times> world" where
  "tcp_destroy e w = tcp_close e (del_timeout (write_schedule_timer (net e)) w)"

section \<open>UART\<close>

abbreviation UART_BAUD_RETRY_SEC :: nat where "UART_BAUD_RETRY_SEC \<equiv> 5"

text \<open>\<open>reset_uart\<close> (common/xtermios.cpp): the line in a known state, at the slowest speed.\<close>

definition reset_uart :: "int \<Rightarrow> world \<Rightarrow> int \<times> world" where
  "reset_uart fd w =
     (let (got, tc, w1) = tcgetattr fd w
      in if got < 0 then (-1, w1)
         else let tc1 = sane tc; (set1, w2) = tcsetattr fd tc1 w1
              in if set1 < 0 then (-1, w2)
                 else let (set2, w3) = tcsetattr fd (cfsetspeed_1200 tc1) w2
                      in if set2 < 0 then (-1, w3) else (0, w3))"

definition uart_open :: "endpoint \<Rightarrow> world \<Rightarrow> bool \<times> endpoint \<times> world" where
  "uart_open e w =
     (let (f, w0) = sys_call w
      in if f < 0 then (False, e\<lparr>ep_fd := f\<rparr>, w0)
         else
           let e1 = e\<lparr>ep_fd := f\<rparr>; fail = (\<lambda>w'. (False, e\<lparr>ep_fd := -1\<rparr>, w'));
               (uart_reset, w1) = reset_uart f w0
           in if uart_reset < 0 then fail w1
              else let (tcgets2, tc, w2) = tty_get f w1
                   in if tcgets2 = -1 then fail w2
                      else let (tcsets2, w3) = tty_set f (raw_line tc) w2
                           in if tcsets2 = -1 then fail w3
                              else let (tiocgserial, w4) = sys_call w3;
                                       w5 = (if tiocgserial < 0 then w4
                                             else let (tiocsserial, w') = sys_call w4
                                                  in if tiocsserial < 0 then w' else w'\<lparr>w_low_latency := insert f (w_low_latency w')\<rparr>);
                                       (tcflsh, w6) = sys_call w5
                                   in if tcflsh = -1 then fail w6 else (True, e1, w6))"

definition set_speed :: "u32 \<Rightarrow> endpoint \<Rightarrow> world \<Rightarrow> int \<times> world" where
  "set_speed baudrate e w =
     (if ep_fd e < 0 then (-1, w)
      else let (tcgets2, tc, w1) = tty_get (ep_fd e) w
           in if tcgets2 = -1 then (-1, w1)
              else let (tcsets2, w2) = tty_set (ep_fd e) (with_speed baudrate tc) w1
                   in if tcsets2 = -1 then (-1, w2)
                      else let (tcflsh, w3) = sys_call w2
                           in if tcflsh = -1 then (-1, w3) else (0, w3))"

definition set_flow_control :: "bool \<Rightarrow> endpoint \<Rightarrow> world \<Rightarrow> int \<times> world" where
  "set_flow_control enabled e w =
     (if ep_fd e < 0 then (-1, w)
      else let (tcgets2, tc, w1) = tty_get (ep_fd e) w
           in if tcgets2 = -1 then (-1, w1)
              else let (tcsets2, w2) = tty_set (ep_fd e) (with_flow_control enabled tc) w1
                   in if tcsets2 = -1 then (-1, w2) else (0, w2))"

definition add_speeds :: "u32 list \<Rightarrow> endpoint \<Rightarrow> world \<Rightarrow> int \<times> endpoint \<times> world" where
  "add_speeds bauds e w =
     (if bauds = [] then (- EINVAL, e, w)
      else let w1 = snd (set_speed (bauds ! 0) e w);
               (t, w2) = add_timeout (of_nat (1000 * UART_BAUD_RETRY_SEC)) (CbChangeBaud (ep_id e)) w1
           in (0, e\<lparr>uart := (uart e)\<lparr>baudrates := bauds, change_baud_timeout := t\<rparr>\<rparr>, w2))"

definition set_first_speed :: "u32 list \<Rightarrow> endpoint \<Rightarrow> world \<Rightarrow> int \<times> endpoint \<times> world" where
  "set_first_speed bauds e w =
     (if length bauds = 1 then (let (r, w') = set_speed (bauds ! 0) e w in (r, e, w')) else add_speeds bauds e w)"

definition change_baud_cb :: "endpoint \<Rightarrow> world \<Rightarrow> bool \<times> endpoint \<times> world" where
  "change_baud_cb e w =
     (let i = (current_baud_idx (uart e) + 1) mod length (baudrates (uart e));
          e1 = e\<lparr>uart := (uart e)\<lparr>current_baud_idx := i\<rparr>\<rparr>
      in (True, e1, snd (set_speed (baudrates (uart e) ! i) e1 w)))"

definition uart_setup :: "uart_config \<Rightarrow> endpoint \<Rightarrow> world \<Rightarrow> bool \<times> endpoint \<times> world" where
  "uart_setup conf e w =
     (if \<not> uart_validate_config conf then (False, e, w)
      else
        let (opened, e1, w1) = uart_open e w
        in if \<not> opened then (False, e1, w1)
           else
             let (r, e2, w2) = set_first_speed (c_baudrates conf) e1 w1
             in if r < 0 then (False, e2, w2)
                else
                  let (rf, w3) = (if flowcontrol conf then set_flow_control True e2 w2 else (0, w2))
                  in if rf < 0 then (False, e2, w3)
                     else
                       let (ok, e4, w4) = apply_throttling (message_throttling conf) (apply_filters conf e2) w3
                       in if \<not> ok then (False, e4, w4)
                          else (True, apply_throttle_cache (throttle_cache conf) e4, w4))"

section \<open>UDP\<close>

text \<open>The address of a bracketed IPv6 text.\<close>

definition strip_brackets :: "string \<Rightarrow> string" where
  "strip_brackets ip = butlast (tl ip)"

definition udp_open_ipv6 :: "string \<Rightarrow> u64 \<Rightarrow> udp_mode \<Rightarrow> endpoint \<Rightarrow> world \<Rightarrow> endpoint \<times> world" where
  "udp_open_ipv6 ip port md e w =
     (let (f, w0) = sys_call w
      in if f < 0 then (e\<lparr>ep_fd := f\<rparr>, w0)
         else
           let ip_str = w_norm6 w (strip_brackets ip);
               binds = (md = Server \<or> md = Receiver);
               multicast = (binds \<and> ipv6_is_multicast ip_str);
               (joined, w1) = (if multicast then sys_call w0 else (0, w0));
               sa = \<lparr>sa_addr = (if multicast then replicate 16 0 else w_inet w ip_str), sa_port = ucast port,
                     sa_scope = sa_scope (sockaddr6 (net e))\<rparr>;
               e1 = e\<lparr>ep_fd := f, net := (net e)\<lparr>sockaddr6 := sa\<rparr>\<rparr>;
               fail = (\<lambda>e' w'. (e'\<lparr>ep_fd := -1\<rparr>, w'))
           in if multicast \<and> joined < 0 then fail e1 w1
              else
                let sa1 = (if ipv6_is_linklocal ip_str then sa\<lparr>sa_scope := ipv6_get_scope_id ip_str (w_ifaddrs w) (w_ifindex w)\<rparr> else sa);
                    e2 = e1\<lparr>net := (net e1)\<lparr>sockaddr6 := sa1\<rparr>\<rparr>;
                    (bound, w2) = (if binds then sys_call w1 else (0, w1))
                in if binds \<and> bound < 0 then fail e2 w2
                   else
                     let sa2 = (if binds then sa1\<lparr>sa_port := 0\<rparr> else sa1)
                     in (e2\<lparr>net := (net e2)\<lparr>sockaddr6 := sa2\<rparr>, udp := (udp e2)\<lparr>config_sock6 := sa2\<rparr>\<rparr>, w2))"

definition udp_open_ipv4 :: "string \<Rightarrow> u64 \<Rightarrow> udp_mode \<Rightarrow> endpoint \<Rightarrow> world \<Rightarrow> endpoint \<times> world" where
  "udp_open_ipv4 ip port md e w =
     (let (f, w0) = sys_call w
      in if f < 0 then (e\<lparr>ep_fd := f\<rparr>, w0)
         else
           let binds = (md = Server \<or> md = Receiver);
               sa = \<lparr>sa_addr = w_inet w ip, sa_port = ucast port, sa_scope = 0\<rparr>;
               e1 = e\<lparr>ep_fd := f, net := (net e)\<lparr>sockaddr4 := sa\<rparr>\<rparr>;
               (bound, w1) = (if binds then sys_call w0 else (0, w0))
           in if binds \<and> bound < 0 then (e1\<lparr>ep_fd := -1\<rparr>, w1)
              else
                let sa1 = (if binds then sa\<lparr>sa_port := 0\<rparr> else sa)
                in (e1\<lparr>net := (net e1)\<lparr>sockaddr4 := sa1\<rparr>, udp := (udp e1)\<lparr>config_sock4 := sa1\<rparr>\<rparr>, w1))"

definition udp_open :: "string \<Rightarrow> u64 \<Rightarrow> udp_mode \<Rightarrow> endpoint \<Rightarrow> world \<Rightarrow> bool \<times> endpoint \<times> world" where
  "udp_open ip port md e w =
     (let e0 = e\<lparr>net := (net e)\<lparr>is_ipv6 := ip_str_is_ipv6 ip\<rparr>\<rparr>;
          (e1, w1) = (if ip_str_is_ipv6 ip then udp_open_ipv6 ip port md e0 w else udp_open_ipv4 ip port md e0 w)
      in if ep_fd e1 < 0 then (False, e1, w1)
         else
           let (broadcast, w2) = (if md = Client then sys_call w1 else (0, w1))
           in if md = Client \<and> broadcast \<noteq> 0 then (False, e1\<lparr>ep_fd := -1\<rparr>, w2)
              else
                let (e3, w3) =
                      (if md = Client then
                         (let (t, w') = add_timeout 0 (CbNoMessage (ep_id e1)) w2
                          in (e1\<lparr>udp := (udp e1)\<lparr>nomessage_timeout := t\<rparr>\<rparr>, w'))
                       else (e1, w2));
                    (nonblock, w4) = sys_call w3
                in if nonblock < 0 then (False, e3\<lparr>ep_fd := -1\<rparr>, w4) else (True, e3, w4))"

definition udp_setup :: "udp_config \<Rightarrow> endpoint \<Rightarrow> world \<Rightarrow> bool \<times> endpoint \<times> world" where
  "udp_setup conf e w =
     (if \<not> udp_validate_config conf then (False, e, w)
      else
        let (opened, e1, w1) =
              udp_open (u_address conf) (u_port conf) (u_mode conf) (e\<lparr>udp := (udp e)\<lparr>mode := u_mode conf\<rparr>\<rparr>) w
        in if \<not> opened then (False, e1, w1)
           else
             let e2 = apply_coalescing (u_coalesce_bytes conf) (u_coalesce_ms conf) (u_coalesce_nodelay conf)
                        (apply_filters conf e1);
                 (ok, e3, w3) = apply_throttling (message_throttling conf) e2 w1
             in if \<not> ok then (False, e3, w3)
                else (True, apply_throttle_cache (throttle_cache conf) e3, w3))"

section \<open>TCP\<close>

definition tcp_open_ipv6 :: "string \<Rightarrow> u64 \<Rightarrow> sockaddr \<Rightarrow> world \<Rightarrow> int \<times> sockaddr \<times> world" where
  "tcp_open_ipv6 ip port sa w =
     (let (f, w1) = sys_call w
      in if f = -1 then (-1, sa, w1)
         else
           let ip_str = strip_brackets ip
           in if ipv6_is_multicast ip_str then (-1, sa, w1)
              else (f, \<lparr>sa_addr = w_inet w ip_str, sa_port = ucast port,
                        sa_scope = (if ipv6_is_linklocal ip_str then ipv6_get_scope_id ip_str (w_ifaddrs w) (w_ifindex w) else sa_scope sa)\<rparr>, w1))"

definition tcp_open_ipv4 :: "string \<Rightarrow> u64 \<Rightarrow> sockaddr \<Rightarrow> world \<Rightarrow> int \<times> sockaddr \<times> world" where
  "tcp_open_ipv4 ip port sa w =
     (let (f, w1) = sys_call w
      in if f = -1 then (-1, sa, w1)
         else (f, \<lparr>sa_addr = w_inet w ip, sa_port = ucast port, sa_scope = 0\<rparr>, w1))"

definition tcp_open :: "string \<Rightarrow> u64 \<Rightarrow> endpoint \<Rightarrow> world \<Rightarrow> bool \<times> endpoint \<times> world" where
  "tcp_open ip port e w =
     (let v6 = ip_str_is_ipv6 ip;
          (f, sa, w1) = (if v6 then tcp_open_ipv6 ip port (sockaddr6 (net e)) w
                         else tcp_open_ipv4 ip port (sockaddr4 (net e)) w);
          e1 = e\<lparr>ep_fd := f,
                 net := (if v6 then (net e)\<lparr>is_ipv6 := True, sockaddr6 := sa\<rparr>
                         else (net e)\<lparr>is_ipv6 := False, sockaddr4 := sa\<rparr>)\<rparr>
      in if f < 0 then (False, e1, w1)
         else
           let (connected, w2) = sys_call w1
           in if connected < 0 then (False, e1\<lparr>ep_fd := -1\<rparr>, w2)
              else
                let (nonblock, w3) = sys_call w2
                in if nonblock < 0 then (False, e1\<lparr>ep_fd := -1\<rparr>, w3)
                   else (True, e1\<lparr>tcp := (tcp e1)\<lparr>valid := True\<rparr>\<rparr>, w3))"

definition tcp_reopen :: "endpoint \<Rightarrow> world \<Rightarrow> bool \<times> endpoint \<times> world" where
  "tcp_reopen e w = tcp_open (tcp_ip (tcp e)) (tcp_port (tcp e)) e w"

text \<open>The callback of the reconnection timer: false, so that the timer goes, once the
  connection is up.\<close>

definition tcp_retry_timeout_cb :: "endpoint \<Rightarrow> world \<Rightarrow> bool \<times> endpoint \<times> world" where
  "tcp_retry_timeout_cb e w =
     (let (ok, e1, w1) = tcp_reopen e w
      in if \<not> ok then (True, e1, w1) else (False, e1, snd (add_fd (ep_fd e1) False w1)))"

definition tcp_setup :: "tcp_config \<Rightarrow> endpoint \<Rightarrow> world \<Rightarrow> bool \<times> endpoint \<times> world" where
  "tcp_setup conf e w =
     (if \<not> tcp_validate_config conf then (False, e, w)
      else
        let e1 = e\<lparr>tcp := (tcp e)\<lparr>tcp_ip := t_address conf, tcp_port := t_port conf,
                                  retry_timeout := t_retry_timeout conf\<rparr>\<rparr>;
            e2 = apply_coalescing (t_coalesce_bytes conf) (t_coalesce_ms conf) (t_coalesce_nodelay conf)
                   (apply_filters conf e1);
            (ok, e3, w3) = apply_throttling (message_throttling conf) e2 w
        in if \<not> ok then (False, e3, w3)
           else
             let (opened, e5, w5) =
                   tcp_open (t_address conf) (t_port conf) (apply_throttle_cache (throttle_cache conf) e3) w3
             in if \<not> opened then
                  (True, if retry_timeout (tcp e5) > 0 then tcp_schedule_reconnect e5 w5 else (e5, w5))
                else (True, e5, snd (add_fd (ep_fd e5) False w5)))"

text \<open>A connection accepted by the server; \<open>peer\<close> is the address \<open>accept4\<close> reports.\<close>

definition tcp_accept :: "sockaddr \<Rightarrow> endpoint \<Rightarrow> world \<Rightarrow> int \<times> endpoint \<times> world" where
  "tcp_accept peer e w =
     (let e1 = e\<lparr>tcp := (tcp e)\<lparr>retry_timeout := 0\<rparr>, net := (net e)\<lparr>is_ipv6 := False\<rparr>\<rparr>;
          (f, w1) = sys_call w
      in if f = -1 then (-1, e1\<lparr>ep_fd := -1\<rparr>, w1)
         else
           let e2 = e1\<lparr>ep_fd := f, net := (net e1)\<lparr>sockaddr4 := peer\<rparr>\<rparr>;
               (nodelay, w2) = sys_call w1
           in if nodelay < 0 then (-1, e2, w2) else (f, e2, w2))"


section \<open>Lemmas\<close>

lemma set_speed_frame [simp]: "w_sys (snd (set_speed b e w)) = w_sys w"
  by (simp add: set_speed_def tty_get_def tty_set_def sys_call_def Let_def)

lemma set_speed_baud:
  "ep_fd e \<ge> 0 \<Longrightarrow> \<forall>k. w_sys w k \<noteq> -1 \<Longrightarrow> c_ospeed (w_tty (snd (set_speed b e w)) (ep_fd e)) = b"
  by (simp add: set_speed_def tty_get_def tty_set_def with_speed_def sys_call_def Let_def)

fun change_bauds :: "nat \<Rightarrow> endpoint \<Rightarrow> world \<Rightarrow> endpoint \<times> world" where
  "change_bauds 0 e w = (e, w)"
| "change_bauds (Suc n) e w = (let (_, e1, w1) = change_baud_cb e w in change_bauds n e1 w1)"

lemma change_baud_cb_fields:
  "baudrates (uart (fst (snd (change_baud_cb e w)))) = baudrates (uart e)"
  "current_baud_idx (uart (fst (snd (change_baud_cb e w)))) = (current_baud_idx (uart e) + 1) mod length (baudrates (uart e))"
  "ep_fd (fst (snd (change_baud_cb e w))) = ep_fd e" "w_sys (snd (snd (change_baud_cb e w))) = w_sys w"
  by (simp_all add: change_baud_cb_def Let_def)

lemma change_baud_cb_baud:
  assumes "ep_fd e \<ge> 0" "\<forall>k. w_sys w k \<noteq> -1"
  shows "c_ospeed (w_tty (snd (snd (change_baud_cb e w))) (ep_fd e)) =
    (baudrates (uart e) ! ((current_baud_idx (uart e) + 1) mod length (baudrates (uart e))))"
  using set_speed_baud [of "e\<lparr>uart := u\<rparr>" w for u] assms by (simp add: change_baud_cb_def Let_def)

lemma change_bauds_tries:
  assumes "ep_fd e \<ge> 0" "\<forall>k. w_sys w k \<noteq> -1" "current_baud_idx (uart e) < length (baudrates (uart e))"
  shows "c_ospeed (w_tty (snd (change_bauds (Suc n) e w)) (ep_fd e)) =
    (baudrates (uart e) ! ((current_baud_idx (uart e) + Suc n) mod length (baudrates (uart e))))"
  using assms
proof (induction n arbitrary: e w)
  case 0
  then show ?case using change_baud_cb_baud [of e w] by (simp add: case_prod_unfold Let_def)
next
  case (Suc n)
  define e1 w1 where "e1 = fst (snd (change_baud_cb e w))" and "w1 = snd (snd (change_baud_cb e w))"
  have s: "change_bauds (Suc (Suc n)) e w = change_bauds (Suc n) e1 w1"
    by (simp add: e1_def w1_def case_prod_unfold Let_def)
  note f = change_baud_cb_fields [of e w, folded e1_def w1_def]
  have "baudrates (uart e) \<noteq> []" using Suc.prems(3) by auto
  then have "c_ospeed (w_tty (snd (change_bauds (Suc n) e1 w1)) (ep_fd e1)) =
      (baudrates (uart e1) ! ((current_baud_idx (uart e1) + Suc n) mod length (baudrates (uart e1))))"
    using Suc.IH [of e1 w1] Suc.prems f by simp
  moreover have "((i + 1) mod m + Suc n) mod m = (i + Suc (Suc n)) mod m" for i m
    using mod_add_left_eq [of "i + 1" m "Suc n"] by simp
  ultimately show ?case unfolding s using f by simp
qed

text \<open>The address of an endpoint that was set up.\<close>

lemma has_peer_apply [simp]:
  "has_peer (apply_filters c e) = has_peer e" "has_peer (apply_coalescing x y z e) = has_peer e"
  "has_peer (apply_throttle_cache ks e) = has_peer e"
  "has_peer (fst (snd (apply_throttling cfgs e w))) = has_peer e"
proof -
  have s: "has_peer (fst (set_message_throttling k r e w)) = has_peer e" for k r e w
    by (simp add: set_message_throttling_def has_peer_def case_prod_unfold Let_def split: option.split)
  show "has_peer (fst (snd (apply_throttling cfgs e w))) = has_peer e"
    by (induction cfgs e w rule: apply_throttling.induct) (simp_all add: case_prod_unfold Let_def s)
  show "has_peer (apply_throttle_cache ks e) = has_peer e"
    unfolding apply_throttle_cache_def
    by (induction ks arbitrary: e) (simp_all add: throttle_cache_add_msg_id_def has_peer_def)
qed (simp_all add: apply_filters_effect apply_coalescing_def has_peer_def)

lemma udp_open_ipv4_peer:
  assumes "udp_open_ipv4 ip port md e w = (e', w')" "ep_fd e' \<ge> 0"
  shows "is_ipv6 (net e') = is_ipv6 (net e) \<and> sa_port (sockaddr4 (net e')) = (if md = Server \<or> md = Receiver then 0 else ucast port)"
  using assms by (auto simp: udp_open_ipv4_def case_prod_unfold Let_def split: if_splits)

lemma udp_open_ipv6_peer:
  assumes "udp_open_ipv6 ip port md e w = (e', w')" "ep_fd e' \<ge> 0"
  shows "is_ipv6 (net e') = is_ipv6 (net e) \<and> sa_port (sockaddr6 (net e')) = (if md = Server \<or> md = Receiver then 0 else ucast port)"
  using assms by (auto simp: udp_open_ipv6_def case_prod_unfold Let_def split: if_splits)

lemma udp_open_peer:
  assumes "udp_open ip port md e w = (True, e', w')"
  shows "has_peer e' \<longleftrightarrow> md \<notin> {Server, Receiver} \<and> (ucast port :: u16) \<noteq> 0"
proof -
  define e0 where "e0 = e\<lparr>net := (net e)\<lparr>is_ipv6 := ip_str_is_ipv6 ip\<rparr>\<rparr>"
  obtain e1 w1 where o: "(if ip_str_is_ipv6 ip then udp_open_ipv6 ip port md e0 w else udp_open_ipv4 ip port md e0 w) = (e1, w1)"
    by fastforce
  have fd: "ep_fd e1 \<ge> 0" using assms by (auto simp: udp_open_def e0_def [symmetric] o split: if_splits)
  have "has_peer e' = has_peer e1"
    using assms by (auto simp: udp_open_def e0_def [symmetric] o case_prod_unfold Let_def has_peer_def split: if_splits)
  moreover have "has_peer e1 \<longleftrightarrow> md \<notin> {Server, Receiver} \<and> (ucast port :: u16) \<noteq> 0"
    using o fd udp_open_ipv4_peer [of ip port md e0 w e1 w1] udp_open_ipv6_peer [of ip port md e0 w e1 w1]
    by (auto simp: has_peer_def e0_def split: if_splits)
  ultimately show ?thesis by simp
qed

lemma udp_setup_peer:
  assumes "udp_setup conf e w = (True, e', w')"
  shows "has_peer e' \<longleftrightarrow> u_mode conf = Client \<and> (ucast (u_port conf) :: u16) \<noteq> 0"
proof -
  obtain opened e1 w1 where o: "udp_open (u_address conf) (u_port conf) (u_mode conf) (e\<lparr>udp := (udp e)\<lparr>mode := u_mode conf\<rparr>\<rparr>) w = (opened, e1, w1)"
    by (metis prod_cases3)
  have v: "udp_validate_config conf" "opened" using assms by (auto simp: udp_setup_def o split: if_splits)
  then have "has_peer e' = has_peer e1"
    using assms by (auto simp: udp_setup_def o case_prod_unfold Let_def split: if_splits)
  moreover have "u_mode conf \<notin> {Server, Receiver} \<longleftrightarrow> u_mode conf = Client" using v(1) by (auto simp: udp_validate_config_def)
  ultimately show ?thesis using udp_open_peer [OF o [unfolded eqTrueI [OF v(2)]]] by blast
qed

section \<open>Properties\<close>

text \<open>An UDP endpoint that was set up successfully has a peer to send to exactly when it is a
  client and its port is not a multiple of 65536, to which the 16 bit port number truncates; a server
  or receiver first waits for a sender.\<close>

lemma udp_peer_after_setup:
  assumes "udp_setup conf e w = (True, e', w')"
  shows "has_peer e' \<longleftrightarrow> u_mode conf = Client \<and> (ucast (u_port conf) :: u16) \<noteq> 0"
  using assms by (rule udp_setup_peer)

definition ex_udp_config :: udp_config where
  "ex_udp_config =
     \<lparr>c_name = ''u'', allow_msg_id_out = [], block_msg_id_out = [], allow_src_comp_out = [], block_src_comp_out = [],
      allow_src_sys_out = [], block_src_sys_out = [], allow_msg_id_in = [], block_msg_id_in = [], allow_src_comp_in = [],
      block_src_comp_in = [], allow_src_sys_in = [], block_src_sys_in = [], c_group = [], message_throttling = [],
      throttle_cache = [], u_address = ''127.0.0.1'', u_port = 14550, u_mode = Client, u_coalesce_bytes = 0,
      u_coalesce_ms = 0, u_coalesce_nodelay = []\<rparr>"

lemma udp_peer_after_setup_witness:
  "\<exists>e' w'. udp_setup ex_udp_config (ex_endpoint UDP) (ex_world\<lparr>w_sys := \<lambda>_. 0\<rparr>) = (True, e', w') \<and> has_peer e'"
proof -
  have "\<exists>e' w'. udp_setup ex_udp_config (ex_endpoint UDP) (ex_world\<lparr>w_sys := \<lambda>_. 0\<rparr>) = (True, e', w')"
    by (simp add: udp_setup_def ex_udp_config_def udp_validate_config_def validate_ip_def validate_ipv4_def is_digit_def
        udp_open_def ip_str_is_ipv6_def udp_open_ipv4_def sys_call_def add_timeout_def mod_timeout_def ex_world_def case_prod_unfold Let_def)
  then obtain e' w' where "udp_setup ex_udp_config (ex_endpoint UDP) (ex_world\<lparr>w_sys := \<lambda>_. 0\<rparr>) = (True, e', w')" by blast
  moreover from udp_peer_after_setup [OF this] have "has_peer e'" by (simp add: ex_udp_config_def)
  ultimately show ?thesis by blast
qed

text \<open>The baud rate search of a serial line: while no packet is received, the callbacks of the
  timer set the configured rates one after the other, round and round from the current one.\<close>

lemma baud_search_tries_every_rate:
  assumes "ep_fd e \<ge> 0" "\<forall>k. w_sys w k \<noteq> -1" "current_baud_idx (uart e) < length (baudrates (uart e))"
  shows "c_ospeed (w_tty (snd (change_bauds (Suc n) e w)) (ep_fd e)) =
    (baudrates (uart e) ! ((current_baud_idx (uart e) + Suc n) mod length (baudrates (uart e))))"
  using assms by (rule change_bauds_tries)

lemma baud_search_tries_every_rate_witness:
  "c_ospeed (w_tty (snd (change_bauds 2 ((ex_endpoint UART)\<lparr>uart := \<lparr>current_baud_idx = 1, change_baud_timeout = None, baudrates = [9600, 57600, 115200]\<rparr>\<rparr>) ex_world)) 3) =
     9600"
  using baud_search_tries_every_rate [of "(ex_endpoint UART)\<lparr>uart := \<lparr>current_baud_idx = 1, change_baud_timeout = None, baudrates = [9600, 57600, 115200]\<rparr>\<rparr>" ex_world 1]
  by (simp add: ex_world_def ex_endpoint_def numeral_2_eq_2)

end
