(* ===== verification/SetupFacts.thy ===== *)
theory SetupFacts
  imports Setup
begin

unbundle bit_operations_syntax

text \<open>
  What the set-up of an endpoint leaves behind in the kernel: the attributes of a serial line after \<open>UartEndpoint::setup\<close>, and the
  interface of a link-local IPv6 address.
\<close>

section \<open>Serial lines\<close>

lemma tty_frame [world_simps]:
  "w_tty (snd (sys_call w)) = w_tty w" "w_sys (snd (sys_call w)) = w_sys w" "w_tty (snd (steady_now w)) = w_tty w" "w_sys (snd (steady_now w)) = w_sys w"
  "w_tty (snd (add_timeout ms cb w)) = w_tty w" "w_sys (snd (add_timeout ms cb w)) = w_sys w"
  by (simp_all add: sys_call_def steady_now_def add_timeout_def mod_timeout_def Let_def)

lemma tty_throttling: "w_tty (snd (snd (apply_throttling cfgs e w))) = w_tty w"
proof (induction cfgs e w rule: apply_throttling.induct)
  case (2 first second cfgs e w)
  have "w_tty (snd (set_message_throttling k r e w)) = w_tty w" for k r
    by (simp add: set_message_throttling_def steady_now_def case_prod_unfold Let_def split: option.split)
  then show ?case using 2 by (simp add: case_prod_unfold Let_def)
qed simp

text \<open>A line after \<open>open\<close>, after a change of speed and of flow control.\<close>

definition opened_line :: "termios \<Rightarrow> bool" where
  "opened_line tc \<longleftrightarrow> (\<exists>old. tc = raw_line ((cfsetspeed_1200 (sane old))\<lparr>c_cc := take KERNEL_NCCS default_cc\<rparr>))"

lemma opened_line_raw: "opened_line tc \<Longrightarrow> is_raw tc"
  using sane_then_raw by (auto simp: opened_line_def cfsetspeed_1200_def sane_def)

lemma opened_line_flags: "opened_line tc \<Longrightarrow> c_cflag (with_speed b tc) = CREAD OR CLOCAL OR CS8 OR BOTHER"
  by (auto simp: opened_line_def with_speed_def raw_line_def cfsetspeed_1200_def sane_def)

lemma reset_uart_line:
  assumes "reset_uart fd w = (r, w1)" "\<not> r < 0"
  shows "\<exists>old. w_tty w1 = (w_tty w)(fd := (cfsetspeed_1200 (sane old))\<lparr>c_cc := take KERNEL_NCCS default_cc\<rparr>)" "w_sys w1 = w_sys w"
  using assms by (auto simp: reset_uart_def tcgetattr_def tcsetattr_def tty_get_def tty_set_def sys_call_def case_prod_unfold Let_def
      cfsetspeed_1200_def sane_def split: if_splits intro: exI)

lemma uart_open_line:
  assumes "uart_open e w = (True, e1, w1)"
  shows "0 \<le> ep_fd e1" "opened_line (w_tty w1 (ep_fd e1))" "\<forall>f. f \<noteq> ep_fd e1 \<longrightarrow> w_tty w1 f = w_tty w f" "w_sys w1 = w_sys w"
proof -
  obtain f w0 where f: "sys_call w = (f, w0)" by fastforce
  obtain r w2 where r: "reset_uart f w0 = (r, w2)" by fastforce
  have ok: "\<not> f < 0" "\<not> r < 0" "ep_fd e1 = f" using assms by (auto simp: uart_open_def f r case_prod_unfold Let_def split: if_splits)
  obtain old where old: "w_tty w2 = (w_tty w0)(f := (cfsetspeed_1200 (sane old))\<lparr>c_cc := take KERNEL_NCCS default_cc\<rparr>)" "w_sys w2 = w_sys w0"
    using reset_uart_line [OF r ok(2)] by blast
  have "w_tty w1 = (w_tty w2)(f := raw_line (w_tty w2 f)) \<and> w_sys w1 = w_sys w2"
    using assms ok by (auto simp: uart_open_def f r tty_get_def tty_set_def case_prod_unfold Let_def world_simps split: if_splits)
  then show "0 \<le> ep_fd e1" "opened_line (w_tty w1 (ep_fd e1))" "\<forall>f. f \<noteq> ep_fd e1 \<longrightarrow> w_tty w1 f = w_tty w f" "w_sys w1 = w_sys w"
    using old ok f by (auto simp: opened_line_def sys_call_def)
qed

lemma set_speed_line:
  assumes "set_speed b e w = (r, w1)"
  shows "w_tty w1 = (w_tty w)(ep_fd e := with_speed b (w_tty w (ep_fd e))) \<or> w_tty w1 = w_tty w \<and> r < 0"
    "w_sys w1 = w_sys w" "0 \<le> ep_fd e \<Longrightarrow> \<forall>k. w_sys w k \<noteq> -1 \<Longrightarrow> r = 0"
  using assms by (auto simp: set_speed_def tty_get_def tty_set_def sys_call_def case_prod_unfold Let_def split: if_splits)

lemma set_flow_control_line:
  assumes "set_flow_control b e w = (r, w1)" "\<not> r < 0"
  shows "w_tty w1 = (w_tty w)(ep_fd e := with_flow_control b (w_tty w (ep_fd e)))" "w_sys w1 = w_sys w"
  using assms by (auto simp: set_flow_control_def tty_get_def tty_set_def sys_call_def case_prod_unfold Let_def split: if_splits)


lemma ep_fd_throttling: "ep_fd (fst (snd (apply_throttling cfgs e w))) = ep_fd e"
proof (induction cfgs e w rule: apply_throttling.induct)
  case (2 first second cfgs e w)
  have "ep_fd (fst (set_message_throttling k r e w)) = ep_fd e" for k r
    by (simp add: set_message_throttling_def case_prod_unfold Let_def split: option.split)
  then show ?case using 2 by (simp add: case_prod_unfold Let_def)
qed simp

lemma ep_fd_throttle_cache: "ep_fd (apply_throttle_cache ids e) = ep_fd e"
  unfolding apply_throttle_cache_def by (induction ids arbitrary: e) (simp_all add: throttle_cache_add_msg_id_def split: option.split)

text \<open>The first speed is set, where the calls do not fail; that they do is only noticed if there is one speed.\<close>

lemma first_speed_line:
  assumes "set_first_speed bauds e w = (r, e1, w1)"
    "\<not> r < 0" "bauds \<noteq> []" "0 \<le> ep_fd e"
  shows "w_tty w1 = (w_tty w)(ep_fd e := with_speed (hd bauds) (w_tty w (ep_fd e))) \<or>
      w_tty w1 = w_tty w \<and> length bauds \<noteq> 1 \<and> (\<exists>k. w_sys w k = -1)" "ep_fd e1 = ep_fd e"
proof -
  obtain r1 w2 where s: "set_speed (hd bauds) e w = (r1, w2)" by fastforce
  have h: "bauds ! 0 = hd bauds" using assms(3) by (simp add: hd_conv_nth)
  have "(if length bauds = 1 then r1 = r \<and> w1 = w2 else w_tty w1 = w_tty w2) \<and> ep_fd e1 = ep_fd e"
    using assms(1,3) h by (auto simp: set_first_speed_def s add_speeds_def case_prod_unfold Let_def world_simps split: if_splits)
  then show "w_tty w1 = (w_tty w)(ep_fd e := with_speed (hd bauds) (w_tty w (ep_fd e))) \<or>
      w_tty w1 = w_tty w \<and> length bauds \<noteq> 1 \<and> (\<exists>k. w_sys w k = -1)" "ep_fd e1 = ep_fd e"
    using set_speed_line [OF s] assms(2,4) by (auto split: if_splits)
qed

lemma uart_setup_steps:
  assumes "uart_setup conf e w = (True, e1, w1)"
  obtains e2 w2 r e3 w3 where "uart_open e w = (True, e2, w2)" "c_baudrates conf \<noteq> []"
    "set_first_speed (c_baudrates conf) e2 w2 = (r, e3, w3)" "\<not> r < 0" "ep_fd e1 = ep_fd e3"
    "if flowcontrol conf then w_tty w1 = (w_tty w3)(ep_fd e3 := with_flow_control True (w_tty w3 (ep_fd e3))) else w_tty w1 = w_tty w3"
proof -
  obtain ok e2 w2 where o: "uart_open e w = (ok, e2, w2)" by (metis prod_cases3)
  obtain r e3 w3 where s: "set_first_speed (c_baudrates conf) e2 w2 = (r, e3, w3)" by (metis prod_cases3)
  obtain rf w4 where f: "(if flowcontrol conf then set_flow_control True e3 w3 else (0, w3)) = (rf, w4)" by fastforce
  obtain okt e5 w5 where t: "apply_throttling (message_throttling conf) (apply_filters conf e3) w4 = (okt, e5, w5)" by (metis prod_cases3)
  have a: "ok" "c_baudrates conf \<noteq> []" "\<not> r < 0" "\<not> rf < 0" "e1 = apply_throttle_cache (throttle_cache conf) e5" "w1 = w5"
    using assms by (auto simp: uart_setup_def uart_validate_config_def o s f t Let_def split: if_splits)
  have "w_tty w5 = w_tty w4" using tty_throttling [of "message_throttling conf" "apply_filters conf e3" w4] t by simp
  moreover have "ep_fd e1 = ep_fd e3"
    using ep_fd_throttling [of "message_throttling conf" "apply_filters conf e3" w4] t a(5) by (simp add: ep_fd_throttle_cache apply_filters_effect)
  moreover have "w_tty w4 = (w_tty w3)(ep_fd e3 := with_flow_control True (w_tty w3 (ep_fd e3)))" if "flowcontrol conf"
    using set_flow_control_line(1) f a(4) that by auto
  moreover have "w_tty w4 = w_tty w3" if "\<not> flowcontrol conf" using f that by auto
  ultimately show thesis using that [OF _ a(2) s a(3)] o a(1,6) by (cases "flowcontrol conf") auto
qed

text \<open>C32: whatever attributes a serial line had, after a set-up that succeeded it is raw and no other line is touched; and where no call failed, or
  there is only one speed, it has the first configured speed, eight bits, no parity, and flow control as configured.\<close>

theorem serial_line_is_raw:
  assumes "uart_setup conf e w = (True, e1, w1)"
  shows "is_raw (w_tty w1 (ep_fd e1)) \<and> (\<forall>f. f \<noteq> ep_fd e1 \<longrightarrow> w_tty w1 f = w_tty w f) \<and>
    (length (c_baudrates conf) = 1 \<or> (\<forall>k. w_sys w k \<noteq> -1) \<longrightarrow>
      c_ispeed (w_tty w1 (ep_fd e1)) = hd (c_baudrates conf) \<and> c_ospeed (w_tty w1 (ep_fd e1)) = hd (c_baudrates conf) \<and>
      c_cflag (w_tty w1 (ep_fd e1)) = CREAD OR CLOCAL OR CS8 OR BOTHER OR (if flowcontrol conf then CRTSCTS else 0))"
proof -
  obtain e2 w2 r e3 w3 where o: "uart_open e w = (True, e2, w2)" and b: "c_baudrates conf \<noteq> []"
    and s: "set_first_speed (c_baudrates conf) e2 w2 = (r, e3, w3)" "\<not> r < 0" and fd: "ep_fd e1 = ep_fd e3"
    and f: "if flowcontrol conf then w_tty w1 = (w_tty w3)(ep_fd e3 := with_flow_control True (w_tty w3 (ep_fd e3))) else w_tty w1 = w_tty w3"
    using uart_setup_steps [OF assms] by metis
  note l = uart_open_line [OF o] and v = first_speed_line [OF s b uart_open_line(1) [OF o]]
  have r: "is_raw (w_tty w2 (ep_fd e2))" by (rule opened_line_raw [OF l(2)])
  let ?t = "w_tty w3 (ep_fd e3)"
  have e: "ep_fd e3 = ep_fd e2" "ep_fd e1 = ep_fd e2" using v(2) fd by simp_all
  have t: "w_tty w1 (ep_fd e1) = (if flowcontrol conf then with_flow_control True ?t else ?t)" using f fd by (simp split: if_splits)
  have q: "?t = with_speed (hd (c_baudrates conf)) (w_tty w2 (ep_fd e2)) \<or> ?t = w_tty w2 (ep_fd e2) \<and> length (c_baudrates conf) \<noteq> 1 \<and> (\<exists>k. w_sys w k = -1)"
    using v(1) e l(4) by auto
  then have "is_raw ?t" using r by auto
  then have 1: "is_raw (w_tty w1 (ep_fd e1))" by (simp add: t)
  have "w_tty w1 f = w_tty w3 f \<and> w_tty w3 f = w_tty w2 f" if "f \<noteq> ep_fd e1" for f
    using that f v(1) e by (auto split: if_splits)
  then have 2: "\<forall>f. f \<noteq> ep_fd e1 \<longrightarrow> w_tty w1 f = w_tty w f" using l(3) e by simp
  have "c_ispeed ?t = hd (c_baudrates conf) \<and> c_ospeed ?t = hd (c_baudrates conf) \<and> c_cflag ?t = CREAD OR CLOCAL OR CS8 OR BOTHER"
    if "length (c_baudrates conf) = 1 \<or> (\<forall>k. w_sys w k \<noteq> -1)"
    using that q opened_line_flags [OF l(2)] by (auto simp: with_speed_def)
  then show ?thesis using 1 2 by (auto simp: t with_flow_control_def)
qed

definition ex_uart_config :: uart_config where
  "ex_uart_config =
     \<lparr>c_name = ''s'', allow_msg_id_out = [], block_msg_id_out = [], allow_src_comp_out = [], block_src_comp_out = [],
      allow_src_sys_out = [], block_src_sys_out = [], allow_msg_id_in = [], block_msg_id_in = [], allow_src_comp_in = [],
      block_src_comp_in = [], allow_src_sys_in = [], block_src_sys_in = [], c_group = [], message_throttling = [],
      throttle_cache = [], device = ''/dev/ttyS0'', c_baudrates = [57600], flowcontrol = True\<rparr>"

lemma serial_line_is_raw_witness:
  "\<exists>e1 w1. uart_setup ex_uart_config (ex_endpoint UART) ex_world = (True, e1, w1) \<and> is_raw (w_tty w1 (ep_fd e1)) \<and>
     c_ospeed (w_tty w1 (ep_fd e1)) = 57600 \<and> c_cflag (w_tty w1 (ep_fd e1)) = 0x800018B0"
proof -
  have "\<exists>e1 w1. uart_setup ex_uart_config (ex_endpoint UART) ex_world = (True, e1, w1)"
    by (simp add: uart_setup_def ex_uart_config_def uart_validate_config_def uart_open_def reset_uart_def set_first_speed_def set_speed_def
        set_flow_control_def tcgetattr_def tcsetattr_def tty_get_def tty_set_def sys_call_def ex_world_def Let_def)
  then obtain e1 w1 where "uart_setup ex_uart_config (ex_endpoint UART) ex_world = (True, e1, w1)" by blast
  with serial_line_is_raw [OF this] show ?thesis by (auto simp: ex_uart_config_def)
qed

section \<open>Link-local addresses\<close>

text \<open>The interface is the first one that has the address.\<close>

lemma scope_id_found:
  "ipv6_get_scope_id ip addrs index =
     (case find (\<lambda>a. map_option cut_zone (ifa_host6 a) = Some ip) addrs of None \<Rightarrow> 0 | Some a \<Rightarrow> index (ifa_name a))"
  by (induction addrs) (auto split: option.split)

text \<open>Documentation and code differ: the interface of a link-local address is said to be found, and the address of another host is none of
  our interfaces, so that a client is left without one.\<close>

lemma remote_linklocal_unscoped:
  assumes "ipv6_is_linklocal (w_norm6 w (strip_brackets ip))"
    "\<forall>a \<in> set (w_ifaddrs w). map_option cut_zone (ifa_host6 a) \<noteq> Some (w_norm6 w (strip_brackets ip))"
    "udp_open_ipv6 ip port Client e w = (e1, w1)" "0 \<le> ep_fd e1"
  shows "sa_scope (sockaddr6 (net e1)) = 0"
proof -
  have "find (\<lambda>a. map_option cut_zone (ifa_host6 a) = Some (w_norm6 w (strip_brackets ip))) (w_ifaddrs w) = None"
    using assms(2) by (simp add: find_None_iff)
  then show ?thesis using assms(1,3,4) by (auto simp: udp_open_ipv6_def scope_id_found case_prod_unfold Let_def split: if_splits)
qed

text \<open>An address of this host gets the number of its interface, whatever name the kernel writes behind it.\<close>

lemma own_linklocal_scoped:
  assumes "ipv6_is_linklocal (w_norm6 w (strip_brackets ip))" "w_ifaddrs w = as @ \<lparr>ifa_name = n, ifa_host6 = Some (w_norm6 w (strip_brackets ip) @ ''%'' @ n)\<rparr> # bs"
    "\<forall>a \<in> set as. ifa_host6 a = None" "CHR ''%'' \<notin> set n"
    "udp_open_ipv6 ip port m e w = (e1, w1)" "0 \<le> ep_fd e1"
  shows "sa_scope (sockaddr6 (net e1)) = w_ifindex w n"
proof -
  have "cut_zone (x @ ''%'' @ n) = x" for x using assms(4) by (simp add: cut_zone_def dropWhile_append)
  moreover have "ipv6_get_scope_id x (as @ b # bs) index = ipv6_get_scope_id x (b # bs) index" for x b index
    using assms(3) by (induction as) simp_all
  ultimately have "ipv6_get_scope_id (w_norm6 w (strip_brackets ip)) (w_ifaddrs w) (w_ifindex w) = w_ifindex w n" using assms(2) by simp
  then show ?thesis using assms(1,5,6) by (auto simp: udp_open_ipv6_def case_prod_unfold Let_def split: if_splits)
qed

end
