(* ===== verification/Files.thy ===== *)
theory Files
  imports World Text
begin

text \<open>
  The file system as the program sees it through system calls (used by util.cpp, conf_file.cpp
  and the log recorders): a list of nodes in the order \<open>readdir\<close> reports them, the open
  descriptors with their offsets, and the arbitrary answers of the kernel. The \<open>k\<close>-th call fails with the
  error \<open>fs_err k\<close> unless that is 0; the \<open>k\<close>-th \<open>write\<close> takes at most \<open>fs_wr k\<close> bytes and the
  \<open>k\<close>-th \<open>statvfs\<close> reports \<open>fs_free k\<close> bytes. A path is the list of its non-empty components,
  with the mark of an absolute one; links and the names \<open>.\<close> and \<open>..\<close> are left out.
\<close>

section \<open>State\<close>

record regfile =
  f_data :: bytes
  f_mode :: u32

datatype node = Dir | File regfile

type_synonym path = "bool \<times> string list"

record fsys =
  fs_nodes :: "(path \<times> node) list"
  fs_fds :: "int \<rightharpoonup> (path \<times> nat)"
  fs_err :: "nat \<Rightarrow> int"
  fs_wr :: "nat \<Rightarrow> nat"
  fs_free :: "nat \<Rightarrow> u64"
  fs_tick :: nat

abbreviation ENOTDIR :: int where "ENOTDIR \<equiv> 20"
abbreviation EBADF :: int where "EBADF \<equiv> 9"

definition path_of :: "string \<Rightarrow> path" where
  "path_of s = (s \<noteq> [] \<and> hd s = CHR ''/'', strtok_on (CHR ''/'') s)"

text \<open>The root and the current directory are there.\<close>

definition lookup_node :: "fsys \<Rightarrow> path \<Rightarrow> node option" where
  "lookup_node fs p = (if snd p = [] then Some Dir else map_of (fs_nodes fs) p)"

definition tick :: "fsys \<Rightarrow> int \<times> fsys" where
  "tick fs = (fs_err fs (fs_tick fs), fs\<lparr>fs_tick := Suc (fs_tick fs)\<rparr>)"

definition update_node :: "path \<Rightarrow> node \<Rightarrow> fsys \<Rightarrow> fsys" where
  "update_node p x fs = fs\<lparr>fs_nodes := map (\<lambda>(q, y). if q = p then (q, x) else (q, y)) (fs_nodes fs)\<rparr>"

section \<open>Calls on paths\<close>

text \<open>A call returns the error or its result, and the new state.\<close>

definition fs_stat :: "string \<Rightarrow> fsys \<Rightarrow> (int + node) \<times> fsys" where
  "fs_stat s fs =
     (let (e, fs1) = tick fs
      in if e \<noteq> 0 then (Inl e, fs1)
         else if s = [] then (Inl ENOENT, fs1)
         else case lookup_node fs (path_of s) of None \<Rightarrow> (Inl ENOENT, fs1) | Some x \<Rightarrow> (Inr x, fs1))"

definition fs_mkdir :: "string \<Rightarrow> fsys \<Rightarrow> (int + unit) \<times> fsys" where
  "fs_mkdir s fs =
     (let (e, fs1) = tick fs; p = path_of s
      in if e \<noteq> 0 then (Inl e, fs1)
         else if s = [] then (Inl ENOENT, fs1)
         else if lookup_node fs p \<noteq> None then (Inl EEXIST, fs1)
         else case lookup_node fs (fst p, butlast (snd p)) of
                None \<Rightarrow> (Inl ENOENT, fs1)
              | Some (File _) \<Rightarrow> (Inl ENOTDIR, fs1)
              | Some Dir \<Rightarrow> (Inr (), fs1\<lparr>fs_nodes := fs_nodes fs @ [(p, Dir)]\<rparr>))"

text \<open>The names in a directory; \<open>opendir\<close>, the calls of \<open>readdir\<close> and \<open>closedir\<close> are one call.\<close>

definition entries :: "path \<Rightarrow> fsys \<Rightarrow> string list" where
  "entries d fs =
     map (\<lambda>(q, _). last (snd q))
       (filter (\<lambda>(q, _). snd q \<noteq> [] \<and> fst q = fst d \<and> butlast (snd q) = snd d) (fs_nodes fs))"

definition fs_readdir :: "string \<Rightarrow> fsys \<Rightarrow> (int + string list) \<times> fsys" where
  "fs_readdir s fs =
     (case fs_stat s fs of
        (Inl e, fs1) \<Rightarrow> (Inl e, fs1)
      | (Inr (File _), fs1) \<Rightarrow> (Inl ENOTDIR, fs1)
      | (Inr Dir, fs1) \<Rightarrow> (Inr (entries (path_of s) fs), fs1))"

definition fs_chmod :: "string \<Rightarrow> u32 \<Rightarrow> fsys \<Rightarrow> (int + unit) \<times> fsys" where
  "fs_chmod s md fs =
     (case fs_stat s fs of
        (Inl e, fs1) \<Rightarrow> (Inl e, fs1)
      | (Inr Dir, fs1) \<Rightarrow> (Inr (), fs1)
      | (Inr (File f), fs1) \<Rightarrow> (Inr (), update_node (path_of s) (File (f\<lparr>f_mode := md\<rparr>)) fs1))"

text \<open>\<open>remove\<close> of a directory is \<open>rmdir\<close>, which wants it empty.\<close>

definition fs_remove :: "string \<Rightarrow> fsys \<Rightarrow> (int + unit) \<times> fsys" where
  "fs_remove s fs =
     (let unlinked = (\<lambda>fs1. fs1\<lparr>fs_nodes := filter (\<lambda>(q, _). q \<noteq> path_of s) (fs_nodes fs1)\<rparr>)
      in case fs_stat s fs of
           (Inl e, fs1) \<Rightarrow> (Inl e, fs1)
         | (Inr Dir, fs1) \<Rightarrow>
             if snd (path_of s) = [] \<or> entries (path_of s) fs \<noteq> [] then (Inl EBUSY, fs1) else (Inr (), unlinked fs1)
         | (Inr (File _), fs1) \<Rightarrow> (Inr (), unlinked fs1))"

definition fs_statvfs :: "string \<Rightarrow> fsys \<Rightarrow> (int + u64) \<times> fsys" where
  "fs_statvfs s fs =
     (case fs_stat s fs of
        (Inl e, fs1) \<Rightarrow> (Inl e, fs1)
      | (Inr _, fs1) \<Rightarrow> (Inr (fs_free fs (fs_tick fs)), fs1))"

section \<open>Calls on descriptors\<close>

text \<open>\<open>openat\<close> with \<open>O_WRONLY | O_CREAT | O_EXCL\<close> in a directory that is open. Descriptors are not
  used twice.\<close>

definition fs_create :: "path \<Rightarrow> u32 \<Rightarrow> fsys \<Rightarrow> (int + int) \<times> fsys" where
  "fs_create p md fs =
     (let (e, fs1) = tick fs; fd = 3 + int (fs_tick fs)
      in if e \<noteq> 0 then (Inl e, fs1)
         else if lookup_node fs p \<noteq> None then (Inl EEXIST, fs1)
         else (Inr fd, fs1\<lparr>fs_nodes := fs_nodes fs @ [(p, File \<lparr>f_data = [], f_mode = md\<rparr>)],
                           fs_fds := (fs_fds fs)(fd \<mapsto> (p, 0))\<rparr>))"

text \<open>Bytes written behind the end of a file leave zeros before them.\<close>

definition put_bytes :: "bytes \<Rightarrow> nat \<Rightarrow> bytes \<Rightarrow> bytes" where
  "put_bytes d off bs =
     (if bs = [] then d else memwrite (d @ replicate (off - length d) 0) off bs)"

definition file_bytes :: "fsys \<Rightarrow> path \<Rightarrow> bytes" where
  "file_bytes fs p = (case lookup_node fs p of Some (File f) \<Rightarrow> f_data f | _ \<Rightarrow> [])"

text \<open>\<open>write\<close>: a file that was unlinked takes the bytes too, and nobody sees them.\<close>

definition fs_write :: "int \<Rightarrow> bytes \<Rightarrow> fsys \<Rightarrow> (int + nat) \<times> fsys" where
  "fs_write fd bs fs =
     (let (e, fs1) = tick fs; n = min (fs_wr fs (fs_tick fs)) (length bs)
      in if e \<noteq> 0 then (Inl e, fs1)
         else case fs_fds fs fd of
                None \<Rightarrow> (Inl EBADF, fs1)
              | Some (p, off) \<Rightarrow>
                  let fs2 = fs1\<lparr>fs_fds := (fs_fds fs)(fd \<mapsto> (p, off + n))\<rparr>
                  in (Inr n,
                      case lookup_node fs p of
                        Some (File f) \<Rightarrow> update_node p (File (f\<lparr>f_data := put_bytes (f_data f) off (take n bs)\<rparr>)) fs2
                      | _ \<Rightarrow> fs2))"

definition fs_lseek :: "int \<Rightarrow> nat \<Rightarrow> fsys \<Rightarrow> (int + unit) \<times> fsys" where
  "fs_lseek fd off fs =
     (let (e, fs1) = tick fs
      in if e \<noteq> 0 then (Inl e, fs1)
         else case fs_fds fs fd of
                None \<Rightarrow> (Inl EBADF, fs1)
              | Some (p, _) \<Rightarrow> (Inr (), fs1\<lparr>fs_fds := (fs_fds fs)(fd \<mapsto> (p, off))\<rparr>))"

definition fs_close :: "int \<Rightarrow> fsys \<Rightarrow> fsys" where
  "fs_close fd fs = (snd (tick fs))\<lparr>fs_fds := (fs_fds fs)(fd := None)\<rparr>"

definition fs_sync :: "fsys \<Rightarrow> fsys" where
  "fs_sync fs = snd (tick fs)"

section \<open>Lemmas\<close>

text \<open>What calls leave alone.\<close>

named_theorems fs_simps \<open>what the calls do to the parts of the file system\<close>

lemma tick_simps [simp]:
  "fs_nodes (snd (tick fs)) = fs_nodes fs" "fs_fds (snd (tick fs)) = fs_fds fs"
  "fs_err (snd (tick fs)) = fs_err fs" "fs_wr (snd (tick fs)) = fs_wr fs"
  "fs_free (snd (tick fs)) = fs_free fs" "fs_tick (snd (tick fs)) = Suc (fs_tick fs)"
  "fst (tick fs) = fs_err fs (fs_tick fs)"
  by (simp_all add: tick_def)

lemma lookup_node_cong: "fs_nodes fs = fs_nodes fs' \<Longrightarrow> lookup_node fs = lookup_node fs'"
  by (simp add: lookup_node_def fun_eq_iff)

lemma map_of_replace:
  "map_of (map (\<lambda>(q, y). if q = p then (q, x) else (q, y)) xs) q =
     (if q = p \<and> map_of xs p \<noteq> None then Some x else map_of xs q)"
  by (induction xs) (auto split: if_splits)

lemma lookup_update_node [fs_simps]:
  "snd p \<noteq> [] \<Longrightarrow> lookup_node (update_node p x fs) q =
     (if q = p \<and> lookup_node fs p \<noteq> None then Some x else lookup_node fs q)"
  by (auto simp: lookup_node_def update_node_def map_of_replace)

lemma map_of_filter_ne: "map_of (filter (\<lambda>(q, _). q \<noteq> p) xs) q = (if q = p then None else map_of xs q)"
  by (induction xs) auto

lemma fs_stat_state [simp]: "snd (fs_stat s fs) = snd (tick fs)"
  by (simp add: fs_stat_def tick_def Let_def case_prod_unfold split: option.split)

lemma fs_stat_stateD: "fs_stat s fs = (r, fs1) \<Longrightarrow> fs1 = snd (tick fs)"
  using fs_stat_state [of s fs] by (simp del: fs_stat_state)

lemma fs_statvfs_state [simp]: "snd (fs_statvfs s fs) = snd (tick fs)"
  by (auto simp: fs_statvfs_def dest!: fs_stat_stateD split: prod.split sum.split)

lemma fs_readdir_state [simp]: "snd (fs_readdir s fs) = snd (tick fs)"
  by (auto simp: fs_readdir_def dest!: fs_stat_stateD split: prod.split sum.split node.split)

lemma fs_sync_simps [simp]:
  "fs_nodes (fs_sync fs) = fs_nodes fs" "fs_fds (fs_sync fs) = fs_fds fs"
  by (simp_all add: fs_sync_def)

text \<open>A file system for examples: nothing fails, writes are complete, and there are a directory of
  logs and a configuration file that holds the section \<open>[a]\<close>.\<close>

definition ex_fs :: fsys where
  "ex_fs = \<lparr>fs_nodes = [((True, [''logs'']), Dir), ((False, [''f'']), File \<lparr>f_data = [91, 97, 93, 10], f_mode = 420\<rparr>)],
     fs_fds = Map.empty, fs_err = (\<lambda>_. 0), fs_wr = (\<lambda>_. 100000), fs_free = (\<lambda>_. 1000), fs_tick = 0\<rparr>"

end
