(* ===== verification/Util.thy ===== *)
theory Util
  imports Files
begin

text \<open>
  common/util.cpp and util.h: conversion of text to numbers with every error reported, time
  stamps in microseconds, and \<open>mkdir_p\<close>. A conversion returns the negated error number or the
  value it stores. \<open>mkdir_p\<close> works on a copy of the path in which it replaces separators by NUL
  and puts them back; the copy is a list of characters with its terminating NUL.
\<close>

section \<open>Numbers\<close>

definition safe_atoul :: "string \<Rightarrow> int + u64" where
  "safe_atoul s =
     (let (l, x, errno) = strtoul_base0 s
      in if x = s \<or> x \<noteq> [] \<or> errno \<noteq> 0 then Inl (if errno \<noteq> 0 then - errno else - EINVAL) else Inr l)"

definition safe_atoull :: "string \<Rightarrow> int + u64" where
  "safe_atoull s =
     (let (l, x, errno) = strtoul_base0 s
      in if x = s \<or> x \<noteq> [] \<or> errno \<noteq> 0 then Inl (if errno \<noteq> 0 then - errno else - EINVAL) else Inr l)"

definition safe_atoi :: "string \<Rightarrow> int + int" where
  "safe_atoi s =
     (let (l, x, errno) = strtol_base0 s
      in if x = s \<or> x \<noteq> [] \<or> errno \<noteq> 0 then Inl (if errno > 0 then - errno else - EINVAL)
         else if sint (word_of_int l :: 32 word) \<noteq> l then Inl (- ERANGE)
         else Inr (sint (word_of_int l :: 32 word)))"

section \<open>Time\<close>

record timespec =
  tv_sec :: u64
  tv_nsec :: u64

abbreviation USEC_INFINITY :: u64 where "USEC_INFINITY \<equiv> 0xFFFFFFFFFFFFFFFF"

definition ts_usec :: "timespec \<Rightarrow> u64" where
  "ts_usec ts =
     (if tv_sec ts = - 1 \<and> tv_nsec ts = - 1 then USEC_INFINITY
      else if tv_sec ts > (0xFFFFFFFFFFFFFFFF - tv_nsec ts div 1000) div 1000000 then USEC_INFINITY
      else tv_sec ts * 1000000 + tv_nsec ts div 1000)"

section \<open>Directories\<close>

definition is_dir :: "string \<Rightarrow> fsys \<Rightarrow> int \<times> fsys" where
  "is_dir s fs =
     (case fs_stat s fs of
        (Inl e, fs1) \<Rightarrow> (- e, fs1)
      | (Inr Dir, fs1) \<Rightarrow> (1, fs1)
      | (Inr (File _), fs1) \<Rightarrow> (0, fs1))"

text \<open>The two loops that move \<open>end\<close> to the separator before the last component.\<close>

fun back_to_slash :: "string \<Rightarrow> nat \<Rightarrow> nat" where
  "back_to_slash b 0 = 0"
| "back_to_slash b (Suc n) = (if b ! Suc n = CHR ''/'' then Suc n else back_to_slash b n)"

fun skip_slashes :: "string \<Rightarrow> nat \<Rightarrow> nat" where
  "skip_slashes b 0 = 0"
| "skip_slashes b (Suc n) = (if b ! n = CHR ''/'' then skip_slashes b n else Suc n)"

lemma back_to_slash_le: "back_to_slash b n \<le> n"
  by (induction b n rule: back_to_slash.induct) auto

lemma skip_slashes_le: "skip_slashes b n \<le> n"
  by (induction b n rule: skip_slashes.induct) auto

text \<open>The first loop: \<open>Inl\<close> is a return of \<open>mkdir_p\<close>, \<open>Inr\<close> the buffer and \<open>end\<close> after the loop.
  \<open>None\<close> is a write behind the end of the buffer.\<close>

function mkdir_p_scan :: "nat \<Rightarrow> string \<Rightarrow> nat \<Rightarrow> fsys \<Rightarrow> ((int + string \<times> nat) \<times> fsys) option" where
  "mkdir_p_scan len b end fs =
     (let (r, fs1) = is_dir (c_str b) fs
      in if r > 0 then
           (let e1 = end + length (c_str (drop end b))
            in if e1 = len then Some (Inl 0, fs1)
               else if length b \<le> e1 then None
               else Some (Inr (b[e1 := CHR ''/''], e1), fs1))
         else if r = 0 then Some (Inl (- ENOTDIR), fs1)
         else if end = 0 then Some (Inr (b, 0), fs1)
         else if length b \<le> end then None
         else let b1 = b[end := NUL]
              in mkdir_p_scan len b1 (skip_slashes b1 (back_to_slash b1 end)) fs1)"
  by pat_completeness auto
termination
proof (relation "measure (\<lambda>(len, b, end, fs). end)", goal_cases)
  case (2 len b "end" fs x r fs1 b1)
  then obtain n where n: "end = Suc n" by (cases "end") auto
  have "back_to_slash b1 end = back_to_slash b1 n"
    using 2 n by simp
  then have "back_to_slash b1 end \<le> n" by (simp add: back_to_slash_le)
  then show ?case using skip_slashes_le [of b1 "back_to_slash b1 end"] n by simp
qed simp

declare mkdir_p_scan.simps [simp del]

text \<open>The second loop makes one directory after the other. \<open>None\<close> would be a loop that never ends.\<close>

partial_function (option) mkdir_p_make :: "nat \<Rightarrow> string \<Rightarrow> nat \<Rightarrow> fsys \<Rightarrow> (int \<times> fsys) option" where
  "mkdir_p_make len b end fs =
     (if end < len then
        (case fs_mkdir (c_str b) fs of
           (res, fs1) \<Rightarrow>
             if (case res of Inl e \<Rightarrow> e \<noteq> EEXIST | Inr _ \<Rightarrow> False)
             then Some (- (case res of Inl e \<Rightarrow> e | Inr _ \<Rightarrow> 0), fs1)
             else (let e1 = end + length (c_str (drop end b)) in mkdir_p_make len (b[e1 := CHR ''/'']) e1 fs1))
      else Some (0, fs))"

declare mkdir_p_make.simps [code]

definition mkdir_p :: "string \<Rightarrow> fsys \<Rightarrow> (int \<times> fsys) option" where
  "mkdir_p path fs =
     (let len = length path
      in case mkdir_p_scan len (path @ [NUL]) len fs of
           None \<Rightarrow> None
         | Some (Inl r, fs1) \<Rightarrow> Some (r, fs1)
         | Some (Inr (b, end), fs1) \<Rightarrow> mkdir_p_make len b end fs1)"

section \<open>Properties\<close>

text \<open>\<open>ts_usec\<close> never wraps: it is the exact number of microseconds, or the infinite time when
  that number does not fit.\<close>

lemma ts_usec_saturates:
  assumes "tv_sec ts \<noteq> - 1"
  shows "unat (ts_usec ts) = min (unat (tv_sec ts) * 1000000 + unat (tv_nsec ts) div 1000) (2 ^ 64 - 1)"
proof -
  let ?s = "unat (tv_sec ts)" and ?n = "unat (tv_nsec ts) div 1000"
  have n: "unat (tv_nsec ts div 1000) = ?n" by (simp add: unat_div)
  have "unat (tv_nsec ts) < 2 ^ 64" using unsigned_less [of "tv_nsec ts"] by simp
  then have nb: "?n \<le> 2 ^ 64 - 1" by simp
  have "unat (0xFFFFFFFFFFFFFFFF - tv_nsec ts div 1000) = 2 ^ 64 - 1 - ?n"
    using nb by (subst unat_sub) (auto simp: n word_le_nat_alt)
  then have d: "unat ((0xFFFFFFFFFFFFFFFF - tv_nsec ts div 1000) div 1000000) = (2 ^ 64 - 1 - ?n) div 1000000"
    by (simp add: unat_div)
  have c: "(tv_sec ts > (0xFFFFFFFFFFFFFFFF - tv_nsec ts div 1000) div 1000000) = (?s * 1000000 + ?n > 2 ^ 64 - 1)"
    using nb by (simp add: word_less_nat_alt d div_less_iff_less_mult) arith
  show ?thesis
  proof (cases "?s * 1000000 + ?n > 2 ^ 64 - 1")
    case False
    then have "unat (tv_sec ts * 1000000 + tv_nsec ts div 1000) = ?s * 1000000 + ?n"
      by (subst unat_add_lem [THEN iffD1] unat_mult_lem [THEN iffD1]; simp add: n)+
    with False c assms show ?thesis by (simp add: ts_usec_def)
  next
    case True
    with c assms show ?thesis by (simp add: ts_usec_def)
  qed
qed

text \<open>A number in decimal notation is read back as itself when the type of the result can hold
  it and refused with \<open>-ERANGE\<close> when it cannot, for \<open>int\<close>, \<open>unsigned long\<close> and
  \<open>unsigned long long\<close>.\<close>

theorem safe_ato_roundtrip:
  "safe_atoi (show_int v) = (if - (2 ^ 31) \<le> v \<and> v < 2 ^ 31 then Inr v else Inl (- ERANGE))
   \<and> safe_atoul (show_nat n) = (if n < 2 ^ 64 then Inr (of_nat n) else Inl (- ERANGE))
   \<and> safe_atoull (show_nat n) = safe_atoul (show_nat n)"
proof -
  have "safe_atoi (show_int v) = (if - (2 ^ 31) \<le> v \<and> v < 2 ^ 31 then Inr v else Inl (- ERANGE))"
    using sint_word32_iff [of v]
    by (auto simp: safe_atoi_def strtol_base0_def scan_number_show_int Let_def)
  then show ?thesis
    by (simp add: safe_atoul_def safe_atoull_def strtoul_base0_def scan_number_show_nat)
qed

end
