(* ===== verification/ConfFile.thy ===== *)
theory ConfFile
  imports Util
begin

text \<open>
  The parser of configuration files (common/conf_file.cpp, conf_file.h). The code keeps linked
  lists of sections and of the options of each section, newest first, that point into the mapped
  files; here they are lists of records that hold the text. A pointer to a section is its
  address \<open>sec_addr\<close>. \<open>None\<close> is a failed assertion or undefined behaviour of the code.
  Messages to the log are left out, and with them \<open>print_filenames\<close>.
\<close>

section \<open>State\<close>

record config =
  cfg_key :: string
  cfg_value :: string
  cfg_filename :: string
  cfg_line :: nat

record conf_section =
  sec_addr :: nat
  sec_name :: string
  sec_configs :: "config list"

record conffile =
  file_text :: string
  file_name :: string

record conf =
  conf_files :: "conffile list"
  conf_sections :: "conf_section list"

definition ConfFile_init :: conf where
  "ConfFile_init = \<lparr>conf_files = [], conf_sections = []\<rparr>"

abbreviation MAX_SECTION_NAME :: nat where "MAX_SECTION_NAME \<equiv> 100"
abbreviation INT_MAX :: nat where "INT_MAX \<equiv> 2147483647"
abbreviation ENODEV :: int where "ENODEV \<equiv> 19"

section \<open>Lookup\<close>

definition find_config :: "string \<Rightarrow> config list \<Rightarrow> config option" where
  "find_config key cs = find (\<lambda>c. memcaseeq key (cfg_key c)) cs"

definition find_section :: "string \<Rightarrow> conf \<Rightarrow> conf_section option" where
  "find_section name c = find (\<lambda>s. memcaseeq name (sec_name s)) (conf_sections c)"

section \<open>Parsing\<close>

definition trim :: "string \<Rightarrow> string" where
  "trim s = rev (dropWhile is_space (rev (dropWhile is_space s)))"

text \<open>Position of the first \<open>c\<close> (\<open>memchr\<close>).\<close>

definition position :: "char \<Rightarrow> string \<Rightarrow> nat" where
  "position c s = length (takeWhile (\<lambda>x. x \<noteq> c) s)"

text \<open>At most one white space in a section name, and that a blank.\<close>

fun spaces_ok :: "bool \<Rightarrow> string \<Rightarrow> bool" where
  "spaces_ok spaces [] = True"
| "spaces_ok spaces (p # ps) =
     (if is_space p then p = CHR '' '' \<and> \<not> spaces \<and> spaces_ok True ps else spaces_ok spaces ps)"

definition add_section :: "string \<Rightarrow> conf \<Rightarrow> nat option \<times> conf" where
  "add_section addr c =
     (let len = length addr; end = position (CHR '']'') addr; name = take (len - 2) (drop 1 addr)
      in if CHR '']'' \<notin> set addr then (None, c)
         else if end < len - 1 then (None, c)
         else if is_space (addr ! (end - 1)) \<or> is_space (addr ! 1) then (None, c)
         else if \<not> spaces_ok False (take end addr) then (None, c)
         else case find_section name c of
                Some s \<Rightarrow> (Some (sec_addr s), c)
              | None \<Rightarrow>
                  if len - 2 > MAX_SECTION_NAME then (None, c)
                  else let a = length (conf_sections c)
                       in (Some a, c\<lparr>conf_sections := \<lparr>sec_addr = a, sec_name = name, sec_configs = []\<rparr> # conf_sections c\<rparr>))"

text \<open>The first option with the key gets the new value; a new option goes to the front.\<close>

fun set_config :: "config \<Rightarrow> config list \<Rightarrow> config list" where
  "set_config new [] = []"
| "set_config new (c # cs) =
     (if memcaseeq (cfg_key new) (cfg_key c)
      then c\<lparr>cfg_value := cfg_value new, cfg_filename := cfg_filename new, cfg_line := cfg_line new\<rparr> # cs
      else c # set_config new cs)"

definition put_config :: "config \<Rightarrow> config list \<Rightarrow> config list" where
  "put_config new cs = (case find_config (cfg_key new) cs of None \<Rightarrow> new # cs | Some _ \<Rightarrow> set_config new cs)"

definition add_config :: "nat \<Rightarrow> string \<Rightarrow> string \<Rightarrow> nat \<Rightarrow> conf \<Rightarrow> int \<times> conf" where
  "add_config s entry filename line c =
     (let equal_pos = position (CHR ''='') entry
      in if CHR ''='' \<notin> set entry then (- EINVAL, c)
         else if equal_pos = 0 then (- EINVAL, c)
         else if equal_pos = length entry - 1 then (- EINVAL, c)
         else
           let new = \<lparr>cfg_key = trim (take equal_pos entry), cfg_value = trim (drop (Suc equal_pos) entry),
                      cfg_filename = filename, cfg_line = line\<rparr>
           in (0, c\<lparr>conf_sections := map (\<lambda>x. if sec_addr x = s then x\<lparr>sec_configs := put_config new (sec_configs x)\<rparr> else x)
                                       (conf_sections c)\<rparr>))"

text \<open>One round of the loop of \<open>_parse_file\<close> on the text of a line: the section pointer \<open>s\<close> after
  it, or the error that ends the parser.\<close>

definition parse_line :: "string \<Rightarrow> nat \<Rightarrow> string \<Rightarrow> nat option \<Rightarrow> conf \<Rightarrow> (int + nat option) \<times> conf" where
  "parse_line filename line text s c =
     (let addr = trim text
      in if length text > INT_MAX then (Inl (- EINVAL), c)
         else if addr = [] then (Inr s, c)
         else if hd addr = CHR '';'' \<or> hd addr = CHR ''#'' then (Inr s, c)
         else if hd addr = CHR ''['' then
           (case add_section addr c of
              (None, c1) \<Rightarrow> (Inl (- EINVAL), c1)
            | (Some a, c1) \<Rightarrow> (Inr (Some a), c1))
         else case s of
                None \<Rightarrow> (Inl (- EINVAL), c)
              | Some a \<Rightarrow>
                  let (ret, c1) = add_config a addr filename line c
                  in if ret < 0 then (Inl ret, c1) else (Inr s, c1))"

fun parse_lines :: "string \<Rightarrow> nat \<Rightarrow> string list \<Rightarrow> nat option \<Rightarrow> conf \<Rightarrow> int \<times> conf" where
  "parse_lines filename line [] s c = (0, c)"
| "parse_lines filename line (text # texts) s c =
     (case parse_line filename (line + 1) text s c of
        (Inl ret, c1) \<Rightarrow> (ret, c1)
      | (Inr s1, c1) \<Rightarrow> parse_lines filename (line + 1) texts s1 c1)"

text \<open>A line ends with a line feed; what follows the last one is ignored.\<close>

definition parse_file :: "string \<Rightarrow> string \<Rightarrow> conf \<Rightarrow> int \<times> conf" where
  "parse_file addr filename c = parse_lines filename 0 (butlast (split_on LF addr)) None c"

text \<open>\<open>open\<close>, \<open>stat\<close> and \<open>mmap\<close>; an empty file or a directory cannot be mapped.\<close>

definition text_of :: "bytes \<Rightarrow> string" where
  "text_of bs = map (\<lambda>b. char_of (unat b)) bs"

definition ConfFile_parse :: "string \<Rightarrow> fsys \<Rightarrow> conf \<Rightarrow> int \<times> conf \<times> fsys" where
  "ConfFile_parse filename fs c =
     (case fs_stat filename fs of
        (Inl e, fs1) \<Rightarrow> (- e, c, fs1)
      | (Inr _, fs1) \<Rightarrow>
          (case fs_stat filename fs1 of
             (Inl e, fs2) \<Rightarrow> (- e, c, fs2)
           | (Inr x, fs2) \<Rightarrow>
               let (e, fs3) = tick fs2
               in if e \<noteq> 0 then (- e, c, fs3)
                  else case x of
                         Dir \<Rightarrow> (- ENODEV, c, fs3)
                       | File f \<Rightarrow>
                           if f_data f = [] then (- EINVAL, c, fs3)
                           else
                             let addr = text_of (f_data f);
                                 (ret, c1) = parse_file addr filename
                                   (c\<lparr>conf_files := \<lparr>file_text = addr, file_name = filename\<rparr> # conf_files c\<rparr>)
                             in (ret, c1, fs3)))"

definition release_all :: "conf \<Rightarrow> conf" where
  "release_all c = c\<lparr>conf_files := [], conf_sections := []\<rparr>"

section \<open>Extraction\<close>

text \<open>An entry of an \<open>OptionsTable\<close> for a struct \<open>'d\<close>: the parser returns its code and the struct with
  the field it stored.\<close>

record 'd option_entry =
  ot_key :: string
  ot_required :: bool
  ot_parser :: "string \<Rightarrow> 'd \<Rightarrow> (int \<times> 'd) option"

fun extract_from_section :: "config list \<Rightarrow> 'd option_entry list \<Rightarrow> 'd \<Rightarrow> (int \<times> 'd) option" where
  "extract_from_section cs [] data = Some (0, data)"
| "extract_from_section cs (t # table) data =
     (case find_config (ot_key t) cs of
        None \<Rightarrow> if ot_required t then Some (- ENOENT, data) else extract_from_section cs table data
      | Some c \<Rightarrow>
          (case ot_parser t (cfg_value c) data of
             None \<Rightarrow> None
           | Some (ret, data1) \<Rightarrow> if ret < 0 then Some (ret, data1) else extract_from_section cs table data1))"

definition extract_options :: "string \<Rightarrow> 'd option_entry list \<Rightarrow> 'd \<Rightarrow> conf \<Rightarrow> (int \<times> 'd) option" where
  "extract_options section_name table data c =
     (case find_section section_name c of
        None \<Rightarrow> Some (if list_ex ot_required table then - ENOENT else 0, data)
      | Some s \<Rightarrow> extract_from_section (sec_configs s) table data)"

record section_iter =
  iter_name :: string
  iter_ptr :: "nat option"

definition extract_options_iter :: "section_iter \<Rightarrow> 'd option_entry list \<Rightarrow> 'd \<Rightarrow> conf \<Rightarrow> (int \<times> 'd) option" where
  "extract_options_iter iter table data c =
     (case find (\<lambda>s. Some (sec_addr s) = iter_ptr iter) (conf_sections c) of
        None \<Rightarrow> None
      | Some s \<Rightarrow> extract_from_section (sec_configs s) table data)"

text \<open>The copy \<open>section_name\<close> has 100 characters; a name of 100 has no place for its NUL.\<close>

fun search_sections :: "string \<Rightarrow> conf_section list \<Rightarrow> (int \<times> section_iter) option" where
  "search_sections pattern [] = Some (- ENOENT, \<lparr>iter_name = [], iter_ptr = None\<rparr>)"
| "search_sections pattern (s # ss) =
     (if length (sec_name s) \<ge> MAX_SECTION_NAME then None
      else if fnmatch pattern (c_str (sec_name s))
      then Some (0, \<lparr>iter_name = sec_name s, iter_ptr = Some (sec_addr s)\<rparr>)
      else search_sections pattern ss)"

definition get_sections :: "string \<Rightarrow> section_iter \<Rightarrow> conf \<Rightarrow> (int \<times> section_iter) option" where
  "get_sections pattern iter c =
     (case iter_ptr iter of
        None \<Rightarrow> search_sections pattern (conf_sections c)
      | Some p \<Rightarrow> search_sections pattern (tl (dropWhile (\<lambda>s. sec_addr s \<noteq> p) (conf_sections c))))"

section \<open>Parsers of values\<close>

text \<open>Each takes \<open>storage_len\<close>, the value and what the storage holds; the assertions want a
  non-empty value. The sizes are those of a 64-bit system.\<close>

definition parse_str_dup :: "nat \<Rightarrow> string \<Rightarrow> string \<Rightarrow> (int \<times> string) option" where
  "parse_str_dup storage_len val ptr =
     (if val = [] then None else if storage_len < 8 then Some (- ENOBUFS, ptr) else Some (0, c_str val))"

definition parse_str_buf :: "nat \<Rightarrow> string \<Rightarrow> string \<Rightarrow> (int \<times> string) option" where
  "parse_str_buf storage_len val storage =
     (if val = [] \<or> storage_len = 0 then None
      else if storage_len - 1 < length val then Some (- ENOBUFS, storage)
      else Some (0, memwrite storage 0 (val @ [NUL])))"

definition parse_stdstring :: "nat \<Rightarrow> string \<Rightarrow> string \<Rightarrow> (int \<times> string) option" where
  "parse_stdstring storage_len val target =
     (if val = [] then None else if storage_len < 32 then Some (- ENOBUFS, target) else Some (0, val))"

definition parse_uint8_vector :: "nat \<Rightarrow> string \<Rightarrow> u8 list \<Rightarrow> (int \<times> u8 list) option" where
  "parse_uint8_vector storage_len val target =
     (if val = [] then None else if storage_len < 24 then Some (- ENOBUFS, target)
      else Some (0, target @ map (\<lambda>token. word_of_int (atoi token)) (strtok_on (CHR '','') (c_str val))))"

definition parse_uint32_vector :: "nat \<Rightarrow> string \<Rightarrow> u32 list \<Rightarrow> (int \<times> u32 list) option" where
  "parse_uint32_vector storage_len val target =
     (if val = [] then None else if storage_len < 24 then Some (- ENOBUFS, target)
      else Some (0, target @ map (\<lambda>token. word_of_int (atol token)) (strtok_on (CHR '','') (c_str val))))"

text \<open>\<open>atof\<close> of the null pointer \<open>strtok_r\<close> returns for a token of commas is undefined.\<close>

fun push_pairs :: "string list \<Rightarrow> (rat \<times> rat) list \<Rightarrow> (int \<times> (rat \<times> rat) list) option" where
  "push_pairs [] target = Some (0, target)"
| "push_pairs (token # tokens) target =
     (case strtok_on (CHR '','') token of
        [] \<Rightarrow> None
      | [first] \<Rightarrow> Some (- 1, target)
      | first # second # _ \<Rightarrow> push_pairs tokens (target @ [(atof_float first, atof_float second)]))"

definition parse_pair_vector :: "nat \<Rightarrow> string \<Rightarrow> (rat \<times> rat) list \<Rightarrow> (int \<times> (rat \<times> rat) list) option" where
  "parse_pair_vector storage_len val target =
     (if val = [] then None else if storage_len < 24 then Some (- ENOBUFS, target)
      else push_pairs (strtok_on (CHR '';'') (c_str val)) target)"

definition parse_i :: "nat \<Rightarrow> string \<Rightarrow> int \<Rightarrow> (int \<times> int) option" where
  "parse_i storage_len val storage =
     (if val = [] then None else if storage_len < 4 then Some (- ENOBUFS, storage)
      else Some (case safe_atoi (c_str val) of Inl e \<Rightarrow> (e, storage) | Inr v \<Rightarrow> (0, v)))"

definition parse_ul :: "nat \<Rightarrow> string \<Rightarrow> u64 \<Rightarrow> (int \<times> u64) option" where
  "parse_ul storage_len val storage =
     (if val = [] then None else if storage_len < 8 then Some (- ENOBUFS, storage)
      else Some (case safe_atoul (c_str val) of Inl e \<Rightarrow> (e, storage) | Inr v \<Rightarrow> (0, v)))"

definition parse_ull :: "nat \<Rightarrow> string \<Rightarrow> u64 \<Rightarrow> (int \<times> u64) option" where
  "parse_ull storage_len val storage =
     (if val = [] then None else if storage_len < 8 then Some (- ENOBUFS, storage)
      else Some (case safe_atoull (c_str val) of Inl e \<Rightarrow> (e, storage) | Inr v \<Rightarrow> (0, v)))"

definition parse_bool :: "nat \<Rightarrow> string \<Rightarrow> bool \<Rightarrow> (int \<times> bool) option" where
  "parse_bool storage_len val target =
     (if val = [] then None else if storage_len < 1 then Some (- ENOBUFS, target)
      else if memcaseeq ''true'' val then Some (0, True)
      else if memcaseeq ''false'' val then Some (0, False)
      else case parse_i 4 val 0 of
             None \<Rightarrow> None
           | Some (ret, ival) \<Rightarrow> if ret < 0 then Some (ret, target) else Some (0, ival \<noteq> 0))"

end
