(* ===== verification/ConfSpec.thy ===== *)
theory ConfSpec
  imports ConfFile
begin

text \<open>
  What the configuration parser promises. The specification keeps a map from section names to
  maps from keys to values, both up to case, and reads a file line by line: a header selects a section,
  an assignment sets an option of it, the first malformed line ends the reading. The linked lists
  of the code, with their section pointer and their updates in place, refine it. The locale
  \<open>config_store\<close> is what the program relies on when it loads several files.
\<close>

section \<open>Specification\<close>

type_synonym name_key = "nat \<times> string"

type_synonym settings = "name_key \<rightharpoonup> (name_key \<rightharpoonup> string)"

definition canon :: "string \<Rightarrow> name_key" where
  "canon s = (length s, map to_lower (c_str s))"

text \<open>What a line says.\<close>

datatype item = Blank | Header string | Assign string string | Malformed

definition header_ok :: "string \<Rightarrow> bool" where
  "header_ok a \<longleftrightarrow> a \<noteq> [] \<and> last a = CHR '']'' \<and> CHR '']'' \<notin> set (butlast a)
     \<and> \<not> is_space (hd (tl a)) \<and> \<not> is_space (last (butlast a)) \<and> spaces_ok False (butlast a)
     \<and> length a - 2 \<le> MAX_SECTION_NAME"

definition line_item :: "string \<Rightarrow> item" where
  "line_item text =
     (let a = trim text; k = position (CHR ''='') a
      in if length text > INT_MAX then Malformed
         else if a = [] \<or> hd a = CHR '';'' \<or> hd a = CHR ''#'' then Blank
         else if hd a = CHR ''['' then (if header_ok a then Header (butlast (tl a)) else Malformed)
         else if CHR ''='' \<in> set a \<and> k \<noteq> 0 \<and> k \<noteq> length a - 1
         then Assign (trim (take k a)) (trim (drop (Suc k) a)) else Malformed)"

definition spec_line :: "item \<Rightarrow> name_key option \<times> settings \<Rightarrow> int + (name_key option \<times> settings)" where
  "spec_line i st =
     (case (i, fst st) of
        (Blank, _) \<Rightarrow> Inr st
      | (Header n, _) \<Rightarrow>
          Inr (Some (canon n), (snd st)(canon n \<mapsto> (case snd st (canon n) of None \<Rightarrow> Map.empty | Some os \<Rightarrow> os)))
      | (Assign k v, Some sn) \<Rightarrow> Inr (Some sn, (snd st)(sn \<mapsto> (the (snd st sn))(canon k \<mapsto> v)))
      | _ \<Rightarrow> Inl (- EINVAL))"

fun spec_lines :: "item list \<Rightarrow> name_key option \<times> settings \<Rightarrow> int \<times> settings" where
  "spec_lines [] st = (0, snd st)"
| "spec_lines (i # is) st = (case spec_line i st of Inl e \<Rightarrow> (e, snd st) | Inr st1 \<Rightarrow> spec_lines is st1)"

definition options_view :: "config list \<Rightarrow> name_key \<rightharpoonup> string" where
  "options_view cs k = map_option cfg_value (find (\<lambda>q. canon (cfg_key q) = k) cs)"

definition conf_view :: "conf \<Rightarrow> settings" where
  "conf_view c sn = map_option (\<lambda>s. options_view (sec_configs s)) (find (\<lambda>s. canon (sec_name s) = sn) (conf_sections c))"

definition trimmed :: "string \<Rightarrow> bool" where
  "trimmed s \<longleftrightarrow> s \<noteq> [] \<and> \<not> is_space (hd s) \<and> \<not> is_space (last s)"

definition config_wf :: "config \<Rightarrow> bool" where
  "config_wf q \<longleftrightarrow> trimmed (cfg_key q) \<and> trimmed (cfg_value q) \<and> CHR ''='' \<notin> set (cfg_key q)"

definition section_wf :: "conf_section \<Rightarrow> bool" where
  "section_wf s \<longleftrightarrow> length (sec_name s) \<le> MAX_SECTION_NAME \<and> (sec_name s \<noteq> [] \<longrightarrow> trimmed (sec_name s))
     \<and> CHR '']'' \<notin> set (sec_name s)
     \<and> list_all config_wf (sec_configs s) \<and> distinct (map (\<lambda>q. canon (cfg_key q)) (sec_configs s))"

definition conf_wf :: "conf \<Rightarrow> bool" where
  "conf_wf c \<longleftrightarrow> map sec_addr (conf_sections c) = rev [0..<length (conf_sections c)]
     \<and> distinct (map (\<lambda>s. canon (sec_name s)) (conf_sections c)) \<and> list_all section_wf (conf_sections c)"

definition refines :: "nat option \<times> conf \<Rightarrow> name_key option \<times> settings \<Rightarrow> bool" where
  "refines sc st \<longleftrightarrow> conf_wf (snd sc) \<and> snd st = conf_view (snd sc)
     \<and> (case fst sc of
          None \<Rightarrow> fst st = None
        | Some a \<Rightarrow> (\<exists>x\<in>set (conf_sections (snd sc)). sec_addr x = a \<and> fst st = Some (canon (sec_name x))))"

definition file_lines :: "string \<Rightarrow> string list" where
  "file_lines t = butlast (split_on LF t)"

type_synonym conf_text = "(string \<times> (string \<times> string) list) list"

definition print_option :: "string \<times> string \<Rightarrow> string" where
  "print_option kv = fst kv @ CHR ''='' # snd kv"

definition print_section :: "string \<times> (string \<times> string) list \<Rightarrow> string list" where
  "print_section s = (CHR ''['' # fst s @ [CHR '']'']) # map print_option (snd s)"

definition print_conf :: "conf_text \<Rightarrow> string" where
  "print_conf ss = concat (map (\<lambda>l. l @ [LF]) (concat (map print_section ss)))"

definition option_ok :: "string \<times> string \<Rightarrow> bool" where
  "option_ok kv \<longleftrightarrow> trimmed (fst kv) \<and> trimmed (snd kv) \<and> CHR ''='' \<notin> set (fst kv)
     \<and> LF \<notin> set (fst kv) \<and> LF \<notin> set (snd kv) \<and> hd (fst kv) \<notin> {CHR ''['', CHR '';'', CHR ''#''}
     \<and> length (print_option kv) \<le> INT_MAX"

definition section_ok :: "string \<times> (string \<times> string) list \<Rightarrow> bool" where
  "section_ok s \<longleftrightarrow> trimmed (fst s) \<and> spaces_ok False (fst s) \<and> CHR '']'' \<notin> set (fst s)
     \<and> length (fst s) \<le> MAX_SECTION_NAME \<and> LF \<notin> set (fst s) \<and> list_all option_ok (snd s)"

definition put_options :: "(string \<times> string) list \<Rightarrow> (name_key \<rightharpoonup> string) \<Rightarrow> name_key \<rightharpoonup> string" where
  "put_options kvs m = fold (\<lambda>kv m. m(canon (fst kv) \<mapsto> snd kv)) kvs m"

definition put_sections :: "conf_text \<Rightarrow> settings \<Rightarrow> settings" where
  "put_sections ss m =
     fold (\<lambda>s m. m(canon (fst s) \<mapsto> put_options (snd s) (case m (canon (fst s)) of None \<Rightarrow> Map.empty | Some m1 \<Rightarrow> m1))) ss m"

inductive conf_reachable :: "conf \<Rightarrow> bool" where
  created: "conf_reachable ConfFile_init"
| parsed: "conf_reachable c \<Longrightarrow> ConfFile_parse filename fs c = (ret, c', fs') \<Longrightarrow> conf_reachable c'"
| released: "conf_reachable c \<Longrightarrow> conf_reachable (release_all c)"

text \<open>Items with commas between them.\<close>

fun join :: "string list \<Rightarrow> string" where
  "join [] = []"
| "join [x] = x"
| "join (x # xs) = x @ CHR '','' # join xs"

section \<open>Names up to case\<close>

lemma to_lower_NUL [simp]: "to_lower NUL = NUL"
  by (simp add: to_lower_def)

lemma to_lower_eq_NUL [simp]: "to_lower c = NUL \<longleftrightarrow> c = NUL"
proof
  assume "to_lower c = NUL"
  then show "c = NUL"
  proof (cases "65 \<le> (of_char c :: nat) \<and> (of_char c :: nat) \<le> 90")
    case True
    with \<open>to_lower c = NUL\<close> have "char_of ((of_char c :: nat) + 32) = NUL" by (simp add: to_lower_def)
    then have "take_bit 8 ((of_char c :: nat) + 32) = 0" by (simp add: char_of_eq_iff)
    moreover have "(of_char c :: nat) + 32 < 256" using True by simp
    ultimately show ?thesis by (simp add: take_bit_eq_mod)
  qed (simp add: to_lower_def)
qed simp

lemma NUL_eq_to_lower [simp]: "NUL = to_lower c \<longleftrightarrow> c = NUL"
  using to_lower_eq_NUL [of c] by metis

lemma strncaseeq_canon:
  "length a = length b \<Longrightarrow> strncaseeq a b \<longleftrightarrow> map to_lower (c_str a) = map to_lower (c_str b)"
proof (induction a b rule: list_induct2)
  case (Cons x xs y ys)
  then show ?case by (cases "x = NUL"; cases "y = NUL") (auto simp: c_str_def)
qed (simp add: c_str_def)

lemma memcaseeq_canon: "memcaseeq a b \<longleftrightarrow> canon a = canon b"
  using strncaseeq_canon [of a b] by (auto simp: memcaseeq_def canon_def)

section \<open>Trim\<close>

lemma dropWhile_id: "xs \<noteq> [] \<Longrightarrow> \<not> P (hd xs) \<Longrightarrow> dropWhile P xs = xs"
  by (cases xs) auto

lemma trim_trimmed: "trim s = [] \<or> trimmed (trim s)"
proof -
  let ?a = "dropWhile is_space s"
  have l: "trim s \<noteq> [] \<Longrightarrow> \<not> is_space (last (trim s))"
    unfolding trim_def by (metis hd_dropWhile last_rev rev_is_Nil_conv)
  have "trim s \<noteq> [] \<Longrightarrow> hd (trim s) = hd ?a \<and> ?a \<noteq> []"
  proof -
    assume ne: "trim s \<noteq> []"
    have "?a = trim s @ rev (takeWhile is_space (rev ?a))"
      unfolding trim_def by (metis rev_append rev_rev_ident takeWhile_dropWhile_id)
    then show ?thesis using ne by (metis Nil_is_append_conv hd_append2)
  qed
  moreover have "?a \<noteq> [] \<Longrightarrow> \<not> is_space (hd ?a)" by (rule hd_dropWhile)
  ultimately show ?thesis using l unfolding trimmed_def by metis
qed

lemma trim_id: "trimmed s \<Longrightarrow> trim s = s"
  by (simp add: trim_def trimmed_def dropWhile_id hd_rev)

lemma set_trim: "set (trim s) \<subseteq> set s"
  unfolding trim_def by (metis set_dropWhileD set_rev subsetI)

lemma trim_nonempty: "x \<in> set s \<Longrightarrow> \<not> is_space x \<Longrightarrow> trim s \<noteq> []"
  by (auto simp: trim_def dropWhile_eq_Nil_conv set_dropWhileD)
    (metis UnE set_append takeWhile_dropWhile_id set_takeWhileD)

section \<open>Lists of options\<close>

lemma find_config_canon: "find_config k cs = find (\<lambda>q. canon (cfg_key q) = canon k) cs"
  by (simp add: find_config_def memcaseeq_canon eq_commute)

lemma find_section_canon: "find_section n c = find (\<lambda>s. canon (sec_name s) = canon n) (conf_sections c)"
  by (simp add: find_section_def memcaseeq_canon eq_commute)

lemma find_None_map: "find (\<lambda>x. f x = k) xs = None \<longleftrightarrow> k \<notin> f ` set xs"
  by (auto simp: find_None_iff)

lemma find_distinct:
  "distinct (map f xs) \<Longrightarrow> x \<in> set xs \<Longrightarrow> find (\<lambda>y. f y = f x) xs = Some x"
  by (induction xs) auto

lemma set_config_keys: "map (\<lambda>q. canon (cfg_key q)) (set_config n cs) = map (\<lambda>q. canon (cfg_key q)) cs"
  by (induction n cs rule: set_config.induct) auto

lemma options_view_set:
  "find (\<lambda>q. canon (cfg_key q) = canon (cfg_key n)) cs \<noteq> None \<Longrightarrow>
   options_view (set_config n cs) = (options_view cs)(canon (cfg_key n) \<mapsto> cfg_value n)"
  by (induction n cs rule: set_config.induct)
    (auto simp: options_view_def memcaseeq_canon fun_eq_iff split: if_splits)

lemma options_view_put: "options_view (put_config n cs) = (options_view cs)(canon (cfg_key n) \<mapsto> cfg_value n)"
proof (cases "find (\<lambda>q. canon (cfg_key q) = canon (cfg_key n)) cs")
  case None
  then show ?thesis by (auto simp: put_config_def find_config_canon options_view_def fun_eq_iff)
next
  case (Some a)
  then show ?thesis by (simp add: put_config_def find_config_canon options_view_set)
qed

lemma list_all_set_config: "config_wf n \<Longrightarrow> list_all config_wf cs \<Longrightarrow> list_all config_wf (set_config n cs)"
  by (induction n cs rule: set_config.induct) (auto simp: config_wf_def)

lemma put_config_wf:
  assumes "config_wf n" "list_all config_wf cs" "distinct (map (\<lambda>q. canon (cfg_key q)) cs)"
  shows "list_all config_wf (put_config n cs)" "distinct (map (\<lambda>q. canon (cfg_key q)) (put_config n cs))"
  using assms by (auto simp: put_config_def find_config_canon set_config_keys list_all_set_config find_None_map
      split: option.split)

section \<open>One line\<close>

lemma conf_wf_init: "conf_wf ConfFile_init"
  by (simp add: conf_wf_def ConfFile_init_def)

text \<open>The header branch.\<close>

lemma position_last:
  assumes "c \<in> set a" "\<not> position c a < length a - 1"
  shows "last a = c" "c \<notin> set (butlast a)" "position c a = length a - 1"
proof -
  have t: "takeWhile (\<lambda>x. x \<noteq> c) a @ dropWhile (\<lambda>x. x \<noteq> c) a = a" by simp
  have d: "dropWhile (\<lambda>x. x \<noteq> c) a \<noteq> []" using assms(1) by (simp add: dropWhile_eq_Nil_conv)
  have "length (takeWhile (\<lambda>x. x \<noteq> c) a) + length (dropWhile (\<lambda>x. x \<noteq> c) a) = length a"
    by (metis length_append t)
  moreover have "length (dropWhile (\<lambda>x. x \<noteq> c) a) \<noteq> 0" using d by simp
  ultimately have "length (dropWhile (\<lambda>x. x \<noteq> c) a) = 1" using assms(2) unfolding position_def by linarith
  then obtain x where x: "dropWhile (\<lambda>x. x \<noteq> c) a = [x]" by (metis One_nat_def length_0_conv length_Suc_conv)
  then have "x = c" using hd_dropWhile [OF d] by simp
  with x t have a: "a = takeWhile (\<lambda>x. x \<noteq> c) a @ [c]" by simp
  show "last a = c" by (subst a) simp
  show "c \<notin> set (butlast a)" by (subst a) (auto dest: set_takeWhileD)
  show "position c a = length a - 1" unfolding position_def by (metis a diff_Suc_1 length_append_singleton)
qed

lemma second_and_last_but_one:
  assumes "butlast a \<noteq> []"
  shows "a ! 1 = hd (tl a)" "a ! (length a - 1 - 1) = last (butlast a)"
proof -
  obtain x y ys where a: "a = x # y # ys" using assms by (metis butlast.simps(1) butlast.simps(2) list.exhaust)
  then show "a ! 1 = hd (tl a)" by simp
  have "length a - 1 - 1 < length (butlast a)" using a by simp
  then have "a ! (length a - 1 - 1) = butlast a ! (length a - 1 - 1)" by (simp add: nth_butlast)
  then show "a ! (length a - 1 - 1) = last (butlast a)"
    using assms by (simp add: last_conv_nth)
qed

lemma header_conditions:
  assumes "a \<noteq> []" "hd a = CHR ''[''"
  shows "header_ok a \<longleftrightarrow> CHR '']'' \<in> set a \<and> \<not> position (CHR '']'') a < length a - 1
     \<and> \<not> (is_space (a ! (position (CHR '']'') a - 1)) \<or> is_space (a ! 1))
     \<and> spaces_ok False (take (position (CHR '']'') a) a) \<and> \<not> length a - 2 > MAX_SECTION_NAME"
    (is "_ \<longleftrightarrow> ?R")
proof
  assume h: "header_ok a"
  then have a: "a = butlast a @ [CHR '']'']" using assms(1) by (metis append_butlast_last_id header_ok_def)
  have p: "position (CHR '']'') a = length a - 1"
  proof -
    have "takeWhile (\<lambda>x. x \<noteq> CHR '']'') (butlast a @ [CHR '']'']) = butlast a"
      using h by (subst takeWhile_append2) (auto simp: header_ok_def)
    then show ?thesis using a unfolding position_def by (metis length_butlast)
  qed
  have "a \<noteq> [CHR '']'']" using assms by auto
  then have b: "butlast a \<noteq> []" using a by auto
  note sl = second_and_last_but_one [OF b]
  have "CHR '']'' \<in> set a" using h assms(1) by (metis header_ok_def last_in_set)
  then show ?R using h p sl by (auto simp: header_ok_def butlast_conv_take assms)
next
  assume r: ?R
  then have p: "last a = CHR '']''" "CHR '']'' \<notin> set (butlast a)" "position (CHR '']'') a = length a - 1"
    using position_last by blast+
  have b: "butlast a \<noteq> []" using p(1) assms by (cases a) auto
  note sl = second_and_last_but_one [OF b]
  show "header_ok a" using r p sl assms by (auto simp: header_ok_def butlast_conv_take)
qed

lemma name_of_header:
  assumes "a \<noteq> []" "header_ok a" "hd a = CHR ''[''"
  shows "take (length a - 2) (drop 1 a) = butlast (tl a)"
    and "length (butlast (tl a)) \<le> MAX_SECTION_NAME" "CHR '']'' \<notin> set (butlast (tl a))"
    and "butlast (tl a) \<noteq> [] \<longrightarrow> trimmed (butlast (tl a))"
proof -
  obtain y where a: "a = CHR ''['' # y" "y \<noteq> []" using assms by (cases a) (auto simp: header_ok_def split: if_splits)
  show "take (length a - 2) (drop 1 a) = butlast (tl a)" by (simp add: butlast_conv_take drop_Suc numeral_2_eq_2)
  show "length (butlast (tl a)) \<le> MAX_SECTION_NAME" "CHR '']'' \<notin> set (butlast (tl a))"
    using assms a by (auto simp: header_ok_def)
  show "butlast (tl a) \<noteq> [] \<longrightarrow> trimmed (butlast (tl a))"
  proof
    assume b: "butlast (tl a) \<noteq> []"
    then have "hd (butlast y) = hd y" using a by (cases y) (auto split: if_splits)
    then show "trimmed (butlast (tl a))" using assms a b by (auto simp: trimmed_def header_ok_def)
  qed
qed

lemma add_section_eq:
  assumes "conf_wf c" "a \<noteq> []" "hd a = CHR ''[''"
  shows "add_section a c =
    (if \<not> header_ok a then (None, c)
     else case find (\<lambda>s. canon (sec_name s) = canon (butlast (tl a))) (conf_sections c) of
            Some s \<Rightarrow> (Some (sec_addr s), c)
          | None \<Rightarrow> (Some (length (conf_sections c)),
                c\<lparr>conf_sections := \<lparr>sec_addr = length (conf_sections c), sec_name = butlast (tl a), sec_configs = []\<rparr> # conf_sections c\<rparr>))"
proof -
  have n: "take (length a - 2) (drop (Suc 0) a) = butlast (tl a)" by (simp add: butlast_conv_take drop_Suc numeral_2_eq_2)
  have long: "find (\<lambda>s. canon (sec_name s) = canon (butlast (tl a))) (conf_sections c) = None"
    if "length a - 2 > MAX_SECTION_NAME"
  proof -
    have "length (sec_name s) \<le> MAX_SECTION_NAME" if "s \<in> set (conf_sections c)" for s
      using that assms(1) by (simp add: conf_wf_def list_all_iff section_wf_def)
    moreover have "length (butlast (tl a)) > MAX_SECTION_NAME" using that by simp
    ultimately show ?thesis by (fastforce simp: find_None_iff canon_def)
  qed
  show ?thesis
    using header_conditions [OF assms(2,3)] long
    by (auto simp: add_section_def Let_def n find_section_canon split: option.split)
qed

lemma refines_header:
  assumes r: "refines (s, c) (sn, m)" and h: "header_ok a" "a \<noteq> []" "hd a = CHR ''[''"
  shows "\<exists>p c1. add_section a c = (Some p, c1) \<and>
     refines (Some p, c1) (Some (canon (butlast (tl a))),
       m(canon (butlast (tl a)) \<mapsto> (case m (canon (butlast (tl a))) of None \<Rightarrow> Map.empty | Some os \<Rightarrow> os)))"
proof -
  let ?n = "butlast (tl a)"
  have wf: "conf_wf c" and m: "m = conf_view c" using r by (auto simp: refines_def)
  show ?thesis
  proof (cases "find (\<lambda>s. canon (sec_name s) = canon ?n) (conf_sections c)")
    case (Some x)
    then have "x \<in> set (conf_sections c)" "canon (sec_name x) = canon ?n"
      by (auto simp: find_Some_iff)
    moreover have "m(canon ?n \<mapsto> (case m (canon ?n) of None \<Rightarrow> Map.empty | Some os \<Rightarrow> os)) = m"
      using Some by (auto simp: m conf_view_def fun_eq_iff)
    ultimately show ?thesis using Some h wf m
      by (auto simp: add_section_eq refines_def)
  next
    case None
    let ?x = "\<lparr>sec_addr = length (conf_sections c), sec_name = ?n, sec_configs = []\<rparr>"
    have "conf_wf (c\<lparr>conf_sections := ?x # conf_sections c\<rparr>)"
      using wf None name_of_header [OF h(2,1,3)] by (auto simp: conf_wf_def section_wf_def find_None_iff)
    moreover have "conf_view (c\<lparr>conf_sections := ?x # conf_sections c\<rparr>) =
        m(canon ?n \<mapsto> (case m (canon ?n) of None \<Rightarrow> Map.empty | Some os \<Rightarrow> os))"
      using None by (auto simp: m conf_view_def options_view_def fun_eq_iff)
    ultimately show ?thesis using None h wf
      by (auto simp: add_section_eq refines_def)
  qed
qed

lemma map_update_section_keys:
  "map sec_addr (map (\<lambda>x. if sec_addr x = p then x\<lparr>sec_configs := f x\<rparr> else x) ss) = map sec_addr ss"
  "map (\<lambda>x. canon (sec_name x)) (map (\<lambda>x. if sec_addr x = p then x\<lparr>sec_configs := f x\<rparr> else x) ss) = map (\<lambda>x. canon (sec_name x)) ss"
  by (auto simp: comp_def)

lemma find_update_section:
  "find (\<lambda>x. canon (sec_name x) = n) (map (\<lambda>x. if sec_addr x = p then x\<lparr>sec_configs := f x\<rparr> else x) ss) =
   map_option (\<lambda>x. if sec_addr x = p then x\<lparr>sec_configs := f x\<rparr> else x) (find (\<lambda>x. canon (sec_name x) = n) ss)"
  by (induction ss) auto

lemma config_wf_entry:
  assumes "trimmed a" "k = position (CHR ''='') a" "CHR ''='' \<in> set a" "k \<noteq> 0" "k \<noteq> length a - 1"
  shows "config_wf \<lparr>cfg_key = trim (take k a), cfg_value = trim (drop (Suc k) a), cfg_filename = f, cfg_line = l\<rparr>"
proof -
  have tk: "take k a = takeWhile (\<lambda>x. x \<noteq> CHR ''='') a"
    unfolding assms(2) position_def by (metis takeWhile_eq_take)
  have "k \<noteq> length a"
  proof
    assume "k = length a"
    then have "takeWhile (\<lambda>x. x \<noteq> CHR ''='') a = a" using tk by simp
    then show False using assms(3) by auto
  qed
  moreover have "k \<le> length a" using assms(2) by (simp add: position_def length_takeWhile_le)
  ultimately have "k < length a" by simp
  then have "Suc k < length a" using assms(5) by linarith
  then have last: "last a \<in> set (drop (Suc k) a)"
    by (metis drop_eq_Nil2 last_drop last_in_set linorder_not_less)
  have "hd a \<in> set (take k a)" using assms(1,4) by (cases a; cases k) (auto simp: trimmed_def)
  then have "trim (take k a) \<noteq> []" "trim (drop (Suc k) a) \<noteq> []"
    using last assms(1) trim_nonempty unfolding trimmed_def by blast+
  moreover have "CHR ''='' \<notin> set (trim (take k a))" using set_trim [of "take k a"] tk by (auto dest: set_takeWhileD)
  ultimately show ?thesis
    using trim_trimmed [of "take k a"] trim_trimmed [of "drop (Suc k) a"] by (simp add: config_wf_def)
qed

lemma refines_entry:
  assumes r: "refines (Some p, c) (Some sn, m)" and wf: "config_wf new"
  shows "refines (Some p, c\<lparr>conf_sections := map (\<lambda>x. if sec_addr x = p then x\<lparr>sec_configs := put_config new (sec_configs x)\<rparr> else x)
                                       (conf_sections c)\<rparr>)
    (Some sn, m(sn \<mapsto> (the (m sn))(canon (cfg_key new) \<mapsto> cfg_value new)))"
    (is "refines (Some p, ?c1) _")
proof -
  have cw: "conf_wf c" and m: "m = conf_view c" using r by (auto simp: refines_def)
  obtain x where x: "x \<in> set (conf_sections c)" "sec_addr x = p" "sn = canon (sec_name x)"
    using r by (auto simp: refines_def)
  have da: "distinct (map sec_addr (conf_sections c))" using cw by (simp add: conf_wf_def)
  have fx: "find (\<lambda>y. canon (sec_name y) = sn) (conf_sections c) = Some x"
    unfolding x(3) by (rule find_distinct [where f = "\<lambda>s. canon (sec_name s)"]) (use cw x in \<open>simp_all add: conf_wf_def\<close>)
  have other: "sec_addr y \<noteq> p" if "find (\<lambda>y. canon (sec_name y) = n) (conf_sections c) = Some y" "n \<noteq> sn" for y n
    using that x da by (auto simp: find_Some_iff) (metis distinct_map inj_onD nth_mem)
  have "conf_view ?c1 = m(sn \<mapsto> (the (m sn))(canon (cfg_key new) \<mapsto> cfg_value new))"
  proof
    fix n
    show "conf_view ?c1 n = (m(sn \<mapsto> (the (m sn))(canon (cfg_key new) \<mapsto> cfg_value new))) n"
      using fx x other [of n] by (cases "find (\<lambda>y. canon (sec_name y) = n) (conf_sections c)")
        (auto simp: conf_view_def m find_update_section options_view_put)
  qed
  moreover have "conf_wf ?c1"
  proof -
    let ?f = "\<lambda>y. if sec_addr y = p then y\<lparr>sec_configs := put_config new (sec_configs y)\<rparr> else y"
    have "section_wf (?f y)" if "y \<in> set (conf_sections c)" for y
      using that cw wf put_config_wf [OF wf, of "sec_configs y"] by (simp add: conf_wf_def list_all_iff section_wf_def)
    then have "list_all section_wf (map ?f (conf_sections c))" by (force simp only: list_all_iff set_map ball_simps)
    moreover have "conf_sections ?c1 = map ?f (conf_sections c)" by simp
    ultimately show ?thesis using cw unfolding conf_wf_def map_update_section_keys by (simp only: length_map map_update_section_keys)
  qed
  moreover have "x\<lparr>sec_configs := put_config new (sec_configs x)\<rparr> \<in> set (conf_sections ?c1)"
    using x(1,2) by (force simp: image_iff)
  ultimately show ?thesis using x(2,3) unfolding refines_def
    by (simp only: fst_conv snd_conv option.case simp_thms)
      (rule bexI [where x = "x\<lparr>sec_configs := put_config new (sec_configs x)\<rparr>"], simp_all)
qed

text \<open>The loop does what the lines say.\<close>

lemma parse_line_refines:
  assumes "refines (s, c) st"
  shows "case spec_line (line_item l) st of
      Inl e \<Rightarrow> parse_line fname line l s c = (Inl e, c)
    | Inr st1 \<Rightarrow> \<exists>s1 c1. parse_line fname line l s c = (Inr s1, c1) \<and> refines (s1, c1) st1"
proof -
  obtain sn m where st: "st = (sn, m)" by (cases st)
  let ?a = "trim l" and ?k = "position (CHR ''='') (trim l)"
  have s_sn: "s = None \<longleftrightarrow> sn = None" using assms by (auto simp: refines_def st split: option.splits)
  consider "length l > INT_MAX" | "length l \<le> INT_MAX" "?a = [] \<or> hd ?a = CHR '';'' \<or> hd ?a = CHR ''#''"
    | "length l \<le> INT_MAX" "?a \<noteq> []" "hd ?a = CHR ''[''"
    | "length l \<le> INT_MAX" "?a \<noteq> []" "hd ?a \<noteq> CHR ''[''" "hd ?a \<noteq> CHR '';''" "hd ?a \<noteq> CHR ''#''"
    by linarith
  then show ?thesis
  proof cases
    case 1
    then show ?thesis by (simp add: parse_line_def line_item_def spec_line_def)
  next
    case 2
    then show ?thesis using assms by (auto simp: parse_line_def line_item_def spec_line_def Let_def)
  next
    case 3
    have "conf_wf c" using assms by (simp add: refines_def)
    with 3 show ?thesis using refines_header [of s c sn m ?a] assms
      by (cases "header_ok ?a") (auto simp: parse_line_def line_item_def spec_line_def st add_section_eq)
  next
    case 4
    show ?thesis
    proof (cases "CHR ''='' \<in> set ?a \<and> ?k \<noteq> 0 \<and> ?k \<noteq> length ?a - 1")
      case False
      then show ?thesis using 4 by (auto simp: parse_line_def line_item_def spec_line_def add_config_def st Let_def split: option.split)
    next
      case True
      then have wf: "config_wf \<lparr>cfg_key = trim (take ?k ?a), cfg_value = trim (drop (Suc ?k) ?a), cfg_filename = fname, cfg_line = line\<rparr>"
        using config_wf_entry trim_trimmed [of l] 4 by blast
      show ?thesis
      proof (cases s)
        case None
        with 4 True s_sn show ?thesis by (simp add: parse_line_def line_item_def spec_line_def st Let_def)
      next
        case (Some p)
        then obtain n where "sn = Some n" using s_sn by auto
        with 4 True Some show ?thesis using refines_entry [OF _ wf, of p c n m] assms
          by (simp add: parse_line_def line_item_def spec_line_def add_config_def st Let_def)
      qed
    qed
  qed
qed

lemma parse_lines_refines:
  assumes "refines (s, c) st"
  shows "fst (parse_lines fname line ls s c) = fst (spec_lines (map line_item ls) st)
    \<and> conf_view (snd (parse_lines fname line ls s c)) = snd (spec_lines (map line_item ls) st)
    \<and> conf_wf (snd (parse_lines fname line ls s c))"
  using assms
proof (induction ls arbitrary: line s c st)
  case Nil
  then show ?case by (simp add: refines_def)
next
  case (Cons l ls)
  show ?case
  proof (cases "spec_line (line_item l) st")
    case (Inl e)
    then show ?thesis using parse_line_refines [OF Cons.prems, where l = l and fname = fname and line = "line + 1"] Cons.prems
      by (simp add: refines_def)
  next
    case (Inr st1)
    then obtain s1 c1 where "parse_line fname (line + 1) l s c = (Inr s1, c1)" "refines (s1, c1) st1"
      using parse_line_refines [OF Cons.prems, where l = l and fname = fname and line = "line + 1"] by auto
    then show ?thesis using Cons.IH [of s1 c1 st1 "line + 1"] Inr by simp
  qed
qed

lemma parse_file_refines:
  assumes "conf_wf c"
  shows "fst (parse_file t fname c) = fst (spec_lines (map line_item (file_lines t)) (None, conf_view c))"
    and "conf_view (snd (parse_file t fname c)) = snd (spec_lines (map line_item (file_lines t)) (None, conf_view c))"
    and "conf_wf (snd (parse_file t fname c))"
  using parse_lines_refines [of None c "(None, conf_view c)" fname 0 "file_lines t"] assms
  by (simp_all add: refines_def parse_file_def file_lines_def)

lemma file_lines_concat:
  "\<forall>l\<in>set ls. LF \<notin> set l \<Longrightarrow> file_lines (concat (map (\<lambda>l. l @ [LF]) ls)) = ls"
  by (induction ls) (auto simp: file_lines_def split_on_append)

lemma position_append: "c \<notin> set k \<Longrightarrow> position c (k @ c # v) = length k"
  by (induction k) (auto simp: position_def)

lemma line_item_option:
  assumes "option_ok kv"
  shows "line_item (print_option kv) = Assign (fst kv) (snd kv)"
proof -
  obtain k v where kv: "kv = (k, v)" by (cases kv)
  let ?l = "print_option kv"
  have l: "?l = k @ CHR ''='' # v" by (simp add: print_option_def kv)
  have ne: "k \<noteq> []" "v \<noteq> []" using assms by (auto simp: option_ok_def trimmed_def kv)
  then have "trimmed (k @ CHR ''='' # v)" using assms by (simp add: option_ok_def trimmed_def kv)
  then have t: "trim ?l = ?l" unfolding l by (rule trim_id)
  have p: "position (CHR ''='') ?l = length k"
    unfolding l using assms by (simp add: position_append option_ok_def kv)
  have o: "trim k = k" "trim v = v" "hd k \<notin> {CHR ''['', CHR '';'', CHR ''#''}" "length (k @ CHR ''='' # v) \<le> INT_MAX"
    using assms l by (simp_all add: option_ok_def kv trim_id print_option_def)
  show ?thesis
    unfolding line_item_def Let_def t p unfolding l using ne o by (simp add: kv)
qed

lemma line_item_section:
  assumes "section_ok s"
  shows "line_item (CHR ''['' # fst s @ [CHR '']'']) = Header (fst s)"
proof -
  let ?l = "CHR ''['' # fst s @ [CHR '']'']"
  have b: "\<not> is_space (CHR ''['')" "\<not> is_space (CHR '']'')" by (simp_all add: is_space_def)
  have ne: "fst s \<noteq> []" using assms by (simp add: section_ok_def trimmed_def)
  have "trimmed ?l" using b by (simp add: trimmed_def)
  then have t: "trim ?l = ?l" by (rule trim_id)
  have "header_ok ?l" using assms b ne by (simp add: header_ok_def section_ok_def trimmed_def butlast_append)
  then show ?thesis using assms by (simp add: line_item_def t Let_def butlast_append section_ok_def)
qed

lemma spec_options:
  "\<forall>kv\<in>set kvs. option_ok kv \<Longrightarrow>
   spec_lines (map (line_item \<circ> print_option) kvs @ rest) (Some n, m(n \<mapsto> os)) =
   spec_lines rest (Some n, m(n \<mapsto> put_options kvs os))"
  by (induction kvs arbitrary: os) (simp_all add: line_item_option spec_line_def put_options_def)

lemma spec_sections:
  "\<forall>s\<in>set ss. section_ok s \<Longrightarrow>
   spec_lines (map line_item (concat (map print_section ss))) (sn, m) = (0, put_sections ss m)"
proof (induction ss arbitrary: sn m)
  case (Cons s ss)
  then have "\<forall>kv\<in>set (snd s). option_ok kv" by (simp add: section_ok_def list_all_iff)
  from spec_options [OF this] Cons show ?case
    by (simp add: print_section_def line_item_section spec_line_def put_sections_def)
qed (simp add: put_sections_def)

lemma conf_wf_files: "conf_wf (c\<lparr>conf_files := f\<rparr>) = conf_wf c"
  by (simp add: conf_wf_def)

lemma ConfFile_parse_conf:
  "fst (snd (ConfFile_parse filename fs c)) = c \<or>
   (\<exists>t f. fst (snd (ConfFile_parse filename fs c)) = snd (parse_file t filename (c\<lparr>conf_files := f\<rparr>)))"
  by (auto simp: ConfFile_parse_def Let_def case_prod_unfold split: sum.split node.split)

lemma conf_reachable_wf: "conf_reachable c \<Longrightarrow> conf_wf c"
proof (induction rule: conf_reachable.induct)
  case (parsed c filename fs ret c' fs')
  then show ?case
    using ConfFile_parse_conf [of filename fs c] parse_file_refines(3) [of "c\<lparr>conf_files := _\<rparr>"]
    by (auto simp: conf_wf_files)
next
  case (released c)
  then show ?case by (simp add: release_all_def conf_wf_def)
qed (rule conf_wf_init)

text \<open>Extraction.\<close>

lemma find_config_wf: "section_wf s \<Longrightarrow> find_config k (sec_configs s) = Some q \<Longrightarrow> cfg_value q \<noteq> []"
  by (auto simp: find_config_def section_wf_def list_all_iff config_wf_def trimmed_def find_Some_iff)

lemma extract_from_section_total:
  assumes "section_wf s" "\<forall>t\<in>set table. \<forall>v d. v \<noteq> [] \<longrightarrow> ot_parser t v d \<noteq> None"
  shows "extract_from_section (sec_configs s) table data \<noteq> None"
  using assms(2)
proof (induction table arbitrary: data)
  case (Cons t table)
  show ?case
  proof (cases "find_config (ot_key t) (sec_configs s)")
    case (Some q)
    with find_config_wf [OF assms(1) Some] Cons obtain r d where "ot_parser t (cfg_value q) data = Some (r, d)"
      by (metis list.set_intros(1) not_None_eq surj_pair)
    then show ?thesis using Some Cons by auto
  qed (use Cons in auto)
qed simp

lemma extract_options_total:
  assumes "conf_wf c" "\<forall>t\<in>set table. \<forall>v d. v \<noteq> [] \<longrightarrow> ot_parser t v d \<noteq> None"
  shows "extract_options n table data c \<noteq> None"
proof (cases "find_section n c")
  case (Some s)
  then have "section_wf s" using assms(1) by (auto simp: find_section_def find_Some_iff conf_wf_def list_all_iff)
  then show ?thesis using Some extract_from_section_total assms(2) by (simp add: extract_options_def)
qed (simp add: extract_options_def)

lemma split_on_join:
  "xs \<noteq> [] \<Longrightarrow> \<forall>x\<in>set xs. CHR '','' \<notin> set x \<Longrightarrow> split_on (CHR '','') (join xs) = xs"
  by (induction xs rule: join.induct) (auto simp: split_on_append)

lemma show_nat_no_char: "\<not> is_digit c \<Longrightarrow> c \<notin> set (show_nat n)"
  using show_nat_digits [of n] by (auto simp: list_all_iff)

lemma join_chars: "set (join xs) \<subseteq> insert (CHR '','') (\<Union> (set ` set xs))"
  by (induction xs rule: join.induct) auto

lemma atol_show_nat: "n < 2 ^ 63 \<Longrightarrow> atol (show_nat n) = int n"
proof -
  assume n: "n < 2 ^ 63"
  obtain c cs where c: "show_nat n = c # cs" "is_digit c"
    using show_nat_digits [of n] by (cases "show_nat n") auto
  have tw: "takeWhile is_digit (show_nat n) = show_nat n" using show_nat_digits [of n] by (simp add: list_all_iff)
  have dw: "dropWhile is_space (show_nat n) = show_nat n" using c by (simp add: not_space_digit)
  have "hd (show_nat n) \<noteq> CHR ''-''" "hd (show_nat n) \<noteq> CHR ''+''" using c by (auto simp: is_digit_def)
  then show ?thesis using n by (simp add: atol_def strtol_def Let_def dw tw)
qed

lemma file_lines_print:
  assumes "\<forall>s\<in>set ss. section_ok s"
  shows "file_lines (print_conf ss) = concat (map print_section ss)"
proof -
  have "\<forall>l\<in>set (concat (map print_section ss)). LF \<notin> set l"
    using assms by (fastforce simp: print_section_def print_option_def section_ok_def option_ok_def list_all_iff)
  then show ?thesis by (simp add: print_conf_def file_lines_concat)
qed

section \<open>Loading several files\<close>

text \<open>Files are loaded one after the other; an error ends the loading.\<close>

fun load_files :: "(string \<Rightarrow> string \<Rightarrow> 'c \<Rightarrow> int \<times> 'c) \<Rightarrow> (string \<times> string) list \<Rightarrow> 'c \<Rightarrow> int \<times> 'c" where
  "load_files load [] c = (0, c)"
| "load_files load ((filename, t) # fs) c =
     (case load t filename c of (r, c1) \<Rightarrow> if r < 0 then (r, c1) else load_files load fs c1)"

locale config_store =
  fixes inv :: "'c \<Rightarrow> bool"
    and view :: "'c \<Rightarrow> settings"
    and load :: "string \<Rightarrow> string \<Rightarrow> 'c \<Rightarrow> int \<times> 'c"
  assumes load_inv: "inv c \<Longrightarrow> inv (snd (load t f c))"
    and load_code: "inv c \<Longrightarrow> fst (load t f c) = fst (spec_lines (map line_item (file_lines t)) (None, view c))"
    and load_view: "inv c \<Longrightarrow> view (snd (load t f c)) = snd (spec_lines (map line_item (file_lines t)) (None, view c))"
begin

lemma load_printed:
  assumes "inv c" "\<forall>s\<in>set ss. section_ok s"
  shows "fst (load (print_conf ss) f c) = 0" "view (snd (load (print_conf ss) f c)) = put_sections ss (view c)"
  using assms by (simp_all add: load_code load_view file_lines_print spec_sections)

lemma load_files_printed:
  assumes "inv c" "\<forall>(f, ss)\<in>set files. \<forall>s\<in>set ss. section_ok s"
  shows "fst (load_files load (map (\<lambda>(f, ss). (f, print_conf ss)) files) c) = 0
    \<and> view (snd (load_files load (map (\<lambda>(f, ss). (f, print_conf ss)) files) c)) = fold put_sections (map snd files) (view c)"
  using assms
proof (induction files arbitrary: c)
  case (Cons x files)
  obtain f ss where x: "x = (f, ss)" by (cases x)
  then have ok: "\<forall>s\<in>set ss. section_ok s" using Cons.prems(2) by auto
  note l = load_printed [OF Cons.prems(1) ok, of f]
  have "inv (snd (load (print_conf ss) f c))" using Cons.prems(1) by (rule load_inv)
  from Cons.IH [OF this] Cons.prems(2) l show ?case by (simp add: x case_prod_unfold)
qed simp

end

interpretation conf: config_store conf_wf conf_view parse_file
  by unfold_locales (simp_all add: parse_file_refines)

section \<open>Properties\<close>

text \<open>C14: parsing a file refines its specification: for every text, the code returned and the options
  found afterwards, under every section and key in any case, are those of reading the text line by
  line into a map of maps.\<close>

theorem parse_refines_settings:
  assumes "conf_wf c"
  shows "fst (parse_file t filename c) = fst (spec_lines (map line_item (file_lines t)) (None, conf_view c))
    \<and> conf_view (snd (parse_file t filename c)) = snd (spec_lines (map line_item (file_lines t)) (None, conf_view c))"
  using parse_file_refines [OF assms] by blast

lemma parse_refines_settings_witness:
  "conf_wf ConfFile_init \<and>
   fst (parse_file (''[a]'' @ [LF] @ ''K = 1'' @ [LF] @ ''bad'' @ [LF] @ ''k=2'' @ [LF]) ''f'' ConfFile_init) = - EINVAL"
proof -
  have "fst (spec_lines (map line_item (file_lines (''[a]'' @ [LF] @ ''K = 1'' @ [LF] @ ''bad'' @ [LF] @ ''k=2'' @ [LF]))) (None, m)) = - EINVAL" for m
    by (simp add: file_lines_def line_item_def trim_def is_space_def header_ok_def position_def spec_line_def)
  then show ?thesis using parse_refines_settings [OF conf_wf_init] conf_wf_init by simp
qed

text \<open>C19: the text of a configuration is parsed back: loading files that were printed from lists of
  sections and options succeeds, and the options found are those of the lists, where later
  options and later files override earlier ones and everything else stays.\<close>

theorem printed_files_load_back:
  assumes "conf_wf c" "\<forall>(f, ss)\<in>set files. \<forall>s\<in>set ss. section_ok s"
  shows "fst (load_files parse_file (map (\<lambda>(f, ss). (f, print_conf ss)) files) c) = 0
    \<and> conf_view (snd (load_files parse_file (map (\<lambda>(f, ss). (f, print_conf ss)) files) c)) =
       fold put_sections (map snd files) (conf_view c)"
  using assms by (rule conf.load_files_printed)

lemma printed_files_load_back_witness:
  "conf_view (snd (load_files parse_file (map (\<lambda>(f, ss). (f, print_conf ss))
      [(''main.conf'', [(''UdpEndpoint a'', [(''Mode'', ''Normal''), (''Port'', ''14550'')])]),
       (''10.conf'', [(''udpendpoint A'', [(''PORT'', ''14560'')])])]) ConfFile_init))
     (canon ''UdpEndpoint a'') = Some [canon ''Mode'' \<mapsto> ''Normal'', canon ''Port'' \<mapsto> ''14560'']"
proof -
  have ok: "\<forall>(f, ss)\<in>set [(''main.conf'', [(''UdpEndpoint a'', [(''Mode'', ''Normal''), (''Port'', ''14550'')])]),
       (''10.conf'', [(''udpendpoint A'', [(''PORT'', ''14560'')])])]. \<forall>s\<in>set ss. section_ok s"
    by (simp add: section_ok_def option_ok_def trimmed_def is_space_def print_option_def)
  have "canon ''udpendpoint A'' = canon ''UdpEndpoint a''" "canon ''PORT'' = canon ''Port''" "canon ''Mode'' \<noteq> canon ''Port''"
    by code_simp+
  then show ?thesis
    using printed_files_load_back [OF conf_wf_init ok]
    by (simp add: put_sections_def put_options_def conf_view_def ConfFile_init_def)
qed

text \<open>C27: the data structure is well-formed in every state files can bring it to, whatever they contain: section
  names and keys are pairwise different up to case, names fit their limit, and keys and values are
  not empty and have no blanks around them.\<close>

theorem conf_type_invariant: "conf_reachable c \<Longrightarrow> conf_wf c"
  by (rule conf_reachable_wf)

lemma conf_type_invariant_witness:
  "conf_wf (fst (snd (ConfFile_parse ''f'' ex_fs ConfFile_init)))"
proof -
  obtain r c fs where p: "ConfFile_parse ''f'' ex_fs ConfFile_init = (r, c, fs)" by (rule prod_cases3)
  then show ?thesis using conf_type_invariant [OF conf_reachable.parsed [OF conf_reachable.created p]] by simp
qed

text \<open>A list of message ids in decimal notation, separated by commas, is read back as the list and
  appended to what the vector holds.\<close>

lemma id_list_roundtrip:
  assumes "ids \<noteq> []"
  shows "parse_uint32_vector 24 (join (map (show_nat \<circ> unat) ids)) target = Some (0, target @ ids)"
proof -
  define ts where "ts = map (show_nat \<circ> unat) ids"
  have d: "\<not> is_digit (CHR '','')" "\<not> is_digit NUL" by (simp_all add: is_digit_def)
  then have "\<forall>x\<in>set ts. CHR '','' \<notin> set x" by (auto simp: ts_def dest: show_nat_no_char)
  then have sp: "split_on (CHR '','') (join ts) = ts" using assms by (intro split_on_join) (auto simp: ts_def)
  have "NUL \<notin> set (join ts)" using join_chars [of ts] d(2) show_nat_no_char by (fastforce simp: ts_def)
  then have cs: "c_str (join ts) = join ts" by (auto simp: c_str_def)
  have ne: "join ts \<noteq> []" using sp assms by (auto simp: ts_def)
  have "atol (show_nat (unat i)) = uint i" for i :: u32
  proof -
    have "unat i < 2 ^ 32" using unsigned_less [of i] by simp
    then show ?thesis by (subst atol_show_nat) auto
  qed
  then have "map (\<lambda>t. word_of_int (atol t)) ts = ids" by (simp add: ts_def map_idI)
  moreover have "filter (\<lambda>t. t \<noteq> []) ts = ts" by (auto simp: ts_def filter_id_conv)
  ultimately show ?thesis unfolding ts_def [symmetric] using ne by (simp add: parse_uint32_vector_def cs strtok_on_def sp)
qed

lemma id_list_roundtrip_witness:
  "parse_uint32_vector 24 (join (map (show_nat \<circ> unat) [0, 4294967295 :: u32])) [33] = Some (0, [33, 0, 4294967295])"
  using id_list_roundtrip [of "[0, 4294967295]" "[33]"] by simp

text \<open>A section whose name has exactly the longest length the parser accepts makes the search for
  sections write behind the end of its buffer.\<close>

lemma longest_name_overflows:
  assumes "length (sec_name s) = MAX_SECTION_NAME" "s \<in> set (conf_sections c)" "\<forall>x\<in>set (conf_sections c). \<not> fnmatch pattern (c_str (sec_name x))"
  shows "get_sections pattern \<lparr>iter_name = [], iter_ptr = None\<rparr> c = None"
proof -
  have "search_sections pattern ss = None" if "s \<in> set ss" "\<forall>x\<in>set ss. \<not> fnmatch pattern (c_str (sec_name x))" for ss
    using that assms(1) by (induction ss) auto
  then show ?thesis using assms(2,3) by (simp add: get_sections_def)
qed

end
