(* ===== verification/Links.thy ===== *)
theory Links
  imports Transport
begin

text \<open>
  The contract of a link. Whatever sequence of writes and flushes the router makes, the bytes
  the kernel took followed by the bytes still in the transmit buffer are the bytes that were
  there before followed by the accepted messages, whole and in order, as long as the kernel
  refuses bytes only temporarily. The contract is the locale \<open>transport\<close>; UART, UDP, TCP and
  the virtual calls are interpretations of it.
\<close>

section \<open>Lemmas: the transmit buffer\<close>

definition tx_inv :: "endpoint \<Rightarrow> bool" where
  "tx_inv e \<longleftrightarrow> length (tx_data e) = TX_BUF_MAX_SIZE \<and> tx_len e \<le> TX_BUF_MAX_SIZE"

lemma tx_bytes_append:
  "tx_inv e \<Longrightarrow> tx_len e + length bs \<le> TX_BUF_MAX_SIZE \<Longrightarrow> tx_bytes (tx_append bs e) = tx_bytes e @ bs"
  by (simp add: tx_inv_def tx_append_def tx_bytes_def mem_simps)

lemma tx_inv_append:
  "tx_inv e \<Longrightarrow> tx_len e + length bs \<le> TX_BUF_MAX_SIZE \<Longrightarrow> tx_inv (tx_append bs e)"
  by (simp add: tx_inv_def tx_append_def mem_simps)

lemma memmove_down_0 [simp]: "memmove_down d k 0 = d"
  by (simp add: memmove_down_def memwrite_def memread_def)

lemma tx_len_consume [simp]: "tx_len (tx_consume r e) = tx_len e - r"
  by (simp add: tx_consume_def Let_def nat_diff_distrib' max_def)

lemma tx_data_consume: "tx_data (tx_consume r e) = memmove_down (tx_data e) r (tx_len e - r)"
  by (simp add: tx_consume_def Let_def nat_diff_distrib' max_def)

lemma tx_bytes_consume: "tx_inv e \<Longrightarrow> tx_bytes (tx_consume r e) = drop r (tx_bytes e)"
proof (cases "r \<le> tx_len e")
  case True
  assume "tx_inv e"
  with True show ?thesis
    by (simp add: tx_bytes_def tx_data_consume tx_inv_def mem_simps)
qed (simp add: tx_bytes_def tx_inv_def)

lemma tx_inv_consume: "tx_inv e \<Longrightarrow> tx_inv (tx_consume r e)"
  by (cases "r \<le> tx_len e") (auto simp: tx_inv_def tx_data_consume mem_simps)

lemma tx_frame [simp]:
  "tx_bytes (count_written r n e) = tx_bytes e" "tx_inv (count_written r n e) = tx_inv e"
  "tx_len (count_written r n e) = tx_len e"
  "tx_bytes (e\<lparr>net := x\<rparr>) = tx_bytes e" "tx_inv (e\<lparr>net := x\<rparr>) = tx_inv e"
  "tx_bytes (e\<lparr>tcp := y\<rparr>) = tx_bytes e" "tx_inv (e\<lparr>tcp := y\<rparr>) = tx_inv e"
  "tx_bytes (e\<lparr>tx_len := 0\<rparr>) = []"
  by (simp_all add: tx_bytes_def tx_inv_def count_written_def)

lemma tx_inv_clear [intro]: "tx_inv e \<Longrightarrow> tx_inv (e\<lparr>tx_len := 0\<rparr>)"
  by (simp add: tx_inv_def)

definition same_link :: "endpoint \<Rightarrow> endpoint \<Rightarrow> bool" where
  "same_link e e' \<longleftrightarrow> ep_id e' = ep_id e \<and> ep_type e' = ep_type e \<and> ep_fd e' = ep_fd e \<and>
     has_peer e' = has_peer e \<and> coalesce_bytes (net e') = coalesce_bytes (net e) \<and>
     coalesce_ms (net e') = coalesce_ms (net e) \<and> coalesce_nodelay (net e') = coalesce_nodelay (net e)"

lemma same_link_steps [simp]:
  "same_link e e" "same_link e (tx_append bs e)" "same_link e (tx_consume r e)"
  "same_link e (count_written r n e)" "same_link e (e\<lparr>tx_len := 0\<rparr>)"
  "same_link e (fst (unschedule_write e w))" "same_link e (fst (schedule_write e w))"
  by (simp_all add: same_link_def tx_append_def tx_consume_def count_written_def has_peer_def
      unschedule_write_def schedule_write_def Let_def)

lemma same_link_trans [trans]: "same_link e e1 \<Longrightarrow> same_link e1 e2 \<Longrightarrow> same_link e e2"
  by (simp add: same_link_def)

lemma same_link_ep_fd: "same_link e e' \<Longrightarrow> ep_fd e' = ep_fd e"
  and same_link_has_peer: "same_link e e' \<Longrightarrow> has_peer e' = has_peer e"
  and same_link_ep_type: "same_link e e' \<Longrightarrow> ep_type e' = ep_type e"
  by (simp_all add: same_link_def)

text \<open>The kernel refuses bytes only temporarily.\<close>

definition lossless :: "world \<Rightarrow> bool" where
  "lossless w \<longleftrightarrow> (\<forall>k. case w_snd w k of SndOk _ \<Rightarrow> True | SndErr x \<Rightarrow> x = EAGAIN)"

text \<open>What was and will be sent on the link: the bytes the kernel took and those waiting.\<close>

definition stream :: "endpoint \<Rightarrow> world \<Rightarrow> bytes" where
  "stream e w = wire_of (ep_fd e) w @ tx_bytes e"

lemma sys_send_stream:
  assumes "tx_inv e" "sys_send (ep_fd e) (tx_bytes e) w = (SndOk r, w')"
  shows "stream (tx_consume r (count_written r n e)) w' = stream e w"
proof -
  have "ep_fd (tx_consume r (count_written r n e)) = ep_fd e"
    by (simp add: tx_consume_def count_written_def Let_def)
  then show ?thesis
    using assms sys_send_wire(1) [OF assms(2)] by (simp add: stream_def tx_bytes_consume)
qed

lemma sys_send_lossless:
  assumes "sys_send fd bs w = (SndErr x, w')" "lossless w"
  shows "x = EAGAIN" "wire_of fd w' = wire_of fd w"
proof -
  have "w_snd w (w_sndtick w) = SndErr x"
    using sys_send_wire(3) [OF assms(1)] by simp
  then show "x = EAGAIN"
    using assms(2) unfolding lossless_def by (metis (full_types) snd_res.simps(6))
  show "wire_of fd w' = wire_of fd w"
    using sys_send_wire(1) [OF assms(1)] by simp
qed

lemma lossless_frame [simp]: "lossless (mod_timeout t ms w) = lossless w"
  by (simp add: lossless_def)

lemma lossless_sys_send: "sys_send fd bs w = (res, w') \<Longrightarrow> lossless w' = lossless w"
  using sys_send_frame(4) by (simp add: lossless_def)


section \<open>The contract of a link\<close>

datatype link_op = LFlush | LWrite buffer

text \<open>A sequence of flushes and writes; the result lists the messages the link took.\<close>

fun run_link ::
  "(endpoint \<Rightarrow> world \<Rightarrow> int \<times> endpoint \<times> world) \<Rightarrow> (endpoint \<Rightarrow> buffer \<Rightarrow> world \<Rightarrow> int \<times> endpoint \<times> world)
   \<Rightarrow> link_op list \<Rightarrow> endpoint \<Rightarrow> world \<Rightarrow> buffer list \<times> endpoint \<times> world" where
  "run_link flush wr [] e w = ([], e, w)"
| "run_link flush wr (LFlush # ops) e w =
     (let (r, e1, w1) = flush e w in run_link flush wr ops e1 w1)"
| "run_link flush wr (LWrite b # ops) e w =
     (let (r, e1, w1) = wr e b w; (bs, s) = run_link flush wr ops e1 w1
      in (if r = - ENOBUFS then bs else b # bs, s))"

definition link_state :: "(endpoint \<Rightarrow> bool) \<Rightarrow> endpoint \<Rightarrow> world \<Rightarrow> bool" where
  "link_state ready e w \<longleftrightarrow> ready e \<and> tx_inv e \<and> lossless w"

locale transport =
  fixes flush :: "endpoint \<Rightarrow> world \<Rightarrow> int \<times> endpoint \<times> world"
    and wr :: "endpoint \<Rightarrow> buffer \<Rightarrow> world \<Rightarrow> int \<times> endpoint \<times> world"
    and ready :: "endpoint \<Rightarrow> bool"
  assumes flush_law:
    "link_state ready e w \<Longrightarrow> flush e w = (r, e', w') \<Longrightarrow>
     link_state ready e' w' \<and> same_link e e' \<and> stream e' w' = stream e w \<and> r \<noteq> - ENOBUFS"
    and write_law:
    "link_state ready e w \<Longrightarrow> wr e b w = (r, e', w') \<Longrightarrow>
     link_state ready e' w' \<and> same_link e e' \<and>
     stream e' w' = stream e w @ (if r = - ENOBUFS then [] else b_data b)"
begin

lemma run_stream:
  assumes "link_state ready e w" "run_link flush wr ops e w = (bs, e', w')"
  shows "link_state ready e' w' \<and> same_link e e' \<and> stream e' w' = stream e w @ concat (map b_data bs)"
  using assms
proof (induction ops arbitrary: e w bs)
  case Nil
  then show ?case by simp
next
  case (Cons x ops)
  show ?case
  proof (cases x)
    case LFlush
    obtain r e1 w1 where f: "flush e w = (r, e1, w1)" by (metis prod_cases3)
    then have "run_link flush wr ops e1 w1 = (bs, e', w')" using Cons.prems(2) LFlush by simp
    from Cons.IH [OF _ this] flush_law [OF Cons.prems(1) f] show ?thesis
      using same_link_trans by auto
  next
    case (LWrite b)
    obtain r e1 w1 where f: "wr e b w = (r, e1, w1)" by (metis prod_cases3)
    then obtain bs1 where rest: "run_link flush wr ops e1 w1 = (bs1, e', w')"
      and bs: "bs = (if r = - ENOBUFS then bs1 else b # bs1)"
      using Cons.prems(2) LWrite by (auto split: prod.splits)
    from Cons.IH [OF _ rest] write_law [OF Cons.prems(1) f] show ?thesis
      using same_link_trans bs by auto
  qed
qed

end

section \<open>The links satisfy it\<close>

definition fd_open :: "endpoint \<Rightarrow> bool" where
  "fd_open e \<longleftrightarrow> ep_fd e \<ge> 0"

definition udp_ready :: "endpoint \<Rightarrow> bool" where
  "udp_ready e \<longleftrightarrow> ep_fd e \<ge> 0 \<and> has_peer e"

lemma ready_same_link:
  "same_link e e' \<Longrightarrow> fd_open e' = fd_open e" "same_link e e' \<Longrightarrow> udp_ready e' = udp_ready e"
  by (simp_all add: same_link_def fd_open_def udp_ready_def)

lemma stream_frame [simp]:
  "stream (count_written r n e) w = stream e w"
  "stream (e\<lparr>net := x\<rparr>) w = stream e w"
  "stream e (mod_timeout t ms w) = stream e w"
  by (simp_all add: stream_def) (simp add: count_written_def)

lemma unschedule_write_frame [simp]:
  "stream (fst (unschedule_write e w)) (snd (unschedule_write e w)) = stream e w"
  "tx_inv (fst (unschedule_write e w)) = tx_inv e"
  "lossless (snd (unschedule_write e w)) = lossless w"
  "stream (fst (schedule_write e w)) (snd (schedule_write e w)) = stream e w"
  "tx_inv (fst (schedule_write e w)) = tx_inv e"
  "lossless (snd (schedule_write e w)) = lossless w"
  by (simp_all add: unschedule_write_def schedule_write_def)

lemma stream_append:
  "tx_inv e \<Longrightarrow> tx_len e + length bs \<le> TX_BUF_MAX_SIZE \<Longrightarrow> stream (tx_append bs e) w = stream e w @ bs"
  by (simp add: stream_def tx_bytes_append) (simp add: tx_append_def)

text \<open>The send every flush makes: on a temporary refusal nothing changes, otherwise the bytes
  the kernel took leave the buffer.\<close>

lemma send_step:
  assumes "tx_inv e" "lossless w" "sys_send (ep_fd e) (tx_bytes e) w = (res, w1)"
  shows "case res of
      SndErr x \<Rightarrow> x = EAGAIN \<and> stream e w1 = stream e w \<and> lossless w1
    | SndOk r \<Rightarrow> tx_inv (tx_consume r (count_written r n e)) \<and> lossless w1 \<and>
                 stream (tx_consume r (count_written r n e)) w1 = stream e w \<and>
                 same_link e (tx_consume r (count_written r n e))"
proof (cases res)
  case (SndOk r)
  have "same_link e (tx_consume r (count_written r n e))"
    by (rule same_link_trans [of _ "count_written r n e"]) simp_all
  then show ?thesis
    using assms SndOk sys_send_stream [of e w r w1] lossless_sys_send [OF assms(3)]
    by (simp add: tx_inv_consume)
next
  case (SndErr x)
  then show ?thesis
    using sys_send_lossless [of "ep_fd e" "tx_bytes e" w x w1] assms lossless_sys_send [OF assms(3)]
    by (simp add: stream_def)
qed

lemma uart_flush_law:
  assumes "link_state fd_open e w" "uart_flush_pending_msgs e w = (r, e', w')"
  shows "link_state fd_open e' w' \<and> same_link e e' \<and> stream e' w' = stream e w \<and> r \<noteq> - ENOBUFS"
proof (cases "tx_len e = 0")
  case True
  then show ?thesis using assms by (auto simp: uart_flush_pending_msgs_def)
next
  case False
  obtain res w1 where s: "sys_send (ep_fd e) (tx_bytes e) w = (res, w1)" by fastforce
  have e: "tx_inv e" "lossless w" "fd_open e" "\<not> ep_fd e < 0"
    using assms(1) by (auto simp: link_state_def fd_open_def)
  show ?thesis
    using assms(2) send_step [OF e(1,2) s, of 0] False e ready_same_link(1)
    by (auto simp: uart_flush_pending_msgs_def s link_state_def split: snd_res.splits if_splits)
qed


lemma uart_write_law:
  assumes "link_state fd_open e w" "uart_write_msg e b w = (r, e', w')"
  shows "link_state fd_open e' w' \<and> same_link e e' \<and>
     stream e' w' = stream e w @ (if r = - ENOBUFS then [] else b_data b)"
proof (cases "tx_len e + b_len b > TX_BUF_MAX_SIZE")
  case True
  then show ?thesis using assms by (auto simp: uart_write_msg_def link_state_def fd_open_def)
next
  case False
  define e0 where "e0 = count_written 0 1 (tx_append (b_data b) e)"
  have st: "link_state fd_open e0 w" "same_link e e0" "stream e0 w = stream e w @ b_data b"
    using False assms(1) same_link_trans [of e "tx_append (b_data b) e" e0] ready_same_link(1) [of e e0]
    by (auto simp: e0_def link_state_def tx_inv_append stream_append)
  obtain r1 e1 w1 where f: "uart_flush_pending_msgs e0 w = (r1, e1, w1)" by (metis prod_cases3)
  have "e' = e1 \<and> w' = w1 \<and> r \<in> {r1, - EAGAIN}"
    using assms False f by (auto simp: uart_write_msg_def e0_def link_state_def fd_open_def split: if_splits)
  then show ?thesis
    using uart_flush_law [OF st(1) f] st same_link_trans [OF st(2), of e1] by auto
qed

interpretation uart_link: transport uart_flush_pending_msgs uart_write_msg fd_open
  by unfold_locales (fact uart_flush_law uart_write_law)+

text \<open>UDP and TCP share the shape of \<open>write_msg\<close>: an early flush when the message would
  exceed the coalescing budget, then the message is appended and either sent or scheduled.\<close>

lemma udp_flush_law:
  assumes "link_state udp_ready e w" "udp_flush_pending_msgs e w = (r, e', w')"
  shows "link_state udp_ready e' w' \<and> same_link e e' \<and> stream e' w' = stream e w \<and> r \<noteq> - ENOBUFS"
proof -
  obtain e0 w0 where u: "unschedule_write e w = (e0, w0)" by fastforce
  have e0: "same_link e e0" "stream e0 w0 = stream e w" "tx_inv e0" "lossless w0" "udp_ready e0"
    using unschedule_write_frame(1-3) [of e w] same_link_steps(6) [of e w] u assms(1)
      ready_same_link(2) [of e e0]
    by (auto simp: link_state_def)
  obtain res w1 where s: "sys_send (ep_fd e0) (tx_bytes e0) w0 = (res, w1)" by fastforce
  have open_fd: "\<not> ep_fd e0 < 0" "has_peer e0" using e0(5) by (auto simp: udp_ready_def)
  note step = send_step [OF e0(3,4) s, of 1]
  show ?thesis
  proof (cases "tx_len e0 = 0 \<or> (\<exists>x. res = SndErr x)")
    case True
    then have "e' = e0 \<and> (w' = w0 \<or> w' = w1 \<and> stream e0 w1 = stream e w \<and> lossless w1) \<and> (r = 0 \<or> r = - EAGAIN)"
      using assms(2) step open_fd e0 by (auto simp: udp_flush_pending_msgs_def u s split: if_splits)
    then show ?thesis using e0 by (auto simp: link_state_def)
  next
    case False
    then obtain n where n: "res = SndOk n" by (cases res) auto
    define e1 where "e1 = tx_consume n (count_written n 1 e0)"
    have "e' = e1 \<and> w' = w1 \<and> r = int n"
      using assms(2) False n open_fd by (simp add: udp_flush_pending_msgs_def u s e1_def)
    moreover have "tx_inv e1" "lossless w1" "stream e1 w1 = stream e w" "same_link e0 e1"
      using step n e0(2) by (simp_all add: e1_def)
    ultimately show ?thesis
      using e0 same_link_trans [OF e0(1), of e1] ready_same_link(2) [of e0 e1] by (simp add: link_state_def)
  qed
qed

lemma tcp_flush_law:
  assumes "link_state fd_open e w" "tcp_flush_pending_msgs e w = (r, e', w')"
  shows "link_state fd_open e' w' \<and> same_link e e' \<and> stream e' w' = stream e w \<and> r \<noteq> - ENOBUFS"
proof -
  obtain e0 w0 where u: "unschedule_write e w = (e0, w0)" by fastforce
  have e0: "same_link e e0" "stream e0 w0 = stream e w" "tx_inv e0" "lossless w0" "fd_open e0"
    using unschedule_write_frame(1-3) [of e w] same_link_steps(6) [of e w] u assms(1)
      ready_same_link(1) [of e e0]
    by (auto simp: link_state_def)
  obtain res w1 where s: "sys_send (ep_fd e0) (tx_bytes e0) w0 = (res, w1)" by fastforce
  have "\<not> ep_fd e0 < 0" using e0(5) by (auto simp: fd_open_def)
  then show ?thesis
    using assms(2) send_step [OF e0(3,4) s, of 1] e0 ready_same_link(1) same_link_trans [OF e0(1)]
    by (auto simp: tcp_flush_pending_msgs_def u s link_state_def split: snd_res.splits if_splits)
qed

text \<open>The common part of the two \<open>write_msg\<close>, for any flush that keeps its law.\<close>

definition net_write_msg ::
  "(endpoint \<Rightarrow> world \<Rightarrow> int \<times> endpoint \<times> world) \<Rightarrow> endpoint \<Rightarrow> buffer \<Rightarrow> world \<Rightarrow> int \<times> endpoint \<times> world" where
  "net_write_msg flush e pbuf w =
     (let (e1, w1) = (if tx_len e > 0 \<and> tx_len e + b_len pbuf > unat (coalesce_bytes (net e))
                      then snd (flush e w) else (e, w))
      in if tx_len e1 + b_len pbuf > TX_BUF_MAX_SIZE then (- ENOBUFS, e1, w1)
         else let e2 = tx_append (b_data pbuf) e1
              in if sends_now e2 pbuf then flush e2 w1
                 else (int (b_len pbuf), schedule_write e2 w1))"

lemma tcp_write_msg_net: "tcp_write_msg = net_write_msg tcp_flush_pending_msgs"
  by (simp add: fun_eq_iff tcp_write_msg_def net_write_msg_def)

lemma udp_write_msg_net: "has_peer e \<Longrightarrow> udp_write_msg e b w = net_write_msg udp_flush_pending_msgs e b w"
  by (simp add: udp_write_msg_def net_write_msg_def)

lemma net_write_law:
  assumes flush: "\<And>e w r e' w'. link_state ready e w \<Longrightarrow> flush e w = (r, e', w') \<Longrightarrow>
      link_state ready e' w' \<and> same_link e e' \<and> stream e' w' = stream e w \<and> r \<noteq> - ENOBUFS"
    and ready: "\<And>e e'. same_link e e' \<Longrightarrow> ready e' = ready e"
    and st: "link_state ready e w" and wr: "net_write_msg flush e b w = (r, e', w')"
  shows "link_state ready e' w' \<and> same_link e e' \<and>
     stream e' w' = stream e w @ (if r = - ENOBUFS then [] else b_data b)"
proof -
  define s1 where "s1 = (if tx_len e > 0 \<and> tx_len e + b_len b > unat (coalesce_bytes (net e))
                      then snd (flush e w) else (e, w))"
  obtain e1 w1 where s1: "s1 = (e1, w1)" by fastforce
  have "snd (flush e w) = (e1, w1) \<or> (e, w) = (e1, w1)" using s1 by (simp add: s1_def split: if_splits)
  then have 1: "link_state ready e1 w1" "same_link e e1" "stream e1 w1 = stream e w"
    using flush [OF st, of "fst (flush e w)" e1 w1] st by (metis prod.collapse prod.inject same_link_steps(1))+
  show ?thesis
  proof (cases "tx_len e1 + b_len b > TX_BUF_MAX_SIZE")
    case True
    then show ?thesis using wr 1 s1 by (auto simp: net_write_msg_def s1_def [symmetric])
  next
    case False
    define e2 where "e2 = tx_append (b_data b) e1"
    have 2: "link_state ready e2 w1" "same_link e e2" "stream e2 w1 = stream e w @ b_data b"
      using False 1 same_link_trans [OF 1(2), of e2] ready [of e1 e2]
      by (auto simp: e2_def link_state_def tx_inv_append stream_append)
    have wr2: "(r, e', w') = (if sends_now e2 b then flush e2 w1 else (int (b_len b), schedule_write e2 w1))"
      using wr False s1 by (simp add: net_write_msg_def s1_def [symmetric] e2_def Let_def split: if_splits)
    show ?thesis
    proof (cases "sends_now e2 b")
      case True
      then show ?thesis using wr2 flush [OF 2(1), of r e' w'] 2 same_link_trans [OF 2(2)] by auto
    next
      case False
      then have "schedule_write e2 w1 = (e', w')" "r = int (b_len b)" using wr2 by auto
      then show ?thesis
        using unschedule_write_frame(4-6) [of e2 w1] same_link_steps(7) [of e2 w1] 2
          same_link_trans [OF 2(2), of e'] ready [of e2 e']
        by (auto simp: link_state_def)
    qed
  qed
qed

lemma tcp_write_law:
  assumes "link_state fd_open e w" "tcp_write_msg e b w = (r, e', w')"
  shows "link_state fd_open e' w' \<and> same_link e e' \<and>
     stream e' w' = stream e w @ (if r = - ENOBUFS then [] else b_data b)"
  using net_write_law [of fd_open tcp_flush_pending_msgs, OF tcp_flush_law ready_same_link(1) assms(1)]
    assms(2) by (simp add: tcp_write_msg_net)

lemma udp_write_law:
  assumes "link_state udp_ready e w" "udp_write_msg e b w = (r, e', w')"
  shows "link_state udp_ready e' w' \<and> same_link e e' \<and>
     stream e' w' = stream e w @ (if r = - ENOBUFS then [] else b_data b)"
proof -
  have "has_peer e" using assms(1) by (simp add: link_state_def udp_ready_def)
  then show ?thesis
    using net_write_law [of udp_ready udp_flush_pending_msgs, OF udp_flush_law ready_same_link(2) assms(1)]
      assms(2) by (simp add: udp_write_msg_net)
qed

interpretation udp_link: transport udp_flush_pending_msgs udp_write_msg udp_ready
  by unfold_locales (fact udp_flush_law udp_write_law)+

interpretation tcp_link: transport tcp_flush_pending_msgs tcp_write_msg fd_open
  by unfold_locales (fact tcp_flush_law tcp_write_law)+

text \<open>The virtual calls, for an endpoint of any type.\<close>

definition link_ready :: "endpoint \<Rightarrow> bool" where
  "link_ready e \<longleftrightarrow> (case ep_type e of UDP \<Rightarrow> udp_ready e | LOG \<Rightarrow> False | _ \<Rightarrow> fd_open e)"

lemma link_state_ready:
  "link_state link_ready e w = (case ep_type e of UDP \<Rightarrow> link_state udp_ready e w | LOG \<Rightarrow> False | _ \<Rightarrow> link_state fd_open e w)"
  by (simp add: link_state_def link_ready_def split: ep_type.split)

lemma link_ready_cases:
  assumes "link_state link_ready e w"
  obtains "ep_type e = UART" "link_state fd_open e w"
  | "ep_type e = UDP" "link_state udp_ready e w"
  | "ep_type e = TCP" "link_state fd_open e w"
  using assms by (cases "ep_type e") (simp_all add: link_state_ready)

lemma link_state_same_link:
  "same_link e e' \<Longrightarrow> link_state link_ready e' w =
     (case ep_type e of UDP \<Rightarrow> link_state udp_ready e' w | LOG \<Rightarrow> False | _ \<Rightarrow> link_state fd_open e' w)"
  by (simp add: link_state_ready same_link_ep_type)

interpretation any_link: transport ep_flush_pending_msgs ep_write_msg link_ready
proof
  fix e w r e' w'
  assume st: "link_state link_ready e w" and f: "ep_flush_pending_msgs e w = (r, e', w')"
  from st show "link_state link_ready e' w' \<and> same_link e e' \<and> stream e' w' = stream e w \<and> r \<noteq> - ENOBUFS"
  proof (cases rule: link_ready_cases)
    case 1
    then show ?thesis using f uart_flush_law [of e w r e' w'] link_state_same_link [of e e' w']
      by (simp add: ep_flush_pending_msgs_def)
  next
    case 2
    then show ?thesis using f udp_flush_law [of e w r e' w'] link_state_same_link [of e e' w']
      by (simp add: ep_flush_pending_msgs_def)
  next
    case 3
    then show ?thesis using f tcp_flush_law [of e w r e' w'] link_state_same_link [of e e' w']
      by (simp add: ep_flush_pending_msgs_def)
  qed
next
  fix e w b r e' w'
  assume st: "link_state link_ready e w" and f: "ep_write_msg e b w = (r, e', w')"
  from st show "link_state link_ready e' w' \<and> same_link e e' \<and>
     stream e' w' = stream e w @ (if r = - ENOBUFS then [] else b_data b)"
  proof (cases rule: link_ready_cases)
    case 1
    then show ?thesis using f uart_write_law [of e w b r e' w'] link_state_same_link [of e e' w']
      by (simp add: ep_write_msg_def)
  next
    case 2
    then show ?thesis using f udp_write_law [of e w b r e' w'] link_state_same_link [of e e' w']
      by (simp add: ep_write_msg_def)
  next
    case 3
    then show ?thesis using f tcp_write_law [of e w b r e' w'] link_state_same_link [of e e' w']
      by (simp add: ep_write_msg_def)
  qed
qed

text \<open>Whatever the kernel answers, no operation of a link writes past the transmit buffer.\<close>

lemma tx_inv_tcp_hangup: "tx_inv e \<Longrightarrow> tx_inv (fst (tcp_hangup e w))"
  by (simp add: tcp_hangup_def tcp_schedule_reconnect_def tcp_close_def tx_inv_def case_prod_unfold Let_def)

lemma tx_inv_uart_flush: "tx_inv e \<Longrightarrow> tx_inv (fst (snd (uart_flush_pending_msgs e w)))"
  by (auto simp: uart_flush_pending_msgs_def case_prod_unfold tx_inv_consume Let_def split: snd_res.split)

lemma tx_inv_udp_flush: "tx_inv e \<Longrightarrow> tx_inv (fst (snd (udp_flush_pending_msgs e w)))"
  by (auto simp: udp_flush_pending_msgs_def case_prod_unfold tx_inv_consume Let_def split: snd_res.split)

lemma tx_inv_tcp_flush: "tx_inv e \<Longrightarrow> tx_inv (fst (snd (tcp_flush_pending_msgs e w)))"
  by (auto simp: tcp_flush_pending_msgs_def case_prod_unfold tx_inv_consume Let_def
      intro!: tx_inv_tcp_hangup split: snd_res.split)

lemma tx_inv_net_write:
  assumes flush: "\<And>e w. tx_inv e \<Longrightarrow> tx_inv (fst (snd (flush e w)))" and "tx_inv e"
  shows "tx_inv (fst (snd (net_write_msg flush e b w)))"
proof -
  define s1 where "s1 = (if tx_len e > 0 \<and> tx_len e + b_len b > unat (coalesce_bytes (net e))
                      then snd (flush e w) else (e, w))"
  have 1: "tx_inv (fst s1)" using assms by (simp add: s1_def)
  then have "tx_inv (tx_append (b_data b) (fst s1))" if "\<not> tx_len (fst s1) + b_len b > TX_BUF_MAX_SIZE"
    using that by (intro tx_inv_append) auto
  with 1 flush show ?thesis
    by (simp add: net_write_msg_def s1_def [symmetric] case_prod_unfold Let_def)
qed

lemma tx_inv_ep_flush: "tx_inv e \<Longrightarrow> tx_inv (fst (snd (ep_flush_pending_msgs e w)))"
  by (simp add: ep_flush_pending_msgs_def tx_inv_uart_flush tx_inv_udp_flush tx_inv_tcp_flush split: ep_type.split)

lemma tx_inv_ep_write: "tx_inv e \<Longrightarrow> tx_inv (fst (snd (ep_write_msg e b w)))"
proof (cases "ep_type e")
  case UART
  assume "tx_inv e"
  with UART show ?thesis
    by (auto simp: ep_write_msg_def uart_write_msg_def case_prod_unfold Let_def
        intro!: tx_inv_uart_flush tx_inv_append)
next
  case UDP
  assume "tx_inv e"
  with UDP show ?thesis
    using tx_inv_net_write [of udp_flush_pending_msgs, OF tx_inv_udp_flush, of e b w]
    by (cases "has_peer e") (simp_all add: ep_write_msg_def udp_write_msg_net, simp add: udp_write_msg_def)
next
  case TCP
  assume "tx_inv e"
  with TCP show ?thesis
    using tx_inv_net_write [of tcp_flush_pending_msgs, OF tx_inv_tcp_flush, of e b w] by (simp add: ep_write_msg_def tcp_write_msg_net)
qed (simp add: ep_write_msg_def)


section \<open>When a message is refused\<close>

text \<open>A flush does not add to what waits, and a message is refused only when it does not fit behind what
  waits.\<close>

lemma flush_tx_len:
  "tx_len (fst (snd (uart_flush_pending_msgs e w))) \<le> tx_len e"
  "tx_len (fst (snd (udp_flush_pending_msgs e w))) \<le> tx_len e"
  "tx_len (fst (snd (tcp_flush_pending_msgs e w))) \<le> tx_len e"
  by (auto simp: uart_flush_pending_msgs_def udp_flush_pending_msgs_def tcp_flush_pending_msgs_def tx_consume_def
      count_written_def unschedule_write_def tcp_hangup_def tcp_schedule_reconnect_def tcp_close_def
      case_prod_unfold Let_def split: snd_res.split)

definition fits_or_refused :: "endpoint \<Rightarrow> buffer \<Rightarrow> int \<Rightarrow> endpoint \<Rightarrow> bool" where
  "fits_or_refused e b r e' \<longleftrightarrow> tx_len e' \<le> tx_len e + (if r = - ENOBUFS then 0 else b_len b) \<and>
     (r = - ENOBUFS \<longrightarrow> TX_BUF_MAX_SIZE < tx_len e + b_len b)"

lemma net_write_refused:
  assumes "\<And>e w. tx_len (fst (snd (flush e w))) \<le> tx_len e"
    and "\<And>e w r e' w'. link_state ready e w \<Longrightarrow> flush e w = (r, e', w') \<Longrightarrow>
      link_state ready e' w' \<and> same_link e e' \<and> stream e' w' = stream e w \<and> r \<noteq> - ENOBUFS"
    and ready: "\<And>e e'. same_link e e' \<Longrightarrow> ready e' = ready e"
    and st: "link_state ready e w" and wr: "net_write_msg flush e b w = (r, e', w')"
  shows "fits_or_refused e b r e'"
proof -
  obtain e1 w1 where s1: "(if tx_len e > 0 \<and> tx_len e + b_len b > unat (coalesce_bytes (net e))
      then snd (flush e w) else (e, w)) = (e1, w1)" by fastforce
  have 1: "tx_len e1 \<le> tx_len e" using s1 assms(1) [of e w] by (auto split: if_splits)
  have st1: "link_state ready e1 w1" using s1 st assms(2) [OF st] by (metis prod.collapse prod.inject)
  let ?e2 = "tx_append (b_data b) e1"
  have l2: "tx_len ?e2 = tx_len e1 + b_len b" by (simp add: tx_append_def)
  note wr' = wr [unfolded net_write_msg_def s1 Let_def, simplified]
  consider (full) "TX_BUF_MAX_SIZE < tx_len e1 + b_len b" "r = - ENOBUFS" "e' = e1"
    | (sent) "\<not> TX_BUF_MAX_SIZE < tx_len e1 + b_len b" "flush ?e2 w1 = (r, e', w')"
    | (held) "r = int (b_len b)" "e' = fst (schedule_write ?e2 w1)"
    using wr' by (auto split: if_splits)
  then show ?thesis
  proof cases
    case full
    then show ?thesis using 1 by (simp add: fits_or_refused_def)
  next
    case sent
    have "link_state ready ?e2 w1" using st1 sent(1) ready [of e1 ?e2] by (auto simp: link_state_def tx_inv_append)
    from assms(2) [OF this sent(2)] assms(1) [of ?e2 w1] 1 l2 sent(2) show ?thesis by (simp add: fits_or_refused_def)
  next
    case held
    then show ?thesis using 1 l2 by (simp add: fits_or_refused_def schedule_write_def)
  qed
qed

lemma ep_write_refused:
  assumes "link_state link_ready e w" "ep_write_msg e b w = (r, e', w')"
  shows "fits_or_refused e b r e'"
  using assms(1)
proof (cases rule: link_ready_cases)
  case 1
  have fd: "\<not> ep_fd e < 0" using 1(2) by (simp add: link_state_def fd_open_def)
  show ?thesis
  proof (cases "TX_BUF_MAX_SIZE < tx_len e + b_len b")
    case True
    then show ?thesis using assms(2) 1(1) fd by (auto simp: ep_write_msg_def uart_write_msg_def fits_or_refused_def)
  next
    case False
    define e0 where "e0 = count_written 0 1 (tx_append (b_data b) e)"
    obtain r1 e1 w1 where f: "uart_flush_pending_msgs e0 w = (r1, e1, w1)" by (metis prod_cases3)
    have st: "link_state fd_open e0 w"
      using False 1(2) same_link_trans [of e "tx_append (b_data b) e" e0] ready_same_link(1) [of e e0]
      by (auto simp: e0_def link_state_def tx_inv_append)
    have "r1 \<noteq> - ENOBUFS" using uart_flush_law [OF st f] by simp
    moreover have "tx_len e1 \<le> tx_len e + b_len b" using flush_tx_len(1) [of e0 w] f
      by (simp add: e0_def tx_append_def count_written_def)
    ultimately show ?thesis using assms(2) 1(1) fd f False
      by (auto simp: ep_write_msg_def uart_write_msg_def e0_def [symmetric] fits_or_refused_def split: if_splits)
  qed
next
  case 2
  then have "net_write_msg udp_flush_pending_msgs e b w = (r, e', w')"
    using assms(2) by (simp add: ep_write_msg_def udp_write_msg_net link_state_def udp_ready_def)
  from net_write_refused [OF flush_tx_len(2) udp_flush_law ready_same_link(2) 2(2) this] show ?thesis .
next
  case 3
  then have "net_write_msg tcp_flush_pending_msgs e b w = (r, e', w')"
    using assms(2) by (simp add: ep_write_msg_def tcp_write_msg_net)
  from net_write_refused [OF flush_tx_len(3) tcp_flush_law ready_same_link(1) 3(2) this] show ?thesis .
qed

section \<open>What a link leaves alone\<close>

text \<open>\<open>restore e e'\<close> puts the fields a link may change back to their values in \<open>e\<close>: nothing else
  changed when the result is \<open>e\<close>.\<close>

definition restore :: "endpoint \<Rightarrow> endpoint \<Rightarrow> endpoint" where
  "restore e e' = e'\<lparr>ep_fd := ep_fd e, tx_data := tx_data e, tx_len := tx_len e, wstat := wstat e,
                     net := net e, tcp := tcp e\<rparr>"

definition tx_only :: "endpoint \<Rightarrow> endpoint \<Rightarrow> bool" where
  "tx_only e e' \<longleftrightarrow> restore e e' = e"

lemma tx_only_trans: "tx_only e e1 \<Longrightarrow> tx_only e1 e2 \<Longrightarrow> tx_only e e2"
proof -
  assume "tx_only e e1" "tx_only e1 e2"
  moreover have "restore e e2 = restore e (restore e1 e2)" by (simp add: restore_def)
  ultimately show ?thesis by (simp add: tx_only_def)
qed

lemma tx_only_steps [simp]:
  "tx_only e e" "tx_only e (tx_append bs e)" "tx_only e (tx_consume r e)" "tx_only e (count_written r n e)"
  "tx_only e (e\<lparr>tx_len := 0\<rparr>)" "tx_only e (fst (unschedule_write e w))" "tx_only e (fst (schedule_write e w))"
  "tx_only e (fst (tcp_hangup e w))"
  by (simp_all add: tx_only_def restore_def tx_append_def tx_consume_def count_written_def unschedule_write_def
      schedule_write_def tcp_hangup_def tcp_schedule_reconnect_def tcp_close_def case_prod_unfold Let_def)

lemma tx_only_consume: "tx_only e e1 \<Longrightarrow> tx_only e (tx_consume r (count_written r n e1))"
  by (erule tx_only_trans) (rule tx_only_trans [OF tx_only_steps(4) tx_only_steps(3)])

lemma tx_only_clear: "tx_only e e1 \<Longrightarrow> tx_only e (e1\<lparr>tx_len := 0\<rparr>)"
  by (erule tx_only_trans) simp

lemma tx_only_hangup: "tx_only e e1 \<Longrightarrow> tx_only e (fst (tcp_hangup e1 w))"
  by (erule tx_only_trans) simp

lemmas tx_only_intros = tx_only_consume tx_only_clear tx_only_hangup

lemma tx_only_flushes:
  "tx_only e (fst (snd (uart_flush_pending_msgs e w)))"
  "tx_only e (fst (snd (udp_flush_pending_msgs e w)))"
  "tx_only e (fst (snd (tcp_flush_pending_msgs e w)))"
  by (auto simp: uart_flush_pending_msgs_def udp_flush_pending_msgs_def tcp_flush_pending_msgs_def
      case_prod_unfold Let_def intro!: tx_only_intros split: snd_res.split)

lemma tx_only_net_write:
  assumes flush: "\<And>e w. tx_only e (fst (snd (flush e w)))"
  shows "tx_only e (fst (snd (net_write_msg flush e b w)))"
proof -
  define s1 where "s1 = (if tx_len e > 0 \<and> tx_len e + b_len b > unat (coalesce_bytes (net e))
                      then snd (flush e w) else (e, w))"
  have 1: "tx_only e (fst s1)" using flush by (simp add: s1_def)
  have 2: "tx_only e (tx_append (b_data b) (fst s1))" by (rule tx_only_trans [OF 1]) simp
  have 3: "tx_only e (fst (snd (flush (tx_append (b_data b) (fst s1)) (snd s1))))"
    by (rule tx_only_trans [OF 2 flush])
  have 4: "tx_only e (fst (schedule_write (tx_append (b_data b) (fst s1)) (snd s1)))"
    by (rule tx_only_trans [OF 2]) simp
  show ?thesis using 1 3 4
    by (simp add: net_write_msg_def s1_def [symmetric] case_prod_unfold Let_def)
qed

lemma tx_only_uart_write: "tx_only e (fst (snd (uart_write_msg e b w)))"
proof -
  have "tx_only e (fst (snd (uart_flush_pending_msgs (count_written 0 1 (tx_append (b_data b) e)) w)))"
    by (rule tx_only_trans [OF _ tx_only_flushes(1)]) (rule tx_only_trans [OF tx_only_steps(2,4)])
  then show ?thesis by (simp add: uart_write_msg_def case_prod_unfold Let_def)
qed

lemma tx_only_udp_write: "tx_only e (fst (snd (udp_write_msg e b w)))"
  using tx_only_net_write [of udp_flush_pending_msgs, OF tx_only_flushes(2)]
  by (cases "has_peer e") (simp_all add: udp_write_msg_net, simp add: udp_write_msg_def)

lemma tx_only_ep_flush: "tx_only e (fst (snd (ep_flush_pending_msgs e w)))"
  by (simp add: ep_flush_pending_msgs_def tx_only_flushes split: ep_type.split)

lemma tx_only_ep_write: "tx_only e (fst (snd (ep_write_msg e b w)))"
  using tx_only_net_write [of tcp_flush_pending_msgs, OF tx_only_flushes(3)]
  by (simp add: ep_write_msg_def tx_only_uart_write tx_only_udp_write tcp_write_msg_net split: ep_type.split)

lemma tx_only_fields:
  assumes "tx_only e e'"
  shows "rx_data e' = rx_data e" "rx_len e' = rx_len e" "last_packet_len e' = last_packet_len e"
    "rstat e' = rstat e" "ep_type e' = ep_type e" "dropped_msgs e' = dropped_msgs e"
    "sys_comp_ids e' = sys_comp_ids e" "msg_cache e' = msg_cache e"
    "message_throttle_map e' = message_throttle_map e" "group_members e' = group_members e"
    "group_name e' = group_name e" "ep_name e' = ep_name e" "ep_id e' = ep_id e"
    "outgoing e' = outgoing e" "throttle_cache_msg_ids e' = throttle_cache_msg_ids e"
    "msg_cache_dropped e' = msg_cache_dropped e" "uart e' = uart e" "udp e' = udp e"
  using arg_cong [OF assms [unfolded tx_only_def], of "\<lambda>x. (rx_data x, rx_len x, last_packet_len x, rstat x,
      ep_type x, dropped_msgs x, sys_comp_ids x, msg_cache x, message_throttle_map x)"]
    arg_cong [OF assms [unfolded tx_only_def], of "\<lambda>x. (group_members x, group_name x, ep_name x, ep_id x,
      outgoing x, throttle_cache_msg_ids x, msg_cache_dropped x, uart x, udp x)"]
  by (simp_all add: restore_def)

section \<open>Properties\<close>

lemma ex_endpoint_fields [simp]:
  "ep_fd (ex_endpoint t) = 3" "ep_type (ex_endpoint t) = t" "tx_len (ex_endpoint t) = 0" "tx_inv (ex_endpoint t)"
  "msg_cache (ex_endpoint t) = []" "tx_bytes (ex_endpoint t) = []"
  by (simp_all add: ex_endpoint_def Endpoint_init_def tx_inv_def tx_bytes_def)

lemma lossless_ex_world [simp]: "lossless ex_world"
  by (simp add: lossless_def ex_world_def)

text \<open>C7: on a link that is up and whose kernel refuses bytes only temporarily, any sequence of
  \<open>write_msg\<close> and \<open>flush_pending_msgs\<close> calls, with short writes, coalescing and \<open>EAGAIN\<close> in any
  order, sends the accepted messages complete, once and in order: the bytes on the wire
  followed by those in the transmit buffer are what was there before and then the messages
  that were not refused with \<open>-ENOBUFS\<close>. This holds for UART, UDP and TCP.\<close>

theorem link_sends_whole_messages_in_order:
  assumes "link_ready e" "tx_inv e" "lossless w"
    and "run_link ep_flush_pending_msgs ep_write_msg ops e w = (bs, e', w')"
  shows "wire_of (ep_fd e) w' @ tx_bytes e' = wire_of (ep_fd e) w @ tx_bytes e @ concat (map b_data bs)"
  using any_link.run_stream [of e w ops bs e' w'] assms
  by (auto simp: link_state_def stream_def dest: same_link_ep_fd)

lemma link_sends_whole_messages_in_order_witness:
  "\<exists>bs e' w'. run_link ep_flush_pending_msgs ep_write_msg [LWrite ex_buffer, LFlush, LWrite ex_buffer, LFlush]
       (ex_endpoint UART) ex_world = (bs, e', w') \<and>
     wire_of 3 w' @ tx_bytes e' = wire_of 3 ex_world @ concat (map b_data bs)"
proof -
  obtain bs e' w' where r: "run_link ep_flush_pending_msgs ep_write_msg [LWrite ex_buffer, LFlush, LWrite ex_buffer, LFlush]
       (ex_endpoint UART) ex_world = (bs, e', w')" by (metis prod_cases3)
  have "link_ready (ex_endpoint UART)" by (simp add: link_ready_def fd_open_def)
  from link_sends_whole_messages_in_order [OF this _ _ r] r show ?thesis by auto
qed

text \<open>Whatever the kernel answers, \<open>write_msg\<close> and \<open>flush_pending_msgs\<close> never write past the end
  of the transmit buffer and never count more bytes in it than it has.\<close>

theorem transmit_buffer_never_overrun:
  "tx_inv e \<Longrightarrow> tx_inv (fst (snd (ep_write_msg e b w))) \<and> tx_inv (fst (snd (ep_flush_pending_msgs e w)))"
  by (simp add: tx_inv_ep_write tx_inv_ep_flush)

lemma transmit_buffer_never_overrun_witness:
  "tx_inv (fst (snd (ep_write_msg (ex_endpoint UDP) ex_buffer ex_world)))"
  using transmit_buffer_never_overrun [of "ex_endpoint UDP" ex_buffer ex_world] by simp

end
