(* ===== verification/Resend.thy ===== *)
theory Resend
  imports Links
begin

text \<open>
  Delivery of messages that throttling held back: \<open>Endpoint::resend_queued_msgs\<close> and
  \<open>Endpoint::resend_cached_msgs\<close> (endpoint.cpp). On a link that only refuses bytes temporarily
  every cached message is either still in its queue or has been written, whole, once and in the
  order of its queue.
\<close>

section \<open>Model\<close>

fun resend_queued_msgs ::
  "u32 \<Rightarrow> cached_msg list \<Rightarrow> endpoint \<Rightarrow> world \<Rightarrow> int \<times> cached_msg list \<times> endpoint \<times> world" where
  "resend_queued_msgs mid [] e w = (0, [], e, w)"
| "resend_queued_msgs mid (m # queue) e w =
     (let (throttle, w1) = should_throttle_msg e mid w
      in if throttle then (0, m # queue, e, w1)
         else let (r, e1, w2) = ep_write_msg e (as_buffer m) w1
              in if ep_fd e1 < 0 then (r, m # queue, e1, w2)
                 else if r = - ENOBUFS then (r, m # queue, e1, w2)
                 else let (e2, w3) = update_throttle_info e1 mid w2
                      in if r < 0 then (r, queue, e2, w3)
                         else resend_queued_msgs mid queue e2 w3)"

text \<open>The loop over the queues: \<open>done\<close> are the entries already passed that stay.\<close>

fun resend_queues ::
  "(u32, cached_msg list) omap \<Rightarrow> (u32, cached_msg list) omap \<Rightarrow> endpoint \<Rightarrow> world \<Rightarrow> endpoint \<times> world" where
  "resend_queues done [] e w = (e\<lparr>msg_cache := done\<rparr>, w)"
| "resend_queues done ((mid, q) # rest) e w =
     (let (r, q1, e1, w1) = resend_queued_msgs mid q e w
      in if ep_fd e1 < 0 then
           (e1\<lparr>msg_cache := []\<rparr>, if r = - EPIPE then w1\<lparr>should_process_tcp_hangups := True\<rparr> else w1)
         else
           let done1 = (if q1 = [] then done else done @ [(mid, q1)])
           in if r = 0 then resend_queues done1 rest e1 w1
              else (e1\<lparr>msg_cache := done1 @ rest\<rparr>,
                    if r = - EAGAIN \<or> r = - ENOBUFS then snd (mod_fd (ep_fd e1) True w1)
                    else if r = - EPIPE then w1\<lparr>should_process_tcp_hangups := True\<rparr>
                    else w1))"

definition resend_cached_msgs :: "endpoint \<Rightarrow> world \<Rightarrow> endpoint \<times> world" where
  "resend_cached_msgs e w =
     (if msg_cache e = [] then (e, w)
      else if ep_fd e < 0 then (e\<lparr>msg_cache := []\<rparr>, w)
      else resend_queues [] (msg_cache e) e w)"

section \<open>No cached message is lost or reordered\<close>

lemma should_throttle_msg_world:
  "should_throttle_msg e k w = (b, w') \<Longrightarrow> w' = w\<lparr>w_tick := w_tick w'\<rparr>"
  by (auto simp: should_throttle_msg_def steady_now_def split: option.splits if_splits)

lemma update_throttle_info_frame:
  "update_throttle_info e k w = (e', w') \<Longrightarrow>
   e' = e\<lparr>message_throttle_map := message_throttle_map e'\<rparr> \<and> w' = w\<lparr>w_tick := w_tick w'\<rparr>"
  by (auto simp: update_throttle_info_def steady_now_def Let_def split: option.splits)

lemma tick_frame:
  assumes "w' = w\<lparr>w_tick := t\<rparr>"
  shows "stream e w' = stream e w" "lossless w' = lossless w"
  using assms by (simp_all add: stream_def lossless_def wire_of_def)

lemma throttle_map_frame:
  assumes "e' = e\<lparr>message_throttle_map := m\<rparr>"
  shows "stream e' w = stream e w" "tx_inv e' = tx_inv e" "same_link e e'" "ep_fd e' = ep_fd e"
  using assms by (simp_all add: stream_def tx_inv_def tx_bytes_def same_link_def has_peer_def)

lemma link_ready_same: "same_link e e' \<Longrightarrow> link_ready e' = link_ready e"
  by (simp add: link_ready_def same_link_ep_type ready_same_link split: ep_type.split)

lemma link_ready_fd: "link_ready e \<Longrightarrow> ep_fd e \<ge> 0"
  by (simp add: link_ready_def fd_open_def udp_ready_def split: ep_type.splits)

lemma throttle_steps_link:
  assumes "update_throttle_info e k w = (e', w')"
  shows "link_state link_ready e' w' = link_state link_ready e w" "stream e' w' = stream e w" "same_link e e'"
proof -
  note f = update_throttle_info_frame [OF assms]
  note t = throttle_map_frame [OF conjunct1 [OF f]] and w = tick_frame [OF conjunct2 [OF f]]
  show "same_link e e'" by (rule t(3))
  then show "link_state link_ready e' w' = link_state link_ready e w" "stream e' w' = stream e w"
    using t w link_ready_same by (auto simp: link_state_def)
qed

lemma resend_queued_msgs_fifo:
  assumes "link_state link_ready e w" "resend_queued_msgs k q e w = (r, q', e', w')"
  shows "\<exists>sent. q = sent @ q' \<and> link_state link_ready e' w' \<and> same_link e e' \<and>
     stream e' w' = stream e w @ concat (map cm_data sent)"
  using assms
proof (induction k q e w rule: resend_queued_msgs.induct)
  case (1 mid e w)
  then show ?case by auto
next
  case (2 mid m queue e w)
  obtain thr w1 where t: "should_throttle_msg e mid w = (thr, w1)" by fastforce
  have st1: "link_state link_ready e w1" "stream e w1 = stream e w"
    using "2.prems"(1) tick_frame [OF should_throttle_msg_world [OF t]] by (auto simp: link_state_def)
  show ?case
  proof (cases thr)
    case True
    then show ?thesis using "2.prems"(2) t st1 by auto
  next
    case False
    obtain r1 e1 w2 where wr: "ep_write_msg e (as_buffer m) w1 = (r1, e1, w2)" by (metis prod_cases3)
    note law = any_link.write_law [OF st1(1) wr]
    have fd: "\<not> ep_fd e1 < 0" using law link_ready_fd [of e1] by (auto simp: link_state_def)
    show ?thesis
    proof (cases "r1 = - ENOBUFS")
      case True
      then show ?thesis using "2.prems"(2) t False wr fd law st1 by auto
    next
      case noENOBUFS: False
      obtain e2 w3 where u: "update_throttle_info e1 mid w2 = (e2, w3)" by fastforce
      note ul = throttle_steps_link [OF u]
      have 2: "link_state link_ready e2 w3" "same_link e e2" "stream e2 w3 = stream e w @ cm_data m"
        using law ul st1 noENOBUFS same_link_trans [of e e1 e2] by auto
      show ?thesis
      proof (cases "r1 < 0")
        case True
        then show ?thesis using "2.prems"(2) t False wr fd noENOBUFS u 2 by auto
      next
        case pos: False
        then have "resend_queued_msgs mid queue e2 w3 = (r, q', e', w')"
          using "2.prems"(2) t False wr fd noENOBUFS u by simp
        from "2.IH" [OF t [symmetric] refl False wr [symmetric] refl refl fd noENOBUFS u [symmetric] refl pos 2(1) this]
        obtain sent where "queue = sent @ q'" "link_state link_ready e' w'" "same_link e2 e'"
          "stream e' w' = stream e2 w3 @ concat (map cm_data sent)" by blast
        then show ?thesis using 2(2,3) same_link_trans [OF 2(2), of e'] by (intro exI [of _ "m # sent"]) simp
      qed
    qed
  qed
qed


text \<open>A cache from whose queues the messages \<open>ss\<close> were taken, queue by queue, from the front.\<close>

fun taken_from :: "(u32, cached_msg list) omap \<Rightarrow> cached_msg list list \<Rightarrow> bool" where
  "taken_from c [] = True"
| "taken_from [] (s # ss) = False"
| "taken_from ((k, q) # c) (s # ss) = (take (length s) q = s \<and> taken_from c ss)"

fun after_sending :: "(u32, cached_msg list) omap \<Rightarrow> cached_msg list list \<Rightarrow> (u32, cached_msg list) omap" where
  "after_sending c [] = c"
| "after_sending [] ss = []"
| "after_sending ((k, q) # c) (s # ss) =
     (if drop (length s) q = [] then after_sending c ss else (k, drop (length s) q) # after_sending c ss)"

lemma mod_fd_frame:
  "stream e (snd (mod_fd fd b w)) = stream e w" "lossless (snd (mod_fd fd b w)) = lossless w"
  by (simp_all add: mod_fd_def stream_def wire_of_def lossless_def)

lemma hangups_frame:
  "stream e (w\<lparr>should_process_tcp_hangups := b\<rparr>) = stream e w"
  "lossless (w\<lparr>should_process_tcp_hangups := b\<rparr>) = lossless w"
  by (simp_all add: stream_def wire_of_def lossless_def)

lemma msg_cache_frame:
  "stream (e\<lparr>msg_cache := c\<rparr>) w = stream e w" "tx_inv (e\<lparr>msg_cache := c\<rparr>) = tx_inv e"
  "same_link e (e\<lparr>msg_cache := c\<rparr>)"
  by (simp_all add: stream_def tx_inv_def tx_bytes_def same_link_def has_peer_def)

lemma link_state_msg_cache: "link_state link_ready (e\<lparr>msg_cache := c\<rparr>) w = link_state link_ready e w"
  using msg_cache_frame(2) link_ready_same [OF msg_cache_frame(3)] by (simp add: link_state_def)

lemma resend_queues_fifo:
  assumes "link_state link_ready e w" "resend_queues dn c e w = (e', w')"
  shows "\<exists>ss. taken_from c ss \<and> msg_cache e' = dn @ after_sending c ss \<and> same_link e e' \<and>
     link_state link_ready e' w' \<and> stream e' w' = stream e w @ concat (map cm_data (concat ss))"
  using assms
proof (induction dn c e w rule: resend_queues.induct)
  case (1 dn e w)
  then show ?case
    by (intro exI [of _ "[]"]) (auto simp: msg_cache_frame link_state_msg_cache)
next
  case (2 dn mid q rest e w)
  obtain r q1 e1 w1 where rq: "resend_queued_msgs mid q e w = (r, q1, e1, w1)" by (metis prod_cases4)
  from resend_queued_msgs_fifo [OF "2.prems"(1) rq]
  obtain sent where s: "q = sent @ q1" "link_state link_ready e1 w1" "same_link e e1"
    "stream e1 w1 = stream e w @ concat (map cm_data sent)" by blast
  have fd: "\<not> ep_fd e1 < 0" using s(2) link_ready_fd [of e1] by (auto simp: link_state_def)
  define dn1 where "dn1 = (if q1 = [] then dn else dn @ [(mid, q1)])"
  show ?case
  proof (cases "r = 0")
    case True
    then have "resend_queues dn1 rest e1 w1 = (e', w')"
      using "2.prems"(2) rq fd by (simp add: dn1_def)
    from "2.IH" [OF rq [symmetric] refl refl refl fd dn1_def True s(2) this]
    obtain ss where ss: "taken_from rest ss" "msg_cache e' = dn1 @ after_sending rest ss"
      "same_link e1 e'" "link_state link_ready e' w'"
      "stream e' w' = stream e1 w1 @ concat (map cm_data (concat ss))" by blast
    show ?thesis
      by (rule exI [of _ "sent # ss"])
         (use s ss dn1_def same_link_trans [OF s(3) ss(3)] in auto)
  next
    case False
    then have e': "e' = e1\<lparr>msg_cache := dn1 @ rest\<rparr>"
      and w': "w' \<in> {w1, snd (mod_fd (ep_fd e1) True w1), w1\<lparr>should_process_tcp_hangups := True\<rparr>}"
      using "2.prems"(2) rq fd by (auto simp: dn1_def Let_def split: if_splits)
    have "stream e1 w' = stream e1 w1" "lossless w' = lossless w1"
      using w' by (auto simp: mod_fd_frame hangups_frame)
    then have "stream e' w' = stream e1 w1" "link_state link_ready e' w'" "same_link e e'"
      using s(2) same_link_trans [OF s(3), of e'] link_state_msg_cache
      unfolding e' by (auto simp: msg_cache_frame link_state_def)
    then show ?thesis
      by (intro exI [of _ "[sent]"]) (use s e' dn1_def in auto)
  qed
qed

lemma resend_cached_msgs_fifo:
  assumes "link_state link_ready e w" "resend_cached_msgs e w = (e', w')"
  shows "\<exists>ss. taken_from (msg_cache e) ss \<and> msg_cache e' = after_sending (msg_cache e) ss \<and>
     same_link e e' \<and> link_state link_ready e' w' \<and>
     stream e' w' = stream e w @ concat (map cm_data (concat ss))"
proof (cases "msg_cache e = []")
  case True
  then show ?thesis using assms by (intro exI [of _ "[]"]) (auto simp: resend_cached_msgs_def)
next
  case False
  have "\<not> ep_fd e < 0" using assms(1) link_ready_fd [of e] by (auto simp: link_state_def)
  then show ?thesis
    using False assms(2) resend_queues_fifo [OF assms(1), of "[]" "msg_cache e" e' w']
    by (simp add: resend_cached_msgs_def)
qed

text \<open>The invariant of the cache survives, whatever the kernel answers.\<close>

lemma resend_queued_msgs_suffix:
  "resend_queued_msgs k q e w = (r, q', e', w') \<Longrightarrow> \<exists>sent. q = sent @ q'"
proof (induction k q e w rule: resend_queued_msgs.induct)
  case (2 mid m queue e w)
  show ?case
  proof (cases "q' = m # queue")
    case False
    then have "q' = queue \<or> (\<exists>sent. queue = sent @ q')"
      using "2.prems" "2.IH" by (auto simp: Let_def split: prod.splits if_splits)
    then show ?thesis by auto
  qed auto
qed auto

lemma resend_queues_cache:
  "resend_queues dn c e w = (e', w') \<Longrightarrow>
   msg_cache e' = [] \<or> (\<exists>ss. taken_from c ss \<and> msg_cache e' = dn @ after_sending c ss)"
proof (induction dn c e w rule: resend_queues.induct)
  case (1 dn e w)
  then show ?case by (auto intro: exI [of _ "[]"])
next
  case (2 dn mid q rest e w)
  obtain r q1 e1 w1 where rq: "resend_queued_msgs mid q e w = (r, q1, e1, w1)" by (metis prod_cases4)
  obtain sent where s: "q = sent @ q1" using resend_queued_msgs_suffix [OF rq] by blast
  define dn1 where "dn1 = (if q1 = [] then dn else dn @ [(mid, q1)])"
  show ?case
  proof (cases "ep_fd e1 < 0 \<or> r \<noteq> 0")
    case True
    then have "msg_cache e' = [] \<or> msg_cache e' = dn1 @ rest"
      using "2.prems" rq by (auto simp: dn1_def Let_def split: if_splits)
    moreover have "taken_from ((mid, q) # rest) [sent]" "dn1 @ rest = dn @ after_sending ((mid, q) # rest) [sent]"
      by (simp_all add: s dn1_def)
    ultimately show ?thesis by metis
  next
    case False
    then have "resend_queues dn1 rest e1 w1 = (e', w')"
      using "2.prems" rq by (simp add: dn1_def)
    with "2.IH" [OF rq [symmetric] refl refl refl _ dn1_def] False
    consider "msg_cache e' = []" | ss where "taken_from rest ss" "msg_cache e' = dn1 @ after_sending rest ss"
      by blast
    then show ?thesis
    proof cases
      case 2
      then have "taken_from ((mid, q) # rest) (sent # ss)" "msg_cache e' = dn @ after_sending ((mid, q) # rest) (sent # ss)"
        by (simp_all add: s dn1_def)
      then show ?thesis by blast
    qed simp
  qed
qed

lemma after_sending_size:
  "sum_list (map (length \<circ> snd) (after_sending c ss)) \<le> sum_list (map (length \<circ> snd) c)"
  by (induction c ss rule: after_sending.induct) auto

lemma after_sending_entries:
  "\<forall>(k, q) \<in> set c. q \<noteq> [] \<and> (\<forall>m \<in> set q. P k m) \<Longrightarrow>
   \<forall>(k, q) \<in> set (after_sending c ss). q \<noteq> [] \<and> (\<forall>m \<in> set q. P k m)"
  by (induction c ss rule: after_sending.induct) (auto dest: in_set_dropD)

lemma om_inv_Cons: "om_inv ((k, v) # c) \<longleftrightarrow> om_inv c \<and> (\<forall>x \<in> set (map fst c). k < x)"
  by (auto simp: om_inv_def order.strict_iff_order)

lemma after_sending_keys: "set (map fst (after_sending c ss)) \<subseteq> set (map fst c)"
  by (induction c ss rule: after_sending.induct) auto

lemma om_inv_after_sending: "om_inv c \<Longrightarrow> om_inv (after_sending c ss)"
proof (induction c ss rule: after_sending.induct)
  case (3 k q c s ss)
  have c: "om_inv c" "\<forall>x \<in> set (map fst c). k < x" using "3.prems" unfolding om_inv_Cons by blast+
  have "\<forall>x \<in> set (map fst (after_sending c ss)). k < x"
    using c(2) after_sending_keys [of c ss] by blast
  moreover have "om_inv (after_sending c ss)" using "3.IH" c(1) by blast
  ultimately show ?case by (metis after_sending.simps(3) om_inv_Cons)
qed (simp_all only: after_sending.simps)

lemma cache_inv_after_sending:
  assumes "cache_inv e" "msg_cache e' = after_sending (msg_cache e) ss"
  shows "cache_inv e'"
  using assms om_inv_after_sending [of "msg_cache e" ss] after_sending_size [of "msg_cache e" ss]
    after_sending_entries [of "msg_cache e" "\<lambda>k m. msg_id (cm_curr m) = k" ss]
  by (simp add: cache_inv_def cache_size_sum)

lemma cache_inv_empty: "msg_cache e = [] \<Longrightarrow> cache_inv e"
  by (simp add: cache_inv_def cache_size_def)

lemma resend_cached_msgs_inv:
  assumes "cache_inv e"
  shows "cache_inv (fst (resend_cached_msgs e w))"
proof (cases "msg_cache e = [] \<or> ep_fd e < 0")
  case True
  then show ?thesis using assms cache_inv_empty by (auto simp: resend_cached_msgs_def)
next
  case False
  obtain e' w' where r: "resend_queues [] (msg_cache e) e w = (e', w')" by fastforce
  from resend_queues_cache [OF r] have "cache_inv e'"
    using assms cache_inv_empty cache_inv_after_sending by auto
  then show ?thesis using False r by (simp add: resend_cached_msgs_def)
qed

section \<open>Properties\<close>

text \<open>C33: delivery of cached messages. On a link that is up and whose kernel refuses bytes only
  temporarily, \<open>resend_cached_msgs\<close> takes messages from the front of the queues, in the order of
  the message ids; the bytes of exactly these messages, whole and in order, are appended to what
  the endpoint sends; every other cached message stays where it was.\<close>

theorem resend_takes_from_the_front:
  assumes "link_ready e" "tx_inv e" "lossless w" "resend_cached_msgs e w = (e', w')"
  shows "\<exists>ss. taken_from (msg_cache e) ss \<and> msg_cache e' = after_sending (msg_cache e) ss \<and>
     wire_of (ep_fd e) w' @ tx_bytes e' = wire_of (ep_fd e) w @ tx_bytes e @ concat (map cm_data (concat ss))"
  using resend_cached_msgs_fifo [of e w e' w'] assms
  by (fastforce simp: link_state_def stream_def dest: same_link_ep_fd)

lemma resend_takes_from_the_front_witness:
  "\<exists>ss e' w'. resend_cached_msgs ((ex_endpoint UART)\<lparr>msg_cache := [(0, [CachedMsg ex_buffer])]\<rparr>) ex_world = (e', w') \<and>
     taken_from [(0, [CachedMsg ex_buffer])] ss \<and>
     wire_of 3 w' @ tx_bytes e' = wire_of 3 ex_world @ concat (map cm_data (concat ss))"
proof -
  define e where "e = (ex_endpoint UART)\<lparr>msg_cache := [(0, [CachedMsg ex_buffer])]\<rparr>"
  obtain e' w' where r: "resend_cached_msgs e ex_world = (e', w')" by fastforce
  have "link_ready e" "tx_inv e" "tx_bytes e = []" "ep_fd e = 3"
    by (simp_all add: e_def link_ready_def fd_open_def tx_inv_def tx_bytes_def) (simp_all add: ex_endpoint_def Endpoint_init_def)
  with resend_takes_from_the_front [OF _ _ _ r] show ?thesis
    using r by (auto simp: e_def)
qed

text \<open>Whatever the kernel answers, resending keeps the cache well formed: bounded, sorted, with
  no empty queue and every message in the queue of its id.\<close>

lemma resend_keeps_cache_inv: "cache_inv e \<Longrightarrow> cache_inv (fst (resend_cached_msgs e w))"
  by (rule resend_cached_msgs_inv)

lemma resend_keeps_cache_inv_witness:
  "cache_inv (fst (resend_cached_msgs (cache_msg ex_buffer (ex_endpoint TCP)) ex_world))"
  by (rule resend_keeps_cache_inv, rule cache_msg_inv) (simp add: cache_inv_def cache_size_def)

end
