(* ===== verification/Framing.thy ===== *)
theory Framing
  imports Transport
begin

text \<open>
  From bytes to messages: \<open>Endpoint::read_msg\<close>, \<open>Endpoint::_check_crc\<close> and the override of
  \<open>UartEndpoint\<close> (endpoint.cpp). The lemmas show that the reception buffer is never left,
  that the read loop ends, that garbage in front of a packet is skipped, and that a sequence
  of packets is handed out unchanged and in order however the received bytes are cut.
\<close>

section \<open>Model\<close>

abbreviation ReadOk :: int where "ReadOk \<equiv> 1"
abbreviation ReadUnkownMsg :: int where "ReadUnkownMsg \<equiv> 2"

definition check_crc :: "mavlib \<Rightarrow> bytes \<Rightarrow> msg_entry \<Rightarrow> bool" where
  "check_crc M d entry =
     (let mavlink2 = d ! 0 = STX2 M;
          header_len = (if mavlink2 then sizeof_mavlink2_header else sizeof_mavlink1_header);
          payload_len = (if mavlink2 then h2_payload_len (mavlink2_header_at d)
                         else h1_payload_len (mavlink1_header_at d));
          p = header_len + unat payload_len;
          crc_msg = (ucast (d ! p) :: u16) OR push_bit 8 (ucast (d ! (p + 1)));
          crc_calc = crc_accumulate M (me_crc_extra entry)
                       (crc_calculate M (memread d 1 (header_len + unat payload_len - 1)))
      in crc_calc = crc_msg)"

text \<open>The bytes of the previous packet are dropped; the flag is \<open>should_read_more\<close>.\<close>

definition discard_last_packet :: "endpoint \<Rightarrow> bool \<times> endpoint" where
  "discard_last_packet e =
     (if last_packet_len e \<noteq> 0 then
        let n = rx_len e - last_packet_len e
        in (False, e\<lparr>rx_len := n,
                     rx_data := (if n > 0 then memmove_down (rx_data e) (last_packet_len e) n else rx_data e),
                     last_packet_len := 0\<rparr>)
      else (True, e))"

text \<open>The search for a start marker from position 1 on: its position, or 0.\<close>

fun find_stx :: "mavlib \<Rightarrow> bytes \<Rightarrow> nat \<Rightarrow> nat" where
  "find_stx M [] i = 0"
| "find_stx M (b # bs) i = (if b = STX2 M \<or> b = STX1 M then i else find_stx M bs (i + 1))"

definition sync_to_stx :: "mavlib \<Rightarrow> endpoint \<Rightarrow> endpoint option" where
  "sync_to_stx M e =
     (if rx_data e ! 0 = STX2 M \<or> rx_data e ! 0 = STX1 M then Some e
      else let stx_pos = find_stx M (drop 1 (rx_bytes e)) 1
           in if stx_pos = 0 then None
              else Some (e\<lparr>rx_len := rx_len e - stx_pos,
                           rx_data := memmove_down (rx_data e) stx_pos (rx_len e - stx_pos)\<rparr>))"

text \<open>The fields read from the header in front of the buffer, with the size of the whole
  packet.\<close>

record pkt_header =
  ph_msgid :: u32
  ph_payload_ofs :: nat
  ph_seq :: u8
  ph_sysid :: u8
  ph_compid :: u8
  ph_payload_len :: u8
  ph_expected_size :: nat

definition parse_header :: "mavlib \<Rightarrow> bytes \<Rightarrow> nat \<Rightarrow> pkt_header option" where
  "parse_header M d len =
     (if d ! 0 = STX2 M then
        (if len < sizeof_mavlink2_header then None
         else let hdr = mavlink2_header_at d
              in Some \<lparr>ph_msgid = h2_msgid hdr, ph_payload_ofs = sizeof_mavlink2_header, ph_seq = h2_seq hdr,
                       ph_sysid = h2_sysid hdr, ph_compid = h2_compid hdr,
                       ph_payload_len = h2_payload_len hdr,
                       ph_expected_size = sizeof_mavlink2_header + unat (h2_payload_len hdr) + 2
                         + (if h2_incompat_flags hdr AND IFLAG_SIGNED M \<noteq> 0 then SIGNATURE_BLOCK_LEN M else 0)\<rparr>)
      else
        (if len < sizeof_mavlink1_header then None
         else let hdr = mavlink1_header_at d
              in Some \<lparr>ph_msgid = ucast (h1_msgid hdr), ph_payload_ofs = sizeof_mavlink1_header,
                       ph_seq = h1_seq hdr, ph_sysid = h1_sysid hdr, ph_compid = h1_compid hdr,
                       ph_payload_len = h1_payload_len hdr,
                       ph_expected_size = sizeof_mavlink1_header + unat (h1_payload_len hdr) + 2\<rparr>))"

text \<open>A target field of the payload; one that was trimmed is 0, one the message does not have
  is -1.\<close>

definition target_field :: "bytes \<Rightarrow> pkt_header \<Rightarrow> bool \<Rightarrow> u8 \<Rightarrow> int" where
  "target_field d h has ofs =
     (if has then (if ofs < ph_payload_len h then uint (d ! (ph_payload_ofs h + unat ofs)) else 0)
      else -1)"

definition count_sequence :: "u8 \<Rightarrow> read_stat \<Rightarrow> read_stat" where
  "count_sequence seq st =
     (let st1 =
        (if expected_seq st \<noteq> seq then
           (let st0 =
              (if rs_total st > 1 then
                 (let diff = (if seq > expected_seq st then seq - expected_seq st
                              else (255 - expected_seq st) + seq)
                  in st\<lparr>drop_seq_total := drop_seq_total st + ucast diff, rs_total := rs_total st + ucast diff\<rparr>)
               else st)
            in st0\<lparr>expected_seq := seq\<rparr>)
         else st)
      in st1\<lparr>expected_seq := expected_seq st1 + 1\<rparr>)"

definition packet_msg_info :: "mavlib \<Rightarrow> bytes \<Rightarrow> pkt_header \<Rightarrow> msg_entry option \<Rightarrow> msg_info" where
  "packet_msg_info M d h entry =
     (case entry of
        None \<Rightarrow>
          \<lparr>msg_id = ph_msgid h, target_sysid = -1, target_compid = -1, src_sysid = ph_sysid h,
           src_compid = ph_compid h, payload_len = ph_payload_len h, payload = Some (ph_payload_ofs h)\<rparr>
      | Some en \<Rightarrow>
          \<lparr>msg_id = me_msgid en,
           target_sysid = target_field d h (me_flags en AND FLAG_HAVE_TARGET_SYSTEM M \<noteq> 0) (me_target_system_ofs en),
           target_compid = target_field d h (me_flags en AND FLAG_HAVE_TARGET_COMPONENT M \<noteq> 0) (me_target_component_ofs en),
           src_sysid = ph_sysid h, src_compid = ph_compid h, payload_len = ph_payload_len h,
           payload = Some (ph_payload_ofs h)\<rparr>)"

text \<open>The second half of \<open>Endpoint::read_msg\<close>: from the search of the marker to the complete
  message. The result is the C return value and the message, when there is one.\<close>

definition decode_packet :: "mavlib \<Rightarrow> endpoint \<Rightarrow> (int \<times> buffer option) \<times> endpoint" where
  "decode_packet M e0 =
     (case sync_to_stx M e0 of
        None \<Rightarrow> ((0, None), e0\<lparr>rx_len := 0\<rparr>)
      | Some e \<Rightarrow>
          (case parse_header M (rx_data e) (rx_len e) of
             None \<Rightarrow> ((0, None), e)
           | Some h \<Rightarrow>
               if rx_len e < ph_expected_size h then ((0, None), e)
               else
                 let size = ph_expected_size h;
                     st = (rstat e)\<lparr>rs_total := rs_total (rstat e) + 1\<rparr>;
                     e1 = e\<lparr>last_packet_len := size\<rparr>;
                     entry = get_msg_entry M (ph_msgid h)
                 in if (case entry of None \<Rightarrow> False | Some en \<Rightarrow> \<not> check_crc M (rx_data e1) en) then
                      ((0, None), e1\<lparr>rstat := st\<lparr>crc_error := crc_error st + 1,
                                             crc_error_bytes := crc_error_bytes st + of_nat size\<rparr>\<rparr>)
                    else
                      let st1 = st\<lparr>handled := handled st + 1, handled_bytes := handled_bytes st + of_nat size\<rparr>;
                          buf = \<lparr>b_data = take size (rx_data e), b_curr = packet_msg_info M (rx_data e) h entry\<rparr>
                      in ((if entry \<noteq> None then ReadOk else ReadUnkownMsg, Some buf),
                          e1\<lparr>rstat := count_sequence (ph_seq h) st1\<rparr>)))"

definition Endpoint_read_msg ::
  "mavlib \<Rightarrow> endpoint \<Rightarrow> world \<Rightarrow> (int \<times> buffer option) \<times> endpoint \<times> world" where
  "Endpoint_read_msg M e w =
     (if ep_fd e < 0 then ((- EINVAL, None), e, w)
      else
        let (should_read_more, e1) = discard_last_packet e
        in if should_read_more then
             (let ((r, bs), e2, w2) = ep_read (RX_BUF_MAX_SIZE M - rx_len e1) e1 w
              in if r \<le> 0 then ((r, None), e2, w2)
                 else let e3 = e2\<lparr>rx_data := memwrite (rx_data e2) (rx_len e2) bs, rx_len := rx_len e2 + length bs\<rparr>;
                          (res, e4) = decode_packet M e3
                      in (res, e4, w2))
           else let (res, e2) = decode_packet M e1 in (res, e2, w))"

definition ep_read_msg ::
  "mavlib \<Rightarrow> endpoint \<Rightarrow> world \<Rightarrow> (int \<times> buffer option) \<times> endpoint \<times> world" where
  "ep_read_msg M e w =
     (let ((ret, buf), e1, w1) = Endpoint_read_msg M e w
      in case ep_type e of
           UART \<Rightarrow>
             (case change_baud_timeout (uart e1) of
                Some t \<Rightarrow>
                  if ret = ReadOk then
                    ((ret, buf), e1\<lparr>uart := (uart e1)\<lparr>change_baud_timeout := None\<rparr>\<rparr>, del_timeout t w1)
                  else ((ret, buf), e1, w1)
              | None \<Rightarrow> ((ret, buf), e1, w1))
         | _ \<Rightarrow> ((ret, buf), e1, w1))"


section \<open>Packets\<close>

text \<open>A whole packet: a start marker, the length its header announces, and the checksum of a
  known message right.\<close>

definition well_formed :: "mavlib \<Rightarrow> bytes \<Rightarrow> bool" where
  "well_formed M p \<longleftrightarrow> p \<noteq> [] \<and> p ! 0 \<in> {STX2 M, STX1 M} \<and>
     (case parse_header M p (length p) of
        None \<Rightarrow> False
      | Some h \<Rightarrow> ph_expected_size h = length p \<and>
          (case get_msg_entry M (ph_msgid h) of None \<Rightarrow> True | Some en \<Rightarrow> check_crc M p en))"

definition msg_of :: "mavlib \<Rightarrow> bytes \<Rightarrow> buffer" where
  "msg_of M p =
     (let h = the (parse_header M p (length p))
      in \<lparr>b_data = p, b_curr = packet_msg_info M p h (get_msg_entry M (ph_msgid h))\<rparr>)"

definition read_code :: "mavlib \<Rightarrow> bytes \<Rightarrow> int" where
  "read_code M p =
     (if get_msg_entry M (ph_msgid (the (parse_header M p (length p)))) \<noteq> None then ReadOk else ReadUnkownMsg)"

section \<open>Lemmas: decoding\<close>

lemma parse_header_size:
  "parse_header M d n = Some h \<Longrightarrow> ph_payload_ofs h + unat (ph_payload_len h) + 2 \<le> ph_expected_size h \<and> 6 \<le> ph_payload_ofs h"
  by (auto simp: parse_header_def Let_def split: if_splits)

lemma parse_header_size_le:
  "mavlib_ok M \<Longrightarrow> parse_header M d n = Some h \<Longrightarrow> ph_expected_size h \<le> MAX_PACKET_LEN M"
proof -
  assume M: "mavlib_ok M" and h: "parse_header M d n = Some h"
  have b: "unat b < 256" for b :: u8 using unsigned_less [of b] by simp
  show ?thesis using M h b [of "d ! 1"]
    by (auto simp: parse_header_def Let_def mavlib_ok_def mavlink1_header_at_def mavlink2_header_at_def split: if_splits)
qed

lemma nth_append_prefix: "i < length p \<Longrightarrow> (p @ r) ! i = p ! i"
  by (simp add: nth_append)

text \<open>The header and the checksum are read from the packet alone.\<close>

lemma parse_header_local:
  assumes "p \<noteq> []"
  shows "parse_header M (p @ r) (length p) = parse_header M p (length p)"
proof -
  have i: "(p @ r) ! i = p ! i" if "i < length p" for i using that by (simp add: nth_append_prefix)
  have 0: "(p @ r) ! 0 = p ! 0" using assms by (simp add: i)
  show ?thesis
    by (auto simp: parse_header_def 0 i mavlink1_header_at_def mavlink2_header_at_def Let_def)
qed

lemma parse_header_longer: "parse_header M d n = Some h \<Longrightarrow> n \<le> m \<Longrightarrow> parse_header M d m = Some h"
  by (auto simp: parse_header_def split: if_splits)

lemma parse_header_prefix:
  assumes "parse_header M p (length p) = Some h" "length p \<le> n"
  shows "parse_header M (p @ r) n = Some h"
proof -
  have "p \<noteq> []" using assms(1) by (auto simp: parse_header_def split: if_splits)
  then show ?thesis
    using parse_header_local [of p M r] parse_header_longer [of M "p @ r" "length p" h n] assms by simp
qed

lemma memread_prefix: "off + n \<le> length p \<Longrightarrow> memread (p @ r) off n = memread p off n"
  by (simp add: memread_def)

lemma check_crc_prefix:
  assumes "parse_header M p (length p) = Some h" "ph_expected_size h \<le> length p"
  shows "check_crc M (p @ r) en = check_crc M p en"
proof (cases "p ! 0 = STX2 M")
  case True
  with assms have l: "10 + unat (p ! 1) + 2 \<le> length p"
    by (auto simp: parse_header_def Let_def mavlink2_header_at_def split: if_splits)
  then have i: "(p @ r) ! i = p ! i" if "i < 10 + unat (p ! 1) + 2" for i using that by (simp add: nth_append_prefix)
  show ?thesis using l True by (simp add: check_crc_def i mavlink2_header_at_def memread_prefix Let_def)
next
  case False
  with assms have l: "6 + unat (p ! 1) + 2 \<le> length p"
    by (auto simp: parse_header_def Let_def mavlink1_header_at_def split: if_splits)
  then have i: "(p @ r) ! i = p ! i" if "i < 6 + unat (p ! 1) + 2" for i using that by (simp add: nth_append_prefix)
  show ?thesis using l False by (simp add: check_crc_def i mavlink1_header_at_def memread_prefix Let_def)
qed

lemma packet_msg_info_prefix:
  assumes "parse_header M p (length p) = Some h" "ph_expected_size h \<le> length p"
  shows "packet_msg_info M (p @ r) h en = packet_msg_info M p h en"
proof -
  have "ph_payload_ofs h + unat (ph_payload_len h) + 2 \<le> length p"
    using parse_header_size [OF assms(1)] assms(2) by simp
  then have "target_field (p @ r) h b ofs = target_field p h b ofs" for b ofs
    by (simp add: target_field_def nth_append word_less_nat_alt)
  then show ?thesis by (simp add: packet_msg_info_def split: option.split)
qed


text \<open>The reception buffer keeps its size, holds at most that much, and when no packet is
  waiting to be discarded there is room for at least one more packet.\<close>

definition rx_inv :: "mavlib \<Rightarrow> endpoint \<Rightarrow> bool" where
  "rx_inv M e \<longleftrightarrow> length (rx_data e) = RX_BUF_MAX_SIZE M \<and> rx_len e \<le> RX_BUF_MAX_SIZE M \<and>
     last_packet_len e \<le> rx_len e \<and> (last_packet_len e = 0 \<longrightarrow> rx_len e < MAX_PACKET_LEN M)"

text \<open>The bytes not handed out yet.\<close>

definition pending :: "endpoint \<Rightarrow> bytes" where
  "pending e = drop (last_packet_len e) (rx_bytes e)"

lemma rx_data_split: "rx_data e = rx_bytes e @ drop (rx_len e) (rx_data e)"
  by (simp add: rx_bytes_def)

lemma rx_len_bytes: "rx_len e \<le> length (rx_data e) \<Longrightarrow> length (rx_bytes e) = rx_len e"
  by (simp add: rx_bytes_def)

definition after_packet :: "mavlib \<Rightarrow> bytes \<Rightarrow> endpoint \<Rightarrow> endpoint" where
  "after_packet M p e =
     e\<lparr>last_packet_len := length p,
       rstat := count_sequence (ph_seq (the (parse_header M p (length p))))
         ((rstat e)\<lparr>rs_total := rs_total (rstat e) + 1, handled := handled (rstat e) + 1,
                    handled_bytes := handled_bytes (rstat e) + of_nat (length p)\<rparr>)\<rparr>"

lemma decode_packet_well_formed:
  assumes "rx_len e \<le> length (rx_data e)" "rx_bytes e = p @ rest" "well_formed M p"
  shows "decode_packet M e = ((read_code M p, Some (msg_of M p)), after_packet M p e)"
proof -
  obtain h where h: "parse_header M p (length p) = Some h" "ph_expected_size h = length p"
    and crc: "case get_msg_entry M (ph_msgid h) of None \<Rightarrow> True | Some en \<Rightarrow> check_crc M p en"
    and p: "p \<noteq> []" "p ! 0 \<in> {STX2 M, STX1 M}"
    using assms(3) by (auto simp: well_formed_def split: option.splits)
  have d: "rx_data e = p @ rest @ drop (rx_len e) (rx_data e)"
    using rx_data_split [of e] assms(2) by simp
  then obtain r where r: "rx_data e = p @ r" by blast
  have len: "length p \<le> rx_len e" using rx_len_bytes [OF assms(1)] assms(2) by simp
  have sync: "sync_to_stx M e = Some e" using p r by (auto simp: sync_to_stx_def nth_append)
  have hdr: "parse_header M (rx_data e) (rx_len e) = Some h"
    using parse_header_prefix [OF h(1) len] r by simp
  have c: "check_crc M (rx_data e) en = check_crc M p en" for en
    using check_crc_prefix [OF h(1), of r en] h(2) r by simp
  have i: "packet_msg_info M (rx_data e) h en = packet_msg_info M p h en" for en
    using packet_msg_info_prefix [OF h(1), of r en] h(2) r by simp
  have t: "take (length p) (rx_data e) = p" using r by simp
  show ?thesis
    using crc h len
    by (auto simp: decode_packet_def sync hdr c i t msg_of_def read_code_def after_packet_def Let_def
        split: option.splits)
qed

text \<open>A packet that is not complete yet stays in the buffer.\<close>

definition incomplete :: "mavlib \<Rightarrow> bytes \<Rightarrow> bool" where
  "incomplete M q \<longleftrightarrow> q = [] \<or> (\<exists>q'. q' \<noteq> [] \<and> well_formed M (q @ q'))"

lemma decode_packet_incomplete:
  assumes "rx_len e \<le> length (rx_data e)" "rx_bytes e = q" "incomplete M q"
  shows "decode_packet M e = ((0, None), e)"
proof (cases "q = []")
  case True
  then have "rx_len e = 0" using rx_len_bytes [OF assms(1)] assms(2) by simp
  moreover from this have "e\<lparr>rx_len := 0\<rparr> = e" by simp
  ultimately show ?thesis using True
    by (auto simp: decode_packet_def sync_to_stx_def parse_header_def rx_bytes_def split: option.splits)
next
  case False
  have len: "rx_len e = length q" using rx_len_bytes [OF assms(1)] assms(2) by simp
  obtain r where r: "rx_data e = q @ r" using rx_data_split [of e] assms(2) by metis
  obtain q' where q': "well_formed M (q @ q')" "q' \<noteq> []" using assms(3) False by (auto simp: incomplete_def)
  obtain h where h: "parse_header M (q @ q') (length (q @ q')) = Some h" "ph_expected_size h = length (q @ q')"
    and p: "(q @ q') ! 0 \<in> {STX2 M, STX1 M}"
    using q'(1) by (auto simp: well_formed_def split: option.splits)
  have p0: "q ! 0 \<in> {STX2 M, STX1 M}" using p False by (simp add: nth_append)
  have sync: "sync_to_stx M e = Some e" using p0 r False by (auto simp: sync_to_stx_def nth_append)
  show ?thesis
  proof (cases "parse_header M (rx_data e) (rx_len e)")
    case None
    then show ?thesis by (simp add: decode_packet_def sync)
  next
    case (Some h')
    then have "parse_header M q (length q) = Some h'"
      using parse_header_local [OF False, of M r] r len by simp
    then have "parse_header M (q @ q') (length (q @ q')) = Some h'"
      by (rule parse_header_prefix) simp
    then show ?thesis using Some h len q'(2) by (simp add: decode_packet_def sync)
  qed
qed


section \<open>The read loop\<close>

lemma set_net_sock_frame [simp]:
  "rx_data (set_net_sock a e) = rx_data e" "rx_len (set_net_sock a e) = rx_len e"
  "last_packet_len (set_net_sock a e) = last_packet_len e" "rstat (set_net_sock a e) = rstat e"
  "ep_type (set_net_sock a e) = ep_type e" "ep_fd (set_net_sock a e) = ep_fd e"
  "uart (set_net_sock a e) = uart e"
  by (simp_all add: set_net_sock_def)

lemma tcp_hangup_rx [simp]:
  "rx_data (fst (tcp_hangup e w)) = rx_data e" "rx_len (fst (tcp_hangup e w)) = rx_len e"
  "last_packet_len (fst (tcp_hangup e w)) = last_packet_len e" "rstat (fst (tcp_hangup e w)) = rstat e"
  "ep_type (fst (tcp_hangup e w)) = ep_type e" "uart (fst (tcp_hangup e w)) = uart e"
  by (simp_all add: tcp_hangup_def tcp_schedule_reconnect_def tcp_close_def case_prod_unfold Let_def)

definition same_rx :: "endpoint \<Rightarrow> endpoint \<Rightarrow> bool" where
  "same_rx e e' \<longleftrightarrow> rx_data e' = rx_data e \<and> rx_len e' = rx_len e \<and>
     last_packet_len e' = last_packet_len e \<and> rstat e' = rstat e \<and> ep_type e' = ep_type e"

lemma same_rx_refl [simp]: "same_rx e e"
  by (simp add: same_rx_def)

lemma same_rx_set_net_sock [simp]: "same_rx e (set_net_sock a e)"
  by (simp add: same_rx_def)

lemma same_rx_tcp_hangup: "same_rx e e1 \<Longrightarrow> same_rx e (fst (tcp_hangup e1 w))"
  by (simp add: same_rx_def)

definition read_result :: "nat \<Rightarrow> endpoint \<Rightarrow> (int \<times> bytes) \<times> endpoint \<times> world \<Rightarrow> bool" where
  "read_result len e x \<longleftrightarrow> same_rx e (fst (snd x)) \<and> length (snd (fst x)) \<le> len \<and>
     (fst (fst x) > 0 \<longrightarrow> fst (fst x) = int (length (snd (fst x))) \<and> ep_fd (fst (snd x)) = ep_fd e)"

lemma uart_read_result: "read_result len e (uart_read len e w)"
  by (simp add: read_result_def uart_read_def sys_recv_def Let_def same_rx_def split: rcv_res.split)

lemma udp_read_result: "read_result len e (udp_read len e w)"
  by (simp add: read_result_def udp_read_def sys_recv_def Let_def split: rcv_res.split)

lemma tcp_read_result: "read_result len e (tcp_read len e w)"
  by (auto simp: read_result_def tcp_read_def sys_recv_def Let_def same_rx_tcp_hangup split: rcv_res.split)

lemma ep_read_frame:
  assumes "ep_read len e w = ((r, bs), e', w')"
  shows "same_rx e e'" "length bs \<le> len" "r > 0 \<Longrightarrow> r = int (length bs)" "r > 0 \<Longrightarrow> ep_fd e' = ep_fd e"
proof -
  have "read_result len e (ep_read len e w)"
    by (simp add: ep_read_def uart_read_result udp_read_result tcp_read_result split: ep_type.split) (simp add: read_result_def)
  then show "same_rx e e'" "length bs \<le> len" "r > 0 \<Longrightarrow> r = int (length bs)" "r > 0 \<Longrightarrow> ep_fd e' = ep_fd e"
    by (simp_all add: assms read_result_def)
qed


lemma decode_packet_progress:
  assumes "decode_packet M e = ((r, b), e')" "r > 0"
  shows "0 < last_packet_len e'" "last_packet_len e' \<le> rx_len e'" "rx_len e' \<le> rx_len e" "b \<noteq> None"
proof -
  obtain e1 where s: "sync_to_stx M e = Some e1"
    using assms by (auto simp: decode_packet_def split: option.splits)
  obtain h where h: "parse_header M (rx_data e1) (rx_len e1) = Some h"
    using assms s by (auto simp: decode_packet_def split: option.splits)
  have size: "\<not> rx_len e1 < ph_expected_size h"
    using assms s h by (auto simp: decode_packet_def)
  have le: "rx_len e1 \<le> rx_len e"
    using s by (auto simp: sync_to_stx_def Let_def split: if_splits)
  have "b \<noteq> None \<and> last_packet_len e' = ph_expected_size h \<and> rx_len e' = rx_len e1"
    using assms size by (auto simp: decode_packet_def s h Let_def split: option.splits if_splits)
  with le size parse_header_size [OF h]
  show "0 < last_packet_len e'" "last_packet_len e' \<le> rx_len e'" "rx_len e' \<le> rx_len e" "b \<noteq> None" by auto
qed

text \<open>A bound of the iterations of the loop in \<open>handle_read\<close>: only the first one reads, the
  others consume what was read.\<close>

definition rx_measure :: "mavlib \<Rightarrow> endpoint \<Rightarrow> nat" where
  "rx_measure M e = (if last_packet_len e = 0 then max (RX_BUF_MAX_SIZE M) (rx_len e) + 1
                     else rx_len e - last_packet_len e)"

lemma Endpoint_read_msg_progress:
  assumes "Endpoint_read_msg M e w = ((r, b), e', w')" "r > 0"
  shows "rx_measure M e' < rx_measure M e" "b \<noteq> None" "last_packet_len e' \<noteq> 0"
proof -
  have "\<not> ep_fd e < 0" using assms by (auto simp: Endpoint_read_msg_def split: if_splits)
  have "rx_measure M e' < rx_measure M e \<and> b \<noteq> None \<and> last_packet_len e' \<noteq> 0"
  proof (cases "last_packet_len e = 0")
    case True
    obtain r1 bs e1 w1 where rd: "ep_read (RX_BUF_MAX_SIZE M - rx_len e) e w = ((r1, bs), e1, w1)"
      by (metis prod.collapse)
    define e3 where "e3 = e1\<lparr>rx_data := memwrite (rx_data e1) (rx_len e1) bs, rx_len := rx_len e1 + length bs\<rparr>"
    have "\<not> r1 \<le> 0" "decode_packet M e3 = ((r, b), e')"
      using assms True \<open>\<not> ep_fd e < 0\<close>
      by (auto simp: Endpoint_read_msg_def discard_last_packet_def rd e3_def Let_def split: if_splits prod.splits)
    moreover have "rx_len e3 \<le> max (RX_BUF_MAX_SIZE M) (rx_len e)"
      using ep_read_frame(1,2) [OF rd] by (auto simp: e3_def same_rx_def)
    ultimately show ?thesis
      using decode_packet_progress [of M e3 r b e'] assms(2) True by (auto simp: rx_measure_def)
  next
    case False
    then have "decode_packet M (snd (discard_last_packet e)) = ((r, b), e')"
      using assms \<open>\<not> ep_fd e < 0\<close>
      by (auto simp: Endpoint_read_msg_def discard_last_packet_def Let_def split: if_splits prod.splits)
    moreover have "rx_len (snd (discard_last_packet e)) = rx_len e - last_packet_len e"
      using False by (simp add: discard_last_packet_def Let_def)
    ultimately show ?thesis
      using decode_packet_progress [of M "snd (discard_last_packet e)" r b e'] assms(2) False
      by (auto simp: rx_measure_def)
  qed
  then show "rx_measure M e' < rx_measure M e" "b \<noteq> None" "last_packet_len e' \<noteq> 0" by blast+
qed

lemma rx_measure_uart [simp]: "rx_measure M (e\<lparr>uart := u\<rparr>) = rx_measure M e"
  by (simp add: rx_measure_def)

lemma ep_read_msg_split:
  assumes "ep_read_msg M e w = ((r, b), e', w')"
  obtains e1 w1 where "Endpoint_read_msg M e w = ((r, b), e1, w1)" "e' = e1\<lparr>uart := uart e'\<rparr>"
    "w' = w1\<lparr>w_timeouts := w_timeouts w'\<rparr>"
proof -
  obtain r1 b1 e1 w1 where 1: "Endpoint_read_msg M e w = ((r1, b1), e1, w1)" by (metis prod.collapse)
  have "r1 = r \<and> b1 = b \<and> e' = e1\<lparr>uart := uart e'\<rparr> \<and> w' = w1\<lparr>w_timeouts := w_timeouts w'\<rparr>"
    using assms
    by (cases "ep_type e"; cases "change_baud_timeout (uart e1)"; cases "r1 = ReadOk")
       (auto simp: ep_read_msg_def 1 del_timeout_def)
  then show thesis using that 1 by blast
qed

lemma ep_read_msg_progress:
  assumes "ep_read_msg M e w = ((r, b), e', w')" "r > 0"
  shows "rx_measure M e' < rx_measure M e" "b \<noteq> None"
proof -
  obtain e1 w1 where 1: "Endpoint_read_msg M e w = ((r, b), e1, w1)" "e' = e1\<lparr>uart := uart e'\<rparr>"
    using ep_read_msg_split [OF assms(1)] by blast
  note p = Endpoint_read_msg_progress [OF 1(1) assms(2)]
  show "rx_measure M e' < rx_measure M e" using p(1) by (subst 1(2)) simp
  show "b \<noteq> None" by (rule p(2))
qed

text \<open>The loop of \<open>handle_read\<close>, with the messages it takes from the endpoint.\<close>

function read_loop :: "mavlib \<Rightarrow> endpoint \<Rightarrow> world \<Rightarrow> (int \<times> buffer list) \<times> endpoint \<times> world" where
  "read_loop M e w =
     (case ep_read_msg M e w of
        ((r, b), e1, w1) \<Rightarrow>
          if r \<le> 0 then ((r, []), e1, w1)
          else (case read_loop M e1 w1 of ((r', bs), s) \<Rightarrow> ((r', the b # bs), s)))"
  by pat_completeness auto
termination
  by (relation "measure (\<lambda>(M, e, w). rx_measure M e)") (auto intro: ep_read_msg_progress(1) [OF sym])

declare read_loop.simps [simp del]


section \<open>Packets survive any fragmentation\<close>

lemma well_formed_length: "mavlib_ok M \<Longrightarrow> well_formed M p \<Longrightarrow> 0 < length p \<and> length p \<le> MAX_PACKET_LEN M"
  by (auto simp: well_formed_def split: option.splits dest: parse_header_size_le)

lemma incomplete_length: "mavlib_ok M \<Longrightarrow> incomplete M q \<Longrightarrow> length q < MAX_PACKET_LEN M"
proof -
  assume M: "mavlib_ok M" and "incomplete M q"
  then consider "q = []" | q' where "q' \<noteq> []" "well_formed M (q @ q')" by (auto simp: incomplete_def)
  then show ?thesis
  proof cases
    case 2
    then show ?thesis using well_formed_length [OF M 2(2)] by (cases q') auto
  qed (use M in \<open>simp add: mavlib_ok_def\<close>)
qed

lemma discard_last_packet_pending:
  assumes "rx_inv M e" "last_packet_len e \<noteq> 0"
  obtains e1 where "discard_last_packet e = (False, e1)" "rx_bytes e1 = pending e"
    "length (rx_data e1) = RX_BUF_MAX_SIZE M" "rx_len e1 = length (pending e)" "last_packet_len e1 = 0"
    "ep_fd e1 = ep_fd e" "ep_type e1 = ep_type e" "rx_len e1 \<le> RX_BUF_MAX_SIZE M"
proof -
  define n where "n = rx_len e - last_packet_len e"
  define d where "d = (if n > 0 then memmove_down (rx_data e) (last_packet_len e) n else rx_data e)"
  have b: "last_packet_len e + n \<le> length (rx_data e)" "n \<le> RX_BUF_MAX_SIZE M"
    using assms by (auto simp: rx_inv_def n_def)
  have "take n d = pending e" "length d = RX_BUF_MAX_SIZE M"
    using b assms take_memmove_down [OF b(1)] length_memmove_down [OF b(1)]
    by (auto simp: d_def rx_inv_def pending_def rx_bytes_def n_def drop_take)
  moreover have "length (pending e) = n"
    using assms by (simp add: pending_def rx_bytes_def n_def rx_inv_def)
  ultimately show thesis
    using that [of "snd (discard_last_packet e)"] assms(2) b
    by (simp add: discard_last_packet_def Let_def n_def [symmetric] d_def [symmetric] rx_bytes_def)
qed

text \<open>What a step of the loop does with the endpoint and the world, apart from the data.\<close>

definition keeps_reading :: "endpoint \<times> world \<Rightarrow> endpoint \<times> world \<Rightarrow> bool" where
  "keeps_reading s s' \<longleftrightarrow> ep_fd (fst s') = ep_fd (fst s) \<and> ep_type (fst s') = ep_type (fst s) \<and>
     w_rcv (snd s') = w_rcv (snd s) \<and> w_rcvtick (snd s') = w_rcvtick (snd s)"

lemma keeps_reading_trans: "keeps_reading s t \<Longrightarrow> keeps_reading t u \<Longrightarrow> keeps_reading s u"
  by (simp add: keeps_reading_def)

lemma uart_frame [simp]:
  "rx_inv M (e\<lparr>uart := u\<rparr>) = rx_inv M e" "pending (e\<lparr>uart := u\<rparr>) = pending e"
  "rx_bytes (e\<lparr>uart := u\<rparr>) = rx_bytes e"
  by (simp_all add: rx_inv_def pending_def rx_bytes_def)

text \<open>The outcome of decoding a buffer whose content is a packet and more, or an incomplete
  packet.\<close>

definition took :: "mavlib \<Rightarrow> bytes \<Rightarrow> bytes \<Rightarrow> (int \<times> buffer option) \<times> endpoint \<Rightarrow> bool" where
  "took M p rest x \<longleftrightarrow> fst (fst x) > 0 \<and> snd (fst x) = Some (msg_of M p) \<and>
     rx_inv M (snd x) \<and> last_packet_len (snd x) \<noteq> 0 \<and> pending (snd x) = rest"

definition waits :: "mavlib \<Rightarrow> bytes \<Rightarrow> (int \<times> buffer option) \<times> endpoint \<Rightarrow> bool" where
  "waits M q x \<longleftrightarrow> fst (fst x) = 0 \<and> rx_inv M (snd x) \<and> last_packet_len (snd x) = 0 \<and> rx_bytes (snd x) = q"

lemma decode_took:
  assumes "mavlib_ok M" "length (rx_data e) = RX_BUF_MAX_SIZE M" "rx_len e \<le> RX_BUF_MAX_SIZE M"
    and "rx_bytes e = p @ rest" "well_formed M p"
  shows "took M p rest (decode_packet M e)"
    and "ep_fd (snd (decode_packet M e)) = ep_fd e" "ep_type (snd (decode_packet M e)) = ep_type e"
proof -
  have d: "decode_packet M e = ((read_code M p, Some (msg_of M p)), after_packet M p e)"
    using decode_packet_well_formed [of e p rest M] assms by simp
  have len: "length p \<le> rx_len e"
    using rx_len_bytes [of e] assms(2-4) by simp
  show "took M p rest (decode_packet M e)"
    using assms len well_formed_length [OF assms(1,5)]
    by (auto simp: took_def d after_packet_def read_code_def rx_inv_def pending_def rx_bytes_def)
  show "ep_fd (snd (decode_packet M e)) = ep_fd e" "ep_type (snd (decode_packet M e)) = ep_type e"
    by (simp_all add: d after_packet_def)
qed

lemma decode_waits:
  assumes "mavlib_ok M" "length (rx_data e) = RX_BUF_MAX_SIZE M" "rx_len e \<le> RX_BUF_MAX_SIZE M"
    and "rx_bytes e = q" "incomplete M q" "last_packet_len e = 0"
  shows "waits M q (decode_packet M e)"
    and "ep_fd (snd (decode_packet M e)) = ep_fd e" "ep_type (snd (decode_packet M e)) = ep_type e"
proof -
  have d: "decode_packet M e = ((0, None), e)"
    using decode_packet_incomplete [of e q M] assms(2-5) by simp
  show "ep_fd (snd (decode_packet M e)) = ep_fd e" "ep_type (snd (decode_packet M e)) = ep_type e"
    by (simp_all add: d)
  have "rx_len e = length q" using rx_len_bytes [of e] assms(2-4) by simp
  then show "waits M q (decode_packet M e)"
    using assms incomplete_length [OF assms(1,5)] by (simp add: d waits_def rx_inv_def)
qed

text \<open>The calls of \<open>read_msg\<close> after the first one of a loop: they read nothing.\<close>

lemma ep_read_msg_buffered:
  assumes "rx_inv M e" "last_packet_len e \<noteq> 0" "ep_fd e \<ge> 0"
  obtains e1 r b e2 w2 where "ep_read_msg M e w = ((r, b), e2, w2)"
    "length (rx_data e1) = RX_BUF_MAX_SIZE M" "rx_len e1 \<le> RX_BUF_MAX_SIZE M" "rx_bytes e1 = pending e"
    "last_packet_len e1 = 0" "ep_fd e1 = ep_fd e" "ep_type e1 = ep_type e"
    "fst (decode_packet M e1) = (r, b)" "e2 = (snd (decode_packet M e1))\<lparr>uart := uart e2\<rparr>"
    "w2 = w\<lparr>w_timeouts := w_timeouts w2\<rparr>"
proof -
  obtain e1 where e1: "discard_last_packet e = (False, e1)" "rx_bytes e1 = pending e"
    "length (rx_data e1) = RX_BUF_MAX_SIZE M" "rx_len e1 \<le> RX_BUF_MAX_SIZE M" "last_packet_len e1 = 0"
    "ep_fd e1 = ep_fd e" "ep_type e1 = ep_type e"
    using discard_last_packet_pending [OF assms(1,2)] by metis
  obtain r b e2 w2 where rd: "ep_read_msg M e w = ((r, b), e2, w2)" by (metis prod.collapse)
  have "Endpoint_read_msg M e w = (fst (decode_packet M e1), snd (decode_packet M e1), w)"
    using assms(3) e1(1) by (simp add: Endpoint_read_msg_def case_prod_unfold Let_def)
  with ep_read_msg_split [OF rd] have "fst (decode_packet M e1) = (r, b)"
    "e2 = (snd (decode_packet M e1))\<lparr>uart := uart e2\<rparr>" "w2 = w\<lparr>w_timeouts := w_timeouts w2\<rparr>"
    by (metis prod.inject)+
  then show thesis using that rd e1 by blast
qed


text \<open>The state between two events: an incomplete packet is buffered.\<close>

definition idle :: "mavlib \<Rightarrow> bytes \<Rightarrow> endpoint \<Rightarrow> bool" where
  "idle M q e \<longleftrightarrow> rx_inv M e \<and> last_packet_len e = 0 \<and> rx_bytes e = q \<and> ep_fd e \<ge> 0 \<and> ep_type e \<noteq> LOG"

lemma rcv_timeouts:
  "w2 = w\<lparr>w_timeouts := x\<rparr> \<Longrightarrow> w_rcv w2 = w_rcv w" "w2 = w\<lparr>w_timeouts := x\<rparr> \<Longrightarrow> w_rcvtick w2 = w_rcvtick w"
  by simp_all

lemma uart_update_fields:
  assumes "e2 = e1\<lparr>uart := u\<rparr>"
  shows "rx_inv M e2 = rx_inv M e1" "pending e2 = pending e1" "rx_bytes e2 = rx_bytes e1"
    "last_packet_len e2 = last_packet_len e1" "ep_fd e2 = ep_fd e1" "ep_type e2 = ep_type e1"
  using assms by simp_all

lemma read_loop_drain:
  assumes "mavlib_ok M" "rx_inv M e" "last_packet_len e \<noteq> 0" "ep_fd e \<ge> 0"
    and "pending e = concat ps @ q" "\<forall>p \<in> set ps. well_formed M p" "ep_type e \<noteq> LOG" "incomplete M q"
  obtains e' w' where "read_loop M e w = ((0, map (msg_of M) ps), e', w')" "idle M q e'"
    "keeps_reading (e, w) (e', w')"
  using assms(2-7)
proof (induction ps arbitrary: e w thesis)
  case Nil
  obtain e1 r b e2 w2 where rd: "ep_read_msg M e w = ((r, b), e2, w2)"
    and e1: "length (rx_data e1) = RX_BUF_MAX_SIZE M" "rx_len e1 \<le> RX_BUF_MAX_SIZE M" "rx_bytes e1 = pending e"
    "last_packet_len e1 = 0" "ep_fd e1 = ep_fd e" "ep_type e1 = ep_type e"
    and d: "fst (decode_packet M e1) = (r, b)" "e2 = (snd (decode_packet M e1))\<lparr>uart := uart e2\<rparr>"
    "w2 = w\<lparr>w_timeouts := w_timeouts w2\<rparr>"
    by (rule ep_read_msg_buffered [OF Nil.prems(2-4), of w])
  have "rx_bytes e1 = q" using e1(3) Nil.prems(5) by simp
  note dw = decode_waits [OF assms(1) e1(1,2) this assms(8) e1(4)]
  have "r = 0" using dw(1) d(1) by (simp add: waits_def)
  then have "read_loop M e w = ((0, map (msg_of M) []), e2, w2)"
    by (subst read_loop.simps) (simp add: rd)
  moreover have "idle M q e2" "keeps_reading (e, w) (e2, w2)"
    using dw e1 Nil.prems(4,7) uart_update_fields [OF d(2)] rcv_timeouts [OF d(3)]
    by (simp_all add: idle_def waits_def keeps_reading_def)
  ultimately show ?case by (rule Nil.prems(1))
next
  case (Cons p ps)
  obtain e1 r b e2 w2 where rd: "ep_read_msg M e w = ((r, b), e2, w2)"
    and e1: "length (rx_data e1) = RX_BUF_MAX_SIZE M" "rx_len e1 \<le> RX_BUF_MAX_SIZE M" "rx_bytes e1 = pending e"
    "last_packet_len e1 = 0" "ep_fd e1 = ep_fd e" "ep_type e1 = ep_type e"
    and d: "fst (decode_packet M e1) = (r, b)" "e2 = (snd (decode_packet M e1))\<lparr>uart := uart e2\<rparr>"
    "w2 = w\<lparr>w_timeouts := w_timeouts w2\<rparr>"
    by (rule ep_read_msg_buffered [OF Cons.prems(2-4), of w])
  have p: "rx_bytes e1 = p @ (concat ps @ q)" "well_formed M p" using e1(3) Cons.prems(5,6) by simp_all
  note dt = decode_took [OF assms(1) e1(1,2) p]
  note u = uart_update_fields [OF d(2)]
  have k: "keeps_reading (e, w) (e2, w2)"
    using dt e1 u rcv_timeouts [OF d(3)] by (simp add: keeps_reading_def)
  have "rx_inv M e2" "last_packet_len e2 \<noteq> 0" "ep_fd e2 \<ge> 0" "pending e2 = concat ps @ q" "ep_type e2 \<noteq> LOG"
    using dt u e1 Cons.prems(4,7) by (simp_all add: took_def)
  then obtain e' w' where rest: "read_loop M e2 w2 = ((0, map (msg_of M) ps), e', w')" "idle M q e'"
    "keeps_reading (e2, w2) (e', w')"
    using Cons.IH [of e2 w2] Cons.prems(6) by auto
  have "r > 0" "b = Some (msg_of M p)" using dt(1) d(1) by (simp_all add: took_def)
  then have "read_loop M e w = ((0, map (msg_of M) (p # ps)), e', w')"
    by (subst read_loop.simps) (simp add: rd rest(1))
  then show ?case using Cons.prems(1) rest(2) keeps_reading_trans [OF k rest(3)] by blast
qed


lemma ep_read_RcvOk:
  assumes "w_rcv w (w_rcvtick w) = RcvOk bs a" "bs \<noteq> []" "length bs \<le> len" "ep_type e \<noteq> LOG"
  obtains e' w' where "ep_read len e w = ((int (length bs), bs), e', w')" "same_rx e e'" "ep_fd e' = ep_fd e"
    "w_rcv w' = w_rcv w" "w_rcvtick w' = Suc (w_rcvtick w)"
proof -
  define w1 where "w1 = w\<lparr>w_rcvtick := Suc (w_rcvtick w)\<rparr>"
  have rc: "sys_recv len w = (RcvOk bs a, w1)" using assms by (simp add: sys_recv_def w1_def)
  show thesis
  proof (cases "ep_type e")
    case UART
    then show ?thesis using that [of e w1] by (simp add: ep_read_def uart_read_def rc w1_def)
  next
    case UDP
    then show ?thesis
      using that [of "set_net_sock a e" "case nomessage_timeout (udp e) of None \<Rightarrow> w1 | Some t \<Rightarrow> mod_timeout t 5000 w1"]
      by (cases "nomessage_timeout (udp e)") (simp_all add: ep_read_def udp_read_def rc w1_def mod_timeout_def)
  next
    case TCP
    then show ?thesis
      using that [of "set_net_sock a e" w1] assms(2) by (simp add: ep_read_def tcp_read_def rc w1_def)
  qed (simp add: assms(4))
qed

text \<open>One input event: the loop hands out exactly the packets completed by the received
  bytes and keeps the rest.\<close>

lemma read_loop_event:
  assumes "mavlib_ok M" "idle M q0 e" "w_rcv w (w_rcvtick w) = RcvOk bs a" "bs \<noteq> []"
    and "length q0 + length bs \<le> RX_BUF_MAX_SIZE M" "q0 @ bs = concat ps @ q"
    and "\<forall>p \<in> set ps. well_formed M p" "incomplete M q"
  obtains e' w' where "read_loop M e w = ((0, map (msg_of M) ps), e', w')" "idle M q e'"
    "w_rcv w' = w_rcv w" "w_rcvtick w' = Suc (w_rcvtick w)"
proof -
  have e: "rx_inv M e" "last_packet_len e = 0" "rx_bytes e = q0" "ep_fd e \<ge> 0" "ep_type e \<noteq> LOG"
    using assms(2) by (auto simp: idle_def)
  have len: "rx_len e < MAX_PACKET_LEN M" "length (rx_data e) = RX_BUF_MAX_SIZE M"
    using e(1,2) by (auto simp: rx_inv_def)
  have "rx_len e = length q0" using rx_len_bytes [of e] e(1,3) by (simp add: rx_inv_def)
  then have space: "length bs \<le> RX_BUF_MAX_SIZE M - rx_len e" using assms(5) by simp
  from ep_read_RcvOk [OF assms(3,4) this e(5)]
  obtain e1 w1 where rd: "ep_read (RX_BUF_MAX_SIZE M - rx_len e) e w = ((int (length bs), bs), e1, w1)"
    "same_rx e e1" "ep_fd e1 = ep_fd e" "w_rcv w1 = w_rcv w" "w_rcvtick w1 = Suc (w_rcvtick w)"
    by blast
  have fits: "rx_len e + length bs \<le> length (rx_data e)" "rx_len e \<le> length (rx_data e)"
    using space len e(1) by (auto simp: rx_inv_def)
  define e3 where "e3 = e1\<lparr>rx_data := memwrite (rx_data e1) (rx_len e1) bs, rx_len := rx_len e1 + length bs\<rparr>"
  have e3: "length (rx_data e3) = RX_BUF_MAX_SIZE M" "rx_len e3 \<le> RX_BUF_MAX_SIZE M"
    "rx_bytes e3 = concat ps @ q" "last_packet_len e3 = 0" "ep_fd e3 = ep_fd e" "ep_type e3 = ep_type e"
    using rd(2,3) len e fits assms(6)
    by (auto simp: e3_def same_rx_def mem_simps rx_bytes_def)
  obtain r b e4 w4 where r4: "ep_read_msg M e w = ((r, b), e4, w4)" by (metis prod.collapse)
  have "Endpoint_read_msg M e w = (fst (decode_packet M e3), snd (decode_packet M e3), w1)"
    using e(2,4) rd(1) assms(4)
    by (simp add: Endpoint_read_msg_def discard_last_packet_def case_prod_unfold Let_def e3_def)
  with ep_read_msg_split [OF r4] have d: "fst (decode_packet M e3) = (r, b)"
    "e4 = (snd (decode_packet M e3))\<lparr>uart := uart e4\<rparr>" "w4 = w1\<lparr>w_timeouts := w_timeouts w4\<rparr>"
    by (metis prod.inject)+
  note u = uart_update_fields [OF d(2)]
  note rt = rcv_timeouts [OF d(3)]
  show thesis
  proof (cases ps)
    case Nil
    then have "rx_bytes e3 = q" using e3(3) by simp
    note dw = decode_waits [OF assms(1) e3(1,2) this assms(8) e3(4)]
    have "r = 0" using dw(1) d(1) by (simp add: waits_def)
    then have "read_loop M e w = ((0, map (msg_of M) ps), e4, w4)"
      by (subst read_loop.simps) (simp add: r4 Nil)
    then show thesis using that [of e4 w4] dw u rt rd e3 e(4,5) by (simp add: idle_def waits_def)
  next
    case (Cons p ps')
    have p: "rx_bytes e3 = p @ (concat ps' @ q)" "well_formed M p" using e3(3) assms(7) Cons by simp_all
    note dt = decode_took [OF assms(1) e3(1,2) p]
    have r: "r > 0" "b = Some (msg_of M p)" using dt(1) d(1) by (simp_all add: took_def)
    have "rx_inv M e4" "last_packet_len e4 \<noteq> 0" "ep_fd e4 \<ge> 0" "pending e4 = concat ps' @ q"
      "\<forall>p \<in> set ps'. well_formed M p" "ep_type e4 \<noteq> LOG"
      using dt u e3 e(4,5) assms(7) Cons by (simp_all add: took_def)
    from read_loop_drain [OF assms(1) this assms(8), of w4]
    obtain e' w' where rest: "read_loop M e4 w4 = ((0, map (msg_of M) ps'), e', w')" "idle M q e'"
      "keeps_reading (e4, w4) (e', w')" by blast
    have "read_loop M e w = ((0, map (msg_of M) ps), e', w')"
      by (subst read_loop.simps) (use r in \<open>simp add: r4 rest(1) Cons\<close>)
    then show thesis using that [of e' w'] rest(2,3) rt rd(4,5) by (simp add: keeps_reading_def)
  qed
qed

text \<open>A prefix of a sequence of packets: whole packets and a proper part of the next one.\<close>

lemma split_packets:
  assumes "xs @ ys = concat ps" "\<forall>p \<in> set ps. well_formed M p"
  obtains ps1 ps2 q where "ps = ps1 @ ps2" "xs = concat ps1 @ q" "incomplete M q" "q @ ys = concat ps2"
  using assms
proof (induction ps arbitrary: xs thesis)
  case Nil
  then show ?case using Nil.prems(1) [of "[]" "[]" "[]"] by (simp add: incomplete_def)
next
  case (Cons p ps)
  show ?case
  proof (cases "length p \<le> length xs")
    case True
    then obtain xs' where xs: "xs = p @ xs'" "xs' @ ys = concat ps"
      using Cons.prems(2) by (auto simp: append_eq_append_conv2)
    obtain ps1 ps2 q where "ps = ps1 @ ps2" "xs' = concat ps1 @ q" "incomplete M q" "q @ ys = concat ps2"
      using Cons.IH [OF _ xs(2)] Cons.prems(3) by auto
    then show ?thesis using Cons.prems(1) [of "p # ps1" ps2 q] xs(1) by simp
  next
    case False
    then obtain q' where q': "p = xs @ q'" "q' \<noteq> []"
      using Cons.prems(2) by (auto simp: append_eq_append_conv2)
    then have "incomplete M xs" using Cons.prems(3) by (auto simp: incomplete_def)
    then show ?thesis using Cons.prems(1) [of "[]" "p # ps" xs] Cons.prems(2) by simp
  qed
qed

text \<open>The number of bytes of the packet that is begun and not complete after the first \<open>n\<close> bytes
  of a sequence of packets, and the condition on the pieces: each fits into the room that these
  bytes leave in the reception buffer.\<close>

fun begun :: "bytes list \<Rightarrow> nat \<Rightarrow> nat" where
  "begun [] n = n"
| "begun (p # ps) n = (if length p \<le> n then begun ps (n - length p) else n)"

fun pieces_fit :: "mavlib \<Rightarrow> bytes list \<Rightarrow> nat \<Rightarrow> bytes list \<Rightarrow> bool" where
  "pieces_fit M ps n [] = True"
| "pieces_fit M ps n (c # cs) \<longleftrightarrow>
     c \<noteq> [] \<and> begun ps n + length c \<le> RX_BUF_MAX_SIZE M \<and> pieces_fit M ps (n + length c) cs"

lemma begun_append: "begun (ps1 @ ps2) (length (concat ps1) + n) = begun ps2 n"
  by (induction ps1) auto

lemma pieces_fit_append: "pieces_fit M (ps1 @ ps2) (length (concat ps1) + n) cs = pieces_fit M ps2 n cs"
proof (induction cs arbitrary: n)
  case (Cons c cs)
  then show ?case using Cons.IH [of "n + length c"] by (simp only: pieces_fit.simps begun_append add.assoc)
qed simp

lemma begun_incomplete:
  assumes "incomplete M q" "q @ ys = concat ps" "\<forall>p \<in> set ps. well_formed M p"
  shows "begun ps (length q) = length q"
proof (cases ps)
  case (Cons p ps')
  have "\<not> length p \<le> length q"
  proof
    assume "length p \<le> length q"
    then obtain q1 where q: "q = p @ q1" using assms(2) Cons by (auto simp: append_eq_append_conv2)
    obtain h where h: "parse_header M p (length p) = Some h" "ph_expected_size h = length p" "p \<noteq> []"
      using assms(3) Cons by (auto simp: well_formed_def split: option.splits)
    obtain q' where q': "q' \<noteq> []" "well_formed M (q @ q')" using assms(1) q h(3) by (auto simp: incomplete_def)
    have "parse_header M (q @ q') (length (q @ q')) = Some h"
      using parse_header_prefix [OF h(1), of "length (q @ q')" "q1 @ q'"] q by simp
    then show False using q' h(2) q by (simp add: well_formed_def)
  qed
  then show ?thesis using Cons by simp
qed simp

text \<open>Consecutive input events.\<close>

fun read_events :: "mavlib \<Rightarrow> nat \<Rightarrow> endpoint \<Rightarrow> world \<Rightarrow> buffer list \<times> endpoint \<times> world" where
  "read_events M 0 e w = ([], e, w)"
| "read_events M (Suc n) e w =
     (let ((r, bs), e1, w1) = read_loop M e w; (cs, s) = read_events M n e1 w1 in (bs @ cs, s))"

lemma no_whole_packet:
  assumes "incomplete M (concat ps)" "\<forall>p \<in> set ps. well_formed M p"
  shows "ps = []"
proof (rule ccontr)
  assume "ps \<noteq> []"
  then obtain p ps' where ps: "ps = p # ps'" by (cases ps) auto
  obtain h where h: "parse_header M p (length p) = Some h" "ph_expected_size h = length p" "p \<noteq> []"
    using assms(2) ps by (auto simp: well_formed_def split: option.splits)
  obtain q' where q': "q' \<noteq> []" "well_formed M (concat ps @ q')"
    using assms(1) ps h(3) by (auto simp: incomplete_def)
  have "parse_header M (concat ps @ q') (length (concat ps @ q')) = Some h"
    using parse_header_prefix [OF h(1), of "length (concat ps @ q')" "concat ps' @ q'"] ps by simp
  then show False using q' h(2) ps by (simp add: well_formed_def)
qed

lemma read_events_packets:
  assumes "mavlib_ok M" "idle M q0 e" "q0 @ concat chunks = concat ps" "\<forall>p \<in> set ps. well_formed M p"
    and "pieces_fit M ps (length q0) chunks"
    and "\<forall>i < length chunks. w_rcv w (w_rcvtick w + i) = RcvOk (chunks ! i) (from i)"
    and "incomplete M q0"
  shows "\<exists>e' w'. read_events M (length chunks) e w = (map (msg_of M) ps, e', w') \<and> idle M [] e'"
  using assms(2-7)
proof (induction chunks arbitrary: q0 e ps w "from")
  case Nil
  then have "ps = []" using no_whole_packet [of M ps] by simp
  then show ?case using Nil by simp
next
  case (Cons c chunks)
  obtain ps1 ps2 q where s: "ps = ps1 @ ps2" "q0 @ c = concat ps1 @ q" "incomplete M q" "q @ concat chunks = concat ps2"
    using split_packets [of "q0 @ c" "concat chunks" ps M] Cons.prems(2,3) by auto
  have rc: "w_rcv w (w_rcvtick w) = RcvOk c (from 0)" using Cons.prems(5) by force
  obtain e1 w1 where l: "read_loop M e w = ((0, map (msg_of M) ps1), e1, w1)" "idle M q e1"
    "w_rcv w1 = w_rcv w" "w_rcvtick w1 = Suc (w_rcvtick w)"
    using read_loop_event [OF assms(1) Cons.prems(1) rc _ _ s(2) _ s(3)] Cons.prems(3,4) s(1)
      begun_incomplete [OF Cons.prems(6,2,3)] by auto
  have fit: "pieces_fit M ps2 (length q) chunks"
    using Cons.prems(4) s(1) pieces_fit_append [of M ps1 ps2 "length q" chunks] arg_cong [OF s(2), of length] by simp
  have "\<forall>i < length chunks. w_rcv w1 (w_rcvtick w1 + i) = RcvOk (chunks ! i) (from (Suc i))"
    using Cons.prems(5) l(3,4) by force
  from Cons.IH [OF l(2) s(4) _ fit this s(3)] Cons.prems(3) s(1)
  obtain e' w' where "read_events M (length chunks) e1 w1 = (map (msg_of M) ps2, e', w') \<and> idle M [] e'" by auto
  then show ?case using l(1) s(1) by simp
qed


section \<open>Arbitrary input\<close>

lemma find_stx_bound: "0 < i \<Longrightarrow> find_stx M bs i \<noteq> 0 \<Longrightarrow> i \<le> find_stx M bs i \<and> find_stx M bs i < i + length bs"
  by (induction M bs i rule: find_stx.induct) (auto split: if_splits)

lemma sync_to_stx_mem:
  assumes "sync_to_stx M e = Some e1" "length (rx_data e) = RX_BUF_MAX_SIZE M" "rx_len e \<le> RX_BUF_MAX_SIZE M"
  shows "length (rx_data e1) = RX_BUF_MAX_SIZE M" "rx_len e1 \<le> RX_BUF_MAX_SIZE M"
    "last_packet_len e1 = last_packet_len e"
proof -
  define k where "k = find_stx M (drop (Suc 0) (rx_bytes e)) (Suc 0)"
  have "k < 1 + length (drop 1 (rx_bytes e))" if "k \<noteq> 0"
    using find_stx_bound [of 1 M "drop 1 (rx_bytes e)"] that unfolding k_def by simp
  then have "k + (rx_len e - k) \<le> length (rx_data e)" if "k \<noteq> 0"
    using that assms(2,3) by (auto simp: rx_bytes_def)
  then show "length (rx_data e1) = RX_BUF_MAX_SIZE M" "rx_len e1 \<le> RX_BUF_MAX_SIZE M"
    "last_packet_len e1 = last_packet_len e"
    using assms by (auto simp: sync_to_stx_def k_def [symmetric] Let_def mem_simps split: if_splits)
qed

lemma decode_packet_inv:
  assumes "mavlib_ok M" "length (rx_data e) = RX_BUF_MAX_SIZE M" "rx_len e \<le> RX_BUF_MAX_SIZE M" "last_packet_len e = 0"
  shows "rx_inv M (snd (decode_packet M e))"
proof (cases "sync_to_stx M e")
  case None
  then show ?thesis using assms by (simp add: decode_packet_def rx_inv_def mavlib_ok_def)
next
  case (Some e1)
  note e1 = sync_to_stx_mem [OF Some assms(2,3)]
  show ?thesis
  proof (cases "parse_header M (rx_data e1) (rx_len e1)")
    case None
    then have "rx_len e1 < 10" by (auto simp: parse_header_def Let_def split: if_splits)
    with None show ?thesis using assms e1 by (simp add: decode_packet_def Some rx_inv_def mavlib_ok_def)
  next
    case h: (Some h)
    have "ph_expected_size h \<le> MAX_PACKET_LEN M" "6 \<le> ph_expected_size h"
      using parse_header_size [OF h] parse_header_size_le [OF assms(1) h] by auto
    then show ?thesis
      using assms(4) e1
      by (cases "get_msg_entry M (ph_msgid h)") (auto simp: decode_packet_def Some h rx_inv_def Let_def)
  qed
qed

text \<open>Whatever is received, the buffer keeps its invariant: no access leaves it.\<close>

lemma rx_inv_same_rx: "same_rx e e' \<Longrightarrow> rx_inv M e' = rx_inv M e"
  by (simp add: same_rx_def rx_inv_def)

lemma Endpoint_read_msg_inv:
  assumes "mavlib_ok M" "rx_inv M e"
  shows "rx_inv M (fst (snd (Endpoint_read_msg M e w)))"
proof (cases "last_packet_len e = 0")
  case True
  obtain r bs e1 w1 where rd: "ep_read (RX_BUF_MAX_SIZE M - rx_len e) e w = ((r, bs), e1, w1)"
    by (metis prod.collapse)
  note f = ep_read_frame(1,2) [OF rd]
  define e3 where "e3 = e1\<lparr>rx_data := memwrite (rx_data e1) (rx_len e1) bs, rx_len := rx_len e1 + length bs\<rparr>"
  have "length (rx_data e3) = RX_BUF_MAX_SIZE M" "rx_len e3 \<le> RX_BUF_MAX_SIZE M" "last_packet_len e3 = 0"
    using f assms(2) True by (auto simp: e3_def same_rx_def rx_inv_def length_memwrite)
  then have "rx_inv M (snd (decode_packet M e3))" by (rule decode_packet_inv [OF assms(1)])
  moreover have "rx_inv M e1" using f(1) assms(2) by (simp add: rx_inv_same_rx)
  ultimately show ?thesis using assms(2) True
    by (simp add: Endpoint_read_msg_def discard_last_packet_def rd e3_def case_prod_unfold Let_def)
next
  case False
  obtain e1 where "discard_last_packet e = (False, e1)" "length (rx_data e1) = RX_BUF_MAX_SIZE M"
    "rx_len e1 \<le> RX_BUF_MAX_SIZE M" "last_packet_len e1 = 0"
    using discard_last_packet_pending [OF assms(2) False] by metis
  then show ?thesis using decode_packet_inv [OF assms(1), of e1] assms(2)
    by (simp add: Endpoint_read_msg_def case_prod_unfold Let_def)
qed

lemma ep_read_msg_inv:
  assumes "mavlib_ok M" "rx_inv M e"
  shows "rx_inv M (fst (snd (ep_read_msg M e w)))"
proof -
  obtain r b e' w' where rd: "ep_read_msg M e w = ((r, b), e', w')" by (metis prod.collapse)
  obtain e1 w1 where 1: "Endpoint_read_msg M e w = ((r, b), e1, w1)" "e' = e1\<lparr>uart := uart e'\<rparr>"
    using ep_read_msg_split [OF rd] by blast
  show ?thesis using Endpoint_read_msg_inv [OF assms, of w] uart_update_fields(1) [OF 1(2)] by (simp add: rd 1(1))
qed

text \<open>Bytes without a start marker in front of a packet are skipped.\<close>

lemma find_stx_skip:
  "STX2 M \<notin> set g \<Longrightarrow> STX1 M \<notin> set g \<Longrightarrow> p \<noteq> [] \<Longrightarrow> p ! 0 \<in> {STX2 M, STX1 M} \<Longrightarrow>
   find_stx M (g @ p @ r) i = i + length g"
  by (induction g arbitrary: i) (auto simp: neq_Nil_conv)

lemma decode_packet_resync:
  assumes "mavlib_ok M" "length (rx_data e) = RX_BUF_MAX_SIZE M" "rx_len e \<le> RX_BUF_MAX_SIZE M"
    and "rx_bytes e = g @ p @ rest" "well_formed M p" "STX2 M \<notin> set g" "STX1 M \<notin> set g"
  shows "took M p rest (decode_packet M e)"
proof (cases g)
  case Nil
  then show ?thesis using decode_took(1) [OF assms(1-3) _ assms(5)] assms(4) by simp
next
  case (Cons x g')
  have p: "p \<noteq> []" "p ! 0 \<in> {STX2 M, STX1 M}" using assms(5) by (auto simp: well_formed_def)
  have x: "rx_data e ! 0 = x" using rx_data_split [of e] assms(4) Cons by (metis append_Cons nth_Cons_0)
  have k: "find_stx M (drop 1 (rx_bytes e)) 1 = length g"
    using find_stx_skip [of M g' p rest 1] assms(4,6,7) p Cons by simp
  define e1 where "e1 = e\<lparr>rx_len := rx_len e - length g, rx_data := memmove_down (rx_data e) (length g) (rx_len e - length g)\<rparr>"
  have s: "sync_to_stx M e = Some e1"
    using assms(6,7) Cons k x by (auto simp: sync_to_stx_def e1_def)
  have "length g \<le> rx_len e" using assms(2-4) rx_len_bytes [of e] by simp
  then have "rx_bytes e1 = p @ rest"
    using assms(2-4) drop_take [of "length g" "rx_len e" "rx_data e"]
    by (simp add: e1_def rx_bytes_def mem_simps)
  note m = sync_to_stx_mem(1,2) [OF s assms(2,3)] this
  have "took M p rest (decode_packet M e1)" by (rule decode_took(1) [OF assms(1) m(1,2,3) assms(5)])
  moreover have "rx_data e1 ! 0 = p ! 0"
    using rx_data_split [of e1] m(3) p(1) by (metis hd_append2 hd_conv_nth append_is_Nil_conv)
  then have "sync_to_stx M e1 = Some e1" using p by (auto simp: sync_to_stx_def)
  then have "decode_packet M e = decode_packet M e1" by (simp add: decode_packet_def s)
  ultimately show ?thesis by simp
qed

text \<open>The counter of lost messages: the distance to the expected sequence number, and one
  less when the number wrapped around.\<close>

lemma count_sequence_drop:
  assumes "rs_total st > 1"
  shows "drop_seq_total (count_sequence s st) = drop_seq_total st +
      (if s > expected_seq st then ucast (s - expected_seq st)
       else if s < expected_seq st then ucast (s - expected_seq st - 1) else 0)"
    and "expected_seq (count_sequence s st) = s + 1"
proof -
  have m: "(255 :: u8) = -1" by simp
  have wrapped: "255 - x + s = s - x - 1" for x :: u8 unfolding m by (simp add: algebra_simps)
  show "drop_seq_total (count_sequence s st) = drop_seq_total st +
      (if s > expected_seq st then ucast (s - expected_seq st)
       else if s < expected_seq st then ucast (s - expected_seq st - 1) else 0)"
    using assms by (auto simp: count_sequence_def Let_def wrapped)
  show "expected_seq (count_sequence s st) = s + 1"
    by (auto simp: count_sequence_def Let_def)
qed


text \<open>A whole packet of a known message with a wrong checksum is dropped and counted.\<close>

lemma decode_packet_bad_crc:
  assumes "rx_len e \<le> length (rx_data e)" "rx_bytes e = p @ rest" "p ! 0 \<in> {STX2 M, STX1 M}"
    and h: "parse_header M p (length p) = Some h" "ph_expected_size h = length p"
    and "get_msg_entry M (ph_msgid h) = Some en" "\<not> check_crc M p en"
  shows "\<exists>st. decode_packet M e = ((0, None), e\<lparr>last_packet_len := length p, rstat := st\<rparr>) \<and>
    crc_error st = crc_error (rstat e) + 1 \<and> handled st = handled (rstat e) \<and>
    crc_error_bytes st = crc_error_bytes (rstat e) + of_nat (length p)"
proof -
  have p: "p \<noteq> []" using h(1) by (auto simp: parse_header_def split: if_splits)
  obtain r where r: "rx_data e = p @ r" using rx_data_split [of e] assms(2) by (metis append_assoc)
  have len: "length p \<le> rx_len e" using rx_len_bytes [OF assms(1)] assms(2) by simp
  have sync: "sync_to_stx M e = Some e" using p assms(3) r by (auto simp: sync_to_stx_def nth_append)
  have hdr: "parse_header M (rx_data e) (rx_len e) = Some h"
    using parse_header_prefix [OF h(1) len] r by simp
  have c: "check_crc M (rx_data e) en = check_crc M p en"
    using check_crc_prefix [OF h(1), of r en] h(2) r by simp
  show ?thesis
    using assms(6,7) h(2) len
    by (intro exI [where x = "(rstat e)\<lparr>rs_total := rs_total (rstat e) + 1, crc_error := crc_error (rstat e) + 1,
        crc_error_bytes := crc_error_bytes (rstat e) + of_nat (length p)\<rparr>"])
       (simp add: decode_packet_def sync hdr c Let_def)
qed

section \<open>Properties\<close>

text \<open>C4: when the bytes of a sequence of well-formed packets arrive in pieces, however they are
  cut, and each piece fits into the room that the begun packet leaves in the reception buffer of
  \<open>RX_BUF_MAX_SIZE\<close> bytes, the read loops over the pieces hand out exactly these packets, unchanged
  and in order, each with the fields of its own header, and nothing stays buffered at the end. On a
  serial line and a TCP connection a read returns no more than there is room for, so that every cut
  fits; of a UDP datagram that is longer than the room the kernel drops the rest.\<close>

theorem packets_survive_fragmentation:
  assumes "mavlib_ok M" "idle M [] e" "concat chunks = concat ps" "\<forall>p \<in> set ps. well_formed M p"
    and "pieces_fit M ps 0 chunks"
    and "\<forall>i < length chunks. w_rcv w (w_rcvtick w + i) = RcvOk (chunks ! i) (src i)"
  shows "\<exists>e' w'. read_events M (length chunks) e w = (map (msg_of M) ps, e', w') \<and> idle M [] e'"
  using read_events_packets [of M "[]"] assms by (simp add: incomplete_def)

definition ex_packet1 :: bytes where "ex_packet1 = [254, 0, 5, 1, 2, 0, 9, 9]"

definition ex_packet2 :: bytes where "ex_packet2 = [253, 1, 0, 0, 7, 1, 2, 33, 0, 0, 42, 114, 0]"

lemma ex_packets_well_formed [simp]: "well_formed ex_mavlib ex_packet1" "well_formed ex_mavlib ex_packet2"
  by (simp_all add: well_formed_def ex_packet1_def ex_packet2_def ex_mavlib_def parse_header_def
      mavlink1_header_at_def mavlink2_header_at_def Let_def check_crc_def memread_def)

lemma ex_endpoint_rx [simp]:
  "t \<noteq> LOG \<Longrightarrow> idle ex_mavlib [] (ex_endpoint t)" "rx_inv ex_mavlib (ex_endpoint t)"
  by (simp_all add: idle_def rx_inv_def ex_endpoint_def Endpoint_init_def rx_bytes_def RX_BUF_MAX_SIZE_def)

definition ex_chunks :: "bytes list" where
  "ex_chunks = [[254, 0, 5], [1, 2, 0, 9, 9, 253, 1, 0], [0, 7, 1, 2, 33, 0, 0, 42, 114, 0]]"

lemma packets_survive_fragmentation_witness:
  "\<exists>e' w'. read_events ex_mavlib 3 (ex_endpoint UDP) (ex_world\<lparr>w_rcv := \<lambda>k. RcvOk (ex_chunks ! k) zero_sockaddr\<rparr>) =
     (map (msg_of ex_mavlib) [ex_packet1, ex_packet2], e', w') \<and> idle ex_mavlib [] e'"
proof -
  have c: "length ex_chunks = 3" "concat ex_chunks = concat [ex_packet1, ex_packet2]"
    "pieces_fit ex_mavlib [ex_packet1, ex_packet2] 0 ex_chunks"
    by (simp_all add: ex_chunks_def ex_packet1_def ex_packet2_def RX_BUF_MAX_SIZE_def)
  have "w_rcvtick ex_world = 0" by (simp add: ex_world_def)
  then show ?thesis
    using packets_survive_fragmentation [OF mavlib_ok_ex(1) ex_endpoint_rx(1) c(2) _ c(3),
        where w = "ex_world\<lparr>w_rcv := \<lambda>k. RcvOk (ex_chunks ! k) zero_sockaddr\<rparr>" and src = "\<lambda>_. zero_sockaddr"] c(1)
    by simp
qed

text \<open>Whatever bytes, results and errors the transport delivers, reading a message keeps the
  reception buffer at its size, with the valid bytes and the packet handed out last inside it, and
  with room for a longest packet before anything more is read.\<close>

theorem read_msg_never_leaves_buffer:
  assumes "mavlib_ok M" "rx_inv M e"
  shows "rx_inv M (fst (snd (ep_read_msg M e w)))"
  using assms by (rule ep_read_msg_inv)

lemma read_msg_never_leaves_buffer_witness: "rx_inv ex_mavlib (fst (snd (ep_read_msg ex_mavlib (ex_endpoint TCP) ex_world)))"
  using read_msg_never_leaves_buffer [of ex_mavlib "ex_endpoint TCP" ex_world] by simp

text \<open>Bytes that are no start marker are skipped: a packet behind them is handed out whole, and
  what follows it stays buffered.\<close>

theorem garbage_before_packet_skipped:
  assumes "mavlib_ok M" "length (rx_data e) = RX_BUF_MAX_SIZE M" "rx_len e \<le> RX_BUF_MAX_SIZE M"
    and "rx_bytes e = g @ p @ rest" "well_formed M p" "STX2 M \<notin> set g" "STX1 M \<notin> set g"
  shows "snd (fst (decode_packet M e)) = Some (msg_of M p) \<and> pending (snd (decode_packet M e)) = rest"
  using decode_packet_resync [OF assms] by (simp add: took_def)

definition ex_received :: "bytes \<Rightarrow> endpoint" where
  "ex_received bs = (ex_endpoint UART)\<lparr>rx_data := memwrite (rx_data (ex_endpoint UART)) 0 bs, rx_len := length bs\<rparr>"

lemma ex_received_rx:
  "length bs \<le> 1120 \<Longrightarrow> length (rx_data (ex_received bs)) = RX_BUF_MAX_SIZE ex_mavlib \<and>
     rx_len (ex_received bs) \<le> RX_BUF_MAX_SIZE ex_mavlib \<and> rx_bytes (ex_received bs) = bs"
  by (simp add: ex_received_def rx_bytes_def memwrite_def RX_BUF_MAX_SIZE_def ex_endpoint_def Endpoint_init_def)

lemma garbage_before_packet_skipped_witness:
  "snd (fst (decode_packet ex_mavlib (ex_received ([1, 2, 3] @ ex_packet2 @ [254])))) = Some (msg_of ex_mavlib ex_packet2)"
  using garbage_before_packet_skipped [of ex_mavlib "ex_received ([1, 2, 3] @ ex_packet2 @ [254])" "[1, 2, 3]" ex_packet2 "[254]"]
    ex_received_rx [of "[1, 2, 3] @ ex_packet2 @ [254]"]
  by (simp add: ex_packet2_def ex_packets_well_formed(2) [unfolded ex_packet2_def])

text \<open>C37: a packet of a known message whose checksum is wrong is not handed out: the call returns 0,
  the packet is counted as a checksum error, with its bytes and not as handled, and exactly its bytes
  are to be discarded.\<close>

theorem bad_crc_not_forwarded:
  assumes "rx_len e \<le> length (rx_data e)" "rx_bytes e = p @ rest" "p ! 0 \<in> {STX2 M, STX1 M}"
    and "parse_header M p (length p) = Some h" "ph_expected_size h = length p"
    and "get_msg_entry M (ph_msgid h) = Some en" "\<not> check_crc M p en"
  shows "fst (decode_packet M e) = (0, None) \<and> pending (snd (decode_packet M e)) = rest \<and>
    crc_error (rstat (snd (decode_packet M e))) = crc_error (rstat e) + 1 \<and>
    crc_error_bytes (rstat (snd (decode_packet M e))) = crc_error_bytes (rstat e) + of_nat (length p) \<and>
    handled (rstat (snd (decode_packet M e))) = handled (rstat e)"
proof -
  obtain st where st: "decode_packet M e = ((0, None), e\<lparr>last_packet_len := length p, rstat := st\<rparr>)"
    "crc_error st = crc_error (rstat e) + 1" "handled st = handled (rstat e)"
    "crc_error_bytes st = crc_error_bytes (rstat e) + of_nat (length p)"
    using decode_packet_bad_crc [OF assms] by blast
  show ?thesis using assms(2) by (simp add: st pending_def rx_bytes_def)
qed

lemma bad_crc_not_forwarded_witness:
  "fst (decode_packet ex_mavlib (ex_received [253, 1, 0, 0, 7, 1, 2, 33, 0, 0, 42, 115, 0])) = (0, None)"
  using bad_crc_not_forwarded [of "ex_received [253, 1, 0, 0, 7, 1, 2, 33, 0, 0, 42, 115, 0]"
      "[253, 1, 0, 0, 7, 1, 2, 33, 0, 0, 42, 115, 0]" "[]" ex_mavlib]
    ex_received_rx [of "[253, 1, 0, 0, 7, 1, 2, 33, 0, 0, 42, 115, 0]"]
  by (simp add: ex_mavlib_def parse_header_def mavlink2_header_at_def Let_def check_crc_def memread_def)

text \<open>The count of lost messages. A sequence number ahead of the expected one adds the distance,
  the expected one adds nothing, and one that wrapped around adds one less than the distance modulo
  256; the next expected number follows the one received.\<close>

lemma sequence_gap_counted:
  assumes "rs_total st > 1"
  shows "drop_seq_total (count_sequence s st) = drop_seq_total st +
      (if s > expected_seq st then ucast (s - expected_seq st)
       else if s < expected_seq st then ucast (s - expected_seq st - 1) else 0) \<and>
    expected_seq (count_sequence s st) = s + 1"
  using count_sequence_drop [OF assms] by simp

lemma sequence_gap_counted_witness:
  "drop_seq_total (count_sequence 2 ((rstat (ex_endpoint UART))\<lparr>rs_total := 9, expected_seq := 254\<rparr>)) = 3"
  using sequence_gap_counted [of "(rstat (ex_endpoint UART))\<lparr>rs_total := 9, expected_seq := 254\<rparr>" 2]
  by (simp add: ex_endpoint_def Endpoint_init_def)

end
