(* ===== verification/EndpointGroups.thy ===== *)
theory EndpointGroups
  imports Endpoint
begin

text \<open>
  Endpoint groups (endpoint.cpp): \<open>_add_sys_comp_id\<close>, which passes a newly seen system on to
  the members of the group and through them to theirs, and the operations that link and unlink
  members. The objects are a list, a reference is an index into it. As long as links are
  symmetric, members of a group know the same systems.
\<close>

section \<open>Model\<close>

definition learn :: "u16 \<Rightarrow> endpoint \<Rightarrow> endpoint" where
  "learn k e = e\<lparr>sys_comp_ids := sys_comp_ids e @ [k]\<rparr>"

definition lacking :: "u16 \<Rightarrow> endpoint list \<Rightarrow> nat" where
  "lacking k h = length (filter (\<lambda>e. \<not> has_sys_comp_id e k) h)"

lemma has_learn: "has_sys_comp_id (learn k e) k' \<longleftrightarrow> has_sys_comp_id e k' \<or> k' = k"
  by (auto simp: has_sys_comp_id_set learn_def)

lemma lacking_learn:
  "n < length h \<Longrightarrow> \<not> has_sys_comp_id (h ! n) k \<Longrightarrow> lacking k (h[n := learn k (h ! n)]) < lacking k h"
proof -
  assume n: "n < length h" "\<not> has_sys_comp_id (h ! n) k"
  define P where "P = (\<lambda>e. \<not> has_sys_comp_id e k)"
  have "length (filter P h) = length (filter P (take n h @ h ! n # drop (Suc n) h))"
    using id_take_nth_drop [OF n(1)] by simp
  moreover have "h[n := learn k (h ! n)] = take n h @ learn k (h ! n) # drop (Suc n) h"
    using n(1) by (rule upd_conv_take_nth_drop)
  ultimately show ?thesis
    using n(2) by (simp add: lacking_def P_def has_learn)
qed

text \<open>\<open>_add_sys_comp_id\<close> calls itself for the members of the group, which call theirs: the calls
  still to be made are the stack \<open>st\<close>.\<close>

function add_sys_comp_id_calls :: "u16 \<Rightarrow> nat list \<Rightarrow> endpoint list \<Rightarrow> endpoint list" where
  "add_sys_comp_id_calls k [] h = h"
| "add_sys_comp_id_calls k (n # st) h =
     (if n \<ge> length h \<or> has_sys_comp_id (h ! n) k then add_sys_comp_id_calls k st h
      else add_sys_comp_id_calls k (group_members (h ! n) @ st) (h[n := learn k (h ! n)]))"
  by pat_completeness auto
termination
  by (relation "measures [\<lambda>(k, st, h). lacking k h, \<lambda>(k, st, h). length st]") (auto simp: lacking_learn not_le)

definition add_sys_comp_id :: "nat \<Rightarrow> u8 \<Rightarrow> u8 \<Rightarrow> endpoint list \<Rightarrow> endpoint list" where
  "add_sys_comp_id n sysid compid h = add_sys_comp_id_calls (sys_comp_key sysid compid) [n] h"

definition link_group_member :: "nat \<Rightarrow> nat \<Rightarrow> endpoint list \<Rightarrow> endpoint list" where
  "link_group_member this other h =
     (if group_name (h ! this) = [] \<or> group_name (h ! other) \<noteq> group_name (h ! this) then h
      else h[this := (h ! this)\<lparr>group_members := group_members (h ! this) @ [other]\<rparr>])"

definition unlink_group_member :: "string \<Rightarrow> nat \<Rightarrow> endpoint list \<Rightarrow> endpoint list" where
  "unlink_group_member name this h =
     h[this := (h ! this)\<lparr>group_members := filter (\<lambda>m. ep_name (h ! m) \<noteq> name) (group_members (h ! this))\<rparr>]"

section \<open>The members of a group know the same systems\<close>

definition ids :: "endpoint list \<Rightarrow> nat \<Rightarrow> u16 set" where
  "ids h n = set (sys_comp_ids (h ! n))"

definition groups_symmetric :: "endpoint list \<Rightarrow> bool" where
  "groups_symmetric h \<longleftrightarrow>
     (\<forall>i < length h. \<forall>j \<in> set (group_members (h ! i)). j < length h \<and> i \<in> set (group_members (h ! j)))"

definition group_synced :: "endpoint list \<Rightarrow> bool" where
  "group_synced h \<longleftrightarrow>
     (\<forall>i < length h. \<forall>j \<in> set (group_members (h ! i)). ids h i = ids h j)"

lemma length_add_calls [simp]: "length (add_sys_comp_id_calls k st h) = length h"
  by (induction k st h rule: add_sys_comp_id_calls.induct) auto

text \<open>The calls change nothing but the tables of systems, and these only by the new key.\<close>

lemma add_calls_frame:
  "n < length h \<Longrightarrow> (add_sys_comp_id_calls k st h ! n)\<lparr>sys_comp_ids := []\<rparr> = (h ! n)\<lparr>sys_comp_ids := []\<rparr> \<and>
     ids h n \<subseteq> ids (add_sys_comp_id_calls k st h) n \<and> ids (add_sys_comp_id_calls k st h) n \<subseteq> insert k (ids h n)"
proof (induction k st h rule: add_sys_comp_id_calls.induct)
  case (2 k m st h)
  then show ?case
    by (cases "m \<ge> length h \<or> has_sys_comp_id (h ! m) k"; cases "n = m")
       (auto simp: ids_def learn_def)
qed (auto simp: ids_def)

text \<open>Every endpoint on the stack learns the key, and so does every member of one that
  learned it.\<close>

lemma add_calls_learn:
  "(\<forall>i \<in> set st. i < length h \<longrightarrow> k \<in> ids (add_sys_comp_id_calls k st h) i) \<and>
   (\<forall>i < length h. k \<notin> ids h i \<longrightarrow> k \<in> ids (add_sys_comp_id_calls k st h) i \<longrightarrow>
      (\<forall>j \<in> set (group_members (h ! i)). j < length h \<longrightarrow> k \<in> ids (add_sys_comp_id_calls k st h) j))"
proof (induction k st h rule: add_sys_comp_id_calls.induct)
  case (1 k h)
  then show ?case by (simp add: ids_def)
next
  case (2 k m st h)
  show ?case
  proof (cases "m \<ge> length h \<or> has_sys_comp_id (h ! m) k")
    case True
    have "k \<in> ids (add_sys_comp_id_calls k st h) m" if "m < length h"
      using that True add_calls_frame [where n = m and h = h and k = k and st = st] by (auto simp: ids_def has_sys_comp_id_set)
    then show ?thesis using "2.IH"(1) [OF True] True by simp
  next
    case False
    define h1 where "h1 = h[m := learn k (h ! m)]"
    have m: "m < length h" "length h1 = length h" using False by (simp_all add: h1_def)
    have h1: "group_members (h1 ! i) = group_members (h ! i)" "ids h1 i = (if i = m then insert k (ids h i) else ids h i)" if "i < length h" for i
      using that m by (auto simp: h1_def learn_def ids_def nth_list_update)
    define h2 where "h2 = add_sys_comp_id_calls k (group_members (h ! m) @ st) h1"
    note IH = "2.IH"(2) [OF False, folded h1_def, folded h2_def]
    have eq: "add_sys_comp_id_calls k (m # st) h = h2" using False by (simp add: h2_def h1_def)
    have km: "k \<in> ids h2 m"
      using add_calls_frame [where n = m and h = h1 and k = k and st = "group_members (h ! m) @ st"] m h1(2) [of m] by (auto simp: h2_def)
    show ?thesis
      unfolding eq using IH km m h1 by (auto split: if_splits)
  qed
qed


lemma add_calls_members [simp]:
  "n < length h \<Longrightarrow> group_members (add_sys_comp_id_calls k st h ! n) = group_members (h ! n)"
  using arg_cong [OF conjunct1 [OF add_calls_frame [where n = n and h = h and k = k and st = st]], of group_members]
  by (simp del: add_sys_comp_id_calls.simps)

declare add_sys_comp_id_calls.simps(2) [simp del]

lemma add_sys_comp_id_synced:
  assumes "groups_symmetric h" "group_synced h"
  shows "group_synced (add_sys_comp_id n s c h)" "groups_symmetric (add_sys_comp_id n s c h)"
proof -
  define k where "k = sys_comp_key s c"
  define h' where "h' = add_sys_comp_id_calls k [n] h"
  have len: "length h' = length h" and mem: "\<And>i. i < length h \<Longrightarrow> group_members (h' ! i) = group_members (h ! i)"
    by (simp_all add: h'_def)
  have sub: "ids h i \<subseteq> ids h' i" "ids h' i \<subseteq> insert k (ids h i)" if "i < length h" for i
    using add_calls_frame [OF that, where k = k and st = "[n]"] by (auto simp: h'_def)
  have closed: "k \<in> ids h' j" if "i < length h" "k \<notin> ids h i" "k \<in> ids h' i" "j \<in> set (group_members (h ! i))" "j < length h" for i j
    using conjunct2 [OF add_calls_learn [of "[n]" h k]] that unfolding h'_def by blast
  have "ids h' i = ids h' j" if ij: "i < length h" "j \<in> set (group_members (h ! i))" for i j
  proof -
    have j: "j < length h" "i \<in> set (group_members (h ! j))" using assms(1) ij unfolding groups_symmetric_def by blast+
    have eq: "ids h i = ids h j" using assms(2) ij unfolding group_synced_def by blast
    have "k \<in> ids h' i \<longleftrightarrow> k \<in> ids h' j"
      using closed [OF ij(1) _ _ ij(2) j(1)] closed [OF j(1) _ _ j(2) ij(1)] sub [OF ij(1)] sub [OF j(1)] eq by blast
    then show ?thesis using sub [OF ij(1)] sub [OF j(1)] eq by blast
  qed
  then show "group_synced (add_sys_comp_id n s c h)"
    using len mem by (simp add: group_synced_def add_sys_comp_id_def k_def [symmetric] h'_def [symmetric])
  show "groups_symmetric (add_sys_comp_id n s c h)"
    using assms(1) len mem unfolding groups_symmetric_def add_sys_comp_id_def k_def [symmetric] h'_def [symmetric]
    by metis
qed

lemma add_sys_comp_id_knows:
  "n < length h \<Longrightarrow> knows (add_sys_comp_id n s c h ! n) s c"
  using add_calls_learn [of "[n]" h "sys_comp_key s c"]
  by (simp add: knows_def add_sys_comp_id_def ids_def)

lemma add_sys_comp_id_keeps:
  "i < length h \<Longrightarrow> knows (h ! i) s' c' \<Longrightarrow> knows (add_sys_comp_id n s c h ! i) s' c'"
  using add_calls_frame [where n = i and h = h and k = "sys_comp_key s c" and st = "[n]"] by (auto simp: knows_def add_sys_comp_id_def ids_def)

section \<open>Properties\<close>

text \<open>C11: when the links of the groups are symmetric and members of a group know the same systems,
  then a newly seen system leaves it so: the recursion of \<open>_add_sys_comp_id\<close> reaches every member
  and ends. The endpoint the system was seen on knows it afterwards, and none forgets one.\<close>

theorem group_members_know_the_same:
  assumes "groups_symmetric h" "group_synced h" "n < length h"
  shows "group_synced (add_sys_comp_id n s c h) \<and> groups_symmetric (add_sys_comp_id n s c h) \<and>
    knows (add_sys_comp_id n s c h ! n) s c \<and>
    (\<forall>i < length h. \<forall>s' c'. knows (h ! i) s' c' \<longrightarrow> knows (add_sys_comp_id n s c h ! i) s' c')"
  using add_sys_comp_id_synced [OF assms(1,2)] add_sys_comp_id_knows [OF assms(3)] add_sys_comp_id_keeps by blast

definition ex_group :: "endpoint list" where
  "ex_group = [(ex_endpoint UART)\<lparr>group_name := ''g'', group_members := [1]\<rparr>,
               (ex_endpoint UDP)\<lparr>ep_id := 1, group_name := ''g'', group_members := [0]\<rparr>]"

lemma ex_group_nth [simp]:
  "length ex_group = 2"
  "group_members (ex_group ! 0) = [1]" "group_members (ex_group ! Suc 0) = [0]"
  "sys_comp_ids (ex_group ! 0) = []" "sys_comp_ids (ex_group ! Suc 0) = []"
  by (simp_all add: ex_group_def ex_endpoint_def Endpoint_init_def)

lemma ex_group_ok: "groups_symmetric ex_group" "group_synced ex_group"
proof -
  have i: "i = 0 \<or> i = Suc 0" if "i < length ex_group" for i using that by auto
  show "groups_symmetric ex_group" unfolding groups_symmetric_def using i by fastforce
  show "group_synced ex_group" unfolding group_synced_def ids_def using i by fastforce
qed

lemma group_members_know_the_same_witness:
  "group_synced (add_sys_comp_id 0 1 2 ex_group) \<and> knows (add_sys_comp_id 0 1 2 ex_group ! 0) 1 2"
  using group_members_know_the_same [of ex_group 0 1 2] ex_group_ok by simp

text \<open>A system an endpoint already knows is not passed on again. A member that joins the group
  later therefore never learns the systems the others knew before.\<close>

lemma known_system_not_passed_on:
  "knows (h ! n) s c \<Longrightarrow> add_sys_comp_id n s c h = h"
  by (simp add: add_sys_comp_id_def add_sys_comp_id_calls.simps(2) has_sys_comp_id_set knows_def)

definition ex_late_member :: "endpoint list" where
  "ex_late_member = [learn (sys_comp_key 1 2) (ex_group ! 0), ex_group ! 1]"

lemma known_system_not_passed_on_witness:
  "add_sys_comp_id 0 1 2 ex_late_member = ex_late_member \<and> \<not> knows (ex_late_member ! 1) 1 2"
proof -
  have "knows (ex_late_member ! 0) 1 2" by (simp add: ex_late_member_def knows_def learn_def)
  moreover have "\<not> knows (ex_late_member ! 1) 1 2"
    by (simp add: ex_late_member_def knows_def ex_group_def ex_endpoint_def Endpoint_init_def)
  ultimately show ?thesis using known_system_not_passed_on by blast
qed

end
