(* ===== verification/Dedup.thy ===== *)
theory Dedup
  imports Prelude
begin

text \<open>
  Message de-duplication (dedup.cpp): a queue of (time stamp, hash) pairs and the set of the
  hashes in it. \<open>std::hash\<close> is implementation defined and a parameter. The erasure of a hash
  that is not in the set would be undefined behaviour (erase of \<open>end()\<close>): the model answers
  \<open>None\<close> there. The abstract specification remembers, for every hash, when it was last let
  through.
\<close>

section \<open>Model\<close>

record dedup_impl =
  time_hash_queue :: "(u64 \<times> u64) list"
  packet_hash_set :: "u64 set"

datatype packet_status = NEW_PACKET_OR_TIMED_OUT | ALREADY_EXISTS_IN_BUFFER

record dedup =
  dedup_period_ms :: u32
  impl :: dedup_impl

definition dedup_init :: "u32 \<Rightarrow> dedup" where
  "dedup_init period =
     \<lparr>dedup_period_ms = period, impl = \<lparr>time_hash_queue = [], packet_hash_set = {}\<rparr>\<rparr>"

definition set_dedup_period :: "u32 \<Rightarrow> dedup \<Rightarrow> dedup" where
  "set_dedup_period period d = d\<lparr>dedup_period_ms := period\<rparr>"

text \<open>The loop that pops expired entries from the front of the queue.\<close>

fun dedup_expire ::
  "u64 \<Rightarrow> u64 \<Rightarrow> (u64 \<times> u64) list \<Rightarrow> u64 set \<Rightarrow> ((u64 \<times> u64) list \<times> u64 set) option" where
  "dedup_expire timestamp period [] S = Some ([], S)"
| "dedup_expire timestamp period ((t, h) # q) S =
     (if timestamp > t + period then
        (if h \<in> S then dedup_expire timestamp period q (S - {h}) else None)
      else Some ((t, h) # q, S))"

definition impl_check_packet ::
  "(bytes \<Rightarrow> u64) \<Rightarrow> u64 \<Rightarrow> u32 \<Rightarrow> bytes \<Rightarrow> dedup_impl \<Rightarrow> (bool \<times> dedup_impl) option" where
  "impl_check_packet hash_fn timestamp period buf d =
     (case dedup_expire timestamp (ucast period) (time_hash_queue d) (packet_hash_set d) of
        None \<Rightarrow> None
      | Some (q, S) \<Rightarrow>
          (let h = hash_fn buf
           in if h \<notin> S then
                Some (True, \<lparr>time_hash_queue = q @ [(timestamp, h)], packet_hash_set = insert h S\<rparr>)
              else Some (False, \<lparr>time_hash_queue = q, packet_hash_set = S\<rparr>)))"

definition dedup_check_packet ::
  "(bytes \<Rightarrow> u64) \<Rightarrow> u64 \<times> bytes \<Rightarrow> dedup \<Rightarrow> (packet_status \<times> dedup) option" where
  "dedup_check_packet hash_fn inp d =
     (let (timestamp, buf) = inp
      in if dedup_period_ms d = 0 then Some (NEW_PACKET_OR_TIMED_OUT, d)
         else case impl_check_packet hash_fn timestamp (dedup_period_ms d) buf (impl d) of
                None \<Rightarrow> None
              | Some (True, i) \<Rightarrow> Some (NEW_PACKET_OR_TIMED_OUT, d\<lparr>impl := i\<rparr>)
              | Some (False, i) \<Rightarrow> Some (ALREADY_EXISTS_IN_BUFFER, d\<lparr>impl := i\<rparr>))"

section \<open>Invariant\<close>

definition dedup_inv :: "dedup_impl \<Rightarrow> bool" where
  "dedup_inv d \<longleftrightarrow>
     packet_hash_set d = snd ` set (time_hash_queue d) \<and> distinct (map snd (time_hash_queue d)) \<and>
     sorted (map fst (time_hash_queue d))"

section \<open>Abstract specification\<close>

text \<open>
  The state is the period, the time of the previous packet and, per hash, the time it was last
  let through. A packet is new when its hash was never let through or more than the period ago.
\<close>

record dedup_spec =
  sp_period :: u32
  sp_last :: nat
  sp_accepted :: "u64 \<rightharpoonup> nat"

definition spec_fresh :: "dedup_spec \<Rightarrow> nat \<Rightarrow> u64 \<Rightarrow> bool" where
  "spec_fresh a t h \<longleftrightarrow>
     (case sp_accepted a h of None \<Rightarrow> True | Some t0 \<Rightarrow> t > t0 + unat (sp_period a))"

definition spec_check_packet ::
  "(bytes \<Rightarrow> u64) \<Rightarrow> u64 \<times> bytes \<Rightarrow> dedup_spec \<Rightarrow> packet_status \<times> dedup_spec" where
  "spec_check_packet hash_fn inp a =
     (let t = unat (fst inp); h = hash_fn (snd inp); a' = a\<lparr>sp_last := t\<rparr>
      in if sp_period a = 0 \<or> spec_fresh a t h
         then (NEW_PACKET_OR_TIMED_OUT, a'\<lparr>sp_accepted := (sp_accepted a)(h \<mapsto> t)\<rparr>)
         else (ALREADY_EXISTS_IN_BUFFER, a'))"

text \<open>The steady clock does not run backwards, and 2^63 milliseconds are not reached.\<close>

definition dedup_adm :: "u64 \<times> bytes \<Rightarrow> dedup_spec \<Rightarrow> bool" where
  "dedup_adm inp a \<longleftrightarrow> sp_last a \<le> unat (fst inp) \<and> unat (fst inp) < 2 ^ 63"

definition spec_init :: "u32 \<Rightarrow> dedup_spec" where
  "spec_init period = \<lparr>sp_period = period, sp_last = 0, sp_accepted = Map.empty\<rparr>"

text \<open>The refinement relation: the queue holds exactly the acceptances that are not expired
  as of the last packet.\<close>

definition dedup_rel :: "dedup \<Rightarrow> dedup_spec \<Rightarrow> bool" where
  "dedup_rel d a \<longleftrightarrow>
     dedup_period_ms d = sp_period a \<and> sp_last a < 2 ^ 63 \<and>
     (sp_period a \<noteq> 0 \<longrightarrow>
        dedup_inv (impl d) \<and>
        (\<forall>(t, h) \<in> set (time_hash_queue (impl d)). unat t \<le> sp_last a \<and> sp_accepted a h = Some (unat t)) \<and>
        (\<forall>h. h \<notin> packet_hash_set (impl d) \<longrightarrow> spec_fresh a (sp_last a) h))"

section \<open>Refinement\<close>

lemma unat_add_period:
  fixes t :: u64 and p :: u32
  assumes "unat t < 2 ^ 63"
  shows "unat (t + ucast p) = unat t + unat p"
proof -
  have "unat p < 2 ^ 32" using unsigned_less [of p] by simp
  then have p: "unat (ucast p :: u64) = unat p"
    by (simp add: unsigned_ucast_eq take_bit_nat_eq_self)
  from assms \<open>unat p < 2 ^ 32\<close> have "unat t + unat p < 2 ^ 64" by simp
  then show ?thesis using p by (simp add: unat_word_ariths)
qed

lemma spec_fresh_frame [simp]:
  "spec_fresh (a\<lparr>sp_last := x\<rparr>) t k = spec_fresh a t k"
  "k \<noteq> h \<Longrightarrow> spec_fresh (a\<lparr>sp_accepted := (sp_accepted a)(h \<mapsto> x)\<rparr>) t k = spec_fresh a t k"
  by (simp_all add: spec_fresh_def split: option.split)

text \<open>The entries that are not expired at a given time. Popping the expired front keeps the
  invariant, never erases a missing hash and removes exactly the expired entries.\<close>

definition live_entries :: "u32 \<Rightarrow> u64 \<Rightarrow> (u64 \<times> u64) list \<Rightarrow> (u64 \<times> u64) list" where
  "live_entries p ts q = filter (\<lambda>e. unat ts \<le> unat (fst e) + unat p) q"

lemma dedup_expire_live:
  assumes "S = snd ` set q" "distinct (map snd q)" "sorted (map fst q)"
    and "\<forall>e \<in> set q. unat (fst e) < 2 ^ 63"
  shows "dedup_expire ts (ucast p) q S = Some (live_entries p ts q, snd ` set (live_entries p ts q))"
  using assms
proof (induction q arbitrary: S)
  case Nil
  then show ?case by (simp add: live_entries_def)
next
  case (Cons e q)
  obtain t h where e: "e = (t, h)" by fastforce
  have "unat (t + ucast p) = unat t + unat p" using Cons.prems(4) e by (simp add: unat_add_period)
  then have cmp: "(ts > t + ucast p) = (\<not> unat ts \<le> unat t + unat p)"
    by (simp add: word_less_nat_alt not_le)
  show ?case
  proof (cases "ts > t + ucast p")
    case True
    have "S - {h} = snd ` set q" using Cons.prems(1,2) e by force
    moreover have "h \<in> S" using Cons.prems(1) e by force
    ultimately show ?thesis
      using True Cons.IH [of "S - {h}"] Cons.prems cmp e by (simp add: live_entries_def)
  next
    case False
    have "unat t \<le> unat (fst x)" if "x \<in> set q" for x
      using Cons.prems(3) that e by (simp add: word_le_nat_alt)
    with False cmp have "\<forall>x \<in> set q. unat ts \<le> unat (fst x) + unat p"
      by fastforce
    then have "live_entries p ts (e # q) = e # q"
      using False cmp e by (simp add: live_entries_def filter_id_conv)
    with False e Cons.prems(1) show ?thesis by simp
  qed
qed

lemma live_entries_fresh:
  assumes rel: "dedup_rel d a" and per: "sp_period a \<noteq> 0" and ts: "sp_last a \<le> unat ts"
  shows "(k \<notin> snd ` set (live_entries (sp_period a) ts (time_hash_queue (impl d)))) =
         spec_fresh a (unat ts) k"
proof (cases "k \<in> packet_hash_set (impl d)")
  case True
  then obtain t where t: "(t, k) \<in> set (time_hash_queue (impl d))"
    using rel per by (auto simp: dedup_rel_def dedup_inv_def)
  have uniq: "x = (t, k)" if "x \<in> set (time_hash_queue (impl d))" "snd x = k" for x
    using rel per t that inj_onD [of snd "set (time_hash_queue (impl d))" x "(t, k)"]
    by (simp add: dedup_rel_def dedup_inv_def distinct_map)
  have "(k \<in> snd ` set (live_entries (sp_period a) ts (time_hash_queue (impl d)))) =
      (unat ts \<le> unat t + unat (sp_period a))"
  proof
    assume "k \<in> snd ` set (live_entries (sp_period a) ts (time_hash_queue (impl d)))"
    then obtain x where x: "x \<in> set (time_hash_queue (impl d))" "snd x = k"
        "unat ts \<le> unat (fst x) + unat (sp_period a)"
      by (auto simp: live_entries_def)
    from uniq [OF x(1,2)] x(3) show "unat ts \<le> unat t + unat (sp_period a)" by simp
  next
    assume "unat ts \<le> unat t + unat (sp_period a)"
    with t have "(t, k) \<in> set (live_entries (sp_period a) ts (time_hash_queue (impl d)))"
      by (simp add: live_entries_def)
    then show "k \<in> snd ` set (live_entries (sp_period a) ts (time_hash_queue (impl d)))"
      by (rule rev_image_eqI) simp
  qed
  moreover have "sp_accepted a k = Some (unat t)"
    using rel per t by (auto simp: dedup_rel_def)
  ultimately show ?thesis by (simp add: spec_fresh_def not_le)
next
  case False
  then have "k \<notin> snd ` set (live_entries (sp_period a) ts (time_hash_queue (impl d)))"
    using rel per by (auto simp: dedup_rel_def dedup_inv_def live_entries_def)
  moreover have "spec_fresh a (sp_last a) k" using rel per False by (simp add: dedup_rel_def)
  then have "spec_fresh a (unat ts) k"
    using ts by (auto simp: spec_fresh_def split: option.splits)
  ultimately show ?thesis by simp
qed

text \<open>The relation after the expired entries are gone, and after a packet was let through.\<close>

lemma dedup_rel_expired:
  assumes rel: "dedup_rel d a" and per: "sp_period a \<noteq> 0"
    and ts: "sp_last a \<le> unat ts" "unat ts < 2 ^ 63"
    and q': "q' = live_entries (sp_period a) ts (time_hash_queue (impl d))"
  shows "dedup_rel (d\<lparr>impl := \<lparr>time_hash_queue = q', packet_hash_set = snd ` set q'\<rparr>\<rparr>)
           (a\<lparr>sp_last := unat ts\<rparr>)"
proof -
  have "unat t \<le> unat ts \<and> sp_accepted a k = Some (unat t)" if "(t, k) \<in> set q'" for t k
    using that rel per ts q' by (fastforce simp: dedup_rel_def live_entries_def)
  moreover have "distinct (map snd q')" "sorted (map fst q')"
    using rel per q'
    by (simp_all add: dedup_rel_def dedup_inv_def live_entries_def distinct_map_filter sorted_map
        sorted_wrt_filter)
  moreover have "spec_fresh (a\<lparr>sp_last := unat ts\<rparr>) (unat ts) k" if "k \<notin> snd ` set q'" for k
    using that live_entries_fresh [OF rel per ts(1)] q' by simp
  ultimately show ?thesis
    using rel ts by (auto simp: dedup_rel_def dedup_inv_def)
qed

lemma dedup_rel_accept:
  assumes rel: "dedup_rel d a" and per: "sp_period a \<noteq> 0" and last: "sp_last a = unat ts"
    and new: "h \<notin> packet_hash_set (impl d)"
  shows "dedup_rel (d\<lparr>impl := \<lparr>time_hash_queue = time_hash_queue (impl d) @ [(ts, h)],
                             packet_hash_set = insert h (packet_hash_set (impl d))\<rparr>\<rparr>)
           (a\<lparr>sp_accepted := (sp_accepted a)(h \<mapsto> unat ts)\<rparr>)"
proof -
  have inv: "packet_hash_set (impl d) = snd ` set (time_hash_queue (impl d))"
      "distinct (map snd (time_hash_queue (impl d)))" "sorted (map fst (time_hash_queue (impl d)))"
    using rel per by (simp_all add: dedup_rel_def dedup_inv_def)
  have acc: "t \<le> ts \<and> k \<noteq> h \<and> sp_accepted a k = Some (unat t)"
    if "(t, k) \<in> set (time_hash_queue (impl d))" for t k
    using that rel per last new inv(1) by (force simp: dedup_rel_def word_le_nat_alt)
  have "dedup_inv \<lparr>time_hash_queue = time_hash_queue (impl d) @ [(ts, h)],
                   packet_hash_set = insert h (packet_hash_set (impl d))\<rparr>"
    using inv acc new by (force simp: dedup_inv_def sorted_append)
  moreover have "spec_fresh (a\<lparr>sp_accepted := (sp_accepted a)(h \<mapsto> unat ts)\<rparr>) (sp_last a) k"
    if "k \<noteq> h" "k \<notin> packet_hash_set (impl d)" for k
    using that rel per by (simp add: dedup_rel_def)
  ultimately show ?thesis
    using rel per last acc by (auto simp: dedup_rel_def word_le_nat_alt)
qed

lemma dedup_step_simulates:
  assumes rel: "dedup_rel d a" and adm: "dedup_adm inp a"
  shows "\<exists>d'. dedup_check_packet H inp d = Some (fst (spec_check_packet H inp a), d') \<and>
              dedup_rel d' (snd (spec_check_packet H inp a))"
proof (cases "sp_period a = 0")
  case True
  with rel adm show ?thesis
    by (simp add: dedup_check_packet_def spec_check_packet_def dedup_rel_def dedup_adm_def Let_def
        case_prod_unfold)
next
  case per: False
  obtain ts buf where inp: "inp = (ts, buf)" by fastforce
  define q' where "q' = live_entries (sp_period a) ts (time_hash_queue (impl d))"
  define d1 where "d1 = d\<lparr>impl := \<lparr>time_hash_queue = q', packet_hash_set = snd ` set q'\<rparr>\<rparr>"
  have ts: "sp_last a \<le> unat ts" "unat ts < 2 ^ 63" using adm inp by (simp_all add: dedup_adm_def)
  have d: "dedup_period_ms d = sp_period a" using rel by (simp add: dedup_rel_def)
  have exp: "dedup_expire ts (ucast (sp_period a)) (time_hash_queue (impl d))
      (packet_hash_set (impl d)) = Some (q', snd ` set q')"
    unfolding q'_def
  proof (rule dedup_expire_live)
    show "\<forall>e \<in> set (time_hash_queue (impl d)). unat (fst e) < 2 ^ 63"
      using rel per by (fastforce simp: dedup_rel_def)
  qed (use rel per in \<open>simp_all add: dedup_rel_def dedup_inv_def\<close>)
  have fresh: "(H buf \<notin> snd ` set q') = spec_fresh a (unat ts) (H buf)"
    unfolding q'_def by (rule live_entries_fresh [OF rel per ts(1)])
  have rel1: "dedup_rel d1 (a\<lparr>sp_last := unat ts\<rparr>)"
    unfolding d1_def by (rule dedup_rel_expired [OF rel per ts q'_def])
  show ?thesis
  proof (cases "spec_fresh a (unat ts) (H buf)")
    case True
    then show ?thesis
      using exp d per fresh inp dedup_rel_accept [OF rel1, of ts "H buf"]
      by (simp add: dedup_check_packet_def impl_check_packet_def spec_check_packet_def d1_def
          Let_def)
  next
    case False
    then show ?thesis
      using exp d per fresh inp rel1
      by (simp add: dedup_check_packet_def impl_check_packet_def spec_check_packet_def d1_def
          Let_def)
  qed
qed

interpretation dd: simulation "dedup_check_packet H" "spec_check_packet H" dedup_adm dedup_rel for H
  by unfold_locales (rule dedup_step_simulates)

lemma dedup_rel_init: "dedup_rel (dedup_init p) (spec_init p)"
  by (auto simp: dedup_rel_def dedup_init_def spec_init_def dedup_inv_def spec_fresh_def)

text \<open>For every sequence of packets whose time stamps do not run backwards, the queue and the
  hash set of \<open>Dedup\<close> answer as the specification that remembers when each hash was last let
  through. No step erases a hash that is not in the set.\<close>

lemma dedup_refines_spec:
  "admitted (spec_check_packet H) dedup_adm inps (spec_init p) \<Longrightarrow>
   \<exists>d'. run_steps (dedup_check_packet H) inps (dedup_init p) =
          Some (fst (run_spec (spec_check_packet H) inps (spec_init p)), d') \<and>
        dedup_rel d' (snd (run_spec (spec_check_packet H) inps (spec_init p)))"
  using dedup_rel_init by (rule dd.run_simulates)

section \<open>What the specification lets through\<close>

lemma run_spec_append:
  "run_spec f (xs @ ys) a =
     (fst (run_spec f xs a) @ fst (run_spec f ys (snd (run_spec f xs a))), snd (run_spec f ys (snd (run_spec f xs a))))"
  by (induction xs arbitrary: a) (simp_all add: case_prod_unfold Let_def)

lemma length_run_spec [simp]: "length (fst (run_spec f xs a)) = length xs"
  by (induction xs arbitrary: a) (simp_all add: case_prod_unfold Let_def)

lemma spec_check_packet_state [simp]:
  "sp_period (snd (spec_check_packet H x a)) = sp_period a" "sp_last (snd (spec_check_packet H x a)) = unat (fst x)"
  by (simp_all add: spec_check_packet_def Let_def)

lemma run_spec_period: "sp_period (snd (run_spec (spec_check_packet H) xs a)) = sp_period a"
  by (induction xs arbitrary: a) (simp_all add: case_prod_unfold Let_def)

lemma dedup_admitted:
  assumes "sorted (map fst xs)" "\<forall>x \<in> set xs. unat (fst x) < 2 ^ 63 \<and> sp_last a \<le> unat (fst x)"
  shows "admitted (spec_check_packet H) dedup_adm xs a"
  using assms by (induction xs arbitrary: a) (auto simp: dedup_adm_def word_le_nat_alt)

text \<open>The specification's memory: what was let through is remembered with the time of the last
  copy that was let through, and what is remembered was received.\<close>

lemma spec_remembers:
  fixes inps :: "(u64 \<times> bytes) list"
  assumes "sorted (map fst inps)" and r: "run_spec (spec_check_packet H) inps (spec_init p) = (rs, a)"
  shows "(\<forall>i < length inps. rs ! i = NEW_PACKET_OR_TIMED_OUT \<longrightarrow>
            (\<exists>t. sp_accepted a (H (snd (inps ! i))) = Some t \<and> unat (fst (inps ! i)) \<le> t)) \<and>
         (\<forall>h t. sp_accepted a h = Some t \<longrightarrow> (\<exists>i < length inps. H (snd (inps ! i)) = h \<and> unat (fst (inps ! i)) = t))"
  using assms
proof (induction inps arbitrary: rs a rule: rev_induct)
  case Nil
  then show ?case by (auto simp: spec_init_def)
next
  case (snoc x inps)
  obtain rs1 a1 where 1: "run_spec (spec_check_packet H) inps (spec_init p) = (rs1, a1)" by fastforce
  have len: "length rs1 = length inps" using length_run_spec [of "spec_check_packet H" inps "spec_init p"] 1 by simp
  have eq: "rs = rs1 @ [fst (spec_check_packet H x a1)]" "a = snd (spec_check_packet H x a1)"
    using snoc.prems(2) by (auto simp: run_spec_append 1 case_prod_unfold Let_def)
  have old: "unat (fst (inps ! i)) \<le> unat (fst x)" if "i < length inps" for i
    using snoc.prems(1) that by (simp add: sorted_append word_le_nat_alt [symmetric])
  note IH = snoc.IH [OF _ 1]
  have srt: "sorted (map fst inps)" using snoc.prems(1) by (simp add: sorted_append)
  show ?case
  proof (intro conjI allI impI)
    fix i assume i: "i < length (inps @ [x])" "rs ! i = NEW_PACKET_OR_TIMED_OUT"
    show "\<exists>t. sp_accepted a (H (snd ((inps @ [x]) ! i))) = Some t \<and> unat (fst ((inps @ [x]) ! i)) \<le> t"
    proof (cases "i < length inps")
      case True
      then show ?thesis using IH [OF srt] i(2) old [OF True] len
        by (fastforce simp: eq nth_append spec_check_packet_def Let_def)
    next
      case False
      then have "i = length inps" using i(1) by simp
      then show ?thesis using i(2) len by (auto simp: eq nth_append spec_check_packet_def Let_def split: if_splits)
    qed
  next
    fix h t assume h: "sp_accepted a h = Some t"
    then have "sp_accepted a1 h = Some t \<or> h = H (snd x) \<and> t = unat (fst x)"
      by (auto simp: eq spec_check_packet_def Let_def split: if_splits)
    then show "\<exists>i < length (inps @ [x]). H (snd ((inps @ [x]) ! i)) = h \<and> unat (fst ((inps @ [x]) ! i)) = t"
    proof
      assume "sp_accepted a1 h = Some t"
      then obtain i where "i < length inps" "H (snd (inps ! i)) = h" "unat (fst (inps ! i)) = t" using IH [OF srt] by blast
      then show ?thesis by (intro exI [where x = i]) (simp add: nth_append)
    qed (auto intro!: exI [where x = "length inps"])
  qed
qed

text \<open>The answer to the packet at a position is the specification's answer in the state after the
  packets before it.\<close>

lemma run_spec_nth:
  assumes "j < length inps"
  shows "fst (run_spec f inps a) ! j = fst (f (inps ! j) (snd (run_spec f (take j inps) a)))"
    and "\<forall>i < j. fst (run_spec f inps a) ! i = fst (run_spec f (take j inps) a) ! i"
proof -
  define xs ys where "xs = take j inps" and "ys = drop (Suc j) inps"
  have s: "inps = xs @ (inps ! j) # ys" using id_take_nth_drop [OF assms] by (simp add: xs_def ys_def)
  have l: "length xs = j" using assms by (simp add: xs_def)
  have "run_spec f inps a = run_spec f (xs @ (inps ! j) # ys) a" using s by simp
  then have r: "fst (run_spec f inps a) = fst (run_spec f xs a) @ fst (run_spec f ((inps ! j) # ys) (snd (run_spec f xs a)))"
    by (simp add: run_spec_append)
  show "fst (run_spec f inps a) ! j = fst (f (inps ! j) (snd (run_spec f (take j inps) a)))"
    unfolding r xs_def [symmetric] using l by (simp add: nth_append case_prod_unfold Let_def)
  show "\<forall>i < j. fst (run_spec f inps a) ! i = fst (run_spec f (take j inps) a) ! i"
    unfolding r xs_def [symmetric] using l by (simp add: nth_append)
qed

lemma spec_answer_at:
  assumes "j < length inps"
  shows "\<exists>rs' a. run_spec (spec_check_packet H) (take j inps) (spec_init p) = (rs', a) \<and> sp_period a = p \<and>
      (\<forall>i < j. rs' ! i = fst (run_spec (spec_check_packet H) inps (spec_init p)) ! i) \<and>
      (fst (run_spec (spec_check_packet H) inps (spec_init p)) ! j = NEW_PACKET_OR_TIMED_OUT \<longleftrightarrow>
         p = 0 \<or> spec_fresh a (unat (fst (inps ! j))) (H (snd (inps ! j))))"
proof -
  obtain rs' a where r: "run_spec (spec_check_packet H) (take j inps) (spec_init p) = (rs', a)" by fastforce
  have "sp_period a = p" using run_spec_period [of H "take j inps" "spec_init p"] r by (simp add: spec_init_def [of p])
  then show ?thesis using run_spec_nth [OF assms, of "spec_check_packet H" "spec_init p"] r
    by (auto simp: spec_check_packet_def Let_def)
qed

section \<open>Properties\<close>

text \<open>C10: for every sequence of packets whose time stamps do not run backwards and stay below
  2^63 ms, every call of \<open>check_packet\<close> returns. With a period of 0 every packet is let through.
  Otherwise two packets with the same hash that are both let through are more than the period apart,
  so that a copy that follows a packet that was let through within the period is held back, and a
  packet is let through when no packet with its hash was received within the period before it. What
  happens to a copy that follows only copies that were held back is left open here.\<close>

theorem dedup_holds_back_copies:
  assumes "sorted (map fst inps)" "\<forall>x \<in> set inps. unat (fst x) < 2 ^ 63"
  shows "\<exists>rs d. run_steps (dedup_check_packet H) inps (dedup_init p) = Some (rs, d) \<and> length rs = length inps \<and>
    (p = 0 \<longrightarrow> set rs \<subseteq> {NEW_PACKET_OR_TIMED_OUT}) \<and>
    (p \<noteq> 0 \<longrightarrow> (\<forall>j < length inps. \<forall>i < j. H (snd (inps ! i)) = H (snd (inps ! j)) \<longrightarrow>
        rs ! i = NEW_PACKET_OR_TIMED_OUT \<longrightarrow> rs ! j = NEW_PACKET_OR_TIMED_OUT \<longrightarrow>
        unat (fst (inps ! i)) + unat p < unat (fst (inps ! j)))) \<and>
    (\<forall>j < length inps. (\<forall>i < j. H (snd (inps ! i)) = H (snd (inps ! j)) \<longrightarrow>
        unat (fst (inps ! i)) + unat p < unat (fst (inps ! j))) \<longrightarrow> rs ! j = NEW_PACKET_OR_TIMED_OUT)"
proof -
  define S where "S = spec_check_packet H"
  define rs where "rs = fst (run_spec S inps (spec_init p))"
  have "admitted (spec_check_packet H) dedup_adm inps (spec_init p)"
    using dedup_admitted [OF assms(1), of "spec_init p"] assms(2) by (simp add: spec_init_def)
  from dedup_refines_spec [OF this] obtain d where d: "run_steps (dedup_check_packet H) inps (dedup_init p) = Some (rs, d)"
    by (auto simp: rs_def S_def)
  note step = spec_answer_at [of _ inps H p, folded S_def, folded rs_def]
  have mem: "sorted (map fst (take j inps))" for j using assms(1) by (metis sorted_wrt_take take_map)
  show ?thesis
  proof (intro exI conjI impI allI)
    show "run_steps (dedup_check_packet H) inps (dedup_init p) = Some (rs, d)" by (rule d)
    show "length rs = length inps" by (simp add: rs_def)
    then show "set rs \<subseteq> {NEW_PACKET_OR_TIMED_OUT}" if "p = 0" using step that by (fastforce simp: in_set_conv_nth)
  next
    fix i j
    assume "p \<noteq> 0" "j < length inps" "i < j" "H (snd (inps ! i)) = H (snd (inps ! j))"
      "rs ! i = NEW_PACKET_OR_TIMED_OUT" "rs ! j = NEW_PACKET_OR_TIMED_OUT"
    moreover obtain rs' a where "run_spec S (take j inps) (spec_init p) = (rs', a)" "sp_period a = p" "rs' ! i = rs ! i"
      "spec_fresh a (unat (fst (inps ! j))) (H (snd (inps ! j)))" using step [of j] calculation by metis
    moreover obtain t where "sp_accepted a (H (snd (inps ! i))) = Some t" "unat (fst (inps ! i)) \<le> t"
      using spec_remembers [OF mem calculation(7) [unfolded S_def]] calculation by auto
    ultimately show "unat (fst (inps ! i)) + unat p < unat (fst (inps ! j))" by (simp add: spec_fresh_def)
  next
    fix j
    assume j: "j < length inps" and apart: "\<forall>i < j. H (snd (inps ! i)) = H (snd (inps ! j)) \<longrightarrow>
        unat (fst (inps ! i)) + unat p < unat (fst (inps ! j))"
    obtain rs' a where a: "run_spec S (take j inps) (spec_init p) = (rs', a)" "sp_period a = p"
      "rs ! j = NEW_PACKET_OR_TIMED_OUT \<longleftrightarrow> p = 0 \<or> spec_fresh a (unat (fst (inps ! j))) (H (snd (inps ! j)))"
      using step [OF j] by metis
    have "t + unat p < unat (fst (inps ! j))" if acc: "sp_accepted a (H (snd (inps ! j))) = Some t" for t
    proof -
      obtain i where "i < j" "H (snd (inps ! i)) = H (snd (inps ! j))" "unat (fst (inps ! i)) = t"
        using spec_remembers [OF mem a(1) [unfolded S_def]] acc j by fastforce
      then show ?thesis using apart by blast
    qed
    then show "rs ! j = NEW_PACKET_OR_TIMED_OUT" using a(2,3) by (simp add: spec_fresh_def split: option.split)
  qed
qed

lemma dedup_holds_back_copies_witness:
  "\<exists>rs d. run_steps (dedup_check_packet (\<lambda>b. of_nat (length b))) [(0, [1]), (5, [2]), (7, [1, 2]), (20, [1])] (dedup_init 10) =
     Some (rs, d) \<and> rs ! 1 = ALREADY_EXISTS_IN_BUFFER \<and> rs ! 2 = NEW_PACKET_OR_TIMED_OUT \<and> rs ! 3 = NEW_PACKET_OR_TIMED_OUT"
proof -
  define inps :: "(u64 \<times> bytes) list" where "inps = [(0, [1]), (5, [2]), (7, [1, 2]), (20, [1])]"
  obtain rs d where r: "run_steps (dedup_check_packet (\<lambda>b. of_nat (length b))) inps (dedup_init 10) = Some (rs, d)"
    "\<forall>j < 4. \<forall>i < j. (of_nat (length (snd (inps ! i))) :: u64) = of_nat (length (snd (inps ! j))) \<longrightarrow>
        rs ! i = NEW_PACKET_OR_TIMED_OUT \<longrightarrow> rs ! j = NEW_PACKET_OR_TIMED_OUT \<longrightarrow>
        unat (fst (inps ! i)) + 10 < unat (fst (inps ! j))"
    "\<forall>j < 4. (\<forall>i < j. (of_nat (length (snd (inps ! i))) :: u64) = of_nat (length (snd (inps ! j))) \<longrightarrow>
        unat (fst (inps ! i)) + 10 < unat (fst (inps ! j))) \<longrightarrow> rs ! j = NEW_PACKET_OR_TIMED_OUT"
    using dedup_holds_back_copies [of inps "\<lambda>b. of_nat (length b)" 10] by (auto simp: inps_def)
  have "rs ! 0 = NEW_PACKET_OR_TIMED_OUT" using r(3) [rule_format, of 0] by simp
  moreover have "rs ! 2 = NEW_PACKET_OR_TIMED_OUT"
    by (rule r(3) [rule_format]) (auto simp: inps_def less_2_cases_iff)
  moreover have "rs ! 3 = NEW_PACKET_OR_TIMED_OUT"
    by (rule r(3) [rule_format]) (auto simp: inps_def numeral_3_eq_3 less_Suc_eq)
  moreover have "rs ! 1 \<noteq> NEW_PACKET_OR_TIMED_OUT"
    using r(2) [rule_format, of 1 0] calculation by (auto simp: inps_def)
  ultimately show ?thesis using r(1) packet_status.exhaust by (auto simp: inps_def)
qed

text \<open>A duplicate does not restart the period. The same packet at \<open>t0\<close>, at \<open>t1\<close> within the
  period and at \<open>t2\<close> after it is let through, held back and let through again, however close
  \<open>t2\<close> is to \<open>t1\<close>.\<close>

lemma dedup_period_not_extended:
  assumes "p \<noteq> 0" "unat t0 \<le> unat t1" "unat t1 \<le> unat t0 + unat p" "unat t0 + unat p < unat t2" "unat t2 < 2 ^ 63"
  shows "\<exists>d. run_steps (dedup_check_packet H) [(t0, b), (t1, b), (t2, b)] (dedup_init p) =
    Some ([NEW_PACKET_OR_TIMED_OUT, ALREADY_EXISTS_IN_BUFFER, NEW_PACKET_OR_TIMED_OUT], d)"
proof -
  have "admitted (spec_check_packet H) dedup_adm [(t0, b), (t1, b), (t2, b)] (spec_init p)"
    and "fst (run_spec (spec_check_packet H) [(t0, b), (t1, b), (t2, b)] (spec_init p)) =
      [NEW_PACKET_OR_TIMED_OUT, ALREADY_EXISTS_IN_BUFFER, NEW_PACKET_OR_TIMED_OUT]"
    using assms by (simp_all add: spec_check_packet_def spec_init_def spec_fresh_def dedup_adm_def Let_def)
  then show ?thesis using dd.run_simulates [OF dedup_rel_init] by metis
qed

lemma dedup_period_not_extended_witness:
  "\<exists>d. run_steps (dedup_check_packet (\<lambda>_. 7)) [(100, [1]), (200, [1]), (201, [1])] (dedup_init 100) =
    Some ([NEW_PACKET_OR_TIMED_OUT, ALREADY_EXISTS_IN_BUFFER, NEW_PACKET_OR_TIMED_OUT], d)"
  by (rule dedup_period_not_extended) simp_all

end
