(* ===== verification/Router.thy ===== *)
theory Router
  imports Resend Framing Setup EndpointGroups Dedup
begin

text \<open>
  The core of \<open>Mainloop\<close> (mainloop.h, mainloop.cpp) and \<open>Endpoint::handle_read\<close>: the state of
  the router, the decision for every endpoint and every message, the resend timer, and the
  path of a received message through de-duplication, filters and routing. \<open>objs\<close> are the
  endpoint objects ever created, \<open>g_endpoints\<close> the vector of references the code iterates over.
  The state of endpoints that record logs, beyond the base class, is in \<open>Recording\<close>.
\<close>

section \<open>State\<close>

record router =
  initialized :: bool
  epollfd :: int
  objs :: "endpoint list"
  g_endpoints :: "nat list"
  g_tcp_fd :: int
  g_commands_fd :: int
  resend_scheduled :: bool
  resend_timer :: "nat option"
  msg_dedup :: dedup
  dedup_start :: int
  msg_to_unknown :: u32
  sniffer_sysid :: u16
  should_exit :: bool
  retcode :: int
  os :: world

abbreviation RESEND_RETRY_MS :: u32 where "RESEND_RETRY_MS \<equiv> 10"

definition set_ep :: "nat \<Rightarrow> endpoint \<Rightarrow> world \<Rightarrow> router \<Rightarrow> router" where
  "set_ep n e w s = s\<lparr>objs := (objs s)[n := e], os := w\<rparr>"

section \<open>Routing\<close>

text \<open>\<open>Mainloop::write_msg\<close>.\<close>

definition ml_write_msg :: "endpoint \<Rightarrow> buffer \<Rightarrow> world \<Rightarrow> int \<times> endpoint \<times> world" where
  "ml_write_msg e buf w =
     (let (r, e1, w1) = ep_write_msg e buf w;
          e2 = (if r = - ENOBUFS then count_dropped_msg e1 else e1);
          w2 = (if r = - EAGAIN \<or> r = - ENOBUFS then snd (mod_fd (ep_fd e2) True w1) else w1)
      in (r, e2, w2))"

text \<open>The delay in milliseconds until \<open>earliest\<close>, rounded up.\<close>

definition resend_delay :: "int \<Rightarrow> int \<Rightarrow> u32" where
  "resend_delay earliest now =
     (if earliest \<le> now then RESEND_RETRY_MS
      else let msec = ((word_of_int (earliest - now) :: u64) + 1000000 - 1) div 1000000
           in ucast (min (max msec 1) 0xFFFFFFFF))"

definition earliest_resend :: "router \<Rightarrow> int" where
  "earliest_resend s =
     foldl (\<lambda>earliest n. if has_cached_msgs (objs s ! n)
                         then min earliest (next_resend_deadline (objs s ! n)) else earliest)
       TIME_MAX (g_endpoints s)"

definition reschedule_resend :: "router \<Rightarrow> bool \<times> router" where
  "reschedule_resend s =
     (let earliest = earliest_resend s
      in if earliest = TIME_MAX then (False, s)
         else let (now, w1) = steady_now (os s);
                  w2 = (case resend_timer s of None \<Rightarrow> w1 | Some t \<Rightarrow> mod_timeout t (resend_delay earliest now) w1)
              in (True, s\<lparr>os := w2\<rparr>))"

definition schedule_resend :: "router \<Rightarrow> router" where
  "schedule_resend s =
     (if \<not> resend_scheduled s then
        (let (t, w1) = add_timeout RESEND_RETRY_MS CbResend (os s);
             s1 = s\<lparr>resend_timer := t, os := w1\<rparr>
         in case t of
              None \<Rightarrow> s1
            | Some _ \<Rightarrow> snd (reschedule_resend (s1\<lparr>resend_scheduled := True\<rparr>)))
      else snd (reschedule_resend s))"

text \<open>One round of the loop in \<open>route_msg\<close>; the flag is \<open>unknown\<close>.\<close>

definition route_to :: "buffer \<Rightarrow> nat \<Rightarrow> bool \<times> router \<Rightarrow> bool \<times> router" where
  "route_to buf n us =
     (let (unknown, s) = us; e = objs s ! n;
          (accept, w1) = ep_accept_msg (sniffer_sysid s) e buf (os s)
      in case accept of
           Accepted \<Rightarrow>
             (let (r, e1, w2) = ml_write_msg e buf w1;
                  w3 = (if r = - EPIPE then w2\<lparr>should_process_tcp_hangups := True\<rparr> else w2);
                  (e2, w4) = (if is_throttling_enabled e1 (msg_id (b_curr buf))
                              then update_throttle_info e1 (msg_id (b_curr buf)) w3 else (e1, w3))
              in (False, set_ep n e2 w4 s))
         | Filtered \<Rightarrow> (False, s\<lparr>os := w1\<rparr>)
         | Throttled \<Rightarrow> (False, s\<lparr>os := w1\<rparr>)
         | Cached \<Rightarrow> (False, schedule_resend (set_ep n (cache_msg buf e) w1 s))
         | Rejected \<Rightarrow> (unknown, s\<lparr>os := w1\<rparr>))"

definition route_msg :: "buffer \<Rightarrow> router \<Rightarrow> router" where
  "route_msg buf s =
     (let (unknown, s1) = fold (route_to buf) (g_endpoints s) (True, s)
      in if unknown then s1\<lparr>msg_to_unknown := msg_to_unknown s1 + 1\<rparr> else s1)"

section \<open>Reception\<close>

text \<open>The clock is only read when de-duplication is on. Undefined behaviour of the
  de-duplication buffer is \<open>None\<close>.\<close>

definition dedup_check_msg :: "(bytes \<Rightarrow> u64) \<Rightarrow> buffer \<Rightarrow> router \<Rightarrow> (bool \<times> router) option" where
  "dedup_check_msg H buf s =
     (let (now, w1) = (if dedup_period_ms (msg_dedup s) = 0 then (0, os s) else steady_now (os s));
          timestamp = word_of_int ((now - dedup_start s) div 1000000)
      in case dedup_check_packet H (timestamp, b_data buf) (msg_dedup s) of
           None \<Rightarrow> None
         | Some (status, d) \<Rightarrow> Some (status = NEW_PACKET_OR_TIMED_OUT, s\<lparr>msg_dedup := d, os := w1\<rparr>))"

definition add_sys_comp_id_of :: "nat \<Rightarrow> buffer \<Rightarrow> router \<Rightarrow> router" where
  "add_sys_comp_id_of n buf s =
     s\<lparr>objs := add_sys_comp_id n (src_sysid (b_curr buf)) (src_compid (b_curr buf)) (objs s)\<rparr>"

text \<open>What \<open>handle_read\<close> does with one message.\<close>

definition process_msg :: "(bytes \<Rightarrow> u64) \<Rightarrow> nat \<Rightarrow> buffer \<Rightarrow> router \<Rightarrow> router option" where
  "process_msg H n buf s =
     (case dedup_check_msg H buf s of
        None \<Rightarrow> None
      | Some (allowed, s1) \<Rightarrow>
          if \<not> allowed then Some (add_sys_comp_id_of n buf s1)
          else if \<not> allowed_by_incoming_filters (objs s1 ! n) buf then Some s1
          else Some (route_msg buf (add_sys_comp_id_of n buf s1)))"


section \<open>Lemmas: what routing leaves alone\<close>

lemma same_rx_trans [trans]: "same_rx e e1 \<Longrightarrow> same_rx e1 e2 \<Longrightarrow> same_rx e e2"
  by (simp add: same_rx_def)

lemma same_rx_steps [simp]:
  "same_rx e (count_dropped_msg e)" "same_rx e (cache_msg b e)" "same_rx e (e\<lparr>message_throttle_map := m\<rparr>)"
  by (simp_all add: same_rx_def count_dropped_msg_def cache_msg_def Let_def)

lemma same_rx_tx_only: "tx_only e e' \<Longrightarrow> same_rx e e'"
  using tx_only_fields(1-5) by (simp add: same_rx_def)

lemmas same_rx_ep_write = tx_only_ep_write [THEN same_rx_tx_only]

lemma same_rx_ml_write: "same_rx e (fst (snd (ml_write_msg e b w)))"
  using same_rx_trans [OF same_rx_ep_write same_rx_steps(1), of e b w] same_rx_ep_write [of e b w]
  by (simp add: ml_write_msg_def case_prod_unfold Let_def)

lemma same_rx_update_throttle: "same_rx e (fst (update_throttle_info e k w))"
  by (simp add: update_throttle_info_def case_prod_unfold Let_def split: option.split)

text \<open>The endpoints before and after: as many, each with the reception state it had.\<close>

definition rx_kept :: "router \<Rightarrow> router \<Rightarrow> bool" where
  "rx_kept s s' \<longleftrightarrow> length (objs s') = length (objs s) \<and>
     (\<forall>i < length (objs s). same_rx (objs s ! i) (objs s' ! i))"

lemma rx_kept_refl [simp]: "rx_kept s s" "rx_kept s (s\<lparr>os := w\<rparr>)" "rx_kept s (s\<lparr>msg_dedup := d, os := w\<rparr>)"
  by (simp_all add: rx_kept_def)

lemma rx_kept_trans [trans]: "rx_kept s t \<Longrightarrow> rx_kept t u \<Longrightarrow> rx_kept s u"
  unfolding rx_kept_def using same_rx_trans by metis

lemma rx_kept_set_ep: "same_rx (objs s ! n) e \<Longrightarrow> rx_kept s (set_ep n e w s)"
  by (cases "n < length (objs s)") (auto simp: rx_kept_def set_ep_def nth_list_update)

lemma objs_reschedule [simp]:
  "objs (snd (reschedule_resend s)) = objs s" "g_endpoints (snd (reschedule_resend s)) = g_endpoints s"
  "sniffer_sysid (snd (reschedule_resend s)) = sniffer_sysid s"
  by (simp_all add: reschedule_resend_def case_prod_unfold Let_def)

lemma objs_schedule [simp]:
  "objs (schedule_resend s) = objs s" "g_endpoints (schedule_resend s) = g_endpoints s"
  "sniffer_sysid (schedule_resend s) = sniffer_sysid s"
  by (auto simp: schedule_resend_def case_prod_unfold Let_def split: option.split)

lemma rx_kept_objs: "rx_kept s t \<Longrightarrow> objs u = objs t \<Longrightarrow> rx_kept s u"
  by (simp add: rx_kept_def)

lemma rx_kept_route_to: "rx_kept s (snd (route_to b n (u, s)))"
proof -
  obtain a w1 where a: "ep_accept_msg (sniffer_sysid s) (objs s ! n) b (os s) = (a, w1)" by fastforce
  obtain r e1 w2 where wr: "ml_write_msg (objs s ! n) b w1 = (r, e1, w2)" by (metis prod_cases3)
  have e1: "same_rx (objs s ! n) e1" using same_rx_ml_write [of "objs s ! n" b w1] by (simp add: wr)
  have "rx_kept s (set_ep n (fst (update_throttle_info e1 k w)) w' s)" for k w w'
    by (rule rx_kept_set_ep) (rule same_rx_trans [OF e1 same_rx_update_throttle])
  moreover have "rx_kept s (set_ep n e1 w s)" for w by (rule rx_kept_set_ep [OF e1])
  moreover have "rx_kept s (schedule_resend (set_ep n (cache_msg b (objs s ! n)) w1 s))"
    by (rule rx_kept_objs [OF rx_kept_set_ep]) simp_all
  ultimately show ?thesis
    by (cases a) (simp_all add: route_to_def a wr case_prod_unfold Let_def)
qed

lemma rx_kept_route_fold: "rx_kept s (snd (fold (route_to b) ns (u, s)))"
proof (induction ns arbitrary: u s)
  case (Cons n ns)
  obtain u1 s1 where 1: "route_to b n (u, s) = (u1, s1)" by fastforce
  then have "rx_kept s s1" using rx_kept_route_to [of s b n u] by simp
  from rx_kept_trans [OF this Cons.IH [of s1 u1]] show ?case by (simp add: 1)
qed simp

lemma rx_kept_route_msg: "rx_kept s (route_msg b s)"
  using rx_kept_route_fold [of s b "g_endpoints s" True]
  by (auto simp: route_msg_def case_prod_unfold Let_def intro: rx_kept_objs)

lemma rx_kept_learn: "rx_kept s (add_sys_comp_id_of n b s)"
proof -
  have "same_rx e e'" if "e'\<lparr>sys_comp_ids := []\<rparr> = e\<lparr>sys_comp_ids := []\<rparr>" for e e' :: endpoint
    using arg_cong [OF that, of rx_data] arg_cong [OF that, of rx_len] arg_cong [OF that, of last_packet_len]
      arg_cong [OF that, of rstat] arg_cong [OF that, of ep_type]
    by (simp add: same_rx_def)
  then show ?thesis
    using add_calls_frame by (simp add: rx_kept_def add_sys_comp_id_of_def add_sys_comp_id_def)
qed

lemma dedup_check_msg_objs:
  "dedup_check_msg H b s = Some (ok, s') \<Longrightarrow> \<exists>d w. s' = s\<lparr>msg_dedup := d, os := w\<rparr>"
  by (auto simp: dedup_check_msg_def case_prod_unfold Let_def split: option.splits)

lemma rx_kept_process_msg: "process_msg H n b s = Some s' \<Longrightarrow> rx_kept s s'"
proof -
  assume p: "process_msg H n b s = Some s'"
  then obtain ok s1 where d: "dedup_check_msg H b s = Some (ok, s1)"
    by (auto simp: process_msg_def split: option.splits)
  have 1: "rx_kept s s1" using dedup_check_msg_objs [OF d] by auto
  have 2: "rx_kept s (add_sys_comp_id_of n b s1)" by (rule rx_kept_trans [OF 1 rx_kept_learn])
  have 3: "rx_kept s (route_msg b (add_sys_comp_id_of n b s1))" by (rule rx_kept_trans [OF 2 rx_kept_route_msg])
  show ?thesis using p 1 2 3 by (auto simp: process_msg_def d split: if_splits)
qed


section \<open>The read handler\<close>

lemma rx_measure_same_rx: "same_rx e e' \<Longrightarrow> rx_measure M e' = rx_measure M e"
  by (simp add: rx_measure_def same_rx_def)

lemma process_msg_measure:
  assumes "ep_read_msg M (objs s ! n) (os s) = ((r, b), e1, w1)" "0 < r" "n < length (objs s)"
    and "process_msg H n (the b) (set_ep n e1 w1 s) = Some s'"
  shows "rx_measure M (objs s' ! n) < rx_measure M (objs s ! n)"
proof -
  have "same_rx e1 (objs s' ! n)"
    using rx_kept_process_msg [OF assms(4)] assms(3) by (auto simp: rx_kept_def set_ep_def)
  then show ?thesis using ep_read_msg_progress(1) [OF assms(1,2)] rx_measure_same_rx by simp
qed

function handle_read :: "mavlib \<Rightarrow> (bytes \<Rightarrow> u64) \<Rightarrow> nat \<Rightarrow> router \<Rightarrow> (int \<times> router) option" where
  "handle_read M H n s =
     (if n \<ge> length (objs s) then None
      else case ep_read_msg M (objs s ! n) (os s) of
             ((r, b), e1, w1) \<Rightarrow>
               if r \<le> 0 then Some (r, set_ep n e1 w1 s)
               else (case process_msg H n (the b) (set_ep n e1 w1 s) of
                       None \<Rightarrow> None
                     | Some s1 \<Rightarrow> handle_read M H n s1))"
  by pat_completeness auto
termination
proof (relation "measure (\<lambda>(M, H, n, s). rx_measure M (objs s ! n))", goal_cases)
  case (2 M H n s)
  then show ?case by (auto intro: process_msg_measure [OF sym])
qed simp

declare handle_read.simps [simp del]


end
