(* ===== verification/LogEndpoint.thy ===== *)
theory LogEndpoint
  imports ConfSpec Router "HOL-Library.Monad_Syntax"
begin

text \<open>
  What the log recorders share (logendpoint.h, logendpoint.cpp): options, the files of a log
  directory with their names, rotation and marking, the timers, and starting and stopping with the
  vehicle. A recorder extends the record \<open>log_ep\<close>; \<open>lg_id\<close> is the number of its endpoint in the main
  loop, which holds the part of the base class. Its surroundings are the record \<open>log_env\<close>:
  the main loop with the timers and the other endpoints, the file system, the local time. Messages
  are handed to \<open>Mainloop::route_msg\<close> at once; \<open>le_routed\<close> is the list of all of them. \<open>route_msg\<close> of
  theory \<open>Router\<close> is enough here, since recorders do not accept each other's messages
  (shown in \<open>Recording\<close>). The generated MAVLink code is the parameter \<open>loglib\<close>. \<open>None\<close> stands for a
  loop that never ends or a write outside a buffer.
\<close>

section \<open>State\<close>

datatype log_mode = always | while_armed | disabled
datatype mav_dialect = Auto | Common | Ardupilotmega

record log_options =
  logs_dir :: string
  lo_mode :: log_mode
  mavlink_dialect :: mav_dialect
  min_free_space :: u64
  max_log_files :: u64
  fcu_id :: int
  log_telemetry :: bool

abbreviation LOG_ENDPOINT_SYSTEM_ID :: u8 where "LOG_ENDPOINT_SYSTEM_ID \<equiv> 2"
abbreviation ALIVE_TIMEOUT :: nat where "ALIVE_TIMEOUT \<equiv> 5"
abbreviation MAX_RETRIES :: nat where "MAX_RETRIES \<equiv> 10"
abbreviation PATH_MAX :: nat where "PATH_MAX \<equiv> 4096"
abbreviation FILENAME_SIZE :: nat where "FILENAME_SIZE \<equiv> 64"
abbreviation EINPROGRESS :: int where "EINPROGRESS \<equiv> 115"
abbreviation S_IWUSR :: u32 where "S_IWUSR \<equiv> 0x80"
abbreviation READ_ONLY :: u32 where "READ_ONLY \<equiv> 0x124"

record log_ep =
  lg_id :: nat
  lg_config :: log_options
  target_system_id :: int
  lg_file :: int
  logging_start_timeout :: "nat option"
  fsync_timeout :: "nat option"
  alive_timeout :: "nat option"
  timeout_write_total :: u32
  aio_fildes :: int
  lg_filename :: string
  lg_read :: read_stat
  lg_write :: write_stat

record tm =
  tm_year :: nat
  tm_mon :: nat
  tm_mday :: nat
  tm_hour :: nat
  tm_min :: nat
  tm_sec :: nat

record log_env =
  le_ml :: router
  le_fs :: fsys
  le_localtime :: "nat \<Rightarrow> tm"
  le_usec :: "nat \<Rightarrow> u64"
  le_routed :: "buffer list"

abbreviation le_os :: "log_env \<Rightarrow> world" where "le_os env \<equiv> os (le_ml env)"

definition set_os :: "world \<Rightarrow> log_env \<Rightarrow> log_env" where
  "set_os w env = env\<lparr>le_ml := (le_ml env)\<lparr>os := w\<rparr>\<rparr>"

lemma set_os_simps [simp]:
  "le_os (set_os w env) = w" "le_fs (set_os w env) = le_fs env" "le_routed (set_os w env) = le_routed env"
  "le_usec (set_os w env) = le_usec env" "le_localtime (set_os w env) = le_localtime env"
  by (simp_all add: set_os_def)

text \<open>The messages the recorders make, by the arguments of the generated \<open>encode\<close> and \<open>pack\<close>
  functions. The first two are \<open>COMMAND_LONG\<close> with the command and the target system, then
  \<open>LOGGING_ACK\<close> with the sequence number, then \<open>REMOTE_LOG_BLOCK_STATUS\<close> with sequence number and status.\<close>

datatype log_msg =
    CommandLong u16 int
  | LoggingAck u16 int
  | RemoteLogBlockStatus int u32 u8

record logging_data =
  ld_sequence :: u16
  ld_length :: u8
  ld_first_message_offset :: u8
  ld_data :: bytes

record loglib =
  ll_mav :: mavlib
  ID_HEARTBEAT :: u32
  ID_COMMAND_ACK :: u32
  ID_LOGGING_DATA :: u32
  ID_LOGGING_DATA_ACKED :: u32
  ID_REMOTE_LOG_DATA_BLOCK :: u32
  COMP_ID_ALL :: u8
  COMP_ID_AUTOPILOT1 :: u8
  CMD_LOGGING_START :: u16
  CMD_LOGGING_STOP :: u16
  RESULT_ACCEPTED :: u8
  SAFETY_ARMED :: u8
  AUTOPILOT_PX4 :: u8
  AUTOPILOT_ARDUPILOTMEGA :: u8
  BLOCK_START :: u32
  BLOCK_STOP :: u32
  BLOCK_ACK :: u8
  BLOCK_NACK :: u8
  BLOCK_DATA_LEN :: nat
  encode :: "log_msg \<Rightarrow> bytes"
  encode_id :: "log_msg \<Rightarrow> u32"
  heartbeat_base_mode :: "bytes \<Rightarrow> u8"
  heartbeat_autopilot :: "bytes \<Rightarrow> u8"
  command_ack_at :: "bytes \<Rightarrow> u16 \<times> u8"
  logging_data_at :: "bytes \<Rightarrow> logging_data"
  data_block_at :: "bytes \<Rightarrow> u32 \<times> bytes"

definition LogEndpoint_init :: "nat \<Rightarrow> log_options \<Rightarrow> log_ep" where
  "LogEndpoint_init this conf =
     \<lparr>lg_id = this, lg_config = conf, target_system_id = (if fcu_id conf \<noteq> -1 then fcu_id conf else -1), lg_file = -1,
      logging_start_timeout = None, fsync_timeout = None, alive_timeout = None, timeout_write_total = 0,
      aio_fildes = -1, lg_filename = [],
      lg_read = \<lparr>crc_error_bytes = 0, handled_bytes = 0, rs_total = 0, crc_error = 0, handled = 0,
                 drop_seq_total = 0, expected_seq = 0\<rparr>,
      lg_write = \<lparr>ws_bytes = 0, ws_total = 0\<rparr>\<rparr>"

section \<open>Messages\<close>

definition send_msg :: "loglib \<Rightarrow> log_msg \<Rightarrow> int \<Rightarrow> ('a) log_ep_scheme \<Rightarrow> log_env \<Rightarrow> ('a) log_ep_scheme \<times> log_env" where
  "send_msg L m target ep env =
     (let buf = \<lparr>b_data = encode L m,
                 b_curr = \<lparr>msg_id = encode_id L m, target_sysid = target, target_compid = uint (COMP_ID_ALL L),
                           src_sysid = LOG_ENDPOINT_SYSTEM_ID, src_compid = COMP_ID_ALL L, payload_len = 0, payload = None\<rparr>\<rparr>;
          rd = lg_read ep
      in (ep\<lparr>lg_read := rd\<lparr>rs_total := rs_total rd + 1, handled := handled rd + 1,
                            handled_bytes := handled_bytes rd + of_nat (b_len buf)\<rparr>\<rparr>,
          env\<lparr>le_ml := route_msg buf (le_ml env), le_routed := le_routed env @ [buf]\<rparr>))"

text \<open>The payload of a received message; what lies behind the packet is read as zeros.\<close>

definition payload_at :: "buffer \<Rightarrow> bytes" where
  "payload_at buf = drop (case payload (b_curr buf) of None \<Rightarrow> 0 | Some ofs \<Rightarrow> ofs) (b_data buf) @ replicate 255 0"

section \<open>File names\<close>

definition log_name :: "u32 \<Rightarrow> tm \<Rightarrow> string \<Rightarrow> string" where
  "log_name i t extension =
     show_padded 5 (unat i) @ ''-'' @ show_nat (tm_year t + 1900) @ ''-'' @ show_padded 2 (tm_mon t + 1) @ ''-''
     @ show_padded 2 (tm_mday t) @ ''_'' @ show_padded 2 (tm_hour t) @ ''-'' @ show_padded 2 (tm_min t) @ ''-''
     @ show_padded 2 (tm_sec t) @ ''.'' @ extension"

text \<open>\<open>%u\<close> of \<open>sscanf\<close>: white space, a sign, digits; the number is reduced to 32 bits.\<close>

definition scan_u :: "string \<Rightarrow> (u32 \<times> string) option" where
  "scan_u s =
     (let s1 = dropWhile is_space s;
          s2 = (if s1 \<noteq> [] \<and> (hd s1 = CHR ''-'' \<or> hd s1 = CHR ''+'') then tl s1 else s1);
          ds = takeWhile is_digit s2; m = digits_value ds;
          v = (if m \<ge> 2 ^ 64 then - 1 else if s1 \<noteq> [] \<and> hd s1 = CHR ''-'' then - word_of_int m else word_of_int m :: u64)
      in if ds = [] then None else Some (ucast v, drop (length ds) s2))"

text \<open>The numbers a format of \<open>%u\<close> and separators converts.\<close>

fun scan_numbers :: "string \<Rightarrow> string \<Rightarrow> u32 list" where
  "scan_numbers [] s = (case scan_u s of None \<Rightarrow> [] | Some (u, _) \<Rightarrow> [u])"
| "scan_numbers (c # cs) s =
     (case scan_u s of
        None \<Rightarrow> []
      | Some (u, r) \<Rightarrow> u # (if r \<noteq> [] \<and> hd r = c then scan_numbers cs (tl r) else []))"

definition log_index :: "string \<Rightarrow> u32 option" where
  "log_index name =
     (let us = scan_numbers ''---_--'' name in if length us = 7 then Some (hd us) else None)"

definition join_path :: "string \<Rightarrow> string \<Rightarrow> string" where
  "join_path dir name = dir @ ''/'' @ name"

section \<open>The log directory\<close>

definition mark_log :: "string \<Rightarrow> string \<Rightarrow> fsys \<Rightarrow> fsys" where
  "mark_log dir name fs =
     (if scan_u name = None then fs
      else if length (join_path dir name) \<ge> PATH_MAX then fs
      else case fs_stat (join_path dir name) fs of
             (Inr (File f), fs1) \<Rightarrow>
               if f_mode f AND S_IWUSR \<noteq> 0 then snd (fs_chmod (join_path dir name) READ_ONLY fs1) else fs1
           | (_, fs1) \<Rightarrow> fs1)"

definition mark_unfinished_logs :: "string \<Rightarrow> fsys \<Rightarrow> fsys" where
  "mark_unfinished_logs dir fs =
     (case fs_readdir dir fs of
        (Inl _, fs1) \<Rightarrow> fs1
      | (Inr names, fs1) \<Rightarrow> fold (mark_log dir) names fs1)"

text \<open>\<open>file_map\<close>: index to name and size, of the finished logs.\<close>

type_synonym file_map = "(u32, string \<times> u64) omap"

definition gather_log :: "string \<Rightarrow> string \<Rightarrow> file_map \<times> fsys \<Rightarrow> file_map \<times> fsys" where
  "gather_log dir name st =
     (case log_index name of
        None \<Rightarrow> st
      | Some idx \<Rightarrow>
          (case fs_stat (join_path dir name) (snd st) of
             (Inr (File f), fs1) \<Rightarrow>
               (if f_mode f AND S_IWUSR = 0 then om_put idx (name, of_nat (length (f_data f))) (fst st) else fst st, fs1)
           | (_, fs1) \<Rightarrow> (fst st, fs1)))"

fun delete_logs :: "string \<Rightarrow> file_map \<Rightarrow> u64 \<Rightarrow> u64 \<Rightarrow> fsys \<Rightarrow> u64 \<times> fsys" where
  "delete_logs dir [] bytes_to_delete files_to_delete fs = (bytes_to_delete, fs)"
| "delete_logs dir ((_, filename, filesize) # pairs) bytes_to_delete files_to_delete fs =
     (if sint bytes_to_delete \<le> 0 \<and> sint files_to_delete \<le> 0 then (bytes_to_delete, fs)
      else if length (join_path dir filename) \<ge> PATH_MAX
      then delete_logs dir pairs bytes_to_delete files_to_delete fs
      else case fs_remove (join_path dir filename) fs of
             (Inr _, fs1) \<Rightarrow> delete_logs dir pairs (bytes_to_delete - filesize) (files_to_delete - 1) fs1
           | (Inl _, fs1) \<Rightarrow> delete_logs dir pairs bytes_to_delete files_to_delete fs1)"

definition delete_old_logs :: "log_options \<Rightarrow> fsys \<Rightarrow> fsys" where
  "delete_old_logs conf fs =
     (let dir = logs_dir conf; (vfs, fs1) = fs_statvfs dir fs
      in if vfs = Inl ENOENT then fs1
         else
           let free_space = (case vfs of Inr free \<Rightarrow> free | Inl _ \<Rightarrow> - 1)
           in if free_space > min_free_space conf \<and> max_log_files conf = 0 then fs1
              else
                case fs_readdir dir fs1 of
                  (Inl _, fs2) \<Rightarrow> fs2
                | (Inr names, fs2) \<Rightarrow>
                    let (e, fs3) = tick fs2
                    in if e \<noteq> 0 then fs3
                       else
                         let (files, fs4) = fold (gather_log dir) names ([], fs3);
                             files_to_delete = (if max_log_files conf > 0 then of_nat (length files) - max_log_files conf else - 1)
                         in snd (delete_logs dir files (min_free_space conf - free_space) files_to_delete fs4))"

definition get_prefix :: "string list \<Rightarrow> u32" where
  "get_prefix names =
     fold (\<lambda>name prefix. case scan_u name of
             None \<Rightarrow> prefix
           | Some (u, _) \<Rightarrow> if u \<ge> prefix \<and> u < UINT32_MAX then u + 1 else prefix) names 0"

text \<open>The names in the directory, or the error.\<close>

definition open_or_create_dir :: "string \<Rightarrow> fsys \<Rightarrow> ((int + string list) \<times> fsys) option" where
  "open_or_create_dir name fs =
     (case fs_readdir name fs of
        (Inl e, fs1) \<Rightarrow>
          if e \<noteq> ENOENT then Some (Inl e, fs1)
          else do {
            (r, fs2) \<leftarrow> mkdir_p name fs1;
            Some (if r < 0 then (Inl (- r), fs2) else fs_readdir name fs2)
          }
      | (Inr names, fs1) \<Rightarrow> Some (Inr names, fs1))"

text \<open>The loop of \<open>_get_file\<close> with \<open>n\<close> tries left: the result, \<open>_filename\<close> and the file system.\<close>

fun try_create :: "nat \<Rightarrow> path \<Rightarrow> u32 \<Rightarrow> tm \<Rightarrow> string \<Rightarrow> string \<Rightarrow> fsys \<Rightarrow> int \<times> string \<times> fsys" where
  "try_create 0 d i t extension filename fs = (- EEXIST, filename, fs)"
| "try_create (Suc n) d i t extension filename fs =
     (let name = log_name i t extension; filename1 = take (FILENAME_SIZE - 1) name
      in if length name \<ge> FILENAME_SIZE then (- 1, filename1, fs)
         else case fs_create (fst d, snd d @ [name]) 0x1A4 fs of
                (Inl e, fs1) \<Rightarrow>
                  if e \<noteq> EEXIST then (- 1, filename1, fs1) else try_create n d (i + 1) t extension filename1 fs1
              | (Inr fd, fs1) \<Rightarrow> (fd, filename1, fs_sync fs1))"

definition get_file :: "string \<Rightarrow> ('a) log_ep_scheme \<Rightarrow> log_env \<Rightarrow> (int \<times> ('a) log_ep_scheme \<times> log_env) option" where
  "get_file extension ep env =
     do {
       let dir = logs_dir (lg_config ep);
       (opened, fs1) \<leftarrow> open_or_create_dir dir (le_fs env);
       case opened of
         Inl _ \<Rightarrow> Some (- 1, ep, env\<lparr>le_fs := fs1\<rparr>)
       | Inr names \<Rightarrow>
           (let (r, filename, fs2) = try_create (Suc MAX_RETRIES) (path_of dir) (get_prefix names)
                  (le_localtime env (fs_tick (le_fs env))) extension (lg_filename ep) fs1
            in Some (r, ep\<lparr>lg_filename := filename\<rparr>, env\<lparr>le_fs := fs2\<rparr>))
     }"

section \<open>Starting and stopping\<close>

definition drop_timeout :: "nat option \<Rightarrow> log_env \<Rightarrow> log_env" where
  "drop_timeout t env = (case t of None \<Rightarrow> env | Some n \<Rightarrow> set_os (del_timeout n (le_os env)) env)"

definition close_log :: "('a) log_ep_scheme \<Rightarrow> log_env \<Rightarrow> ('a) log_ep_scheme \<times> log_env" where
  "close_log ep env = (ep\<lparr>lg_file := -1\<rparr>, env\<lparr>le_fs := fs_close (lg_file ep) (le_fs env)\<rparr>)"

definition LogEndpoint_start ::
  "string \<Rightarrow> ('a) log_ep_scheme \<Rightarrow> log_env \<Rightarrow> (bool \<times> ('a) log_ep_scheme \<times> log_env) option" where
  "LogEndpoint_start extension ep env =
     (if lg_file ep \<noteq> -1 then Some (False, ep, env)
      else do {
        let env1 = env\<lparr>le_fs := delete_old_logs (lg_config ep) (le_fs env)\<rparr>;
        (r, ep1, env2) \<leftarrow> get_file extension ep env1;
        if r < 0 then Some (False, ep1\<lparr>lg_file := -1\<rparr>, env2)
        else
          (let ep2 = ep1\<lparr>lg_file := r\<rparr>;
               (t1, w1) = add_timeout 1000 (CbLoggingStart (lg_id ep2)) (le_os env2);
               ep3 = ep2\<lparr>logging_start_timeout := t1\<rparr>; env3 = set_os w1 env2
           in if t1 = None then (let (ep4, env4) = close_log ep3 env3 in Some (False, ep4, env4))
              else
                let (t2, w2) = add_timeout 1000 (CbLogFsync (lg_id ep3)) (le_os env3);
                    ep4 = ep3\<lparr>fsync_timeout := t2\<rparr>; env4 = set_os w2 env3
                in if t2 = None
                   then (let (ep5, env5) = close_log (ep4\<lparr>logging_start_timeout := None\<rparr>) (drop_timeout t1 env4)
                         in Some (False, ep5, env5))
                   else Some (True, ep4, env4))
      })"

definition LogEndpoint_stop :: "('a) log_ep_scheme \<Rightarrow> log_env \<Rightarrow> ('a) log_ep_scheme \<times> log_env" where
  "LogEndpoint_stop ep env =
     (let env1 = drop_timeout (fsync_timeout ep) (drop_timeout (alive_timeout ep) (drop_timeout (logging_start_timeout ep) env));
          fs1 = fs_close (lg_file ep) (fs_sync (le_fs env1));
          log_file = join_path (logs_dir (lg_config ep)) (lg_filename ep);
          fs2 = (if length log_file < PATH_MAX then snd (fs_chmod log_file READ_ONLY fs1) else fs1)
      in (ep\<lparr>logging_start_timeout := None, alive_timeout := None, fsync_timeout := None, lg_file := -1, aio_fildes := -1\<rparr>,
          env1\<lparr>le_fs := fs2\<rparr>))"

text \<open>The virtual \<open>start\<close> and \<open>stop\<close> of a recorder.\<close>

type_synonym 'r starter = "'r \<Rightarrow> log_env \<Rightarrow> (bool \<times> 'r \<times> log_env) option"
type_synonym 'r stopper = "'r \<Rightarrow> log_env \<Rightarrow> ('r \<times> log_env) option"

definition alive_timeout_cb ::
  "('a) log_ep_scheme starter \<Rightarrow> ('a) log_ep_scheme stopper \<Rightarrow> ('a) log_ep_scheme starter" where
  "alive_timeout_cb start stop ep env =
     do {
       (ep1, env1) \<leftarrow>
         (if timeout_write_total ep = ws_total (lg_write ep)
          then do { (ep', env') \<leftarrow> stop ep env; (_, ep'', env'') \<leftarrow> start ep' env'; Some (ep'', env'') }
          else Some (ep, env));
       Some (True, ep1\<lparr>timeout_write_total := ws_total (lg_write ep1)\<rparr>, env1)
     }"

text \<open>\<open>_fsync\<close>; the call of the oracle is \<open>aio_error\<close>.\<close>

definition fsync_cb :: "('a) log_ep_scheme \<Rightarrow> log_env \<Rightarrow> bool \<times> ('a) log_ep_scheme \<times> log_env" where
  "fsync_cb ep env =
     (if lg_file ep < 0 then (False, ep, env)
      else
        let (e, fs1) = (if aio_fildes ep \<ge> 0 then tick (le_fs env) else (0, le_fs env)); env1 = env\<lparr>le_fs := fs1\<rparr>
        in if aio_fildes ep \<ge> 0 \<and> e = EINPROGRESS then (True, ep, env1)
           else (True, ep\<lparr>aio_fildes := lg_file ep\<rparr>, env1))"

definition remove_logging_start_timeout :: "('a) log_ep_scheme \<Rightarrow> log_env \<Rightarrow> ('a) log_ep_scheme \<times> log_env" where
  "remove_logging_start_timeout ep env = (ep\<lparr>logging_start_timeout := None\<rparr>, drop_timeout (logging_start_timeout ep) env)"

definition start_alive_timeout :: "('a) log_ep_scheme \<Rightarrow> log_env \<Rightarrow> bool \<times> ('a) log_ep_scheme \<times> log_env" where
  "start_alive_timeout ep env =
     (let (t, w) = add_timeout (of_nat (1000 * ALIVE_TIMEOUT)) (CbLogAlive (lg_id ep)) (le_os env)
      in (t \<noteq> None, ep\<lparr>alive_timeout := t\<rparr>, set_os w env))"

definition learn_target :: "loglib \<Rightarrow> buffer \<Rightarrow> ('a) log_ep_scheme \<Rightarrow> ('a) log_ep_scheme" where
  "learn_target L buf ep =
     (if target_system_id ep = -1 \<and> msg_id (b_curr buf) = ID_HEARTBEAT L \<and> src_compid (b_curr buf) = COMP_ID_AUTOPILOT1 L
      then ep\<lparr>target_system_id := uint (src_sysid (b_curr buf))\<rparr> else ep)"

definition start_or_disable :: "('a) log_ep_scheme starter \<Rightarrow> ('a) log_ep_scheme stopper" where
  "start_or_disable start ep env =
     do {
       (ok, ep1, env1) \<leftarrow> start ep env;
       Some (if ok then ep1 else ep1\<lparr>lg_config := (lg_config ep1)\<lparr>lo_mode := disabled\<rparr>\<rparr>, env1)
     }"

definition handle_auto_start_stop ::
  "loglib \<Rightarrow> ('a) log_ep_scheme starter \<Rightarrow> ('a) log_ep_scheme stopper \<Rightarrow> buffer \<Rightarrow> ('a) log_ep_scheme stopper" where
  "handle_auto_start_stop L start stop buf ep env =
     (if target_system_id ep = -1 then Some (ep, env)
      else if lo_mode (lg_config ep) = always then
        (if lg_file ep = -1 then start_or_disable start ep env else Some (ep, env))
      else if lo_mode (lg_config ep) = while_armed \<and> msg_id (b_curr buf) = ID_HEARTBEAT L
           \<and> uint (src_sysid (b_curr buf)) = target_system_id ep \<and> src_compid (b_curr buf) = COMP_ID_AUTOPILOT1 L then
        (let is_armed = (heartbeat_base_mode L (payload_at buf) AND SAFETY_ARMED L \<noteq> 0)
         in if lg_file ep = -1 \<and> is_armed then start_or_disable start ep env
            else if lg_file ep \<noteq> -1 \<and> \<not> is_armed then stop ep env
            else Some (ep, env))
      else Some (ep, env))"

section \<open>Options\<close>

definition parse_mavlink_dialect :: "nat \<Rightarrow> string \<Rightarrow> mav_dialect \<Rightarrow> (int \<times> mav_dialect) option" where
  "parse_mavlink_dialect storage_len val dialect =
     (if val = [] then None
      else if storage_len < 4 then Some (- ENOBUFS, dialect)
      else if length val > INT_MAX then Some (- EINVAL, dialect)
      else if memcaseeq val ''auto'' then Some (0, Auto)
      else if memcaseeq val ''common'' then Some (0, Common)
      else if memcaseeq val ''ardupilotmega'' then Some (0, Ardupilotmega)
      else Some (- EINVAL, dialect))"

definition parse_log_mode :: "nat \<Rightarrow> string \<Rightarrow> log_mode \<Rightarrow> (int \<times> log_mode) option" where
  "parse_log_mode storage_len val storage =
     (if val = [] then None
      else if storage_len < 4 then Some (- ENOBUFS, storage)
      else if length val > 20 then Some (- EINVAL, storage)
      else if strcaseeq (c_str val) ''always'' then Some (0, always)
      else if strcaseeq (c_str val) ''while-armed'' then Some (0, while_armed)
      else Some (- EINVAL, storage))"

text \<open>The number is stored before its range is checked.\<close>

definition parse_fcu_id :: "nat \<Rightarrow> string \<Rightarrow> int \<Rightarrow> (int \<times> int) option" where
  "parse_fcu_id storage_len val storage =
     (case parse_i storage_len val storage of
        None \<Rightarrow> None
      | Some (i_ret, v) \<Rightarrow>
          if i_ret \<noteq> 0 then Some (i_ret, v) else if v > 255 \<or> v \<le> 0 then Some (- EINVAL, v) else Some (0, v))"

end
