(* ===== verification/LogFiles.thy ===== *)
theory LogFiles
  imports LogEndpoint
begin

text \<open>
  The log directory: names that are printed are recognised again, a new log never takes the place of
  a file, rotation removes finished logs only, oldest first and no more than asked, and a
  stopped log becomes a finished one.
\<close>

section \<open>Notions\<close>

definition reduced :: "nat \<Rightarrow> u32" where
  "reduced n = ucast (if n \<ge> 2 ^ 64 then - 1 else of_nat n :: u64)"

text \<open>A file the rotation may delete.\<close>

definition finished_log :: "string \<Rightarrow> fsys \<Rightarrow> u32 \<Rightarrow> string \<Rightarrow> bool" where
  "finished_log dir fs idx name \<longleftrightarrow> log_index name = Some idx
     \<and> (\<exists>f. lookup_node fs (path_of (join_path dir name)) = Some (File f) \<and> f_mode f AND S_IWUSR = 0)"

definition all_finished :: "string \<Rightarrow> fsys \<Rightarrow> file_map \<Rightarrow> bool" where
  "all_finished dir fs files \<longleftrightarrow> (\<forall>(idx, name, size)\<in>set files. finished_log dir fs idx name)"

text \<open>Names in directories have no separators.\<close>

definition fs_wf :: "fsys \<Rightarrow> bool" where
  "fs_wf fs \<longleftrightarrow> (\<forall>(q, x)\<in>set (fs_nodes fs). \<forall>c\<in>set (snd q). c \<noteq> [] \<and> CHR ''/'' \<notin> set c)"

text \<open>Where the deletion stops.\<close>

definition enough :: "file_map \<Rightarrow> u64 \<Rightarrow> u64 \<Rightarrow> nat \<Rightarrow> bool" where
  "enough files b f k \<longleftrightarrow>
     sint (b - sum_list (map (\<lambda>(i, n, z). z) (take k files))) \<le> 0 \<and> sint (f - of_nat k) \<le> 0"

text \<open>The finished logs of a directory as the rotation has to see them: by ascending index, each a
  read-only file of the directory with a log's name, its index and its size, and none left out (of
  several with one index, one).\<close>

definition oldest_first :: "string \<Rightarrow> fsys \<Rightarrow> file_map \<Rightarrow> bool" where
  "oldest_first dir fs files \<longleftrightarrow> sorted_wrt (<) (map fst files) \<and>
     (\<forall>(i, n, z)\<in>set files. n \<in> set (entries (path_of dir) fs) \<and> finished_log dir fs i n \<and>
        (\<exists>f. lookup_node fs (path_of (join_path dir n)) = Some (File f) \<and> z = of_nat (length (f_data f)))) \<and>
     (\<forall>n\<in>set (entries (path_of dir) fs). \<forall>i. finished_log dir fs i n \<longrightarrow> i \<in> fst ` set files)"

definition short_paths :: "string \<Rightarrow> file_map \<Rightarrow> bool" where
  "short_paths dir files \<longleftrightarrow> (\<forall>(i, n, z)\<in>set files. length (join_path dir n) < PATH_MAX)"

definition log_path :: "string \<Rightarrow> (u32 \<times> string \<times> u64) \<Rightarrow> path" where
  "log_path dir x = path_of (join_path dir (fst (snd x)))"

text \<open>The list the code gathers when no call fails.\<close>

definition finished_logs :: "string \<Rightarrow> fsys \<Rightarrow> file_map" where
  "finished_logs dir fs = fst (fold (gather_log dir) (entries (path_of dir) fs) ([], fs))"

definition keeps :: "fsys \<Rightarrow> fsys \<Rightarrow> bool" where
  "keeps fs fs' \<longleftrightarrow> (\<forall>p. lookup_node fs p \<noteq> None \<longrightarrow> lookup_node fs' p = lookup_node fs p) \<and> fs_fds fs' = fs_fds fs"

section \<open>Lemmas\<close>

lemma digits_value_zeros: "digits_value (replicate k (CHR ''0'') @ s) = digits_value s"
proof -
  have "foldl (\<lambda>v c. v * 10 + (of_char c - 48)) (0::int) (replicate k (CHR ''0'')) = 0" by (induction k) auto
  then show ?thesis by (simp add: digits_value_def)
qed

lemma show_padded_digits: "list_all is_digit (show_padded k n)" "show_padded k n \<noteq> []"
  "digits_value (show_padded k n) = int n"
  using show_nat_digits [of n]
  by (auto simp: show_padded_def Let_def digits_value_zeros list_all_iff) (simp add: is_digit_def)

lemma takeWhile_digits: "list_all is_digit ds \<Longrightarrow> rest = [] \<or> \<not> is_digit (hd rest) \<Longrightarrow> takeWhile is_digit (ds @ rest) = ds"
  by (induction ds) (cases rest; auto)+

lemma scan_u_digits:
  assumes "list_all is_digit ds" "ds \<noteq> []" "rest = [] \<or> \<not> is_digit (hd rest)"
  shows "scan_u (ds @ rest) =
    Some (ucast (if digits_value ds \<ge> 2 ^ 64 then - 1 else word_of_int (digits_value ds) :: u64), rest)"
proof -
  obtain d ds' where d: "ds = d # ds'" "is_digit d" using assms(1,2) by (cases ds) auto
  then have "\<not> is_space d" "d \<noteq> CHR ''-''" "d \<noteq> CHR ''+''" by (auto simp: not_space_digit is_digit_def)
  then have "dropWhile is_space (ds @ rest) = ds @ rest" "hd (ds @ rest) \<noteq> CHR ''-''" "hd (ds @ rest) \<noteq> CHR ''+''"
    using d by auto
  then show ?thesis using takeWhile_digits [OF assms(1,3)] assms(2) by (simp add: scan_u_def Let_def)
qed

lemma scan_u_shown:
  assumes "\<not> is_digit c"
  shows "scan_u (show_padded k n @ c # rest) = Some (reduced n, c # rest)"
    and "scan_u (show_nat n @ c # rest) = Some (reduced n, c # rest)"
  using scan_u_digits [OF show_padded_digits(1,2), of "c # rest"] scan_u_digits [OF show_nat_digits show_nat_nonempty, of "c # rest"] assms
  by (simp_all add: show_padded_digits(3) reduced_def)

lemma reduced_unat: "reduced (unat i) = i"
proof -
  have "unat i < 2 ^ 32" using unsigned_less [of i] by simp
  moreover have "ucast (ucast i :: u64) = i" by (rule bit_word_eqI) (auto simp: bit_simps)
  ultimately show ?thesis by (simp add: reduced_def)
qed

lemma log_index_log_name: "log_index (log_name i t ext) = Some i" "\<exists>r. scan_u (log_name i t ext) = Some (i, r)"
proof -
  have c: "\<not> is_digit (CHR ''-'')" "\<not> is_digit (CHR ''_'')" "\<not> is_digit (CHR ''.'')" by (simp_all add: is_digit_def)
  show "log_index (log_name i t ext) = Some i"
    by (simp add: log_index_def log_name_def scan_u_shown c reduced_unat Let_def)
  show "\<exists>r. scan_u (log_name i t ext) = Some (i, r)"
    by (simp add: log_name_def scan_u_shown c reduced_unat)
qed

lemma fs_stat_Inr: "fs_stat s fs = (Inr x, fs1) \<Longrightarrow> lookup_node fs (path_of s) = Some x"
  by (auto simp: fs_stat_def Let_def case_prod_unfold split: if_splits option.splits)

lemma lookup_tick [simp]: "lookup_node (snd (tick fs)) = lookup_node fs"
  by (simp add: lookup_node_def fun_eq_iff)

lemma lookup_file_component: "lookup_node fs p = Some (File f) \<Longrightarrow> snd p \<noteq> []"
  by (auto simp: lookup_node_def)

lemma fs_remove_eq:
  "fs_remove s fs =
     (case fst (fs_stat s fs) of
        Inl e \<Rightarrow> (Inl e, snd (tick fs))
      | Inr x \<Rightarrow>
          if x = Dir \<and> (snd (path_of s) = [] \<or> entries (path_of s) fs \<noteq> []) then (Inl EBUSY, snd (tick fs))
          else (Inr (), (snd (tick fs))\<lparr>fs_nodes := filter (\<lambda>(q, _). q \<noteq> path_of s) (fs_nodes fs)\<rparr>))"
proof -
  obtain r where r: "fs_stat s fs = (r, snd (tick fs))"
    using fs_stat_stateD [of s fs] by (cases "fs_stat s fs") auto
  show ?thesis by (simp add: fs_remove_def Let_def r split: sum.split node.split)
qed

lemma fs_remove_ok:
  assumes "fs_remove s fs = (Inr u, fs1)"
  shows "lookup_node fs1 q = (if q = path_of s then None else lookup_node fs q)"
    and "fs_err fs1 = fs_err fs" "fs_tick fs1 = Suc (fs_tick fs)"
proof -
  obtain x where x: "fst (fs_stat s fs) = Inr x" "\<not> (x = Dir \<and> (snd (path_of s) = [] \<or> entries (path_of s) fs \<noteq> []))"
    and fs1: "fs1 = (snd (tick fs))\<lparr>fs_nodes := filter (\<lambda>(q, _). q \<noteq> path_of s) (fs_nodes fs)\<rparr>"
    using assms by (auto simp: fs_remove_eq split: sum.splits if_splits)
  have "lookup_node fs (path_of s) = Some x" using x(1) fs_stat_Inr by (metis prod.collapse)
  then have "snd (path_of s) \<noteq> []" using x(2) by (auto simp: lookup_node_def split: if_splits)
  then show "lookup_node fs1 q = (if q = path_of s then None else lookup_node fs q)"
    by (simp add: fs1 lookup_node_def map_of_filter_ne)
  show "fs_err fs1 = fs_err fs" "fs_tick fs1 = Suc (fs_tick fs)" using fs1 by simp_all
qed

lemma fs_remove_err: "fs_remove s fs = (Inl e, fs1) \<Longrightarrow> fs1 = snd (tick fs)"
  by (auto simp: fs_remove_eq split: sum.splits if_splits)

lemma om_put_set: "set (om_put k v m) \<subseteq> insert (k, v) (set m)"
  by (induction k v m rule: om_put.induct) auto

lemma all_finishedD: "all_finished dir fs files \<Longrightarrow> (i, n, z) \<in> set files \<Longrightarrow> finished_log dir fs i n"
  by (auto simp: all_finished_def)

lemma all_finished_put:
  "all_finished dir fs m \<Longrightarrow> finished_log dir fs i n \<Longrightarrow> all_finished dir fs (om_put i (n, z) m)"
  using om_put_set [of i "(n, z)" m] by (auto simp: all_finished_def)

lemma finished_log_cong: "lookup_node fs = lookup_node fs' \<Longrightarrow> finished_log dir fs = finished_log dir fs'"
  unfolding finished_log_def by presburger

lemma gather_log_state [simp]:
  "lookup_node (snd (gather_log dir n st)) = lookup_node (snd st)"
proof -
  obtain r where "fs_stat (join_path dir n) (snd st) = (r, snd (tick (snd st)))"
    using fs_stat_stateD by (metis prod.collapse)
  then show ?thesis by (simp add: gather_log_def split: option.split sum.split node.split)
qed

lemma gather_log_finished:
  assumes "all_finished dir (snd st) (fst st)"
  shows "all_finished dir (snd st) (fst (gather_log dir n st))"
proof -
  obtain r where r: "fs_stat (join_path dir n) (snd st) = (r, snd (tick (snd st)))"
    using fs_stat_stateD by (metis prod.collapse)
  have "finished_log dir (snd st) i n" if "log_index n = Some i" "r = Inr (File f)" "f_mode f AND S_IWUSR = 0" for i f
    using that fs_stat_Inr [of "join_path dir n" "snd st" "File f"] r by (simp add: finished_log_def)
  then show ?thesis
    using assms by (simp add: gather_log_def r all_finished_put split: option.split sum.split node.split)
qed

lemma gather_logs_finished:
  assumes "all_finished dir (snd st) (fst st)"
  shows "all_finished dir (snd st) (fst (fold (gather_log dir) ns st))"
    and "lookup_node (snd (fold (gather_log dir) ns st)) = lookup_node (snd st)"
proof -
  have c: "all_finished dir (snd (gather_log dir n st)) = all_finished dir (snd st)" for n st
    unfolding all_finished_def finished_log_cong [OF gather_log_state] ..
  show "all_finished dir (snd st) (fst (fold (gather_log dir) ns st))"
    using assms by (induction ns arbitrary: st) (simp_all, metis c gather_log_finished)
  show "lookup_node (snd (fold (gather_log dir) ns st)) = lookup_node (snd st)"
    by (induction ns arbitrary: st) simp_all
qed

lemma delete_logs_only:
  "lookup_node (snd (delete_logs dir files b k fs)) p = lookup_node fs p \<or>
   (lookup_node (snd (delete_logs dir files b k fs)) p = None \<and>
    (\<exists>idx name size. (idx, name, size) \<in> set files \<and> p = path_of (join_path dir name)))"
proof (induction files arbitrary: b k fs)
  case (Cons x files)
  obtain i n z where x: "x = (i, n, z)" by (cases x)
  obtain r fs1 where r: "fs_remove (join_path dir n) fs = (r, fs1)" by (cases "fs_remove (join_path dir n) fs")
  have "lookup_node fs1 p = lookup_node fs p \<or> lookup_node fs1 p = None \<and> p = path_of (join_path dir n)"
    using r fs_remove_ok(1) [of "join_path dir n" fs _ fs1 p] fs_remove_err [of "join_path dir n" fs _ fs1]
    by (cases r) auto
  then show ?case using Cons.IH [of b k fs] Cons.IH [of b k fs1] Cons.IH [of "b - z" "k - 1" fs1]
    by (auto simp: x r split: sum.split)
qed simp

lemma split_on_concat: "split_on c (a @ c # b) = split_on c a @ split_on c b"
  by (induction a) (auto split: list.split)

lemma path_of_join:
  assumes "name \<noteq> []" "CHR ''/'' \<notin> set name" "dir \<noteq> []"
  shows "path_of (join_path dir name) = (fst (path_of dir), snd (path_of dir) @ [name])"
  using assms by (simp add: path_of_def join_path_def strtok_on_def split_on_concat)

lemma entries_ok: "fs_wf fs \<Longrightarrow> n \<in> set (entries d fs) \<Longrightarrow> n \<noteq> [] \<and> CHR ''/'' \<notin> set n"
proof -
  assume wf: "fs_wf fs" and "n \<in> set (entries d fs)"
  then obtain q x where "(q, x) \<in> set (fs_nodes fs)" "snd q \<noteq> []" "n = last (snd q)" by (auto simp: entries_def)
  moreover from this have "last (snd q) \<in> set (snd q)" by simp
  ultimately show ?thesis using wf unfolding fs_wf_def by fastforce
qed

lemma fs_remove_file:
  assumes "lookup_node fs (path_of s) = Some (File f)" "fs_err fs (fs_tick fs) = 0" "s \<noteq> []"
  shows "\<exists>fs1. fs_remove s fs = (Inr (), fs1)"
  using assms by (auto simp: fs_remove_eq fs_stat_def Let_def case_prod_unfold)

lemma delete_logs_prefix:
  assumes "\<forall>t. fs_err fs t = 0" "short_paths dir files" "distinct (map (log_path dir) files)"
    "\<forall>x\<in>set files. \<exists>f. lookup_node fs (log_path dir x) = Some (File f)"
  shows "\<exists>k\<le>length files. (k = length files \<or> enough files b f k) \<and> (\<forall>j<k. \<not> enough files b f j)
    \<and> lookup_node (snd (delete_logs dir files b f fs)) =
       (\<lambda>p. if p \<in> log_path dir ` set (take k files) then None else lookup_node fs p)"
  using assms
proof (induction files arbitrary: b f fs)
  case (Cons x files)
  obtain i n z where x: "x = (i, n, z)" by (cases x)
  show ?case
  proof (cases "enough (x # files) b f 0")
    case True
    then have "snd (delete_logs dir (x # files) b f fs) = fs" by (simp add: x enough_def)
    then show ?thesis using True by (intro exI [of _ 0]) simp
  next
    case False
    have p: "path_of (join_path dir n) = log_path dir x" by (simp add: log_path_def x)
    have ne: "join_path dir n \<noteq> []" by (simp add: join_path_def)
    obtain fl where "lookup_node fs (log_path dir x) = Some (File fl)" using Cons.prems(4) by auto
    then obtain fs1 where r: "fs_remove (join_path dir n) fs = (Inr (), fs1)"
      using fs_remove_file [of fs "join_path dir n"] ne Cons.prems(1) p by auto
    note ok = fs_remove_ok [OF r, unfolded p]
    have d: "delete_logs dir (x # files) b f fs = delete_logs dir files (b - z) (f - 1) fs1"
      using False Cons.prems(2) r by (auto simp: x enough_def short_paths_def)
    have "\<forall>y\<in>set files. \<exists>f. lookup_node fs1 (log_path dir y) = Some (File f)"
    proof
      fix y
      assume y: "y \<in> set files"
      then have "log_path dir y \<noteq> log_path dir x" using Cons.prems(3) by (metis distinct.simps(2) image_eqI list.simps(9) list.set_map)
      then show "\<exists>f. lookup_node fs1 (log_path dir y) = Some (File f)" using Cons.prems(4) y by (simp add: ok(1))
    qed
    from Cons.IH [of fs1 "b - z" "f - 1", OF _ _ _ this] Cons.prems ok(2)
    obtain k where k: "k \<le> length files" "k = length files \<or> enough files (b - z) (f - 1) k"
      "\<forall>j<k. \<not> enough files (b - z) (f - 1) j"
      "lookup_node (snd (delete_logs dir files (b - z) (f - 1) fs1)) =
         (\<lambda>p. if p \<in> log_path dir ` set (take k files) then None else lookup_node fs1 p)"
      by (auto simp: short_paths_def)
    have e: "enough (x # files) b f (Suc j) = enough files (b - z) (f - 1) j" for j
      by (simp add: enough_def x algebra_simps)
    have "\<forall>j<Suc k. \<not> enough (x # files) b f j" using k(3) False e by (auto simp: less_Suc_eq_0_disj)
    moreover have "lookup_node (snd (delete_logs dir (x # files) b f fs)) =
        (\<lambda>p. if p \<in> log_path dir ` set (take (Suc k) (x # files)) then None else lookup_node fs p)"
      unfolding d k(4) by (auto simp: ok(1))
    ultimately show ?thesis using k(1,2) e by (intro exI [of _ "Suc k"]) auto
  qed
qed simp

lemma gather_log_inv:
  "om_inv (fst st) \<Longrightarrow> om_inv (fst (gather_log dir n st))"
  by (auto simp: gather_log_def om_inv_put split: option.split prod.split sum.split node.split)

lemma gather_log_names: "(i, m, z) \<in> set (fst (gather_log dir n st)) \<Longrightarrow> m = n \<or> (i, m, z) \<in> set (fst st)"
  using om_put_set by (fastforce simp: gather_log_def split: option.splits prod.splits sum.splits node.splits if_splits)

lemma gather_log_tick:
  "fs_err (snd (gather_log dir n st)) = fs_err (snd st)" 
  by (auto simp: gather_log_def dest!: fs_stat_stateD split: option.splits prod.splits sum.splits node.splits if_splits)
 

lemma fold_gather_inv: "om_inv (fst st) \<Longrightarrow> om_inv (fst (fold (gather_log dir) ns st))"
  by (induction ns arbitrary: st) (simp_all add: gather_log_inv)

lemma fold_gather_names:
  "(i, m, z) \<in> set (fst (fold (gather_log dir) ns st)) \<Longrightarrow> m \<in> set ns \<or> (i, m, z) \<in> set (fst st)"
proof (induction ns arbitrary: st)
  case (Cons n ns)
  then have "(i, m, z) \<in> set (fst (fold (gather_log dir) ns (gather_log dir n st)))" by simp
  from Cons.IH [OF this] gather_log_names [of i m z dir n st] show ?case by (metis list.set_intros)
qed simp

lemma fold_gather_err: "fs_err (snd (fold (gather_log dir) ns st)) = fs_err (snd st)"
  by (induction ns arbitrary: st) (simp_all add: gather_log_tick)

text \<open>Gathering sees the nodes only.\<close>

lemma fst_gather_log:
  "fst (gather_log dir n st) =
     (case log_index n of
        None \<Rightarrow> fst st
      | Some idx \<Rightarrow>
          (case fst (fs_stat (join_path dir n) (snd st)) of
             Inr (File f) \<Rightarrow> if f_mode f AND S_IWUSR = 0 then om_put idx (n, of_nat (length (f_data f))) (fst st) else fst st
           | _ \<Rightarrow> fst st))"
  by (simp add: gather_log_def split: option.split prod.split sum.split node.split)

lemma fold_gather_cong:
  assumes "\<forall>t. fs_err (snd st) t = 0" "\<forall>t. fs_err (snd st') t = 0" "fst st = fst st'" "lookup_node (snd st) = lookup_node (snd st')"
  shows "fst (fold (gather_log dir) ns st) = fst (fold (gather_log dir) ns st')"
  using assms
proof (induction ns arbitrary: st st')
  case (Cons n ns)
  have e: "fst (fs_stat (join_path dir n) (snd st)) = fst (fs_stat (join_path dir n) (snd st'))"
    using Cons.prems by (simp add: fs_stat_def case_prod_unfold Let_def split: option.split)
  have "fst (gather_log dir n st) = fst (gather_log dir n st')"
    unfolding fst_gather_log e Cons.prems(3) ..
  then show ?case using Cons.IH [of "gather_log dir n st" "gather_log dir n st'"] Cons.prems
    by (simp add: gather_log_tick)
qed simp

lemma finished_logs_paths:
  assumes "fs_wf fs" "dir \<noteq> []"
  shows "distinct (map (log_path dir) (finished_logs dir fs))"
    and "\<forall>x\<in>set (finished_logs dir fs). \<exists>f. lookup_node fs (log_path dir x) = Some (File f)"
    and "om_inv (finished_logs dir fs)"
proof -
  let ?F = "finished_logs dir fs"
  have fin: "all_finished dir fs ?F"
    using gather_logs_finished(1) [of dir "([], fs)"] by (simp add: finished_logs_def all_finished_def)
  show inv: "om_inv ?F" using fold_gather_inv [of "([], fs)"] by (simp add: finished_logs_def)
  have nm: "log_path dir x = (fst (path_of dir), snd (path_of dir) @ [fst (snd x)])" "log_index (fst (snd x)) = Some (fst x)"
    if "x \<in> set ?F" for x
  proof -
    obtain i n z where x: "x = (i, n, z)" by (cases x)
    then have "n \<in> set (entries (path_of dir) fs)"
      using that fold_gather_names [of i n z dir _ "([], fs)"] by (auto simp: finished_logs_def)
    then show "log_path dir x = (fst (path_of dir), snd (path_of dir) @ [fst (snd x)])"
      using entries_ok [OF assms(1)] path_of_join assms(2) by (simp add: log_path_def x)
    show "log_index (fst (snd x)) = Some (fst x)" using all_finishedD [OF fin] that x by (auto simp: finished_log_def)
  qed
  have "inj_on (log_path dir) (set ?F)"
  proof (rule inj_onI)
    fix x y
    assume xy: "x \<in> set ?F" "y \<in> set ?F" "log_path dir x = log_path dir y"
    then have "fst x = fst y" using nm(1) [OF xy(1)] nm(1) [OF xy(2)] nm(2) [OF xy(1)] nm(2) [OF xy(2)] by simp
    then show "x = y" using xy inv by (metis distinct_map inj_onD om_inv_def)
  qed
  then show "distinct (map (log_path dir) ?F)" using inv by (simp add: distinct_map om_inv_def)
  show "\<forall>x\<in>set ?F. \<exists>f. lookup_node fs (log_path dir x) = Some (File f)"
    using all_finishedD [OF fin] unfolding finished_log_def log_path_def by (metis prod.collapse)
qed

lemma gather_log_keys:
  assumes "\<forall>t. fs_err (snd st) t = 0"
  shows "fst ` set (fst (gather_log dir n st)) = fst ` set (fst st) \<union> {i. finished_log dir (snd st) i n}"
proof -
  have "fst (fs_stat (join_path dir n) (snd st)) =
      (case lookup_node (snd st) (path_of (join_path dir n)) of Some x \<Rightarrow> Inr x | None \<Rightarrow> Inl ENOENT)"
    using assms by (simp add: fs_stat_def case_prod_unfold Let_def join_path_def split: option.split)
  then show ?thesis
    using set_fst_om_put [where m = "fst st"]
    by (auto simp: fst_gather_log finished_log_def split: option.splits node.splits)
qed

lemma fold_gather_keys:
  assumes "\<forall>t. fs_err (snd st) t = 0"
  shows "fst ` set (fst (fold (gather_log dir) ns st)) = fst ` set (fst st) \<union> {i. \<exists>n\<in>set ns. finished_log dir (snd st) i n}"
  using assms
proof (induction ns arbitrary: st)
  case (Cons n ns)
  have "finished_log dir (snd (gather_log dir n st)) = finished_log dir (snd st)"
    by (rule finished_log_cong) simp
  then show ?case using Cons.IH [of "gather_log dir n st"] gather_log_keys [OF Cons.prems, of dir n] Cons.prems
    by (auto simp: gather_log_tick)
qed simp

lemma fold_gather_sizes:
  assumes "\<forall>(i, m, z)\<in>set (fst st). \<exists>f. lookup_node (snd st) (path_of (join_path dir m)) = Some (File f) \<and> z = of_nat (length (f_data f))"
  shows "\<forall>(i, m, z)\<in>set (fst (fold (gather_log dir) ns st)). \<exists>f. lookup_node (snd st) (path_of (join_path dir m)) = Some (File f) \<and> z = of_nat (length (f_data f))"
  using assms
proof (induction ns arbitrary: st)
  case (Cons n ns)
  have "\<exists>f. lookup_node (snd st) (path_of (join_path dir m)) = Some (File f) \<and> z = of_nat (length (f_data f))"
    if mem: "(i, m, z) \<in> set (fst (gather_log dir n st))" for i m z
  proof -
    consider "(i, m, z) \<in> set (fst st)" | f where "fst (fs_stat (join_path dir n) (snd st)) = Inr (File f)" "m = n" "z = of_nat (length (f_data f))"
      using mem om_put_set by (fastforce simp: fst_gather_log split: option.splits sum.splits node.splits if_splits)
    then show ?thesis
    proof cases
      case 1
      then show ?thesis using Cons.prems by blast
    next
      case 2
      then show ?thesis using fs_stat_Inr by (metis prod.collapse)
    qed
  qed
  then have "\<forall>(i, m, z)\<in>set (fst (gather_log dir n st)). \<exists>f. lookup_node (snd st) (path_of (join_path dir m)) = Some (File f)
      \<and> z = of_nat (length (f_data f))" by blast
  then show ?case using Cons.IH [of "gather_log dir n st"] by simp
qed simp

lemma finished_logs_oldest_first:
  assumes "\<forall>t. fs_err fs t = 0" "fs_wf fs" "dir \<noteq> []"
  shows "oldest_first dir fs (finished_logs dir fs)"
proof -
  note pa = finished_logs_paths [OF assms(2,3)]
  have fin: "all_finished dir fs (finished_logs dir fs)"
    using gather_logs_finished(1) [of dir "([], fs)"] by (simp add: finished_logs_def all_finished_def)
  have nm: "n \<in> set (entries (path_of dir) fs)" if "(i, n, z) \<in> set (finished_logs dir fs)" for i n z
    using that fold_gather_names [of i n z dir _ "([], fs)"] by (auto simp: finished_logs_def)
  have "sorted_wrt (<) (map fst (finished_logs dir fs))"
    using pa(3) by (simp add: om_inv_def strict_sorted_iff)
  moreover have "\<forall>(i, m, z)\<in>set (finished_logs dir fs). \<exists>f. lookup_node fs (path_of (join_path dir m)) = Some (File f) \<and> z = of_nat (length (f_data f))"
    using fold_gather_sizes [of "([], fs)" dir] by (simp add: finished_logs_def)
  moreover have "fst ` set (finished_logs dir fs) = {i. \<exists>n\<in>set (entries (path_of dir) fs). finished_log dir fs i n}"
    using fold_gather_keys [of "([], fs)" dir] assms(1) by (simp add: finished_logs_def)
  ultimately show ?thesis using nm all_finishedD [OF fin] by (fastforce simp: oldest_first_def)
qed

lemma keeps_refl [simp]: "keeps fs fs"
  by (simp add: keeps_def)

lemma keeps_trans: "keeps a b \<Longrightarrow> keeps b c \<Longrightarrow> keeps a c"
  unfolding keeps_def by metis

lemma keeps_tick [simp]: "keeps fs (snd (tick fs))"
  by (simp add: keeps_def)

lemma lookup_append_new:
  "snd p \<noteq> [] \<Longrightarrow> lookup_node fs p = None \<Longrightarrow> fs_nodes fs' = fs_nodes fs @ [(p, x)] \<Longrightarrow>
   lookup_node fs' q = (if q = p then Some x else lookup_node fs q)"
  by (auto simp: lookup_node_def map_add_def split: option.split)

lemma keeps_mkdir: "fs_mkdir s fs = (r, fs1) \<Longrightarrow> keeps fs fs1"
proof -
  assume m: "fs_mkdir s fs = (r, fs1)"
  have "fs1 = snd (tick fs) \<or> (lookup_node fs (path_of s) = None \<and> fs1 = (snd (tick fs))\<lparr>fs_nodes := fs_nodes fs @ [(path_of s, Dir)]\<rparr>)"
    using m by (auto simp: fs_mkdir_def Let_def case_prod_unfold split: if_splits option.splits node.splits)
  moreover have "lookup_node fs (path_of s) = None \<Longrightarrow> snd (path_of s) \<noteq> []" by (auto simp: lookup_node_def)
  ultimately show ?thesis
    using lookup_append_new [of "path_of s" fs fs1 Dir] by (auto simp: keeps_def)
qed

lemma is_dir_state: "is_dir s fs = (r, fs1) \<Longrightarrow> fs1 = snd (tick fs)"
  by (auto simp: is_dir_def dest!: fs_stat_stateD split: prod.splits sum.splits node.splits)

lemma keeps_scan: "mkdir_p_scan len b e fs = Some (r, fs1) \<Longrightarrow> keeps fs fs1"
proof (induction len b e fs rule: mkdir_p_scan.induct)
  case (1 len b e fs)
  obtain d fs2 where d: "is_dir (c_str b) fs = (d, fs2)" by (cases "is_dir (c_str b) fs")
  have k: "keeps fs fs2" using is_dir_state [OF d] by simp
  show ?case
  proof (cases "d < 0 \<and> \<not> (e = 0 \<or> length b \<le> e)")
    case True
    with 1(2) have "mkdir_p_scan len (b[e := NUL]) (skip_slashes (b[e := NUL]) (back_to_slash (b[e := NUL]) e)) fs2 = Some (r, fs1)"
      by (subst (asm) mkdir_p_scan.simps) (simp add: d Let_def)
    then have "keeps fs2 fs1" using 1(1) [OF d [symmetric]] True by auto
    then show ?thesis using k keeps_trans by blast
  next
    case False
    with 1(2) k show ?thesis
      by (subst (asm) mkdir_p_scan.simps) (auto simp: d Let_def split: if_splits)
  qed
qed

lemma keeps_make: "mkdir_p_make len b e fs = Some p \<Longrightarrow> keeps fs (snd p)"
proof (rule mkdir_p_make.raw_induct [where P = "\<lambda>len b e fs p. keeps fs (snd p)"])
  fix f len b e fs p
  assume IH: "\<And>len b e fs p. f len b e fs = Some p \<Longrightarrow> keeps fs (snd p)"
    and run: "(if e < len
        then case fs_mkdir (c_str b) fs of
             (res, fs1) \<Rightarrow>
               if case res of Inl e \<Rightarrow> e \<noteq> EEXIST | Inr x \<Rightarrow> False
               then Some (- (case res of Inl e \<Rightarrow> e | Inr x \<Rightarrow> 0), fs1)
               else let e1 = e + length (c_str (drop e b))
                    in f len (b[e1 := CHR ''/'']) e1 fs1
        else Some (0, fs)) = Some p"
  obtain res fs1 where m: "fs_mkdir (c_str b) fs = (res, fs1)" by (cases "fs_mkdir (c_str b) fs")
  then have k: "keeps fs fs1" by (rule keeps_mkdir)
  show "keeps fs (snd p)"
    using run k by (auto simp: m Let_def split: if_splits sum.splits dest!: IH intro: keeps_trans)
qed

lemma keeps_mkdir_p: "mkdir_p s fs = Some (r, fs1) \<Longrightarrow> keeps fs fs1"
  using keeps_trans by (fastforce simp: mkdir_p_def Let_def split: option.splits sum.splits dest: keeps_scan keeps_make)

lemma keeps_open_or_create:
  "open_or_create_dir s fs = Some (r, fs1) \<Longrightarrow> keeps fs fs1"
proof -
  obtain d where d: "fs_readdir s fs = (d, snd (tick fs))" using fs_readdir_state by (metis prod.collapse)
  have rd: "keeps fs2 fs3" if "fs_readdir s fs2 = (x, fs3)" for fs2 x fs3
    using that fs_readdir_state [of s fs2] keeps_tick [of fs2] by simp
  assume "open_or_create_dir s fs = Some (r, fs1)"
  then show ?thesis
    by (auto simp: open_or_create_dir_def d bind_eq_Some_conv split: sum.splits if_splits
        dest!: keeps_mkdir_p rd intro: keeps_trans [OF keeps_tick] keeps_trans [OF keeps_trans [OF keeps_tick]])
qed

lemma try_create_new:
  assumes "try_create n d i t ext fname fs = (r, fname', fs')" "r \<ge> 0"
  shows "\<exists>fs1 j. keeps fs fs1 \<and> fname' = log_name (i + of_nat j) t ext \<and> j < n \<and> length fname' < FILENAME_SIZE
    \<and> lookup_node fs1 (fst d, snd d @ [fname']) = None
    \<and> lookup_node fs' = (lookup_node fs1)((fst d, snd d @ [fname']) \<mapsto> File \<lparr>f_data = [], f_mode = 0x1A4\<rparr>)
    \<and> fs_fds fs' r = Some ((fst d, snd d @ [fname']), 0)"
  using assms
proof (induction n arbitrary: i fname fs)
  case (Suc n)
  let ?name = "log_name i t ext" and ?p = "(fst d, snd d @ [log_name i t ext])"
  have short: "length ?name < FILENAME_SIZE" using Suc.prems by (auto simp: Let_def split: if_splits)
  then have tk: "take (FILENAME_SIZE - 1) ?name = ?name" by simp
  obtain c fs1 where c: "fs_create ?p 0x1A4 fs = (c, fs1)" by (cases "fs_create ?p 0x1A4 fs")
  show ?case
  proof (cases c)
    case (Inl e)
    then have k: "keeps fs fs1" using c by (auto simp: fs_create_def Let_def case_prod_unfold split: if_splits)
    have "try_create n d (i + 1) t ext ?name fs1 = (r, fname', fs')"
      using Suc.prems short c Inl tk by (auto simp: Let_def split: if_splits)
    from Suc.IH [OF this Suc.prems(2)] obtain fs2 j where j: "keeps fs1 fs2" "fname' = log_name (i + 1 + of_nat j) t ext" "j < n"
      "length fname' < FILENAME_SIZE" "lookup_node fs2 (fst d, snd d @ [fname']) = None"
      "lookup_node fs' = (lookup_node fs2)((fst d, snd d @ [fname']) \<mapsto> File \<lparr>f_data = [], f_mode = 0x1A4\<rparr>)"
      "fs_fds fs' r = Some ((fst d, snd d @ [fname']), 0)" by blast
    then show ?thesis using keeps_trans [OF k j(1)] by (intro exI [of _ fs2] exI [of _ "Suc j"]) (simp add: algebra_simps)
  next
    case (Inr fd)
    then have n: "lookup_node fs ?p = None" "fd = 3 + int (fs_tick fs)"
      "fs_nodes fs1 = fs_nodes fs @ [(?p, File \<lparr>f_data = [], f_mode = 0x1A4\<rparr>)]" "fs_fds fs1 fd = Some (?p, 0)"
      using c by (auto simp: fs_create_def Let_def case_prod_unfold split: if_splits)
    have res: "r = fd" "fname' = ?name" "fs' = fs_sync fs1" using Suc.prems short c Inr tk by (auto simp: Let_def)
    have "lookup_node fs1 = (lookup_node fs)(?p \<mapsto> File \<lparr>f_data = [], f_mode = 0x1A4\<rparr>)"
      using lookup_append_new [OF _ n(1,3)] by (auto simp: fun_eq_iff)
    moreover have "lookup_node fs' = lookup_node fs1" using res(3) by (intro lookup_node_cong) simp
    ultimately show ?thesis using n res short
      by (intro exI [of _ fs] exI [of _ 0]) simp
  qed
qed simp

lemma get_prefix_greater:
  assumes "name \<in> set names" "scan_u name = Some (u, r)" "u < UINT32_MAX"
  shows "u < get_prefix names"
proof -
  let ?f = "\<lambda>name prefix. case scan_u name of None \<Rightarrow> prefix | Some (u, _) \<Rightarrow> if u \<ge> prefix \<and> u < UINT32_MAX then u + 1 else prefix"
  have inc: "x < UINT32_MAX \<Longrightarrow> x < x + (1 :: u32)" for x by (simp add: word_less_nat_alt unat_word_ariths) 
  have mono: "prefix \<le> ?f name prefix" for name prefix
    using inc by (auto split: option.split intro: order.strict_implies_order order.strict_trans1)
  have fold_mono: "prefix \<le> fold ?f ns prefix" for ns prefix
    by (induction ns arbitrary: prefix) (auto intro: order_trans [OF mono])
  obtain as bs where ns: "names = as @ name # bs" using assms(1) by (meson split_list)
  have "u < ?f name (fold ?f as 0)" using assms(2,3) inc by auto
  also have "\<dots> \<le> fold ?f bs (?f name (fold ?f as 0))" by (rule fold_mono)
  finally show ?thesis by (simp add: get_prefix_def ns)
qed

lemma get_file_new:
  assumes "get_file ext ep env = Some (r, ep', env')" "r \<ge> 0"
  defines "p \<equiv> (fst (path_of (logs_dir (lg_config ep))), snd (path_of (logs_dir (lg_config ep))) @ [lg_filename ep'])"
  shows "lookup_node (le_fs env) p = None"
    and "lookup_node (le_fs env') p = Some (File \<lparr>f_data = [], f_mode = 0x1A4\<rparr>)"
    and "lookup_node (le_fs env) q \<noteq> None \<Longrightarrow> lookup_node (le_fs env') q = lookup_node (le_fs env) q"
    and "fs_fds (le_fs env') r = Some (p, 0)"
    and "\<exists>i. log_index (lg_filename ep') = Some i" "lg_config ep' = lg_config ep" "length (lg_filename ep') < FILENAME_SIZE"
proof -
  obtain names fs1 where o: "open_or_create_dir (logs_dir (lg_config ep)) (le_fs env) = Some (Inr names, fs1)"
  proof -
    obtain x fs1 where "open_or_create_dir (logs_dir (lg_config ep)) (le_fs env) = Some (x, fs1)"
      using assms(1) by (auto simp: get_file_def bind_eq_Some_conv Let_def)
    then show ?thesis using assms(1,2) that by (cases x) (auto simp: get_file_def Let_def)
  qed
  let ?c = "try_create (Suc MAX_RETRIES) (path_of (logs_dir (lg_config ep))) (get_prefix names)
     (le_localtime env (fs_tick (le_fs env))) ext (lg_filename ep) fs1"
  have c: "?c = (r, lg_filename ep', le_fs env')" and ep': "ep' = ep\<lparr>lg_filename := fst (snd ?c)\<rparr>"
    using assms(1) o by (auto simp: get_file_def Let_def case_prod_unfold)
  note k = keeps_open_or_create [OF o]
  from try_create_new [OF c assms(2)] obtain fs2 j where
    t: "keeps fs1 fs2" "lg_filename ep' = log_name (get_prefix names + of_nat j) (le_localtime env (fs_tick (le_fs env))) ext"
      "length (lg_filename ep') < FILENAME_SIZE" "lookup_node fs2 p = None"
      "lookup_node (le_fs env') = (lookup_node fs2)(p \<mapsto> File \<lparr>f_data = [], f_mode = 0x1A4\<rparr>)"
      "fs_fds (le_fs env') r = Some (p, 0)" by (auto simp: p_def)
  have k2: "keeps (le_fs env) fs2" using k t(1) by (rule keeps_trans)
  show n: "lookup_node (le_fs env) p = None" using k2 t(4) unfolding keeps_def by metis
  show "lookup_node (le_fs env') p = Some (File \<lparr>f_data = [], f_mode = 0x1A4\<rparr>)" using t(5) by simp
  show "lookup_node (le_fs env) q \<noteq> None \<Longrightarrow> lookup_node (le_fs env') q = lookup_node (le_fs env) q"
    using k2 t(5) n unfolding keeps_def by (metis fun_upd_apply)
  show "fs_fds (le_fs env') r = Some (p, 0)" by (rule t(6))
  show "\<exists>i. log_index (lg_filename ep') = Some i" using t(2) log_index_log_name by metis
  show "lg_config ep' = lg_config ep" using ep' by simp
  show "length (lg_filename ep') < FILENAME_SIZE" by (rule t(3))
qed

text \<open>Marking.\<close>

lemma fs_chmod_file:
  assumes "lookup_node fs (path_of s) = Some (File f)" "fs_err fs (fs_tick fs) = 0" "s \<noteq> []"
  shows "lookup_node (snd (fs_chmod s md fs)) = (lookup_node fs)(path_of s \<mapsto> File (f\<lparr>f_mode := md\<rparr>))"
    and "fs_fds (snd (fs_chmod s md fs)) = fs_fds fs"
proof -
  have "fs_stat s fs = (Inr (File f), snd (tick fs))" using assms by (simp add: fs_stat_def case_prod_unfold Let_def)
  then have e: "snd (fs_chmod s md fs) = update_node (path_of s) (File (f\<lparr>f_mode := md\<rparr>)) (snd (tick fs))"
    by (simp add: fs_chmod_def)
  show "lookup_node (snd (fs_chmod s md fs)) = (lookup_node fs)(path_of s \<mapsto> File (f\<lparr>f_mode := md\<rparr>))"
    using lookup_file_component [OF assms(1)] assms(1) by (auto simp: e fun_eq_iff lookup_update_node)
  show "fs_fds (snd (fs_chmod s md fs)) = fs_fds fs" by (simp add: e update_node_def)
qed

lemma drop_timeout_fs [simp]: "le_fs (drop_timeout t env) = le_fs env"
  by (simp add: drop_timeout_def split: option.split)

lemma lookup_close [simp]: "lookup_node (fs_close fd fs) = lookup_node fs" "lookup_node (fs_sync fs) = lookup_node fs"
  by (auto simp: lookup_node_def fs_close_def fun_eq_iff)

lemma w_timeouts_drop:
  "w_timeouts (le_os (drop_timeout t env)) =
     map (\<lambda>x. if Some (to_id x) = t then x\<lparr>remove_me := True\<rparr> else x) (w_timeouts (le_os env))"
  by (cases t) (simp_all add: drop_timeout_def del_timeout_def)

section \<open>An example\<close>

definition ex_log_options :: log_options where
  "ex_log_options = \<lparr>logs_dir = ''/logs'', lo_mode = always, mavlink_dialect = Auto, min_free_space = 0,
     max_log_files = 1, fcu_id = -1, log_telemetry = False\<rparr>"

definition ex_tm :: tm where
  "ex_tm = \<lparr>tm_year = 125, tm_mon = 6, tm_mday = 14, tm_hour = 9, tm_min = 5, tm_sec = 0\<rparr>"

definition ex_log_fs :: fsys where
  "ex_log_fs = ex_fs\<lparr>fs_nodes := fs_nodes ex_fs @
     [((True, [''logs'', ''00007-2025-07-13_10-00-00.ulg'']), File \<lparr>f_data = [1, 2, 3], f_mode = READ_ONLY\<rparr>),
      ((True, [''logs'', ''00003-2025-07-12_10-00-00.ulg'']), File \<lparr>f_data = [1], f_mode = READ_ONLY\<rparr>),
      ((True, [''logs'', ''00001-2025-07-11_10-00-00.ulg'']), File \<lparr>f_data = [1], f_mode = 0x1A4\<rparr>)]\<rparr>"

definition ex_log_router :: router where
  "ex_log_router =
     \<lparr>initialized = True, epollfd = 3, objs = [], g_endpoints = [], g_tcp_fd = -1, g_commands_fd = -1, resend_scheduled = False, resend_timer = None,
      msg_dedup = dedup_init 0, dedup_start = 0, msg_to_unknown = 0, sniffer_sysid = 0, should_exit = False, retcode = 0,
      os = ex_world\<rparr>"

definition ex_log_env :: log_env where
  "ex_log_env = \<lparr>le_ml = ex_log_router, le_fs = ex_log_fs, le_localtime = (\<lambda>_. ex_tm), le_usec = of_nat, le_routed = []\<rparr>"

lemma replicate_4: "replicate 4 x = [x, x, x, x]" by (simp add: numeral_eq_Suc)

lemma ex_log_name: "log_name 8 ex_tm ''ulg'' = ''00008-2025-07-14_09-05-00.ulg''"
  by (simp add: log_name_def ex_tm_def show_padded_def show_nat.simps digit_char_def char_of_eq_iff replicate_4)

lemma eleven: "(11::nat) = Suc 10" by simp

lemma ex_log_dir: "open_or_create_dir ''/logs'' ex_log_fs = Some (Inr [''00007-2025-07-13_10-00-00.ulg'', ''00003-2025-07-12_10-00-00.ulg'', ''00001-2025-07-11_10-00-00.ulg''], snd (tick ex_log_fs))"
  by (simp add: open_or_create_dir_def ex_log_fs_def ex_fs_def fs_readdir_def fs_stat_def tick_def path_of_def lookup_node_def strtok_on_def entries_def)

lemma ex_log_prefix: "get_prefix [''00007-2025-07-13_10-00-00.ulg'', ''00003-2025-07-12_10-00-00.ulg'', ''00001-2025-07-11_10-00-00.ulg''] = 8"
  by (simp add: get_prefix_def scan_u_def is_space_def is_digit_def digits_value_def Let_def word_le_nat_alt)

lemmas try_create_first = try_create.simps(2) [of 10, unfolded eleven [symmetric]]

lemma ex_get_file: "\<exists>ep' env'. get_file ''ulg'' (LogEndpoint_init 0 ex_log_options) ex_log_env = Some (4, ep', env') \<and> lg_filename ep' = ''00008-2025-07-14_09-05-00.ulg''"
  by (simp add: get_file_def LogEndpoint_init_def ex_log_env_def ex_log_options_def ex_log_dir ex_log_prefix try_create_first ex_log_name fs_create_def)
     (simp add: ex_log_fs_def ex_fs_def tick_def path_of_def lookup_node_def strtok_on_def Let_def)

section \<open>Properties\<close>

text \<open>The name of a log file tells its index: whatever the time and the extension, the rotation and
  the search for the next index read back the index the name was printed with.\<close>

lemma log_name_roundtrip:
  "log_index (log_name i t extension) = Some i \<and> (\<exists>rest. scan_u (log_name i t extension) = Some (i, rest))"
  using log_index_log_name by blast

text \<open>C38: rotation is safe: the only files it removes are in the log directory, have the name of a log
  and are finished, that is, read-only. Every other file stays as it was, whatever calls fail.\<close>

theorem rotation_deletes_only_finished_logs:
  "lookup_node (delete_old_logs conf fs) p = lookup_node fs p \<or>
   (lookup_node (delete_old_logs conf fs) p = None \<and>
    (\<exists>idx name. p = path_of (join_path (logs_dir conf) name) \<and> finished_log (logs_dir conf) fs idx name))"
proof -
  let ?d = "logs_dir conf"
  have g: "lookup_node (snd (delete_logs ?d (fst (fold (gather_log ?d) ns ([], fs1))) b k (snd (fold (gather_log ?d) ns ([], fs1))))) p
        = lookup_node fs p \<or>
      (lookup_node (snd (delete_logs ?d (fst (fold (gather_log ?d) ns ([], fs1))) b k (snd (fold (gather_log ?d) ns ([], fs1))))) p = None \<and>
       (\<exists>idx name. p = path_of (join_path ?d name) \<and> finished_log ?d fs idx name))"
    if "lookup_node fs1 = lookup_node fs" for fs1 ns b k
    using delete_logs_only [of ?d "fst (fold (gather_log ?d) ns ([], fs1))" b k "snd (fold (gather_log ?d) ns ([], fs1))" p]
      gather_logs_finished [of ?d "([], fs1)" ns] that finished_log_cong [OF that, of ?d] all_finishedD
    by (fastforce simp: all_finished_def [of _ _ "[]"])
  obtain v where v: "fs_statvfs ?d fs = (v, snd (tick fs))" using fs_statvfs_state by (metis prod.collapse)
  obtain r where r: "fs_readdir ?d (snd (tick fs)) = (r, snd (tick (snd (tick fs))))"
    using fs_readdir_state by (metis prod.collapse)
  show ?thesis
    using g by (simp add: delete_old_logs_def v r Let_def case_prod_unfold split: sum.split)
qed

text \<open>C17: rotation removes the oldest finished logs, those with the least index, and stops as soon as
  the free space and the number of logs allow, by the 64-bit arithmetic of the code. When no call
  fails and the paths of the directory are below \<open>PATH_MAX\<close>: of the finished logs of the directory,
  which are its read-only files with the name of a log, ordered by their index, the files removed are
  the first \<open>k\<close> for the least \<open>k\<close> that is enough, or all, and everything else stays. The index of a
  log is the number its name is printed with.\<close>

theorem rotation_removes_oldest:
  assumes "\<forall>t. fs_err fs t = 0" "fs_wf fs" "lookup_node fs (path_of (logs_dir conf)) = Some Dir" "logs_dir conf \<noteq> []"
    and "\<forall>n\<in>set (entries (path_of (logs_dir conf)) fs). length (join_path (logs_dir conf) n) < PATH_MAX"
    and "\<not> (fs_free fs (fs_tick fs) > min_free_space conf \<and> max_log_files conf = 0)"
  shows "(\<forall>i t ext. log_index (log_name i t ext) = Some i) \<and>
    (\<exists>files b f k. oldest_first (logs_dir conf) fs files
      \<and> b = min_free_space conf - fs_free fs (fs_tick fs)
      \<and> f = (if max_log_files conf > 0 then of_nat (length files) - max_log_files conf else - 1)
      \<and> k \<le> length files \<and> (k = length files \<or> enough files b f k) \<and> (\<forall>j<k. \<not> enough files b f j)
      \<and> lookup_node (delete_old_logs conf fs) =
         (\<lambda>p. if p \<in> log_path (logs_dir conf) ` set (take k files) then None else lookup_node fs p))"
proof -
  let ?d = "logs_dir conf" and ?fs3 = "snd (tick (snd (tick (snd (tick fs)))))"
  define files where "files = finished_logs ?d fs"
  define b where "b = min_free_space conf - fs_free fs (fs_tick fs)"
  define f where "f = (if max_log_files conf > 0 then of_nat (length files) - max_log_files conf else - 1)"
  have st: "fs_stat ?d fs = (Inr Dir, snd (tick fs))" "fs_stat ?d (snd (tick fs)) = (Inr Dir, snd (tick (snd (tick fs))))"
    using assms(1,3,4) by (simp_all add: fs_stat_def case_prod_unfold Let_def)
  then have v: "fs_statvfs ?d fs = (Inr (fs_free fs (fs_tick fs)), snd (tick fs))"
    and r: "fs_readdir ?d (snd (tick fs)) = (Inr (entries (path_of ?d) fs), snd (tick (snd (tick fs))))"
    by (simp_all add: fs_statvfs_def fs_readdir_def entries_def)
  let ?st = "fold (gather_log ?d) (entries (path_of ?d) fs) ([], ?fs3)"
  have F: "fst ?st = files" unfolding files_def finished_logs_def
    using assms(1) by (intro fold_gather_cong) simp_all
  have l: "lookup_node (snd ?st) = lookup_node fs" using gather_logs_finished(2) [of ?d "([], ?fs3)"] by (simp add: all_finished_def)
  have d: "delete_old_logs conf fs = snd (delete_logs ?d files b f (snd ?st))"
    using assms(1,6) F by (auto simp: delete_old_logs_def v r case_prod_unfold Let_def b_def f_def)
  note of = finished_logs_oldest_first [OF assms(1,2,4), folded files_def]
  have sp: "short_paths ?d files" using of assms(5) by (fastforce simp: oldest_first_def short_paths_def)
  have "\<forall>t. fs_err (snd ?st) t = 0" using assms(1) by (simp add: fold_gather_err)
  from delete_logs_prefix [OF this sp, of b f, unfolded l, OF finished_logs_paths(1,2) [OF assms(2,4), folded files_def]]
  show ?thesis unfolding d using of log_index_log_name(1) b_def f_def by blast
qed

lemma ex_log_entries:
  "entries (path_of ''/logs'') ex_log_fs =
     [''00007-2025-07-13_10-00-00.ulg'', ''00003-2025-07-12_10-00-00.ulg'', ''00001-2025-07-11_10-00-00.ulg'']"
  by (simp add: ex_log_fs_def ex_fs_def path_of_def strtok_on_def entries_def)

lemma rotation_removes_oldest_witness:
  "\<exists>files k. oldest_first ''/logs'' ex_log_fs files \<and> lookup_node (delete_old_logs ex_log_options ex_log_fs) =
       (\<lambda>p. if p \<in> log_path ''/logs'' ` set (take k files) then None else lookup_node ex_log_fs p)"
proof -
  have d: "logs_dir ex_log_options = ''/logs''" by (simp add: ex_log_options_def)
  have "\<forall>n\<in>set (entries (path_of ''/logs'') ex_log_fs). length (join_path ''/logs'' n) < PATH_MAX"
    by (simp add: ex_log_entries join_path_def)
  moreover have "fs_wf ex_log_fs" by (simp add: fs_wf_def ex_log_fs_def ex_fs_def)
  moreover have "lookup_node ex_log_fs (path_of ''/logs'') = Some Dir"
    by (simp add: ex_log_fs_def ex_fs_def path_of_def lookup_node_def strtok_on_def)
  moreover have "\<forall>t. fs_err ex_log_fs t = 0" "max_log_files ex_log_options \<noteq> 0"
    by (simp_all add: ex_log_options_def ex_log_fs_def ex_fs_def)
  ultimately show ?thesis
    using rotation_removes_oldest [of ex_log_fs ex_log_options] unfolding d by blast
qed

text \<open>C28: a new log is new: when \<open>_get_file\<close> returns a descriptor, no file had the name of the
  log, there is an empty writable file now that the descriptor refers to, and every file and directory
  that was there is unchanged.\<close>

theorem new_log_overwrites_nothing:
  assumes "get_file extension ep env = Some (r, ep', env')" "r \<ge> 0"
  defines "p \<equiv> (fst (path_of (logs_dir (lg_config ep))), snd (path_of (logs_dir (lg_config ep))) @ [lg_filename ep'])"
  shows "lookup_node (le_fs env) p = None
    \<and> lookup_node (le_fs env') p = Some (File \<lparr>f_data = [], f_mode = 0x1A4\<rparr>)
    \<and> fs_fds (le_fs env') r = Some (p, 0)
    \<and> (\<forall>q. lookup_node (le_fs env) q \<noteq> None \<longrightarrow> lookup_node (le_fs env') q = lookup_node (le_fs env) q)"
  using get_file_new [OF assms(1,2)] unfolding p_def by blast

lemma new_log_overwrites_nothing_witness:
  "\<exists>ep' env'. get_file ''ulg'' (LogEndpoint_init 0 ex_log_options) ex_log_env = Some (4, ep', env')
     \<and> lookup_node (le_fs env') (True, [''logs'', ''00008-2025-07-14_09-05-00.ulg'']) = Some (File \<lparr>f_data = [], f_mode = 0x1A4\<rparr>)"
proof -
  obtain ep' env' where g: "get_file ''ulg'' (LogEndpoint_init 0 ex_log_options) ex_log_env = Some (4, ep', env')"
    and n: "lg_filename ep' = ''00008-2025-07-14_09-05-00.ulg''" using ex_get_file by blast
  have "path_of (logs_dir (lg_config (LogEndpoint_init 0 ex_log_options))) = (True, [''logs''])"
    by (simp add: LogEndpoint_init_def ex_log_options_def path_of_def strtok_on_def)
  with new_log_overwrites_nothing [OF g] n g show ?thesis by auto
qed

text \<open>C29: stopping finishes a log. When no call fails, the file has a log's name and its path is below
  \<open>PATH_MAX\<close>: the file keeps its bytes and becomes a finished log with its index, its descriptor is
  closed, the recorder has no timer left, and in the main loop exactly the timers it had are marked
  to be removed.\<close>

theorem stopped_log_is_finished:
  assumes "\<forall>t. fs_err (le_fs env) t = 0" "log_index (lg_filename ep) = Some i"
    "lookup_node (le_fs env) (path_of (join_path (logs_dir (lg_config ep)) (lg_filename ep))) = Some (File f)"
    "length (join_path (logs_dir (lg_config ep)) (lg_filename ep)) < PATH_MAX"
    "LogEndpoint_stop ep env = (ep', env')"
  shows "finished_log (logs_dir (lg_config ep)) (le_fs env') i (lg_filename ep)
    \<and> file_bytes (le_fs env') (path_of (join_path (logs_dir (lg_config ep)) (lg_filename ep))) = f_data f
    \<and> fs_fds (le_fs env') (lg_file ep) = None
    \<and> lg_file ep' = -1 \<and> logging_start_timeout ep' = None \<and> alive_timeout ep' = None \<and> fsync_timeout ep' = None
    \<and> w_timeouts (le_os env') =
        map (\<lambda>x. if Some (to_id x) \<in> {logging_start_timeout ep, alive_timeout ep, fsync_timeout ep} then x\<lparr>remove_me := True\<rparr> else x)
          (w_timeouts (le_os env))"
proof -
  let ?s = "join_path (logs_dir (lg_config ep)) (lg_filename ep)"
  let ?fs = "fs_close (lg_file ep) (fs_sync (le_fs env))"
  have l: "lookup_node ?fs (path_of ?s) = Some (File f)" using assms(3) by simp
  have er: "fs_err ?fs (fs_tick ?fs) = 0" using assms(1) by (simp add: fs_close_def fs_sync_def)
  have "?s \<noteq> []" by (simp add: join_path_def)
  note c = fs_chmod_file [OF l er this, of READ_ONLY]
  have e: "le_fs env' = snd (fs_chmod ?s READ_ONLY ?fs)" "ep' = ep\<lparr>logging_start_timeout := None, alive_timeout := None, fsync_timeout := None, lg_file := -1, aio_fildes := -1\<rparr>"
    using assms(4,5) by (auto simp: LogEndpoint_stop_def Let_def)
  have "le_ml env' = le_ml (drop_timeout (fsync_timeout ep) (drop_timeout (alive_timeout ep) (drop_timeout (logging_start_timeout ep) env)))"
    using assms(5) by (auto simp: LogEndpoint_stop_def Let_def)
  moreover have "fs_fds ?fs (lg_file ep) = None" by (simp add: fs_close_def)
  ultimately show ?thesis using assms(2) by (auto simp: e c finished_log_def file_bytes_def w_timeouts_drop)
qed

lemma stopped_log_is_finished_witness:
  "finished_log ''/logs'' (le_fs (snd (LogEndpoint_stop
     ((LogEndpoint_init 0 ex_log_options)\<lparr>lg_file := 9, lg_filename := ''00001-2025-07-11_10-00-00.ulg''\<rparr>) ex_log_env)))
     1 ''00001-2025-07-11_10-00-00.ulg''"
proof -
  let ?ep = "(LogEndpoint_init 0 ex_log_options)\<lparr>lg_file := 9, lg_filename := ''00001-2025-07-11_10-00-00.ulg''\<rparr>"
  have d: "logs_dir (lg_config ?ep) = ''/logs''" "lg_filename ?ep = ''00001-2025-07-11_10-00-00.ulg''"
    by (simp_all add: LogEndpoint_init_def ex_log_options_def)
  have i: "log_index ''00001-2025-07-11_10-00-00.ulg'' = Some 1"
    by (simp add: log_index_def scan_u_def is_space_def is_digit_def digits_value_def Let_def)
  obtain ep' env' where s: "LogEndpoint_stop ?ep ex_log_env = (ep', env')" by (cases "LogEndpoint_stop ?ep ex_log_env")
  have "\<forall>t. fs_err (le_fs ex_log_env) t = 0" by (simp add: ex_log_env_def ex_log_fs_def ex_fs_def)
  moreover have "lookup_node (le_fs ex_log_env) (path_of (join_path ''/logs'' ''00001-2025-07-11_10-00-00.ulg'')) = Some (File \<lparr>f_data = [1], f_mode = 0x1A4\<rparr>)"
    by (simp add: ex_log_env_def ex_log_fs_def ex_fs_def join_path_def path_of_def strtok_on_def lookup_node_def)
  ultimately show ?thesis
    using stopped_log_is_finished [of ex_log_env ?ep 1, unfolded d, OF _ i _ _ s] s by (simp add: join_path_def)
qed

end
