(* ===== verification/Ulog.thy ===== *)
theory Ulog
  imports LogFiles
begin

text \<open>
  The recorder for PX4 logs (ulog.h, ulog.cpp). The vehicle sends a log file in numbered pieces; the
  recorder puts them into a buffer of 2048 bytes and writes whole ULog messages, found by the
  size in their header, to the file. The rest of a message the kernel did not take waits in a buffer of its own.
  Reads behind the data of a piece give the arbitrary bytes \<open>w_junk\<close> of the world; writes behind a
  buffer and loops without end are \<open>None\<close>. The piece is passed by value, while the code edits it
  in place, in the packet when its zeros were not trimmed.
\<close>

section \<open>State\<close>

abbreviation BUFFER_LEN :: nat where "BUFFER_LEN \<equiv> 2048"
abbreviation ULOG_HEADER_SIZE :: nat where "ULOG_HEADER_SIZE \<equiv> 16"
abbreviation NO_FIRST_MSG_OFFSET :: u8 where "NO_FIRST_MSG_OFFSET \<equiv> 255"
abbreviation sizeof_ulog_msg_header :: nat where "sizeof_ulog_msg_header \<equiv> 3"

definition ULOG_MAGIC :: bytes where
  "ULOG_MAGIC = [0x55, 0x4C, 0x6F, 0x67, 0x01, 0x12, 0x35]"

record ulog = log_ep +
  ul_expected_seq :: u16
  waiting_header :: bool
  waiting_first_msg_offset :: bool
  ul_buffer :: bytes
  buffer_len :: u16
  buffer_index :: u16
  buffer_partial :: bytes
  buffer_partial_len :: u16

definition ULog_init :: "nat \<Rightarrow> log_options \<Rightarrow> bytes \<Rightarrow> bytes \<Rightarrow> ulog" where
  "ULog_init this conf buf part =
     log_ep.extend (LogEndpoint_init this conf)
       (ulog.fields 0 True False buf 0 0 part 0)"

section \<open>Flushing\<close>

lemma fs_write_le: "fs_write fd bs fs = (Inr n, fs1) \<Longrightarrow> n \<le> length bs"
  by (auto simp: fs_write_def Let_def case_prod_unfold split: if_splits option.splits)

text \<open>The first loop of \<open>_logging_flush\<close>: \<open>Some b\<close> is a return from the function.\<close>

function flush_partial :: "ulog \<Rightarrow> log_env \<Rightarrow> bool option \<times> ulog \<times> log_env" where
  "flush_partial u env =
     (if buffer_partial_len u = 0 then (None, u, env)
      else case fs_write (lg_file u) (take (unat (buffer_partial_len u)) (buffer_partial u)) (le_fs env) of
             (Inl e, fs1) \<Rightarrow> (Some (e = EAGAIN), u, env\<lparr>le_fs := fs1\<rparr>)
           | (Inr r, fs1) \<Rightarrow>
               if r = 0 then (Some True, u, env\<lparr>le_fs := fs1\<rparr>)
               else
                 let len = buffer_partial_len u - of_nat r
                 in flush_partial (u\<lparr>buffer_partial_len := len, buffer_partial := memmove_down (buffer_partial u) r (unat len)\<rparr>)
                      (env\<lparr>le_fs := fs1\<rparr>))"
  by pat_completeness auto
termination
proof (relation "measure (\<lambda>(u, env). unat (buffer_partial_len u))", goal_cases)
  case (2 u env x fs1 r len)
  from fs_write_le [OF 2(2) [unfolded 2(3), symmetric]] have "r \<le> unat (buffer_partial_len u)" by simp
  moreover have "0 < r" using 2(4) by simp
  ultimately have "unat (buffer_partial_len u - of_nat r) = unat (buffer_partial_len u) - r"
    by (metis (no_types, lifting) le_unat_uoi unat_sub word_le_nat_alt)
  then show ?case using 2(5) \<open>0 < r\<close> \<open>r \<le> unat (buffer_partial_len u)\<close> by simp
qed simp

declare flush_partial.simps [simp del]

text \<open>\<open>msg_size\<close> of the header at the start of some bytes, and the size with the header, in 16 bits.\<close>

definition msg_size_at :: "bytes \<Rightarrow> u16" where
  "msg_size_at bs = ucast (bs ! 0) OR push_bit 8 (ucast (bs ! 1))"

definition buffered :: "ulog \<Rightarrow> bytes" where
  "buffered u = memread (ul_buffer u) (unat (buffer_index u)) (unat (buffer_len u))"

partial_function (option) flush_messages :: "ulog \<Rightarrow> log_env \<Rightarrow> (bool \<times> ulog \<times> log_env) option" where
  "flush_messages u env =
     (if unat (buffer_len u) \<ge> sizeof_ulog_msg_header \<and> buffer_partial_len u = 0 then
        (let from_header = drop (unat (buffer_index u)) (ul_buffer u);
             full_msg_size = msg_size_at from_header + of_nat sizeof_ulog_msg_header;
             u_done = u\<lparr>buffer_len := buffer_len u - full_msg_size, buffer_index := buffer_index u + full_msg_size\<rparr>
         in if full_msg_size > buffer_len u then Some (True, u, env)
            else
              case fs_write (lg_file u) (take (unat full_msg_size) from_header) (le_fs env) of
                (res, fs1) \<Rightarrow>
                  if res = Inr (unat full_msg_size) then flush_messages u_done (env\<lparr>le_fs := fs1\<rparr>)
                  else
                    (case res of
                       Inl e \<Rightarrow> Some (e = EAGAIN, u, env\<lparr>le_fs := fs1\<rparr>)
                     | Inr r \<Rightarrow>
                         if r = 0 then Some (True, u, env\<lparr>le_fs := fs1\<rparr>)
                         else
                           let plen = full_msg_size - of_nat r
                           in if unat plen > BUFFER_LEN div 2
                              then Some (True, u\<lparr>buffer_partial_len := 0\<rparr>, env\<lparr>le_fs := fs1\<rparr>)
                              else Some (True,
                                u_done\<lparr>buffer_partial_len := plen,
                                       buffer_partial := memwrite (buffer_partial u) 0 (memread from_header r (unat plen))\<rparr>,
                                env\<lparr>le_fs := fs1\<rparr>)))
      else Some (True, u, env))"

declare flush_messages.simps [code]

definition logging_flush :: "ulog \<Rightarrow> log_env \<Rightarrow> (bool \<times> ulog \<times> log_env) option" where
  "logging_flush u env =
     (case flush_partial u env of
        (Some b, u1, env1) \<Rightarrow> Some (b, u1, env1)
      | (None, u1, env1) \<Rightarrow> flush_messages u1 env1)"

section \<open>Starting and stopping\<close>

definition ulog_logging_start_timeout :: "loglib \<Rightarrow> ulog \<Rightarrow> log_env \<Rightarrow> bool \<times> ulog \<times> log_env" where
  "ulog_logging_start_timeout L u env =
     (True, send_msg L (CommandLong (CMD_LOGGING_START L) (target_system_id u)) (target_system_id u) u env)"

definition ulog_start :: "ulog \<Rightarrow> log_env \<Rightarrow> (bool \<times> ulog \<times> log_env) option" where
  "ulog_start u env =
     do {
       (ok, u1, env1) \<leftarrow> LogEndpoint_start ''ulg'' u env;
       Some (ok,
         if ok then u1\<lparr>waiting_header := True, waiting_first_msg_offset := False, ul_expected_seq := 0, buffer_len := 0,
                       buffer_index := 0, buffer_partial_len := 0\<rparr> else u1, env1)
     }"

text \<open>The loop of \<open>stop\<close> that writes the rest of a message.\<close>

partial_function (option) stop_flush :: "ulog \<Rightarrow> log_env \<Rightarrow> (ulog \<times> log_env) option" where
  "stop_flush u env =
     (if buffer_partial_len u = 0 then Some (u, env)
      else do {
        (ok, u1, env1) \<leftarrow> logging_flush u env;
        if ok then stop_flush u1 env1 else Some (u1, env1)
      })"

declare stop_flush.simps [code]

definition ulog_stop :: "loglib \<Rightarrow> ulog \<Rightarrow> log_env \<Rightarrow> (ulog \<times> log_env) option" where
  "ulog_stop L u env =
     (if lg_file u = -1 then Some (u, env)
      else do {
        let (u1, env1) = send_msg L (CommandLong (CMD_LOGGING_STOP L) (target_system_id u)) (target_system_id u) u env;
        (u2, env2) \<leftarrow> stop_flush (u1\<lparr>buffer_len := 0\<rparr>) env1;
        Some (LogEndpoint_stop u2 env2)
      })"

definition ulog_restart :: "loglib \<Rightarrow> ulog \<Rightarrow> log_env \<Rightarrow> (ulog \<times> log_env) option" where
  "ulog_restart L u env =
     do { (u1, env1) \<leftarrow> ulog_stop L u env; (_, u2, env2) \<leftarrow> ulog_start u1 env1; Some (u2, env2) }"

section \<open>Pieces of the log\<close>

text \<open>\<open>_logging_seq\<close>: whether to handle the piece, and whether pieces before it were lost.\<close>

definition logging_seq :: "u16 \<Rightarrow> ulog \<Rightarrow> bool \<times> bool \<times> ulog" where
  "logging_seq seq u =
     (if ul_expected_seq u = seq then (True, False, u\<lparr>ul_expected_seq := ul_expected_seq u + 1\<rparr>)
      else if seq > ul_expected_seq u \<and> seq - ul_expected_seq u > 0xFFFF div 2 then (False, False, u)
      else if \<not> seq > ul_expected_seq u \<and> ul_expected_seq u - seq < 0xFFFF div 2 then (False, False, u)
      else (True, True, u\<lparr>ul_expected_seq := seq + 1\<rparr>))"

definition read_over :: "world \<Rightarrow> bytes \<Rightarrow> nat \<Rightarrow> nat \<Rightarrow> bytes" where
  "read_over w d off n = take n (drop off d @ map (w_junk w) [0..<n])"

text \<open>A lost piece: what is buffered is dropped, and the next message is looked for.\<close>

definition resync :: "bool \<Rightarrow> ulog \<Rightarrow> log_env \<Rightarrow> (ulog \<times> log_env) option" where
  "resync drops u env =
     (if \<not> drops then Some (u, env)
      else do {
        (_, u1, env1) \<leftarrow> logging_flush u env;
        Some (u1\<lparr>buffer_len := 0, buffer_index := 0, waiting_first_msg_offset := True\<rparr>, env1)
      })"

text \<open>Room for \<open>length\<close> more bytes: an impossible message is dropped, valid data moves to the front.\<close>

definition make_room :: "u8 \<Rightarrow> ulog \<Rightarrow> ulog" where
  "make_room len u =
     (let u1 = (if unat (buffer_len u) + unat len > BUFFER_LEN
                then u\<lparr>buffer_len := 0, waiting_first_msg_offset := True\<rparr> else u)
      in if unat (buffer_index u1) + unat (buffer_len u1) + unat len > BUFFER_LEN
         then u1\<lparr>ul_buffer := memmove_down (ul_buffer u1) (unat (buffer_index u1)) (unat (buffer_len u1)), buffer_index := 0\<rparr>
         else u1)"

definition append_piece :: "logging_data \<Rightarrow> ulog \<Rightarrow> log_env \<Rightarrow> (ulog \<times> log_env) option" where
  "append_piece msg u env =
     (let u1 = make_room (ld_length msg) u;
          no_offset = (ld_first_message_offset msg = NO_FIRST_MSG_OFFSET);
          begin = (if waiting_first_msg_offset u1 then ld_first_message_offset msg else 0);
          u2 = u1\<lparr>waiting_first_msg_offset := False\<rparr>;
          len = ld_length msg - begin; pos = unat (buffer_index u2) + unat (buffer_len u2)
      in if waiting_first_msg_offset u1 \<and> no_offset then Some (u1, env)
         else if ld_length msg = 0 then Some (u2, env)
         else if pos + unat len > BUFFER_LEN then None
         else do {
           (_, u3, env3) \<leftarrow>
             logging_flush
               (u2\<lparr>ul_buffer := memwrite (ul_buffer u2) pos (read_over (le_os env) (ld_data msg) (unat begin) (unat len)),
                   buffer_len := buffer_len u2 + ucast len\<rparr>) env;
           Some (u3, env3)
         })"

text \<open>The header of the file goes to the buffer of rests, the data moves down in its array.\<close>

definition take_header :: "logging_data \<Rightarrow> ulog \<Rightarrow> log_env \<Rightarrow> (logging_data \<times> ulog) option" where
  "take_header msg u env =
     (let n = unat (ld_length msg)
      in if n > length (ld_data msg) then None
         else Some (msg\<lparr>ld_data := memwrite (ld_data msg) 0 (read_over (le_os env) (ld_data msg) ULOG_HEADER_SIZE n),
                        ld_length := ld_length msg - of_nat ULOG_HEADER_SIZE\<rparr>,
                    u\<lparr>buffer_partial_len := of_nat ULOG_HEADER_SIZE,
                      buffer_partial := memwrite (buffer_partial u) 0 (take ULOG_HEADER_SIZE (ld_data msg)),
                      waiting_header := False\<rparr>))"

definition logging_data_process :: "loglib \<Rightarrow> logging_data \<Rightarrow> ulog \<Rightarrow> log_env \<Rightarrow> (ulog \<times> log_env) option" where
  "logging_data_process L msg u env =
     (let (handle, drops, u1) = logging_seq (ld_sequence msg) u
      in if \<not> handle then Some (u1, env)
         else if waiting_header u1 \<and> unat (ld_length msg) < ULOG_HEADER_SIZE then ulog_restart L u1 env
         else if waiting_header u1 \<and> take (length ULOG_MAGIC) (ld_data msg) \<noteq> ULOG_MAGIC then ulog_restart L u1 env
         else do {
           (msg1, u2) \<leftarrow> (if waiting_header u1 then take_header msg u1 env else Some (msg, u1));
           (u3, env3) \<leftarrow> resync drops u2 env;
           append_piece msg1 u3 env3
         })"

section \<open>Messages\<close>

text \<open>The struct behind a payload, with the zeros MAVLink 2 trims put back.\<close>

definition untrimmed :: "nat \<Rightarrow> u8 \<Rightarrow> buffer \<Rightarrow> bytes" where
  "untrimmed plen zeros buf =
     (if zeros \<noteq> 0 then take plen (payload_at buf) @ replicate (unat zeros) 0 else payload_at buf)"

definition count_logged :: "buffer \<Rightarrow> ('a) log_ep_scheme \<Rightarrow> ('a) log_ep_scheme" where
  "count_logged buf ep =
     ep\<lparr>lg_write := \<lparr>ws_bytes = ws_bytes (lg_write ep) + of_nat (b_len buf), ws_total = ws_total (lg_write ep) + 1\<rparr>\<rparr>"

definition ulog_handle_ack :: "loglib \<Rightarrow> bytes \<Rightarrow> ulog \<Rightarrow> log_env \<Rightarrow> bool \<times> ulog \<times> log_env" where
  "ulog_handle_ack L cmd u env =
     (let (command, result) = command_ack_at L cmd
      in if logging_start_timeout u = None \<or> command \<noteq> CMD_LOGGING_START L then (False, u, env)
         else if result = RESULT_ACCEPTED L then
           (let (u1, env1) = remove_logging_start_timeout u env; (_, u2, env2) = start_alive_timeout u1 env1
            in (True, u2, env2))
         else (True, u, env))"

definition ulog_write_msg :: "loglib \<Rightarrow> buffer \<Rightarrow> ulog \<Rightarrow> log_env \<Rightarrow> (nat \<times> ulog \<times> log_env) option" where
  "ulog_write_msg L buf u env =
     do {
       (u1, env1) \<leftarrow> handle_auto_start_stop L ulog_start (ulog_stop L) buf (learn_target L buf u) env;
       let mid = msg_id (b_curr buf);
       let ret = b_len buf;
       if mid \<notin> {ID_COMMAND_ACK L, ID_LOGGING_DATA_ACKED L, ID_LOGGING_DATA L} then Some (ret, u1, env1)
       else
         case get_msg_entry (ll_mav L) mid of
           None \<Rightarrow> Some (ret, u1, env1)
         | Some entry \<Rightarrow>
             (let plen = unat (min (payload_len (b_curr buf)) (me_max_msg_len entry));
                  zeros = (if b_data buf ! 0 = STX2 (ll_mav L) then get_trimmed_zeros (ll_mav L) entry buf else 0)
              in if mid = ID_COMMAND_ACK L then
                   (let (handled, u2, env2) = ulog_handle_ack L (take plen (payload_at buf) @ replicate (unat zeros) 0) u1 env1
                    in Some (ret, if handled then count_logged buf u2 else u2, env2))
                 else
                   let msg = logging_data_at L (untrimmed plen zeros buf);
                       (u2, env2) =
                         (if mid = ID_LOGGING_DATA_ACKED L
                          then send_msg L (LoggingAck (ld_sequence (logging_data_at L (payload_at buf))) (target_system_id u1)) (target_system_id u1) u1 env1
                          else (u1, env1))
                   in do { (u3, env3) \<leftarrow> logging_data_process L msg u2 env2; Some (ret, count_logged buf u3, env3) })
     }"

end
