(* ===== verification/UlogFacts.thy ===== *)
theory UlogFacts
  imports Ulog
begin

text \<open>
  Facts about the ULog recorder: what it has received is in the file or in its two buffers
  (\<open>kept\<close>), whatever part of a write the kernel takes, as long as no message is larger than the
  buffer of rests. From this a session keeps the stream of its pieces byte by byte.
\<close>

definition recording :: "int \<Rightarrow> path \<Rightarrow> fsys \<Rightarrow> bool" where
  "recording fd p fs \<longleftrightarrow> snd p \<noteq> [] \<and> (\<exists>f. lookup_node fs p = Some (File f) \<and> fs_fds fs fd = Some (p, length (f_data f)))"

lemma put_bytes_end: "put_bytes d (length d) bs = d @ bs"
  by (simp add: put_bytes_def memwrite_def)

lemma fs_write_recording:
  assumes "recording fd p fs" "fs_write fd bs fs = (res, fs1)"
  shows "recording fd p fs1" "file_bytes fs1 p = file_bytes fs p @ (case res of Inl _ \<Rightarrow> [] | Inr n \<Rightarrow> take n bs)"
proof -
  obtain f where f: "lookup_node fs p = Some (File f)" "fs_fds fs fd = Some (p, length (f_data f))" "snd p \<noteq> []"
    using assms(1) by (auto simp: recording_def)
  show "recording fd p fs1" "file_bytes fs1 p = file_bytes fs p @ (case res of Inl _ \<Rightarrow> [] | Inr n \<Rightarrow> take n bs)"
  proof (atomize (full), cases res)
    case (Inl e)
    then have "fs1 = snd (tick fs)" using assms(2) f by (auto simp: fs_write_def Let_def case_prod_unfold split: if_splits)
    then show "recording fd p fs1 \<and> file_bytes fs1 p = file_bytes fs p @ (case res of Inl _ \<Rightarrow> [] | Inr n \<Rightarrow> take n bs)"
      using f Inl by (simp add: recording_def file_bytes_def)
  next
    case (Inr n)
    let ?fs = "(snd (tick fs))\<lparr>fs_fds := (fs_fds fs)(fd \<mapsto> (p, length (f_data f) + n))\<rparr>"
    have n: "n \<le> length bs" and e: "fs1 = update_node p (File (f\<lparr>f_data := f_data f @ take n bs\<rparr>)) ?fs"
      using assms(2) f Inr by (auto simp: fs_write_def Let_def case_prod_unfold put_bytes_end split: if_splits)
    have "lookup_node ?fs = lookup_node fs" by (intro lookup_node_cong) simp
    then have "lookup_node fs1 p = Some (File (f\<lparr>f_data := f_data f @ take n bs\<rparr>))"
      using f unfolding e by (simp add: lookup_update_node)
    moreover have "fs_fds fs1 fd = Some (p, length (f_data f) + n)" by (simp add: e update_node_def)
    ultimately show "recording fd p fs1 \<and> file_bytes fs1 p = file_bytes fs p @ (case res of Inl _ \<Rightarrow> [] | Inr n \<Rightarrow> take n bs)"
      using f n Inr by (simp add: recording_def file_bytes_def)
  qed
qed

definition ulog_inv :: "ulog \<Rightarrow> bool" where
  "ulog_inv u \<longleftrightarrow> length (ul_buffer u) = BUFFER_LEN \<and> unat (buffer_index u) + unat (buffer_len u) \<le> BUFFER_LEN
     \<and> length (buffer_partial u) = BUFFER_LEN div 2 \<and> unat (buffer_partial_len u) \<le> BUFFER_LEN div 2"

definition ulog_pending :: "ulog \<Rightarrow> bytes" where
  "ulog_pending u = take (unat (buffer_partial_len u)) (buffer_partial u) @ buffered u"

text \<open>What a recorder has received and not lost: the file and what waits for it.\<close>

definition kept :: "path \<Rightarrow> ulog \<Rightarrow> log_env \<Rightarrow> bytes" where
  "kept p u env = file_bytes (le_fs env) p @ ulog_pending u"

definition rec_ok :: "path \<Rightarrow> ulog \<Rightarrow> log_env \<Rightarrow> bool" where
  "rec_ok p u env \<longleftrightarrow> ulog_inv u \<and> recording (lg_file u) p (le_fs env)"

lemma unat_sub_of_nat: "r \<le> unat (x :: u16) \<Longrightarrow> unat (x - of_nat r) = unat x - r"
  by (metis (no_types, lifting) le_unat_uoi unat_sub word_le_nat_alt)

lemma flush_partial_keeps:
  assumes "rec_ok p u env" "flush_partial u env = (b, u1, env1)"
  shows "rec_ok p u1 env1 \<and> kept p u1 env1 = kept p u env \<and> buffered u1 = buffered u \<and> buffer_len u1 = buffer_len u
    \<and> (b = None \<longrightarrow> buffer_partial_len u1 = 0)"
  using assms
proof (induction u env rule: flush_partial.induct)
  case (1 u env)
  show ?case
  proof (cases "buffer_partial_len u = 0")
    case True
    then show ?thesis using 1(2,3) by (simp add: flush_partial.simps [of u env])
  next
    case False
    let ?n = "unat (buffer_partial_len u)"
    obtain res fs1 where w: "fs_write (lg_file u) (take ?n (buffer_partial u)) (le_fs env) = (res, fs1)"
      by (cases "fs_write (lg_file u) (take ?n (buffer_partial u)) (le_fs env)")
    have inv: "ulog_inv u" and r: "recording (lg_file u) p (le_fs env)" using 1(2) by (simp_all add: rec_ok_def)
    note wr = fs_write_recording [OF r w]
    show ?thesis
    proof (cases "\<exists>k. res = Inr k \<and> k \<noteq> 0")
      case False
      then have "u1 = u" "env1 = env\<lparr>le_fs := fs1\<rparr>" "b \<noteq> None"
        using 1(3) \<open>buffer_partial_len u \<noteq> 0\<close> w by (auto simp: flush_partial.simps [of u env] split: sum.splits)
      moreover have "file_bytes fs1 p = file_bytes (le_fs env) p" using wr(2) False by (auto split: sum.splits)
      ultimately show ?thesis using inv wr(1) by (auto simp: rec_ok_def kept_def)
    next
      case True
      then obtain k where k: "res = Inr k" "k \<noteq> 0" by blast
      let ?len = "buffer_partial_len u - of_nat k"
      let ?u = "u\<lparr>buffer_partial_len := ?len, buffer_partial := memmove_down (buffer_partial u) k (unat ?len)\<rparr>"
      have kn: "k \<le> ?n" using fs_write_le [of "lg_file u" "take ?n (buffer_partial u)" "le_fs env" k fs1] w k by simp
      have len: "unat ?len = ?n - k" using kn by (rule unat_sub_of_nat)
      have f: "flush_partial ?u (env\<lparr>le_fs := fs1\<rparr>) = (b, u1, env1)"
        using 1(3) False w k by (simp add: flush_partial.simps [of u env] Let_def)
      have lp: "length (memmove_down (buffer_partial u) k (unat ?len)) = length (buffer_partial u)"
        using inv kn len by (simp add: length_memmove_down ulog_inv_def)
      have ok: "rec_ok p ?u (env\<lparr>le_fs := fs1\<rparr>)"
        using inv wr(1) len lp by (auto simp: rec_ok_def ulog_inv_def)
      have "take (unat ?len) (memmove_down (buffer_partial u) k (unat ?len)) = drop k (take ?n (buffer_partial u))"
        using inv kn len by (simp add: take_memmove_down ulog_inv_def drop_take)
      then have "kept p ?u (env\<lparr>le_fs := fs1\<rparr>) = kept p u env"
        using wr(2) k by (simp add: kept_def ulog_pending_def buffered_def del: take_take)
      moreover have "buffered ?u = buffered u" "buffer_len ?u = buffer_len u" by (simp_all add: buffered_def)
      ultimately show ?thesis using 1(1) [OF False w [symmetric] k refl ok f] by simp
    qed
  qed
qed

text \<open>The kernel takes every write whole.\<close>

definition writes_complete :: "fsys \<Rightarrow> bool" where
  "writes_complete fs \<longleftrightarrow> (\<forall>k. fs_err fs k = 0 \<and> fs_wr fs k \<ge> BUFFER_LEN)"

lemma fs_write_oracles:
  assumes "fs_write fd bs fs = (res, fs1)"
  shows "fs_err fs1 = fs_err fs" "fs_wr fs1 = fs_wr fs"
proof -
  have "fs_err (snd (fs_write fd bs fs)) = fs_err fs \<and> fs_wr (snd (fs_write fd bs fs)) = fs_wr fs"
    by (simp add: fs_write_def Let_def case_prod_unfold update_node_def split: option.split node.split)
  then show "fs_err fs1 = fs_err fs" "fs_wr fs1 = fs_wr fs" by (simp_all add: assms)
qed

lemma fs_write_complete:
  assumes "writes_complete fs" "recording fd p fs" "length bs \<le> BUFFER_LEN" "fs_write fd bs fs = (res, fs1)"
  shows "res = Inr (length bs)" "writes_complete fs1"
proof -
  have "fs_wr fs (fs_tick fs) \<ge> length bs" using assms(1,3) by (meson order_trans writes_complete_def)
  then show "res = Inr (length bs)"
    using assms by (auto simp: fs_write_def writes_complete_def recording_def Let_def case_prod_unfold min_def)
  show "writes_complete fs1" using assms(1) fs_write_oracles [OF assms(4)] by (simp add: writes_complete_def)
qed

text \<open>What flushing leaves alone.\<close>

definition same_mode :: "ulog \<Rightarrow> ulog \<Rightarrow> bool" where
  "same_mode u u1 \<longleftrightarrow> waiting_header u1 = waiting_header u \<and> waiting_first_msg_offset u1 = waiting_first_msg_offset u
     \<and> ul_expected_seq u1 = ul_expected_seq u"

lemma flush_partial_mode: "flush_partial u env = (b, u1, env1) \<Longrightarrow> same_mode u u1"
proof (induction u env rule: flush_partial.induct)
  case (1 u env)
  show ?case
  proof (cases "buffer_partial_len u = 0")
    case False
    obtain res fs1 where w: "fs_write (lg_file u) (take (unat (buffer_partial_len u)) (buffer_partial u)) (le_fs env) = (res, fs1)"
      by (cases "fs_write (lg_file u) (take (unat (buffer_partial_len u)) (buffer_partial u)) (le_fs env)")
    show ?thesis
    proof (cases "\<exists>k. res = Inr k \<and> k \<noteq> 0")
      case True
      then obtain k where k: "res = Inr k" "k \<noteq> 0" by blast
      from 1(1) [OF False w [symmetric] k refl] 1(2) False w k show ?thesis
        by (simp add: flush_partial.simps [of u env] Let_def same_mode_def)
    qed (use 1(2) False w in \<open>auto simp: flush_partial.simps [of u env] same_mode_def split: sum.splits\<close>)
  qed (use 1(2) in \<open>simp add: flush_partial.simps [of u env] same_mode_def\<close>)
qed

lemma flush_partial_complete:
  assumes "rec_ok p u env" "writes_complete (le_fs env)" "flush_partial u env = (b, u1, env1)"
  shows "b = None \<and> writes_complete (le_fs env1)"
proof (cases "buffer_partial_len u = 0")
  case True
  then show ?thesis using assms(2,3) by (simp add: flush_partial.simps [of u env])
next
  case False
  let ?n = "unat (buffer_partial_len u)"
  obtain res fs1 where w: "fs_write (lg_file u) (take ?n (buffer_partial u)) (le_fs env) = (res, fs1)"
    by (cases "fs_write (lg_file u) (take ?n (buffer_partial u)) (le_fs env)")
  have i: "ulog_inv u" "recording (lg_file u) p (le_fs env)" using assms(1) by (simp_all add: rec_ok_def)
  have "length (take ?n (buffer_partial u)) \<le> BUFFER_LEN" using i(1) by (simp add: ulog_inv_def)
  note c = fs_write_complete [OF assms(2) i(2) this w]
  have "length (take ?n (buffer_partial u)) = ?n" using i(1) by (simp add: ulog_inv_def)
  with c(1) have res: "res = Inr ?n" by simp
  have "?n \<noteq> 0" using False by (simp add: unat_eq_zero)
  then have "flush_partial u env = (None, u\<lparr>buffer_partial_len := 0, buffer_partial := memmove_down (buffer_partial u) ?n 0\<rparr>, env\<lparr>le_fs := fs1\<rparr>)"
    using False w res by (simp add: flush_partial.simps [of u env] flush_partial.simps [of "_\<lparr>buffer_partial_len := 0\<rparr>"] Let_def)
  then show ?thesis using assms(3) c(2) by auto
qed

text \<open>Every message, complete or not, announces a size that fits the buffer of rests.\<close>

function sizes_ok :: "bytes \<Rightarrow> bool" where
  "sizes_ok bs \<longleftrightarrow>
     (if length bs < sizeof_ulog_msg_header then True
      else let n = unat (msg_size_at bs) + sizeof_ulog_msg_header
           in n \<le> BUFFER_LEN div 2 \<and> (if n \<le> length bs then sizes_ok (drop n bs) else True))"
  by pat_completeness auto
termination
  by (relation "measure length") auto

declare sizes_ok.simps [simp del]

definition no_complete :: "bytes \<Rightarrow> bool" where
  "no_complete bs \<longleftrightarrow> length bs < sizeof_ulog_msg_header \<or> length bs < unat (msg_size_at bs) + sizeof_ulog_msg_header"

lemma msg_size_at_buffered:
  assumes "ulog_inv u" "unat (buffer_len u) \<ge> 3"
  shows "msg_size_at (drop (unat (buffer_index u)) (ul_buffer u)) = msg_size_at (buffered u)"
  using assms by (simp add: msg_size_at_def buffered_def memread_def ulog_inv_def)

lemma length_buffered: "ulog_inv u \<Longrightarrow> length (buffered u) = unat (buffer_len u)"
  by (simp add: buffered_def ulog_inv_def length_memread)

lemma unat_full:
  assumes "unat (x :: u16) + 3 \<le> 1024"
  shows "unat (x + 3) = unat x + 3"
  using assms by (subst unat_add_lem [THEN iffD1]) auto

lemma consume_message:
  assumes "ulog_inv u" "n = unat x" "n \<le> unat (buffer_len u)"
  defines "u' \<equiv> u\<lparr>buffer_len := buffer_len u - x, buffer_index := buffer_index u + x\<rparr>"
  shows "ulog_inv u'" "buffered u' = drop n (buffered u)" "unat (buffer_len u') = unat (buffer_len u) - n"
    "take n (drop (unat (buffer_index u)) (ul_buffer u)) = take n (buffered u)"
proof -
  have s: "unat (buffer_index u) + unat (buffer_len u) \<le> BUFFER_LEN" using assms(1) by (simp add: ulog_inv_def)
  have l: "unat (buffer_len u - x) = unat (buffer_len u) - n" using assms(2,3) by (simp add: unat_sub word_le_nat_alt)
  have i: "unat (buffer_index u + x) = unat (buffer_index u) + n"
    using assms(2,3) s by (subst unat_add_lem [THEN iffD1]) auto
  show "ulog_inv u'" "unat (buffer_len u') = unat (buffer_len u) - n"
    using assms(1,3) l i s by (simp_all add: u'_def ulog_inv_def)
  show "buffered u' = drop n (buffered u)"
    using assms(3) l i by (simp add: u'_def buffered_def memread_def drop_take add.commute)
  show "take n (drop (unat (buffer_index u)) (ul_buffer u)) = take n (buffered u)"
    using assms(3) by (simp add: buffered_def memread_def min_def)
qed

lemma msg_size_at_append: "2 \<le> length bs \<Longrightarrow> msg_size_at (bs @ rest) = msg_size_at bs"
  by (cases bs) (auto simp: msg_size_at_def nth_append)

lemma flush_messages_keeps:
  assumes "rec_ok p u env" "buffer_partial_len u = 0" "sizes_ok (buffered u @ rest)"
  shows "\<exists>b u1 env1. flush_messages u env = Some (b, u1, env1) \<and> rec_ok p u1 env1 \<and> kept p u1 env1 = kept p u env
    \<and> sizes_ok (buffered u1 @ rest) \<and> same_mode u u1
    \<and> (writes_complete (le_fs env) \<longrightarrow> no_complete (buffered u1) \<and> buffer_partial_len u1 = 0 \<and> writes_complete (le_fs env1))"
  using assms
proof (induction "unat (buffer_len u)" arbitrary: u env rule: less_induct)
  case less
  have inv: "ulog_inv u" and r: "recording (lg_file u) p (le_fs env)" using less.prems(1) by (simp_all add: rec_ok_def)
  let ?fh = "drop (unat (buffer_index u)) (ul_buffer u)" and ?x = "msg_size_at (buffered u) + 3"
  let ?n = "unat (msg_size_at (buffered u)) + 3"
  let ?u = "u\<lparr>buffer_len := buffer_len u - ?x, buffer_index := buffer_index u + ?x\<rparr>"
  show ?case
  proof (cases "unat (buffer_len u) < 3")
    case True
    then show ?thesis using less.prems inv by (auto simp: flush_messages.simps [of u env] same_mode_def no_complete_def length_buffered)
  next
    case False
    have ms: "msg_size_at ?fh = msg_size_at (buffered u)" using inv False by (intro msg_size_at_buffered) auto
    have sz: "?n \<le> 1024" "?n \<le> unat (buffer_len u) \<Longrightarrow> sizes_ok (drop ?n (buffered u) @ rest)"
      using less.prems(3) False msg_size_at_append [of "buffered u" rest]
      by (auto simp: sizes_ok.simps [of "buffered u @ rest"] length_buffered [OF inv] Let_def split: if_splits)
    have x: "unat ?x = ?n" using sz(1) by (rule unat_full)
    show ?thesis
    proof (cases "?n \<le> unat (buffer_len u)")
      case short: False
      then have "buffer_len u < ?x" using x by (simp add: word_less_nat_alt)
      then show ?thesis using less.prems False short inv by (auto simp: flush_messages.simps [of u env] ms same_mode_def no_complete_def length_buffered)
    next
      case True
      then have fits: "\<not> buffer_len u < ?x" using x by (simp add: word_less_nat_alt)
      note c = consume_message [OF inv x [symmetric] True]
      obtain res fs1 where w: "fs_write (lg_file u) (take (unat ?x) ?fh) (le_fs env) = (res, fs1)"
        by (cases "fs_write (lg_file u) (take (unat ?x) ?fh) (le_fs env)")
      note wr = fs_write_recording [OF r w]
      have lt: "length (take (unat ?x) ?fh) = unat ?x" unfolding x c(4) using True by (simp add: length_buffered [OF inv])
      have wc: "res = Inr (unat ?x) \<and> writes_complete fs1" if "writes_complete (le_fs env)"
        using fs_write_complete [OF that r _ w] lt x sz(1) by simp
      have split: "take ?n (buffered u) @ drop ?n (buffered u) = buffered u" by simp
      have run: "flush_messages u env =
         (if res = Inr (unat ?x) then flush_messages ?u (env\<lparr>le_fs := fs1\<rparr>)
          else (case res of
                  Inl e \<Rightarrow> Some (e = EAGAIN, u, env\<lparr>le_fs := fs1\<rparr>)
                | Inr r \<Rightarrow>
                    if r = 0 then Some (True, u, env\<lparr>le_fs := fs1\<rparr>)
                    else if unat (?x - of_nat r) > BUFFER_LEN div 2 then Some (True, u\<lparr>buffer_partial_len := 0\<rparr>, env\<lparr>le_fs := fs1\<rparr>)
                    else Some (True, ?u\<lparr>buffer_partial_len := ?x - of_nat r,
                        buffer_partial := memwrite (buffer_partial u) 0 (memread ?fh r (unat (?x - of_nat r)))\<rparr>, env\<lparr>le_fs := fs1\<rparr>)))"
        using False less.prems(2) fits w by (subst flush_messages.simps) (simp add: ms Let_def split: sum.split)
      consider (all) "res = Inr (unat ?x)" | (none) "\<exists>e. res = Inl e \<or> res = Inr 0" | (part) k where "res = Inr k" "k \<noteq> 0" "k \<noteq> unat ?x"
        by (cases res) auto
      then show ?thesis
      proof cases
        case all
        let ?e = "env\<lparr>le_fs := fs1\<rparr>"
        have kk: "kept p ?u ?e = kept p u env"
          using wr(2) all c(2,4) x less.prems(2) split by (simp add: kept_def ulog_pending_def)
        have ok: "rec_ok p ?u ?e" using wr(1) c(1) by (simp add: rec_ok_def)
        have lt: "unat (buffer_len ?u) < unat (buffer_len u)" using c(3) False by simp
        have pl: "buffer_partial_len ?u = 0" using less.prems(2) by simp
        have so: "sizes_ok (buffered ?u @ rest)" unfolding c(2) by (rule sz(2) [OF True])
        from less.hyps [OF lt ok pl so] obtain b u1 env1 where h: "flush_messages ?u ?e = Some (b, u1, env1)" "rec_ok p u1 env1"
          "kept p u1 env1 = kept p ?u ?e" "sizes_ok (buffered u1 @ rest)" "same_mode ?u u1"
          "writes_complete (le_fs ?e) \<longrightarrow> no_complete (buffered u1) \<and> buffer_partial_len u1 = 0 \<and> writes_complete (le_fs env1)"
          by blast
        show ?thesis
        proof (intro exI conjI)
          show "flush_messages u env = Some (b, u1, env1)" unfolding run all by (simp only: refl if_True h(1))
          show "kept p u1 env1 = kept p u env" using h(3) kk by (rule trans)
          show "same_mode u u1" using h(5) by (simp add: same_mode_def)
          show "writes_complete (le_fs env) \<longrightarrow> no_complete (buffered u1) \<and> buffer_partial_len u1 = 0 \<and> writes_complete (le_fs env1)"
          proof
            assume "writes_complete (le_fs env)"
            then have "writes_complete (le_fs ?e)" using wc by simp
            then show "no_complete (buffered u1) \<and> buffer_partial_len u1 = 0 \<and> writes_complete (le_fs env1)" by (rule mp [OF h(6)])
          qed
        qed (rule h)+
      next
        case none
        have fb: "file_bytes fs1 p = file_bytes (le_fs env) p" using wr(2) none by auto
        have nw: "\<not> writes_complete (le_fs env)" using wc none x by auto
        obtain b where "flush_messages u env = Some (b, u, env\<lparr>le_fs := fs1\<rparr>)"
          using none x unfolding run by (elim exE disjE) simp_all
        moreover have "same_mode u u" by (simp add: same_mode_def)
        moreover have "rec_ok p u (env\<lparr>le_fs := fs1\<rparr>)" "kept p u (env\<lparr>le_fs := fs1\<rparr>) = kept p u env"
          using inv wr(1) fb by (simp_all add: rec_ok_def kept_def)
        ultimately show ?thesis using nw less.prems(3) by blast
      next
        case part
        have k: "k < ?n" using fs_write_le [of "lg_file u" "take (unat ?x) ?fh" "le_fs env" k fs1] w part x by simp
        have l: "unat (?x - of_nat k) = ?n - k" using k x unat_sub_of_nat [of k ?x] by simp
        let ?u' = "?u\<lparr>buffer_partial_len := ?x - of_nat k, buffer_partial := memwrite (buffer_partial u) 0 (memread ?fh k (?n - k))\<rparr>"
        have res: "flush_messages u env = Some (True, ?u', env\<lparr>le_fs := fs1\<rparr>)"
          using run part l sz(1) by simp
        have fh: "memread ?fh k (?n - k) = drop k (take ?n (buffered u))"
          unfolding c(4) [symmetric] by (simp add: memread_def drop_take)
        have lf: "length (memread ?fh k (?n - k)) = ?n - k" unfolding fh using True k by (simp add: length_buffered [OF inv])
        have "length (memwrite (buffer_partial u) 0 (memread ?fh k (?n - k))) = BUFFER_LEN div 2"
          using inv lf sz(1) by (subst length_memwrite) (auto simp: ulog_inv_def)
        then have ok: "rec_ok p ?u' (env\<lparr>le_fs := fs1\<rparr>)"
          using wr(1) c(1) l sz(1) by (simp add: rec_ok_def ulog_inv_def)
        have pb: "buffered ?u' = drop ?n (buffered u)" using c(2) by (simp add: buffered_def)
        have "take (?n - k) (memwrite (buffer_partial u) 0 (memread ?fh k (?n - k))) = drop k (take ?n (buffered u))"
          unfolding fh [symmetric] using lf by (simp add: memwrite_def)
        then have "ulog_pending ?u' = drop k (take ?n (buffered u)) @ drop ?n (buffered u)"
          using l pb by (simp add: ulog_pending_def)
        moreover have "file_bytes fs1 p = file_bytes (le_fs env) p @ take k (take ?n (buffered u))"
          using wr(2) part x c(4) by simp
        ultimately have "kept p ?u' (env\<lparr>le_fs := fs1\<rparr>) = kept p u env"
          using less.prems(2) split by (simp add: kept_def ulog_pending_def del: take_take) (metis append_assoc append_take_drop_id)
        then show ?thesis using res ok pb sz(2) [OF True] wc part by (auto simp: same_mode_def)
      qed
    qed
  qed
qed

lemma logging_flush_keeps:
  assumes "rec_ok p u env" "sizes_ok (buffered u @ rest)"
  shows "\<exists>b u1 env1. logging_flush u env = Some (b, u1, env1) \<and> rec_ok p u1 env1 \<and> kept p u1 env1 = kept p u env
    \<and> sizes_ok (buffered u1 @ rest) \<and> same_mode u u1
    \<and> (writes_complete (le_fs env) \<longrightarrow> no_complete (buffered u1) \<and> buffer_partial_len u1 = 0 \<and> writes_complete (le_fs env1))"
proof -
  obtain b u1 env1 where f: "flush_partial u env = (b, u1, env1)" by (cases "flush_partial u env") auto
  note k = flush_partial_keeps [OF assms(1) f] flush_partial_mode [OF f] flush_partial_complete [OF assms(1) _ f]
  show ?thesis
  proof (cases b)
    case None
    then show ?thesis using flush_messages_keeps [of p u1 env1 rest] k assms(2) f by (fastforce simp: logging_flush_def same_mode_def)
  next
    case (Some x)
    then show ?thesis using k assms(2) f by (auto simp: logging_flush_def)
  qed
qed

lemma make_room_keeps:
  assumes "ulog_inv u" "unat (buffer_len u) + unat len \<le> BUFFER_LEN"
  shows "ulog_inv (make_room len u)" "buffered (make_room len u) = buffered u"
    and "unat (buffer_index (make_room len u)) + unat (buffer_len (make_room len u)) + unat len \<le> BUFFER_LEN"
    and "buffer_len (make_room len u) = buffer_len u" "buffer_partial_len (make_room len u) = buffer_partial_len u"
    and "buffer_partial (make_room len u) = buffer_partial u" "lg_file (make_room len u) = lg_file u"
    and "waiting_first_msg_offset (make_room len u) = waiting_first_msg_offset u"
    and "waiting_header (make_room len u) = waiting_header u" "ul_expected_seq (make_room len u) = ul_expected_seq u"
  using assms
  by (auto simp: make_room_def Let_def ulog_inv_def buffered_def memread_def take_memmove_down length_memmove_down)

definition piece :: "logging_data \<Rightarrow> bytes" where
  "piece msg = take (unat (ld_length msg)) (ld_data msg)"

lemma unat_ucast_8_16 [simp]: "unat (ucast (x :: u8) :: u16) = unat x"
proof -
  have "unat x < 2 ^ 8" using unsigned_less [of x] by simp
  then show ?thesis by (simp add: unsigned_ucast_eq take_bit_nat_eq_self)
qed

lemma append_piece_keeps:
  assumes ok: "rec_ok p u env" and room: "unat (buffer_len u) + unat (ld_length msg) \<le> BUFFER_LEN"
    and w: "\<not> waiting_first_msg_offset u" and l: "unat (ld_length msg) \<le> length (ld_data msg)"
    and sz: "sizes_ok (buffered u @ piece msg @ rest)"
  shows "\<exists>u1 env1. append_piece msg u env = Some (u1, env1) \<and> rec_ok p u1 env1 \<and> kept p u1 env1 = kept p u env @ piece msg
    \<and> sizes_ok (buffered u1 @ rest) \<and> same_mode u u1
    \<and> (writes_complete (le_fs env) \<and> no_complete (buffered u) \<longrightarrow> no_complete (buffered u1) \<and> writes_complete (le_fs env1))"
proof (cases "ld_length msg = 0")
  case True
  have inv: "ulog_inv u" using ok by (simp add: rec_ok_def)
  note m = make_room_keeps [OF inv room]
  have "append_piece msg u env = Some ((make_room (ld_length msg) u)\<lparr>waiting_first_msg_offset := False\<rparr>, env)"
    using True w m(8) by (simp add: append_piece_def Let_def)
  moreover have "piece msg = []" using True by (simp add: piece_def)
  moreover have "buffered (make_room (ld_length msg) u\<lparr>waiting_first_msg_offset := False\<rparr>) = buffered u"
    using m(2) by (simp add: buffered_def)
  ultimately show ?thesis using ok sz m w
    by (simp add: rec_ok_def ulog_inv_def kept_def ulog_pending_def same_mode_def)
next
  case False
  let ?r = "make_room (ld_length msg) u" and ?n = "unat (ld_length msg)"
  have inv: "ulog_inv u" and rec: "recording (lg_file u) p (le_fs env)" using ok by (simp_all add: rec_ok_def)
  note m = make_room_keeps [OF inv room]
  let ?pos = "unat (buffer_index ?r) + unat (buffer_len ?r)"
  let ?u = "?r\<lparr>waiting_first_msg_offset := False, ul_buffer := memwrite (ul_buffer ?r) ?pos (piece msg), buffer_len := buffer_len ?r + ucast (ld_length msg)\<rparr>"
  have ro: "read_over (le_os env) (ld_data msg) 0 ?n = piece msg" using l by (simp add: read_over_def piece_def)
  have lp: "length (piece msg) = ?n" using l by (simp add: piece_def)
  have un: "unat (buffer_len ?r + ucast (ld_length msg)) = unat (buffer_len ?r) + ?n"
    using m(3) by (subst unat_add_lem [THEN iffD1]) auto
  have a: "append_piece msg u env = do { (_, u3, env3) \<leftarrow> logging_flush ?u env; Some (u3, env3) }"
    using False w m(3,8) ro by (simp add: append_piece_def Let_def)
  have lb: "length (ul_buffer ?r) = BUFFER_LEN" using m(1) by (simp add: ulog_inv_def)
  have "take (unat (buffer_len ?r) + ?n) (drop (unat (buffer_index ?r)) (memwrite (ul_buffer ?r) ?pos (piece msg))) = buffered ?r @ piece msg"
    using m(3) lb lp by (simp add: memwrite_def buffered_def memread_def drop_take)
  then have bu: "buffered ?u = buffered u @ piece msg" using un m(2) by (simp add: buffered_def memread_def)
  have ok': "rec_ok p ?u env"
    using m(1,3,7) rec un lb lp by (simp add: rec_ok_def ulog_inv_def length_memwrite)
  have k: "kept p ?u env = kept p u env @ piece msg"
    using bu m(5,6) by (simp add: kept_def ulog_pending_def)
  have sm: "same_mode ?u u1 \<Longrightarrow> same_mode u u1" for u1 using m(9,10) w by (simp add: same_mode_def)
  have "sizes_ok (buffered ?u @ rest)" using sz bu by simp
  from logging_flush_keeps [OF ok' this] obtain b u1 env1 where f: "logging_flush ?u env = Some (b, u1, env1)" "rec_ok p u1 env1"
    "kept p u1 env1 = kept p ?u env" "sizes_ok (buffered u1 @ rest)" "same_mode ?u u1"
    "writes_complete (le_fs env) \<longrightarrow> no_complete (buffered u1) \<and> buffer_partial_len u1 = 0 \<and> writes_complete (le_fs env1)" by blast
  show ?thesis
    using f(2,4,6) sm [OF f(5)] trans [OF f(3) k] by (intro exI [of _ u1] exI [of _ env1]) (simp add: a f(1))
qed

text \<open>A piece in order.\<close>

lemma logging_seq_expected:
  "ld_sequence msg = ul_expected_seq u \<Longrightarrow> logging_seq (ld_sequence msg) u = (True, False, u\<lparr>ul_expected_seq := ul_expected_seq u + 1\<rparr>)"
  by (simp add: logging_seq_def)

lemma piece_in_order:
  assumes ok: "rec_ok p u env" and h: "\<not> waiting_header u" "\<not> waiting_first_msg_offset u"
    and seq: "ld_sequence msg = ul_expected_seq u"
    and room: "unat (buffer_len u) + unat (ld_length msg) \<le> BUFFER_LEN" and l: "unat (ld_length msg) \<le> length (ld_data msg)"
    and sz: "sizes_ok (buffered u @ piece msg @ rest)"
  shows "\<exists>u1 env1. logging_data_process L msg u env = Some (u1, env1) \<and> rec_ok p u1 env1 \<and> kept p u1 env1 = kept p u env @ piece msg
    \<and> sizes_ok (buffered u1 @ rest) \<and> same_mode (u\<lparr>ul_expected_seq := ul_expected_seq u + 1\<rparr>) u1
    \<and> (writes_complete (le_fs env) \<and> no_complete (buffered u) \<longrightarrow> no_complete (buffered u1) \<and> writes_complete (le_fs env1))"
proof -
  let ?u = "u\<lparr>ul_expected_seq := ul_expected_seq u + 1\<rparr>"
  have b: "buffered ?u = buffered u" "kept p ?u env = kept p u env" by (simp_all add: buffered_def kept_def ulog_pending_def)
  have "rec_ok p ?u env" using ok by (simp add: rec_ok_def ulog_inv_def)
  moreover have "logging_data_process L msg u env = append_piece msg ?u env"
    unfolding logging_data_process_def logging_seq_expected [OF seq] using h by (simp add: resync_def Let_def)
  ultimately show ?thesis
    using append_piece_keeps [of p ?u env msg rest] room h l sz b by simp
qed

text \<open>The first piece.\<close>

lemma first_piece:
  assumes ok: "rec_ok p u env" and h: "waiting_header u" "\<not> waiting_first_msg_offset u" "buffer_len u = 0" "buffer_partial_len u = 0"
    and seq: "ld_sequence msg = ul_expected_seq u"
    and l: "unat (ld_length msg) \<le> length (ld_data msg)" "16 \<le> unat (ld_length msg)"
    and mg: "take 7 (piece msg) = ULOG_MAGIC"
    and sz: "sizes_ok (drop 16 (piece msg) @ rest)"
  shows "\<exists>u1 env1. logging_data_process L msg u env = Some (u1, env1) \<and> rec_ok p u1 env1 \<and> kept p u1 env1 = kept p u env @ piece msg
    \<and> sizes_ok (buffered u1 @ rest) \<and> same_mode (u\<lparr>ul_expected_seq := ul_expected_seq u + 1, waiting_header := False\<rparr>) u1
    \<and> (writes_complete (le_fs env) \<longrightarrow> no_complete (buffered u1) \<and> writes_complete (le_fs env1))"
proof -
  let ?n = "unat (ld_length msg)" and ?d = "ld_data msg"
  let ?v = "u\<lparr>ul_expected_seq := ul_expected_seq u + 1\<rparr>"
  let ?u = "?v\<lparr>buffer_partial_len := 16, buffer_partial := memwrite (buffer_partial u) 0 (take 16 ?d), waiting_header := False\<rparr>"
  let ?m = "msg\<lparr>ld_data := memwrite ?d 0 (read_over (le_os env) ?d 16 ?n), ld_length := ld_length msg - 16\<rparr>"
  have inv: "ulog_inv u" and rec: "recording (lg_file u) p (le_fs env)" using ok by (simp_all add: rec_ok_def)
  have n: "unat (ld_length msg - 16) = ?n - 16" using l(2) by (simp add: unat_sub word_le_nat_alt)
  have th: "take_header msg ?v env = Some (?m, ?u)" using l by (simp add: take_header_def Let_def)
  have m7: "take (length ULOG_MAGIC) ?d = ULOG_MAGIC" using mg l by (simp add: ULOG_MAGIC_def piece_def numeral_eq_Suc)
  have run: "logging_data_process L msg u env = append_piece ?m ?u env"
    unfolding logging_data_process_def logging_seq_expected [OF seq] using h m7 l(2) th by (simp add: resync_def Let_def)
  have "length (read_over (le_os env) ?d 16 ?n) = ?n" by (simp add: read_over_def)
  then have ld: "length (ld_data ?m) = length ?d" using l by (simp add: length_memwrite)
  have pm: "piece ?m = drop 16 (piece msg)"
    using l n by (simp add: piece_def memwrite_def read_over_def min_def drop_take)
  have lb: "length (memwrite (buffer_partial u) 0 (take 16 ?d)) = 1024"
    using inv l by (subst length_memwrite) (auto simp: ulog_inv_def)
  have ok': "rec_ok p ?u env" using ok lb by (simp add: rec_ok_def ulog_inv_def)
  have bu: "buffered ?u = []" "buffered u = []" using h(3) by (simp_all add: buffered_def memread_def)
  have "take 16 (memwrite (buffer_partial u) 0 (take 16 ?d)) = take 16 (piece msg)"
    using l by (simp add: memwrite_def piece_def min_def)
  then have k: "kept p ?u env = kept p u env @ take 16 (piece msg)"
    using bu h(4) by (simp add: kept_def ulog_pending_def)
  have sm: "same_mode ?u u1 \<Longrightarrow> same_mode (u\<lparr>ul_expected_seq := ul_expected_seq u + 1, waiting_header := False\<rparr>) u1" for u1
    by (simp add: same_mode_def)
  have "?n < 256" using unsigned_less [of "ld_length msg", where ?'a=nat] by simp
  then have room: "unat (buffer_len ?u) + unat (ld_length ?m) \<le> BUFFER_LEN" using h(3) n by simp
  have "no_complete (buffered ?u)" using bu by (simp add: no_complete_def)
  moreover have "sizes_ok (buffered ?u @ piece ?m @ rest)" using sz bu pm by simp
  ultimately show ?thesis
    using append_piece_keeps [OF ok' room] h ld l n k pm run sm by fastforce
qed

definition log_file :: "('a) log_ep_scheme \<Rightarrow> path" where
  "log_file ep = (fst (path_of (logs_dir (lg_config ep))), snd (path_of (logs_dir (lg_config ep))) @ [lg_filename ep])"

text \<open>Several pieces.\<close>

fun record_pieces :: "loglib \<Rightarrow> logging_data list \<Rightarrow> ulog \<Rightarrow> log_env \<Rightarrow> (ulog \<times> log_env) option" where
  "record_pieces L [] u env = Some (u, env)"
| "record_pieces L (m # ms) u env = do { (u1, env1) \<leftarrow> logging_data_process L m u env; record_pieces L ms u1 env1 }"

text \<open>The pieces follow one another from a sequence number on, and their data is there.\<close>

fun in_sequence :: "u16 \<Rightarrow> logging_data list \<Rightarrow> bool" where
  "in_sequence n [] \<longleftrightarrow> True"
| "in_sequence n (m # ms) \<longleftrightarrow> ld_sequence m = n \<and> unat (ld_length m) \<le> length (ld_data m) \<and> in_sequence (n + 1) ms"

definition piece_stream :: "logging_data list \<Rightarrow> bytes" where
  "piece_stream ms = concat (map piece ms)"

lemma no_complete_short:
  assumes "no_complete bs" "sizes_ok (bs @ rest)"
  shows "length bs < 1024"
proof (cases "length bs < 3")
  case False
  then have "msg_size_at (bs @ rest) = msg_size_at bs" by (intro msg_size_at_append) simp
  then show ?thesis using assms False by (simp add: no_complete_def sizes_ok.simps [of "bs @ rest"] Let_def)
qed simp

lemma record_pieces_keeps:
  assumes "rec_ok p u env" "\<not> waiting_header u" "\<not> waiting_first_msg_offset u" "in_sequence (ul_expected_seq u) ms"
    "sizes_ok (buffered u @ piece_stream ms)" "writes_complete (le_fs env)" "no_complete (buffered u)"
  shows "\<exists>u1 env1. record_pieces L ms u env = Some (u1, env1) \<and> kept p u1 env1 = kept p u env @ piece_stream ms \<and> no_complete (buffered u1)"
  using assms
proof (induction ms arbitrary: u env)
  case Nil
  then show ?case by (simp add: piece_stream_def)
next
  case (Cons m ms)
  have "length (buffered u) = unat (buffer_len u)" using Cons.prems(1) by (simp add: rec_ok_def length_buffered)
  moreover have "unat (ld_length m) < 256" using unsigned_less [of "ld_length m", where ?'a=nat] by simp
  ultimately have room: "unat (buffer_len u) + unat (ld_length m) \<le> BUFFER_LEN"
    using no_complete_short [OF Cons.prems(7,5)] by simp
  have seq: "ld_sequence m = ul_expected_seq u" "unat (ld_length m) \<le> length (ld_data m)" "in_sequence (ul_expected_seq u + 1) ms"
    using Cons.prems(4) by simp_all
  have "sizes_ok (buffered u @ piece m @ piece_stream ms)" using Cons.prems(5) by (simp add: piece_stream_def)
  from piece_in_order [OF Cons.prems(1-3) seq(1) room seq(2) this, of L] Cons.prems(6,7)
  obtain u1 env1 where s: "logging_data_process L m u env = Some (u1, env1)" "rec_ok p u1 env1" "kept p u1 env1 = kept p u env @ piece m"
    "sizes_ok (buffered u1 @ piece_stream ms)" "same_mode (u\<lparr>ul_expected_seq := ul_expected_seq u + 1\<rparr>) u1"
    "no_complete (buffered u1)" "writes_complete (le_fs env1)" by blast
  from Cons.IH [OF s(2) _ _ _ s(4,7,6)] s(5) Cons.prems(2,3) seq(3)
  obtain u2 env2 where "record_pieces L ms u1 env1 = Some (u2, env2)" "kept p u2 env2 = kept p u1 env1 @ piece_stream ms" "no_complete (buffered u2)"
    by (auto simp: same_mode_def)
  then show ?case using s(1,3) by (simp add: piece_stream_def)
qed

lemma LogEndpoint_start_ok:
  assumes "LogEndpoint_start ext ep env = Some (True, ep', env')"
  shows "lookup_node (le_fs env') (log_file ep') = Some (File \<lparr>f_data = [], f_mode = 0x1A4\<rparr>)"
    and "fs_fds (le_fs env') (lg_file ep') = Some (log_file ep', 0)" and "lg_file ep' \<ge> 0"
    and "log_ep.more ep' = log_ep.more ep"
proof -
  let ?env = "env\<lparr>le_fs := delete_old_logs (lg_config ep) (le_fs env)\<rparr>"
  obtain r ep1 env1 where g: "get_file ext ep ?env = Some (r, ep1, env1)" "r \<ge> 0" and
    e: "le_fs env' = le_fs env1" "lg_file ep' = r" "lg_config ep' = lg_config ep1" "lg_filename ep' = lg_filename ep1" "log_ep.more ep' = log_ep.more ep1"
    using assms by (auto simp: LogEndpoint_start_def Let_def bind_eq_Some_conv case_prod_unfold close_log_def split: if_splits)
  have m: "log_ep.more ep1 = log_ep.more ep"
  proof -
    obtain x fs1 where o: "open_or_create_dir (logs_dir (lg_config ep)) (le_fs ?env) = Some (x, fs1)"
      using g(1) by (auto simp: get_file_def bind_eq_Some_conv Let_def)
    then show ?thesis using g(1) by (cases x) (auto simp: get_file_def Let_def case_prod_unfold)
  qed
  note n = get_file_new [OF g]
  have p: "log_file ep' = (fst (path_of (logs_dir (lg_config ep))), snd (path_of (logs_dir (lg_config ep))) @ [lg_filename ep1])"
    using e n(6) by (simp add: log_file_def)
  show "lookup_node (le_fs env') (log_file ep') = Some (File \<lparr>f_data = [], f_mode = 0x1A4\<rparr>)" using n(2) by (simp add: p e)
  show "fs_fds (le_fs env') (lg_file ep') = Some (log_file ep', 0)" using n(4) by (simp add: p e)
  show "lg_file ep' \<ge> 0" using g(2) e by simp
  show "log_ep.more ep' = log_ep.more ep" using m e by simp
qed

lemma ulog_more_eq:
  "log_ep.more (u :: ulog) = log_ep.more v \<Longrightarrow> ul_buffer u = ul_buffer v \<and> buffer_partial u = buffer_partial v"
  by (cases u; cases v) simp

lemma ulog_start_ok:
  assumes "ulog_start u env = Some (True, u1, env1)" "length (ul_buffer u) = BUFFER_LEN" "length (buffer_partial u) = BUFFER_LEN div 2"
  shows "rec_ok (log_file u1) u1 env1 \<and> kept (log_file u1) u1 env1 = [] \<and> waiting_header u1 \<and> \<not> waiting_first_msg_offset u1
    \<and> ul_expected_seq u1 = 0 \<and> buffer_len u1 = 0 \<and> buffer_partial_len u1 = 0"
proof -
  obtain ok v e where l: "LogEndpoint_start ''ulg'' u env = Some (ok, v, e)"
    using assms(1) by (cases "LogEndpoint_start ''ulg'' u env") (auto simp: ulog_start_def)
  have s: "LogEndpoint_start ''ulg'' u env = Some (True, v, env1)"
    and v: "u1 = v\<lparr>waiting_header := True, waiting_first_msg_offset := False, ul_expected_seq := 0, buffer_len := 0,
      buffer_index := 0, buffer_partial_len := 0\<rparr>"
    using assms(1) l by (auto simp: ulog_start_def)
  note l = LogEndpoint_start_ok [OF s]
  have f: "log_file u1 = log_file v" by (simp add: v log_file_def)
  have r: "recording (lg_file u1) (log_file u1) (le_fs env1)"
    using l(1,2) unfolding f by (simp add: recording_def v log_file_def)
  have "rec_ok (log_file u1) u1 env1"
    using r ulog_more_eq [OF l(4)] assms(2,3) by (simp add: rec_ok_def ulog_inv_def v)
  moreover have "kept (log_file u1) u1 env1 = []"
    using l(1) by (simp add: kept_def f file_bytes_def) (simp add: ulog_pending_def v buffered_def memread_def)
  ultimately show ?thesis by (simp add: v)
qed

text \<open>A message that announces the size 0xFFFD.\<close>

definition stuck :: "ulog \<Rightarrow> log_env \<Rightarrow> bool" where
  "stuck u env \<longleftrightarrow> unat (buffer_len u) \<ge> 3 \<and> buffer_partial_len u = 0
     \<and> msg_size_at (drop (unat (buffer_index u)) (ul_buffer u)) = 0xFFFD
     \<and> (\<forall>k. fs_err (le_fs env) k = 0) \<and> fs_fds (le_fs env) (lg_file u) \<noteq> None"

lemma fs_write_nothing:
  assumes "\<forall>k. fs_err fs k = 0" "fs_fds fs fd \<noteq> None"
  shows "\<exists>fs1. fs_write fd [] fs = (Inr 0, fs1) \<and> (\<forall>k. fs_err fs1 k = 0) \<and> fs_fds fs1 fd \<noteq> None"
  using assms by (cases "lookup_node fs (fst (the (fs_fds fs fd)))")
    (auto simp: fs_write_def Let_def case_prod_unfold update_node_def split: node.split)

lemma stuck_not_flushed: "flush_messages u env = Some y \<Longrightarrow> \<not> stuck u env"
proof (rule flush_messages.raw_induct [where P = "\<lambda>u env y. \<not> stuck u env"], goal_cases)
  case (1 f u env y)
  show ?case
  proof
    assume s: "stuck u env"
    then obtain fs1 where w: "fs_write (lg_file u) [] (le_fs env) = (Inr 0, fs1)" "\<forall>k. fs_err fs1 k = 0" "fs_fds fs1 (lg_file u) \<noteq> None"
      using fs_write_nothing unfolding stuck_def by blast
    have "(0xFFFD :: u16) + of_nat sizeof_ulog_msg_header = 0" by code_simp
    then have "msg_size_at (drop (unat (buffer_index u)) (ul_buffer u)) + of_nat sizeof_ulog_msg_header = 0"
      using s unfolding stuck_def by metis
    note run = 1(3) [unfolded Let_def this]
    have "f u (env\<lparr>le_fs := fs1\<rparr>) = Some y"
      using run s w(1) by (simp add: stuck_def)
    from 1(2) [OF this] s w(2,3) show False by (simp add: stuck_def)
  qed
qed

definition ex_ulog :: ulog where
  "ex_ulog = ULog_init 0 (ex_log_options\<lparr>max_log_files := 0\<rparr>) (replicate BUFFER_LEN 0) (replicate (BUFFER_LEN div 2) 0)"

definition ex_pieces :: "logging_data list" where
  "ex_pieces =
     [\<lparr>ld_sequence = 0, ld_length = 20, ld_first_message_offset = 16, ld_data = ULOG_MAGIC @ replicate 9 7 @ [1, 0, 0x49, 8]\<rparr>,
      \<lparr>ld_sequence = 1, ld_length = 2, ld_first_message_offset = 0, ld_data = [5, 0]\<rparr>]"

lemma ex_log_dir2: "open_or_create_dir ''/logs'' (snd (tick ex_log_fs)) = Some (Inr [''00007-2025-07-13_10-00-00.ulg'', ''00003-2025-07-12_10-00-00.ulg'', ''00001-2025-07-11_10-00-00.ulg''], snd (tick (snd (tick ex_log_fs))))"
  by (simp add: open_or_create_dir_def ex_log_fs_def ex_fs_def fs_readdir_def fs_stat_def tick_def path_of_def lookup_node_def strtok_on_def entries_def)

lemma ex_no_rotation: "delete_old_logs (ex_log_options\<lparr>max_log_files := 0\<rparr>) ex_log_fs = snd (tick ex_log_fs)"
  by (simp add: delete_old_logs_def fs_statvfs_def fs_stat_def ex_log_options_def ex_log_fs_def ex_fs_def tick_def path_of_def lookup_node_def strtok_on_def)

lemma ex_log_name_ext: "log_name 8 ex_tm ext = ''00008-2025-07-14_09-05-00.'' @ ext"
  by (simp add: log_name_def ex_tm_def show_padded_def show_nat.simps digit_char_def char_of_eq_iff replicate_4)

lemma ex_LogEndpoint_start:
  fixes ep :: "('a) log_ep_scheme"
  assumes "lg_file ep = -1" "lg_config ep = ex_log_options\<lparr>max_log_files := 0\<rparr>" "length ext \<le> 5"
  shows "\<exists>ep1 env1. LogEndpoint_start ext ep ex_log_env = Some (True, ep1, env1)
    \<and> fs_err (le_fs env1) = (\<lambda>_. 0) \<and> fs_wr (le_fs env1) = (\<lambda>_. 100000)"
proof -
  have d: "logs_dir (ex_log_options\<lparr>max_log_files := 0\<rparr>) = ''/logs''" by (simp add: ex_log_options_def)
  let ?p = "(True, [''logs'', ''00008-2025-07-14_09-05-00.'' @ ext])" and ?fd = "3 + int (Suc (Suc (fs_tick ex_log_fs)))"
  let ?fs = "snd (tick (snd (tick ex_log_fs)))"
  have l: "lookup_node ?fs ?p = None"
    by (simp add: ex_log_fs_def ex_fs_def lookup_node_def)
  have pa: "path_of ''/logs'' = (True, [''logs''])" by (simp add: path_of_def strtok_on_def)
  have e: "fs_err ex_log_fs = (\<lambda>_. 0)" "fs_wr ex_log_fs = (\<lambda>_. 100000)" by (simp_all add: ex_log_fs_def ex_fs_def)
  obtain fs1 where c: "fs_create ?p 0x1A4 ?fs = (Inr ?fd, fs1)" "fs_err fs1 = (\<lambda>_. 0)" "fs_wr fs1 = (\<lambda>_. 100000)"
    using l e by (simp add: fs_create_def case_prod_unfold Let_def)
  have n: "length (log_name 8 ex_tm ext) < FILENAME_SIZE" using assms(3) by (simp add: ex_log_name_ext)
  obtain ep' env' where g: "get_file ext ep (ex_log_env\<lparr>le_fs := snd (tick ex_log_fs)\<rparr>) = Some (?fd, ep', env')"
    "le_fs env' = fs_sync fs1" "le_os env' = ex_world"
    using n c(1) by (simp add: get_file_def assms(2) ex_log_env_def ex_log_router_def d ex_log_dir2 ex_log_prefix try_create_first pa ex_log_name_ext)
  have t: "\<exists>w1. add_timeout n cb w = (Some (w_next_timer w), w1) \<and> w_timerfd_ok w1 = (\<lambda>_. True)" if "w_timerfd_ok w = (\<lambda>_. True)" for n cb w
    using that by (simp add: add_timeout_def Let_def mod_timeout_def)
  obtain w1 where w1: "add_timeout 1000 (CbLoggingStart (lg_id ep')) ex_world = (Some (w_next_timer ex_world), w1)" "w_timerfd_ok w1 = (\<lambda>_. True)"
    using t [of ex_world] by (auto simp: ex_world_def)
  obtain w2 where w2: "add_timeout 1000 (CbLogFsync (lg_id ep')) w1 = (Some (w_next_timer w1), w2)" using t [OF w1(2)] by blast
  have i: "le_fs ex_log_env = ex_log_fs" by (simp add: ex_log_env_def)
  show ?thesis
    using c(2,3) by (simp add: LogEndpoint_start_def assms(1,2) i ex_no_rotation g w1 w2 fs_sync_def)
qed

lemma ex_ulog_start: "\<exists>u1 env1. ulog_start ex_ulog ex_log_env = Some (True, u1, env1) \<and> writes_complete (le_fs env1)"
proof -
  have "lg_file ex_ulog = -1" "lg_config ex_ulog = ex_log_options\<lparr>max_log_files := 0\<rparr>"
    by (simp_all add: ex_ulog_def ULog_init_def LogEndpoint_init_def log_ep.extend_def)
  from ex_LogEndpoint_start [OF this, of "''ulg''"] show ?thesis
    by (auto simp: ulog_start_def writes_complete_def)
qed

lemma ex_pieces_ok:
  "in_sequence 0 ex_pieces" "length (piece_stream [hd ex_pieces]) = 20" "take 7 (piece (hd ex_pieces)) = ULOG_MAGIC"
  "sizes_ok (drop 16 (piece_stream ex_pieces))" "piece_stream ex_pieces = ULOG_MAGIC @ replicate 9 7 @ [1, 0, 0x49, 8, 5, 0]"
proof -
  have r: "replicate 9 (7 :: u8) = [7, 7, 7, 7, 7, 7, 7, 7, 7]" by (simp add: numeral_eq_Suc)
  show "in_sequence 0 ex_pieces" "length (piece_stream [hd ex_pieces]) = 20" "take 7 (piece (hd ex_pieces)) = ULOG_MAGIC"
    "piece_stream ex_pieces = ULOG_MAGIC @ replicate 9 7 @ [1, 0, 0x49, 8, 5, 0]"
    by (simp_all add: ex_pieces_def piece_stream_def piece_def ULOG_MAGIC_def r)
  then have "drop 16 (piece_stream ex_pieces) = [1, 0, 0x49, 8, 5, 0]" by (simp add: ULOG_MAGIC_def r)
  then show "sizes_ok (drop 16 (piece_stream ex_pieces))"
    by (simp add: sizes_ok.simps msg_size_at_def Let_def)
qed

text \<open>C13: the ULog recorder keeps the stream: after a start, when the kernel takes what is written and the
  vehicle sends the pieces of a log in order, beginning with the header of a ULog file and with no
  message larger than the buffer of rests, every piece is handled, the file followed by what the recorder
  still holds is exactly the bytes of the pieces, and what the messages' buffer holds is less than one message.\<close>

theorem ulog_records_stream:
  assumes "ulog_start u env = Some (True, u0, env0)" "length (ul_buffer u) = BUFFER_LEN" "length (buffer_partial u) = BUFFER_LEN div 2"
    and "writes_complete (le_fs env0)" and "in_sequence 0 (m # ms)"
    and "16 \<le> unat (ld_length m)" "take 7 (piece m) = ULOG_MAGIC" "sizes_ok (drop 16 (piece_stream (m # ms)))"
  shows "\<exists>u1 env1. record_pieces L (m # ms) u0 env0 = Some (u1, env1)
    \<and> file_bytes (le_fs env1) (log_file u0) @ ulog_pending u1 = piece_stream (m # ms) \<and> no_complete (buffered u1)"
proof -
  note s = ulog_start_ok [OF assms(1-3)]
  have seq: "ld_sequence m = ul_expected_seq u0" "unat (ld_length m) \<le> length (ld_data m)" "in_sequence (ul_expected_seq u0 + 1) ms"
    using assms(5) s by simp_all
  have "length (piece m) = unat (ld_length m)" using seq(2) by (simp add: piece_def)
  then have "sizes_ok (drop 16 (piece m) @ piece_stream ms)" using assms(6,8) by (simp add: piece_stream_def)
  from first_piece [OF _ _ _ _ _ seq(1,2) assms(6,7) this, of "log_file u0" env0 L] s assms(4)
  obtain u1 env1 where f: "logging_data_process L m u0 env0 = Some (u1, env1)" "rec_ok (log_file u0) u1 env1" "kept (log_file u0) u1 env1 = piece m"
    "sizes_ok (buffered u1 @ piece_stream ms)" "same_mode (u0\<lparr>ul_expected_seq := ul_expected_seq u0 + 1, waiting_header := False\<rparr>) u1"
    "no_complete (buffered u1)" "writes_complete (le_fs env1)" by auto
  from record_pieces_keeps [OF f(2) _ _ _ f(4,7,6), of L] f(5) s seq(3)
  obtain u2 env2 where "record_pieces L ms u1 env1 = Some (u2, env2)" "kept (log_file u0) u2 env2 = piece m @ piece_stream ms" "no_complete (buffered u2)"
    by (auto simp: same_mode_def f(3))
  then show ?thesis using f(1) by (simp add: kept_def piece_stream_def)
qed

lemma ulog_records_stream_witness:
  "\<forall>L. \<exists>u0 env0 u1 env1. ulog_start ex_ulog ex_log_env = Some (True, u0, env0) \<and> record_pieces L ex_pieces u0 env0 = Some (u1, env1)
     \<and> file_bytes (le_fs env1) (log_file u0) @ ulog_pending u1 = ULOG_MAGIC @ replicate 9 7 @ [1, 0, 0x49, 8, 5, 0]"
proof
  fix L
  obtain u0 env0 where s: "ulog_start ex_ulog ex_log_env = Some (True, u0, env0)" "writes_complete (le_fs env0)"
    using ex_ulog_start by blast
  have b: "length (ul_buffer ex_ulog) = BUFFER_LEN" "length (buffer_partial ex_ulog) = BUFFER_LEN div 2"
    by (simp_all add: ex_ulog_def ULog_init_def ulog.defs log_ep.extend_def LogEndpoint_init_def)
  have p: "ex_pieces = hd ex_pieces # tl ex_pieces" "unat (ld_length (hd ex_pieces)) = 20" by (simp_all add: ex_pieces_def)
  show "\<exists>u0 env0 u1 env1. ulog_start ex_ulog ex_log_env = Some (True, u0, env0) \<and> record_pieces L ex_pieces u0 env0 = Some (u1, env1)
     \<and> file_bytes (le_fs env1) (log_file u0) @ ulog_pending u1 = ULOG_MAGIC @ replicate 9 7 @ [1, 0, 0x49, 8, 5, 0]"
    using ulog_records_stream [OF s(1) b s(2), of "hd ex_pieces" "tl ex_pieces" L] ex_pieces_ok p s(1) by auto
qed

text \<open>Sequence numbers: the next one is handled, a number up to 32767 ahead is handled as a loss, and
  a number up to 32766 behind is a repetition that changes nothing. The numbers count modulo 2^16. At the
  distance 32767 behind, which is 32769 ahead, a message is handled or not by which of the two numbers is larger.\<close>

lemma logging_seq_window:
  "logging_seq seq u =
     (let ahead = unat (seq - ul_expected_seq u)
      in if ahead = 0 then (True, False, u\<lparr>ul_expected_seq := seq + 1\<rparr>)
         else if ahead \<le> 32767 \<or> (ahead \<le> 32769 \<and> seq < ul_expected_seq u) then (True, True, u\<lparr>ul_expected_seq := seq + 1\<rparr>)
         else (False, False, u))"
proof (cases "seq = ul_expected_seq u")
  case True
  then show ?thesis by (simp add: logging_seq_def)
next
  case False
  let ?e = "ul_expected_seq u"
  have lt: "unat seq < 65536" "unat ?e < 65536"
    using unsigned_less [of seq, where ?'a=nat] unsigned_less [of ?e, where ?'a=nat] by simp_all
  show ?thesis
  proof (cases "?e < seq")
    case True
    then have "unat (seq - ?e) = unat seq - unat ?e" by (simp add: unat_sub order.strict_implies_order)
    moreover have "\<not> seq < ?e" using True by simp
    ultimately show ?thesis using True False
      by (simp add: logging_seq_def Let_def word_less_nat_alt)
  next
    case le: False
    then have l: "seq < ?e" using False by simp
    then have a: "unat (?e - seq) = unat ?e - unat seq" by (simp add: unat_sub order.strict_implies_order)
    have "unat (seq - ?e) = 65536 - (unat ?e - unat seq)"
      using l lt by (simp add: unat_sub_if' word_less_nat_alt)
    then show ?thesis using le l a False lt
      by (simp add: logging_seq_def Let_def word_less_nat_alt) linarith
  qed
qed

end
