(* ===== verification/Recorders.thy ===== *)
theory Recorders
  imports UlogFacts
begin

text \<open>
  The other recorders: \<open>BinLog\<close> for ArduPilot logs, which come in numbered blocks of a fixed size
  (binlog.h, binlog.cpp), \<open>TLog\<close> for telemetry, which writes every packet with a time stamp
  (tlog.h, tlog.cpp), and \<open>AutoLog\<close>, which makes one of the first two recorders once a heartbeat tells the
  autopilot (autolog.h, autolog.cpp).
\<close>

section \<open>BinLog\<close>

record binlog = log_ep +
  last_acked_seqno :: u32

definition BinLog_init :: "nat \<Rightarrow> log_options \<Rightarrow> binlog" where
  "BinLog_init this conf = log_ep.extend (LogEndpoint_init this conf) (binlog.fields 0)"

definition send_status :: "loglib \<Rightarrow> u32 \<Rightarrow> u8 \<Rightarrow> binlog \<Rightarrow> log_env \<Rightarrow> binlog \<times> log_env" where
  "send_status L seqno status u env =
     send_msg L (RemoteLogBlockStatus (target_system_id u) seqno status) (target_system_id u) u env"

definition binlog_logging_start_timeout :: "loglib \<Rightarrow> binlog \<Rightarrow> log_env \<Rightarrow> bool \<times> binlog \<times> log_env" where
  "binlog_logging_start_timeout L u env = (True, send_status L (BLOCK_START L) 1 u env)"

definition binlog_start :: "binlog \<Rightarrow> log_env \<Rightarrow> (bool \<times> binlog \<times> log_env) option" where
  "binlog_start u env =
     do {
       (ok, u1, env1) \<leftarrow> LogEndpoint_start ''bin'' u env;
       Some (ok, if ok then u1\<lparr>last_acked_seqno := 0\<rparr> else u1, env1)
     }"

definition binlog_send_stop :: "loglib \<Rightarrow> binlog \<Rightarrow> log_env \<Rightarrow> binlog \<times> log_env" where
  "binlog_send_stop L u env = send_status L (BLOCK_STOP L) 1 u env"

definition binlog_stop :: "loglib \<Rightarrow> binlog \<Rightarrow> log_env \<Rightarrow> (binlog \<times> log_env) option" where
  "binlog_stop L u env =
     (if lg_file u = -1 then Some (u, env)
      else let (u1, env1) = binlog_send_stop L u env in Some (LogEndpoint_stop u1 env1))"

definition binlog_restart :: "loglib \<Rightarrow> binlog \<Rightarrow> log_env \<Rightarrow> (binlog \<times> log_env) option" where
  "binlog_restart L u env =
     do { (u1, env1) \<leftarrow> binlog_stop L u env; (_, u2, env2) \<leftarrow> binlog_start u1 env1; Some (u2, env2) }"

text \<open>The loop over the numbers not seen: every message carries \<open>seqno\<close>, not \<open>i\<close>.\<close>

function send_nacks :: "loglib \<Rightarrow> u32 \<Rightarrow> u32 \<Rightarrow> binlog \<Rightarrow> log_env \<Rightarrow> binlog \<times> log_env" where
  "send_nacks L i seqno u env =
     (if i < seqno
      then let (u1, env1) = send_status L seqno (BLOCK_NACK L) u env in send_nacks L (i + 1) seqno u1 env1
      else (u, env))"
  by pat_completeness auto
termination
proof (relation "measure (\<lambda>(L, i, seqno, u, env). unat seqno - unat i)", goal_cases)
  case (2 L i seqno u env x u1 env1)
  then have l: "unat i < unat seqno" by (simp add: word_less_nat_alt)
  then have "unat (i + 1) = unat i + 1"
    using unsigned_less [of seqno, where ?'a=nat] by (subst unat_add_lem [THEN iffD1]) auto
  with l show ?case by simp
qed simp

declare send_nacks.simps [simp del]

definition send_ack :: "loglib \<Rightarrow> u32 \<Rightarrow> binlog \<Rightarrow> log_env \<Rightarrow> binlog \<times> log_env" where
  "send_ack L seqno u env =
     (if seqno < last_acked_seqno u then send_status L seqno (BLOCK_ACK L) u env
      else
        let (u1, env1) = send_nacks L (last_acked_seqno u + 1) seqno u env;
            (u2, env2) = send_status L seqno (BLOCK_ACK L) u1 env1
        in (u2\<lparr>last_acked_seqno := seqno\<rparr>, env2))"

text \<open>The offset is a product of 32 bits.\<close>

definition block_offset :: "loglib \<Rightarrow> u32 \<Rightarrow> nat" where
  "block_offset L seqno = unat (seqno * of_nat (BLOCK_DATA_LEN L))"

definition binlog_data_process :: "loglib \<Rightarrow> u32 \<times> bytes \<Rightarrow> binlog \<Rightarrow> log_env \<Rightarrow> (binlog \<times> log_env) option" where
  "binlog_data_process L msg u env =
     (case fs_lseek (lg_file u) (block_offset L (fst msg)) (le_fs env) of
        (Inl _, fs1) \<Rightarrow> binlog_restart L u (env\<lparr>le_fs := fs1\<rparr>)
      | (Inr _, fs1) \<Rightarrow>
          (case fs_write (lg_file u) (take (BLOCK_DATA_LEN L) (snd msg)) fs1 of
             (Inl e, fs2) \<Rightarrow>
               if e \<noteq> EAGAIN then binlog_restart L u (env\<lparr>le_fs := fs2\<rparr>) else Some (u, env\<lparr>le_fs := fs2\<rparr>)
           | (Inr r, fs2) \<Rightarrow>
               Some (if r \<noteq> BLOCK_DATA_LEN L then (u, env\<lparr>le_fs := fs2\<rparr>)
                     else send_ack L (fst msg) u (env\<lparr>le_fs := fs2\<rparr>))))"

definition binlog_write_msg :: "loglib \<Rightarrow> buffer \<Rightarrow> binlog \<Rightarrow> log_env \<Rightarrow> (nat \<times> binlog \<times> log_env) option" where
  "binlog_write_msg L buf u env =
     do {
       (u1, env1) \<leftarrow> handle_auto_start_stop L binlog_start (binlog_stop L) buf (learn_target L buf u) env;
       let mid = msg_id (b_curr buf);
       let ret = b_len buf;
       if mid \<noteq> ID_REMOTE_LOG_DATA_BLOCK L then Some (ret, u1, env1)
       else
         case get_msg_entry (ll_mav L) mid of
           None \<Rightarrow> Some (ret, u1, env1)
         | Some entry \<Rightarrow>
             (let plen = unat (min (payload_len (b_curr buf)) (me_max_msg_len entry));
                  zeros = (if b_data buf ! 0 = STX2 (ll_mav L) then get_trimmed_zeros (ll_mav L) entry buf else 0);
                  msg = data_block_at L (untrimmed plen zeros buf)
              in if logging_start_timeout u1 \<noteq> None \<and> fst msg \<noteq> 0
                 then (let (u2, env2) = binlog_send_stop L u1 env1 in Some (ret, u2, env2))
                 else
                   let (u2, env2) =
                         (if logging_start_timeout u1 \<noteq> None
                          then (let (v, e) = remove_logging_start_timeout u1 env1; (_, v1, e1) = start_alive_timeout v e in (v1, e1))
                          else (u1, env1))
                   in do { (u3, env3) \<leftarrow> binlog_data_process L msg u2 env2; Some (ret, count_logged buf u3, env3) })
     }"

section \<open>TLog\<close>

definition tlog_logging_start_timeout :: "log_ep \<Rightarrow> log_env \<Rightarrow> bool \<times> log_ep \<times> log_env" where
  "tlog_logging_start_timeout u env = (True, u, env)"

definition tlog_start :: "log_ep \<Rightarrow> log_env \<Rightarrow> (bool \<times> log_ep \<times> log_env) option" where
  "tlog_start u env = LogEndpoint_start ''tlog'' u env"

definition tlog_stop :: "log_ep \<Rightarrow> log_env \<Rightarrow> (log_ep \<times> log_env) option" where
  "tlog_stop u env = Some (if lg_file u = -1 then (u, env) else LogEndpoint_stop u env)"

text \<open>\<open>htobe64\<close> and the bytes of the result.\<close>

definition be64 :: "u64 \<Rightarrow> bytes" where
  "be64 t = map (\<lambda>i. ucast (drop_bit (8 * (7 - i)) t)) [0..<8]"

definition tlog_write_msg :: "loglib \<Rightarrow> buffer \<Rightarrow> log_ep \<Rightarrow> log_env \<Rightarrow> (nat \<times> log_ep \<times> log_env) option" where
  "tlog_write_msg L buf u env =
     do {
       (u1, env1) \<leftarrow> handle_auto_start_stop L tlog_start tlog_stop buf (learn_target L buf u) env;
       let stamp = le_usec env1 (fs_tick (le_fs env1));
       let fs1 = snd (fs_write (lg_file u1) (be64 stamp) (le_fs env1));
       let fs2 = snd (fs_write (lg_file u1) (b_data buf) fs1);
       Some (b_len buf, u1, env1\<lparr>le_fs := fs2\<rparr>)
     }"

section \<open>AutoLog\<close>

datatype logger = ULogger ulog | BinLogger binlog

fun logger_id :: "logger \<Rightarrow> nat" where
  "logger_id (ULogger u) = lg_id u"
| "logger_id (BinLogger u) = lg_id u"

record autolog = log_ep +
  al_logger :: "logger option"

definition AutoLog_init :: "nat \<Rightarrow> log_options \<Rightarrow> autolog" where
  "AutoLog_init this conf = log_ep.extend (LogEndpoint_init this conf) (autolog.fields None)"

text \<open>The bytes of a new object are arbitrary.\<close>

definition new_ULog :: "nat \<Rightarrow> world \<Rightarrow> log_options \<Rightarrow> ulog" where
  "new_ULog this w conf = ULog_init this conf (map (w_junk w) [0..<BUFFER_LEN]) (map (w_junk w) [0..<BUFFER_LEN div 2])"

definition logger_write_msg :: "loglib \<Rightarrow> buffer \<Rightarrow> logger \<Rightarrow> log_env \<Rightarrow> (nat \<times> logger \<times> log_env) option" where
  "logger_write_msg L buf l env =
     (case l of
        ULogger u \<Rightarrow> do { (n, u1, env1) \<leftarrow> ulog_write_msg L buf u env; Some (n, ULogger u1, env1) }
      | BinLogger u \<Rightarrow> do { (n, u1, env1) \<leftarrow> binlog_write_msg L buf u env; Some (n, BinLogger u1, env1) })"

definition logger_stop :: "loglib \<Rightarrow> logger \<Rightarrow> log_env \<Rightarrow> (logger \<times> log_env) option" where
  "logger_stop L l env =
     (case l of
        ULogger u \<Rightarrow> do { (u1, env1) \<leftarrow> ulog_stop L u env; Some (ULogger u1, env1) }
      | BinLogger u \<Rightarrow> do { (u1, env1) \<leftarrow> binlog_stop L u env; Some (BinLogger u1, env1) })"

definition autolog_write_msg :: "loglib \<Rightarrow> buffer \<Rightarrow> autolog \<Rightarrow> log_env \<Rightarrow> (nat \<times> autolog \<times> log_env) option" where
  "autolog_write_msg L buf a env =
     (case al_logger a of
        Some l \<Rightarrow> do { (n, l1, env1) \<leftarrow> logger_write_msg L buf l env; Some (n, a\<lparr>al_logger := Some l1\<rparr>, env1) }
      | None \<Rightarrow>
          let a1 = learn_target L buf a; autopilot = heartbeat_autopilot L (payload_at buf)
          in Some (b_len buf,
               if msg_id (b_curr buf) \<noteq> ID_HEARTBEAT L \<or> uint (src_sysid (b_curr buf)) \<noteq> target_system_id a1 then a1
               else if autopilot = AUTOPILOT_PX4 L then a1\<lparr>al_logger := Some (ULogger (new_ULog (lg_id a) (le_os env) (lg_config a1)))\<rparr>
               else if autopilot = AUTOPILOT_ARDUPILOTMEGA L then a1\<lparr>al_logger := Some (BinLogger (BinLog_init (lg_id a) (lg_config a1)))\<rparr>
               else a1, env))"

definition autolog_stop :: "loglib \<Rightarrow> autolog \<Rightarrow> log_env \<Rightarrow> (autolog \<times> log_env) option" where
  "autolog_stop L a env =
     (case al_logger a of
        None \<Rightarrow> Some (a, env)
      | Some l \<Rightarrow> do { (l1, env1) \<leftarrow> logger_stop L l env; Some (a\<lparr>al_logger := Some l1\<rparr>, env1) })"

definition autolog_start :: "autolog \<Rightarrow> log_env \<Rightarrow> bool \<times> autolog \<times> log_env" where
  "autolog_start a env = (True, a, env)"

end
