(* ===== verification/RecorderFacts.thy ===== *)
theory RecorderFacts
  imports Recorders
begin

text \<open>
  Facts about the recorders. A BinLog file holds every block at its place, and no block is
  acknowledged that is not there. The locale \<open>recorder\<close> states what the shared code of
  logendpoint.cpp relies on of the virtual \<open>start\<close> and \<open>stop\<close>; its lemmas about arming and silence
  hold for the three recorders that interpret it.
\<close>

lemma length_put_bytes: "length (put_bytes f off d) = (if d = [] then length f else max (length f) (off + length d))"
  by (auto simp: put_bytes_def memwrite_def max_def min_def)

lemma nth_put_bytes: "i < length f \<Longrightarrow> put_bytes f off d ! i = (if off \<le> i \<and> i < off + length d then d ! (i - off) else f ! i)"
  by (auto simp: put_bytes_def memwrite_def nth_append min_def)

lemma put_bytes_same: "memread (put_bytes f off d) off (length d) = d"
  by (simp add: put_bytes_def memwrite_def memread_def)

lemma put_bytes_other:
  assumes "o' + n \<le> length f" "off + length d \<le> o' \<or> o' + n \<le> off"
  shows "memread (put_bytes f off d) o' n = memread f o' n"
proof -
  have "length f \<le> length (put_bytes f off d)" by (simp add: length_put_bytes)
  then show ?thesis using assms by (intro nth_equalityI) (auto simp: memread_def nth_put_bytes)
qed

text \<open>The block of a number in a file.\<close>

definition block_at :: "nat \<Rightarrow> bytes \<Rightarrow> u32 \<Rightarrow> bytes" where
  "block_at n f s = memread f (unat s * n) n"

lemma block_at_put_same: "length d = n \<Longrightarrow> block_at n (put_bytes f (unat s * n) d) s = d"
  using put_bytes_same [of f "unat s * n" d] by (simp add: block_at_def)

lemma block_at_put_other:
  assumes "length d = n" "length (block_at n f s') = n" "s' \<noteq> s"
  shows "block_at n (put_bytes f (unat s * n) d) s' = block_at n f s'"
proof (cases "n = 0")
  case False
  have "n \<le> length f - unat s' * n" using assms(2) by (simp add: block_at_def memread_def)
  then have l: "unat s' * n + n \<le> length f" using False by linarith
  have "unat s + 1 \<le> unat s' \<or> unat s' + 1 \<le> unat s" using assms(3) by (metis Suc_eq_plus1 not_less_eq_eq le_antisym unsigned_word_eqI)
  then have "(unat s + 1) * n \<le> unat s' * n \<or> (unat s' + 1) * n \<le> unat s * n" by (meson mult_le_mono1)
  then have "unat s * n + length d \<le> unat s' * n \<or> unat s' * n + n \<le> unat s * n" using assms(1) by (simp add: algebra_simps)
  then show ?thesis using put_bytes_other [OF l] by (simp add: block_at_def)
qed (simp add: block_at_def memread_def)

text \<open>A block with a number that does not wrap goes to its place.\<close>

definition open_log :: "int \<Rightarrow> path \<Rightarrow> fsys \<Rightarrow> bool" where
  "open_log fd p fs \<longleftrightarrow> snd p \<noteq> [] \<and> (\<exists>f off. lookup_node fs p = Some (File f) \<and> fs_fds fs fd = Some (p, off))"

lemma fs_lseek_open:
  assumes "open_log fd p fs" "fs_lseek fd off fs = (Inr x, fs1)"
  shows "open_log fd p fs1" "file_bytes fs1 p = file_bytes fs p" "fs_fds fs1 fd = Some (p, off)"
    "fs_err fs1 = fs_err fs" "fs_wr fs1 = fs_wr fs"
proof -
  obtain f o' where f: "lookup_node fs p = Some (File f)" "fs_fds fs fd = Some (p, o')" "snd p \<noteq> []"
    using assms(1) by (auto simp: open_log_def)
  have e: "fs1 = (snd (tick fs))\<lparr>fs_fds := (fs_fds fs)(fd \<mapsto> (p, off))\<rparr>"
    using assms(2) f by (auto simp: fs_lseek_def Let_def case_prod_unfold split: if_splits)
  have l: "lookup_node fs1 = lookup_node fs" unfolding e by (intro lookup_node_cong) simp
  show "open_log fd p fs1" "file_bytes fs1 p = file_bytes fs p" "fs_fds fs1 fd = Some (p, off)"
    using f unfolding open_log_def file_bytes_def l by (simp_all add: e)
  show "fs_err fs1 = fs_err fs" "fs_wr fs1 = fs_wr fs" by (simp_all add: e)
qed

lemma fs_write_open:
  assumes "open_log fd p fs" "fs_fds fs fd = Some (p, off)" "fs_write fd bs fs = (Inr n, fs1)"
  shows "open_log fd p fs1" "file_bytes fs1 p = put_bytes (file_bytes fs p) off (take n bs)" "n = min (fs_wr fs (fs_tick fs)) (length bs)"
proof -
  obtain f where f: "lookup_node fs p = Some (File f)" "snd p \<noteq> []"
    using assms(1) by (auto simp: open_log_def)
  let ?fs = "(snd (tick fs))\<lparr>fs_fds := (fs_fds fs)(fd \<mapsto> (p, off + n))\<rparr>"
  have n: "n = min (fs_wr fs (fs_tick fs)) (length bs)"
    and e: "fs1 = update_node p (File (f\<lparr>f_data := put_bytes (f_data f) off (take n bs)\<rparr>)) ?fs"
    using assms(2,3) f by (auto simp: fs_write_def Let_def case_prod_unfold split: if_splits)
  have "lookup_node ?fs = lookup_node fs" by (intro lookup_node_cong) simp
  then have l: "lookup_node fs1 p = Some (File (f\<lparr>f_data := put_bytes (f_data f) off (take n bs)\<rparr>))"
    using f unfolding e by (simp add: lookup_update_node)
  moreover have "fs_fds fs1 fd = Some (p, off + n)" by (simp add: e update_node_def)
  ultimately show "open_log fd p fs1" "file_bytes fs1 p = put_bytes (file_bytes fs p) off (take n bs)" "n = min (fs_wr fs (fs_tick fs)) (length bs)"
    using f n by (auto simp: open_log_def file_bytes_def)
qed

text \<open>The messages that answer a block.\<close>

definition status_buffer :: "loglib \<Rightarrow> int \<Rightarrow> u32 \<times> u8 \<Rightarrow> buffer" where
  "status_buffer L target = (\<lambda>(seqno, status).
     \<lparr>b_data = encode L (RemoteLogBlockStatus target seqno status),
      b_curr = \<lparr>msg_id = encode_id L (RemoteLogBlockStatus target seqno status), target_sysid = target,
                target_compid = uint (COMP_ID_ALL L), src_sysid = LOG_ENDPOINT_SYSTEM_ID, src_compid = COMP_ID_ALL L,
                payload_len = 0, payload = None\<rparr>\<rparr>)"

definition block_reply :: "loglib \<Rightarrow> u32 \<Rightarrow> u32 \<Rightarrow> (u32 \<times> u8) list" where
  "block_reply L acked s = replicate (unat s - unat acked - 1) (s, BLOCK_NACK L) @ [(s, BLOCK_ACK L)]"

fun block_replies :: "loglib \<Rightarrow> u32 \<Rightarrow> u32 list \<Rightarrow> (u32 \<times> u8) list" where
  "block_replies L acked [] = []"
| "block_replies L acked (s # ss) = block_reply L acked s @ block_replies L (max acked s) ss"

text \<open>Messages handed to the main loop one after the other.\<close>

definition send_all :: "buffer list \<Rightarrow> log_env \<Rightarrow> log_env" where
  "send_all bufs env = env\<lparr>le_ml := fold route_msg bufs (le_ml env), le_routed := le_routed env @ bufs\<rparr>"

lemma send_all_simps [simp]:
  "send_all [] env = env" "send_all bs (send_all as env) = send_all (as @ bs) env"
  "le_fs (send_all bs env) = le_fs env" "le_routed (send_all bs env) = le_routed env @ bs"
  by (simp_all add: send_all_def)

lemma send_status_effect:
  assumes "send_status L s st u env = (u1, env1)"
  shows "env1 = send_all [status_buffer L (target_system_id u) (s, st)] env"
    "lg_file u1 = lg_file u" "target_system_id u1 = target_system_id u" "last_acked_seqno u1 = last_acked_seqno u"
    "lg_config u1 = lg_config u"
  using assms by (auto simp: send_status_def send_msg_def Let_def status_buffer_def send_all_def)

lemma send_nacks_effect:
  assumes "send_nacks L i s u env = (u1, env1)"
  shows "env1 = send_all (map (status_buffer L (target_system_id u)) (replicate (unat s - unat i) (s, BLOCK_NACK L))) env
    \<and> lg_file u1 = lg_file u \<and> target_system_id u1 = target_system_id u \<and> last_acked_seqno u1 = last_acked_seqno u"
  using assms
proof (induction L i s u env rule: send_nacks.induct)
  case (1 L i s u env)
  show ?case
  proof (cases "i < s")
    case True
    obtain u2 env2 where st: "send_status L s (BLOCK_NACK L) u env = (u2, env2)" by (cases "send_status L s (BLOCK_NACK L) u env")
    have "send_nacks L (i + 1) s u2 env2 = (u1, env1)" using 1(2) True st by (simp add: send_nacks.simps [of L i])
    note h = 1(1) [OF True st [symmetric] refl this] and e = send_status_effect [OF st]
    have l: "unat i < unat s" using True by (simp add: word_less_nat_alt)
    then have "unat (i + 1) = unat i + 1"
      using unsigned_less [of s, where ?'a=nat] by (subst unat_add_lem [THEN iffD1]) auto
    then have "unat s - unat i = Suc (unat s - unat (i + 1))" using l by simp
    then show ?thesis using h e by simp
  next
    case False
    then show ?thesis using 1(2) by (simp add: send_nacks.simps [of L i] word_less_nat_alt)
  qed
qed

lemma send_ack_effect:
  assumes "send_ack L s u env = (u1, env1)" "last_acked_seqno u < UINT32_MAX"
  shows "env1 = send_all (map (status_buffer L (target_system_id u)) (block_reply L (last_acked_seqno u) s)) env
    \<and> lg_file u1 = lg_file u \<and> target_system_id u1 = target_system_id u \<and> last_acked_seqno u1 = max (last_acked_seqno u) s"
proof (cases "s < last_acked_seqno u")
  case True
  then have "send_status L s (BLOCK_ACK L) u env = (u1, env1)" using assms(1) by (simp add: send_ack_def)
  note e = send_status_effect [OF this]
  have "unat s - unat (last_acked_seqno u) - 1 = 0" using True by (simp add: word_less_nat_alt)
  moreover have "max (last_acked_seqno u) s = last_acked_seqno u" using True by (simp add: max_absorb1)
  ultimately show ?thesis using e by (simp add: block_reply_def)
next
  case False
  let ?a = "last_acked_seqno u"
  obtain u2 env2 where n: "send_nacks L (?a + 1) s u env = (u2, env2)" by (cases "send_nacks L (?a + 1) s u env")
  obtain u3 env3 where st: "send_status L s (BLOCK_ACK L) u2 env2 = (u3, env3)" by (cases "send_status L s (BLOCK_ACK L) u2 env2")
  have r: "u1 = u3\<lparr>last_acked_seqno := s\<rparr>" "env1 = env3" using assms(1) False n st by (auto simp: send_ack_def)
  have "unat ?a + 1 < 2 ^ 32" using assms(2) by (simp add: word_less_nat_alt)
  then have "unat (?a + 1) = unat ?a + 1" by (subst unat_add_lem [THEN iffD1]) auto
  moreover have "max ?a s = s" using False by (simp add: max_absorb2)
  ultimately show ?thesis using send_nacks_effect [OF n] send_status_effect [OF st] r
    by (simp add: block_reply_def)
qed

text \<open>Whatever was acknowledged last, one acknowledgement is sent, after some negative ones.\<close>

lemma send_ack_any:
  assumes "send_ack L s u env = (u1, env1)"
  shows "\<exists>nacks. env1 = send_all (map (status_buffer L (target_system_id u)) (nacks @ [(s, BLOCK_ACK L)])) env \<and>
    set (map snd nacks) \<subseteq> {BLOCK_NACK L}"
proof (cases "s < last_acked_seqno u")
  case True
  then have "send_status L s (BLOCK_ACK L) u env = (u1, env1)" using assms by (simp add: send_ack_def)
  then show ?thesis using send_status_effect(1) by (intro exI [where x = "[]"]) simp
next
  case False
  obtain u2 env2 where n: "send_nacks L (last_acked_seqno u + 1) s u env = (u2, env2)"
    by (cases "send_nacks L (last_acked_seqno u + 1) s u env")
  obtain u3 env3 where st: "send_status L s (BLOCK_ACK L) u2 env2 = (u3, env3)" by (cases "send_status L s (BLOCK_ACK L) u2 env2")
  have "env1 = env3" using assms False n st by (auto simp: send_ack_def)
  then show ?thesis using send_nacks_effect [OF n] send_status_effect(1) [OF st]
    by (intro exI [where x = "replicate (unat s - unat (last_acked_seqno u + 1)) (s, BLOCK_NACK L)"]) (simp add: set_replicate_conv_if)
qed

lemma block_offset_mod: "block_offset L s = (unat s * BLOCK_DATA_LEN L) mod 2 ^ 32"
  by (simp add: block_offset_def unat_word_ariths unsigned_of_nat take_bit_nat_def mod_mult_right_eq)

lemma block_offset_eq: "unat s * BLOCK_DATA_LEN L < 2 ^ 32 \<Longrightarrow> BLOCK_DATA_LEN L < 2 ^ 32 \<Longrightarrow> block_offset L s = unat s * BLOCK_DATA_LEN L"
  by (simp add: block_offset_def unat_word_ariths take_bit_nat_def unsigned_of_nat)

text \<open>What becomes of a block: it is written and answered, or it is not answered.\<close>

lemma binlog_data_process_cases:
  assumes "open_log (lg_file u) p (le_fs env)" "length d = BLOCK_DATA_LEN L"
    "binlog_data_process L (s, d) u env = Some (u1, env1)"
  obtains (stored) nacks where "file_bytes (le_fs env1) p = put_bytes (file_bytes (le_fs env) p) (block_offset L s) d"
      "le_routed env1 = le_routed env @ map (status_buffer L (target_system_id u)) (nacks @ [(s, BLOCK_ACK L)])"
      "set (map snd nacks) \<subseteq> {BLOCK_NACK L}"
  | (silent) "le_routed env1 = le_routed env"
  | (restart) fs1 where "binlog_restart L u (env\<lparr>le_fs := fs1\<rparr>) = Some (u1, env1)"
proof -
  obtain r1 fs1 where k: "fs_lseek (lg_file u) (block_offset L s) (le_fs env) = (r1, fs1)"
    by (cases "fs_lseek (lg_file u) (block_offset L s) (le_fs env)")
  obtain r2 fs2 where w: "fs_write (lg_file u) d fs1 = (r2, fs2)" by (cases "fs_write (lg_file u) d fs1")
  note run = assms(3) [unfolded binlog_data_process_def, simplified, unfolded k, simplified, simplified assms(2) w, simplified]
  show ?thesis
  proof (cases r1)
    case (Inl e)
    then show ?thesis using run restart by simp
  next
    case r1: (Inr x)
    note o = fs_lseek_open [OF assms(1) k [unfolded r1]]
    show ?thesis
    proof (cases r2)
      case (Inl e)
      then show ?thesis using run r1 w assms(2) silent restart by (auto split: if_splits)
    next
      case r2: (Inr n)
      note wr = fs_write_open [OF o(1,3) w [unfolded r2]]
      show ?thesis
      proof (cases "n = BLOCK_DATA_LEN L")
        case False
        then show ?thesis using run r1 r2 w assms(2) silent by auto
      next
        case True
        then have a: "send_ack L s u (env\<lparr>le_fs := fs2\<rparr>) = (u1, env1)" using run r1 r2 w assms(2) by simp
        obtain nacks where n: "env1 = send_all (map (status_buffer L (target_system_id u)) (nacks @ [(s, BLOCK_ACK L)])) (env\<lparr>le_fs := fs2\<rparr>)"
          "set (map snd nacks) \<subseteq> {BLOCK_NACK L}" using send_ack_any [OF a] by blast
        show ?thesis using n wr o(2) True assms(2) by (intro stored [of nacks]) simp_all
      qed
    qed
  qed
qed

text \<open>Nothing fails and a block is written whole.\<close>

definition writes_whole :: "nat \<Rightarrow> fsys \<Rightarrow> bool" where
  "writes_whole n fs \<longleftrightarrow> (\<forall>k. fs_err fs k = 0 \<and> fs_wr fs k \<ge> n)"

fun record_blocks :: "loglib \<Rightarrow> (u32 \<times> bytes) list \<Rightarrow> binlog \<Rightarrow> log_env \<Rightarrow> (binlog \<times> log_env) option" where
  "record_blocks L [] u env = Some (u, env)"
| "record_blocks L (b # bs) u env = do { (u1, env1) \<leftarrow> binlog_data_process L b u env; record_blocks L bs u1 env1 }"

definition block_ok :: "loglib \<Rightarrow> u32 \<times> bytes \<Rightarrow> bool" where
  "block_ok L b \<longleftrightarrow> length (snd b) = BLOCK_DATA_LEN L \<and> unat (fst b) * BLOCK_DATA_LEN L < 2 ^ 32 \<and> fst b < UINT32_MAX"

lemma binlog_data_process_stores:
  assumes o: "open_log (lg_file u) p (le_fs env)" and a: "last_acked_seqno u < UINT32_MAX" and l: "length d = BLOCK_DATA_LEN L"
    and w: "writes_whole (BLOCK_DATA_LEN L) (le_fs env)"
  shows "\<exists>u1 env1. binlog_data_process L (s, d) u env = Some (u1, env1)
    \<and> file_bytes (le_fs env1) p = put_bytes (file_bytes (le_fs env) p) (block_offset L s) d
    \<and> le_routed env1 = le_routed env @ map (status_buffer L (target_system_id u)) (block_reply L (last_acked_seqno u) s)
    \<and> last_acked_seqno u1 = max (last_acked_seqno u) s \<and> target_system_id u1 = target_system_id u
    \<and> open_log (lg_file u1) p (le_fs env1) \<and> writes_whole (BLOCK_DATA_LEN L) (le_fs env1)"
proof -
  obtain off where fd: "fs_fds (le_fs env) (lg_file u) = Some (p, off)" using o by (auto simp: open_log_def)
  obtain fs1 where k: "fs_lseek (lg_file u) (block_offset L s) (le_fs env) = (Inr (), fs1)"
    using w fd by (simp add: fs_lseek_def Let_def case_prod_unfold writes_whole_def)
  note o1 = fs_lseek_open [OF o k]
  obtain n fs2 where wr: "fs_write (lg_file u) d fs1 = (Inr n, fs2)"
    using w o1(3-5) by (simp add: fs_write_def Let_def case_prod_unfold writes_whole_def)
  note o2 = fs_write_open [OF o1(1,3) wr]
  have n: "n = BLOCK_DATA_LEN L" using o2(3) w l o1(5) by (simp add: writes_whole_def min_absorb2)
  obtain u1 env1 where ack: "send_ack L s u (env\<lparr>le_fs := fs2\<rparr>) = (u1, env1)" by (cases "send_ack L s u (env\<lparr>le_fs := fs2\<rparr>)")
  note e = send_ack_effect [OF ack a]
  have "writes_whole (BLOCK_DATA_LEN L) fs2" using w o1(4,5) fs_write_oracles [OF wr] by (simp add: writes_whole_def)
  then show ?thesis using e o2(1,2) o1(2) n l k wr ack by (simp add: binlog_data_process_def)
qed

lemma record_blocks_stores:
  assumes "open_log (lg_file u) p (le_fs env)" "last_acked_seqno u < UINT32_MAX" "list_all (block_ok L) bs" "BLOCK_DATA_LEN L < 2 ^ 32"
    and "writes_whole (BLOCK_DATA_LEN L) (le_fs env)"
  shows "\<exists>u1 env1. record_blocks L bs u env = Some (u1, env1)
    \<and> (\<forall>s d. map_of (rev bs) s = Some d \<or> (map_of (rev bs) s = None \<and> length d = BLOCK_DATA_LEN L \<and> block_at (BLOCK_DATA_LEN L) (file_bytes (le_fs env) p) s = d)
         \<longrightarrow> block_at (BLOCK_DATA_LEN L) (file_bytes (le_fs env1) p) s = d)
    \<and> le_routed env1 = le_routed env @ map (status_buffer L (target_system_id u)) (block_replies L (last_acked_seqno u) (map fst bs))"
  using assms
proof (induction bs arbitrary: u env)
  case (Cons b bs)
  let ?n = "BLOCK_DATA_LEN L"
  obtain s d where b: "b = (s, d)" by (cases b)
  have ok: "length d = ?n" "unat s * ?n < 2 ^ 32" "s < UINT32_MAX" using Cons.prems(3) by (simp_all add: b block_ok_def)
  from binlog_data_process_stores [OF Cons.prems(1,2) ok(1) Cons.prems(5), of s] obtain u1 env1 where
    p: "binlog_data_process L (s, d) u env = Some (u1, env1)"
      "file_bytes (le_fs env1) p = put_bytes (file_bytes (le_fs env) p) (unat s * ?n) d"
      "le_routed env1 = le_routed env @ map (status_buffer L (target_system_id u)) (block_reply L (last_acked_seqno u) s)"
      "last_acked_seqno u1 = max (last_acked_seqno u) s" "target_system_id u1 = target_system_id u"
      "open_log (lg_file u1) p (le_fs env1)" "writes_whole ?n (le_fs env1)"
    using block_offset_eq [OF ok(2) Cons.prems(4)] by auto
  have "last_acked_seqno u1 < UINT32_MAX" using p(4) Cons.prems(2) ok(3) by (simp add: max_def)
  from Cons.IH [OF p(6) this _ Cons.prems(4) p(7)] Cons.prems(3) obtain u2 env2 where
    q: "record_blocks L bs u1 env1 = Some (u2, env2)"
      "\<And>s' d'. map_of (rev bs) s' = Some d' \<or> (map_of (rev bs) s' = None \<and> length d' = ?n \<and> block_at ?n (file_bytes (le_fs env1) p) s' = d')
         \<Longrightarrow> block_at ?n (file_bytes (le_fs env2) p) s' = d'"
      "le_routed env2 = le_routed env1 @ map (status_buffer L (target_system_id u1)) (block_replies L (last_acked_seqno u1) (map fst bs))"
    by auto
  have "block_at ?n (file_bytes (le_fs env2) p) s' = d'"
    if "map_of (rev (b # bs)) s' = Some d' \<or> (map_of (rev (b # bs)) s' = None \<and> length d' = ?n \<and> block_at ?n (file_bytes (le_fs env) p) s' = d')" for s' d'
  proof (cases "map_of (rev bs) s'")
    case (Some x)
    then show ?thesis using that q(2) by (auto simp: map_add_def)
  next
    case None
    show ?thesis
    proof (cases "s' = s")
      case True
      then have "d' = d" using that None by (auto simp: b map_add_def)
      then show ?thesis using q(2) [of s' d'] None True ok(1) block_at_put_same [OF ok(1)] p(2) by simp
    next
      case False
      then have "length d' = ?n" "block_at ?n (file_bytes (le_fs env) p) s' = d'" using that None by (auto simp: b map_add_def)
      then show ?thesis using q(2) [of s' d'] None False block_at_put_other [OF ok(1), of _ s' s] p(2) by simp
    qed
  qed
  then show ?case using p(1,3,4,5) q(1,3) by (auto simp: b)
qed simp

lemma binlog_start_ok:
  assumes "binlog_start u env = Some (True, u1, env1)"
  shows "open_log (lg_file u1) (log_file u1) (le_fs env1) \<and> file_bytes (le_fs env1) (log_file u1) = [] \<and> last_acked_seqno u1 = 0"
proof -
  obtain ok v e where l: "LogEndpoint_start ''bin'' u env = Some (ok, v, e)"
    using assms(1) by (cases "LogEndpoint_start ''bin'' u env") (auto simp: binlog_start_def)
  have s: "LogEndpoint_start ''bin'' u env = Some (True, v, env1)" and v: "u1 = v\<lparr>last_acked_seqno := 0\<rparr>"
    using assms(1) l by (auto simp: binlog_start_def)
  note l = LogEndpoint_start_ok [OF s]
  have f: "log_file u1 = log_file v" by (simp add: v log_file_def)
  have "snd (log_file v) \<noteq> []" by (simp add: log_file_def)
  then show ?thesis using l(1,2) by (simp add: open_log_def file_bytes_def f) (simp add: v)
qed

lemma get_file_routed: "get_file ext ep env = Some (r, ep1, env1) \<Longrightarrow> le_routed env1 = le_routed env"
proof -
  assume g: "get_file ext ep env = Some (r, ep1, env1)"
  then obtain x fs1 where o: "open_or_create_dir (logs_dir (lg_config ep)) (le_fs env) = Some (x, fs1)"
    by (auto simp: get_file_def bind_eq_Some_conv Let_def)
  then show ?thesis using g by (cases x) (auto simp: get_file_def Let_def case_prod_unfold)
qed

lemma drop_timeout_routed [simp]: "le_routed (drop_timeout t env) = le_routed env"
  by (simp add: drop_timeout_def split: option.split)

lemma LogEndpoint_start_routed:
  "LogEndpoint_start ext ep env = Some (ok, ep1, env1) \<Longrightarrow> le_routed env1 = le_routed env"
  by (auto simp: LogEndpoint_start_def Let_def bind_eq_Some_conv case_prod_unfold close_log_def split: if_splits dest!: get_file_routed)

lemma LogEndpoint_stop_routed [simp]: "le_routed (snd (LogEndpoint_stop ep env)) = le_routed env"
  by (simp add: LogEndpoint_stop_def Let_def)

lemma binlog_restart_routed:
  assumes "binlog_restart L u env = Some (u1, env1)"
  shows "le_routed env1 = le_routed env \<or> le_routed env1 = le_routed env @ [status_buffer L (target_system_id u) (BLOCK_STOP L, 1)]"
proof -
  obtain v e where st: "binlog_stop L u env = Some (v, e)" using assms by (auto simp: binlog_restart_def bind_eq_Some_conv)
  obtain ok where sa: "binlog_start v e = Some (ok, u1, env1)" using assms st by (auto simp: binlog_restart_def bind_eq_Some_conv)
  then have "le_routed env1 = le_routed e"
    by (auto simp: binlog_start_def bind_eq_Some_conv dest: LogEndpoint_start_routed)
  moreover obtain u2 e2 where se: "binlog_send_stop L u env = (u2, e2)" by (cases "binlog_send_stop L u env")
  have "le_routed e2 = le_routed env @ [status_buffer L (target_system_id u) (BLOCK_STOP L, 1)]"
    using send_status_effect(1) [OF se [unfolded binlog_send_stop_def]] by simp
  moreover have "e = env \<or> e = snd (LogEndpoint_stop u2 e2)"
    using st se by (auto simp: binlog_stop_def split: if_splits)
  ultimately show ?thesis by auto
qed

text \<open>The acknowledgements among the answers.\<close>

lemma block_reply_acks:
  assumes "BLOCK_ACK L \<noteq> BLOCK_NACK L"
  shows "map fst (filter (\<lambda>r. snd r = BLOCK_ACK L) (block_reply L a s)) = [s]"
  using assms by (simp add: block_reply_def filter_replicate)

lemma block_replies_acks:
  assumes "BLOCK_ACK L \<noteq> BLOCK_NACK L"
  shows "map fst (filter (\<lambda>r. snd r = BLOCK_ACK L) (block_replies L a ss)) = ss"
  by (induction ss arbitrary: a) (simp_all add: block_reply_acks [OF assms])

text \<open>C15: the BinLog recorder assembles the log. After a start, when no call of the file system
  fails or writes less than a block, and for blocks whose place in the file is below 2^32 bytes, the
  range of the 32-bit product in the code: whatever blocks arrive in whatever order and however
  often, they are all handled, the file holds at the place of each number the block received last
  under it, and the numbers acknowledged are those received, in this order.\<close>

theorem binlog_assembles_blocks:
  assumes "binlog_start u env = Some (True, u0, env0)" "writes_whole (BLOCK_DATA_LEN L) (le_fs env0)"
    "list_all (block_ok L) bs" "BLOCK_DATA_LEN L < 2 ^ 32" "BLOCK_ACK L \<noteq> BLOCK_NACK L"
  shows "\<exists>u1 env1 reps. record_blocks L bs u0 env0 = Some (u1, env1)
    \<and> (\<forall>s d. map_of (rev bs) s = Some d \<longrightarrow> block_at (BLOCK_DATA_LEN L) (file_bytes (le_fs env1) (log_file u0)) s = d)
    \<and> le_routed env1 = le_routed env0 @ map (status_buffer L (target_system_id u0)) reps
    \<and> map fst (filter (\<lambda>r. snd r = BLOCK_ACK L) reps) = map fst bs"
  using record_blocks_stores [of u0 "log_file u0" env0 L bs] binlog_start_ok [OF assms(1)] assms(2-4)
    block_replies_acks [OF assms(5), of 0 "map fst bs"] by fastforce

text \<open>C20: an acknowledgement is sent only for what was written. Whatever calls fail, however few
  bytes the kernel takes and whatever was acknowledged before, when an open log handles a block and
  the call returns, either the file holds the block at the offset number times length, computed
  modulo 2^32 as the code does, and its number is acknowledged, after negative acknowledgements, or
  nothing is sent, or the log was restarted with nothing sent but the request to stop. For numbers
  whose product does not fit into 32 bits the offset is not the place of the block in the log.\<close>

theorem binlog_acks_only_stored_blocks:
  assumes "open_log (lg_file u) p (le_fs env)" "length d = BLOCK_DATA_LEN L"
    "binlog_data_process L (s, d) u env = Some (u1, env1)"
  shows "(take (BLOCK_DATA_LEN L) (drop ((unat s * BLOCK_DATA_LEN L) mod 2 ^ 32) (file_bytes (le_fs env1) p)) = d
      \<and> (\<exists>nacks. set (map snd nacks) \<subseteq> {BLOCK_NACK L}
           \<and> le_routed env1 = le_routed env @ map (status_buffer L (target_system_id u)) (nacks @ [(s, BLOCK_ACK L)])))
    \<or> le_routed env1 = le_routed env
    \<or> le_routed env1 = le_routed env @ [status_buffer L (target_system_id u) (BLOCK_STOP L, 1)]"
  using assms
proof (cases rule: binlog_data_process_cases)
  case (stored nacks)
  then have "take (BLOCK_DATA_LEN L) (drop ((unat s * BLOCK_DATA_LEN L) mod 2 ^ 32) (file_bytes (le_fs env1) p)) = d"
    using put_bytes_same [of "file_bytes (le_fs env) p" "block_offset L s" d] assms(2)
    by (simp only: block_offset_mod memread_def)
  with stored show ?thesis by blast
next
  case (restart fs1)
  then show ?thesis using binlog_restart_routed [OF restart] by simp
qed simp

definition ex_loglib :: loglib where
  "ex_loglib =
     \<lparr>ll_mav = ex_mavlib, ID_HEARTBEAT = 0, ID_COMMAND_ACK = 77, ID_LOGGING_DATA = 266, ID_LOGGING_DATA_ACKED = 267,
      ID_REMOTE_LOG_DATA_BLOCK = 184, COMP_ID_ALL = 0, COMP_ID_AUTOPILOT1 = 1, CMD_LOGGING_START = 2510, CMD_LOGGING_STOP = 2511,
      RESULT_ACCEPTED = 0, SAFETY_ARMED = 128, AUTOPILOT_PX4 = 12, AUTOPILOT_ARDUPILOTMEGA = 3, BLOCK_START = 2147483646,
      BLOCK_STOP = 2147483645, BLOCK_ACK = 1, BLOCK_NACK = 0, BLOCK_DATA_LEN = 4, encode = (\<lambda>_. [254, 0]), encode_id = (\<lambda>_. 0),
      heartbeat_base_mode = (\<lambda>d. d ! 6), heartbeat_autopilot = (\<lambda>d. d ! 5), command_ack_at = (\<lambda>_. (0, 0)),
      logging_data_at = (\<lambda>_. hd ex_pieces), data_block_at = (\<lambda>d. (0, take 4 d))\<rparr>"

definition ex_binlog :: binlog where
  "ex_binlog = BinLog_init 0 (ex_log_options\<lparr>max_log_files := 0\<rparr>)"

definition ex_blocks :: "(u32 \<times> bytes) list" where
  "ex_blocks = [(2, [1, 1, 1, 1]), (0, [2, 2, 2, 2]), (2, [3, 3, 3, 3])]"

lemma ex_binlog_start:
  "\<exists>u1 env1. binlog_start ex_binlog ex_log_env = Some (True, u1, env1) \<and> writes_whole (BLOCK_DATA_LEN ex_loglib) (le_fs env1)"
proof -
  have "lg_file ex_binlog = -1" "lg_config ex_binlog = ex_log_options\<lparr>max_log_files := 0\<rparr>"
    by (simp_all add: ex_binlog_def BinLog_init_def LogEndpoint_init_def log_ep.extend_def)
  from ex_LogEndpoint_start [OF this, of "''bin''"] show ?thesis
    by (auto simp: binlog_start_def writes_whole_def ex_loglib_def)
qed

lemma ex_blocks_ok: "list_all (block_ok ex_loglib) ex_blocks" "BLOCK_DATA_LEN ex_loglib = 4"
  by (simp_all add: ex_blocks_def block_ok_def ex_loglib_def word_less_nat_alt)

lemma binlog_assembles_blocks_witness:
  "\<exists>u0 env0 u1 env1. binlog_start ex_binlog ex_log_env = Some (True, u0, env0) \<and> record_blocks ex_loglib ex_blocks u0 env0 = Some (u1, env1)
     \<and> block_at 4 (file_bytes (le_fs env1) (log_file u0)) 0 = [2, 2, 2, 2] \<and> block_at 4 (file_bytes (le_fs env1) (log_file u0)) 2 = [3, 3, 3, 3]"
proof -
  obtain u0 env0 where s: "binlog_start ex_binlog ex_log_env = Some (True, u0, env0)" "writes_whole (BLOCK_DATA_LEN ex_loglib) (le_fs env0)"
    using ex_binlog_start by blast
  have "map_of (rev ex_blocks) 0 = Some [2, 2, 2, 2]" "map_of (rev ex_blocks) 2 = Some [3, 3, 3, 3]" by (simp_all add: ex_blocks_def)
  moreover have "BLOCK_ACK ex_loglib \<noteq> BLOCK_NACK ex_loglib" by (simp add: ex_loglib_def)
  ultimately show ?thesis using binlog_assembles_blocks [OF s ex_blocks_ok(1)] s(1) unfolding ex_blocks_ok(2) by auto
qed

lemma binlog_acks_only_stored_blocks_witness:
  "\<exists>u0 env0 u1 env1. binlog_start ex_binlog ex_log_env = Some (True, u0, env0)
     \<and> binlog_data_process ex_loglib (2, [1, 1, 1, 1]) u0 env0 = Some (u1, env1)
     \<and> (take 4 (drop 8 (file_bytes (le_fs env1) (log_file u0))) = [1, 1, 1, 1] \<or> length (le_routed env1) \<le> 1)"
proof -
  obtain u0 env0 where s: "binlog_start ex_binlog ex_log_env = Some (True, u0, env0)" "writes_whole (BLOCK_DATA_LEN ex_loglib) (le_fs env0)"
    using ex_binlog_start by blast
  note o = binlog_start_ok [OF s(1)]
  have l: "length [1, 1, 1, 1 :: u8] = BLOCK_DATA_LEN ex_loglib" by (simp add: ex_loglib_def)
  from binlog_data_process_stores [OF _ _ this s(2), where p = "log_file u0" and s = 2 and u = u0] o
  obtain u1 env1 where p: "binlog_data_process ex_loglib (2, [1, 1, 1, 1]) u0 env0 = Some (u1, env1)" by (auto simp: word_less_nat_alt)
  have r: "le_routed env0 = []" using LogEndpoint_start_routed s(1) by (fastforce simp: binlog_start_def bind_eq_Some_conv ex_log_env_def)
  from binlog_acks_only_stored_blocks [OF _ l p, where p = "log_file u0"] o s(1) p r show ?thesis
    by (auto simp: ex_blocks_ok(2))
qed

text \<open>What the shared code relies on of the virtual \<open>start\<close> and \<open>stop\<close> of a recorder.\<close>

definition new_log :: "('a) log_ep_scheme \<Rightarrow> log_env \<Rightarrow> bool" where
  "new_log ep env \<longleftrightarrow> 0 \<le> lg_file ep \<and> lookup_node (le_fs env) (log_file ep) = Some (File \<lparr>f_data = [], f_mode = 0x1A4\<rparr>)
     \<and> fs_fds (le_fs env) (lg_file ep) = Some (log_file ep, 0)"

definition no_log :: "('a) log_ep_scheme \<Rightarrow> bool" where
  "no_log ep \<longleftrightarrow> lg_file ep = -1"

locale recorder =
  fixes start :: "('a) log_ep_scheme starter" and stop :: "('a) log_ep_scheme stopper"
  assumes start_new: "start ep env = Some (True, ep1, env1) \<Longrightarrow> new_log ep1 env1"
    and start_fails: "no_log ep \<Longrightarrow> start ep env = Some (False, ep1, env1) \<Longrightarrow> no_log ep1"
    and stop_closes: "stop ep env = Some (ep1, env1) \<Longrightarrow> no_log ep1"
begin

lemma start_or_disable_result:
  assumes "no_log ep" "start_or_disable start ep env = Some (ep1, env1)"
  shows "new_log ep1 env1 \<or> (no_log ep1 \<and> lo_mode (lg_config ep1) = disabled)"
proof -
  obtain ok ep2 env2 where s: "start ep env = Some (ok, ep2, env2)"
    using assms(2) by (auto simp: start_or_disable_def bind_eq_Some_conv)
  show ?thesis
  proof (cases ok)
    case True
    then show ?thesis using s assms(2) start_new by (auto simp: start_or_disable_def)
  next
    case False
    then have "no_log ep2" using s assms(1) start_fails by simp
    then show ?thesis using s False assms(2) by (auto simp: start_or_disable_def no_log_def)
  qed
qed

lemma follows_arming:
  assumes "lo_mode (lg_config ep) = while_armed" "msg_id (b_curr buf) = ID_HEARTBEAT L" "target_system_id ep = uint (src_sysid (b_curr buf))"
    "src_compid (b_curr buf) = COMP_ID_AUTOPILOT1 L" "handle_auto_start_stop L start stop buf ep env = Some (ep1, env1)"
  shows "if heartbeat_base_mode L (payload_at buf) AND SAFETY_ARMED L = 0 then no_log ep1
    else if no_log ep then new_log ep1 env1 \<or> (no_log ep1 \<and> lo_mode (lg_config ep1) = disabled) else ep1 = ep \<and> env1 = env"
proof -
  have "target_system_id ep \<noteq> -1" using assms(3) uint_nonnegative [of "src_sysid (b_curr buf)"] by linarith
  then show ?thesis using assms start_or_disable_result stop_closes
    by (auto simp: handle_auto_start_stop_def no_log_def Let_def split: if_splits)
qed

lemma always_records:
  assumes "lo_mode (lg_config ep) = always" "target_system_id ep \<noteq> -1" "no_log ep" "handle_auto_start_stop L start stop buf ep env = Some (ep1, env1)"
  shows "new_log ep1 env1 \<or> (no_log ep1 \<and> lo_mode (lg_config ep1) = disabled)"
  using assms start_or_disable_result by (auto simp: handle_auto_start_stop_def no_log_def)

lemma silence_starts_new_log:
  assumes "timeout_write_total ep = ws_total (lg_write ep)" "alive_timeout_cb start stop ep env = Some (b, ep1, env1)"
  shows "b \<and> (new_log ep1 env1 \<or> no_log ep1)"
proof -
  obtain ep2 env2 where s: "stop ep env = Some (ep2, env2)" using assms by (auto simp: alive_timeout_cb_def bind_eq_Some_conv)
  obtain ok ep3 env3 where t: "start ep2 env2 = Some (ok, ep3, env3)" using assms s by (auto simp: alive_timeout_cb_def bind_eq_Some_conv)
  have "new_log ep3 env3 \<or> no_log ep3" using start_new start_fails [OF stop_closes [OF s]] t by (cases ok) auto
  moreover have "b" "env1 = env3" "ep1 = ep3\<lparr>timeout_write_total := ws_total (lg_write ep3)\<rparr>"
    using assms s t by (auto simp: alive_timeout_cb_def)
  ultimately show ?thesis by (simp add: new_log_def no_log_def log_file_def)
qed

end

lemma LogEndpoint_start_new: "LogEndpoint_start ext ep env = Some (True, ep1, env1) \<Longrightarrow> new_log ep1 env1"
  using LogEndpoint_start_ok [of ext ep env ep1 env1] by (simp add: new_log_def)

lemma LogEndpoint_start_fails: "no_log ep \<Longrightarrow> LogEndpoint_start ext ep env = Some (False, ep1, env1) \<Longrightarrow> no_log ep1"
  by (auto simp: LogEndpoint_start_def Let_def bind_eq_Some_conv case_prod_unfold close_log_def no_log_def split: if_splits)

lemma LogEndpoint_stop_no_log: "LogEndpoint_stop ep env = (ep1, env1) \<Longrightarrow> no_log ep1"
  by (auto simp: LogEndpoint_stop_def Let_def no_log_def)

lemma start_fields:
  "new_log (u\<lparr>waiting_header := a, waiting_first_msg_offset := b, ul_expected_seq := c, buffer_len := d, buffer_index := e, buffer_partial_len := f\<rparr>) env = new_log u env"
  "new_log (v\<lparr>last_acked_seqno := g\<rparr>) env = new_log v env"
  by (simp_all add: new_log_def log_file_def)

lemma ulog_start_base:
  assumes "ulog_start u env = Some (ok, u1, env1)"
  obtains v where "LogEndpoint_start ''ulg'' u env = Some (ok, v, env1)" "ok \<Longrightarrow> new_log u1 env1 = new_log v env1" "\<not> ok \<Longrightarrow> u1 = v"
proof -
  obtain ok' v e where l: "LogEndpoint_start ''ulg'' u env = Some (ok', v, e)"
    using assms by (cases "LogEndpoint_start ''ulg'' u env") (auto simp: ulog_start_def)
  then show thesis using that [of v] assms by (cases ok') (auto simp: ulog_start_def start_fields)
qed

interpretation ulg: recorder ulog_start "ulog_stop L"
proof
  fix ep env ep1 env1
  show "new_log ep1 env1" if "ulog_start ep env = Some (True, ep1, env1)"
    using that LogEndpoint_start_new by (elim ulog_start_base) simp
  show "no_log ep1" if "no_log ep" "ulog_start ep env = Some (False, ep1, env1)"
    using that LogEndpoint_start_fails by (elim ulog_start_base) simp
  show "no_log ep1" if "ulog_stop L ep env = Some (ep1, env1)"
    using that LogEndpoint_stop_no_log by (auto simp: ulog_stop_def no_log_def bind_eq_Some_conv case_prod_unfold Let_def split: if_splits)
qed

interpretation blg: recorder binlog_start "binlog_stop L"
proof
  fix ep env ep1 env1
  show "new_log ep1 env1" if "binlog_start ep env = Some (True, ep1, env1)"
    using that LogEndpoint_start_new by (auto simp: binlog_start_def bind_eq_Some_conv start_fields split: if_splits)
  show "no_log ep1" if "no_log ep" "binlog_start ep env = Some (False, ep1, env1)"
    using that LogEndpoint_start_fails by (auto simp: binlog_start_def bind_eq_Some_conv split: if_splits)
  show "no_log ep1" if "binlog_stop L ep env = Some (ep1, env1)"
    using that LogEndpoint_stop_no_log by (auto simp: binlog_stop_def no_log_def case_prod_unfold Let_def split: if_splits)
qed

interpretation tlg: recorder tlog_start tlog_stop
proof
  fix ep env ep1 env1
  show "new_log ep1 env1" if "tlog_start ep env = Some (True, ep1, env1)"
    using that LogEndpoint_start_new by (simp add: tlog_start_def)
  show "no_log ep1" if "no_log ep" "tlog_start ep env = Some (False, ep1, env1)"
    using that LogEndpoint_start_fails by (simp add: tlog_start_def)
  show "no_log ep1" if "tlog_stop ep env = Some (ep1, env1)"
    using that LogEndpoint_stop_no_log by (auto simp: tlog_stop_def no_log_def split: if_splits)
qed

text \<open>Telemetry.\<close>

lemma tlog_appends_packet:
  assumes "recording (lg_file u) p (le_fs env)" "lo_mode (lg_config u) = always" "lg_file u \<noteq> -1" "writes_complete (le_fs env)"
    "b_len buf \<le> BUFFER_LEN"
  shows "\<exists>u1 env1. tlog_write_msg L buf u env = Some (b_len buf, u1, env1) \<and> recording (lg_file u1) p (le_fs env1) \<and> writes_complete (le_fs env1)
    \<and> file_bytes (le_fs env1) p = file_bytes (le_fs env) p @ be64 (le_usec env (fs_tick (le_fs env))) @ b_data buf"
proof -
  let ?u = "learn_target L buf u" and ?t = "be64 (le_usec env (fs_tick (le_fs env)))"
  have u: "lg_file ?u = lg_file u" "lg_config ?u = lg_config u" by (simp_all add: learn_target_def)
  then have h: "handle_auto_start_stop L tlog_start tlog_stop buf ?u env = Some (?u, env)"
    using assms(2,3) by (simp add: handle_auto_start_stop_def)
  obtain r1 fs1 where w1: "fs_write (lg_file u) ?t (le_fs env) = (r1, fs1)" by (cases "fs_write (lg_file u) ?t (le_fs env)")
  have "length ?t \<le> BUFFER_LEN" by (simp add: be64_def)
  note c1 = fs_write_complete [OF assms(4,1) this w1] and k1 = fs_write_recording [OF assms(1) w1]
  obtain r2 fs2 where w2: "fs_write (lg_file u) (b_data buf) fs1 = (r2, fs2)" by (cases "fs_write (lg_file u) (b_data buf) fs1")
  have "length (b_data buf) \<le> BUFFER_LEN" using assms(5) by simp
  note c2 = fs_write_complete [OF c1(2) k1(1) this w2] and k2 = fs_write_recording [OF k1(1) w2]
  have "tlog_write_msg L buf u env = Some (b_len buf, ?u, env\<lparr>le_fs := fs2\<rparr>)"
    by (simp add: tlog_write_msg_def h u w1 w2)
  then show ?thesis using c1 c2 k1 k2 u by simp
qed

definition arming_result :: "loglib \<Rightarrow> buffer \<Rightarrow> ('a) log_ep_scheme \<Rightarrow> log_env \<Rightarrow> ('a) log_ep_scheme \<Rightarrow> log_env \<Rightarrow> bool" where
  "arming_result L buf ep env ep1 env1 \<longleftrightarrow>
     (if heartbeat_base_mode L (payload_at buf) AND SAFETY_ARMED L = 0 then no_log ep1
      else if no_log ep then new_log ep1 env1 \<or> (no_log ep1 \<and> lo_mode (lg_config ep1) = disabled)
      else ep1 = ep \<and> env1 = env)"

text \<open>C21: in the mode \<open>while-armed\<close> every recorder follows the vehicle: after a heartbeat of its autopilot
  that says disarmed no log is open; after one that says armed a log that was open is untouched, and
  otherwise a new, empty log is open or, when it could not be started, the recorder is disabled.\<close>

theorem recording_follows_arming:
  assumes "msg_id (b_curr buf) = ID_HEARTBEAT L" "src_compid (b_curr buf) = COMP_ID_AUTOPILOT1 L"
  shows "(lo_mode (lg_config u) = while_armed \<and> target_system_id u = uint (src_sysid (b_curr buf))
      \<and> handle_auto_start_stop L ulog_start (ulog_stop L) buf u env = Some (u1, env1) \<longrightarrow> arming_result L buf u env u1 env1)
    \<and> (lo_mode (lg_config b) = while_armed \<and> target_system_id b = uint (src_sysid (b_curr buf))
      \<and> handle_auto_start_stop L binlog_start (binlog_stop L) buf b env = Some (b1, env2) \<longrightarrow> arming_result L buf b env b1 env2)
    \<and> (lo_mode (lg_config t) = while_armed \<and> target_system_id t = uint (src_sysid (b_curr buf))
      \<and> handle_auto_start_stop L tlog_start tlog_stop buf t env = Some (t1, env3) \<longrightarrow> arming_result L buf t env t1 env3)"
  unfolding arming_result_def
  using ulg.follows_arming [OF _ assms(1) _ assms(2)] blg.follows_arming [OF _ assms(1) _ assms(2)] tlg.follows_arming [OF _ assms(1) _ assms(2)]
  by blast

definition ex_disarmed :: buffer where
  "ex_disarmed = \<lparr>b_data = [0, 0, 0, 0, 2, 12, 1], b_curr = \<lparr>msg_id = 0, target_sysid = -1, target_compid = -1, src_sysid = 1, src_compid = 1,
     payload_len = 7, payload = Some 0\<rparr>\<rparr>"

definition ex_open_ulog :: ulog where
  "ex_open_ulog = ex_ulog\<lparr>target_system_id := 1, lg_file := 5, lg_config := ex_log_options\<lparr>lo_mode := while_armed\<rparr>\<rparr>"

lemma recording_follows_arming_witness:
  "\<exists>u1 env1. handle_auto_start_stop ex_loglib ulog_start (ulog_stop ex_loglib) ex_disarmed ex_open_ulog ex_log_env = Some (u1, env1) \<and> no_log u1"
proof -
  have b: "msg_id (b_curr ex_disarmed) = ID_HEARTBEAT ex_loglib" "src_compid (b_curr ex_disarmed) = COMP_ID_AUTOPILOT1 ex_loglib"
    "uint (src_sysid (b_curr ex_disarmed)) = 1" "heartbeat_base_mode ex_loglib (payload_at ex_disarmed) AND SAFETY_ARMED ex_loglib = 0"
    by (simp_all add: ex_disarmed_def ex_loglib_def payload_at_def)
  have i: "lg_file ex_open_ulog = 5" "lo_mode (lg_config ex_open_ulog) = while_armed" "target_system_id ex_open_ulog = 1" "buffer_partial_len ex_open_ulog = 0"
    by (simp_all add: ex_open_ulog_def ex_ulog_def ULog_init_def LogEndpoint_init_def log_ep.extend_def ulog.defs)
  then have "handle_auto_start_stop ex_loglib ulog_start (ulog_stop ex_loglib) ex_disarmed ex_open_ulog ex_log_env = ulog_stop ex_loglib ex_open_ulog ex_log_env"
    using b by (simp add: handle_auto_start_stop_def)
  moreover have "\<exists>x. ulog_stop ex_loglib ex_open_ulog ex_log_env = Some x"
    using i by (simp add: ulog_stop_def send_msg_def Let_def stop_flush.simps)
  ultimately obtain u1 env1 where h: "handle_auto_start_stop ex_loglib ulog_start (ulog_stop ex_loglib) ex_disarmed ex_open_ulog ex_log_env = Some (u1, env1)"
    by auto
  with conjunct1 [OF recording_follows_arming [OF b(1,2), where u = ex_open_ulog and env = ex_log_env]] i b(3,4)
  show ?thesis by (auto simp: arming_result_def)
qed

end
