(* ===== verification/RecorderActs.thy ===== *)
theory RecorderActs
  imports RecorderFacts
begin

text \<open>
  What a recorder can do to the main loop from inside its handlers: route messages with its own sender,
  make timers and mark them for removal. Every handler of every recorder keeps to this relation,
  \<open>ml_acts\<close>, so whatever these three steps keep, all handlers keep.
\<close>

section \<open>What recorders do to the main loop\<close>

text \<open>The messages recorders compose: requests to start and stop logging and acknowledgements, from their own sender.\<close>

definition log_buffer :: "loglib \<Rightarrow> log_msg \<Rightarrow> int \<Rightarrow> buffer" where
  "log_buffer L m target =
     \<lparr>b_data = encode L m,
      b_curr = \<lparr>msg_id = encode_id L m, target_sysid = target, target_compid = uint (COMP_ID_ALL L),
                src_sysid = LOG_ENDPOINT_SYSTEM_ID, src_compid = COMP_ID_ALL L, payload_len = 0, payload = None\<rparr>\<rparr>"

definition log_buffers :: "loglib \<Rightarrow> buffer set" where
  "log_buffers L = {b. \<exists>m target. b = log_buffer L m target}"

text \<open>Recorders act on the main loop by routing messages with their own sender, making timers and marking
  them for removal, in any order.\<close>

inductive ml_acts :: "loglib \<Rightarrow> router \<Rightarrow> router \<Rightarrow> bool" for L where
  none: "ml_acts L s s"
| sent: "ml_acts L s t \<Longrightarrow> b \<in> log_buffers L \<Longrightarrow> ml_acts L s (route_msg b t)"
| added: "ml_acts L s t \<Longrightarrow> ml_acts L s (t\<lparr>os := snd (add_timeout ms cb (os t))\<rparr>)"
| marked: "ml_acts L s t \<Longrightarrow> ml_acts L s (t\<lparr>os := del_timeout k (os t)\<rparr>)"

lemma ml_acts_trans: "ml_acts L s t \<Longrightarrow> ml_acts L r s \<Longrightarrow> ml_acts L r t"
  by (induction rule: ml_acts.induct) (auto intro: ml_acts.intros)

definition rec_acts :: "loglib \<Rightarrow> ('a) log_ep_scheme \<times> log_env \<Rightarrow> ('a) log_ep_scheme \<times> log_env \<Rightarrow> bool" where
  "rec_acts L p q \<longleftrightarrow> lg_id (fst q) = lg_id (fst p) \<and> ml_acts L (le_ml (snd p)) (le_ml (snd q))"

lemma rec_acts_refl [simp]: "rec_acts L p p"
  by (simp add: rec_acts_def ml_acts.none)

lemma rec_acts_trans: "rec_acts L p q \<Longrightarrow> rec_acts L q r \<Longrightarrow> rec_acts L p r"
  by (auto simp: rec_acts_def intro: ml_acts_trans)

lemma rec_acts_quiet: "lg_id (fst q) = lg_id (fst p) \<Longrightarrow> le_ml (snd q) = le_ml (snd p) \<Longrightarrow> rec_acts L p q"
  by (simp add: rec_acts_def ml_acts.none)

lemma rec_acts_eq:
  "lg_id (fst p') = lg_id (fst p) \<Longrightarrow> le_ml (snd p') = le_ml (snd p) \<Longrightarrow> lg_id (fst q') = lg_id (fst q) \<Longrightarrow> le_ml (snd q') = le_ml (snd q)
   \<Longrightarrow> rec_acts L p' q' = rec_acts L p q"
  by (simp add: rec_acts_def)

lemma acts_send_msg: "rec_acts L (u, env) (send_msg L m t u env)"
  using ml_acts.sent [OF ml_acts.none, of "log_buffer L m t" L "le_ml env"]
  by (auto simp: rec_acts_def send_msg_def log_buffers_def log_buffer_def Let_def)

lemma ml_acts_drop: "ml_acts L s (le_ml env) \<Longrightarrow> ml_acts L s (le_ml (drop_timeout t env))"
  by (auto simp: drop_timeout_def set_os_def split: option.split intro: ml_acts.intros)

lemma ml_acts_add: "add_timeout ms cb (le_os env) = (t, w) \<Longrightarrow> ml_acts L s (le_ml env) \<Longrightarrow> ml_acts L s (le_ml (set_os w env))"
  using ml_acts.added [of L s "le_ml env" ms cb] by (simp add: set_os_def)

lemma get_file_ml: "get_file ext u env = Some (r, u1, env1) \<Longrightarrow> lg_id u1 = lg_id u \<and> le_ml env1 = le_ml env"
proof -
  assume g: "get_file ext u env = Some (r, u1, env1)"
  obtain x fs1 where "open_or_create_dir (logs_dir (lg_config u)) (le_fs env) = Some (x, fs1)"
    using g by (auto simp: get_file_def bind_eq_Some_conv Let_def)
  then show ?thesis using g by (cases x) (auto simp: get_file_def Let_def case_prod_unfold)
qed

lemma acts_start: "LogEndpoint_start ext u env = Some (ok, u1, env1) \<Longrightarrow> rec_acts L (u, env) (u1, env1)"
proof -
  assume s: "LogEndpoint_start ext u env = Some (ok, u1, env1)"
  show ?thesis
  proof (cases "lg_file u \<noteq> -1")
    case True
    then show ?thesis using s by (simp add: LogEndpoint_start_def)
  next
    case False
    let ?e = "env\<lparr>le_fs := delete_old_logs (lg_config u) (le_fs env)\<rparr>"
    obtain r u2 env2 where g: "get_file ext u ?e = Some (r, u2, env2)"
      using s False by (auto simp: LogEndpoint_start_def bind_eq_Some_conv)
    note i = get_file_ml [OF g]
    obtain t1 w1 where a1: "add_timeout 1000 (CbLoggingStart (lg_id u)) (le_os env2) = (t1, w1)" by fastforce
    obtain t2 w2 where a2: "add_timeout 1000 (CbLogFsync (lg_id u)) w1 = (t2, w2)" by fastforce
    have m0: "ml_acts L (le_ml env) (le_ml env2)" using i by (simp add: ml_acts.none)
    have m1: "ml_acts L (le_ml env) (le_ml (set_os w1 env2))" by (rule ml_acts_add [OF a1 m0])
    have m2: "ml_acts L (le_ml env) (le_ml (set_os w2 (set_os w1 env2)))" using ml_acts_add [OF _ m1] a2 by simp
    have l: "lg_id u2 = lg_id u" using i by simp
    show ?thesis using s False l m0 m1 m2 ml_acts_drop [OF m2, of t1]
      by (auto simp: LogEndpoint_start_def g a1 a2 close_log_def rec_acts_def Let_def split: if_splits)
  qed
qed

lemma acts_stop: "rec_acts L (u, env) (LogEndpoint_stop u env)"
  by (simp add: LogEndpoint_stop_def rec_acts_def Let_def ml_acts_drop ml_acts.none)


lemma acts_fsync: "rec_acts L (u, env) (snd (fsync_cb u env))"
  by (simp add: fsync_cb_def rec_acts_quiet case_prod_unfold Let_def)

lemma acts_remove_start: "rec_acts L (u, env) (remove_logging_start_timeout u env)"
  by (simp add: remove_logging_start_timeout_def rec_acts_def ml_acts_drop ml_acts.none)

lemma acts_start_alive: "rec_acts L (u, env) (snd (start_alive_timeout u env))"
  using ml_acts_add [OF prod.collapse [symmetric] ml_acts.none] by (simp add: start_alive_timeout_def rec_acts_def Let_def case_prod_unfold)

definition starts :: "loglib \<Rightarrow> ('a) log_ep_scheme starter \<Rightarrow> bool" where
  "starts L start \<longleftrightarrow> (\<forall>u env ok u1 env1. start u env = Some (ok, u1, env1) \<longrightarrow> rec_acts L (u, env) (u1, env1))"

definition stops :: "loglib \<Rightarrow> ('a) log_ep_scheme stopper \<Rightarrow> bool" where
  "stops L stop \<longleftrightarrow> (\<forall>u env u1 env1. stop u env = Some (u1, env1) \<longrightarrow> rec_acts L (u, env) (u1, env1))"

lemma startsD: "starts L start \<Longrightarrow> start u env = Some (ok, u1, env1) \<Longrightarrow> rec_acts L (u, env) (u1, env1)"
  by (simp add: starts_def)

lemma stopsD: "stops L stop \<Longrightarrow> stop u env = Some (u1, env1) \<Longrightarrow> rec_acts L (u, env) (u1, env1)"
  by (simp add: stops_def)

lemma acts_alive:
  assumes "starts L start" "stops L stop" "alive_timeout_cb start stop u env = Some (b, u1, env1)"
  shows "rec_acts L (u, env) (u1, env1)"
proof (cases "timeout_write_total u = ws_total (lg_write u)")
  case True
  then obtain u2 env2 ok u3 where s: "stop u env = Some (u2, env2)" "start u2 env2 = Some (ok, u3, env1)" "lg_id u1 = lg_id u3"
    using assms(3) by (auto simp: alive_timeout_cb_def bind_eq_Some_conv)
  have "rec_acts L (u, env) (u3, env1)" by (rule rec_acts_trans [OF stopsD [OF assms(2) s(1)] startsD [OF assms(1) s(2)]])
  then show ?thesis using s(3) by (simp add: rec_acts_def)
qed (use assms(3) in \<open>auto simp: alive_timeout_cb_def rec_acts_quiet\<close>)

lemma acts_auto_start_stop:
  assumes "starts L start" "stops L stop" "handle_auto_start_stop L start stop buf u env = Some (u1, env1)"
  shows "rec_acts L (u, env) (u1, env1)"
proof -
  have d: "rec_acts L (u, env) (u1, env1)" if s: "start_or_disable start u env = Some (u1, env1)"
  proof -
    obtain ok u2 where "start u env = Some (ok, u2, env1)" "lg_id u1 = lg_id u2"
      using s by (cases "start u env") (auto simp: start_or_disable_def split: if_splits)
    then show ?thesis using startsD [OF assms(1)] by (simp add: rec_acts_def)
  qed
  show ?thesis using assms(3) d stopsD [OF assms(2), of u env u1 env1]
    by (auto simp: handle_auto_start_stop_def Let_def split: if_splits)
qed

lemma learn_target_id [simp]: "lg_id (learn_target L buf u) = lg_id u"
  by (simp add: learn_target_def)

lemma count_logged_id [simp]: "lg_id (count_logged buf u) = lg_id u"
  by (simp add: count_logged_def)

lemma quiet_flush_partial: "flush_partial u env = (b, u1, env1) \<Longrightarrow> lg_id u1 = lg_id u \<and> le_ml env1 = le_ml env"
proof (induction u env arbitrary: b u1 env1 rule: flush_partial.induct)
  case (1 u env)
  then show ?case
    by (subst (asm) flush_partial.simps) (fastforce simp: Let_def split: if_splits sum.splits prod.splits)
qed

lemma quiet_flush_messages: "flush_messages u env = Some x \<Longrightarrow> lg_id (fst (snd x)) = lg_id u \<and> le_ml (snd (snd x)) = le_ml env"
proof (rule flush_messages.raw_induct [where P = "\<lambda>u env x. lg_id (fst (snd x)) = lg_id u \<and> le_ml (snd (snd x)) = le_ml env"], goal_cases)
  case (1 f u env x)
  then show ?case by (fastforce simp: Let_def case_prod_unfold split: if_splits sum.splits prod.splits)
qed

lemma quiet_logging_flush: "logging_flush u env = Some (b, u1, env1) \<Longrightarrow> lg_id u1 = lg_id u \<and> le_ml env1 = le_ml env"
proof -
  assume f: "logging_flush u env = Some (b, u1, env1)"
  obtain x u2 env2 where p: "flush_partial u env = (x, u2, env2)" by (metis prod_cases3)
  show ?thesis
    using f quiet_flush_partial [OF p] quiet_flush_messages [of u2 env2] by (cases x) (auto simp: logging_flush_def p)
qed

lemma quiet_stop_flush: "stop_flush u env = Some x \<Longrightarrow> lg_id (fst x) = lg_id u \<and> le_ml (snd x) = le_ml env"
proof (rule stop_flush.raw_induct [where P = "\<lambda>u env x. lg_id (fst x) = lg_id u \<and> le_ml (snd x) = le_ml env"], goal_cases)
  case (1 f u env x)
  show ?case
  proof (cases "buffer_partial_len u = 0")
    case False
    obtain ok u1 env1 where g: "logging_flush u env = Some (ok, u1, env1)" "(if ok then f u1 env1 else Some (u1, env1)) = Some x"
      using 1(3) False by (auto simp: bind_eq_Some_conv)
    then show ?thesis using quiet_logging_flush [OF g(1)] 1(2) [of u1 env1] by (cases ok) auto
  qed (use 1(3) in auto)
qed

lemma starts_ulog: "starts L ulog_start"
  using acts_start by (fastforce simp: starts_def ulog_start_def bind_eq_Some_conv rec_acts_def split: if_splits)

lemma stops_ulog: "stops L (ulog_stop L)"
proof -
  have "rec_acts L (u, env) (u1, env1)" if s: "ulog_stop L u env = Some (u1, env1)" "lg_file u \<noteq> -1" for u env u1 env1
  proof -
    obtain u2 env2 where m: "send_msg L (CommandLong (CMD_LOGGING_STOP L) (target_system_id u)) (target_system_id u) u env = (u2, env2)" by fastforce
    then obtain u3 env3 where f: "stop_flush (u2\<lparr>buffer_len := 0\<rparr>) env2 = Some (u3, env3)" "(u1, env1) = LogEndpoint_stop u3 env3"
      using s by (auto simp: ulog_stop_def bind_eq_Some_conv)
    have "rec_acts L (u2, env2) (u3, env3)" using quiet_stop_flush [OF f(1)] by (intro rec_acts_quiet) simp_all
    then show ?thesis unfolding f(2) using acts_send_msg [of L u env] acts_stop [of L u3 env3] m by (metis rec_acts_trans)
  qed
  then show ?thesis unfolding stops_def by (metis (no_types, lifting) option.inject rec_acts_refl ulog_stop_def)
qed

lemma acts_ulog_restart: "ulog_restart L u env = Some (u1, env1) \<Longrightarrow> rec_acts L (u, env) (u1, env1)"
  by (auto simp: ulog_restart_def bind_eq_Some_conv intro: rec_acts_trans [OF stopsD [OF stops_ulog] startsD [OF starts_ulog]])

lemma quiet_append_piece: "append_piece m u env = Some (u1, env1) \<Longrightarrow> lg_id u1 = lg_id u \<and> le_ml env1 = le_ml env"
  by (auto simp: append_piece_def make_room_def Let_def bind_eq_Some_conv split: if_splits dest!: quiet_logging_flush)

lemma quiet_resync: "resync d u env = Some (u1, env1) \<Longrightarrow> lg_id u1 = lg_id u \<and> le_ml env1 = le_ml env"
  by (auto simp: resync_def bind_eq_Some_conv split: if_splits dest!: quiet_logging_flush)

lemma acts_logging_data_process:
  assumes "logging_data_process L m u env = Some (u1, env1)" shows "rec_acts L (u, env) (u1, env1)"
proof -
  obtain h d u2 where q: "logging_seq (ld_sequence m) u = (h, d, u2)" by (metis prod_cases3)
  have i: "lg_id u2 = lg_id u" using q by (auto simp: logging_seq_def split: if_splits)
  have r: "rec_acts L (u, env) (u1, env1)" if "ulog_restart L u2 env = Some (u1, env1)"
    using acts_ulog_restart [OF that] i by (simp add: rec_acts_def)
  have "rec_acts L (u, env) (u1, env1)" if "(if waiting_header u2 then take_header m u2 env else Some (m, u2)) = Some (m3, u3)"
     "resync d u3 env = Some (u4, env4)" "append_piece m3 u4 env4 = Some (u1, env1)" for m3 u3 u4 env4
    using that i quiet_resync [OF that(2)] quiet_append_piece [OF that(3)]
    by (intro rec_acts_quiet) (auto simp: take_header_def Let_def split: if_splits)
  then show ?thesis using assms r i
    by (auto simp: logging_data_process_def q bind_eq_Some_conv rec_acts_quiet split: if_splits)
qed

text \<open>What \<open>ULog::write_msg\<close> can come to after it looked at starting and stopping: the message is ignored, is an
  acknowledgement, or a piece of the log, which may be acknowledged first.\<close>

lemma ulog_write_msgE:
  assumes "ulog_write_msg L buf u env = Some (n, u1, env1)"
  obtains u2 env2 where "handle_auto_start_stop L ulog_start (ulog_stop L) buf (learn_target L buf u) env = Some (u2, env2)"
      "(u1, env1) = (u2, env2)"
  | c u2 env2 where "handle_auto_start_stop L ulog_start (ulog_stop L) buf (learn_target L buf u) env = Some (u2, env2)"
      "u1 = fst (snd (ulog_handle_ack L c u2 env2)) \<or> u1 = count_logged buf (fst (snd (ulog_handle_ack L c u2 env2)))"
      "env1 = snd (snd (ulog_handle_ack L c u2 env2))"
  | m p u2 env2 u4 where "handle_auto_start_stop L ulog_start (ulog_stop L) buf (learn_target L buf u) env = Some (u2, env2)"
      "p = (u2, env2) \<or> (\<exists>k t. p = send_msg L k t u2 env2)"
      "logging_data_process L m (fst p) (snd p) = Some (u4, env1)" "u1 = count_logged buf u4"
proof -
  obtain u2 env2 where a: "handle_auto_start_stop L ulog_start (ulog_stop L) buf (learn_target L buf u) env = Some (u2, env2)"
    using assms by (auto simp: ulog_write_msg_def bind_eq_Some_conv)
  let ?mid = "msg_id (b_curr buf)"
  consider "?mid \<notin> {ID_COMMAND_ACK L, ID_LOGGING_DATA_ACKED L, ID_LOGGING_DATA L} \<or> get_msg_entry (ll_mav L) ?mid = None"
    | entry where "?mid = ID_COMMAND_ACK L" "get_msg_entry (ll_mav L) ?mid = Some entry"
    | entry where "?mid \<in> {ID_LOGGING_DATA_ACKED L, ID_LOGGING_DATA L}" "?mid \<noteq> ID_COMMAND_ACK L" "get_msg_entry (ll_mav L) ?mid = Some entry"
    by fastforce
  then show thesis
  proof cases
    case 1
    then show thesis using assms that(1) [OF a] by (auto simp: ulog_write_msg_def a Let_def split: if_splits)
  next
    case 2
    then have "\<exists>c. (u1 = fst (snd (ulog_handle_ack L c u2 env2)) \<or> u1 = count_logged buf (fst (snd (ulog_handle_ack L c u2 env2))))
        \<and> env1 = snd (snd (ulog_handle_ack L c u2 env2))"
      using assms by (auto simp: ulog_write_msg_def a Let_def case_prod_unfold)
    then show thesis using that(2) [OF a] by blast
  next
    case 3
    then obtain m p u4 where "logging_data_process L m (fst p) (snd p) = Some (u4, env1)" "u1 = count_logged buf u4"
        "p = (u2, env2) \<or> (\<exists>k t. p = send_msg L k t u2 env2)"
      using assms by (fastforce simp: ulog_write_msg_def a Let_def case_prod_unfold bind_eq_Some_conv split: if_splits)
    then show thesis using that(3) [OF a] by blast
  qed
qed

lemma acts_ulog_handle_ack: "rec_acts L (u, env) (snd (ulog_handle_ack L c u env))"
  using rec_acts_trans [OF acts_remove_start [of L u env] acts_start_alive [of L "fst (remove_logging_start_timeout u env)" "snd (remove_logging_start_timeout u env)", unfolded prod.collapse]]
  by (auto simp: ulog_handle_ack_def case_prod_unfold Let_def)

lemma acts_ulog_write_msg:
  assumes "ulog_write_msg L buf u env = Some (n, u1, env1)" shows "rec_acts L (u, env) (u1, env1)"
proof -
  have 1: "rec_acts L (u, env) (u2, env2)"
    if "handle_auto_start_stop L ulog_start (ulog_stop L) buf (learn_target L buf u) env = Some (u2, env2)" for u2 env2
    using acts_auto_start_stop [OF starts_ulog stops_ulog that] by (simp add: rec_acts_def)
  show ?thesis
    using assms
  proof (cases rule: ulog_write_msgE)
    case (2 c u2 env2)
    then show ?thesis using rec_acts_trans [OF 1 acts_ulog_handle_ack [of L u2 env2 c]] by (auto simp: rec_acts_def)
  next
    case (3 m p u2 env2 u4)
    have "rec_acts L (u2, env2) (fst p, snd p)" using 3(2) acts_send_msg by auto
    from rec_acts_trans [OF rec_acts_trans [OF 1 [OF 3(1)] this] acts_logging_data_process [OF 3(3)]] show ?thesis
      using 3(4) by (simp add: rec_acts_def)
  qed (use 1 in auto)
qed

lemma acts_send_status: "rec_acts L (u, env) (send_status L q st u env)"
  by (simp add: send_status_def acts_send_msg)

lemma acts_send_nacks: "rec_acts L (u, env) (send_nacks L i q u env)"
proof (induction L i q u env rule: send_nacks.induct)
  case (1 L i q u env)
  obtain u1 env1 where s: "send_status L q (BLOCK_NACK L) u env = (u1, env1)" by fastforce
  show ?case
    using 1 [OF _ s [symmetric] refl] acts_send_status [of L u env q "BLOCK_NACK L"]
    by (auto simp: send_nacks.simps [of L i] s intro: rec_acts_trans)
qed

lemma acts_send_ack: "rec_acts L (u, env) (send_ack L q u env)"
proof -
  obtain u1 env1 where s: "send_nacks L (last_acked_seqno u + 1) q u env = (u1, env1)" by fastforce
  have "rec_acts L (u, env) (send_status L q (BLOCK_ACK L) u1 env1)"
    by (rule rec_acts_trans [OF acts_send_nacks [of L u env "last_acked_seqno u + 1" q, unfolded s] acts_send_status])
  then show ?thesis using acts_send_status [of L u env] by (simp add: send_ack_def s case_prod_unfold rec_acts_def Let_def)
qed

lemma starts_binlog: "starts L binlog_start"
  using acts_start by (fastforce simp: starts_def binlog_start_def bind_eq_Some_conv rec_acts_def split: if_splits)

lemma stops_binlog: "stops L (binlog_stop L)"
  unfolding stops_def
proof (intro allI impI)
  fix u env u1 env1
  assume s: "binlog_stop L u env = Some (u1, env1)"
  obtain u2 env2 where m: "send_status L (BLOCK_STOP L) 1 u env = (u2, env2)" by fastforce
  have "rec_acts L (u, env) (LogEndpoint_stop u2 env2)"
    by (rule rec_acts_trans [OF acts_send_status [of L u env "BLOCK_STOP L" 1, unfolded m] acts_stop])
  then show "rec_acts L (u, env) (u1, env1)"
    using s by (cases "lg_file u = -1") (simp_all add: binlog_stop_def binlog_send_stop_def m)
qed

lemma acts_binlog_restart: "binlog_restart L u env = Some (u1, env1) \<Longrightarrow> rec_acts L (u, env) (u1, env1)"
  by (auto simp: binlog_restart_def bind_eq_Some_conv intro: rec_acts_trans [OF stopsD [OF stops_binlog] startsD [OF starts_binlog]])

lemma acts_binlog_data_process:
  assumes "binlog_data_process L m u env = Some (u1, env1)" shows "rec_acts L (u, env) (u1, env1)"
proof -
  obtain r fs1 where k: "fs_lseek (lg_file u) (block_offset L (fst m)) (le_fs env) = (r, fs1)" by fastforce
  obtain x fs2 where w: "fs_write (lg_file u) (take (BLOCK_DATA_LEN L) (snd m)) fs1 = (x, fs2)" by fastforce
  have 1: "rec_acts L (u, env) (u1, env1)" if "binlog_restart L u (env\<lparr>le_fs := fs\<rparr>) = Some (u1, env1)" for fs
    using acts_binlog_restart [OF that] by (simp add: rec_acts_def)
  have 2: "rec_acts L (u, env) (send_ack L (fst m) u (env\<lparr>le_fs := fs\<rparr>))" for fs
    using acts_send_ack [of L u "env\<lparr>le_fs := fs\<rparr>"] by (simp add: rec_acts_def)
  show ?thesis using assms 1 2 [of fs2]
    by (cases r; cases x) (auto simp: binlog_data_process_def k w rec_acts_quiet split: if_splits)
qed

lemma acts_binlog_write_msg:
  assumes "binlog_write_msg L buf u env = Some (n, u1, env1)" shows "rec_acts L (u, env) (u1, env1)"
proof -
  obtain u2 env2 where a: "handle_auto_start_stop L binlog_start (binlog_stop L) buf (learn_target L buf u) env = Some (u2, env2)"
    using assms by (auto simp: binlog_write_msg_def bind_eq_Some_conv)
  have 1: "rec_acts L (u, env) (u2, env2)" using acts_auto_start_stop [OF starts_binlog stops_binlog a] by (simp add: rec_acts_def)
  obtain u3 env3 where rm: "remove_logging_start_timeout u2 env2 = (u3, env3)" by fastforce
  have al: "rec_acts L (u2, env2) (snd (start_alive_timeout u3 env3))"
    using rec_acts_trans [OF acts_remove_start [of L u2 env2, unfolded rm] acts_start_alive] .
  consider "(u1, env1) = (u2, env2)" | "(u1, env1) = binlog_send_stop L u2 env2"
    | m p u4 where "binlog_data_process L m (fst p) (snd p) = Some (u4, env1)" "u1 = count_logged buf u4"
        "p = (u2, env2) \<or> p = snd (start_alive_timeout u3 env3)"
  proof (cases "msg_id (b_curr buf) \<noteq> ID_REMOTE_LOG_DATA_BLOCK L \<or> get_msg_entry (ll_mav L) (msg_id (b_curr buf)) = None")
    case True
    then show ?thesis using assms that(1) by (auto simp: binlog_write_msg_def a Let_def split: if_splits)
  next
    case False
    then obtain entry where "get_msg_entry (ll_mav L) (msg_id (b_curr buf)) = Some entry" by auto
    moreover define z where "z = (if b_data buf ! 0 = STX2 (ll_mav L) then get_trimmed_zeros (ll_mav L) entry buf else 0)"
    moreover define m where "m = data_block_at L (untrimmed (unat (min (payload_len (b_curr buf)) (me_max_msg_len entry))) z buf)"
    ultimately show ?thesis
      using assms that(2) that(3) [of m "(u2, env2)"] that(3) [of m "snd (start_alive_timeout u3 env3)"] False
      by (cases "logging_start_timeout u2") (auto simp: binlog_write_msg_def a rm Let_def z_def [symmetric] m_def [symmetric] case_prod_unfold bind_eq_Some_conv split: if_splits)
  qed
  then have "rec_acts L (u2, env2) (u1, env1)"
  proof cases
    case 3
    have "rec_acts L (u2, env2) (fst p, snd p)" using 3(3) al by auto
    from rec_acts_trans [OF this acts_binlog_data_process [OF 3(1)]] show ?thesis using 3(2) by (simp add: rec_acts_def)
  qed (use acts_send_status in \<open>auto simp: binlog_send_stop_def\<close>)
  then show ?thesis using 1 rec_acts_trans by blast
qed

lemma starts_tlog: "starts L tlog_start"
  using acts_start by (fastforce simp: starts_def tlog_start_def)

lemma stops_tlog: "stops L tlog_stop"
  unfolding stops_def
proof (intro allI impI)
  fix u env u1 env1
  assume "tlog_stop u env = Some (u1, env1)"
  then show "rec_acts L (u, env) (u1, env1)"
    using acts_stop [of L u env] by (cases "lg_file u = -1") (simp_all add: tlog_stop_def)
qed

lemma acts_tlog_write_msg:
  assumes "tlog_write_msg L buf u env = Some (n, u1, env1)" shows "rec_acts L (u, env) (u1, env1)"
  using assms acts_auto_start_stop [OF starts_tlog stops_tlog, of L buf "learn_target L buf u" env]
  by (fastforce simp: tlog_write_msg_def bind_eq_Some_conv Let_def rec_acts_def)

lemma acts_logger_write_msg:
  assumes "logger_write_msg L buf l env = Some (n, l1, env1)"
  shows "logger_id l1 = logger_id l \<and> ml_acts L (le_ml env) (le_ml env1)"
proof (cases l)
  case (ULogger u)
  then show ?thesis using assms acts_ulog_write_msg [of L buf u env] by (auto simp: logger_write_msg_def bind_eq_Some_conv rec_acts_def)
next
  case (BinLogger u)
  then show ?thesis using assms acts_binlog_write_msg [of L buf u env] by (auto simp: logger_write_msg_def bind_eq_Some_conv rec_acts_def)
qed

lemma acts_logger_stop:
  assumes "logger_stop L l env = Some (l1, env1)"
  shows "logger_id l1 = logger_id l \<and> ml_acts L (le_ml env) (le_ml env1)"
proof (cases l)
  case (ULogger u)
  then show ?thesis using assms stopsD [OF stops_ulog, of L u env] by (auto simp: logger_stop_def bind_eq_Some_conv rec_acts_def)
next
  case (BinLogger u)
  then show ?thesis using assms stopsD [OF stops_binlog, of L u env] by (auto simp: logger_stop_def bind_eq_Some_conv rec_acts_def)
qed

lemma acts_autolog_write_msg:
  assumes "autolog_write_msg L buf a env = Some (n, a1, env1)" shows "rec_acts L (a, env) (a1, env1)"
proof (cases "al_logger a")
  case None
  then show ?thesis using assms by (auto simp: autolog_write_msg_def rec_acts_def Let_def ml_acts.none split: if_splits)
next
  case (Some l)
  then show ?thesis using assms acts_logger_write_msg [of L buf l env] by (auto simp: autolog_write_msg_def bind_eq_Some_conv rec_acts_def)
qed

lemma acts_autolog_stop:
  assumes "autolog_stop L a env = Some (a1, env1)" shows "rec_acts L (a, env) (a1, env1)"
proof (cases "al_logger a")
  case (Some l)
  then show ?thesis using assms acts_logger_stop [of L l env] by (auto simp: autolog_stop_def bind_eq_Some_conv rec_acts_def)
qed (use assms in \<open>simp add: autolog_stop_def\<close>)

end
