(* ===== verification/Statistics.thy ===== *)
theory Statistics
  imports Endpoint Text
begin

text \<open>
  The report of statistics: \<open>Endpoint::print_statistics\<close> (endpoint.cpp) as the text it prints, and how exact its
  percentages are. They are computed in 32 bits.
\<close>

section \<open>Model\<close>

definition type_name :: "ep_type \<Rightarrow> string" where
  "type_name t = (case t of UART \<Rightarrow> ''UART'' | UDP \<Rightarrow> ''UDP'' | TCP \<Rightarrow> ''TCP'' | LOG \<Rightarrow> ''Log'')"

abbreviation show_u32 :: "u32 \<Rightarrow> string" where "show_u32 n \<equiv> show_nat (unat n)"
abbreviation show_u64 :: "u64 \<Rightarrow> string" where "show_u64 n \<equiv> show_nat (unat n)"

abbreviation NL :: string where "NL \<equiv> [CHR 0x0A]"
abbreviation TAB :: string where "TAB \<equiv> [CHR 0x09]"

definition percent_of :: "u32 \<Rightarrow> u32 \<Rightarrow> u32" where
  "percent_of n tot = (n * 100) div tot"

definition statistics_text :: "ep_type \<Rightarrow> int \<Rightarrow> string \<Rightarrow> read_stat \<Rightarrow> write_stat \<Rightarrow> string" where
  "statistics_text t fd name rd wr =
     (let read_total = (if rs_total rd = 0 then 1 else rs_total rd)
      in type_name t @ '' Endpoint ['' @ show_int fd @ '']'' @ name @ '' {'' @
         NL @ TAB @ ''Received messages {'' @
         NL @ TAB @ TAB @ ''CRC error: '' @ show_u32 (crc_error rd) @ '' '' @ show_u32 (percent_of (crc_error rd) read_total) @ ''% '' @
           show_u64 (crc_error_bytes rd div 1000) @ ''KB'' @
         NL @ TAB @ TAB @ ''Sequence lost: '' @ show_u32 (drop_seq_total rd) @ '' '' @ show_u32 (percent_of (drop_seq_total rd) read_total) @ ''%'' @
         NL @ TAB @ TAB @ ''Handled: '' @ show_u32 (handled rd) @ '' '' @ show_u64 (handled_bytes rd div 1000) @ ''KB'' @
         NL @ TAB @ TAB @ ''Total: '' @ show_u32 (rs_total rd) @
         NL @ TAB @ ''}'' @
         NL @ TAB @ ''Transmitted messages {'' @
         NL @ TAB @ TAB @ ''Total: '' @ show_u32 (ws_total wr) @ '' '' @ show_u64 (ws_bytes wr div 1000) @ ''KB'' @
         NL @ TAB @ ''}'' @
         NL @ ''}'' @ NL)"

definition print_statistics :: "endpoint \<Rightarrow> string" where
  "print_statistics e = statistics_text (ep_type e) (ep_fd e) (ep_name e) (rstat e) (wstat e)"

definition put_stdout :: "string \<Rightarrow> world \<Rightarrow> world" where
  "put_stdout t w = w\<lparr>w_stdout := w_stdout w @ t\<rparr>"

section \<open>Percentages\<close>

text \<open>Below 42949673 messages the percentage is the exact one, rounded down, and at most 100.\<close>

lemma percent_exact:
  assumes "unat n \<le> 42949672" shows "unat (percent_of n tot) = unat n * 100 div unat tot"
proof -
  have "unat (n * 100) = unat n * 100" by (subst unat_mult_lem [THEN iffD1]) (use assms in simp_all)
  then show ?thesis by (simp add: percent_of_def unat_div_distrib)
qed

lemma percent_at_most_100:
  assumes "unat n \<le> 42949672" "n \<le> tot" shows "unat (percent_of n tot) \<le> 100"
proof -
  have "unat n * 100 div unat tot \<le> unat n * 100 div unat n" if "n \<noteq> 0"
    using assms(2) that by (intro div_le_mono2) (simp_all add: word_le_nat_alt unat_gt_0)
  then show ?thesis using assms(1) by (cases "n = 0") (simp_all add: percent_exact unat_eq_0)
qed

text \<open>From there on the product wraps around: with every message in error, the report says 0 percent.\<close>

lemma percent_wraps: "percent_of 42949673 42949673 = 0"
  by (simp add: percent_of_def)

end
