(* ===== verification/Events.thy ===== *)
theory Events
  imports Router Statistics
begin

text \<open>
  The rest of \<open>Mainloop\<close> (mainloop.cpp) and \<open>Timeout::handle_read\<close> (timeout.cpp): timer
  callbacks, endpoints that come and go, the command pipe, one round of the event loop and
  start-up. The events \<open>epoll_wait\<close> reports are inputs. \<open>None\<close> is undefined behaviour of the
  code. What is special about endpoints that
  record logs is in \<open>Recording\<close>.
\<close>

section \<open>Timer callbacks\<close>

text \<open>A fold of an operation on single endpoints over the vector of endpoints.\<close>

definition on_ep :: "(endpoint \<Rightarrow> world \<Rightarrow> endpoint \<times> world) \<Rightarrow> nat \<Rightarrow> router \<Rightarrow> router" where
  "on_ep f n s = (let (e, w) = f (objs s ! n) (os s) in set_ep n e w s)"

definition resend_timeout :: "router \<Rightarrow> bool \<times> router" where
  "resend_timeout s =
     (let s1 = fold (on_ep resend_cached_msgs) (g_endpoints s) s;
          (more, s2) = reschedule_resend s1
      in if \<not> more then (False, s2\<lparr>resend_scheduled := False, resend_timer := None\<rparr>) else (True, s2))"

definition log_aggregate_timeout :: "router \<Rightarrow> bool \<times> router" where
  "log_aggregate_timeout s =
     (let s1 = (if msg_to_unknown s > 0 then s\<lparr>msg_to_unknown := 0\<rparr> else s)
      in (True, fold (on_ep (\<lambda>e w. (log_aggregate e, w))) (g_endpoints s1) s1))"

definition ml_print_statistics :: "router \<Rightarrow> router" where
  "ml_print_statistics s =
     s\<lparr>os := put_stdout (concat (map (\<lambda>n. print_statistics (objs s ! n)) (g_endpoints s))) (os s)\<rparr>"

definition run_callback :: "callback \<Rightarrow> router \<Rightarrow> bool \<times> router" where
  "run_callback cb s =
     (case cb of
        CbFlush n \<Rightarrow> (True, on_ep (\<lambda>e w. snd (ep_flush_pending_msgs e w)) n s)
      | CbNoMessage n \<Rightarrow>
          (let (b, e, w) = udp_nomessage_timeout_cb (objs s ! n) (os s) in (b, set_ep n e w s))
      | CbRetry n \<Rightarrow>
          (let (b, e, w) = tcp_retry_timeout_cb (objs s ! n) (os s) in (b, set_ep n e w s))
      | CbChangeBaud n \<Rightarrow>
          (let (b, e, w) = change_baud_cb (objs s ! n) (os s) in (b, set_ep n e w s))
      | CbResend \<Rightarrow> resend_timeout s
      | CbLogAggregate \<Rightarrow> log_aggregate_timeout s
      | CbPrintStatistics \<Rightarrow> (True, ml_print_statistics s)
      | _ \<Rightarrow> (True, s))"

text \<open>An endpoint lives as long as the vector or a group member of it holds a reference. Entering
  a callback or a handler of one that was destroyed is undefined behaviour. The callbacks of recorders are in \<open>Recording\<close>.\<close>

definition referenced :: "nat \<Rightarrow> router \<Rightarrow> bool" where
  "referenced n s \<longleftrightarrow> list_ex (\<lambda>e. n \<in> set (group_members e)) (objs s)"

definition alive :: "router \<Rightarrow> nat \<Rightarrow> bool" where
  "alive s n \<longleftrightarrow> n \<in> set (g_endpoints s) \<or> referenced n s"

definition cb_alive :: "router \<Rightarrow> callback \<Rightarrow> bool" where
  "cb_alive s cb =
     (case cb of CbFlush n \<Rightarrow> alive s n | CbNoMessage n \<Rightarrow> alive s n | CbRetry n \<Rightarrow> alive s n
      | CbChangeBaud n \<Rightarrow> alive s n | CbLoggingStart _ \<Rightarrow> False | CbLogFsync _ \<Rightarrow> False | CbLogAlive _ \<Rightarrow> False
      | _ \<Rightarrow> True)"

text \<open>\<open>Timeout::handle_read\<close>; \<open>ret\<close> and \<open>val\<close> are what reading the timer returned.\<close>

definition timeout_handle_read :: "nat \<Rightarrow> int \<Rightarrow> nat \<Rightarrow> router \<Rightarrow> router option" where
  "timeout_handle_read t ret val s =
     (case find (\<lambda>x. to_id x = t) (w_timeouts (os s)) of
        None \<Rightarrow> None
      | Some x \<Rightarrow>
          if \<not> timeout_due ret val x then Some s
          else if \<not> cb_alive s (to_cb x) then None
          else let (again, s1) = run_callback (to_cb x) s
               in Some (s1\<lparr>os := timeout_after_cb x again (os s1)\<rparr>))"

section \<open>Endpoints come and go\<close>

text \<open>The last reference to an endpoint goes: the destructors run. An object another one still
  counts as group member stays.\<close>

definition release :: "nat \<Rightarrow> router \<Rightarrow> router" where
  "release n s =
     (if referenced n s then s
      else let e = objs s ! n;
               (e1, w1) = (case ep_type e of
                             UART \<Rightarrow> (e, os s) | UDP \<Rightarrow> (e, udp_destroy e (os s)) | TCP \<Rightarrow> tcp_destroy e (os s)
                           | LOG \<Rightarrow> (e, os s));
               w2 = (if ep_fd e1 > -1 then w1\<lparr>w_epoll := (w_epoll w1)(ep_fd e1 := None)\<rparr> else w1)
           in set_ep n (e1\<lparr>ep_fd := -1, group_members := []\<rparr>) w2 s)"

definition gone :: "router \<Rightarrow> nat \<Rightarrow> bool" where
  "gone s n \<longleftrightarrow> ep_type (objs s ! n) = TCP \<and> \<not> is_valid (objs s ! n)"

definition process_tcp_hangups :: "router \<Rightarrow> router" where
  "process_tcp_hangups s =
     (let s1 = s\<lparr>g_endpoints := filter (\<lambda>n. \<not> gone s n) (g_endpoints s)\<rparr>;
          s2 = fold release (filter (gone s) (g_endpoints s)) s1
      in s2\<lparr>os := (os s2)\<lparr>should_process_tcp_hangups := False\<rparr>\<rparr>)"

definition add_object :: "endpoint \<Rightarrow> world \<Rightarrow> router \<Rightarrow> router" where
  "add_object e w s =
     s\<lparr>objs := objs s @ [e], g_endpoints := g_endpoints s @ [length (objs s)],
       os := snd (add_fd (ep_fd e) False w)\<rparr>"

definition handle_tcp_connection :: "mavlib \<Rightarrow> sockaddr \<Rightarrow> router \<Rightarrow> router" where
  "handle_tcp_connection M peer s =
     (let (tcp0, w1) = TcpEndpoint (length (objs s)) ''dynamic'' (malloc (RX_BUF_MAX_SIZE M) (os s))
                         (malloc TX_BUF_MAX_SIZE (os s)) (os s);
          (f, tcp1, w2) = tcp_accept peer tcp0 w1
      in if f = -1 then s\<lparr>os := snd (tcp_destroy tcp1 w2)\<rparr> else add_object tcp1 w2 s)"

section \<open>Text of the command pipe\<close>

text \<open>\<open>std::getline\<close> with a separator: no token after a final separator.\<close>

definition getline_tokens :: "char \<Rightarrow> string \<Rightarrow> string list" where
  "getline_tokens c s = (let ps = split_on c s in if last ps = [] then butlast ps else ps)"

definition parse_into_vector :: "string \<Rightarrow> 'a::len word list \<Rightarrow> 'a word list" where
  "parse_into_vector command v =
     (if command = ''NULL'' then v
      else v @ map (\<lambda>token. word_of_int (atoi token)) (getline_tokens (CHR '','') command))"

section \<open>Commands\<close>

definition cmd_mode :: "string \<Rightarrow> udp_mode" where
  "cmd_mode m =
     (if m = ''server'' \<or> m = ''Server'' then Server
      else if m = ''eavesdropping'' \<or> m = ''Eavesdropping'' then Server
      else if m = ''receiver'' \<or> m = ''Receiver'' then Receiver
      else Client)"

definition cmd_udp_config :: "string list \<Rightarrow> udp_config" where
  "cmd_udp_config a =
     (let f = length a > 10
      in \<lparr>c_name = a ! 2,
          allow_msg_id_out = (if f then parse_into_vector (a ! 10) [] else []),
          block_msg_id_out = (if f then parse_into_vector (a ! 11) [] else []),
          allow_src_comp_out = (if f then parse_into_vector (a ! 12) [] else []),
          block_src_comp_out = (if f then parse_into_vector (a ! 14) [] else []),
          allow_src_sys_out = (if f then parse_into_vector (a ! 14) [] else []),
          block_src_sys_out = (if f then parse_into_vector (a ! 15) [] else []),
          allow_msg_id_in = (if f then parse_into_vector (a ! 16) [] else []),
          block_msg_id_in = (if f then parse_into_vector (a ! 17) [] else []),
          allow_src_comp_in = (if f then parse_into_vector (a ! 18) [] else []),
          block_src_comp_in = (if f then parse_into_vector (a ! 19) [] else []),
          allow_src_sys_in = (if f then parse_into_vector (a ! 20) [] else []),
          block_src_sys_in = (if f then parse_into_vector (a ! 21) [] else []),
          c_group = (if length a > 6 then (if a ! 6 = ''NULL'' then [] else a ! 6) else []),
          message_throttling = [], throttle_cache = [],
          u_address = a ! 3, u_port = word_of_int (atoi (a ! 4)), u_mode = cmd_mode (a ! 5),
          u_coalesce_bytes = (if length a > 7 then (if a ! 7 = ''NULL'' then 0 else word_of_int (atoi (a ! 7))) else 0),
          u_coalesce_ms = (if length a > 7 then (if a ! 8 = ''NULL'' then 0 else word_of_int (atoi (a ! 8))) else 0),
          u_coalesce_nodelay = (if length a > 7 then parse_into_vector (a ! 9) [] else [])\<rparr>)"

definition find_by_name :: "string \<Rightarrow> router \<Rightarrow> nat option" where
  "find_by_name name s = find (\<lambda>n. ep_name (objs s ! n) = name) (g_endpoints s)"

text \<open>The new endpoint \<open>n\<close> and every other member of its group are linked both ways.\<close>

definition link_both :: "nat \<Rightarrow> nat \<Rightarrow> endpoint list \<Rightarrow> endpoint list" where
  "link_both n other h =
     (if other \<noteq> n \<and> group_name (h ! other) = group_name (h ! n)
      then link_group_member other n (link_group_member n other h) else h)"

definition command_add :: "mavlib \<Rightarrow> string list \<Rightarrow> router \<Rightarrow> router" where
  "command_add M a s =
     (if length a \<notin> {6, 7, 10, 22} \<or> a ! 1 \<noteq> ''udp'' then s
      else if atoi (a ! 4) \<le> 0 then s
      else if find_by_name (a ! 2) s \<noteq> None then s
      else
        let conf = cmd_udp_config a; n = length (objs s);
            (e0, w0) = UdpEndpoint n (c_name conf) (malloc (RX_BUF_MAX_SIZE M) (os s)) (malloc TX_BUF_MAX_SIZE (os s)) (os s);
            (ok, e1, w1) = udp_setup conf e0 w0
        in if \<not> ok then s\<lparr>os := udp_destroy e1 w1\<rparr>
           else
             let s1 = add_object e1 w1 s
             in if group_name e1 \<noteq> [] then s1\<lparr>objs := fold (link_both n) (g_endpoints s1) (objs s1)\<rparr> else s1)"

definition command_remove :: "string list \<Rightarrow> router \<Rightarrow> router" where
  "command_remove a s =
     (if length a \<noteq> 2 then s
      else
        let s1 = s\<lparr>objs := fold (unlink_group_member (a ! 1)) (g_endpoints s) (objs s)\<rparr>
        in case find_by_name (a ! 1) s1 of
             None \<Rightarrow> s1
           | Some n \<Rightarrow>
               release n (s1\<lparr>g_endpoints := remove1 n (g_endpoints s1),
                             os := snd (remove_fd (ep_fd (objs s1 ! n)) (os s1))\<rparr>))"

definition command_throttle :: "string list \<Rightarrow> router \<Rightarrow> router" where
  "command_throttle a s =
     (if length a \<noteq> 4 then s
      else case find_by_name (a ! 1) s of
             None \<Rightarrow> s
           | Some n \<Rightarrow> on_ep (set_message_throttling (word_of_int (atol (a ! 2))) (atof_float (a ! 3))) n s)"

text \<open>An empty line makes the code read \<open>a[0]\<close> of an empty vector: \<open>None\<close>.\<close>

definition exec_command :: "mavlib \<Rightarrow> string \<Rightarrow> router \<Rightarrow> router option" where
  "exec_command M line s =
     (case strtok line of
        [] \<Rightarrow> None
      | a0 # as \<Rightarrow>
          if a0 = ''add'' then Some (command_add M (a0 # as) s)
          else if a0 = ''remove'' then Some (command_remove (a0 # as) s)
          else if a0 = ''throttle'' then Some (command_throttle (a0 # as) s)
          else Some s)"

fun exec_commands :: "mavlib \<Rightarrow> string list \<Rightarrow> router \<Rightarrow> router option" where
  "exec_commands M [] s = Some s"
| "exec_commands M (l # ls) s =
     (case exec_command M l s of None \<Rightarrow> None | Some s1 \<Rightarrow> exec_commands M ls s1)"

text \<open>\<open>input\<close> is what was read from the pipe, \<open>None\<close> for an error; reading an invalid
  descriptor is one. A text ends at the first NUL
  byte, and what follows the last line feed is ignored.\<close>

definition handle_command_pipe :: "mavlib \<Rightarrow> string option \<Rightarrow> router \<Rightarrow> router option" where
  "handle_command_pipe M input s =
     (case (if g_commands_fd s < 0 then None else input) of
        None \<Rightarrow> Some s
      | Some text \<Rightarrow>
          exec_commands M (butlast (split_on (CHR 0x0A) (takeWhile (\<lambda>c. c \<noteq> CHR 0x00) (take 1023 text)))) s)"

section \<open>The event loop\<close>

text \<open>What the loop reacts to; \<open>ExitSignal\<close> is the signal handler, which runs between two events.\<close>

datatype event_source =
    TcpServer sockaddr
  | CommandPipe "string option"
  | EndpointSource nat
  | TimeoutSource nat int nat
  | ExitSignal

record event =
  ev_src :: event_source
  EPOLLIN :: bool
  EPOLLOUT :: bool
  EPOLLERR :: bool
  EPOLLHUP :: bool

definition request_exit :: "int \<Rightarrow> router \<Rightarrow> router" where
  "request_exit code s = s\<lparr>retcode := code, should_exit := True\<rparr>"

definition set_hangups :: "router \<Rightarrow> router" where
  "set_hangups s = s\<lparr>os := (os s)\<lparr>should_process_tcp_hangups := True\<rparr>\<rparr>"

text \<open>What the loop does for an endpoint after \<open>handle_read\<close> returned \<open>rd\<close>.\<close>

definition after_read :: "nat \<Rightarrow> event \<Rightarrow> int \<Rightarrow> router \<Rightarrow> router" where
  "after_read n ev rd s1 =
     (let s2 = (if EPOLLIN ev \<and> rd < 0 \<and> \<not> is_valid (objs s1 ! n) then set_hangups s1 else s1);
          s3 = (if EPOLLOUT ev then
                  (let (more, e, w) = handle_canwrite (objs s2 ! n) (os s2)
                   in set_ep n e (if more then w else snd (mod_fd (ep_fd e) False w)) s2)
                else s2)
      in if EPOLLERR ev then
           (if ep_type (objs s3 ! n) = TCP
            then let e = objs s3 ! n in set_hangups (set_ep n (e\<lparr>tcp := (tcp e)\<lparr>valid := False\<rparr>\<rparr>) (os s3) s3)
            else request_exit 1 s3)
         else s3)"

definition endpoint_event :: "mavlib \<Rightarrow> (bytes \<Rightarrow> u64) \<Rightarrow> nat \<Rightarrow> event \<Rightarrow> router \<Rightarrow> router option" where
  "endpoint_event M H n ev s =
     (case (if \<not> alive s n then None else if EPOLLIN ev then handle_read M H n s else Some (0, s)) of
        None \<Rightarrow> None
      | Some (rd, s1) \<Rightarrow> Some (after_read n ev rd s1))"

definition clean_command_pipe :: "router \<Rightarrow> router" where
  "clean_command_pipe s =
     (if g_commands_fd s \<noteq> -1
      then s\<lparr>g_commands_fd := -1, os := (os s)\<lparr>w_epoll := (w_epoll (os s))(g_commands_fd s := None)\<rparr>\<rparr> else s)"

definition open_command_pipe :: "router \<Rightarrow> int \<times> router" where
  "open_command_pipe s =
     (let (f, w) = sys_call (os s)
      in if f < 0 then (f, s\<lparr>os := w\<rparr>) else (f, s\<lparr>os := snd (add_fd f False w)\<rparr>))"

text \<open>On an error the pipe is closed and opened again; the new descriptor is not stored.\<close>

definition reopen_command_pipe :: "router \<Rightarrow> router" where
  "reopen_command_pipe s = snd (open_command_pipe (clean_command_pipe s))"

definition handle_event :: "mavlib \<Rightarrow> (bytes \<Rightarrow> u64) \<Rightarrow> event \<Rightarrow> router \<Rightarrow> router option" where
  "handle_event M H ev s =
     (case ev_src ev of
        TcpServer peer \<Rightarrow> Some (handle_tcp_connection M peer s)
      | CommandPipe input \<Rightarrow>
          handle_command_pipe M input (if EPOLLERR ev \<or> EPOLLHUP ev then reopen_command_pipe s else s)
      | ExitSignal \<Rightarrow> Some (request_exit 0 s)
      | EndpointSource n \<Rightarrow> endpoint_event M H n ev s
      | TimeoutSource t ret val \<Rightarrow>
          (case (if EPOLLIN ev then timeout_handle_read t ret val s else Some s) of
             None \<Rightarrow> None
           | Some s1 \<Rightarrow> Some (if EPOLLERR ev then request_exit 1 s1 else s1)))"

fun handle_events :: "mavlib \<Rightarrow> (bytes \<Rightarrow> u64) \<Rightarrow> event list \<Rightarrow> router \<Rightarrow> router option" where
  "handle_events M H [] s = Some s"
| "handle_events M H (ev # evs) s =
     (case handle_event M H ev s of None \<Rightarrow> None | Some s1 \<Rightarrow> handle_events M H evs s1)"

text \<open>One round of \<open>Mainloop::loop\<close> with the events \<open>epoll_wait\<close> reported.\<close>

definition loop_round :: "mavlib \<Rightarrow> (bytes \<Rightarrow> u64) \<Rightarrow> event list \<Rightarrow> router \<Rightarrow> router option" where
  "loop_round M H evs s =
     (case handle_events M H evs s of
        None \<Rightarrow> None
      | Some s1 \<Rightarrow>
          let s2 = (if should_process_tcp_hangups (os s1) then process_tcp_hangups s1 else s1)
          in Some (s2\<lparr>os := del_timeouts (os s2)\<rparr>))"

text \<open>\<open>Mainloop::loop\<close> on the rounds of events it gets; the loop ends with them or when an exit
  was requested. The epoll instance exists. Then the endpoints, the command pipe and the timers are
  given up.\<close>

fun loop_rounds :: "mavlib \<Rightarrow> (bytes \<Rightarrow> u64) \<Rightarrow> event list list \<Rightarrow> router \<Rightarrow> router option" where
  "loop_rounds M H [] s = Some s"
| "loop_rounds M H (evs # rounds) s =
     (if should_exit s then Some s
      else case loop_round M H evs s of None \<Rightarrow> None | Some s1 \<Rightarrow> loop_rounds M H rounds s1)"

definition clear_endpoints :: "router \<Rightarrow> router" where
  "clear_endpoints s = fold release (g_endpoints s) (s\<lparr>g_endpoints := []\<rparr>)"

text \<open>\<open>Mainloop::init\<close>, whose assertion fails for a main loop that was initialised before, \<open>open\<close> and \<open>teardown\<close>.\<close>

definition ml_init :: "router \<Rightarrow> router option" where
  "ml_init s = (if initialized s then None else Some (s\<lparr>initialized := True\<rparr>))"

definition ml_teardown :: "router \<Rightarrow> router" where
  "ml_teardown s = s\<lparr>resend_scheduled := False, resend_timer := None, initialized := False\<rparr>"

definition ml_open :: "router \<Rightarrow> int \<times> router" where
  "ml_open s =
     (if epollfd s \<noteq> -1 then (- EBUSY, s\<lparr>retcode := -1\<rparr>)
      else
        let (fd, w) = sys_call (os s); s1 = s\<lparr>retcode := -1, epollfd := fd, os := w\<rparr>
        in if fd = -1 then (- 1, s1) else (0, s1\<lparr>retcode := 0\<rparr>))"

definition ml_loop :: "mavlib \<Rightarrow> (bytes \<Rightarrow> u64) \<Rightarrow> event list list \<Rightarrow> router \<Rightarrow> (int \<times> router) option" where
  "ml_loop M H rounds s =
     (if epollfd s < 0 then Some (- EINVAL, s)
      else case loop_rounds M H rounds (s\<lparr>os := snd (add_timeout 5000 CbLogAggregate (os s))\<rparr>) of
        None \<Rightarrow> None
      | Some s1 \<Rightarrow>
          let s2 = clean_command_pipe (clear_endpoints s1);
              s3 = s2\<lparr>os := (os s2)\<lparr>w_timeouts := []\<rparr>, resend_scheduled := False, resend_timer := None\<rparr>
          in Some (retcode s3, s3))"

section \<open>Start-up\<close>

record configuration =
  cfg_tcp_port :: u64
  report_msg_statistics :: bool
  cfg_dedup_period_ms :: u64
  command_pipe_path :: string
  uart_configs :: "uart_config list"
  udp_configs :: "udp_config list"
  tcp_configs :: "tcp_config list"
  cfg_sniffer_sysid :: u64

definition push_object :: "endpoint \<Rightarrow> world \<Rightarrow> router \<Rightarrow> router" where
  "push_object e w s = s\<lparr>objs := objs s @ [e], g_endpoints := g_endpoints s @ [length (objs s)], os := w\<rparr>"

fun add_uarts :: "mavlib \<Rightarrow> uart_config list \<Rightarrow> router \<Rightarrow> bool \<times> router" where
  "add_uarts M [] s = (True, s)"
| "add_uarts M (conf # confs) s =
     (let e0 = UartEndpoint (length (objs s)) (c_name conf) (malloc (RX_BUF_MAX_SIZE M) (os s)) (malloc TX_BUF_MAX_SIZE (os s));
          (ok, e1, w1) = uart_setup conf e0 (os s)
      in if \<not> ok then (False, s\<lparr>os := w1\<rparr>) else add_uarts M confs (add_object e1 w1 s))"

fun add_udps :: "mavlib \<Rightarrow> udp_config list \<Rightarrow> router \<Rightarrow> bool \<times> router" where
  "add_udps M [] s = (True, s)"
| "add_udps M (conf # confs) s =
     (let (e0, w0) = UdpEndpoint (length (objs s)) (c_name conf) (malloc (RX_BUF_MAX_SIZE M) (os s))
                       (malloc TX_BUF_MAX_SIZE (os s)) (os s);
          (ok, e1, w1) = udp_setup conf e0 w0
      in if \<not> ok then (False, s\<lparr>os := udp_destroy e1 w1\<rparr>) else add_udps M confs (add_object e1 w1 s))"

fun add_tcps :: "mavlib \<Rightarrow> tcp_config list \<Rightarrow> router \<Rightarrow> bool \<times> router" where
  "add_tcps M [] s = (True, s)"
| "add_tcps M (conf # confs) s =
     (let (e0, w0) = TcpEndpoint (length (objs s)) (c_name conf) (malloc (RX_BUF_MAX_SIZE M) (os s))
                       (malloc TX_BUF_MAX_SIZE (os s)) (os s);
          (ok, e1, w1) = tcp_setup conf e0 w0
      in if \<not> ok then (False, s\<lparr>os := snd (tcp_destroy e1 w1)\<rparr>) else add_tcps M confs (push_object e1 w1 s))"

text \<open>Every endpoint with a group is linked to the other endpoints of the same group.\<close>

definition link_to_group :: "nat list \<Rightarrow> nat \<Rightarrow> endpoint list \<Rightarrow> endpoint list" where
  "link_to_group ns n h =
     (if group_name (h ! n) = [] then h
      else fold (\<lambda>other h. if other \<noteq> n \<and> group_name (h ! other) = group_name (h ! n)
                           then link_group_member n other h else h) ns h)"

definition link_groups :: "router \<Rightarrow> router" where
  "link_groups s = s\<lparr>objs := fold (link_to_group (g_endpoints s)) (g_endpoints s) (objs s)\<rparr>"

text \<open>The calls are \<open>socket\<close>, \<open>bind\<close> and \<open>listen\<close>.\<close>

definition tcp_server_open :: "router \<Rightarrow> int \<times> router" where
  "tcp_server_open s =
     (let (f, w1) = sys_call (os s)
      in if f = -1 then (-1, s\<lparr>os := w1\<rparr>)
         else let (bound, w2) = sys_call w1
              in if bound < 0 then (-1, s\<lparr>os := w2\<rparr>)
                 else let (listening, w3) = sys_call w2
                      in if listening < 0 then (-1, s\<lparr>os := w3\<rparr>)
                         else (f, s\<lparr>os := snd (add_fd f False w3)\<rparr>))"

definition add_links :: "mavlib \<Rightarrow> configuration \<Rightarrow> router \<Rightarrow> bool \<times> router" where
  "add_links M config s =
     (let s0 = (if cfg_sniffer_sysid config \<noteq> 0 then s\<lparr>sniffer_sysid := ucast (cfg_sniffer_sysid config)\<rparr> else s);
          (ok1, s1) = add_uarts M (uart_configs config) s0
      in if \<not> ok1 then (False, s1)
         else let (ok2, s2) = add_udps M (udp_configs config) s1
              in if \<not> ok2 then (False, s2)
                 else let (ok3, s3) = add_tcps M (tcp_configs config) s2
                      in if \<not> ok3 then (False, s3)
                         else
                           let s4 = link_groups s3;
                               s5 = (if cfg_tcp_port config \<noteq> 0
                                     then (let (f, s') = tcp_server_open s4 in s'\<lparr>g_tcp_fd := f\<rparr>) else s4);
                               s6 = (if command_pipe_path config \<noteq> []
                                     then (let (f, s') = open_command_pipe s5 in s'\<lparr>g_commands_fd := f\<rparr>) else s5)
                           in (True, s6))"

definition apply_options :: "configuration \<Rightarrow> router \<Rightarrow> router" where
  "apply_options config s =
     (let s1 = (if report_msg_statistics config
                then s\<lparr>os := snd (add_timeout 1000 CbPrintStatistics (os s))\<rparr> else s)
      in if cfg_dedup_period_ms config > 0
         then s1\<lparr>msg_dedup := set_dedup_period (ucast (cfg_dedup_period_ms config)) (msg_dedup s1)\<rparr>
         else s1)"

text \<open>\<open>Mainloop::add_endpoints\<close> of a configuration without a log directory; the recorders, which it
  makes before it applies the options, are added in \<open>Recording\<close>.\<close>

definition add_endpoints :: "mavlib \<Rightarrow> configuration \<Rightarrow> router \<Rightarrow> bool \<times> router" where
  "add_endpoints M config s =
     (let (ok, s1) = add_links M config s in if ok then (True, apply_options config s1) else (False, s1))"

end
