(* ===== verification/Recording.thy ===== *)
theory Recording
  imports RecorderActs Events
begin

text \<open>
  The recorders as endpoints of the main loop (mainloop.cpp): made at start-up, offered every routed
  message, run by their timers, removed by commands, stopped at the end. A recorder sends messages
  from inside its handlers, so \<open>route_msg\<close> is entered again while it runs. The part of the base class
  of a recorder is an object of type \<open>LOG\<close> in \<open>objs\<close> of the main loop, with the number \<open>lg_id\<close>.
\<close>

section \<open>State\<close>

datatype log_endpoint = Fixed logger | ByAutopilot autolog

text \<open>\<open>Mainloop\<close> with \<open>_log_endpoint\<close>, the telemetry log (which only the vector of endpoints
  owns), and what surrounds them.\<close>

record system =
  sy_env :: log_env
  sy_log :: "log_endpoint option"
  sy_tlog :: "log_ep option"

abbreviation ml :: "system \<Rightarrow> router" where "ml y \<equiv> le_ml (sy_env y)"

definition with_ml :: "router \<Rightarrow> system \<Rightarrow> system" where
  "with_ml s y = y\<lparr>sy_env := (sy_env y)\<lparr>le_ml := s\<rparr>\<rparr>"

fun log_endpoint_id :: "log_endpoint \<Rightarrow> nat" where
  "log_endpoint_id (Fixed l) = logger_id l"
| "log_endpoint_id (ByAutopilot a) = lg_id a"

definition is_log :: "nat \<Rightarrow> system \<Rightarrow> bool" where
  "is_log n y = (case sy_log y of None \<Rightarrow> False | Some ep \<Rightarrow> log_endpoint_id ep = n)"

definition is_tlog :: "nat \<Rightarrow> system \<Rightarrow> bool" where
  "is_tlog n y = (case sy_tlog y of None \<Rightarrow> False | Some t \<Rightarrow> lg_id t = n)"

section \<open>Making and stopping recorders\<close>

text \<open>The part of the base class, with the sender of the recorder's own messages among its systems.\<close>

definition add_log_base :: "mavlib \<Rightarrow> string \<Rightarrow> router \<Rightarrow> router" where
  "add_log_base M name s =
     (let n = length (objs s);
          e = Endpoint_init n LOG name (malloc (RX_BUF_MAX_SIZE M) (os s)) (malloc TX_BUF_MAX_SIZE (os s))
      in s\<lparr>objs := add_sys_comp_id n LOG_ENDPOINT_SYSTEM_ID 0 (objs s @ [e]), g_endpoints := g_endpoints s @ [n]\<rparr>)"

definition log_endpoint_name :: "mav_dialect \<Rightarrow> string" where
  "log_endpoint_name d = (case d of Ardupilotmega \<Rightarrow> ''BinLog'' | Common \<Rightarrow> ''ULog'' | Auto \<Rightarrow> ''AutoLog'')"

definition add_log_endpoints :: "loglib \<Rightarrow> log_options \<Rightarrow> log_env \<Rightarrow> system" where
  "add_log_endpoints L conf env =
     (if logs_dir conf = [] then \<lparr>sy_env = env, sy_log = None, sy_tlog = None\<rparr>
      else
        let n = length (objs (le_ml env));
            ep = (case mavlink_dialect conf of
                    Ardupilotmega \<Rightarrow> Fixed (BinLogger (BinLog_init n conf))
                  | Common \<Rightarrow> Fixed (ULogger (new_ULog n (le_os env) conf))
                  | Auto \<Rightarrow> ByAutopilot (AutoLog_init n conf));
            mark = mark_unfinished_logs (logs_dir conf);
            env1 = env\<lparr>le_ml := add_log_base (ll_mav L) (log_endpoint_name (mavlink_dialect conf)) (le_ml env),
                       le_fs := mark (le_fs env)\<rparr>
        in if log_telemetry conf
           then \<lparr>sy_env = env1\<lparr>le_ml := add_log_base (ll_mav L) ''TLog'' (le_ml env1), le_fs := mark (le_fs env1)\<rparr>,
                 sy_log = Some ep, sy_tlog = Some (LogEndpoint_init (Suc n) conf)\<rparr>
           else \<lparr>sy_env = env1, sy_log = Some ep, sy_tlog = None\<rparr>)"

text \<open>\<open>Mainloop::add_endpoints\<close>.\<close>

definition sys_add_endpoints :: "loglib \<Rightarrow> configuration \<Rightarrow> log_options \<Rightarrow> log_env \<Rightarrow> bool \<times> system" where
  "sys_add_endpoints L config conf env =
     (let (ok, s1) = add_links (ll_mav L) config (le_ml env); env1 = env\<lparr>le_ml := s1\<rparr>
      in if \<not> ok then (False, \<lparr>sy_env = env1, sy_log = None, sy_tlog = None\<rparr>)
         else let y = add_log_endpoints L conf env1 in (True, with_ml (apply_options config (ml y)) y))"

definition log_endpoint_stop :: "loglib \<Rightarrow> log_endpoint \<Rightarrow> log_env \<Rightarrow> (log_endpoint \<times> log_env) option" where
  "log_endpoint_stop L ep env =
     (case ep of
        Fixed l \<Rightarrow> do { (l1, env1) \<leftarrow> logger_stop L l env; Some (Fixed l1, env1) }
      | ByAutopilot a \<Rightarrow> do { (a1, env1) \<leftarrow> autolog_stop L a env; Some (ByAutopilot a1, env1) })"

section \<open>Routing\<close>

definition log_endpoint_write_msg :: "loglib \<Rightarrow> buffer \<Rightarrow> log_endpoint \<Rightarrow> log_env \<Rightarrow> (nat \<times> log_endpoint \<times> log_env) option" where
  "log_endpoint_write_msg L buf ep env =
     (case ep of
        Fixed l \<Rightarrow> do { (r, l1, env1) \<leftarrow> logger_write_msg L buf l env; Some (r, Fixed l1, env1) }
      | ByAutopilot a \<Rightarrow> do { (r, a1, env1) \<leftarrow> autolog_write_msg L buf a env; Some (r, ByAutopilot a1, env1) })"

text \<open>The virtual \<open>write_msg\<close> of the recorder with a number.\<close>

definition recorder_write_msg :: "loglib \<Rightarrow> nat \<Rightarrow> buffer \<Rightarrow> system \<Rightarrow> (nat \<times> system) option" where
  "recorder_write_msg L n buf y =
     (if is_log n y then do {
        (r, ep, env) \<leftarrow> log_endpoint_write_msg L buf (the (sy_log y)) (sy_env y);
        Some (r, y\<lparr>sy_log := Some ep, sy_env := env\<rparr>)
      } else do {
        (r, t, env) \<leftarrow> tlog_write_msg L buf (the (sy_tlog y)) (sy_env y);
        Some (r, y\<lparr>sy_tlog := Some t, sy_env := env\<rparr>)
      })"

definition recorder_at :: "nat \<Rightarrow> system \<Rightarrow> bool" where
  "recorder_at n y \<longleftrightarrow> is_log n y \<or> is_tlog n y"

text \<open>One round of the loop in \<open>route_msg\<close>. A recorder returns the length of the message, so none of the
  cases of a refused message applies.\<close>

definition sys_route_to :: "loglib \<Rightarrow> buffer \<Rightarrow> nat \<Rightarrow> bool \<times> system \<Rightarrow> (bool \<times> system) option" where
  "sys_route_to L buf n us =
     (let (unknown, y) = us; s = ml y;
          (accept, w1) = ep_accept_msg (sniffer_sysid s) (objs s ! n) buf (os s)
      in if recorder_at n y \<and> accept = Accepted then do {
           (r, y1) \<leftarrow> recorder_write_msg L n buf (with_ml (s\<lparr>os := w1\<rparr>) y);
           Some (False,
             if is_throttling_enabled (objs (ml y1) ! n) (msg_id (b_curr buf))
             then with_ml (on_ep (\<lambda>e w. update_throttle_info e (msg_id (b_curr buf)) w) n (ml y1)) y1
             else y1)
         }
         else let (u1, s1) = route_to buf n (unknown, s) in Some (u1, with_ml s1 y))"

fun sys_route_all :: "loglib \<Rightarrow> buffer \<Rightarrow> nat list \<Rightarrow> bool \<times> system \<Rightarrow> (bool \<times> system) option" where
  "sys_route_all L buf [] us = Some us"
| "sys_route_all L buf (n # ns) us = do { us1 \<leftarrow> sys_route_to L buf n us; sys_route_all L buf ns us1 }"

definition sys_route_msg :: "loglib \<Rightarrow> buffer \<Rightarrow> system \<Rightarrow> system option" where
  "sys_route_msg L buf y =
     do {
       (unknown, y1) \<leftarrow> sys_route_all L buf (g_endpoints (ml y)) (True, y);
       Some (if unknown then with_ml ((ml y1)\<lparr>msg_to_unknown := msg_to_unknown (ml y1) + 1\<rparr>) y1 else y1)
     }"

definition sys_process_msg :: "loglib \<Rightarrow> (bytes \<Rightarrow> u64) \<Rightarrow> nat \<Rightarrow> buffer \<Rightarrow> system \<Rightarrow> system option" where
  "sys_process_msg L H n buf y =
     (case dedup_check_msg H buf (ml y) of
        None \<Rightarrow> None
      | Some (allowed, s1) \<Rightarrow>
          if \<not> allowed then Some (with_ml (add_sys_comp_id_of n buf s1) y)
          else if \<not> allowed_by_incoming_filters (objs s1 ! n) buf then Some (with_ml s1 y)
          else sys_route_msg L buf (with_ml (add_sys_comp_id_of n buf s1) y))"

section \<open>What recorders do to the main loop\<close>

text \<open>What recorders do, in terms of the system: their numbers stay.\<close>

definition sys_acts :: "loglib \<Rightarrow> system \<Rightarrow> system \<Rightarrow> bool" where
  "sys_acts L y y1 \<longleftrightarrow> ml_acts L (ml y) (ml y1) \<and> (\<forall>n. is_log n y1 = is_log n y) \<and> (\<forall>n. is_tlog n y1 = is_tlog n y)"

lemma acts_log_endpoint_write_msg:
  assumes "log_endpoint_write_msg L buf ep env = Some (n, ep1, env1)"
  shows "log_endpoint_id ep1 = log_endpoint_id ep \<and> ml_acts L (le_ml env) (le_ml env1)"
proof (cases ep)
  case (Fixed l)
  then show ?thesis using assms acts_logger_write_msg [of L buf l env] by (auto simp: log_endpoint_write_msg_def bind_eq_Some_conv)
next
  case (ByAutopilot a)
  then show ?thesis using assms acts_autolog_write_msg [of L buf a env]
    by (auto simp: log_endpoint_write_msg_def bind_eq_Some_conv rec_acts_def)
qed

lemma acts_log_endpoint_stop:
  assumes "log_endpoint_stop L ep env = Some (ep1, env1)"
  shows "log_endpoint_id ep1 = log_endpoint_id ep \<and> ml_acts L (le_ml env) (le_ml env1)"
proof (cases ep)
  case (Fixed l)
  then show ?thesis using assms acts_logger_stop [of L l env] by (auto simp: log_endpoint_stop_def bind_eq_Some_conv)
next
  case (ByAutopilot a)
  then show ?thesis using assms acts_autolog_stop [of L a env] by (auto simp: log_endpoint_stop_def bind_eq_Some_conv rec_acts_def)
qed

lemma acts_recorder_write_msg:
  assumes "recorder_at n y" "recorder_write_msg L n buf y = Some (r, y1)" shows "sys_acts L y y1"
proof (cases "is_log n y")
  case True
  then obtain ep where "sy_log y = Some ep" by (auto simp: is_log_def split: option.splits)
  then show ?thesis using assms True acts_log_endpoint_write_msg [of L buf ep "sy_env y"]
    by (auto simp: recorder_write_msg_def bind_eq_Some_conv sys_acts_def is_log_def is_tlog_def)
next
  case False
  then obtain t where "sy_tlog y = Some t" using assms(1) by (auto simp: recorder_at_def is_tlog_def split: option.splits)
  then show ?thesis using assms False acts_tlog_write_msg [of L buf t "sy_env y"]
    by (auto simp: recorder_write_msg_def bind_eq_Some_conv sys_acts_def rec_acts_def is_log_def is_tlog_def)
qed

lemma rx_kept_os [simp]: "rx_kept s (t\<lparr>os := w\<rparr>) = rx_kept s t"
  by (simp add: rx_kept_def)

lemma rx_kept_acts: "ml_acts L s t \<Longrightarrow> rx_kept s t"
  by (induction rule: ml_acts.induct) (auto intro: rx_kept_trans [OF _ rx_kept_route_msg])

lemma with_ml_simps [simp]:
  "ml (with_ml s y) = s" "sy_log (with_ml s y) = sy_log y" "sy_tlog (with_ml s y) = sy_tlog y"
  "is_log n (with_ml s y) = is_log n y" "is_tlog n (with_ml s y) = is_tlog n y" "recorder_at n (with_ml s y) = recorder_at n y"
  "with_ml s (with_ml t y) = with_ml s y" "with_ml (ml y) y = y"
  by (simp_all add: with_ml_def is_log_def is_tlog_def recorder_at_def)

lemma rx_kept_sys_route_to:
  assumes "sys_route_to L buf n (u, y) = Some (u1, y1)" shows "rx_kept (ml y) (ml y1)"
proof -
  obtain a w1 where a: "ep_accept_msg (sniffer_sysid (ml y)) (objs (ml y) ! n) buf (os (ml y)) = (a, w1)" by fastforce
  show ?thesis
  proof (cases "recorder_at n y \<and> a = Accepted")
    case True
    then obtain r y2 where w: "recorder_write_msg L n buf (with_ml ((ml y)\<lparr>os := w1\<rparr>) y) = Some (r, y2)"
      and y1: "y1 = (if is_throttling_enabled (objs (ml y2) ! n) (msg_id (b_curr buf))
             then with_ml (on_ep (\<lambda>e w. update_throttle_info e (msg_id (b_curr buf)) w) n (ml y2)) y2 else y2)"
      using assms by (auto simp: sys_route_to_def a bind_eq_Some_conv)
    have "sys_acts L (with_ml ((ml y)\<lparr>os := w1\<rparr>) y) y2" by (rule acts_recorder_write_msg [OF _ w]) (use True in simp)
    then have "rx_kept ((ml y)\<lparr>os := w1\<rparr>) (ml y2)" using rx_kept_acts by (auto simp: sys_acts_def)
    then have 1: "rx_kept (ml y) (ml y2)" by (simp add: rx_kept_def)
    have "rx_kept (ml y2) (on_ep (\<lambda>e w. update_throttle_info e k w) n (ml y2))" for k
      unfolding on_ep_def case_prod_unfold Let_def by (rule rx_kept_set_ep) (rule same_rx_update_throttle)
    then show ?thesis using 1 y1 rx_kept_trans by auto
  next
    case False
    then show ?thesis using assms rx_kept_route_to [of "ml y" buf n u] by (auto simp: sys_route_to_def a case_prod_unfold Let_def)
  qed
qed

lemma rx_kept_sys_route_all: "sys_route_all L buf ns us = Some us1 \<Longrightarrow> rx_kept (ml (snd us)) (ml (snd us1))"
proof (induction ns arbitrary: us)
  case (Cons n ns)
  then obtain us2 where s: "sys_route_to L buf n us = Some us2" "sys_route_all L buf ns us2 = Some us1"
    by (auto simp: bind_eq_Some_conv)
  have "rx_kept (ml (snd us)) (ml (snd us2))" using rx_kept_sys_route_to [of L buf n "fst us" "snd us" "fst us2" "snd us2"] s(1) by simp
  then show ?case using Cons.IH [OF s(2)] rx_kept_trans by blast
qed simp

lemma rx_kept_sys_process_msg:
  assumes "sys_process_msg L H n buf y = Some y1" shows "rx_kept (ml y) (ml y1)"
proof -
  obtain ok s1 where d: "dedup_check_msg H buf (ml y) = Some (ok, s1)" using assms by (auto simp: sys_process_msg_def split: option.splits)
  have 1: "rx_kept (ml y) s1" using dedup_check_msg_objs [OF d] by (auto simp: rx_kept_def)
  have 2: "rx_kept (ml y) (add_sys_comp_id_of n buf s1)" by (rule rx_kept_trans [OF 1 rx_kept_learn])
  have "rx_kept (ml y) (ml y1)" if "sys_route_msg L buf (with_ml (add_sys_comp_id_of n buf s1) y) = Some y1"
    using that rx_kept_trans [OF 2] rx_kept_sys_route_all [of L buf _ "(True, with_ml (add_sys_comp_id_of n buf s1) y)"]
    by (fastforce simp: sys_route_msg_def bind_eq_Some_conv rx_kept_def)
  then show ?thesis using assms 1 2 by (auto simp: sys_process_msg_def d split: if_splits)
qed

lemma sys_process_msg_measure:
  assumes "ep_read_msg M (objs (ml y) ! n) (os (ml y)) = ((r, b), e1, w1)" "0 < r" "n < length (objs (ml y))"
    and "sys_process_msg L H n (the b) (with_ml (set_ep n e1 w1 (ml y)) y) = Some y1"
  shows "rx_measure M (objs (ml y1) ! n) < rx_measure M (objs (ml y) ! n)"
proof -
  have "same_rx e1 (objs (ml y1) ! n)"
    using rx_kept_sys_process_msg [OF assms(4)] assms(3) by (auto simp: rx_kept_def set_ep_def)
  then show ?thesis using ep_read_msg_progress(1) [OF assms(1,2)] rx_measure_same_rx by simp
qed

section \<open>The read handler\<close>

function sys_handle_read :: "loglib \<Rightarrow> (bytes \<Rightarrow> u64) \<Rightarrow> nat \<Rightarrow> system \<Rightarrow> (int \<times> system) option" where
  "sys_handle_read L H n y =
     (if n \<ge> length (objs (ml y)) then None
      else case ep_read_msg (ll_mav L) (objs (ml y) ! n) (os (ml y)) of
             ((r, b), e1, w1) \<Rightarrow>
               if r \<le> 0 then Some (r, with_ml (set_ep n e1 w1 (ml y)) y)
               else (case sys_process_msg L H n (the b) (with_ml (set_ep n e1 w1 (ml y)) y) of
                       None \<Rightarrow> None
                     | Some y1 \<Rightarrow> sys_handle_read L H n y1))"
  by pat_completeness auto
termination
proof (relation "measure (\<lambda>(L, H, n, y). rx_measure (ll_mav L) (objs (ml y) ! n))", goal_cases)
  case (2 L H n y)
  then show ?case by (auto intro: sys_process_msg_measure [OF sym])
qed simp

declare sys_handle_read.simps [simp del]

section \<open>Timers of the recorders\<close>

text \<open>The three callbacks of \<open>LogEndpoint\<close> on the object they are bound to. The logger an \<open>AutoLog\<close> owns has
  the timers; none exists before it.\<close>

datatype log_cb = StartCb | FsyncCb | AliveCb

definition ulog_cb :: "loglib \<Rightarrow> log_cb \<Rightarrow> ulog \<Rightarrow> log_env \<Rightarrow> (bool \<times> ulog \<times> log_env) option" where
  "ulog_cb L c u env =
     (case c of StartCb \<Rightarrow> Some (ulog_logging_start_timeout L u env) | FsyncCb \<Rightarrow> Some (fsync_cb u env)
      | AliveCb \<Rightarrow> alive_timeout_cb ulog_start (ulog_stop L) u env)"

definition binlog_cb :: "loglib \<Rightarrow> log_cb \<Rightarrow> binlog \<Rightarrow> log_env \<Rightarrow> (bool \<times> binlog \<times> log_env) option" where
  "binlog_cb L c u env =
     (case c of StartCb \<Rightarrow> Some (binlog_logging_start_timeout L u env) | FsyncCb \<Rightarrow> Some (fsync_cb u env)
      | AliveCb \<Rightarrow> alive_timeout_cb binlog_start (binlog_stop L) u env)"

definition tlog_cb :: "log_cb \<Rightarrow> log_ep \<Rightarrow> log_env \<Rightarrow> (bool \<times> log_ep \<times> log_env) option" where
  "tlog_cb c u env =
     (case c of StartCb \<Rightarrow> Some (tlog_logging_start_timeout u env) | FsyncCb \<Rightarrow> Some (fsync_cb u env)
      | AliveCb \<Rightarrow> alive_timeout_cb tlog_start tlog_stop u env)"

definition logger_cb :: "loglib \<Rightarrow> log_cb \<Rightarrow> logger \<Rightarrow> log_env \<Rightarrow> (bool \<times> logger \<times> log_env) option" where
  "logger_cb L c l env =
     (case l of
        ULogger u \<Rightarrow> do { (b, u1, env1) \<leftarrow> ulog_cb L c u env; Some (b, ULogger u1, env1) }
      | BinLogger u \<Rightarrow> do { (b, u1, env1) \<leftarrow> binlog_cb L c u env; Some (b, BinLogger u1, env1) })"

definition log_endpoint_cb :: "loglib \<Rightarrow> log_cb \<Rightarrow> log_endpoint \<Rightarrow> log_env \<Rightarrow> (bool \<times> log_endpoint \<times> log_env) option" where
  "log_endpoint_cb L c ep env =
     (case ep of
        Fixed l \<Rightarrow> do { (b, l1, env1) \<leftarrow> logger_cb L c l env; Some (b, Fixed l1, env1) }
      | ByAutopilot a \<Rightarrow>
          (case al_logger a of
             None \<Rightarrow> None
           | Some l \<Rightarrow> do { (b, l1, env1) \<leftarrow> logger_cb L c l env; Some (b, ByAutopilot (a\<lparr>al_logger := Some l1\<rparr>), env1) }))"

text \<open>The callback of the recorder with a number; \<open>None\<close> if there is none (any more).\<close>

definition recorder_cb :: "loglib \<Rightarrow> log_cb \<Rightarrow> nat \<Rightarrow> system \<Rightarrow> (bool \<times> system) option" where
  "recorder_cb L c n y =
     (if is_log n y then do {
        (b, ep, env) \<leftarrow> log_endpoint_cb L c (the (sy_log y)) (sy_env y);
        Some (b, y\<lparr>sy_log := Some ep, sy_env := env\<rparr>)
      } else if is_tlog n y then do {
        (b, t, env) \<leftarrow> tlog_cb c (the (sy_tlog y)) (sy_env y);
        Some (b, y\<lparr>sy_tlog := Some t, sy_env := env\<rparr>)
      } else None)"

section \<open>Statistics of the recorders\<close>

text \<open>The virtual \<open>print_statistics\<close>: an \<open>AutoLog\<close> with a logger shows the logger. Recorders have no descriptor.\<close>

definition logger_statistics :: "logger \<Rightarrow> string" where
  "logger_statistics l =
     (case l of
        ULogger u \<Rightarrow> statistics_text LOG (-1) ''ULog'' (lg_read u) (lg_write u)
      | BinLogger u \<Rightarrow> statistics_text LOG (-1) ''BinLog'' (lg_read u) (lg_write u))"

definition log_endpoint_statistics :: "log_endpoint \<Rightarrow> string" where
  "log_endpoint_statistics ep =
     (case ep of
        Fixed l \<Rightarrow> logger_statistics l
      | ByAutopilot a \<Rightarrow>
          (case al_logger a of
             Some l \<Rightarrow> logger_statistics l
           | None \<Rightarrow> statistics_text LOG (-1) ''AutoLog'' (lg_read a) (lg_write a)))"

definition ep_statistics :: "nat \<Rightarrow> system \<Rightarrow> string" where
  "ep_statistics n y =
     (if is_log n y then log_endpoint_statistics (the (sy_log y))
      else if is_tlog n y then statistics_text LOG (-1) ''TLog'' (lg_read (the (sy_tlog y))) (lg_write (the (sy_tlog y)))
      else print_statistics (objs (ml y) ! n))"

definition sys_print_statistics :: "system \<Rightarrow> system" where
  "sys_print_statistics y =
     with_ml ((ml y)\<lparr>os := put_stdout (concat (map (\<lambda>n. ep_statistics n y) (g_endpoints (ml y)))) (os (ml y))\<rparr>) y"

section \<open>Callbacks\<close>

definition sys_run_callback :: "loglib \<Rightarrow> callback \<Rightarrow> system \<Rightarrow> (bool \<times> system) option" where
  "sys_run_callback L cb y =
     (case cb of
        CbLoggingStart n \<Rightarrow> recorder_cb L StartCb n y
      | CbLogFsync n \<Rightarrow> recorder_cb L FsyncCb n y
      | CbLogAlive n \<Rightarrow> recorder_cb L AliveCb n y
      | CbPrintStatistics \<Rightarrow> Some (True, sys_print_statistics y)
      | _ \<Rightarrow>
          if \<not> cb_alive (ml y) cb then None
          else let (b, s) = run_callback cb (ml y) in Some (b, with_ml s y))"

definition sys_timeout_handle_read :: "loglib \<Rightarrow> nat \<Rightarrow> int \<Rightarrow> nat \<Rightarrow> system \<Rightarrow> system option" where
  "sys_timeout_handle_read L t ret val y =
     (case find (\<lambda>x. to_id x = t) (w_timeouts (os (ml y))) of
        None \<Rightarrow> None
      | Some x \<Rightarrow>
          if \<not> timeout_due ret val x then Some y
          else do {
            (again, y1) \<leftarrow> sys_run_callback L (to_cb x) y;
            Some (with_ml ((ml y1)\<lparr>os := timeout_after_cb x again (os (ml y1))\<rparr>) y1)
          })"

section \<open>The event loop\<close>

definition sys_endpoint_event :: "loglib \<Rightarrow> (bytes \<Rightarrow> u64) \<Rightarrow> nat \<Rightarrow> event \<Rightarrow> system \<Rightarrow> system option" where
  "sys_endpoint_event L H n ev y =
     (case (if \<not> alive (ml y) n then None else if EPOLLIN ev then sys_handle_read L H n y else Some (0, y)) of
        None \<Rightarrow> None
      | Some (rd, y1) \<Rightarrow> Some (with_ml (after_read n ev rd (ml y1)) y1))"

text \<open>The vector owned the telemetry log: once it is out of it, it is destroyed. The other
  recorder is also owned by \<open>_log_endpoint\<close>.\<close>

definition drop_tlog :: "system \<Rightarrow> system" where
  "drop_tlog y =
     (case sy_tlog y of
        None \<Rightarrow> y
      | Some t \<Rightarrow> if lg_id t \<in> set (g_endpoints (ml y)) then y else y\<lparr>sy_tlog := None\<rparr>)"

definition sys_handle_event :: "loglib \<Rightarrow> (bytes \<Rightarrow> u64) \<Rightarrow> event \<Rightarrow> system \<Rightarrow> system option" where
  "sys_handle_event L H ev y =
     (case ev_src ev of
        TcpServer peer \<Rightarrow> Some (with_ml (handle_tcp_connection (ll_mav L) peer (ml y)) y)
      | CommandPipe input \<Rightarrow>
          (case handle_command_pipe (ll_mav L) input
                  (if EPOLLERR ev \<or> EPOLLHUP ev then reopen_command_pipe (ml y) else ml y) of
             None \<Rightarrow> None
           | Some s \<Rightarrow> Some (drop_tlog (with_ml s y)))
      | ExitSignal \<Rightarrow> Some (with_ml (request_exit 0 (ml y)) y)
      | EndpointSource n \<Rightarrow> sys_endpoint_event L H n ev y
      | TimeoutSource t ret val \<Rightarrow>
          (case (if EPOLLIN ev then sys_timeout_handle_read L t ret val y else Some y) of
             None \<Rightarrow> None
           | Some y1 \<Rightarrow> Some (if EPOLLERR ev then with_ml (request_exit 1 (ml y1)) y1 else y1)))"

fun sys_handle_events :: "loglib \<Rightarrow> (bytes \<Rightarrow> u64) \<Rightarrow> event list \<Rightarrow> system \<Rightarrow> system option" where
  "sys_handle_events L H [] y = Some y"
| "sys_handle_events L H (ev # evs) y = do { y1 \<leftarrow> sys_handle_event L H ev y; sys_handle_events L H evs y1 }"

definition sys_loop_round :: "loglib \<Rightarrow> (bytes \<Rightarrow> u64) \<Rightarrow> event list \<Rightarrow> system \<Rightarrow> system option" where
  "sys_loop_round L H evs y =
     do {
       y1 \<leftarrow> sys_handle_events L H evs y;
       let s2 = (if should_process_tcp_hangups (os (ml y1)) then process_tcp_hangups (ml y1) else ml y1);
       Some (with_ml (s2\<lparr>os := del_timeouts (os s2)\<rparr>) y1)
     }"

fun sys_loop_rounds :: "loglib \<Rightarrow> (bytes \<Rightarrow> u64) \<Rightarrow> event list list \<Rightarrow> system \<Rightarrow> system option" where
  "sys_loop_rounds L H [] y = Some y"
| "sys_loop_rounds L H (evs # rounds) y =
     (if should_exit (ml y) then Some y
      else do { y1 \<leftarrow> sys_loop_round L H evs y; sys_loop_rounds L H rounds y1 })"

text \<open>The end of \<open>Mainloop::loop\<close>: the recorder of flight logs is stopped, the telemetry log goes with
  the vector of endpoints.\<close>

definition sys_stop :: "loglib \<Rightarrow> system \<Rightarrow> system option" where
  "sys_stop L y =
     (case sy_log y of
        None \<Rightarrow> Some y
      | Some ep \<Rightarrow> do {
          (ep1, env1) \<leftarrow> log_endpoint_stop L ep (sy_env y);
          Some (y\<lparr>sy_log := Some ep1, sy_env := env1\<rparr>)
        })"

definition loop_start :: "system \<Rightarrow> system" where
  "loop_start y = with_ml ((ml y)\<lparr>os := snd (add_timeout 5000 CbLogAggregate (os (ml y)))\<rparr>) y"

definition sys_loop :: "loglib \<Rightarrow> (bytes \<Rightarrow> u64) \<Rightarrow> event list list \<Rightarrow> system \<Rightarrow> (int \<times> system) option" where
  "sys_loop L H rounds y =
     (if epollfd (ml y) < 0 then Some (- EINVAL, y)
      else do {
       y1 \<leftarrow> sys_loop_rounds L H rounds (loop_start y);
       y2 \<leftarrow> sys_stop L y1;
       let s = clean_command_pipe (clear_endpoints (ml y2));
       Some (retcode s,
         drop_tlog (with_ml (s\<lparr>os := (os s)\<lparr>w_timeouts := []\<rparr>, resend_scheduled := False, resend_timer := None\<rparr>) y2))
     })"

end
