(* ===== verification/UlogSafety.thy ===== *)
theory UlogSafety
  imports RecorderActs
begin

text \<open>
  Memory safety of the ULog recorder (ulog.cpp): every handler keeps the index and the lengths of its two
  buffers inside them (\<open>ulog_inv\<close>), whatever the pieces of the log contain and whatever
  part of a write the kernel takes.
\<close>

section \<open>Writing\<close>


lemma ulog_inv_fields:
  "ulog_inv (u\<lparr>lg_file := f\<rparr>) = ulog_inv u"
  "ulog_inv (u\<lparr>waiting_first_msg_offset := b\<rparr>) = ulog_inv u" "ulog_inv (u\<lparr>waiting_header := b\<rparr>) = ulog_inv u"
  "ulog_inv (u\<lparr>ul_expected_seq := k\<rparr>) = ulog_inv u" "ulog_inv (count_logged buf u) = ulog_inv u" "ulog_inv (learn_target L buf u) = ulog_inv u"
  "ulog_inv (u\<lparr>timeout_write_total := t\<rparr>) = ulog_inv u" "ulog_inv (u\<lparr>lg_config := c\<rparr>) = ulog_inv u"
  by (simp_all add: ulog_inv_def count_logged_def learn_target_def)

lemma ulog_inv_flush_partial: "flush_partial u env = (b, u1, env1) \<Longrightarrow> ulog_inv u \<Longrightarrow> ulog_inv u1"
proof (induction u env arbitrary: b u1 env1 rule: flush_partial.induct)
  case (1 u env)
  obtain res fs1 where w: "fs_write (lg_file u) (take (unat (buffer_partial_len u)) (buffer_partial u)) (le_fs env) = (res, fs1)" by fastforce
  show ?case
  proof (cases "\<exists>r. buffer_partial_len u \<noteq> 0 \<and> res = Inr r \<and> r \<noteq> 0")
    case True
    then obtain r where r: "buffer_partial_len u \<noteq> 0" "res = Inr r" "r \<noteq> 0" by blast
    let ?len = "buffer_partial_len u - of_nat r"
    let ?u = "u\<lparr>buffer_partial_len := ?len, buffer_partial := memmove_down (buffer_partial u) r (unat ?len)\<rparr>"
    have rn: "r \<le> unat (buffer_partial_len u)" using fs_write_le [OF w [unfolded r(2)]] by simp
    then have l: "unat ?len = unat (buffer_partial_len u) - r" by (rule unat_sub_of_nat)
    have "ulog_inv ?u" using 1(3) rn by (auto simp: ulog_inv_def l length_memmove_down)
    moreover have "flush_partial ?u (env\<lparr>le_fs := fs1\<rparr>) = (b, u1, env1)"
      using 1(2) r by (simp add: flush_partial.simps [of u env] w Let_def)
    ultimately show ?thesis using 1(1) [OF r(1) w [symmetric] r(2,3) refl] by blast
  next
    case False
    then show ?thesis using 1(2,3) by (cases res) (auto simp: flush_partial.simps [of u env] w split: if_splits)
  qed
qed

lemma ulog_inv_flush_messages: "flush_messages u env = Some x \<Longrightarrow> ulog_inv u \<longrightarrow> ulog_inv (fst (snd x))"
proof (rule flush_messages.raw_induct [where P = "\<lambda>u env x. ulog_inv u \<longrightarrow> ulog_inv (fst (snd x))"], goal_cases)
  case (1 f u env x)
  note IH = 1(2) and step = 1(3)
  show ?case
  proof
    assume i: "ulog_inv u"
    define h where "h = drop (unat (buffer_index u)) (ul_buffer u)"
    define z where "z = msg_size_at h + 3"
    define d where "d = u\<lparr>buffer_len := buffer_len u - z, buffer_index := buffer_index u + z\<rparr>"
    obtain res fs1 where w: "fs_write (lg_file u) (take (unat z) h) (le_fs env) = (res, fs1)" by fastforce
    show "ulog_inv (fst (snd x))"
    proof (cases "unat (buffer_len u) \<ge> sizeof_ulog_msg_header \<and> buffer_partial_len u = 0 \<and> \<not> z > buffer_len u")
      case False
      then show ?thesis using 1(3) i by (auto simp: h_def [symmetric] z_def [symmetric] Let_def split: if_splits)
    next
      case True
      then have "z \<le> buffer_len u" by (simp add: not_less)
      then have "unat z \<le> unat (buffer_len u)" by (simp only: word_le_nat_alt)
      then have id: "ulog_inv d" unfolding d_def using consume_message(1) [OF i refl] by simp
      define e where "e = env\<lparr>le_fs := fs1\<rparr>"
      consider (a) "res = Inr (unat z)" | (err) er where "res = Inl er" | (short) r where "res = Inr r" "r \<noteq> unat z" by (cases res) auto
      then show ?thesis
      proof cases
        case a
        then have "f d e = Some x" using step True by (simp add: Let_def h_def [symmetric] z_def [symmetric] d_def [symmetric] e_def [symmetric] w)
        from IH [OF this] id show ?thesis by simp
      next
        case err
        then show ?thesis using step True i by (auto simp: Let_def h_def [symmetric] z_def [symmetric] w)
      next
        case short
        define p where "p = z - of_nat r"
        have "ulog_inv (u\<lparr>buffer_partial_len := 0\<rparr>)" using i by (simp add: ulog_inv_def)
        moreover have "ulog_inv (d\<lparr>buffer_partial_len := p, buffer_partial := memwrite (buffer_partial u) 0 (memread h r (unat p))\<rparr>)"
          if "unat p \<le> BUFFER_LEN div 2"
          using id that by (simp add: d_def ulog_inv_def memwrite_def memread_def)
        ultimately show ?thesis using step True i short
          by (auto simp: Let_def h_def [symmetric] z_def [symmetric] d_def [symmetric] p_def [symmetric] w split: if_splits)
      qed
    qed
  qed
qed

lemma ulog_inv_logging_flush: "logging_flush u env = Some (b, u1, env1) \<Longrightarrow> ulog_inv u \<Longrightarrow> ulog_inv u1"
proof -
  assume f: "logging_flush u env = Some (b, u1, env1)" and i: "ulog_inv u"
  obtain x u2 env2 where p: "flush_partial u env = (x, u2, env2)" by (metis prod_cases3)
  show ?thesis
    using f ulog_inv_flush_partial [OF p i] ulog_inv_flush_messages [of u2 env2] by (cases x) (auto simp: logging_flush_def p)
qed

lemma ulog_inv_stop_flush: "stop_flush u env = Some x \<Longrightarrow> ulog_inv u \<longrightarrow> ulog_inv (fst x)"
proof (rule stop_flush.raw_induct [where P = "\<lambda>u env x. ulog_inv u \<longrightarrow> ulog_inv (fst x)"], goal_cases)
  case (1 f u env x)
  show ?case
  proof (cases "buffer_partial_len u = 0")
    case False
    obtain ok u1 env1 where g: "logging_flush u env = Some (ok, u1, env1)" "(if ok then f u1 env1 else Some (u1, env1)) = Some x"
      using 1(3) False by (auto simp: bind_eq_Some_conv)
    then show ?thesis using ulog_inv_logging_flush [OF g(1)] 1(2) [of u1 env1] by (cases ok) auto
  qed (use 1(3) in auto)
qed

text \<open>Operations of the base class leave the fields of a recorder's own class alone.\<close>

lemma send_msg_more: "log_ep.more (fst (send_msg L m t u env)) = log_ep.more u"
  by (simp add: send_msg_def Let_def)

lemma LogEndpoint_stop_more: "log_ep.more (fst (LogEndpoint_stop u env)) = log_ep.more u"
  by (simp add: LogEndpoint_stop_def Let_def)

lemma get_file_more: "get_file ext u env = Some (r, u1, env1) \<Longrightarrow> log_ep.more u1 = log_ep.more u"
proof -
  assume g: "get_file ext u env = Some (r, u1, env1)"
  obtain x fs1 where "open_or_create_dir (logs_dir (lg_config u)) (le_fs env) = Some (x, fs1)"
    using g by (auto simp: get_file_def bind_eq_Some_conv Let_def)
  then show ?thesis using g by (cases x) (auto simp: get_file_def Let_def case_prod_unfold)
qed

lemma LogEndpoint_start_more: "LogEndpoint_start ext u env = Some (ok, u1, env1) \<Longrightarrow> log_ep.more u1 = log_ep.more u"
  by (auto simp: LogEndpoint_start_def Let_def bind_eq_Some_conv case_prod_unfold close_log_def split: if_splits dest!: get_file_more)

lemma ulog_inv_more: "log_ep.more (u1 :: ulog) = log_ep.more u \<Longrightarrow> ulog_inv u1 = ulog_inv u"
  by (cases u1; cases u) (simp add: ulog_inv_def)

lemma ulog_inv_start: "ulog_start u env = Some (ok, u1, env1) \<Longrightarrow> ulog_inv u \<Longrightarrow> ulog_inv u1"
proof -
  assume s: "ulog_start u env = Some (ok, u1, env1)" and i: "ulog_inv u"
  obtain ok' v e where l: "LogEndpoint_start ''ulg'' u env = Some (ok', v, e)"
    using s by (cases "LogEndpoint_start ''ulg'' u env") (auto simp: ulog_start_def)
  have "ulog_inv v" using ulog_inv_more [OF LogEndpoint_start_more [OF l]] i by simp
  then show ?thesis using s l by (cases ok') (auto simp: ulog_start_def ulog_inv_def)
qed

lemma ulog_inv_stop: "ulog_stop L u env = Some (u1, env1) \<Longrightarrow> ulog_inv u \<Longrightarrow> ulog_inv u1"
proof -
  assume s: "ulog_stop L u env = Some (u1, env1)" and i: "ulog_inv u"
  show ?thesis
  proof (cases "lg_file u = -1")
    case False
    obtain u2 env2 where m: "send_msg L (CommandLong (CMD_LOGGING_STOP L) (target_system_id u)) (target_system_id u) u env = (u2, env2)" by fastforce
    then obtain u3 env3 where f: "stop_flush (u2\<lparr>buffer_len := 0\<rparr>) env2 = Some (u3, env3)" "(u1, env1) = LogEndpoint_stop u3 env3"
      using s False by (auto simp: ulog_stop_def bind_eq_Some_conv)
    have "ulog_inv u2" using ulog_inv_more [OF send_msg_more] i m by (metis fst_conv)
    then have "ulog_inv (u2\<lparr>buffer_len := 0\<rparr>)" by (simp add: ulog_inv_def)
    then have "ulog_inv u3" using ulog_inv_stop_flush [OF f(1)] by simp
    then show ?thesis using ulog_inv_more [OF LogEndpoint_stop_more, of u3 env3] f(2) by (metis fst_conv)
  qed (use s i in \<open>simp add: ulog_stop_def\<close>)
qed

lemma ulog_inv_restart: "ulog_restart L u env = Some (u1, env1) \<Longrightarrow> ulog_inv u \<Longrightarrow> ulog_inv u1"
  by (auto simp: ulog_restart_def bind_eq_Some_conv dest: ulog_inv_stop ulog_inv_start)

lemma make_room_inv: "ulog_inv u \<Longrightarrow> ulog_inv (make_room n u)"
  by (auto simp: make_room_def ulog_inv_def Let_def length_memmove_down)

lemma ulog_inv_append_piece: "append_piece m u env = Some (u1, env1) \<Longrightarrow> ulog_inv u \<Longrightarrow> ulog_inv u1"
proof -
  assume a: "append_piece m u env = Some (u1, env1)" and i: "ulog_inv u"
  define r where "r = make_room (ld_length m) u"
  have ir: "ulog_inv r" unfolding r_def by (rule make_room_inv [OF i])
  define v where "v = r\<lparr>waiting_first_msg_offset := False\<rparr>"
  have iv: "ulog_inv v" using ir by (simp add: v_def ulog_inv_def)
  define bg where "bg = (if waiting_first_msg_offset r then ld_first_message_offset m else 0)"
  define len where "len = ld_length m - bg"
  define pos where "pos = unat (buffer_index v) + unat (buffer_len v)"
  define x where "x = v\<lparr>ul_buffer := memwrite (ul_buffer v) pos (read_over (le_os env) (ld_data m) (unat bg) (unat len)),
                   buffer_len := buffer_len v + ucast len\<rparr>"
  have ix: "ulog_inv x" if "\<not> pos + unat len > BUFFER_LEN"
  proof -
    have u: "unat (ucast len :: u16) = unat len" by simp
    have "unat (buffer_len v + ucast len) = unat (buffer_len v) + unat len"
      using that u by (subst unat_add_lem [THEN iffD1]) (auto simp: pos_def)
    moreover have "length (read_over (le_os env) (ld_data m) (unat bg) (unat len)) = unat len" by (simp add: read_over_def)
    ultimately show ?thesis using iv that by (simp add: x_def ulog_inv_def length_memwrite pos_def)
  qed
  have "u1 = r \<or> u1 = v \<or> (\<not> pos + unat len > BUFFER_LEN \<and> (\<exists>b e3. logging_flush x env = Some (b, u1, e3)))"
    using a by (auto simp: append_piece_def r_def [symmetric] v_def [symmetric] bg_def [symmetric] len_def [symmetric] pos_def [symmetric]
        x_def [symmetric] Let_def bind_eq_Some_conv split: if_splits)
  then show ?thesis using ir iv ix ulog_inv_logging_flush by blast
qed

lemma ulog_inv_data_process:
  assumes "logging_data_process L m u env = Some (u1, env1)" "ulog_inv u" shows "ulog_inv u1"
proof -
  obtain h d u2 where q: "logging_seq (ld_sequence m) u = (h, d, u2)" by (metis prod_cases3)
  have i: "ulog_inv u2" using q assms(2) by (auto simp: logging_seq_def ulog_inv_fields split: if_splits)
  have t: "ulog_inv u3" if "take_header m u2 env = Some (m3, u3)" "\<not> unat (ld_length m) < ULOG_HEADER_SIZE" for m3 u3
  proof -
    have "length (memwrite (buffer_partial u2) 0 (take ULOG_HEADER_SIZE (ld_data m))) = BUFFER_LEN div 2"
      using i by (simp add: ulog_inv_def memwrite_def)
    then show ?thesis using that i by (auto simp: take_header_def Let_def ulog_inv_def split: if_splits)
  qed
  have r: "ulog_inv u4" if "resync d u3 env = Some (u4, env4)" "ulog_inv u3" for u3 u4 env4
    using that ulog_inv_logging_flush [of u3 env] by (auto simp: resync_def bind_eq_Some_conv ulog_inv_def split: if_splits)
  show ?thesis
    using assms(1) i t r ulog_inv_append_piece ulog_inv_restart [of L u2 env u1 env1]
    by (auto simp: logging_data_process_def q bind_eq_Some_conv split: if_splits)
qed

lemma ulog_inv_auto_start_stop:
  assumes "handle_auto_start_stop L ulog_start (ulog_stop L) buf u env = Some (u1, env1)" "ulog_inv u"
  shows "ulog_inv u1"
proof -
  have "ulog_inv u1" if s: "start_or_disable ulog_start u env = Some (u1, env1)"
  proof -
    obtain ok v where "ulog_start u env = Some (ok, v, env1)" "u1 = v \<or> u1 = v\<lparr>lg_config := (lg_config v)\<lparr>lo_mode := disabled\<rparr>\<rparr>"
      using s by (cases "ulog_start u env") (auto simp: start_or_disable_def split: if_splits)
    then show ?thesis using ulog_inv_start assms(2) by (auto simp: ulog_inv_fields)
  qed
  then show ?thesis using assms ulog_inv_stop [of L u env u1 env1]
    by (auto simp: handle_auto_start_stop_def Let_def split: if_splits)
qed

section \<open>Handlers\<close>

lemma ulog_handle_ack_more: "log_ep.more (fst (snd (ulog_handle_ack L c u env))) = log_ep.more u"
  by (simp add: ulog_handle_ack_def remove_logging_start_timeout_def start_alive_timeout_def case_prod_unfold Let_def)

lemma ulog_inv_write_msg:
  assumes "ulog_write_msg L buf u env = Some (n, u1, env1)" "ulog_inv u" shows "ulog_inv u1"
proof -
  have 1: "ulog_inv u2"
    if "handle_auto_start_stop L ulog_start (ulog_stop L) buf (learn_target L buf u) env = Some (u2, env2)" for u2 env2
    using ulog_inv_auto_start_stop [OF that] assms(2) by (simp add: ulog_inv_fields)
  show ?thesis using assms(1)
  proof (cases rule: ulog_write_msgE)
    case (2 c u2 env2)
    then show ?thesis using 1 ulog_inv_more [OF ulog_handle_ack_more, of L c u2 env2] by (auto simp: ulog_inv_fields)
  next
    case (3 m p u2 env2 u4)
    have "ulog_inv (fst p)" using 3(1,2) 1 ulog_inv_more [OF send_msg_more] by auto
    then show ?thesis using ulog_inv_data_process [OF 3(3)] 3(4) by (simp add: ulog_inv_fields)
  qed (use 1 in auto)
qed

lemma new_ULog_inv: "ulog_inv (new_ULog k w conf)"
  by (simp add: ulog_inv_def new_ULog_def ULog_init_def log_ep.defs ulog.defs)

end
