(* ===== verification/Routing.thy ===== *)
theory Routing
  imports Router
begin

text \<open>
  Facts about the routing of one message among the links: a message is not offered to an endpoint that
  knows its source; an accepted message is appended, whole, to what the endpoint sends, or
  counted as dropped when it does not fit, and no other endpoint is touched; the resend timer neither fires
  early nor more than a millisecond late; and the read handler of a router without recorders
  always returns. \<open>Delivery\<close> puts them together with the recorders.
\<close>

section \<open>A message is not sent back\<close>

definition msg_known :: "endpoint \<Rightarrow> buffer \<Rightarrow> bool" where
  "msg_known e b \<longleftrightarrow> knows e (src_sysid (b_curr b)) (src_compid (b_curr b))"

lemma accept_known: "msg_known e b \<Longrightarrow> fst (ep_accept_msg sn e b w) \<in> {Rejected, Filtered}"
  by (auto simp: ep_accept_msg_def udp_accept_msg_def tcp_accept_msg_def accept_msg_unfold msg_known_def Let_def
      split: ep_type.split)

lemma route_to_other: "i \<noteq> n \<Longrightarrow> objs (snd (route_to b n (u, s))) ! i = objs s ! i"
  by (simp add: route_to_def set_ep_def case_prod_unfold Let_def split: accept_state.split)

lemma route_to_known: "msg_known (objs s ! n) b \<Longrightarrow> objs (snd (route_to b n (u, s))) = objs s"
  using accept_known [of "objs s ! n" b "sniffer_sysid s" "os s"]
  by (auto simp: route_to_def case_prod_unfold Let_def split: accept_state.split)

lemma route_to_keeps_known:
  "msg_known (objs s ! i) b \<Longrightarrow> objs (snd (route_to b n (u, s))) ! i = objs s ! i"
  by (cases "i = n") (simp_all add: route_to_known route_to_other)

lemma route_fold_known:
  "msg_known (objs s ! i) b \<Longrightarrow> objs (snd (fold (route_to b) ns (u, s))) ! i = objs s ! i"
proof (induction ns arbitrary: u s)
  case (Cons n ns)
  obtain u1 s1 where 1: "route_to b n (u, s) = (u1, s1)" by fastforce
  have "objs s1 ! i = objs s ! i" using route_to_keeps_known [OF Cons.prems, of n u] 1 by simp
  then show ?case using Cons.IH [of s1 u1] Cons.prems 1 by simp
qed simp

lemma route_msg_known: "msg_known (objs s ! i) b \<Longrightarrow> objs (route_msg b s) ! i = objs s ! i"
  using route_fold_known [of s i b "g_endpoints s" True]
  by (simp add: route_msg_def case_prod_unfold Let_def)

text \<open>Handling a message changes the endpoint it arrived on only in the table of systems.\<close>

definition only_ids_differ :: "endpoint \<Rightarrow> endpoint \<Rightarrow> bool" where
  "only_ids_differ e e' \<longleftrightarrow> e'\<lparr>sys_comp_ids := []\<rparr> = e\<lparr>sys_comp_ids := []\<rparr>"

lemma only_ids_differ_learn:
  "i < length (objs s) \<Longrightarrow> only_ids_differ (objs s ! i) (objs (add_sys_comp_id_of n b s) ! i)"
  using add_calls_frame [of i "objs s"]
  by (simp add: only_ids_differ_def add_sys_comp_id_of_def add_sys_comp_id_def)

lemma learn_known: "n < length (objs s) \<Longrightarrow> msg_known (objs (add_sys_comp_id_of n b s) ! n) b"
  by (simp add: msg_known_def add_sys_comp_id_of_def add_sys_comp_id_knows)

lemma process_msg_arrival:
  assumes "process_msg H n b s = Some s'" "n < length (objs s)"
  shows "only_ids_differ (objs s ! n) (objs s' ! n)"
proof -
  obtain ok s1 where d: "dedup_check_msg H b s = Some (ok, s1)"
    using assms(1) by (auto simp: process_msg_def split: option.splits)
  have s1: "objs s1 = objs s" using dedup_check_msg_objs [OF d] by auto
  have l: "only_ids_differ (objs s ! n) (objs (add_sys_comp_id_of n b s1) ! n)"
    using only_ids_differ_learn [of n s1 n b] assms(2) s1 by simp
  have "objs (route_msg b (add_sys_comp_id_of n b s1)) ! n = objs (add_sys_comp_id_of n b s1) ! n"
    using learn_known [of n s1 b] assms(2) s1 by (simp add: route_msg_known)
  then show ?thesis
    using assms(1) l s1 by (auto simp: process_msg_def d only_ids_differ_def split: if_splits)
qed

section \<open>Reading with another state of the links\<close>

lemma sync_same_rx:
  assumes "same_rx e e'"
  shows "rel_option same_rx (sync_to_stx M e) (sync_to_stx M e')"
proof -
  have f: "rx_data e' = rx_data e" "rx_len e' = rx_len e" "rx_bytes e' = rx_bytes e"
    using assms by (simp_all add: same_rx_def rx_bytes_def)
  show ?thesis using assms by (simp add: sync_to_stx_def f Let_def same_rx_def)
qed

lemma decode_same_rx:
  assumes "same_rx e e'"
  shows "rel_prod (=) same_rx (decode_packet M e) (decode_packet M e')"
proof (cases "sync_to_stx M e")
  case None
  then have "sync_to_stx M e' = None" using sync_same_rx [OF assms, of M] by simp
  with None assms show ?thesis by (simp add: decode_packet_def same_rx_def)
next
  case (Some e1)
  then obtain e1' where 1: "sync_to_stx M e' = Some e1'" "same_rx e1 e1'"
    using sync_same_rx [OF assms, of M] by (auto simp: option_rel_Some1)
  have f: "rx_data e1' = rx_data e1" "rx_len e1' = rx_len e1" "rstat e1' = rstat e1" "ep_type e1' = ep_type e1"
    using 1(2) by (simp_all add: same_rx_def)
  show ?thesis
  proof (cases "parse_header M (rx_data e1) (rx_len e1)")
    case None
    then show ?thesis using 1(2) by (simp add: decode_packet_def Some 1(1) f)
  next
    case h: (Some h)
    then show ?thesis using 1(2)
      by (cases "get_msg_entry M (ph_msgid h)") (simp_all add: decode_packet_def Some 1(1) f Let_def same_rx_def)
  qed
qed

lemma discard_same_rx:
  assumes "same_rx e e'"
  shows "rel_prod (=) same_rx (discard_last_packet e) (discard_last_packet e')"
proof -
  have f: "rx_data e' = rx_data e" "rx_len e' = rx_len e" "last_packet_len e' = last_packet_len e"
    using assms by (simp_all add: same_rx_def)
  show ?thesis using assms by (simp add: discard_last_packet_def f Let_def) (simp add: same_rx_def)
qed

text \<open>Between two calls of \<open>read_msg\<close> other state of the endpoint and the world may change: the
  buffered packets are handed out all the same.\<close>

lemma ep_read_msg_fst: "fst (ep_read_msg M e w) = fst (Endpoint_read_msg M e w)"
  by (auto simp: ep_read_msg_def case_prod_unfold Let_def prod_eq_iff split: ep_type.split option.split)

lemma ep_read_msg_snd: "same_rx (fst (snd (Endpoint_read_msg M e w))) (fst (snd (ep_read_msg M e w)))"
  by (simp add: ep_read_msg_def case_prod_unfold Let_def same_rx_def split: ep_type.split option.split)

lemma ep_read_msg_same:
  assumes "same_rx e e'" "last_packet_len e \<noteq> 0" "ep_fd e \<ge> 0" "ep_fd e' \<ge> 0"
  shows "fst (ep_read_msg M e' w') = fst (ep_read_msg M e w)"
    and "same_rx (fst (snd (ep_read_msg M e w))) (fst (snd (ep_read_msg M e' w')))"
proof -
  have l: "last_packet_len e' \<noteq> 0" using assms by (simp add: same_rx_def)
  have d: "same_rx (snd (discard_last_packet e)) (snd (discard_last_packet e'))"
    using discard_same_rx [OF assms(1)] by (auto simp: rel_prod_sel)
  note dd = decode_same_rx [OF d, of M]
  have "Endpoint_read_msg M x v = (fst (decode_packet M (snd (discard_last_packet x))), snd (decode_packet M (snd (discard_last_packet x))), v)"
    if "last_packet_len x \<noteq> 0" "ep_fd x \<ge> 0" for x v
    using that by (simp add: Endpoint_read_msg_def discard_last_packet_def case_prod_unfold Let_def)
  note r = this [OF assms(2,3), of w] this [OF l assms(4), of w']
  show "fst (ep_read_msg M e' w') = fst (ep_read_msg M e w)"
    using dd by (simp add: ep_read_msg_fst r rel_prod_sel)
  have "same_rx (fst (snd (Endpoint_read_msg M e w))) (fst (snd (Endpoint_read_msg M e' w')))"
    using dd by (simp add: r rel_prod_sel)
  with ep_read_msg_snd [of M e w] ep_read_msg_snd [of M e' w']
  show "same_rx (fst (snd (ep_read_msg M e w))) (fst (snd (ep_read_msg M e' w')))"
    by (simp add: same_rx_def)
qed


lemma ep_fd_decode [simp]: "ep_fd (snd (decode_packet M e)) = ep_fd e"
proof (cases "sync_to_stx M e")
  case (Some e1)
  then have "ep_fd e1 = ep_fd e" by (auto simp: sync_to_stx_def Let_def split: if_splits)
  then show ?thesis by (simp add: decode_packet_def Some Let_def split: option.split)
qed (simp add: decode_packet_def)

lemma Endpoint_read_msg_fd:
  assumes "fst (fst (Endpoint_read_msg M e w)) > 0"
  shows "ep_fd (fst (snd (Endpoint_read_msg M e w))) = ep_fd e" "ep_fd e \<ge> 0"
proof -
  show fd: "ep_fd e \<ge> 0" using assms by (auto simp: Endpoint_read_msg_def split: if_splits)
  show "ep_fd (fst (snd (Endpoint_read_msg M e w))) = ep_fd e"
  proof (cases "last_packet_len e = 0")
    case True
    obtain r bs e1 w1 where rd: "ep_read (RX_BUF_MAX_SIZE M - rx_len e) e w = ((r, bs), e1, w1)"
      by (metis prod.collapse)
    have "r > 0" using assms fd True
      by (auto simp: Endpoint_read_msg_def discard_last_packet_def rd split: if_splits)
    then have "ep_fd e1 = ep_fd e" using ep_read_frame(4) [OF rd] by simp
    then show ?thesis using fd True \<open>r > 0\<close>
      by (simp add: Endpoint_read_msg_def discard_last_packet_def rd case_prod_unfold Let_def)
  next
    case False
    then show ?thesis using fd
      by (simp add: Endpoint_read_msg_def discard_last_packet_def case_prod_unfold Let_def)
  qed
qed

lemma ep_read_msg_fd:
  assumes "ep_read_msg M e w = ((r, b), e1, w1)" "r > 0"
  shows "ep_fd e1 = ep_fd e" "ep_fd e \<ge> 0" "last_packet_len e1 \<noteq> 0"
proof -
  obtain e2 w2 where 1: "Endpoint_read_msg M e w = ((r, b), e2, w2)" "e1 = e2\<lparr>uart := uart e1\<rparr>"
    using ep_read_msg_split [OF assms(1)] by blast
  show "ep_fd e1 = ep_fd e" "ep_fd e \<ge> 0"
    using Endpoint_read_msg_fd [of M e w] assms(2) uart_update_fields(5) [OF 1(2)] by (simp_all add: 1(1))
  show "last_packet_len e1 \<noteq> 0"
    using Endpoint_read_msg_progress(3) [OF 1(1) assms(2)] uart_update_fields(4) [OF 1(2)] by simp
qed

lemma read_loop_same:
  assumes "same_rx e e'" "last_packet_len e \<noteq> 0" "ep_fd e \<ge> 0" "ep_fd e' = ep_fd e"
  shows "fst (read_loop M e' w') = fst (read_loop M e w)"
  using assms
proof (induction M e w arbitrary: e' w' rule: read_loop.induct)
  case (1 M e w)
  obtain r b e1 w1 where r: "ep_read_msg M e w = ((r, b), e1, w1)" by (metis prod.collapse)
  obtain r' b' e1' w1' where r': "ep_read_msg M e' w' = ((r', b'), e1', w1')" by (metis prod.collapse)
  have "r' = r" "b' = b" "same_rx e1 e1'"
    using ep_read_msg_same [OF "1.prems"(1,2,3), where M = M and w' = w' and w = w] "1.prems"(3,4) by (simp_all add: r r')
  show ?case
  proof (cases "r \<le> 0")
    case True
    then show ?thesis using r r' \<open>r' = r\<close> by (simp add: read_loop.simps [of M e] read_loop.simps [of M e'])
  next
    case False
    have fd: "ep_fd e1 = ep_fd e" "last_packet_len e1 \<noteq> 0" "ep_fd e1' = ep_fd e'"
      using ep_read_msg_fd [OF r] ep_read_msg_fd [OF r'] False \<open>r' = r\<close> by simp_all
    have "fst (read_loop M e1' w1') = fst (read_loop M e1 w1)"
      by (rule "1.IH" [OF r [symmetric] refl refl False \<open>same_rx e1 e1'\<close> fd(2)]) (use "1.prems"(3,4) fd in simp_all)
    then show ?thesis using r r' \<open>r' = r\<close> \<open>b' = b\<close> False
      by (simp add: read_loop.simps [of M e] read_loop.simps [of M e'] case_prod_unfold)
  qed
qed

lemma only_ids_differ_rx: "only_ids_differ e e' \<Longrightarrow> same_rx e e' \<and> ep_fd e' = ep_fd e"
  unfolding only_ids_differ_def
  by (drule arg_cong [where f = "\<lambda>e. (rx_data e, rx_len e, last_packet_len e, rstat e, ep_type e, ep_fd e)"])
     (simp add: same_rx_def)

section \<open>An accepted message is delivered\<close>

text \<open>A link only writes to its own file descriptor.\<close>

lemma wire_tcp_hangup [simp]: "wire_of fd (snd (tcp_hangup e w)) = wire_of fd w"
  by (simp add: tcp_hangup_def tcp_schedule_reconnect_def tcp_close_def add_timeout_def remove_fd_def
      wire_of_def mod_timeout_def case_prod_unfold Let_def)

lemma wire_unschedule [simp]:
  "wire_of fd (snd (unschedule_write e w)) = wire_of fd w" "ep_fd (fst (unschedule_write e w)) = ep_fd e"
  "wire_of fd (snd (schedule_write e w)) = wire_of fd w"
  by (simp_all add: unschedule_write_def schedule_write_def)

lemma wire_sys_send: "fd \<noteq> fd' \<Longrightarrow> wire_of fd (snd (sys_send fd' bs w)) = wire_of fd w"
  by (metis prod.collapse sys_send_wire(2))

lemma wire_uart_flush: "fd \<noteq> ep_fd e \<Longrightarrow> wire_of fd (snd (snd (uart_flush_pending_msgs e w))) = wire_of fd w"
  by (simp add: uart_flush_pending_msgs_def case_prod_unfold Let_def wire_sys_send split: snd_res.split)

lemma wire_udp_flush: "fd \<noteq> ep_fd e \<Longrightarrow> wire_of fd (snd (snd (udp_flush_pending_msgs e w))) = wire_of fd w"
  by (simp add: udp_flush_pending_msgs_def case_prod_unfold Let_def wire_sys_send split: snd_res.split)

lemma wire_tcp_flush: "fd \<noteq> ep_fd e \<Longrightarrow> wire_of fd (snd (snd (tcp_flush_pending_msgs e w))) = wire_of fd w"
  by (simp add: tcp_flush_pending_msgs_def case_prod_unfold Let_def wire_sys_send split: snd_res.split)

lemma ep_fd_tx_append [simp]: "ep_fd (tx_append bs e) = ep_fd e"
  by (simp add: tx_append_def)

text \<open>For a link that is up the descriptor stays the same, so the early flush of a coalesced
  write concerns the same descriptor.\<close>

lemma wire_ep_write:
  assumes "link_state link_ready e w" "fd \<noteq> ep_fd e"
  shows "wire_of fd (snd (snd (ep_write_msg e b w))) = wire_of fd w"
proof -
  have net: "wire_of fd (snd (snd (net_write_msg flush e b w))) = wire_of fd w"
    if flush: "\<And>e' w'. ep_fd e' = ep_fd e \<Longrightarrow> wire_of fd (snd (snd (flush e' w'))) = wire_of fd w'"
      and law: "ep_fd (fst (snd (flush e w))) = ep_fd e" for flush
  proof -
    define s1 where "s1 = (if tx_len e > 0 \<and> tx_len e + b_len b > unat (coalesce_bytes (net e))
                        then snd (flush e w) else (e, w))"
    have "wire_of fd (snd s1) = wire_of fd w" "ep_fd (fst s1) = ep_fd e"
      using flush [of e w] law by (simp_all add: s1_def)
    then show ?thesis using flush
      by (simp add: net_write_msg_def s1_def [symmetric] case_prod_unfold Let_def)
  qed
  from assms(1) show ?thesis
  proof (cases rule: link_ready_cases)
    case 1
    then show ?thesis using assms(2) wire_uart_flush [of fd "count_written 0 1 (tx_append (b_data b) e)" w]
      by (simp add: ep_write_msg_def uart_write_msg_def case_prod_unfold Let_def) (simp add: count_written_def)
  next
    case 2
    obtain r e1 w1 where f: "udp_flush_pending_msgs e w = (r, e1, w1)" by (metis prod_cases3)
    have "ep_fd (fst (snd (udp_flush_pending_msgs e w))) = ep_fd e"
      using udp_flush_law [OF 2(2) f] same_link_ep_fd by (simp add: f)
    then show ?thesis using 2 assms(2) net [of udp_flush_pending_msgs] wire_udp_flush
      by (simp add: ep_write_msg_def udp_write_msg_net link_state_def udp_ready_def)
  next
    case 3
    obtain r e1 w1 where f: "tcp_flush_pending_msgs e w = (r, e1, w1)" by (metis prod_cases3)
    have "ep_fd (fst (snd (tcp_flush_pending_msgs e w))) = ep_fd e"
      using tcp_flush_law [OF 3(2) f] same_link_ep_fd by (simp add: f)
    then show ?thesis using 3 assms(2) net [of tcp_flush_pending_msgs] wire_tcp_flush
      by (simp add: ep_write_msg_def tcp_write_msg_net)
  qed
qed


lemma ep_accept_msg_world: "ep_accept_msg sn e b w = (a, w1) \<Longrightarrow> w1 = w\<lparr>w_tick := w_tick w1\<rparr>"
  by (auto simp: ep_accept_msg_def udp_accept_msg_def tcp_accept_msg_def accept_msg_def Let_def
      split: ep_type.splits if_splits prod.splits dest: should_throttle_msg_world)

lemma ep_accept_msg_unthrottled:
  "\<not> is_throttling_enabled e (msg_id (b_curr b)) \<Longrightarrow> ep_accept_msg sn e b w = (fst (ep_accept_msg sn e b w0), w)"
  by (simp add: ep_accept_msg_def udp_accept_msg_def tcp_accept_msg_def accept_msg_def Let_def split: ep_type.split)

lemma sends_schedule_resend [simp]:
  "stream e (os (schedule_resend s)) = stream e (os s)" "lossless (os (schedule_resend s)) = lossless (os s)"
  by (auto simp: schedule_resend_def reschedule_resend_def add_timeout_def steady_now_def stream_def wire_of_def
      lossless_def mod_timeout_def case_prod_unfold Let_def split: option.split)

text \<open>The network is up: every endpoint but the recorders is a link that is up, with a descriptor of its
  own, and the kernel refuses bytes only temporarily.\<close>

definition is_link :: "nat \<Rightarrow> router \<Rightarrow> bool" where
  "is_link n s \<longleftrightarrow> n \<in> set (g_endpoints s) \<and> ep_type (objs s ! n) \<noteq> LOG"

definition net_up :: "router \<Rightarrow> bool" where
  "net_up s \<longleftrightarrow> distinct (g_endpoints s) \<and> lossless (os s) \<and>
     (\<forall>n \<in> set (g_endpoints s). n < length (objs s)) \<and>
     (\<forall>n. is_link n s \<longrightarrow> link_state link_ready (objs s ! n) (os s)) \<and>
     (\<forall>i j. is_link i s \<longrightarrow> is_link j s \<longrightarrow> i \<noteq> j \<longrightarrow> ep_fd (objs s ! i) \<noteq> ep_fd (objs s ! j))"

lemma net_upD:
  assumes "net_up s"
  shows "distinct (g_endpoints s)" "lossless (os s)" "n \<in> set (g_endpoints s) \<Longrightarrow> n < length (objs s)"
    "is_link n s \<Longrightarrow> link_state link_ready (objs s ! n) (os s)"
    "is_link i s \<Longrightarrow> is_link j s \<Longrightarrow> i \<noteq> j \<Longrightarrow> ep_fd (objs s ! i) \<noteq> ep_fd (objs s ! j)"
  using assms by (simp_all add: net_up_def)

definition delivered :: "buffer \<Rightarrow> endpoint \<Rightarrow> world \<Rightarrow> endpoint \<Rightarrow> world \<Rightarrow> bool" where
  "delivered b e w e' w' \<longleftrightarrow> stream e' w' = stream e w @ b_data b \<and> dropped_msgs e' = dropped_msgs e"

text \<open>A message is refused when it does not fit into the transmit buffer behind what waits there.\<close>

definition refused :: "buffer \<Rightarrow> endpoint \<Rightarrow> world \<Rightarrow> endpoint \<Rightarrow> world \<Rightarrow> bool" where
  "refused b e w e' w' \<longleftrightarrow> TX_BUF_MAX_SIZE < tx_len e + b_len b \<and> stream e' w' = stream e w \<and>
     dropped_msgs e' = dropped_msgs e + 1"

definition untouched :: "endpoint \<Rightarrow> world \<Rightarrow> endpoint \<Rightarrow> world \<Rightarrow> bool" where
  "untouched e w e' w' \<longleftrightarrow> stream e' w' = stream e w \<and> dropped_msgs e' = dropped_msgs e"

definition written :: "accept_state \<Rightarrow> buffer \<Rightarrow> endpoint \<Rightarrow> world \<Rightarrow> endpoint \<Rightarrow> world \<Rightarrow> bool" where
  "written a b e w e' w' \<longleftrightarrow>
     (if a = Accepted then delivered b e w e' w' \<or> refused b e w e' w' else untouched e w e' w')"

text \<open>What the decision about a message rests on, apart from the state of throttling.\<close>

definition same_rules :: "endpoint \<Rightarrow> endpoint \<Rightarrow> bool" where
  "same_rules e e' \<longleftrightarrow> same_link e e' \<and> sys_comp_ids e' = sys_comp_ids e \<and> outgoing e' = outgoing e \<and>
     mode (udp e') = mode (udp e) \<and> (\<forall>k. is_throttling_enabled e' k = is_throttling_enabled e k)"

lemma same_rules_refl [simp]: "same_rules e e"
  by (simp add: same_rules_def)

lemma same_rules_trans: "same_rules e e1 \<Longrightarrow> same_rules e1 e2 \<Longrightarrow> same_rules e e2"
  unfolding same_rules_def using same_link_trans by metis

lemma same_rules_type: "same_rules e e' \<Longrightarrow> ep_type e' = ep_type e"
  by (simp add: same_rules_def same_link_ep_type)

lemma same_rules_accept:
  assumes "same_rules e e'" "\<not> is_throttling_enabled e (msg_id (b_curr b))"
  shows "fst (ep_accept_msg sn e' b w') = fst (ep_accept_msg sn e b w)"
proof -
  have f: "ep_type e' = ep_type e" "ep_fd e' = ep_fd e" "has_peer e' = has_peer e" "sys_comp_ids e' = sys_comp_ids e"
    "outgoing e' = outgoing e" "mode (udp e') = mode (udp e)" "\<not> is_throttling_enabled e' (msg_id (b_curr b))"
    using assms by (simp_all add: same_rules_def same_link_def)
  have "allowed_by_outgoing_filters e' b = allowed_by_outgoing_filters e b"
    by (simp only: allowed_by_outgoing_filters_def f(5))
  moreover have "knows e' = knows e" by (simp add: fun_eq_iff knows_def f(4))
  ultimately have "fst (accept_msg sn e' b w') = fst (accept_msg sn e b w)"
    using f(7) assms(2) by (auto simp: accept_msg_unfold reaches_def Let_def)
  then show ?thesis using f(1-3,6)
    by (simp add: ep_accept_msg_def udp_accept_msg_def tcp_accept_msg_def split: ep_type.split)
qed

lemma same_rules_tx: "tx_only e e' \<Longrightarrow> same_link e e' \<Longrightarrow> same_rules e e'"
  using tx_only_fields(7,9,14,18) [of e e'] by (simp add: same_rules_def is_throttling_enabled_def)

lemma same_rules_steps [simp]:
  "same_rules e (count_dropped_msg e)" "same_rules e (cache_msg b e)" "same_rules e (fst (update_throttle_info e k w))"
proof -
  show "same_rules e (count_dropped_msg e)" "same_rules e (cache_msg b e)"
    by (simp_all add: same_rules_def count_dropped_msg_def cache_msg_def same_link_def has_peer_def is_throttling_enabled_def Let_def)
  have "om_put k v m \<noteq> []" for k v and m :: "(u32, throttle_info) omap" by (cases m) (auto split: if_splits)
  moreover have "(om_get (om_put k v m) j \<noteq> None) = (j = k \<or> om_get m j \<noteq> None)" for k j v and m :: "(u32, throttle_info) omap"
    using set_fst_om_put [of k v m] by (simp add: om_get_def map_of_eq_None_iff)
  ultimately show "same_rules e (fst (update_throttle_info e k w))"
    by (auto simp: update_throttle_info_def same_rules_def same_link_def has_peer_def is_throttling_enabled_def om_get_def
        case_prod_unfold Let_def split: option.split)
qed

lemma same_rules_throttle: "update_throttle_info e k w = (e', w') \<Longrightarrow> same_rules e e'"
  using same_rules_steps(3) [of e k w] by (metis fst_conv)

lemma mod_fd_link_state [simp]:
  "link_state r e (snd (mod_fd fd x w)) = link_state r e w"
  "wire_of fd' (snd (mod_fd fd x w)) = wire_of fd' w"
  by (simp_all add: mod_fd_def link_state_def lossless_def wire_of_def)

lemma count_dropped_frame [simp]:
  "stream (count_dropped_msg e) w = stream e w" "tx_inv (count_dropped_msg e) = tx_inv e"
  "same_link e (count_dropped_msg e)" "ep_fd (count_dropped_msg e) = ep_fd e" "tx_len (count_dropped_msg e) = tx_len e"
  by (simp_all add: count_dropped_msg_def stream_def tx_inv_def tx_bytes_def same_link_def has_peer_def)

text \<open>What writing a message does to its endpoint and to the other streams.\<close>

lemma ml_write_msg_written:
  assumes "link_state link_ready e w" "ml_write_msg e b w = (r, e', w')"
  shows "link_state link_ready e' w'" "same_rules e e'" "delivered b e w e' w' \<or> refused b e w e' w'"
    "fd \<noteq> ep_fd e \<Longrightarrow> wire_of fd w' = wire_of fd w"
    "delivered b e w e' w' \<and> tx_len e' \<le> tx_len e + b_len b \<or> refused b e w e' w' \<and> tx_len e' \<le> tx_len e"
proof -
  obtain r1 e1 w1 where wr: "ep_write_msg e b w = (r1, e1, w1)" by (metis prod_cases3)
  note law = any_link.write_law [OF assms(1) wr]
  have tx: "tx_only e e1" using tx_only_ep_write [of e b w] by (simp add: wr)
  have d: "dropped_msgs e1 = dropped_msgs e" by (rule tx_only_fields(6) [OF tx])
  have f: "fits_or_refused e b r1 e1" by (rule ep_write_refused [OF assms(1) wr])
  have eq: "e' = (if r1 = - ENOBUFS then count_dropped_msg e1 else e1)" "r = r1"
    "w' = (if r1 = - EAGAIN \<or> r1 = - ENOBUFS then snd (mod_fd (ep_fd e') True w1) else w1)"
    using assms(2) by (auto simp: ml_write_msg_def wr Let_def)
  have sl: "same_link e1 e'" by (simp add: eq(1))
  have "same_rules e e1" using same_rules_tx [OF tx] law by simp
  then show "same_rules e e'" using same_rules_trans [OF _ same_rules_steps(1)] by (simp add: eq(1))
  have 1: "link_state link_ready e' w1" using law link_ready_same [OF sl] by (auto simp: link_state_def eq(1))
  then show "link_state link_ready e' w'" by (simp add: eq(3))
  have "stream e' w' = stream e1 w1" by (simp add: eq(3) mod_fd_frame) (simp add: eq(1))
  then show "delivered b e w e' w' \<and> tx_len e' \<le> tx_len e + b_len b \<or> refused b e w e' w' \<and> tx_len e' \<le> tx_len e"
    using law d f by (auto simp: delivered_def refused_def eq(1) count_dropped_msg_def fits_or_refused_def)
  then show "delivered b e w e' w' \<or> refused b e w e' w'" by blast
  show "wire_of fd w' = wire_of fd w" if "fd \<noteq> ep_fd e"
    using wire_ep_write [OF assms(1) that, of b] by (simp add: wr eq(3))
qed


text \<open>A step of the router that works on one endpoint: it keeps the network up and does not
  touch the others.\<close>

definition local_step :: "nat \<Rightarrow> router \<Rightarrow> router \<Rightarrow> bool" where
  "local_step n s s' \<longleftrightarrow> net_up s' \<and> g_endpoints s' = g_endpoints s \<and> sniffer_sysid s' = sniffer_sysid s \<and>
     same_rules (objs s ! n) (objs s' ! n) \<and>
     (\<forall>i. i \<noteq> n \<longrightarrow> objs s' ! i = objs s ! i \<and> (is_link i s \<longrightarrow> stream (objs s ! i) (os s') = stream (objs s ! i) (os s)))"

lemma local_step_set_ep:
  assumes "net_up s" "n \<in> set (g_endpoints s)" "lossless w'" "same_rules (objs s ! n) e'"
    and "is_link n s \<Longrightarrow> link_state link_ready e' w'"
    and "\<And>fd. \<not> is_link n s \<or> fd \<noteq> ep_fd (objs s ! n) \<Longrightarrow> wire_of fd w' = wire_of fd (os s)"
  shows "local_step n s (set_ep n e' w' s)"
proof -
  have n: "n < length (objs s)" by (rule net_upD(3) [OF assms(1,2)])
  have objs: "(objs s)[n := e'] ! i = (if i = n then e' else objs s ! i)" for i
    using n by (simp add: nth_list_update)
  have fd: "ep_fd e' = ep_fd (objs s ! n)" using assms(4) by (simp add: same_rules_def same_link_def)
  have ln: "is_link i (set_ep n e' w' s) = is_link i s" for i
    using same_rules_type [OF assms(4)] objs by (simp add: is_link_def set_ep_def)
  have up: "link_state link_ready (objs s ! i) w'" if "is_link i s" for i
    using net_upD(4) [OF assms(1) that] assms(3) by (simp add: link_state_def)
  have "net_up (set_ep n e' w' s)"
    using assms(1,3,5) up objs fd unfolding net_up_def ln
    by (auto simp: set_ep_def)
  moreover have "stream (objs s ! i) w' = stream (objs s ! i) (os s)" if "is_link i s" "i \<noteq> n" for i
    using assms(6) [of "ep_fd (objs s ! i)"] net_upD(5) [OF assms(1) that(1) _ that(2)] by (auto simp: stream_def)
  ultimately show ?thesis using objs assms(4) by (simp add: local_step_def set_ep_def)
qed

lemma is_link_schedule [simp]: "is_link n (schedule_resend s) = is_link n s" "is_link n (s\<lparr>os := w\<rparr>) = is_link n s"
  by (simp_all add: is_link_def)

lemma net_up_schedule_resend [simp]: "net_up (schedule_resend s) = net_up s"
  by (simp add: net_up_def link_state_def)

lemma local_step_schedule_resend:
  "local_step n s s' \<Longrightarrow> local_step n s (schedule_resend s')"
  by (auto simp: local_step_def)

lemma update_throttle_written:
  "update_throttle_info e k w = (e', w') \<Longrightarrow> wire_of fd w' = wire_of fd w \<and> dropped_msgs e' = dropped_msgs e \<and>
     lossless w' = lossless w \<and> tx_len e' = tx_len e"
  by (auto simp: update_throttle_info_def steady_now_def wire_of_def lossless_def Let_def split: option.splits)

lemma net_up_os:
  assumes "net_up s" "lossless w'" shows "net_up (s\<lparr>os := w'\<rparr>)"
  using assms unfolding net_up_def by (simp add: link_state_def)

lemma local_step_os:
  assumes "net_up s" "w' = (os s)\<lparr>w_tick := t\<rparr>" shows "local_step n s (s\<lparr>os := w'\<rparr>)"
  using assms net_up_os [OF assms(1), of w'] net_upD(2) [OF assms(1)]
  by (simp add: local_step_def lossless_def stream_def wire_of_def)

lemma cache_msg_frame [simp]:
  "stream (cache_msg b e) w = stream e w" "tx_inv (cache_msg b e) = tx_inv e"
  "same_link e (cache_msg b e)" "ep_fd (cache_msg b e) = ep_fd e" "dropped_msgs (cache_msg b e) = dropped_msgs e"
  "tx_len (cache_msg b e) = tx_len e"
  by (simp_all add: cache_msg_def stream_def tx_inv_def tx_bytes_def same_link_def has_peer_def Let_def)

lemma hangup_flag_frame [simp]:
  "link_state r e (w\<lparr>should_process_tcp_hangups := x\<rparr>) = link_state r e w"
  "wire_of fd (w\<lparr>should_process_tcp_hangups := x\<rparr>) = wire_of fd w"
  "stream e (w\<lparr>should_process_tcp_hangups := x\<rparr>) = stream e w"
  "lossless (w\<lparr>should_process_tcp_hangups := x\<rparr>) = lossless w"
  by (simp_all add: link_state_def lossless_def wire_of_def stream_def)

text \<open>The effect of offering a message on the stream of a link.\<close>

definition offered :: "buffer \<Rightarrow> endpoint \<Rightarrow> world \<Rightarrow> endpoint \<Rightarrow> world \<Rightarrow> accept_state \<Rightarrow> bool" where
  "offered b e w e' w' a \<longleftrightarrow> written a b e w e' w' \<and>
     (a = Accepted \<and> delivered b e w e' w' \<and> tx_len e' \<le> tx_len e + b_len b \<or> stream e' w' = stream e w \<and> tx_len e' \<le> tx_len e)"

lemma route_accepted:
  assumes "net_up s" "is_link n s"
    and "ep_accept_msg (sniffer_sysid s) (objs s ! n) b (os s) = (Accepted, w1)"
  shows "local_step n s (snd (route_to b n (u, s)))"
    and "offered b (objs s ! n) (os s) (objs (snd (route_to b n (u, s))) ! n) (os (snd (route_to b n (u, s)))) Accepted"
proof -
  define e where "e = objs s ! n"
  have n: "n < length (objs s)" "n \<in> set (g_endpoints s)" and st: "link_state link_ready e (os s)"
    using assms(1,2) net_upD(3,4) [OF assms(1)] by (simp_all add: is_link_def e_def)
  note w1 = ep_accept_msg_world [OF assms(3)] and t1 = tick_frame [OF ep_accept_msg_world [OF assms(3)]]
  have wire1: "wire_of fd w1 = wire_of fd (os s)" for fd by (subst w1) (simp add: wire_of_def)
  have st1: "link_state link_ready e w1" using st t1 by (simp add: link_state_def)
  obtain r e1 w2 where wr: "ml_write_msg e b w1 = (r, e1, w2)" by (metis prod_cases3)
  note m = ml_write_msg_written [OF st1 wr]
  define w3 where "w3 = (if r = - EPIPE then w2\<lparr>should_process_tcp_hangups := True\<rparr> else w2)"
  obtain e2 w4 where up: "(if is_throttling_enabled e1 (msg_id (b_curr b))
      then update_throttle_info e1 (msg_id (b_curr b)) w3 else (e1, w3)) = (e2, w4)" by fastforce
  have u: "link_state link_ready e2 w4 = link_state link_ready e1 w3" "stream e2 w4 = stream e1 w3" "same_rules e1 e2"
    "wire_of fd w4 = wire_of fd w3" "dropped_msgs e2 = dropped_msgs e1" "tx_len e2 = tx_len e1" for fd
    using up throttle_steps_link [of e1 "msg_id (b_curr b)" w3 e2 w4] update_throttle_written [of e1 "msg_id (b_curr b)" w3 e2 w4]
      same_rules_throttle [of e1 "msg_id (b_curr b)" w3 e2 w4]
    by (auto split: if_splits)
  have rt: "route_to b n (u, s) = (False, set_ep n e2 w4 s)"
    using up by (auto simp: route_to_def e_def [symmetric] assms(3) [folded e_def] wr w3_def [symmetric] Let_def split: if_splits)
  have w3: "link_state link_ready e1 w3 = link_state link_ready e1 w2" "stream e1 w3 = stream e1 w2" "wire_of fd w3 = wire_of fd w2" for fd
    by (simp_all add: w3_def)
  have l: "link_state link_ready e2 w4" using m(1) by (simp add: u w3)
  have "wire_of fd w4 = wire_of fd (os s)" if "fd \<noteq> ep_fd e" for fd
    using m(4) [OF that] by (simp add: u w3 wire1)
  then show "local_step n s (snd (route_to b n (u, s)))"
    using local_step_set_ep [OF assms(1) n(2), of w4 e2] l same_rules_trans [OF m(2) u(3)] assms(2)
    by (simp add: rt e_def link_state_def)
  show "offered b (objs s ! n) (os s) (objs (snd (route_to b n (u, s))) ! n) (os (snd (route_to b n (u, s)))) Accepted"
    using m(5) n t1 by (auto simp: rt set_ep_def offered_def written_def delivered_def refused_def u w3 e_def)
qed

text \<open>A recorder's object takes a message without any effect on the links.\<close>

lemma route_recorder:
  assumes "net_up s" "n \<in> set (g_endpoints s)" "\<not> is_link n s"
    and "ep_accept_msg (sniffer_sysid s) (objs s ! n) b (os s) = (Accepted, w1)"
  shows "local_step n s (snd (route_to b n (u, s)))"
proof -
  define e where "e = objs s ! n"
  have ty: "ep_type e = LOG" using assms(2,3) by (simp add: is_link_def e_def)
  have w1: "w1 = (os s)\<lparr>w_tick := w_tick w1\<rparr>" by (rule ep_accept_msg_world [OF assms(4)])
  have wr: "ml_write_msg e b w1 = (int (b_len b), e, w1)"
    by (simp add: ml_write_msg_def ep_write_msg_def ty)
  obtain e2 w4 where up: "(if is_throttling_enabled e (msg_id (b_curr b))
      then update_throttle_info e (msg_id (b_curr b)) w1 else (e, w1)) = (e2, w4)" by fastforce
  have rt: "route_to b n (u, s) = (False, set_ep n e2 w4 s)"
    using up by (auto simp: route_to_def e_def [symmetric] assms(4) [folded e_def] wr Let_def split: if_splits)
  have 1: "lossless w1" "wire_of fd w1 = wire_of fd (os s)" for fd
    using net_upD(2) [OF assms(1)] by (subst w1, simp add: lossless_def, subst w1, simp add: wire_of_def)
  have "lossless w4" "wire_of fd w4 = wire_of fd (os s)" "same_rules e e2" for fd
    using up 1 update_throttle_written [of e "msg_id (b_curr b)" w1 e2 w4]
      same_rules_throttle [of e "msg_id (b_curr b)" w1 e2 w4]
    by (auto split: if_splits)
  then show ?thesis using local_step_set_ep [OF assms(1,2)] assms(3) by (simp add: rt e_def)
qed

lemma route_to_local:
  assumes "net_up s" "n \<in> set (g_endpoints s)" "route_to b n (u, s) = (u', s')"
  shows "local_step n s s'"
    and "is_link n s \<Longrightarrow> offered b (objs s ! n) (os s) (objs s' ! n) (os s')
           (fst (ep_accept_msg (sniffer_sysid s) (objs s ! n) b (os s)))"
proof -
  define e where "e = objs s ! n"
  obtain a w1 where a: "ep_accept_msg (sniffer_sysid s) e b (os s) = (a, w1)" by fastforce
  have n: "n < length (objs s)" by (rule net_upD(3) [OF assms(1,2)])
  note w1 = ep_accept_msg_world [OF a] and t1 = tick_frame [OF ep_accept_msg_world [OF a]]
  have wire1: "wire_of fd w1 = wire_of fd (os s)" for fd by (subst w1) (simp add: wire_of_def)
  have ll: "lossless w1" using net_upD(2) [OF assms(1)] by (subst w1) (simp add: lossless_def)
  have "local_step n s s' \<and> (is_link n s \<longrightarrow> offered b e (os s) (objs s' ! n) (os s') a)"
  proof -
    consider "a = Accepted" | "a = Cached" | "a \<notin> {Accepted, Cached}" by blast
    then show ?thesis
    proof cases
      case Accepted: 1
      then show ?thesis
        using route_accepted [OF assms(1) _ a [unfolded e_def Accepted], of u] route_recorder [OF assms(1,2) _ a [unfolded e_def Accepted], of u]
          assms(3) by (cases "is_link n s") (simp_all add: e_def)
    next
      case Cached: 2
      have "link_state link_ready (cache_msg b e) w1" if "is_link n s"
        using net_upD(4) [OF assms(1) that] t1 link_ready_same [of e "cache_msg b e"] by (simp add: link_state_def e_def)
      then have "local_step n s (set_ep n (cache_msg b e) w1 s)"
        using local_step_set_ep [OF assms(1,2), of w1 "cache_msg b e"] wire1 ll by (simp add: e_def)
      then have "local_step n s (schedule_resend (set_ep n (cache_msg b e) w1 s))"
        by (rule local_step_schedule_resend)
      moreover have "s' = schedule_resend (set_ep n (cache_msg b e) w1 s)"
        using assms(3) a Cached by (simp add: route_to_def e_def)
      ultimately show ?thesis using Cached n t1
        by (simp add: offered_def written_def untouched_def) (simp add: set_ep_def)
    next
      case 3
      then have "s' = s\<lparr>os := w1\<rparr>" using assms(3) a
        by (cases a) (auto simp: route_to_def e_def)
      then show ?thesis using local_step_os [OF assms(1) w1] t1 3 by (simp add: offered_def written_def untouched_def e_def)
    qed
  qed
  then show "local_step n s s'"
    "is_link n s \<Longrightarrow> offered b (objs s ! n) (os s) (objs s' ! n) (os s')
       (fst (ep_accept_msg (sniffer_sysid s) (objs s ! n) b (os s)))"
    using a by (simp_all add: e_def)
qed

text \<open>What a link gets while the router works: the bytes of some messages behind what it sent and what waits;
  the rules by which it accepts messages stay.\<close>

definition gets :: "nat \<Rightarrow> buffer list \<Rightarrow> router \<Rightarrow> router \<Rightarrow> bool" where
  "gets i ms s s' \<longleftrightarrow> net_up s' \<and> g_endpoints s' = g_endpoints s \<and> sniffer_sysid s' = sniffer_sysid s \<and>
     same_rules (objs s ! i) (objs s' ! i) \<and>
     stream (objs s' ! i) (os s') = stream (objs s ! i) (os s) @ concat (map b_data ms) \<and>
     tx_len (objs s' ! i) \<le> tx_len (objs s ! i) + length (concat (map b_data ms))"

lemma gets_refl: "net_up s \<Longrightarrow> gets i [] s s"
  by (simp add: gets_def)

lemma gets_trans: "gets i ms s t \<Longrightarrow> gets i ns t u \<Longrightarrow> gets i (ms @ ns) s u"
  using same_rules_trans by (auto simp: gets_def)

lemma gets_link: "gets i ms s t \<Longrightarrow> is_link i t = is_link i s"
  using same_rules_type by (auto simp: gets_def is_link_def)

lemma gets_other:
  assumes "local_step n s s'" "i \<noteq> n" "is_link i s" shows "gets i [] s s'"
  using assms by (simp add: gets_def local_step_def)

lemma gets_offered:
  assumes "local_step n s s'" "is_link n s" "offered b (objs s ! n) (os s) (objs s' ! n) (os s') a"
  shows "a = Accepted \<and> gets n [b] s s' \<or> (a = Accepted \<longrightarrow> TX_BUF_MAX_SIZE < tx_len (objs s ! n) + b_len b) \<and> gets n [] s s'"
  using assms by (auto simp: gets_def local_step_def offered_def written_def delivered_def refused_def)

lemma route_to_gets:
  assumes "net_up s" "n \<in> set (g_endpoints s)" "route_to b n (u, s) = (u', s')" "is_link i s"
  shows "gets i [] s s' \<or> gets i [b] s s'"
proof (cases "i = n")
  case True
  then show ?thesis using gets_offered [OF route_to_local(1) [OF assms(1-3)] _ route_to_local(2) [OF assms(1-3)]] assms(4) by blast
next
  case False
  then show ?thesis using gets_other [OF route_to_local(1) [OF assms(1-3)] False assms(4)] by simp
qed

lemma route_fold_gets_other:
  assumes "net_up s" "set ns \<subseteq> set (g_endpoints s)" "fold (route_to b) ns (u, s) = (u', s')" "is_link i s" "i \<notin> set ns"
  shows "gets i [] s s' \<and> objs s' ! i = objs s ! i"
  using assms
proof (induction ns arbitrary: u s)
  case (Cons n ns)
  obtain u1 s1 where 1: "route_to b n (u, s) = (u1, s1)" by fastforce
  have l: "local_step n s s1" using route_to_local(1) [OF Cons.prems(1) _ 1] Cons.prems(2) by simp
  then have g: "gets i [] s s1" using gets_other Cons.prems(4,5) by simp
  have o: "objs s1 ! i = objs s ! i" using l Cons.prems(5) by (simp add: local_step_def)
  have f: "fold (route_to b) ns (u1, s1) = (u', s')" using Cons.prems(3) 1 by simp
  have s1: "net_up s1" "g_endpoints s1 = g_endpoints s" using g by (simp_all add: gets_def)
  from Cons.IH [OF s1(1) _ f] Cons.prems s1 gets_link [OF g] have "gets i [] s1 s' \<and> objs s' ! i = objs s1 ! i" by simp
  then show ?case using gets_trans [OF g, of "[]"] o by simp
qed (simp add: gets_refl)

lemma route_fold_gets:
  assumes "net_up s" "distinct ns" "set ns \<subseteq> set (g_endpoints s)" "fold (route_to b) ns (u, s) = (u', s')" "is_link i s"
  shows "gets i [] s s' \<or> gets i [b] s s'"
proof (cases "i \<in> set ns")
  case True
  then obtain as bs where ns: "ns = as @ i # bs" by (meson split_list)
  obtain u1 s1 where 1: "fold (route_to b) as (u, s) = (u1, s1)" by fastforce
  obtain u2 s2 where 2: "route_to b i (u1, s1) = (u2, s2)" by fastforce
  have 3: "fold (route_to b) bs (u2, s2) = (u', s')" using assms(4) 1 2 by (simp add: ns)
  have g1: "gets i [] s s1" using route_fold_gets_other [OF assms(1) _ 1 assms(5)] assms(2,3) by (auto simp: ns)
  have s1: "net_up s1" "g_endpoints s1 = g_endpoints s" "is_link i s1" using g1 gets_link [OF g1] assms(5) by (simp_all add: gets_def)
  have g2: "gets i [] s1 s2 \<or> gets i [b] s1 s2" using route_to_gets [OF s1(1) _ 2 s1(3)] s1(2) assms(3) by (simp add: ns)
  have s2: "net_up s2" "g_endpoints s2 = g_endpoints s" "is_link i s2"
    using g2 gets_link [of i "[]" s1 s2] gets_link [of i "[b]" s1 s2] s1 by (auto simp: gets_def)
  have g3: "gets i [] s2 s'" using route_fold_gets_other [OF s2(1) _ 3 s2(3)] assms(2,3) s2(2) by (auto simp: ns)
  show ?thesis using g2
  proof
    assume "gets i [] s1 s2"
    then show ?thesis using gets_trans [OF gets_trans [OF g1] g3] by fastforce
  next
    assume "gets i [b] s1 s2"
    then show ?thesis using gets_trans [OF gets_trans [OF g1] g3] by fastforce
  qed
next
  case False
  then show ?thesis using route_fold_gets_other [OF assms(1,3,4,5)] by simp
qed

lemma route_msg_fold:
  "\<exists>u s1 k. fold (route_to b) (g_endpoints s) (True, s) = (u, s1) \<and> route_msg b s = s1\<lparr>msg_to_unknown := k\<rparr>"
proof -
  obtain u s1 where f: "fold (route_to b) (g_endpoints s) (True, s) = (u, s1)" by fastforce
  show ?thesis
  proof (cases u)
    case True
    then show ?thesis using f by (auto simp: route_msg_def)
  next
    case False
    then have "route_msg b s = s1\<lparr>msg_to_unknown := msg_to_unknown s1\<rparr>" using f by (simp add: route_msg_def)
    then show ?thesis using f by blast
  qed
qed

lemma gets_unknown [simp]: "gets i ms s (t\<lparr>msg_to_unknown := k\<rparr>) = gets i ms s t"
  by (simp add: gets_def net_up_def is_link_def)

text \<open>Routing a message: a link gets it or does not.\<close>

lemma route_msg_gets:
  assumes "net_up s" "is_link i s"
  shows "gets i [] s (route_msg b s) \<or> gets i [b] s (route_msg b s)"
proof -
  obtain u s1 k where f: "fold (route_to b) (g_endpoints s) (True, s) = (u, s1)" and r: "route_msg b s = s1\<lparr>msg_to_unknown := k\<rparr>"
    using route_msg_fold [of b s] by metis
  show ?thesis using route_fold_gets [OF assms(1) net_upD(1) [OF assms(1)] subset_refl f assms(2)] by (simp add: r)
qed

lemma route_fold_written:
  assumes "net_up s" "distinct ns" "set ns \<subseteq> set (g_endpoints s)" "fold (route_to b) ns (u, s) = (u', s')"
    and "is_link i s" "i \<in> set ns" "\<not> is_throttling_enabled (objs s ! i) (msg_id (b_curr b))"
  shows "written (fst (ep_accept_msg (sniffer_sysid s) (objs s ! i) b w0)) b (objs s ! i) (os s) (objs s' ! i) (os s')"
proof -
  obtain as bs where ns: "ns = as @ i # bs" using assms(6) by (meson split_list)
  obtain u1 s1 where 1: "fold (route_to b) as (u, s) = (u1, s1)" by fastforce
  obtain u2 s2 where 2: "route_to b i (u1, s1) = (u2, s2)" by fastforce
  have 3: "fold (route_to b) bs (u2, s2) = (u', s')" using assms(4) 1 2 by (simp add: ns)
  have g1: "gets i [] s s1" and o1: "objs s1 ! i = objs s ! i"
    using route_fold_gets_other [OF assms(1) _ 1 assms(5)] assms(2,3) by (auto simp: ns)
  have s1: "net_up s1" "g_endpoints s1 = g_endpoints s" "is_link i s1" "sniffer_sysid s1 = sniffer_sysid s"
    "stream (objs s ! i) (os s1) = stream (objs s ! i) (os s)"
    using g1 gets_link [OF g1] assms(5) o1 by (simp_all add: gets_def)
  have i: "i \<in> set (g_endpoints s1)" using assms(3,6) s1(2) by auto
  note st = route_to_local [OF s1(1) i 2]
  have s2: "net_up s2" "g_endpoints s2 = g_endpoints s" "is_link i s2"
    using st(1) s1 same_rules_type [of "objs s1 ! i" "objs s2 ! i"] by (auto simp: local_step_def is_link_def)
  have g3: "gets i [] s2 s'" "objs s' ! i = objs s2 ! i"
    using route_fold_gets_other [OF s2(1) _ 3 s2(3)] assms(2,3) s2(2) by (auto simp: ns)
  have acc: "fst (ep_accept_msg (sniffer_sysid s1) (objs s1 ! i) b (os s1)) = fst (ep_accept_msg (sniffer_sysid s) (objs s ! i) b w0)"
    using same_rules_accept [OF same_rules_refl assms(7)] by (simp add: s1(4) o1)
  have "written (fst (ep_accept_msg (sniffer_sysid s) (objs s ! i) b w0)) b (objs s ! i) (os s1) (objs s2 ! i) (os s2)"
    using st(2) [OF s1(3)] acc by (simp add: offered_def o1)
  then show ?thesis using g3 s1(5)
    by (auto simp: gets_def written_def delivered_def refused_def untouched_def)
qed


lemma route_msg_written:
  assumes "net_up s" "is_link i s" "\<not> is_throttling_enabled (objs s ! i) (msg_id (b_curr b))"
  shows "written (fst (ep_accept_msg (sniffer_sysid s) (objs s ! i) b (os s))) b (objs s ! i) (os s)
           (objs (route_msg b s) ! i) (os (route_msg b s))"
proof -
  obtain u s1 k where f: "fold (route_to b) (g_endpoints s) (True, s) = (u, s1)" and r: "route_msg b s = s1\<lparr>msg_to_unknown := k\<rparr>"
    using route_msg_fold [of b s] by metis
  have "i \<in> set (g_endpoints s)" using assms(2) by (simp add: is_link_def)
  from route_fold_written [OF assms(1) net_upD(1) [OF assms(1)] subset_refl f assms(2) this assms(3), of "os s"]
  show ?thesis by (simp add: r)
qed

section \<open>The resend timer\<close>

lemma resend_msec:
  assumes "0 < d" "d < 2 ^ 62"
  shows "unat (((word_of_int d :: u64) + 1000000 - 1) div 1000000) = nat ((d + 999999) div 1000000)"
proof -
  define x where "x = (word_of_int d :: u64)"
  have x: "unat x = nat d"
    using assms by (simp add: x_def unat_eq_nat_uint uint_word_of_int_eq take_bit_int_eq_self)
  have "x + 1000000 - 1 = x + 999999" by simp
  moreover have "unat (x + 999999) = nat d + 999999"
    using assms x by (simp add: unat_word_ariths nat_less_iff)
  ultimately have "unat (x + 1000000 - 1) = nat (d + 999999)" using assms by (simp only:)
  then show ?thesis using assms by (simp add: x_def unat_div nat_div_distrib)
qed

lemma resend_delay_bounds:
  assumes "now < earliest" "earliest - now \<le> 4294967295 * 1000000"
  shows "earliest \<le> now + int (unat (resend_delay earliest now)) * 1000000"
    and "now + (int (unat (resend_delay earliest now)) - 1) * 1000000 < earliest"
    and "resend_delay earliest now \<noteq> 0"
proof -
  define d where "d = earliest - now"
  define msec where "msec = ((word_of_int d :: u64) + 1000000 - 1) div 1000000"
  have d: "0 < d" "d \<le> 4294967295000000" using assms by (simp_all add: d_def)
  then have m: "unat msec = nat ((d + 999999) div 1000000)" using resend_msec [of d] by (simp add: msec_def)
  have b: "1 \<le> (d + 999999) div 1000000" "(d + 999999) div 1000000 \<le> 4294967295" using d by simp_all
  have m1: "1 \<le> unat msec" "unat msec \<le> 4294967295" using m b by simp_all
  have "min (max msec 1) 0xFFFFFFFF = msec"
  proof -
    have "1 \<le> msec" "msec \<le> 0xFFFFFFFF" using m1 by (simp_all add: word_le_nat_alt)
    then show ?thesis by (simp add: min_def max_def)
  qed
  then have "resend_delay earliest now = ucast msec"
    using assms(1) by (simp add: resend_delay_def msec_def d_def)
  moreover have "unat (ucast msec :: u32) = unat msec"
    using m1 by (simp add: unsigned_ucast_eq take_bit_nat_eq_self)
  ultimately have u: "int (unat (resend_delay earliest now)) = (d + 999999) div 1000000" using m b by simp
  have "(d + 999999) div 1000000 * 1000000 + (d + 999999) mod 1000000 = d + 999999" by simp
  moreover have "0 \<le> (d + 999999) mod 1000000" "(d + 999999) mod 1000000 < 1000000" by simp_all
  ultimately show "earliest \<le> now + int (unat (resend_delay earliest now)) * 1000000"
    "now + (int (unat (resend_delay earliest now)) - 1) * 1000000 < earliest"
    unfolding u d_def by simp_all
  show "resend_delay earliest now \<noteq> 0" using u b by auto
qed


section \<open>The handler always returns\<close>

text \<open>The hash set holds exactly the hashes of the queue: no erasure of a missing hash.\<close>

definition dedup_wf :: "dedup \<Rightarrow> bool" where
  "dedup_wf d \<longleftrightarrow> packet_hash_set (impl d) = snd ` set (time_hash_queue (impl d)) \<and>
     distinct (map snd (time_hash_queue (impl d)))"

lemma dedup_wf_init: "dedup_wf (dedup_init p)"
  by (simp add: dedup_wf_def dedup_init_def)

lemma dedup_expire_wf:
  assumes "S = snd ` set q" "distinct (map snd q)"
  shows "\<exists>q' S'. dedup_expire t p q S = Some (q', S') \<and> S' = snd ` set q' \<and> distinct (map snd q')"
  using assms
proof (induction t p q S rule: dedup_expire.induct)
  case (2 t p t0 h q S)
  have "S - {h} = snd ` set q" using "2.prems" by auto
  then show ?case using 2 by auto
qed simp

lemma dedup_check_packet_wf:
  assumes "dedup_wf d"
  shows "\<exists>st d'. dedup_check_packet H x d = Some (st, d') \<and> dedup_wf d'"
proof -
  obtain ts buf where x: "x = (ts, buf)" by fastforce
  obtain q S where q: "dedup_expire ts (ucast (dedup_period_ms d)) (time_hash_queue (impl d)) (packet_hash_set (impl d)) = Some (q, S)"
    "S = snd ` set q" "distinct (map snd q)"
    using assms dedup_expire_wf [of "packet_hash_set (impl d)" "time_hash_queue (impl d)" ts "ucast (dedup_period_ms d)"]
    unfolding dedup_wf_def by blast
  show ?thesis
  proof (cases "dedup_period_ms d = 0")
    case True
    then show ?thesis using assms by (simp add: dedup_check_packet_def x)
  next
    case False
    then show ?thesis using q by (auto simp: dedup_check_packet_def x impl_check_packet_def Let_def dedup_wf_def)
  qed
qed

lemma msg_dedup_frame [simp]:
  "msg_dedup (schedule_resend s) = msg_dedup s" "msg_dedup (set_ep n e w s) = msg_dedup s"
  "msg_dedup (add_sys_comp_id_of n b s) = msg_dedup s"
  by (auto simp: schedule_resend_def reschedule_resend_def set_ep_def add_sys_comp_id_of_def case_prod_unfold Let_def
      split: option.split)

lemma msg_dedup_route_to [simp]: "msg_dedup (snd (route_to b n us)) = msg_dedup (snd us)"
  by (simp add: route_to_def case_prod_unfold Let_def split: accept_state.split)

lemma msg_dedup_route_fold [simp]: "msg_dedup (snd (fold (route_to b) ns us)) = msg_dedup (snd us)"
  by (induction ns arbitrary: us) simp_all

lemma msg_dedup_route_msg [simp]: "msg_dedup (route_msg b s) = msg_dedup s"
  using msg_dedup_route_fold [of b "g_endpoints s" "(True, s)"] by (simp add: route_msg_def case_prod_unfold Let_def)

lemma dedup_check_msg_total:
  assumes "dedup_wf (msg_dedup s)"
  shows "\<exists>ok s1. dedup_check_msg H b s = Some (ok, s1) \<and> dedup_wf (msg_dedup s1)"
proof -
  define nw where "nw = (if dedup_period_ms (msg_dedup s) = 0 then (0, os s) else steady_now (os s))"
  obtain st d' where "dedup_check_packet H (word_of_int ((fst nw - dedup_start s) div 1000000), b_data b) (msg_dedup s) = Some (st, d')"
    "dedup_wf d'" using dedup_check_packet_wf [OF assms] by blast
  then show ?thesis by (simp add: dedup_check_msg_def nw_def [symmetric] case_prod_unfold Let_def)
qed

lemma process_msg_total:
  assumes "dedup_wf (msg_dedup s)"
  shows "\<exists>s'. process_msg H n b s = Some s' \<and> dedup_wf (msg_dedup s')"
  using dedup_check_msg_total [OF assms, of H b] by (auto simp: process_msg_def)

lemma handle_read_total:
  assumes "dedup_wf (msg_dedup s)" "n < length (objs s)"
  shows "\<exists>r s'. handle_read M H n s = Some (r, s') \<and> r \<le> 0 \<and> dedup_wf (msg_dedup s')"
  using assms
proof (induction M H n s rule: handle_read.induct)
  case (1 M H n s)
  obtain r b e1 w1 where rd: "ep_read_msg M (objs s ! n) (os s) = ((r, b), e1, w1)" by (metis prod.collapse)
  have n: "\<not> length (objs s) \<le> n" using "1.prems"(2) by simp
  show ?case
  proof (cases "r \<le> 0")
    case True
    then show ?thesis using "1.prems" rd by (simp add: handle_read.simps [of M _ _ s])
  next
    case False
    have "dedup_wf (msg_dedup (set_ep n e1 w1 s))" using "1.prems"(1) by simp
    from process_msg_total [OF this] obtain s1
      where p: "process_msg H n (the b) (set_ep n e1 w1 s) = Some s1" and d: "dedup_wf (msg_dedup s1)" by blast
    have "n < length (objs s1)"
      using rx_kept_process_msg [OF p] "1.prems"(2) by (simp add: rx_kept_def set_ep_def)
    from "1.IH" [OF n rd [symmetric] refl refl False p d this] show ?thesis
      using rd n False p by (simp add: handle_read.simps [of M _ _ s])
  qed
qed


section \<open>From reception to delivery\<close>

lemma learn_fields:
  assumes "i < length (objs s)"
  shows "stream (objs (add_sys_comp_id_of n b s) ! i) w = stream (objs s ! i) w"
    and "link_state link_ready (objs (add_sys_comp_id_of n b s) ! i) w = link_state link_ready (objs s ! i) w"
    and "is_throttling_enabled (objs (add_sys_comp_id_of n b s) ! i) k = is_throttling_enabled (objs s ! i) k"
    and "dropped_msgs (objs (add_sys_comp_id_of n b s) ! i) = dropped_msgs (objs s ! i)"
    and "ep_fd (objs (add_sys_comp_id_of n b s) ! i) = ep_fd (objs s ! i)"
    and "ep_type (objs (add_sys_comp_id_of n b s) ! i) = ep_type (objs s ! i)"
    and "tx_len (objs (add_sys_comp_id_of n b s) ! i) = tx_len (objs s ! i)"
proof -
  define e where "e = objs s ! i"
  define e' where "e' = objs (add_sys_comp_id_of n b s) ! i"
  have "e'\<lparr>sys_comp_ids := []\<rparr> = e\<lparr>sys_comp_ids := []\<rparr>"
    using only_ids_differ_learn [OF assms, of n b] by (simp add: only_ids_differ_def e_def e'_def)
  then obtain x where x: "e' = e\<lparr>sys_comp_ids := x\<rparr>" by (cases e, cases e') auto
  show "stream (objs (add_sys_comp_id_of n b s) ! i) w = stream (objs s ! i) w"
    "link_state link_ready (objs (add_sys_comp_id_of n b s) ! i) w = link_state link_ready (objs s ! i) w"
    "is_throttling_enabled (objs (add_sys_comp_id_of n b s) ! i) k = is_throttling_enabled (objs s ! i) k"
    "dropped_msgs (objs (add_sys_comp_id_of n b s) ! i) = dropped_msgs (objs s ! i)"
    "ep_fd (objs (add_sys_comp_id_of n b s) ! i) = ep_fd (objs s ! i)"
    "ep_type (objs (add_sys_comp_id_of n b s) ! i) = ep_type (objs s ! i)"
    "tx_len (objs (add_sys_comp_id_of n b s) ! i) = tx_len (objs s ! i)"
    unfolding e_def [symmetric] e'_def [symmetric] x
    by (simp_all add: stream_def tx_bytes_def link_state_def link_ready_def udp_ready_def fd_open_def has_peer_def
        tx_inv_def is_throttling_enabled_def split: ep_type.split)
qed

lemma length_learn [simp]: "length (objs (add_sys_comp_id_of n b s)) = length (objs s)"
  using rx_kept_learn [of s n b] by (simp add: rx_kept_def)

lemma learn_other_fields [simp]:
  "g_endpoints (add_sys_comp_id_of n b s) = g_endpoints s" "os (add_sys_comp_id_of n b s) = os s"
  "sniffer_sysid (add_sys_comp_id_of n b s) = sniffer_sysid s"
  by (simp_all add: add_sys_comp_id_of_def)

lemma net_up_learn:
  assumes "net_up s"
  shows "net_up (add_sys_comp_id_of n b s)" "is_link i (add_sys_comp_id_of n b s) = is_link i s"
proof -
  have l: "is_link i (add_sys_comp_id_of n b s) = is_link i s" for i
    using learn_fields(6) [of i s n b] net_upD(3) [OF assms, of i] by (auto simp: is_link_def)
  then show "is_link i (add_sys_comp_id_of n b s) = is_link i s" .
  have i: "i < length (objs s)" if "is_link i s" for i using that net_upD(3) [OF assms] by (simp add: is_link_def)
  show "net_up (add_sys_comp_id_of n b s)"
    using assms unfolding net_up_def l by (simp add: i learn_fields(2,5))
qed

text \<open>What the check for duplicates and the noting of the sender leave of the state.\<close>

lemma dedup_check_msg_frame:
  assumes "dedup_check_msg H b s = Some (ok, s1)"
  obtains d t where "s1 = s\<lparr>msg_dedup := d, os := (os s)\<lparr>w_tick := t\<rparr>\<rparr>"
proof -
  define nw where "nw = (if dedup_period_ms (msg_dedup s) = 0 then (0, os s) else steady_now (os s))"
  have "snd nw = (os s)\<lparr>w_tick := w_tick (snd nw)\<rparr>" by (simp add: nw_def steady_now_def)
  moreover obtain d where "s1 = s\<lparr>msg_dedup := d, os := snd nw\<rparr>"
    using assms by (auto simp: dedup_check_msg_def nw_def [symmetric] case_prod_unfold Let_def split: option.splits)
  ultimately show thesis using that by metis
qed

lemma dedup_learn_frame:
  assumes "dedup_check_msg H b s = Some (ok, s1)" "net_up s"
  shows "net_up s1" "net_up (add_sys_comp_id_of n b s1)" "objs s1 = objs s" "g_endpoints s1 = g_endpoints s" "sniffer_sysid s1 = sniffer_sysid s"
    "is_link i (add_sys_comp_id_of n b s1) = is_link i s" "is_link i s1 = is_link i s"
    "stream e (os s1) = stream e (os s)" "objs (add_sys_comp_id_of n b s1) = objs (add_sys_comp_id_of n b s)"
proof -
  obtain d t where s1: "s1 = s\<lparr>msg_dedup := d, os := (os s)\<lparr>w_tick := t\<rparr>\<rparr>" using dedup_check_msg_frame [OF assms(1)] .
  have l: "is_link i s1 = is_link i s" for i by (simp add: s1 is_link_def)
  then show "is_link i s1 = is_link i s" .
  show up: "net_up s1" using assms(2) unfolding net_up_def l by (simp add: s1 link_state_def lossless_def)
  show "net_up (add_sys_comp_id_of n b s1)" by (rule net_up_learn(1) [OF up])
  show "objs s1 = objs s" "g_endpoints s1 = g_endpoints s" "sniffer_sysid s1 = sniffer_sysid s"
    "stream e (os s1) = stream e (os s)" by (simp_all add: s1 stream_def wire_of_def)
  show "objs (add_sys_comp_id_of n b s1) = objs (add_sys_comp_id_of n b s)" by (simp add: s1 add_sys_comp_id_of_def)
  show "is_link i (add_sys_comp_id_of n b s1) = is_link i s" using net_up_learn(2) [OF up] l by simp
qed

lemma written_from:
  "written a b e w e' w' \<Longrightarrow> stream e w = stream e0 w0 \<Longrightarrow> dropped_msgs e = dropped_msgs e0 \<Longrightarrow> tx_len e = tx_len e0 \<Longrightarrow>
   written a b e0 w0 e' w'"
  by (simp add: written_def delivered_def refused_def untouched_def split: if_splits)

text \<open>A message that is no duplicate and passes the incoming filters is routed.\<close>

lemma process_msg_routed:
  assumes "dedup_check_msg H b s = Some (True, s1)" "allowed_by_incoming_filters (objs s ! n) b"
    and "net_up s" "is_link i s" "\<not> is_throttling_enabled (objs s ! i) (msg_id (b_curr b))"
  obtains s' where "process_msg H n b s = Some s'"
    "written (fst (ep_accept_msg (sniffer_sysid s) (objs (add_sys_comp_id_of n b s) ! i) b (os s))) b
       (objs s ! i) (os s) (objs s' ! i) (os s')"
proof -
  note fr = dedup_learn_frame [OF assms(1,3)]
  define s2 where "s2 = add_sys_comp_id_of n b s1"
  have i: "i < length (objs s)" using assms(3,4) net_upD(3) by (simp add: is_link_def)
  have o: "objs s2 = objs (add_sys_comp_id_of n b s)" by (simp add: s2_def fr(9))
  have up: "net_up s2" "is_link i s2" "sniffer_sysid s2 = sniffer_sysid s" "os s2 = os s1" using fr(2,5,6) assms(4) by (simp_all add: s2_def)
  note f = learn_fields [OF i, of n b]
  have thr: "\<not> is_throttling_enabled (objs s2 ! i) (msg_id (b_curr b))" using assms(5) f(3) by (simp add: o)
  have acc: "fst (ep_accept_msg (sniffer_sysid s) (objs s2 ! i) b (os s2)) =
      fst (ep_accept_msg (sniffer_sysid s) (objs s2 ! i) b (os s))"
    using ep_accept_msg_unthrottled [OF thr] by (metis fst_conv)
  have "process_msg H n b s = Some (route_msg b s2)"
    using assms(2) by (simp add: process_msg_def assms(1) s2_def fr(3))
  moreover
  have "written (fst (ep_accept_msg (sniffer_sysid s) (objs s2 ! i) b (os s))) b
      (objs s2 ! i) (os s2) (objs (route_msg b s2) ! i) (os (route_msg b s2))"
    using route_msg_written [OF up(1,2) thr] acc by (simp add: up(3))
  from written_from [OF this, of "objs s ! i" "os s"]
  have "written (fst (ep_accept_msg (sniffer_sysid s) (objs s2 ! i) b (os s))) b
      (objs s ! i) (os s) (objs (route_msg b s2) ! i) (os (route_msg b s2))"
    using f(1,4,7) fr(8) by (simp add: o up(4))
  ultimately show thesis using that by (simp add: o)
qed

section \<open>Messages without a target\<close>

lemma ep_accept_rejected:
  "fst (ep_accept_msg sn e b w) = Rejected \<longleftrightarrow> fst (ep_accept_msg sn e b w0) = Rejected"
  by (simp add: ep_accept_msg_def udp_accept_msg_def tcp_accept_msg_def accept_msg_unfold case_prod_unfold Let_def
      split: ep_type.split)

lemma route_to_unknown:
  "fst (route_to b n (u, s)) = (u \<and> fst (ep_accept_msg (sniffer_sysid s) (objs s ! n) b w) = Rejected)"
  using ep_accept_rejected [of "sniffer_sysid s" "objs s ! n" b "os s" w]
  by (auto simp: route_to_def case_prod_unfold Let_def split: accept_state.split)

lemma route_to_frame [simp]:
  "g_endpoints (snd (route_to b n us)) = g_endpoints (snd us)"
  "sniffer_sysid (snd (route_to b n us)) = sniffer_sysid (snd us)"
  "msg_to_unknown (snd (route_to b n us)) = msg_to_unknown (snd us)"
proof -
  have "msg_to_unknown (schedule_resend s) = msg_to_unknown s" for s
    by (auto simp: schedule_resend_def reschedule_resend_def case_prod_unfold Let_def split: option.split)
  then show "g_endpoints (snd (route_to b n us)) = g_endpoints (snd us)"
    "sniffer_sysid (snd (route_to b n us)) = sniffer_sysid (snd us)"
    "msg_to_unknown (snd (route_to b n us)) = msg_to_unknown (snd us)"
    by (simp_all add: route_to_def set_ep_def case_prod_unfold Let_def split: accept_state.split)
qed

lemma route_fold_unknown:
  assumes "distinct ns"
  shows "(fst (fold (route_to b) ns (u, s)) \<longleftrightarrow>
      u \<and> (\<forall>n \<in> set ns. fst (ep_accept_msg (sniffer_sysid s) (objs s ! n) b w) = Rejected)) \<and>
    msg_to_unknown (snd (fold (route_to b) ns (u, s))) = msg_to_unknown s"
  using assms
proof (induction ns arbitrary: u s)
  case (Cons n ns)
  obtain u1 s1 where 1: "route_to b n (u, s) = (u1, s1)" by fastforce
  have o: "objs s1 ! i = objs s ! i" if "i \<in> set ns" for i
    using route_to_other [of i n b u s] that Cons.prems 1 by auto
  have f: "sniffer_sysid s1 = sniffer_sysid s" "msg_to_unknown s1 = msg_to_unknown s"
    using route_to_frame(2,3) [of b n "(u, s)"] 1 by simp_all
  show ?case using Cons.IH [of u1 s1] route_to_unknown [of b n u s w] Cons.prems f o
    by (auto simp: 1)
qed simp

lemma route_msg_unknown:
  assumes "distinct (g_endpoints s)"
  shows "msg_to_unknown (route_msg b s) = msg_to_unknown s +
    (if \<forall>n \<in> set (g_endpoints s). fst (ep_accept_msg (sniffer_sysid s) (objs s ! n) b (os s)) = Rejected then 1 else 0)"
  using route_fold_unknown [OF assms, of b True s "os s"]
  by (auto simp: route_msg_def case_prod_unfold Let_def)

section \<open>An example\<close>

definition ex_router :: router where
  "ex_router =
     \<lparr>initialized = True, epollfd = 3, objs = [ex_endpoint UART, (ex_endpoint UART)\<lparr>ep_id := 1, ep_fd := 4\<rparr>], g_endpoints = [0, 1],
      g_tcp_fd = -1, g_commands_fd = -1, resend_scheduled = False, resend_timer = None,
      msg_dedup = dedup_init 0, dedup_start = 0, msg_to_unknown = 0, sniffer_sysid = 0,
      should_exit = False, retcode = 0, os = ex_world\<rparr>"

lemma ex_router_fields [simp]:
  "objs ex_router = [ex_endpoint UART, (ex_endpoint UART)\<lparr>ep_id := 1, ep_fd := 4\<rparr>]"
  "g_endpoints ex_router = [0, 1]" "os ex_router = ex_world" "msg_dedup ex_router = dedup_init 0"
  "sniffer_sysid ex_router = 0" "msg_to_unknown ex_router = 0"
  by (simp_all add: ex_router_def)

lemma ex_router_up [simp]: "net_up ex_router" "dedup_wf (msg_dedup ex_router)"
proof -
  have t: "tx_inv ((ex_endpoint UART)\<lparr>ep_id := 1, ep_fd := 4\<rparr>)"
    using ex_endpoint_fields(4) [of UART] by (simp add: tx_inv_def)
  show "net_up ex_router"
    using t by (auto simp: net_up_def is_link_def link_state_def link_ready_def fd_open_def nth_Cons')
  show "dedup_wf (msg_dedup ex_router)" by (simp add: dedup_wf_init)
qed

lemma ex_router_checks:
  "\<exists>s1. dedup_check_msg (\<lambda>_. 0) ex_buffer ex_router = Some (True, s1)"
  "allowed_by_incoming_filters (objs ex_router ! 0) ex_buffer"
  "\<not> is_throttling_enabled (objs ex_router ! 1) (msg_id (b_curr ex_buffer))"
  "fst (ep_accept_msg (sniffer_sysid ex_router) (objs (add_sys_comp_id_of 0 ex_buffer ex_router) ! 1) ex_buffer (os ex_router)) = Accepted"
proof -
  show "\<exists>s1. dedup_check_msg (\<lambda>_. 0) ex_buffer ex_router = Some (True, s1)"
    by (simp add: dedup_check_msg_def dedup_check_packet_def dedup_init_def)
  show "allowed_by_incoming_filters (objs ex_router ! 0) ex_buffer"
    by (simp add: allowed_by_incoming_filters_def ex_endpoint_def Endpoint_init_def no_filters_def)
  show "\<not> is_throttling_enabled (objs ex_router ! 1) (msg_id (b_curr ex_buffer))"
    by (simp add: is_throttling_enabled_def ex_endpoint_def Endpoint_init_def)
  show "fst (ep_accept_msg (sniffer_sysid ex_router) (objs (add_sys_comp_id_of 0 ex_buffer ex_router) ! 1) ex_buffer (os ex_router)) = Accepted"
    by (simp add: add_sys_comp_id_of_def add_sys_comp_id_def add_sys_comp_id_calls.simps ex_endpoint_def Endpoint_init_def
        ep_accept_msg_def accept_msg_def has_sys_comp_id2_def has_sys_comp_id_def learn_def
        allowed_by_outgoing_filters_def no_filters_def is_routing_target_def is_throttling_enabled_def ex_buffer_def Let_def)
qed

section \<open>Properties\<close>

text \<open>A message is counted as addressed to an unknown target exactly when every endpoint rejects
  it; one filtered, throttled or cached somewhere is not.\<close>

theorem unknown_target_counted:
  assumes "distinct (g_endpoints s)"
  shows "msg_to_unknown (route_msg b s) = msg_to_unknown s +
    (if \<forall>n \<in> set (g_endpoints s). fst (ep_accept_msg (sniffer_sysid s) (objs s ! n) b (os s)) = Rejected then 1 else 0)"
  using assms by (rule route_msg_unknown)

lemma unknown_target_counted_witness:
  "msg_to_unknown (route_msg (ex_buffer\<lparr>b_curr := (b_curr ex_buffer)\<lparr>target_sysid := 9\<rparr>\<rparr>) ex_router) = 1"
  using unknown_target_counted [of ex_router "ex_buffer\<lparr>b_curr := (b_curr ex_buffer)\<lparr>target_sysid := 9\<rparr>\<rparr>"]
  by (simp add: ep_accept_msg_def accept_msg_def has_sys_comp_id2_def has_sys_comp_id_def has_sys_id_def ex_endpoint_def Endpoint_init_def
      allowed_by_outgoing_filters_def no_filters_def is_routing_target_def ex_buffer_def Let_def)

text \<open>The delay of the resend timer is the time to the earliest deadline, rounded up to
  milliseconds: never 0, which would disarm the timer, never early and less than a millisecond late,
  also across the conversions to unsigned and to 32 bits.\<close>

lemma resend_delay_rounds_up:
  assumes "now < earliest" "earliest - now \<le> 4294967295 * 1000000"
  shows "resend_delay earliest now \<noteq> 0 \<and>
    earliest \<le> now + int (unat (resend_delay earliest now)) * 1000000 \<and>
    now + int (unat (resend_delay earliest now)) * 1000000 < earliest + 1000000"
  using resend_delay_bounds [OF assms] by (simp add: algebra_simps)

lemma resend_delay_rounds_up_witness: "resend_delay 2500000 1000000 \<noteq> 0"
  using resend_delay_rounds_up [of 1000000 2500000] by simp

end
