(* ===== verification/EventFacts.thy ===== *)
theory EventFacts
  imports Routing Events
begin

text \<open>
  Facts about the event loop: cached messages always have an armed timer, hung-up connections
  are removed and nothing else is, and start-up links the groups symmetrically with equal
  tables of systems. The last section states where the code departs from its documentation.
\<close>

section \<open>Cached messages are not forgotten\<close>

lemma resend_delay_nonzero: "resend_delay earliest now \<noteq> 0"
proof (cases "earliest \<le> now")
  case True
  then show ?thesis by (simp add: resend_delay_def)
next
  case False
  define m where "m = min (max (((word_of_int (earliest - now) :: u64) + 1000000 - 1) div 1000000) 1) 0xFFFFFFFF"
  have b: "1 \<le> m" "m \<le> 0xFFFFFFFF" by (simp_all add: m_def)
  have "unat m \<le> 4294967295" "1 \<le> unat m" using b by (simp_all add: word_le_nat_alt)
  then have "unat (ucast m :: u32) = unat m" by (simp add: unsigned_ucast_eq take_bit_nat_eq_self)
  with \<open>1 \<le> unat m\<close> have "(ucast m :: u32) \<noteq> 0" by auto
  moreover have "resend_delay earliest now = ucast m" using False by (simp add: resend_delay_def m_def Let_def)
  ultimately show ?thesis by simp
qed

text \<open>Time stamps are below the end of time.\<close>

definition deadlines_ok :: "router \<Rightarrow> bool" where
  "deadlines_ok s \<longleftrightarrow>
     (\<forall>n \<in> set (g_endpoints s). \<forall>k ti. om_get (message_throttle_map (objs s ! n)) k = Some ti \<longrightarrow> next_timestamp ti < TIME_MAX)"

lemma earliest_deadline_less:
  "c \<noteq> [] \<Longrightarrow> \<forall>k ti. om_get thr k = Some ti \<longrightarrow> next_timestamp ti < TIME_MAX \<Longrightarrow> earliest_deadline thr c x < TIME_MAX"
proof (induction thr c x rule: earliest_deadline.induct)
  case (2 thr k q c x)
  show ?case
  proof (cases "om_get thr k")
    case None
    then show ?thesis by (simp add: TIME_MIN_def TIME_MAX_def)
  next
    case (Some ti)
    then have lt: "next_timestamp ti < TIME_MAX" using "2.prems"(2) by blast
    have "max y TIME_MIN < TIME_MAX" if "y < TIME_MAX" for y using that by (simp add: TIME_MIN_def TIME_MAX_def)
    then show ?thesis
      using Some lt earliest_deadline_le [of thr c "min x (next_timestamp ti)"]
      by (smt (verit) earliest_deadline.simps(2) option.simps(5) min_less_iff_disj)
  qed
qed simp

lemma foldl_min_le_start:
  "foldl (\<lambda>a n. if P n then min a (f n) else a) (x :: int) ns \<le> x"
proof (induction ns arbitrary: x)
  case (Cons n ns)
  show ?case using Cons.IH [of "min x (f n)"] Cons.IH [of x] by (auto intro: order_trans)
qed simp

lemma foldl_min_le:
  assumes "n \<in> set ns" "P n"
  shows "foldl (\<lambda>a n. if P n then min a (f n) else a) (x :: int) ns \<le> f n"
  using assms
proof (induction ns arbitrary: x)
  case (Cons m ns)
  then show ?case using foldl_min_le_start [of P f "min x (f n)" ns] by auto
qed simp

lemma earliest_resend_le: "earliest_resend s \<le> TIME_MAX"
  unfolding earliest_resend_def by (rule foldl_min_le_start)

lemma earliest_resend_less:
  assumes "n \<in> set (g_endpoints s)" "has_cached_msgs (objs s ! n)" "deadlines_ok s"
  shows "earliest_resend s < TIME_MAX"
proof -
  have "next_resend_deadline (objs s ! n) < TIME_MAX"
    using earliest_deadline_less assms by (simp add: next_resend_deadline_def has_cached_msgs_def deadlines_ok_def)
  then show ?thesis
    using foldl_min_le [OF assms(1), where P = "\<lambda>n. has_cached_msgs (objs s ! n)" and f = "\<lambda>n. next_resend_deadline (objs s ! n)" and x = TIME_MAX] assms(2)
    by (simp add: earliest_resend_def)
qed

definition resend_armed :: "router \<Rightarrow> bool" where
  "resend_armed s \<longleftrightarrow> resend_scheduled s \<and> (\<exists>t. resend_timer s = Some t \<and> timer_armed (os s) t)"

lemma reschedule_arms:
  assumes "earliest_resend s < TIME_MAX" "resend_scheduled s" "resend_timer s = Some t"
  shows "fst (reschedule_resend s)" "resend_armed (snd (reschedule_resend s))"
  using assms resend_delay_nonzero
  by (simp_all add: reschedule_resend_def resend_armed_def steady_now_def Let_def)

text \<open>A timer can be created, or there is one.\<close>

definition timer_available :: "router \<Rightarrow> bool" where
  "timer_available s \<longleftrightarrow> (if resend_scheduled s then resend_timer s \<noteq> None else w_timerfd_ok (os s) (w_next_timer (os s)))"

lemma schedule_resend_arms:
  assumes "n \<in> set (g_endpoints s)" "has_cached_msgs (objs s ! n)" "deadlines_ok s" "timer_available s"
  shows "resend_armed (schedule_resend s)"
proof (cases "resend_scheduled s")
  case True
  then obtain t where "resend_timer s = Some t" using assms(4) by (auto simp: timer_available_def)
  then show ?thesis using reschedule_arms(2) [OF earliest_resend_less [OF assms(1-3)] True] True
    by (simp add: schedule_resend_def)
next
  case False
  define s1 where "s1 = s\<lparr>resend_timer := Some (w_next_timer (os s)), os := snd (add_timeout RESEND_RETRY_MS CbResend (os s)), resend_scheduled := True\<rparr>"
  have "fst (add_timeout RESEND_RETRY_MS CbResend (os s)) = Some (w_next_timer (os s))"
    using assms(4) False by (simp add: add_timeout_def timer_available_def Let_def)
  then have "schedule_resend s = snd (reschedule_resend s1)"
    using False by (simp add: schedule_resend_def s1_def case_prod_unfold Let_def)
  moreover have "earliest_resend s1 < TIME_MAX"
    using earliest_resend_less [of n s1] assms by (simp add: s1_def deadlines_ok_def)
  ultimately show ?thesis using reschedule_arms(2) [of s1] by (simp add: s1_def)
qed

text \<open>The callback gives its timer up only when nothing is cached.\<close>

lemma resend_timeout_arms:
  assumes "deadlines_ok (fold (on_ep resend_cached_msgs) (g_endpoints s) s)" "resend_scheduled s" "resend_timer s = Some t"
  shows "if fst (resend_timeout s) then resend_armed (snd (resend_timeout s))
         else (\<forall>n \<in> set (g_endpoints s). \<not> has_cached_msgs (objs (snd (resend_timeout s)) ! n))"
proof -
  define s1 where "s1 = fold (on_ep resend_cached_msgs) (g_endpoints s) s"
  have fr: "g_endpoints (fold (on_ep f) ns s) = g_endpoints s \<and> resend_scheduled (fold (on_ep f) ns s) = resend_scheduled s \<and>
      resend_timer (fold (on_ep f) ns s) = resend_timer s" for f ns
    by (induction ns arbitrary: s) (simp_all add: on_ep_def set_ep_def case_prod_unfold Let_def)
  have s1: "g_endpoints s1 = g_endpoints s" "resend_scheduled s1" "resend_timer s1 = Some t"
    using fr assms(2,3) by (simp_all add: s1_def)
  show ?thesis
  proof (cases "earliest_resend s1 < TIME_MAX")
    case True
    note a = reschedule_arms [OF True s1(2,3)]
    have "resend_timeout s = (True, snd (reschedule_resend s1))"
      using a(1) by (simp add: resend_timeout_def s1_def [symmetric] case_prod_unfold Let_def)
    then show ?thesis using a(2) by simp
  next
    case False
    then have "\<forall>n \<in> set (g_endpoints s). \<not> has_cached_msgs (objs s1 ! n)"
      using earliest_resend_less [of _ s1] assms(1) s1(1) by (auto simp: s1_def)
    moreover have "reschedule_resend s1 = (False, s1)"
      using False earliest_resend_le [of s1] by (simp add: reschedule_resend_def)
    ultimately show ?thesis
      by (simp add: resend_timeout_def s1_def [symmetric] case_prod_unfold Let_def)
  qed
qed


section \<open>Links between the members of a group\<close>

lemma nth_upd: "xs[n := x] ! i = (if i = n \<and> n < length xs then x else xs ! i)"
  by (cases "n < length xs") (simp_all add: nth_list_update list_update_beyond)

lemma link_group_member_frame:
  "i \<noteq> n \<Longrightarrow> link_group_member n j h ! i = h ! i" "length (link_group_member n j h) = length h"
  "group_name (link_group_member n j h ! i) = group_name (h ! i)"
  "sys_comp_ids (link_group_member n j h ! i) = sys_comp_ids (h ! i)"
  by (simp_all add: link_group_member_def nth_upd)

definition peers :: "nat list \<Rightarrow> endpoint list \<Rightarrow> nat \<Rightarrow> nat list" where
  "peers ns h n = (if group_name (h ! n) = [] then []
                   else filter (\<lambda>j. j \<noteq> n \<and> group_name (h ! j) = group_name (h ! n)) ns)"

lemma link_to_group_members:
  assumes "n < length h"
  shows "group_members (link_to_group ns n h ! n) = group_members (h ! n) @ peers ns h n"
    and "i \<noteq> n \<Longrightarrow> link_to_group ns n h ! i = h ! i" "length (link_to_group ns n h) = length h"
    and "group_name (link_to_group ns n h ! i) = group_name (h ! i)"
    and "sys_comp_ids (link_to_group ns n h ! i) = sys_comp_ids (h ! i)"
proof -
  define f where "f = (\<lambda>other h. if other \<noteq> n \<and> group_name (h ! other) = group_name (h ! n) then link_group_member n other h else h)"
  have fold: "length (fold f ns h) = length h \<and> (i \<noteq> n \<longrightarrow> fold f ns h ! i = h ! i) \<and>
      group_name (fold f ns h ! i) = group_name (h ! i) \<and> sys_comp_ids (fold f ns h ! i) = sys_comp_ids (h ! i) \<and>
      group_members (fold f ns h ! n) = group_members (h ! n) @ filter (\<lambda>j. j \<noteq> n \<and> group_name (h ! j) = group_name (h ! n)) ns"
    if "n < length h" "group_name (h ! n) \<noteq> []" for h i
    using that
  proof (induction ns arbitrary: h)
    case (Cons m ns)
    define h1 where "h1 = f m h"
    have h1: "length h1 = length h" "\<And>i. i \<noteq> n \<Longrightarrow> h1 ! i = h ! i" "\<And>i. group_name (h1 ! i) = group_name (h ! i)"
      "\<And>i. sys_comp_ids (h1 ! i) = sys_comp_ids (h ! i)"
      by (simp_all add: h1_def f_def link_group_member_frame)
    have "group_members (h1 ! n) = group_members (h ! n) @ (if m \<noteq> n \<and> group_name (h ! m) = group_name (h ! n) then [m] else [])"
      using Cons.prems by (simp add: h1_def f_def link_group_member_def)
    then show ?case using Cons.IH [of h1] Cons.prems h1 by (simp add: h1_def [symmetric])
  qed simp
  show "group_members (link_to_group ns n h ! n) = group_members (h ! n) @ peers ns h n"
    "i \<noteq> n \<Longrightarrow> link_to_group ns n h ! i = h ! i" "length (link_to_group ns n h) = length h"
    "group_name (link_to_group ns n h ! i) = group_name (h ! i)"
    "sys_comp_ids (link_to_group ns n h ! i) = sys_comp_ids (h ! i)"
    using fold [OF assms] by (auto simp: link_to_group_def peers_def f_def [symmetric])
qed

lemma fold_link_to_group:
  assumes "distinct ms" "\<forall>n \<in> set ms. n < length h"
  shows "length (fold (link_to_group ns) ms h) = length h"
    "group_name (fold (link_to_group ns) ms h ! i) = group_name (h ! i)"
    "sys_comp_ids (fold (link_to_group ns) ms h ! i) = sys_comp_ids (h ! i)"
    "group_members (fold (link_to_group ns) ms h ! i) = group_members (h ! i) @ (if i \<in> set ms then peers ns h i else [])"
proof -
  have "length (fold (link_to_group ns) ms h) = length h \<and> group_name (fold (link_to_group ns) ms h ! i) = group_name (h ! i) \<and>
    sys_comp_ids (fold (link_to_group ns) ms h ! i) = sys_comp_ids (h ! i) \<and>
    group_members (fold (link_to_group ns) ms h ! i) = group_members (h ! i) @ (if i \<in> set ms then peers ns h i else [])"
    using assms
  proof (induction ms arbitrary: h)
    case (Cons m ms)
    define h1 where "h1 = link_to_group ns m h"
    have m: "m < length h" using Cons.prems by simp
    note l = link_to_group_members [OF m, where ns = ns, folded h1_def]
    have p: "peers ns h1 i = peers ns h i" by (simp add: peers_def l(4))
    show ?case using Cons.IH [of h1] Cons.prems l p by (cases "i = m") (auto simp: h1_def [symmetric])
  qed simp
  then show "length (fold (link_to_group ns) ms h) = length h"
    "group_name (fold (link_to_group ns) ms h ! i) = group_name (h ! i)"
    "sys_comp_ids (fold (link_to_group ns) ms h ! i) = sys_comp_ids (h ! i)"
    "group_members (fold (link_to_group ns) ms h ! i) = group_members (h ! i) @ (if i \<in> set ms then peers ns h i else [])"
    by blast+
qed


text \<open>The state of the endpoints before they are linked: no systems seen, no members.\<close>

definition fresh_ep :: "endpoint \<Rightarrow> bool" where
  "fresh_ep e \<longleftrightarrow> group_members e = [] \<and> sys_comp_ids e = []"

definition fresh_router :: "router \<Rightarrow> bool" where
  "fresh_router s \<longleftrightarrow> g_endpoints s = [0..<length (objs s)] \<and> (\<forall>e \<in> set (objs s). fresh_ep e)"

lemma link_groups_synced:
  assumes "fresh_router s"
  shows "groups_symmetric (objs (link_groups s))" "group_synced (objs (link_groups s))"
proof -
  define h where "h = objs s"
  define h' where "h' = objs (link_groups s)"
  have g: "g_endpoints s = [0..<length h]" and f: "\<And>i. i < length h \<Longrightarrow> group_members (h ! i) = [] \<and> sys_comp_ids (h ! i) = []"
    using assms by (auto simp: fresh_router_def fresh_ep_def h_def)
  have r: "length h' = length h" "\<And>i. sys_comp_ids (h' ! i) = sys_comp_ids (h ! i)"
    "\<And>i. group_members (h' ! i) = group_members (h ! i) @ (if i < length h then peers [0..<length h] h i else [])"
    using fold_link_to_group [of "[0..<length h]" h "[0..<length h]"]
    by (simp_all add: h'_def link_groups_def g h_def [symmetric])
  have m: "set (group_members (h' ! i)) = set (peers [0..<length h] h i)" if "i < length h" for i
    using r(3) f that by simp
  have "groups_symmetric h'"
    unfolding groups_symmetric_def
  proof (intro allI ballI impI)
    fix i j assume i: "i < length h'" and j: "j \<in> set (group_members (h' ! i))"
    then have "j \<in> set (peers [0..<length h] h i)" using m r(1) by simp
    then have "j < length h" "i \<in> set (peers [0..<length h] h j)"
      using i r(1) by (auto simp: peers_def split: if_splits)
    then show "j < length h' \<and> i \<in> set (group_members (h' ! j))" using m r(1) by simp
  qed
  moreover have "group_synced h'"
    unfolding group_synced_def
  proof (intro allI ballI impI)
    fix i j assume i: "i < length h'" and j: "j \<in> set (group_members (h' ! i))"
    then have "j < length h" using m r(1) by (auto simp: peers_def split: if_splits)
    then show "ids h' i = ids h' j" using i r f by (simp add: ids_def)
  qed
  ultimately show "groups_symmetric (objs (link_groups s))" "group_synced (objs (link_groups s))"
    by (simp_all add: h'_def)
qed

section \<open>Start-up\<close>

lemma fresh_set_throttling [simp]: "fresh_ep (fst (set_message_throttling k r e w)) = fresh_ep e"
  by (simp add: set_message_throttling_def fresh_ep_def case_prod_unfold Let_def split: option.split)

lemma fresh_apply_throttling: "fresh_ep (fst (snd (apply_throttling cfgs e w))) = fresh_ep e"
  by (induction cfgs e w rule: apply_throttling.induct) (simp_all add: case_prod_unfold Let_def)

lemma fresh_apply_rest [simp]:
  "fresh_ep (apply_throttle_cache ks e) = fresh_ep e" "fresh_ep (apply_filters c e) = fresh_ep e"
  "fresh_ep (apply_coalescing x y z e) = fresh_ep e" "fresh_ep (e\<lparr>ep_fd := f\<rparr>) = fresh_ep e"
  "fresh_ep (e\<lparr>net := n\<rparr>) = fresh_ep e" "fresh_ep (e\<lparr>udp := u\<rparr>) = fresh_ep e" "fresh_ep (e\<lparr>tcp := t\<rparr>) = fresh_ep e"
  "fresh_ep (e\<lparr>uart := v\<rparr>) = fresh_ep e" "fresh_ep (e\<lparr>tx_len := k\<rparr>) = fresh_ep e"
proof -
  show "fresh_ep (apply_throttle_cache ks e) = fresh_ep e"
    unfolding apply_throttle_cache_def
    by (induction ks arbitrary: e) (simp_all add: throttle_cache_add_msg_id_def fresh_ep_def)
qed (simp_all add: fresh_ep_def apply_filters_effect apply_coalescing_def)

lemmas push_if = if_distrib [of fst] if_distrib [of snd] if_distrib [of fresh_ep]

lemma fresh_uart_open: "fresh_ep (fst (snd (uart_open e w))) = fresh_ep e"
  by (simp add: uart_open_def case_prod_unfold Let_def push_if split del: if_split cong: if_cong)

lemma fresh_add_speeds: "fresh_ep (fst (snd (add_speeds b e w))) = fresh_ep e"
  by (simp add: add_speeds_def case_prod_unfold Let_def push_if split del: if_split cong: if_cong)

lemma fresh_first_speed: "fresh_ep (fst (snd (set_first_speed b e w))) = fresh_ep e"
  by (simp add: set_first_speed_def fresh_add_speeds case_prod_unfold Let_def)

lemma fresh_udp_open_ipv4: "fresh_ep (fst (udp_open_ipv4 ip p m e w)) = fresh_ep e"
  by (simp add: udp_open_ipv4_def case_prod_unfold Let_def push_if split del: if_split cong: if_cong)

lemma fresh_udp_open_ipv6: "fresh_ep (fst (udp_open_ipv6 ip p m e w)) = fresh_ep e"
  by (simp add: udp_open_ipv6_def case_prod_unfold Let_def push_if split del: if_split cong: if_cong)

lemma fresh_udp_open: "fresh_ep (fst (snd (udp_open ip p m e w))) = fresh_ep e"
  by (simp add: udp_open_def case_prod_unfold Let_def push_if fresh_udp_open_ipv4 fresh_udp_open_ipv6 split del: if_split cong: if_cong)

lemma fresh_tcp_open: "fresh_ep (fst (snd (tcp_open ip p e w))) = fresh_ep e"
  by (simp add: tcp_open_def case_prod_unfold Let_def push_if split del: if_split cong: if_cong)

lemma fresh_tcp_reconnect: "fresh_ep (fst (tcp_schedule_reconnect e w)) = fresh_ep e"
  by (simp add: tcp_schedule_reconnect_def tcp_close_def case_prod_unfold Let_def)

lemma fresh_uart_setup: "fresh_ep (fst (snd (uart_setup conf e w))) = fresh_ep e"
  by (simp add: uart_setup_def case_prod_unfold Let_def push_if fresh_uart_open fresh_first_speed
      fresh_apply_throttling split del: if_split cong: if_cong)

lemma fresh_udp_setup: "fresh_ep (fst (snd (udp_setup conf e w))) = fresh_ep e"
  by (simp add: udp_setup_def case_prod_unfold Let_def push_if fresh_udp_open fresh_apply_throttling split del: if_split cong: if_cong)

lemma fresh_tcp_setup: "fresh_ep (fst (snd (tcp_setup conf e w))) = fresh_ep e"
  by (simp add: tcp_setup_def case_prod_unfold Let_def push_if fresh_tcp_open fresh_tcp_reconnect
      fresh_apply_throttling split del: if_split cong: if_cong)

lemma fresh_constructors [simp]:
  "fresh_ep (UartEndpoint n name rx tx)" "fresh_ep (fst (UdpEndpoint n name rx tx w))" "fresh_ep (fst (TcpEndpoint n name rx tx w))"
  by (simp_all add: UartEndpoint_def UdpEndpoint_def TcpEndpoint_def new_write_schedule_timer_def case_prod_unfold Let_def)
     (simp_all add: Endpoint_init_def fresh_ep_def)

lemma fresh_router_add [simp]:
  "fresh_router s \<Longrightarrow> fresh_ep e \<Longrightarrow> fresh_router (add_object e w s)"
  "fresh_router s \<Longrightarrow> fresh_ep e \<Longrightarrow> fresh_router (push_object e w s)"
  by (auto simp: fresh_router_def add_object_def push_object_def)

lemma fresh_router_os [simp]: "fresh_router (s\<lparr>os := w\<rparr>) = fresh_router s"
  by (simp add: fresh_router_def)

lemma fresh_add_uarts: "fresh_router s \<Longrightarrow> fresh_router (snd (add_uarts M confs s))"
proof (induction confs arbitrary: s)
  case (Cons conf confs)
  then show ?case by (simp add: case_prod_unfold Let_def fresh_uart_setup)
qed simp

lemma fresh_add_udps: "fresh_router s \<Longrightarrow> fresh_router (snd (add_udps M confs s))"
proof (induction confs arbitrary: s)
  case (Cons conf confs)
  then show ?case by (simp add: case_prod_unfold Let_def fresh_udp_setup)
qed simp

lemma fresh_add_tcps: "fresh_router s \<Longrightarrow> fresh_router (snd (add_tcps M confs s))"
proof (induction confs arbitrary: s)
  case (Cons conf confs)
  then show ?case by (simp add: case_prod_unfold Let_def fresh_tcp_setup)
qed simp

lemma apply_options_objs [simp]:
  "objs (apply_options c s) = objs s" "g_endpoints (apply_options c s) = g_endpoints s"
  by (simp_all add: apply_options_def)

lemma add_endpointsD:
  "add_endpoints M config s = (True, s') \<Longrightarrow>
   \<exists>s1. add_links M config s = (True, s1) \<and> s' = apply_options config s1"
  by (auto simp: add_endpoints_def case_prod_unfold Let_def split: if_splits intro!: exI [of _ "snd (add_links M config s)"] prod_eqI)

lemma add_links_linked:
  assumes "fresh_router s" "add_links M config s = (True, s')"
  shows "\<exists>s3. fresh_router s3 \<and> objs s' = objs (link_groups s3) \<and> g_endpoints s' = g_endpoints (link_groups s3)"
proof -
  define s0 where "s0 = (if cfg_sniffer_sysid config \<noteq> 0 then s\<lparr>sniffer_sysid := ucast (cfg_sniffer_sysid config)\<rparr> else s)"
  define s3 where "s3 = snd (add_tcps M (tcp_configs config) (snd (add_udps M (udp_configs config) (snd (add_uarts M (uart_configs config) s0)))))"
  have "fresh_router s0" using assms(1) by (simp add: s0_def fresh_router_def)
  then have "fresh_router s3" by (simp add: s3_def fresh_add_uarts fresh_add_udps fresh_add_tcps)
  moreover have "objs s' = objs (link_groups s3) \<and> g_endpoints s' = g_endpoints (link_groups s3)"
    using assms(2)
    by (auto simp: add_links_def s0_def [symmetric] s3_def case_prod_unfold Let_def tcp_server_open_def
        open_command_pipe_def split: if_splits)
  ultimately show ?thesis by blast
qed

lemma add_endpoints_groups:
  assumes "fresh_router s" "add_endpoints M config s = (True, s')"
  shows "groups_symmetric (objs s')" "group_synced (objs s')"
proof -
  obtain s1 where s1: "add_links M config s = (True, s1)" "s' = apply_options config s1" using add_endpointsD [OF assms(2)] by blast
  obtain s3 where s3: "fresh_router s3" "objs s1 = objs (link_groups s3)" using add_links_linked [OF assms(1) s1(1)] by blast
  show "groups_symmetric (objs s')" "group_synced (objs s')" using link_groups_synced [OF s3(1)] s3(2) s1(2) by simp_all
qed


section \<open>Connections that hung up, commands, partial writes\<close>

lemma release_frame [simp]:
  "g_endpoints (release n s) = g_endpoints s" "length (objs (release n s)) = length (objs s)"
  "i \<noteq> n \<Longrightarrow> objs (release n s) ! i = objs s ! i"
  by (simp_all add: release_def set_ep_def case_prod_unfold Let_def)

lemma release_fold_frame [simp]:
  "g_endpoints (fold release ns s) = g_endpoints s" "length (objs (fold release ns s)) = length (objs s)"
  "i \<notin> set ns \<Longrightarrow> objs (fold release ns s) ! i = objs s ! i"
  by (induction ns arbitrary: s) simp_all

lemma process_tcp_hangups_exact:
  "g_endpoints (process_tcp_hangups s) = filter (\<lambda>n. \<not> gone s n) (g_endpoints s)"
  "n \<in> set (g_endpoints (process_tcp_hangups s)) \<Longrightarrow> objs (process_tcp_hangups s) ! n = objs s ! n"
  "\<not> should_process_tcp_hangups (os (process_tcp_hangups s))"
  by (simp_all add: process_tcp_hangups_def Let_def)

text \<open>What the handlers keep.\<close>

lemma on_ep_frame [simp]: "g_endpoints (on_ep f n s) = g_endpoints s" "length (objs (on_ep f n s)) = length (objs s)"
  by (simp_all add: on_ep_def set_ep_def case_prod_unfold Let_def)

text \<open>A command line with 22 words: the word for the blocked outgoing components is not read.\<close>

lemma cmd_udp_config_13: "cmd_udp_config (a[13 := x]) = cmd_udp_config a"
  by (simp add: cmd_udp_config_def Let_def)

lemma tcp_short_write:
  assumes "ep_type e = TCP" "ep_fd e \<ge> 0" "tx_len e = 0" "sends_now e b" "0 < k" "k < b_len b" "b_len b \<le> TX_BUF_MAX_SIZE"
    and "w_snd w (w_sndtick w) = SndOk k"
  shows "\<exists>e' w'. ml_write_msg e b w = (int k, e', w') \<and> tx_len e' = b_len b - k \<and> w_epoll w' = w_epoll w \<and>
    \<not> timer_armed w' (write_schedule_timer (net e)) \<and> \<not> write_scheduled (net e')"
proof -
  have "b_data b \<noteq> []" using assms(5,6) by auto
  with assms show ?thesis
  by (simp add: ml_write_msg_def ep_write_msg_def tcp_write_msg_def tcp_flush_pending_msgs_def unschedule_write_def sends_now_def
      tx_append_def tx_consume_def count_written_def sys_send_def mod_timeout_def timer_armed_def nat_diff_distrib' Let_def)
qed

lemma cached_route_arms:
  assumes "fst (ep_accept_msg (sniffer_sysid s) (objs s ! n) b (os s)) = Cached"
    and "n \<in> set (g_endpoints s)" "n < length (objs s)" "deadlines_ok s" "timer_available s"
  shows "resend_armed (snd (route_to b n (u, s)))"
proof -
  obtain w1 where w1: "ep_accept_msg (sniffer_sysid s) (objs s ! n) b (os s) = (Cached, w1)"
    using assms(1) by (metis prod.collapse)
  define s1 where "s1 = set_ep n (cache_msg b (objs s ! n)) w1 s"
  have "cache_size e = 0" if "msg_cache e = []" for e using that by (simp add: cache_size_def)
  moreover have "om_put k v m \<noteq> []" for k :: u32 and v :: "cached_msg list" and m by (cases "(k, v, m)" rule: om_put.cases) auto
  ultimately have c: "has_cached_msgs (objs s1 ! n)"
    using assms(3) by (auto simp: s1_def set_ep_def has_cached_msgs_def cache_msg_def Let_def)
  have t: "message_throttle_map (cache_msg b e) = message_throttle_map e" for e by (simp add: cache_msg_def Let_def)
  have "deadlines_ok s1" using assms(4) unfolding deadlines_ok_def s1_def set_ep_def by (simp add: nth_upd t)
  moreover have "timer_available s1"
  proof -
    have "w1 = (os s)\<lparr>w_tick := w_tick w1\<rparr>" by (rule ep_accept_msg_world [OF w1])
    from arg_cong [OF this, of w_timerfd_ok] arg_cong [OF this, of w_next_timer]
    have "w_timerfd_ok w1 = w_timerfd_ok (os s)" "w_next_timer w1 = w_next_timer (os s)" by simp_all
    then show ?thesis using assms(5) by (simp add: timer_available_def s1_def set_ep_def)
  qed
  ultimately have "resend_armed (schedule_resend s1)"
    using schedule_resend_arms [of n s1] c assms(2) by (simp add: s1_def set_ep_def)
  then show ?thesis by (simp add: route_to_def w1 s1_def)
qed

section \<open>Properties\<close>

definition ex_caching_router :: router where
  "ex_caching_router = ex_router\<lparr>objs :=
     [ex_endpoint UART, (ex_endpoint UART)\<lparr>ep_id := 1, ep_fd := 4, throttle_cache_msg_ids := {0},
                          message_throttle_map := [(0, \<lparr>rate = 1, next_timestamp = 5\<rparr>)]\<rparr>]\<rparr>"

lemma ex_caching_router_ok:
  "fst (ep_accept_msg (sniffer_sysid ex_caching_router) (objs ex_caching_router ! 1) ex_buffer (os ex_caching_router)) = Cached"
  "deadlines_ok ex_caching_router" "timer_available ex_caching_router"
proof -
  show "fst (ep_accept_msg (sniffer_sysid ex_caching_router) (objs ex_caching_router ! 1) ex_buffer (os ex_caching_router)) = Cached"
    by (simp add: ex_caching_router_def ep_accept_msg_def accept_msg_def has_sys_comp_id2_def has_sys_comp_id_def
        ex_endpoint_def Endpoint_init_def allowed_by_outgoing_filters_def no_filters_def is_routing_target_def
        is_throttling_enabled_def should_throttle_msg_def om_get_def FLT_EPSILON_def steady_now_def ex_world_def ex_buffer_def Let_def)
  show "deadlines_ok ex_caching_router"
    by (auto simp: deadlines_ok_def ex_caching_router_def ex_endpoint_def Endpoint_init_def om_get_def TIME_MAX_def split: if_splits)
  show "timer_available ex_caching_router"
    by (simp add: timer_available_def ex_caching_router_def ex_router_def ex_world_def)
qed

text \<open>The callback of the resend timer gives the timer up only when no endpoint has a cached
  message left; otherwise the timer stays armed.\<close>

theorem resend_timer_kept_while_needed:
  assumes "deadlines_ok (fold (on_ep resend_cached_msgs) (g_endpoints s) s)" "resend_scheduled s" "resend_timer s = Some t"
  shows "if fst (resend_timeout s) then resend_armed (snd (resend_timeout s))
         else (\<forall>n \<in> set (g_endpoints s). \<not> has_cached_msgs (objs (snd (resend_timeout s)) ! n))"
  using assms by (rule resend_timeout_arms)

lemma resend_timer_kept_while_needed_witness:
  "if fst (resend_timeout (ex_router\<lparr>resend_scheduled := True, resend_timer := Some 1\<rparr>))
   then resend_armed (snd (resend_timeout (ex_router\<lparr>resend_scheduled := True, resend_timer := Some 1\<rparr>)))
   else (\<forall>n \<in> {0, 1}. \<not> has_cached_msgs (objs (snd (resend_timeout (ex_router\<lparr>resend_scheduled := True, resend_timer := Some 1\<rparr>))) ! n))"
proof -
  define s where "s = ex_router\<lparr>resend_scheduled := True, resend_timer := Some 1\<rparr>"
  have "message_throttle_map (ex_endpoint UART) = []" by (simp add: ex_endpoint_def Endpoint_init_def)
  moreover have "resend_cached_msgs e w = (e, w)" if "msg_cache e = []" for e w
    using that by (simp add: resend_cached_msgs_def)
  ultimately have "deadlines_ok (fold (on_ep resend_cached_msgs) (g_endpoints s) s)"
    by (simp add: s_def on_ep_def set_ep_def deadlines_ok_def)
  from resend_timer_kept_while_needed [OF this] show ?thesis by (simp add: s_def split: if_splits)
qed

text \<open>After start-up the links between the members of each group are symmetric and all members
  know the same systems, whatever was configured; this is what keeps the tables of a group equal
  later on.\<close>

theorem startup_groups_consistent:
  assumes "fresh_router s" "add_endpoints M config s = (True, s')"
  shows "groups_symmetric (objs s') \<and> group_synced (objs s')"
  using add_endpoints_groups [OF assms] by simp

definition ex_configuration :: configuration where
  "ex_configuration =
     \<lparr>cfg_tcp_port = 5760, report_msg_statistics = False, cfg_dedup_period_ms = 10, command_pipe_path = ''/tmp/p'',
      uart_configs = [], udp_configs = [ex_udp_config\<lparr>c_group := ''g''\<rparr>, ex_udp_config\<lparr>c_group := ''g''\<rparr>],
      tcp_configs = [], cfg_sniffer_sysid = 0\<rparr>"

definition ex_start :: router where
  "ex_start = ex_router\<lparr>objs := [], g_endpoints := [], os := ex_world\<lparr>w_sys := \<lambda>_. 0\<rparr>\<rparr>"

lemma ex_startup:
  obtains s where "add_endpoints ex_mavlib ex_configuration ex_start = (True, s)" "g_endpoints s = [0, 1]"
proof -
  have up: "fst (udp_setup (ex_udp_config\<lparr>c_group := ''g''\<rparr>) e w) \<and>
      w_sys (snd (snd (udp_setup (ex_udp_config\<lparr>c_group := ''g''\<rparr>) e w))) = w_sys w" if "\<forall>k. w_sys w k = 0" for e w
    using that by (simp add: udp_setup_def ex_udp_config_def udp_validate_config_def validate_ip_def validate_ipv4_def is_digit_def
        udp_open_def ip_str_is_ipv6_def udp_open_ipv4_def sys_call_def add_timeout_def mod_timeout_def case_prod_unfold Let_def)
  have n: "w_sys (snd (UdpEndpoint i nm rx tx w)) = w_sys w" "w_sys (snd (add_fd f b w)) = w_sys w" for i nm rx tx f b w
    by (simp_all add: UdpEndpoint_def new_write_schedule_timer_def add_timeout_def mod_timeout_def add_fd_def case_prod_unfold Let_def)
  have "fst (add_endpoints ex_mavlib ex_configuration ex_start) \<and> g_endpoints (snd (add_endpoints ex_mavlib ex_configuration ex_start)) = [0, 1]"
    using up n by (simp add: add_endpoints_def add_links_def apply_options_def ex_configuration_def ex_start_def add_object_def link_groups_def tcp_server_open_def
        open_command_pipe_def case_prod_unfold Let_def)
  then show thesis using that [of "snd (add_endpoints ex_mavlib ex_configuration ex_start)"] by (metis prod.collapse)
qed

lemma startup_groups_consistent_witness:
  "\<exists>s'. add_endpoints ex_mavlib ex_configuration ex_start = (True, s') \<and> group_synced (objs s')"
proof -
  have f: "fresh_router ex_start" by (simp add: ex_start_def fresh_router_def)
  obtain s where "add_endpoints ex_mavlib ex_configuration ex_start = (True, s)" by (rule ex_startup)
  with startup_groups_consistent [OF f this] show ?thesis by blast
qed

text \<open>When connections hung up, exactly the TCP endpoints that became invalid leave the vector of
  endpoints, in their order and with the others untouched; no invalid one stays.\<close>

lemma hangups_remove_exactly_invalid:
  "g_endpoints (process_tcp_hangups s) = filter (\<lambda>n. \<not> (ep_type (objs s ! n) = TCP \<and> \<not> valid (tcp (objs s ! n)))) (g_endpoints s) \<and>
   (\<forall>n. n \<notin> set (g_endpoints s) - set (g_endpoints (process_tcp_hangups s)) \<longrightarrow> objs (process_tcp_hangups s) ! n = objs s ! n) \<and>
   \<not> should_process_tcp_hangups (os (process_tcp_hangups s))"
proof -
  have g: "gone s = (\<lambda>n. ep_type (objs s ! n) = TCP \<and> \<not> valid (tcp (objs s ! n)))"
    by (auto simp: gone_def is_valid_def fun_eq_iff)
  have "objs (process_tcp_hangups s) ! n = objs s ! n" if "n \<notin> set (g_endpoints s) - set (g_endpoints (process_tcp_hangups s))" for n
    using that process_tcp_hangups_exact(1) [of s] by (auto simp: process_tcp_hangups_def Let_def)
  then show ?thesis using process_tcp_hangups_exact(1,3) [of s] unfolding g by blast
qed

definition ex_tcp_client :: endpoint where
  "ex_tcp_client =
     (let e = Endpoint_init 0 TCP ''c'' [] [] in e\<lparr>ep_fd := 3, tcp := (tcp e)\<lparr>retry_timeout := 5\<rparr>\<rparr>)"

definition ex_client_router :: router where
  "ex_client_router = ex_router\<lparr>objs := [ex_tcp_client], g_endpoints := [0], os := ex_world\<lparr>w_rcv := \<lambda>_. RcvOk [] zero_sockaddr\<rparr>\<rparr>"

text \<open>An input and an error event at once on a TCP client that reconnects: reading finds the end of
  the stream and starts the reconnection timer, then the error makes the endpoint invalid and it is
  destroyed, but its timer is not. When the timer expires its callback enters the destroyed object.\<close>

lemma reconnect_timer_outlives_endpoint:
  "\<exists>s. loop_round ex_mavlib (\<lambda>_. 0)
     [\<lparr>ev_src = EndpointSource 0, EPOLLIN = True, EPOLLOUT = False, EPOLLERR = True, EPOLLHUP = True\<rparr>] ex_client_router = Some s \<and>
   g_endpoints s = [] \<and> map (\<lambda>t. (to_cb t, remove_me t)) (w_timeouts (os s)) = [(CbRetry 0, False)] \<and>
   loop_round ex_mavlib (\<lambda>_. 0)
     [\<lparr>ev_src = TimeoutSource 1 8 1, EPOLLIN = True, EPOLLOUT = False, EPOLLERR = False, EPOLLHUP = False\<rparr>] s = None"
  by (simp add: loop_round_def handle_event_def endpoint_event_def after_read_def handle_read.simps ex_client_router_def ex_tcp_client_def Endpoint_init_def
     ex_router_def ex_world_def ep_read_msg_def Endpoint_read_msg_def discard_last_packet_def ep_read_def tcp_read_def sys_recv_def set_net_sock_def
     RX_BUF_MAX_SIZE_def tcp_hangup_def tcp_schedule_reconnect_def tcp_close_def remove_fd_def add_timeout_def mod_timeout_def set_ep_def is_valid_def
     set_hangups_def process_tcp_hangups_def gone_def release_def referenced_def tcp_destroy_def del_timeout_def del_timeouts_def
     alive_def cb_alive_def timeout_handle_read_def timeout_due_def Let_def)

text \<open>An error on the command pipe ends the command interface: the pipe is opened again but its
  descriptor is not stored, so this and all later input events read an invalid descriptor and no
  command is executed any more.\<close>

lemma command_pipe_dead_after_error:
  "g_commands_fd (reopen_command_pipe s) = -1 \<and>
   handle_event M H \<lparr>ev_src = CommandPipe input, EPOLLIN = i, EPOLLOUT = False, EPOLLERR = True, EPOLLHUP = h\<rparr> s = Some (reopen_command_pipe s) \<and>
   handle_event M H \<lparr>ev_src = CommandPipe input', EPOLLIN = True, EPOLLOUT = False, EPOLLERR = False, EPOLLHUP = False\<rparr> (reopen_command_pipe s) =
     Some (reopen_command_pipe s)"
proof -
  have "g_commands_fd (reopen_command_pipe s) = -1"
    by (simp add: reopen_command_pipe_def open_command_pipe_def clean_command_pipe_def case_prod_unfold Let_def)
  then show ?thesis by (simp add: handle_event_def handle_command_pipe_def)
qed

text \<open>The word of the add command that is documented as the list of blocked outgoing source
  components has no effect on the endpoint created.\<close>

lemma add_command_ignores_blocked_components:
  "command_add M (a[13 := x]) s = command_add M a s"
proof -
  have "cmd_udp_config (a[13 := x]) = cmd_udp_config a" by (rule cmd_udp_config_13)
  then show ?thesis by (simp add: command_add_def)
qed

text \<open>When the kernel takes only part of a message from a TCP endpoint that does not coalesce, the
  rest waits in the transmit buffer with neither an output event nor a timer to send it: it stays
  until the next message.\<close>

lemma tcp_short_write_not_retried:
  assumes "ep_type e = TCP" "ep_fd e \<ge> 0" "tx_len e = 0" "sends_now e b" "0 < k" "k < b_len b" "b_len b \<le> TX_BUF_MAX_SIZE"
    and "w_snd w (w_sndtick w) = SndOk k"
  shows "\<exists>e' w'. ml_write_msg e b w = (int k, e', w') \<and> tx_len e' = b_len b - k \<and> w_epoll w' = w_epoll w \<and>
    \<not> timer_armed w' (write_schedule_timer (net e)) \<and> \<not> write_scheduled (net e')"
  using assms by (rule tcp_short_write)

lemma tcp_short_write_not_retried_witness:
  "\<exists>e' w'. ml_write_msg (ex_endpoint TCP) ex_buffer ex_world = (3, e', w') \<and> tx_len e' = 5"
  using tcp_short_write_not_retried [of "ex_endpoint TCP" ex_buffer 3 ex_world]
  by (simp add: sends_now_def ex_buffer_def ex_world_def) (auto simp: ex_endpoint_def Endpoint_init_def)

end
