(* ===== verification/Safety.thy ===== *)
theory Safety
  imports EventFacts
begin

text \<open>
  Invariants of the whole router. Every operation on an endpoint keeps its buffers at their size and
  its cache bounded; so does every event, callback, command and connection, and the vector of
  endpoints stays a list of distinct existing objects. The states of the event loop are an inductive
  predicate, and the invariants hold in all of them.
\<close>

section \<open>Endpoints\<close>

definition ep_inv :: "mavlib \<Rightarrow> endpoint \<Rightarrow> bool" where
  "ep_inv M e \<longleftrightarrow> rx_inv M e \<and> tx_inv e \<and> cache_inv e"

text \<open>An endpoint keeps its class, and forgets no system.\<close>

definition grown :: "endpoint \<Rightarrow> endpoint \<Rightarrow> bool" where
  "grown e e' \<longleftrightarrow> ep_type e' = ep_type e \<and> set (sys_comp_ids e) \<subseteq> set (sys_comp_ids e')"

text \<open>A step that leaves the buffers and the cache alone, up to clearing the transmit buffer.\<close>

definition calm :: "endpoint \<Rightarrow> endpoint \<Rightarrow> bool" where
  "calm e e' \<longleftrightarrow> grown e e' \<and> rx_data e' = rx_data e \<and> rx_len e' = rx_len e \<and> last_packet_len e' = last_packet_len e \<and>
     tx_data e' = tx_data e \<and> (tx_len e' = tx_len e \<or> tx_len e' = 0) \<and> msg_cache e' = msg_cache e"

lemma calm_inv: "calm e e' \<Longrightarrow> ep_inv M e \<Longrightarrow> ep_inv M e'"
  by (auto simp: calm_def ep_inv_def rx_inv_def tx_inv_def cache_inv_def cache_size_def)

lemma grown_refl [simp]: "grown e e"
  by (simp add: grown_def)

lemma grown_trans: "grown e e1 \<Longrightarrow> grown e1 e2 \<Longrightarrow> grown e e2"
  by (auto simp: grown_def)

lemma calm_refl [simp]: "calm e e"
  by (simp add: calm_def)

lemma calm_trans [trans]: "calm e e1 \<Longrightarrow> calm e1 e2 \<Longrightarrow> calm e e2"
  by (auto simp: calm_def intro: grown_trans)

lemma calm_updates [simp]:
  "calm e (e'\<lparr>ep_fd := f\<rparr>) = calm e e'" "calm e (e'\<lparr>net := n\<rparr>) = calm e e'" "calm e (e'\<lparr>udp := u\<rparr>) = calm e e'"
  "calm e (e'\<lparr>tcp := t\<rparr>) = calm e e'" "calm e (e'\<lparr>uart := v\<rparr>) = calm e e'" "calm e (e'\<lparr>group_members := g\<rparr>) = calm e e'"
  "calm e (e'\<lparr>message_throttle_map := m\<rparr>) = calm e e'" "calm e e' \<Longrightarrow> calm e (e'\<lparr>tx_len := 0\<rparr>)"
  by (simp_all add: calm_def grown_def)

lemma calm_helpers [simp]:
  "calm e (apply_filters c e') = calm e e'" "calm e (apply_coalescing x y z e') = calm e e'"
  "calm e (apply_throttle_cache ks e') = calm e e'" "calm e (count_dropped_msg e') = calm e e'"
  "calm e (set_net_sock a e') = calm e e'" "calm e (log_aggregate e') = calm e e'"
  "calm e (fst (set_message_throttling k r e' w)) = calm e e'" "calm e (fst (update_throttle_info e' k w)) = calm e e'"
proof -
  show "calm e (apply_throttle_cache ks e') = calm e e'"
    unfolding apply_throttle_cache_def
    by (induction ks arbitrary: e') (simp_all add: throttle_cache_add_msg_id_def calm_def grown_def)
  show "calm e (fst (set_message_throttling k r e' w)) = calm e e'"
    by (simp add: set_message_throttling_def case_prod_unfold Let_def split: option.split)
  show "calm e (fst (update_throttle_info e' k w)) = calm e e'"
    by (simp add: update_throttle_info_def case_prod_unfold Let_def split: option.split)
qed (simp_all add: apply_filters_effect apply_coalescing_def count_dropped_msg_def set_net_sock_def log_aggregate_def calm_def grown_def Let_def)

lemma calm_apply_throttling [simp]: "calm e (fst (snd (apply_throttling cfgs e' w))) = calm e e'"
  by (induction cfgs e' w rule: apply_throttling.induct) (simp_all add: case_prod_unfold Let_def)

lemmas push_calm = if_distrib [of fst] if_distrib [of snd] if_distrib [of "calm e" for e]

lemma calm_tcp_close: "calm e e' \<Longrightarrow> calm e (fst (tcp_close e' w))"
  by (simp add: tcp_close_def case_prod_unfold Let_def)

lemma calm_reconnect: "calm e e' \<Longrightarrow> calm e (fst (tcp_schedule_reconnect e' w))"
  by (simp add: tcp_schedule_reconnect_def calm_tcp_close case_prod_unfold Let_def)

lemma calm_hangup: "calm e e' \<Longrightarrow> calm e (fst (tcp_hangup e' w))"
  by (simp add: tcp_hangup_def calm_reconnect case_prod_unfold Let_def)

lemma calm_uart_open [simp]: "calm e (fst (snd (uart_open e' w))) = calm e e'"
  by (simp add: uart_open_def case_prod_unfold Let_def push_calm split del: if_split cong: if_cong)

lemma calm_add_speeds [simp]: "calm e (fst (snd (add_speeds b e' w))) = calm e e'"
  by (simp add: add_speeds_def case_prod_unfold Let_def push_calm split del: if_split cong: if_cong)

lemma calm_first_speed [simp]: "calm e (fst (snd (set_first_speed b e' w))) = calm e e'"
  by (simp add: set_first_speed_def case_prod_unfold Let_def)

lemma calm_udp_open [simp]: "calm e (fst (snd (udp_open ip p m e' w))) = calm e e'"
proof -
  have 4: "calm e (fst (udp_open_ipv4 ip p m e' w)) = calm e e'" for e' m
    by (simp add: udp_open_ipv4_def case_prod_unfold Let_def push_calm split del: if_split cong: if_cong)
  have 6: "calm e (fst (udp_open_ipv6 ip p m e' w)) = calm e e'" for e' m
    by (simp add: udp_open_ipv6_def case_prod_unfold Let_def push_calm split del: if_split cong: if_cong)
  show ?thesis
    by (simp add: udp_open_def case_prod_unfold Let_def push_calm 4 6 split del: if_split cong: if_cong)
qed

lemma calm_tcp_open [simp]: "calm e (fst (snd (tcp_open ip p e' w))) = calm e e'"
  by (simp add: tcp_open_def case_prod_unfold Let_def push_calm split del: if_split cong: if_cong)

lemma calm_setups:
  "calm e (fst (snd (uart_setup cu e w)))" "calm e (fst (snd (udp_setup cd e w)))" "calm e (fst (snd (tcp_setup ct e w)))"
  "calm e (fst (snd (tcp_accept peer e w)))"
proof -
  show "calm e (fst (snd (uart_setup cu e w)))"
    by (simp add: uart_setup_def case_prod_unfold Let_def push_calm split del: if_split cong: if_cong)
  show "calm e (fst (snd (udp_setup cd e w)))"
    by (simp add: udp_setup_def case_prod_unfold Let_def push_calm split del: if_split cong: if_cong)
  show "calm e (fst (snd (tcp_setup ct e w)))"
    by (simp add: tcp_setup_def case_prod_unfold Let_def push_calm calm_reconnect split del: if_split cong: if_cong)
  show "calm e (fst (snd (tcp_accept peer e w)))"
    by (simp add: tcp_accept_def case_prod_unfold Let_def)
qed

lemma calm_callbacks:
  "calm e (fst (snd (udp_nomessage_timeout_cb e w)))" "calm e (fst (snd (tcp_retry_timeout_cb e w)))"
  "calm e (fst (snd (change_baud_cb e w)))"
  by (simp_all add: udp_nomessage_timeout_cb_def tcp_retry_timeout_cb_def tcp_reopen_def change_baud_cb_def case_prod_unfold Let_def
      push_calm split del: if_split cong: if_cong)

text \<open>Sending and receiving.\<close>

lemma ep_inv_tx_only: "tx_only e e' \<Longrightarrow> tx_inv e' \<Longrightarrow> ep_inv M e \<Longrightarrow> ep_inv M e'"
  using tx_only_fields(1-3,8) [of e e']
  by (simp add: ep_inv_def rx_inv_def cache_inv_def cache_size_def)

lemma ep_inv_write: "ep_inv M e \<Longrightarrow> ep_inv M (fst (snd (ep_write_msg e b w)))"
  by (rule ep_inv_tx_only [OF tx_only_ep_write tx_inv_ep_write]) (simp_all add: ep_inv_def)

lemma ep_inv_flush: "ep_inv M e \<Longrightarrow> ep_inv M (fst (snd (ep_flush_pending_msgs e w)))"
  by (rule ep_inv_tx_only [OF tx_only_ep_flush tx_inv_ep_flush]) (simp_all add: ep_inv_def)

lemma ep_inv_cache_msg: "ep_inv M e \<Longrightarrow> ep_inv M (cache_msg b e)"
  using cache_msg_inv [of e b] by (simp add: ep_inv_def rx_inv_same_rx [OF same_rx_steps(2)])

lemma calm_ep_read: "calm e (fst (snd (ep_read len e w)))"
  by (auto simp: ep_read_def uart_read_def udp_read_def tcp_read_def calm_hangup case_prod_unfold Let_def
      split: ep_type.split rcv_res.split)

text \<open>Reading a message changes the reception side, and of the rest what a calm step changes.\<close>

definition calm_tx :: "endpoint \<Rightarrow> endpoint \<Rightarrow> bool" where
  "calm_tx e e' \<longleftrightarrow> grown e e' \<and> tx_data e' = tx_data e \<and> (tx_len e' = tx_len e \<or> tx_len e' = 0) \<and> msg_cache e' = msg_cache e"

lemma calm_tx_decode: "calm_tx e (snd (decode_packet M e))"
  by (auto simp: calm_tx_def grown_def decode_packet_def sync_to_stx_def Let_def split: option.split if_splits)

lemma calm_tx_read_msg: "calm_tx e (fst (snd (ep_read_msg M e w)))"
proof -
  have t: "calm_tx e e1 \<Longrightarrow> calm_tx e1 e2 \<Longrightarrow> calm_tx e e2" for e e1 e2 by (auto simp: calm_tx_def intro: grown_trans)
  have c: "calm e e1 \<Longrightarrow> calm_tx e e1" for e e1 by (simp add: calm_def calm_tx_def)
  have u: "calm_tx e (e1\<lparr>uart := v\<rparr>) = calm_tx e e1" "calm_tx e (e1\<lparr>rx_data := d, rx_len := l\<rparr>) = calm_tx e e1" for e e1 v d l
    by (simp_all add: calm_tx_def grown_def)
  have d: "calm_tx e (snd (discard_last_packet e))" by (simp add: discard_last_packet_def calm_tx_def grown_def Let_def)
  have "calm_tx e (fst (snd (Endpoint_read_msg M e w)))"
    using t [OF d calm_tx_decode] t [OF _ calm_tx_decode, of e] c [OF calm_ep_read] c [OF calm_refl]
    by (auto simp: Endpoint_read_msg_def discard_last_packet_def u case_prod_unfold Let_def split: if_splits)
  then show ?thesis
    by (simp add: ep_read_msg_def u case_prod_unfold Let_def split: ep_type.split option.split)
qed

lemma ep_inv_read_msg: "mavlib_ok M \<Longrightarrow> ep_inv M e \<Longrightarrow> ep_inv M (fst (snd (ep_read_msg M e w)))"
  using ep_read_msg_inv [of M e w] calm_tx_read_msg [of e M w]
  by (auto simp: ep_inv_def calm_tx_def tx_inv_def cache_inv_def cache_size_def)

lemma ep_inv_resend: "ep_inv M e \<Longrightarrow> ep_inv M (fst (resend_cached_msgs e w))"
proof -
  have c: "ep_inv M (e1\<lparr>msg_cache := c\<rparr>) \<longleftrightarrow> rx_inv M e1 \<and> tx_inv e1 \<and> cache_inv (e1\<lparr>msg_cache := c\<rparr>)" for e1 c
    by (simp add: ep_inv_def rx_inv_def tx_inv_def)
  have q: "ep_inv M e \<Longrightarrow> ep_inv M (fst (snd (snd (resend_queued_msgs k q e w))))" for k q e w
  proof (induction k q e w rule: resend_queued_msgs.induct)
    case (2 k m q e w)
    obtain b w1 where 1: "should_throttle_msg e k w = (b, w1)" by fastforce
    obtain r e1 w2 where wr: "ep_write_msg e (as_buffer m) w1 = (r, e1, w2)" by (metis prod_cases3)
    obtain e2 w3 where up: "update_throttle_info e1 k w2 = (e2, w3)" by fastforce
    have e1: "ep_inv M e1" using ep_inv_write [OF "2.prems", of "as_buffer m" w1] wr by simp
    have e2: "ep_inv M e2" using calm_inv [OF _ e1] up calm_helpers(8) [of e1 e1 k w2] by simp
    show ?case using "2.IH" [OF 1 [symmetric] refl _ wr [symmetric] refl refl _ _ up [symmetric] refl _ e2] "2.prems" e1 e2
      by (auto simp: 1 wr up)
  qed simp
  have "rx_inv M (fst (resend_queues dn cs e w)) \<and> tx_inv (fst (resend_queues dn cs e w))" if "ep_inv M e" for dn cs e w
    using that
  proof (induction dn cs e w rule: resend_queues.induct)
    case (2 dn k q cs e w)
    obtain r q1 e1 w1 where 1: "resend_queued_msgs k q e w = (r, q1, e1, w1)" by (metis prod_cases4)
    have e1: "ep_inv M e1" using q [OF "2.prems", of k q w] by (simp add: 1)
    then have "rx_inv M (e1\<lparr>msg_cache := c\<rparr>) \<and> tx_inv (e1\<lparr>msg_cache := c\<rparr>)" for c by (simp add: ep_inv_def rx_inv_def tx_inv_def)
    then show ?case using "2.IH" [OF 1 [symmetric] refl refl refl] e1 by (auto simp: 1 Let_def)
  qed (simp add: ep_inv_def rx_inv_def tx_inv_def)
  note r = this
  show "ep_inv M (fst (resend_cached_msgs e w))" if "ep_inv M e"
    using r [OF that, of "[]" "msg_cache e" w] resend_cached_msgs_inv [of e w] that
    by (auto simp: ep_inv_def resend_cached_msgs_def c rx_inv_def tx_inv_def)
qed

section \<open>The router\<close>

definition router_inv :: "mavlib \<Rightarrow> router \<Rightarrow> bool" where
  "router_inv M s \<longleftrightarrow> (\<forall>e \<in> set (objs s). ep_inv M e) \<and> dedup_wf (msg_dedup s)"

lemma router_inv_frame [simp]:
  "router_inv M (s\<lparr>os := w\<rparr>) = router_inv M s" "router_inv M (s\<lparr>g_endpoints := g\<rparr>) = router_inv M s"
  "router_inv M (s\<lparr>msg_to_unknown := u\<rparr>) = router_inv M s" "router_inv M (s\<lparr>resend_scheduled := b\<rparr>) = router_inv M s"
  "router_inv M (s\<lparr>resend_timer := t\<rparr>) = router_inv M s" "router_inv M (s\<lparr>g_commands_fd := f\<rparr>) = router_inv M s"
  "router_inv M (s\<lparr>g_tcp_fd := f\<rparr>) = router_inv M s" "router_inv M (s\<lparr>retcode := r\<rparr>) = router_inv M s"
  "router_inv M (s\<lparr>should_exit := x\<rparr>) = router_inv M s" "router_inv M (s\<lparr>sniffer_sysid := y\<rparr>) = router_inv M s"
  by (simp_all add: router_inv_def)

lemma router_inv_set_ep:
  "router_inv M s \<Longrightarrow> (n < length (objs s) \<Longrightarrow> ep_inv M e) \<Longrightarrow> router_inv M (set_ep n e w s)"
  by (cases "n < length (objs s)")
     (auto simp: router_inv_def set_ep_def list_update_beyond dest!: subsetD [OF set_update_subset_insert])

lemma router_inv_nth: "router_inv M s \<Longrightarrow> n < length (objs s) \<Longrightarrow> ep_inv M (objs s ! n)"
  by (simp add: router_inv_def)

text \<open>An operation on one endpoint that keeps its invariant keeps that of the router.\<close>

lemma router_inv_on:
  assumes "router_inv M s" "\<And>e w. ep_inv M e \<Longrightarrow> ep_inv M (fst (f e w))"
  shows "router_inv M (on_ep f n s)"
  using assms router_inv_nth [OF assms(1)] by (simp add: on_ep_def case_prod_unfold Let_def router_inv_set_ep)

lemma router_inv_on_fold:
  assumes "router_inv M s" "\<And>e w. ep_inv M e \<Longrightarrow> ep_inv M (fst (f e w))"
  shows "router_inv M (fold (on_ep f) ns s)"
  using assms(1) by (induction ns arbitrary: s) (simp_all add: router_inv_on assms(2))

lemma router_inv_objs:
  assumes "router_inv M s" "length h = length (objs s)" "\<And>i. i < length h \<Longrightarrow> ep_inv M (objs s ! i) \<Longrightarrow> ep_inv M (h ! i)"
  shows "router_inv M (s\<lparr>objs := h\<rparr>)"
  using assms by (simp add: router_inv_def) (metis in_set_conv_nth)

section \<open>Routing\<close>

lemma router_inv_reschedule: "router_inv M s \<Longrightarrow> router_inv M (snd (reschedule_resend s))"
  by (simp add: reschedule_resend_def case_prod_unfold Let_def)

lemma router_inv_schedule: "router_inv M s \<Longrightarrow> router_inv M (schedule_resend s)"
  by (simp add: schedule_resend_def router_inv_reschedule case_prod_unfold Let_def split: option.split)

lemma ep_inv_ml_write: "ep_inv M e \<Longrightarrow> ep_inv M (fst (snd (ml_write_msg e b w)))"
  using ep_inv_write [of M e b w] calm_inv [of "fst (snd (ep_write_msg e b w))" "count_dropped_msg (fst (snd (ep_write_msg e b w)))"]
  by (simp add: ml_write_msg_def case_prod_unfold Let_def)

lemma ep_inv_update_throttle: "ep_inv M e \<Longrightarrow> ep_inv M (fst (update_throttle_info e k w))"
  using calm_inv [of e "fst (update_throttle_info e k w)"] by simp

lemma router_inv_route_to: "router_inv M (snd us) \<Longrightarrow> router_inv M (snd (route_to b n us))"
  using router_inv_nth [of M "snd us" n]
  by (auto simp: route_to_def case_prod_unfold Let_def router_inv_set_ep router_inv_schedule ep_inv_ml_write ep_inv_update_throttle
      ep_inv_cache_msg split: accept_state.split)

lemma router_inv_route_fold: "router_inv M (snd us) \<Longrightarrow> router_inv M (snd (fold (route_to b) ns us))"
  by (induction ns arbitrary: us) (simp_all add: router_inv_route_to)

lemma router_inv_route_msg: "router_inv M s \<Longrightarrow> router_inv M (route_msg b s)"
  using router_inv_route_fold [of M "(True, s)" b "g_endpoints s"]
  by (simp add: route_msg_def case_prod_unfold Let_def)

lemma calm_learn: "i < length (objs s) \<Longrightarrow> calm (objs s ! i) (objs (add_sys_comp_id_of n b s) ! i)"
proof -
  assume i: "i < length (objs s)"
  note f = add_calls_frame [OF i, of "sys_comp_key (src_sysid (b_curr b)) (src_compid (b_curr b))" "[n]"]
  show ?thesis
    using arg_cong [OF conjunct1 [OF f], of "\<lambda>e. (rx_data e, rx_len e, last_packet_len e, tx_data e, tx_len e, msg_cache e, ep_type e)"]
      conjunct1 [OF conjunct2 [OF f]]
    by (simp add: calm_def grown_def ids_def add_sys_comp_id_of_def add_sys_comp_id_def)
qed

lemma router_inv_learn:
  assumes "router_inv M s" shows "router_inv M (add_sys_comp_id_of n b s)"
proof -
  have "router_inv M (s\<lparr>objs := objs (add_sys_comp_id_of n b s)\<rparr>)"
    by (rule router_inv_objs [OF assms])
       (simp, metis calm_inv calm_learn length_learn)
  then show ?thesis by (simp add: add_sys_comp_id_of_def)
qed

lemma router_inv_dedup:
  assumes "router_inv M s" "dedup_check_msg H b s = Some (ok, s1)" shows "router_inv M s1"
proof -
  have "dedup_wf (msg_dedup s1)" using dedup_check_msg_total [of s H b] assms by (simp add: router_inv_def)
  then show ?thesis using assms(1) dedup_check_msg_objs [OF assms(2)] by (auto simp: router_inv_def)
qed

lemma router_inv_process_msg:
  assumes "router_inv M s" "process_msg H n b s = Some s'" shows "router_inv M s'"
proof -
  obtain ok s1 where d: "dedup_check_msg H b s = Some (ok, s1)"
    using assms(2) by (auto simp: process_msg_def split: option.splits)
  then show ?thesis using assms(2) router_inv_dedup [OF assms(1) d]
    by (auto simp: process_msg_def router_inv_learn router_inv_route_msg split: if_splits)
qed

lemma router_inv_handle_read:
  assumes "mavlib_ok M" shows "router_inv M s \<Longrightarrow> handle_read M H n s = Some (r, s') \<Longrightarrow> router_inv M s'"
  using assms
proof (induction M H n s rule: handle_read.induct)
  case (1 M H n s)
  have n: "\<not> length (objs s) \<le> n" using "1.prems"(2) by (auto simp: handle_read.simps [of M] split: if_splits)
  obtain r1 b e1 w1 where rd: "ep_read_msg M (objs s ! n) (os s) = ((r1, b), e1, w1)" by (metis prod.collapse)
  have "ep_inv M e1"
    using ep_inv_read_msg [OF "1.prems"(3) router_inv_nth [OF "1.prems"(1)], of n "os s"] n rd by simp
  then have inv: "router_inv M (set_ep n e1 w1 s)" by (rule router_inv_set_ep [OF "1.prems"(1)])
  show ?case
  proof (cases "r1 \<le> 0")
    case True
    then show ?thesis using "1.prems"(2) n rd inv by (simp add: handle_read.simps [of M _ _ s])
  next
    case False
    then obtain s1 where p: "process_msg H n (the b) (set_ep n e1 w1 s) = Some s1" "handle_read M H n s1 = Some (r, s')"
      using "1.prems"(2) n rd by (auto simp: handle_read.simps [of M _ _ s] split: option.splits)
    from "1.IH" [OF n rd [symmetric] refl refl False p(1) router_inv_process_msg [OF inv p(1)] p(2) "1.prems"(3)]
    show ?thesis .
  qed
qed

section \<open>Events\<close>

lemma router_inv_callback: "router_inv M s \<Longrightarrow> router_inv M (snd (run_callback cb s))"
proof -
  assume s: "router_inv M s"
  have f: "router_inv M (on_ep (\<lambda>e w. snd (ep_flush_pending_msgs e w)) n s)" for n
    by (rule router_inv_on [OF s]) (simp add: ep_inv_flush)
  have c: "router_inv M (set_ep n e' w s)" if "calm (objs s ! n) e'" for n e' w
    by (rule router_inv_set_ep [OF s]) (rule calm_inv [OF that router_inv_nth [OF s]])
  have r: "router_inv M (snd (resend_timeout s))"
    using router_inv_reschedule [OF router_inv_on_fold [where f = resend_cached_msgs and ns = "g_endpoints s", OF s ep_inv_resend]]
    by (simp add: resend_timeout_def case_prod_unfold Let_def)
  have l: "router_inv M (snd (log_aggregate_timeout s))"
    unfolding log_aggregate_timeout_def Let_def snd_conv
    by (rule router_inv_on_fold) (simp_all add: s, metis calm_inv calm_refl calm_helpers(6))
  show ?thesis using s f r l
    by (simp add: run_callback_def ml_print_statistics_def c calm_callbacks case_prod_unfold Let_def split: callback.split)
qed

lemma router_inv_timeout: "router_inv M s \<Longrightarrow> timeout_handle_read t ret val s = Some s' \<Longrightarrow> router_inv M s'"
  by (auto simp: timeout_handle_read_def case_prod_unfold Let_def router_inv_callback split: option.splits if_splits)

lemma router_inv_release: "router_inv M s \<Longrightarrow> router_inv M (release n s)"
proof -
  assume s: "router_inv M s"
  have "router_inv M (set_ep n (fst (tcp_destroy (objs s ! n) w)\<lparr>ep_fd := -1, group_members := []\<rparr>) w' s)" for w w'
    by (rule router_inv_set_ep [OF s], rule calm_inv [OF _ router_inv_nth [OF s]]) (simp_all add: tcp_destroy_def calm_tcp_close)
  moreover have "router_inv M (set_ep n ((objs s ! n)\<lparr>ep_fd := -1, group_members := []\<rparr>) w' s)" for w'
    by (rule router_inv_set_ep [OF s], rule calm_inv [OF _ router_inv_nth [OF s]]) simp_all
  ultimately show ?thesis using s
    by (simp add: release_def case_prod_unfold Let_def split: ep_type.split)
qed

lemma router_inv_release_fold: "router_inv M s \<Longrightarrow> router_inv M (fold release ns s)"
  by (induction ns arbitrary: s) (simp_all add: router_inv_release)

lemma router_inv_hangups: "router_inv M s \<Longrightarrow> router_inv M (process_tcp_hangups s)"
  by (simp add: process_tcp_hangups_def Let_def router_inv_release_fold)

lemma router_inv_after_read:
  assumes s1: "router_inv M s1" shows "router_inv M (after_read n ev rd s1)"
proof -
  define s2 where "s2 = (if EPOLLIN ev \<and> rd < 0 \<and> \<not> is_valid (objs s1 ! n) then set_hangups s1 else s1)"
  have s2: "router_inv M s2" using s1 by (simp add: s2_def set_hangups_def)
  define s3 where "s3 = (if EPOLLOUT ev then (let (more, e, w) = handle_canwrite (objs s2 ! n) (os s2)
                       in set_ep n e (if more then w else snd (mod_fd (ep_fd e) False w)) s2) else s2)"
  have s3: "router_inv M s3"
    using s2 router_inv_set_ep [OF s2 ep_inv_flush [OF router_inv_nth [OF s2]]]
    by (simp add: s3_def handle_canwrite_def case_prod_unfold Let_def)
  have "after_read n ev rd s1 =
      (if EPOLLERR ev then
         (if ep_type (objs s3 ! n) = TCP
          then set_hangups (set_ep n ((objs s3 ! n)\<lparr>tcp := (tcp (objs s3 ! n))\<lparr>valid := False\<rparr>\<rparr>) (os s3) s3)
          else request_exit 1 s3)
       else s3)"
    unfolding after_read_def s3_def s2_def by (simp add: Let_def)
  moreover have "router_inv M (set_ep n ((objs s3 ! n)\<lparr>tcp := t\<rparr>) (os s3) s3)" for t
    by (rule router_inv_set_ep [OF s3], rule calm_inv [OF _ router_inv_nth [OF s3]]) simp_all
  ultimately show ?thesis using s3 by (simp add: request_exit_def set_hangups_def)
qed

lemma router_inv_endpoint_event:
  assumes "mavlib_ok M" "router_inv M s" "endpoint_event M H n ev s = Some s'"
  shows "router_inv M s'"
  using assms router_inv_handle_read router_inv_after_read
  by (auto simp: endpoint_event_def split: option.splits if_splits)

section \<open>New endpoints\<close>

lemma length_malloc [simp]: "length (malloc n w) = n"
  by (simp add: malloc_def)

lemma ep_inv_fresh:
  assumes "mavlib_ok M"
  shows "ep_inv M (Endpoint_init n t name (malloc (RX_BUF_MAX_SIZE M) w) (malloc TX_BUF_MAX_SIZE w'))"
  using assms by (simp add: ep_inv_def rx_inv_def tx_inv_def cache_inv_empty mavlib_ok_def Endpoint_init_def)

lemma ep_inv_constructed:
  assumes "mavlib_ok M"
  shows "ep_inv M (UartEndpoint n name (malloc (RX_BUF_MAX_SIZE M) w) (malloc TX_BUF_MAX_SIZE w'))"
    "ep_inv M (fst (UdpEndpoint n name (malloc (RX_BUF_MAX_SIZE M) w) (malloc TX_BUF_MAX_SIZE w') w''))"
    "ep_inv M (fst (TcpEndpoint n name (malloc (RX_BUF_MAX_SIZE M) w) (malloc TX_BUF_MAX_SIZE w') w''))"
proof -
  have n: "ep_inv M (e\<lparr>net := x\<rparr>) = ep_inv M e" for e x by (simp add: ep_inv_def rx_inv_def tx_inv_def cache_inv_def cache_size_def)
  show "ep_inv M (UartEndpoint n name (malloc (RX_BUF_MAX_SIZE M) w) (malloc TX_BUF_MAX_SIZE w'))"
    "ep_inv M (fst (UdpEndpoint n name (malloc (RX_BUF_MAX_SIZE M) w) (malloc TX_BUF_MAX_SIZE w') w''))"
    "ep_inv M (fst (TcpEndpoint n name (malloc (RX_BUF_MAX_SIZE M) w) (malloc TX_BUF_MAX_SIZE w') w''))"
  by (simp_all add: n UartEndpoint_def UdpEndpoint_def TcpEndpoint_def new_write_schedule_timer_def ep_inv_fresh [OF assms]
      case_prod_unfold Let_def)
qed

lemma router_inv_push [simp]:
  "router_inv M s \<Longrightarrow> ep_inv M e \<Longrightarrow> router_inv M (add_object e w s)"
  "router_inv M s \<Longrightarrow> ep_inv M e \<Longrightarrow> router_inv M (push_object e w s)"
  by (auto simp: router_inv_def add_object_def push_object_def)

lemma ep_inv_set_up:
  assumes "mavlib_ok M"
  shows "ep_inv M (fst (snd (uart_setup cu (UartEndpoint n name (malloc (RX_BUF_MAX_SIZE M) w) (malloc TX_BUF_MAX_SIZE w')) w'')))"
    "ep_inv M (fst (snd (udp_setup cd (fst (UdpEndpoint n name (malloc (RX_BUF_MAX_SIZE M) w) (malloc TX_BUF_MAX_SIZE w') w1)) w'')))"
    "ep_inv M (fst (snd (tcp_setup ct (fst (TcpEndpoint n name (malloc (RX_BUF_MAX_SIZE M) w) (malloc TX_BUF_MAX_SIZE w') w1)) w'')))"
    "ep_inv M (fst (snd (tcp_accept peer (fst (TcpEndpoint n name (malloc (RX_BUF_MAX_SIZE M) w) (malloc TX_BUF_MAX_SIZE w') w1)) w'')))"
  using calm_inv [OF calm_setups(1) ep_inv_constructed(1) [OF assms]] calm_inv [OF calm_setups(2) ep_inv_constructed(2) [OF assms]]
    calm_inv [OF calm_setups(3) ep_inv_constructed(3) [OF assms]] calm_inv [OF calm_setups(4) ep_inv_constructed(3) [OF assms]]
  by simp_all

lemma router_inv_tcp_connection: "mavlib_ok M \<Longrightarrow> router_inv M s \<Longrightarrow> router_inv M (handle_tcp_connection M peer s)"
  by (simp add: handle_tcp_connection_def ep_inv_set_up case_prod_unfold Let_def)

lemma router_inv_add_uarts: "mavlib_ok M \<Longrightarrow> router_inv M s \<Longrightarrow> router_inv M (snd (add_uarts M cs s))"
  by (induction cs arbitrary: s) (simp_all add: ep_inv_set_up case_prod_unfold Let_def)

lemma router_inv_add_udps: "mavlib_ok M \<Longrightarrow> router_inv M s \<Longrightarrow> router_inv M (snd (add_udps M cs s))"
  by (induction cs arbitrary: s) (simp_all add: ep_inv_set_up case_prod_unfold Let_def)

lemma router_inv_add_tcps: "mavlib_ok M \<Longrightarrow> router_inv M s \<Longrightarrow> router_inv M (snd (add_tcps M cs s))"
  by (induction cs arbitrary: s) (simp_all add: ep_inv_set_up case_prod_unfold Let_def)

text \<open>Links between group members.\<close>

definition links_only :: "endpoint list \<Rightarrow> endpoint list \<Rightarrow> bool" where
  "links_only h h' \<longleftrightarrow> length h' = length h \<and> (\<forall>i < length h. calm (h ! i) (h' ! i))"

lemma links_only_refl [simp]: "links_only h h"
  by (simp add: links_only_def)

lemma links_only_trans: "links_only h h1 \<Longrightarrow> links_only h1 h2 \<Longrightarrow> links_only h h2"
  unfolding links_only_def by (metis calm_trans)

lemma links_only_link: "links_only h (link_group_member n m h)"
  by (simp add: links_only_def link_group_member_def nth_upd)

lemma links_only_unlink: "links_only h (unlink_group_member name n h)"
  by (simp add: links_only_def unlink_group_member_def nth_upd)

lemma links_only_fold:
  assumes "\<And>n h. links_only h (f n h)" shows "links_only h (fold f ns h)"
proof (induction ns arbitrary: h)
  case (Cons n ns)
  show ?case using links_only_trans [OF assms Cons.IH] by simp
qed simp

lemma links_only_both: "links_only h (link_both n m h)"
  using links_only_trans [OF links_only_link links_only_link] by (simp add: link_both_def)

lemma links_only_to_group: "links_only h (link_to_group ns n h)"
  unfolding link_to_group_def by (auto intro!: links_only_fold simp: links_only_link)

lemma router_inv_links: "router_inv M s \<Longrightarrow> links_only (objs s) h \<Longrightarrow> router_inv M (s\<lparr>objs := h\<rparr>)"
  by (rule router_inv_objs) (auto simp: links_only_def intro: calm_inv)

lemma router_inv_add_links:
  assumes "mavlib_ok M" "router_inv M s" shows "router_inv M (snd (add_links M config s))"
proof -
  define s0 where "s0 = (if cfg_sniffer_sysid config \<noteq> 0 then s\<lparr>sniffer_sysid := ucast (cfg_sniffer_sysid config)\<rparr> else s)"
  define s1 where "s1 = add_uarts M (uart_configs config) s0"
  define s2 where "s2 = add_udps M (udp_configs config) (snd s1)"
  define s3 where "s3 = add_tcps M (tcp_configs config) (snd s2)"
  have i0: "router_inv M s0" using assms(2) by (simp add: s0_def)
  have i1: "router_inv M (snd s1)" unfolding s1_def by (rule router_inv_add_uarts [OF assms(1) i0])
  have i2: "router_inv M (snd s2)" unfolding s2_def by (rule router_inv_add_udps [OF assms(1) i1])
  have i3: "router_inv M (snd s3)" unfolding s3_def by (rule router_inv_add_tcps [OF assms(1) i2])
  have i4: "router_inv M (link_groups (snd s3))"
    unfolding link_groups_def by (rule router_inv_links [OF i3]) (rule links_only_fold [OF links_only_to_group])
  have t: "router_inv M (snd (tcp_server_open u)) = router_inv M u" "router_inv M (snd (open_command_pipe u)) = router_inv M u" for u
    by (simp_all add: tcp_server_open_def open_command_pipe_def case_prod_unfold Let_def)
  show ?thesis
    using i1 i2 i3 i4
    by (simp add: add_links_def s0_def [symmetric] s1_def [symmetric] s2_def [symmetric] s3_def [symmetric] case_prod_unfold Let_def t)
qed

lemma router_inv_apply_options: "router_inv M s \<Longrightarrow> router_inv M (apply_options config s)"
  by (auto simp: apply_options_def router_inv_def dedup_wf_def set_dedup_period_def)

lemma router_inv_add_endpoints:
  assumes "mavlib_ok M" "router_inv M s" shows "router_inv M (snd (add_endpoints M config s))"
  using router_inv_add_links [OF assms, of config] router_inv_apply_options
  by (auto simp: add_endpoints_def case_prod_unfold Let_def)

section \<open>Commands\<close>

lemma router_inv_command_add: "mavlib_ok M \<Longrightarrow> router_inv M s \<Longrightarrow> router_inv M (command_add M a s)"
  by (auto simp: command_add_def ep_inv_set_up case_prod_unfold Let_def
      intro!: router_inv_links router_inv_push links_only_fold links_only_both)

lemma router_inv_command_remove: "router_inv M s \<Longrightarrow> router_inv M (command_remove a s)"
  by (auto simp: command_remove_def Let_def split: option.split
      intro!: router_inv_release router_inv_links links_only_fold links_only_unlink)

lemma router_inv_command_throttle: "router_inv M s \<Longrightarrow> router_inv M (command_throttle a s)"
proof -
  assume s: "router_inv M s"
  have "ep_inv M e \<Longrightarrow> ep_inv M (fst (set_message_throttling k r e w))" for k r e w
    using calm_inv [of e "fst (set_message_throttling k r e w)"] by simp
  then show ?thesis using s by (auto simp: command_throttle_def split: option.split intro!: router_inv_on)
qed

lemma router_inv_exec_commands:
  assumes "mavlib_ok M" shows "router_inv M s \<Longrightarrow> exec_commands M ls s = Some s' \<Longrightarrow> router_inv M s'"
proof (induction ls arbitrary: s)
  case (Cons l ls)
  then obtain s1 where 1: "exec_command M l s = Some s1" "exec_commands M ls s1 = Some s'" by (auto split: option.splits)
  have "router_inv M s1"
    using 1(1) Cons.prems(1) assms
    by (auto simp: exec_command_def router_inv_command_add router_inv_command_remove router_inv_command_throttle split: list.splits if_splits)
  then show ?case using Cons.IH 1(2) by blast
qed simp

section \<open>The loop\<close>

lemma router_inv_reopen [simp]: "router_inv M (reopen_command_pipe s) = router_inv M s"
  by (simp add: reopen_command_pipe_def open_command_pipe_def clean_command_pipe_def case_prod_unfold Let_def)

lemma router_inv_pipe: "mavlib_ok M \<Longrightarrow> router_inv M s \<Longrightarrow> handle_command_pipe M input s = Some s' \<Longrightarrow> router_inv M s'"
  using router_inv_exec_commands by (auto simp: handle_command_pipe_def split: option.splits if_splits)

lemma router_inv_handle_event:
  assumes "mavlib_ok M" "router_inv M s" "handle_event M H ev s = Some s'"
  shows "router_inv M s'"
  using assms router_inv_tcp_connection [OF assms(1,2)] router_inv_endpoint_event [OF assms(1,2)] router_inv_timeout [OF assms(2)]
    router_inv_pipe [OF assms(1,2)] router_inv_pipe [OF assms(1), of "reopen_command_pipe s"]
  by (auto simp: handle_event_def request_exit_def split: event_source.splits if_splits option.splits)

lemma router_inv_loop_round:
  assumes "mavlib_ok M" "router_inv M s" "loop_round M H evs s = Some s'"
  shows "router_inv M s'"
proof -
  have "router_inv M u \<Longrightarrow> handle_events M H evs u = Some u' \<Longrightarrow> router_inv M u'" for u u'
  proof (induction evs arbitrary: u)
    case (Cons ev evs)
    then show ?case using router_inv_handle_event [OF assms(1), of u H ev] by (auto split: option.splits)
  qed simp
  then show ?thesis using assms(2,3) by (auto simp: loop_round_def Let_def router_inv_hangups split: option.splits)
qed

section \<open>The vector of endpoints\<close>

definition index_inv :: "router \<Rightarrow> bool" where
  "index_inv s \<longleftrightarrow> distinct (g_endpoints s) \<and> (\<forall>n \<in> set (g_endpoints s). n < length (objs s))"

text \<open>Steps that neither create nor remove endpoints.\<close>

definition same_eps :: "router \<Rightarrow> router \<Rightarrow> bool" where
  "same_eps s s' \<longleftrightarrow> g_endpoints s' = g_endpoints s \<and> length (objs s') = length (objs s)"

lemma same_eps_inv: "same_eps s s' \<Longrightarrow> index_inv s \<Longrightarrow> index_inv s'"
  by (simp add: same_eps_def index_inv_def)

lemma same_eps_trans: "same_eps s s1 \<Longrightarrow> same_eps s1 s2 \<Longrightarrow> same_eps s s2"
  by (simp add: same_eps_def)

lemma same_eps_steps [simp]:
  "same_eps s s" "same_eps s (t\<lparr>os := w\<rparr>) = same_eps s t" "same_eps s (set_ep n e w t) = same_eps s t"
  "same_eps s (schedule_resend t) = same_eps s t" "same_eps s (snd (reschedule_resend t)) = same_eps s t"
  "same_eps s (on_ep f n t) = same_eps s t" "same_eps s (add_sys_comp_id_of n b t) = same_eps s t"
  "same_eps s (t\<lparr>msg_to_unknown := k\<rparr>) = same_eps s t" "same_eps s (t\<lparr>resend_scheduled := x\<rparr>) = same_eps s t"
  "same_eps s (t\<lparr>resend_timer := y\<rparr>) = same_eps s t" "same_eps s (t\<lparr>msg_dedup := d\<rparr>) = same_eps s t"
  "same_eps s (release n t) = same_eps s t" "same_eps s (t\<lparr>g_commands_fd := fd\<rparr>) = same_eps s t"
  "same_eps s (t\<lparr>should_exit := q\<rparr>) = same_eps s t" "same_eps s (t\<lparr>retcode := c\<rparr>) = same_eps s t"
  by (simp_all add: same_eps_def set_ep_def)

lemma same_eps_fold:
  assumes "\<And>n t. same_eps s t \<Longrightarrow> same_eps s (f n t)" "same_eps s t" shows "same_eps s (fold f ns t)"
  using assms(2) by (induction ns arbitrary: t) (simp_all add: assms(1))

lemma same_eps_route_msg: "same_eps s (route_msg b s)"
proof -
  have "same_eps s (snd us) \<Longrightarrow> same_eps s (snd (route_to b n us))" for n us
    by (simp add: route_to_def case_prod_unfold Let_def split: accept_state.split)
  then have "same_eps s (snd us) \<Longrightarrow> same_eps s (snd (fold (route_to b) ns us))" for ns us
    by (induction ns arbitrary: us) simp_all
  from this [of "(True, s)"] show ?thesis by (simp add: route_msg_def case_prod_unfold Let_def)
qed

lemma same_eps_process_msg: "process_msg H n b s = Some s' \<Longrightarrow> same_eps s s'"
proof -
  assume p: "process_msg H n b s = Some s'"
  then obtain ok s1 where d: "dedup_check_msg H b s = Some (ok, s1)" by (auto simp: process_msg_def split: option.splits)
  have "same_eps s s1" using dedup_check_msg_objs [OF d] by auto
  then show ?thesis
    using p same_eps_trans [OF _ same_eps_route_msg, of s "add_sys_comp_id_of n b s1" b]
    by (auto simp: process_msg_def d split: if_splits)
qed

lemma same_eps_handle_read: "handle_read M H n s = Some (r, s') \<Longrightarrow> same_eps s s'"
proof (induction M H n s rule: handle_read.induct)
  case (1 M H n s)
  have n: "\<not> length (objs s) \<le> n" using "1.prems" by (auto simp: handle_read.simps [of M] split: if_splits)
  obtain r1 b e1 w1 where rd: "ep_read_msg M (objs s ! n) (os s) = ((r1, b), e1, w1)" by (metis prod.collapse)
  show ?case
  proof (cases "r1 \<le> 0")
    case True
    then show ?thesis using "1.prems" n rd by (auto simp: handle_read.simps [of M _ _ s])
  next
    case False
    then obtain s1 where p: "process_msg H n (the b) (set_ep n e1 w1 s) = Some s1" "handle_read M H n s1 = Some (r, s')"
      using "1.prems" n rd by (auto simp: handle_read.simps [of M _ _ s] split: option.splits)
    have "same_eps s s1" using same_eps_process_msg [OF p(1)] by (simp add: same_eps_def set_ep_def)
    then show ?thesis using "1.IH" [OF n rd [symmetric] refl refl False p(1,2)] same_eps_trans by blast
  qed
qed

lemma index_inv_filter: "index_inv s \<Longrightarrow> index_inv (s\<lparr>g_endpoints := filter P (g_endpoints s)\<rparr>)"
  by (simp add: index_inv_def)

lemma index_inv_add: "index_inv s \<Longrightarrow> index_inv (add_object e w s)" "index_inv s \<Longrightarrow> index_inv (push_object e w s)"
  by (auto simp: index_inv_def add_object_def push_object_def less_Suc_eq)

lemma index_inv_os [simp]: "index_inv (s\<lparr>os := w\<rparr>) = index_inv s"
  by (simp add: index_inv_def)

lemma index_inv_objs: "index_inv s \<Longrightarrow> links_only (objs s) h \<Longrightarrow> index_inv (s\<lparr>objs := h\<rparr>)"
  by (simp add: index_inv_def links_only_def)

lemma same_eps_callback: "same_eps s (snd (run_callback cb s))"
  by (auto simp: run_callback_def ml_print_statistics_def resend_timeout_def log_aggregate_timeout_def case_prod_unfold Let_def
      intro!: same_eps_fold split: callback.split)

lemma same_eps_timeout: "timeout_handle_read t ret val s = Some s' \<Longrightarrow> same_eps s s'"
  using same_eps_callback by (auto simp: timeout_handle_read_def case_prod_unfold Let_def split: option.splits if_splits)

lemma same_eps_after_read [simp]: "same_eps s (after_read n ev rd t) = same_eps s t"
  by (simp add: after_read_def set_hangups_def request_exit_def case_prod_unfold Let_def)

lemma same_eps_endpoint_event: "endpoint_event M H n ev s = Some s' \<Longrightarrow> same_eps s s'"
  by (auto simp: endpoint_event_def dest: same_eps_handle_read split: option.splits if_splits)

lemma index_inv_hangups: "index_inv s \<Longrightarrow> index_inv (process_tcp_hangups s)"
proof -
  assume s: "index_inv s"
  define s1 where "s1 = s\<lparr>g_endpoints := filter (\<lambda>n. \<not> gone s n) (g_endpoints s)\<rparr>"
  have "index_inv s1" unfolding s1_def by (rule index_inv_filter [OF s])
  moreover have "same_eps s1 (process_tcp_hangups s)"
    by (simp add: process_tcp_hangups_def s1_def [symmetric] Let_def) (rule same_eps_fold, simp_all)
  ultimately show ?thesis by (rule same_eps_inv [rotated])
qed

lemma index_inv_commands:
  "index_inv s \<Longrightarrow> index_inv (command_add M a s)" "index_inv s \<Longrightarrow> index_inv (command_remove a s)"
  "index_inv s \<Longrightarrow> index_inv (command_throttle a s)"
proof -
  assume s: "index_inv s"
  show "index_inv (command_add M a s)" using s
    by (auto simp: command_add_def case_prod_unfold Let_def intro!: index_inv_objs index_inv_add links_only_fold links_only_both)
  have r: "index_inv u \<Longrightarrow> index_inv (release n u)" for n u by (rule same_eps_inv [of u]) simp_all
  have "links_only (objs s) (fold (unlink_group_member name) ns (objs s))" for name ns
    by (rule links_only_fold [OF links_only_unlink])
  then have l: "length (fold (unlink_group_member name) ns (objs s)) = length (objs s)" for name ns
    by (simp add: links_only_def)
  have "index_inv (s\<lparr>objs := fold (unlink_group_member name) ns (objs s), g_endpoints := remove1 n (g_endpoints s), os := w\<rparr>)" for name ns n w
    using s l by (auto simp: index_inv_def dest: set_remove1_subset [THEN subsetD])
  moreover have "index_inv (s\<lparr>objs := fold (unlink_group_member name) ns (objs s)\<rparr>)" for name ns
    using s l by (simp add: index_inv_def)
  ultimately show "index_inv (command_remove a s)" using s r
    by (simp add: command_remove_def Let_def split: option.split)
  show "index_inv (command_throttle a s)" using s same_eps_inv [of s]
    by (simp add: command_throttle_def split: option.split)
qed

lemma index_inv_exec_commands: "index_inv s \<Longrightarrow> exec_commands M ls s = Some s' \<Longrightarrow> index_inv s'"
proof (induction ls arbitrary: s)
  case (Cons l ls)
  then obtain s1 where 1: "exec_command M l s = Some s1" "exec_commands M ls s1 = Some s'" by (auto split: option.splits)
  have "index_inv s1"
    using 1(1) Cons.prems(1) by (auto simp: exec_command_def index_inv_commands split: list.splits if_splits)
  then show ?case using Cons.IH 1(2) by blast
qed simp

lemma index_inv_reopen: "index_inv s \<Longrightarrow> index_inv (reopen_command_pipe s)"
  by (rule same_eps_inv [of s])
     (simp_all add: reopen_command_pipe_def open_command_pipe_def clean_command_pipe_def case_prod_unfold Let_def)

lemma index_inv_pipe: "index_inv s \<Longrightarrow> handle_command_pipe M input s = Some s' \<Longrightarrow> index_inv s'"
  using index_inv_exec_commands by (auto simp: handle_command_pipe_def split: option.splits if_splits)

lemma index_inv_connection: "index_inv s \<Longrightarrow> index_inv (handle_tcp_connection M peer s)"
  by (simp add: handle_tcp_connection_def index_inv_add case_prod_unfold Let_def)

lemma index_inv_handle_event:
  assumes "index_inv s" "handle_event M H ev s = Some s'" shows "index_inv s'"
proof -
  have x: "index_inv u \<Longrightarrow> index_inv (request_exit k u)" for u k by (simp add: index_inv_def request_exit_def)
  show ?thesis
    using assms index_inv_reopen [OF assms(1)] index_inv_pipe [of _ M] index_inv_connection [OF assms(1)] x same_eps_inv [OF same_eps_endpoint_event assms(1)] same_eps_inv [OF same_eps_timeout assms(1)]
    by (auto simp: handle_event_def split: event_source.splits if_splits option.splits)
qed

lemma index_inv_loop_round:
  assumes "index_inv s" "loop_round M H evs s = Some s'" shows "index_inv s'"
proof -
  have "index_inv u \<Longrightarrow> handle_events M H evs u = Some u' \<Longrightarrow> index_inv u'" for u u'
  proof (induction evs arbitrary: u)
    case (Cons ev evs)
    then show ?case using index_inv_handle_event [of u M H ev] by (auto split: option.splits)
  qed simp
  then show ?thesis using assms by (auto simp: loop_round_def Let_def index_inv_hangups split: option.splits)
qed

section \<open>Reachable states\<close>

text \<open>The states of the event loop: after a successful start-up, and after every round of events.
  A round with undefined behaviour leads nowhere.\<close>

inductive reachable :: "mavlib \<Rightarrow> (bytes \<Rightarrow> u64) \<Rightarrow> router \<Rightarrow> bool" for M H where
  started: "objs s0 = [] \<Longrightarrow> g_endpoints s0 = [] \<Longrightarrow> msg_dedup s0 = dedup_init 0 \<Longrightarrow>
    add_endpoints M config s0 = (True, s) \<Longrightarrow> reachable M H (s\<lparr>os := snd (add_timeout 5000 CbLogAggregate (os s))\<rparr>)"
| round: "reachable M H s \<Longrightarrow> \<not> should_exit s \<Longrightarrow> loop_round M H evs s = Some s' \<Longrightarrow> reachable M H s'"

lemma add_links_index:
  assumes "fresh_router s" "add_links M config s = (True, s')" shows "index_inv s'"
proof -
  obtain s3 where f: "fresh_router s3" "objs s' = objs (link_groups s3)" "g_endpoints s' = g_endpoints (link_groups s3)"
    using add_links_linked [OF assms] by blast
  have "index_inv s3" using f(1) by (simp add: fresh_router_def index_inv_def)
  then have "index_inv (link_groups s3)"
    unfolding link_groups_def by (rule index_inv_objs) (rule links_only_fold [OF links_only_to_group])
  then show ?thesis using f(2,3) by (simp add: index_inv_def)
qed

lemma add_endpoints_index:
  assumes "fresh_router s" "add_endpoints M config s = (True, s')" shows "index_inv s'"
proof -
  obtain s1 where "add_links M config s = (True, s1)" "s' = apply_options config s1" using add_endpointsD [OF assms(2)] by blast
  then show ?thesis using add_links_index [OF assms(1)] by (simp add: index_inv_def)
qed

lemma reachable_inv:
  assumes "mavlib_ok M" "reachable M H s" shows "router_inv M s \<and> index_inv s"
  using assms(2)
proof (induction rule: reachable.induct)
  case (started s0 config s)
  have "router_inv M s0" using started by (simp add: router_inv_def dedup_wf_init)
  from router_inv_add_endpoints [OF assms(1) this, of config] have "router_inv M s" using started by simp
  moreover have "fresh_router s0" using started by (simp add: fresh_router_def)
  ultimately show ?case using add_endpoints_index [OF _ started(4)] by simp
next
  case (round s evs s')
  then show ?case using router_inv_loop_round [OF assms(1)] index_inv_loop_round by blast
qed

lemma loop_rounds_reachable:
  "reachable M H s \<Longrightarrow> loop_rounds M H rounds s = Some s' \<Longrightarrow> reachable M H s'"
  by (induction rounds arbitrary: s) (auto split: if_splits option.splits intro: reachable.round)

section \<open>Properties\<close>

lemma ex_reachable:
  obtains s where "reachable ex_mavlib (\<lambda>_. 0) s" "g_endpoints s = [0, 1]"
proof -
  obtain s where s: "add_endpoints ex_mavlib ex_configuration ex_start = (True, s)" "g_endpoints s = [0, 1]" by (rule ex_startup)
  have "reachable ex_mavlib (\<lambda>_. 0) (s\<lparr>os := snd (add_timeout 5000 CbLogAggregate (os s))\<rparr>)"
    by (rule reachable.started [OF _ _ _ s(1)]) (simp_all add: ex_start_def)
  then show thesis using that s(2) by simp
qed

text \<open>Memory safety of the event loop. In every state it reaches, after any start-up and any
  sequence of events, packets, commands and system results without undefined behaviour, all reception
  and transmit buffers have their allocated size with the valid bytes inside, all caches of throttled
  messages are within their bound, and the de-duplication queue and set agree.\<close>

theorem reachable_states_safe:
  assumes "mavlib_ok M" "reachable M H s"
  shows "(\<forall>e \<in> set (objs s). rx_inv M e \<and> tx_inv e \<and> cache_inv e) \<and> dedup_wf (msg_dedup s) \<and>
    distinct (g_endpoints s) \<and> (\<forall>n \<in> set (g_endpoints s). n < length (objs s))"
  using reachable_inv [OF assms] by (simp add: router_inv_def ep_inv_def index_inv_def)

lemma reachable_states_safe_witness:
  "\<exists>s. reachable ex_mavlib (\<lambda>_. 0) s \<and> (\<forall>e \<in> set (objs s). rx_inv ex_mavlib e \<and> tx_inv e \<and> cache_inv e)"
proof -
  obtain s where s: "reachable ex_mavlib (\<lambda>_. 0) s" by (rule ex_reachable)
  then show ?thesis using reachable_states_safe [OF mavlib_ok_ex(1) s] by blast
qed

end
