(* ===== verification/Growth.thy ===== *)
theory Growth
  imports Safety
begin

text \<open>
  No operation of the router changes the class of an endpoint or makes it forget a system it
  knows: every handler, callback and command only lets the list of objects and their tables of systems
  grow (\<open>eps_grow\<close>).
\<close>


section \<open>Endpoints\<close>

lemma calm_grown: "calm e e' \<Longrightarrow> grown e e'"
  by (simp add: calm_def)

lemma tx_only_grown: "tx_only e e' \<Longrightarrow> grown e e'"
  using tx_only_fields(5,7) [of e e'] by (simp add: grown_def)

lemma grown_steps [simp]:
  "grown e (fst (snd (ep_write_msg e b w)))" "grown e (fst (snd (ep_flush_pending_msgs e w)))" "grown e (cache_msg b e)"
  "grown e (fst (snd (ep_read_msg M e w)))" "grown e (fst (update_throttle_info e k w))" "grown e (log_aggregate e)"
  "grown e (e'\<lparr>msg_cache := c\<rparr>) = grown e e'" "grown e (e'\<lparr>tcp := t\<rparr>) = grown e e'"
  "grown e (count_dropped_msg e') = grown e e'"
  using calm_tx_read_msg [of e M w] calm_helpers(8) [of e e k w] calm_helpers(6) [of e e]
  by (simp_all add: tx_only_grown [OF tx_only_ep_write] tx_only_grown [OF tx_only_ep_flush] calm_tx_def calm_def)
     (simp_all add: grown_def cache_msg_def count_dropped_msg_def Let_def)

lemma grown_ml_write: "grown e (fst (snd (ml_write_msg e b w)))"
  by (simp add: ml_write_msg_def case_prod_unfold Let_def)

lemma grown_ml_write_throttle: "grown e (fst (update_throttle_info (fst (snd (ml_write_msg e b w))) k w'))"
  by (rule grown_trans [OF grown_ml_write [of e b w]]) simp

lemma grown_resend_queued: "grown e (fst (snd (snd (resend_queued_msgs k q e w))))"
proof (induction k q e w rule: resend_queued_msgs.induct)
  case (2 k m q e w)
  obtain b w1 where 1: "should_throttle_msg e k w = (b, w1)" by fastforce
  obtain r e1 w2 where wr: "ep_write_msg e (as_buffer m) w1 = (r, e1, w2)" by (metis prod_cases3)
  obtain e2 w3 where up: "update_throttle_info e1 k w2 = (e2, w3)" by fastforce
  have e1: "grown e e1" using grown_steps(1) [of e "as_buffer m" w1] wr by simp
  have e2: "grown e e2" using grown_trans [OF e1] up grown_steps(5) [of e1 k w2] by simp
  show ?case using "2.IH" [OF 1 [symmetric] refl _ wr [symmetric] refl refl _ _ up [symmetric] refl] e1 e2
    by (auto simp: 1 wr up intro: grown_trans)
qed simp

lemma grown_resend: "grown e (fst (resend_cached_msgs e w))"
proof -
  have "grown e (fst (resend_queues dn cs e w))" for dn cs e w
  proof (induction dn cs e w rule: resend_queues.induct)
    case (2 dn k q cs e w)
    obtain r q1 e1 w1 where 1: "resend_queued_msgs k q e w = (r, q1, e1, w1)" by (metis prod_cases4)
    have "grown e e1" using grown_resend_queued [of e k q w] by (simp add: 1)
    then show ?case using "2.IH" [OF 1 [symmetric] refl refl refl] by (auto simp: 1 Let_def intro: grown_trans)
  qed simp
  then show ?thesis by (simp add: resend_cached_msgs_def)
qed

section \<open>The router\<close>

definition eps_grow :: "router \<Rightarrow> router \<Rightarrow> bool" where
  "eps_grow s s' \<longleftrightarrow> length (objs s) \<le> length (objs s') \<and> (\<forall>i < length (objs s). grown (objs s ! i) (objs s' ! i))"

lemma eps_grow_refl [simp]: "eps_grow s s"
  by (simp add: eps_grow_def)

lemma eps_grow_trans: "eps_grow s s1 \<Longrightarrow> eps_grow s1 s2 \<Longrightarrow> eps_grow s s2"
  unfolding eps_grow_def using grown_trans by (meson order_less_le_trans order_trans)

lemma eps_grow_same: "objs t = objs s1 \<Longrightarrow> eps_grow s t = eps_grow s s1"
  by (simp add: eps_grow_def)

lemma eps_grow_frame [simp]:
  "eps_grow s (t\<lparr>os := w\<rparr>) = eps_grow s t" "eps_grow s (t\<lparr>g_endpoints := g\<rparr>) = eps_grow s t"
  "eps_grow s (t\<lparr>msg_to_unknown := u\<rparr>) = eps_grow s t" "eps_grow s (t\<lparr>msg_dedup := d\<rparr>) = eps_grow s t"
  "eps_grow s (schedule_resend t) = eps_grow s t" "eps_grow s (snd (reschedule_resend t)) = eps_grow s t"
  "eps_grow s (t\<lparr>resend_scheduled := b\<rparr>) = eps_grow s t" "eps_grow s (t\<lparr>resend_timer := m\<rparr>) = eps_grow s t"
  "eps_grow s (request_exit r t) = eps_grow s t" "eps_grow s (set_hangups t) = eps_grow s t"
  "eps_grow s (t\<lparr>g_commands_fd := f\<rparr>) = eps_grow s t"
  by (simp_all add: eps_grow_def request_exit_def set_hangups_def)

lemma eps_grow_set_ep: "eps_grow s t \<Longrightarrow> grown (objs t ! n) e \<Longrightarrow> eps_grow s (set_ep n e w t)"
  by (cases "n < length (objs t)") (auto simp: eps_grow_def set_ep_def nth_list_update intro: grown_trans)

lemma eps_grow_on: "eps_grow s t \<Longrightarrow> (\<And>e w. grown e (fst (f e w))) \<Longrightarrow> eps_grow s (on_ep f n t)"
  by (simp add: on_ep_def case_prod_unfold Let_def eps_grow_set_ep)

lemma eps_grow_fold: "(\<And>n t. eps_grow s t \<Longrightarrow> eps_grow s (f n t)) \<Longrightarrow> eps_grow s t \<Longrightarrow> eps_grow s (fold f ns t)"
  by (induction ns arbitrary: t) simp_all

lemma eps_grow_route_to: "eps_grow s (snd us) \<Longrightarrow> eps_grow s (snd (route_to b n us))"
  by (simp add: route_to_def case_prod_unfold Let_def eps_grow_set_ep grown_ml_write grown_ml_write_throttle split: accept_state.split)

lemma eps_grow_learn: "eps_grow s t \<Longrightarrow> eps_grow s (add_sys_comp_id_of n b t)"
proof -
  assume t: "eps_grow s t"
  have "eps_grow t (add_sys_comp_id_of n b t)" using calm_learn [of _ t n b] calm_grown by (auto simp: eps_grow_def)
  with t show ?thesis by (rule eps_grow_trans)
qed

lemma eps_grow_callback: "eps_grow s t \<Longrightarrow> eps_grow s (snd (run_callback cb t))"
  using calm_callbacks [THEN calm_grown]
  by (auto simp: run_callback_def ml_print_statistics_def resend_timeout_def log_aggregate_timeout_def case_prod_unfold Let_def grown_resend
      intro!: eps_grow_set_ep eps_grow_fold eps_grow_on split: callback.split)

lemma eps_grow_release: "eps_grow s t \<Longrightarrow> eps_grow s (release n t)"
proof -
  assume t: "eps_grow s t"
  have "grown e (e1\<lparr>ep_fd := f, group_members := g\<rparr>) = grown e e1" for e e1 f g by (simp add: grown_def)
  moreover have "grown e (fst (tcp_destroy e w))" for e w using calm_tcp_close [of e e] by (simp add: tcp_destroy_def calm_grown)
  ultimately show ?thesis using t
    by (auto simp: release_def case_prod_unfold Let_def split: ep_type.split intro!: eps_grow_set_ep)
qed

lemma eps_grow_hangups: "eps_grow s t \<Longrightarrow> eps_grow s (process_tcp_hangups t)"
  by (simp add: process_tcp_hangups_def Let_def eps_grow_fold [OF eps_grow_release])

lemma eps_grow_after_read: "eps_grow s t \<Longrightarrow> eps_grow s (after_read n ev rd t)"
proof -
  assume t: "eps_grow s t"
  define t2 where "t2 = (if EPOLLIN ev \<and> rd < 0 \<and> \<not> is_valid (objs t ! n) then set_hangups t else t)"
  define t3 where "t3 = (if EPOLLOUT ev then (let (more, e, w) = handle_canwrite (objs t2 ! n) (os t2)
                       in set_ep n e (if more then w else snd (mod_fd (ep_fd e) False w)) t2) else t2)"
  have "eps_grow s t2" using t by (simp add: t2_def)
  then have "eps_grow s t3" by (simp add: t3_def handle_canwrite_def case_prod_unfold Let_def eps_grow_set_ep)
  then show ?thesis by (simp add: after_read_def t2_def [symmetric] t3_def [symmetric] Let_def eps_grow_set_ep)
qed

lemma eps_grow_add: "eps_grow s t \<Longrightarrow> eps_grow s (add_object e w t)"
  by (auto simp: eps_grow_def add_object_def nth_append)

lemma eps_grow_links: "eps_grow s t \<Longrightarrow> links_only (objs t) h \<Longrightarrow> eps_grow s (t\<lparr>objs := h\<rparr>)"
  by (simp add: eps_grow_def links_only_def) (meson calm_grown grown_trans order_less_le_trans)

lemma eps_grow_command: "eps_grow s t \<Longrightarrow> exec_command M l t = Some t' \<Longrightarrow> eps_grow s t'"
proof -
  assume t: "eps_grow s t" and x: "exec_command M l t = Some t'"
  have a: "eps_grow s (command_add M as t)" for as using t
    by (auto simp: command_add_def case_prod_unfold Let_def intro!: eps_grow_links eps_grow_add links_only_fold links_only_both)
  have "eps_grow s (t\<lparr>objs := fold (unlink_group_member name) ns (objs t)\<rparr>)" for name ns
    by (rule eps_grow_links [OF t links_only_fold [OF links_only_unlink]])
  then have r: "eps_grow s (command_remove as t)" for as using t
    by (auto simp: command_remove_def Let_def split: option.split intro!: eps_grow_release)
  have "grown e (fst (set_message_throttling k q e w))" for e k q w by (rule calm_grown) simp
  then have "eps_grow s (command_throttle as t)" for as using t
    by (auto simp: command_throttle_def split: option.split intro!: eps_grow_on)
  then show ?thesis using x t a r by (auto simp: exec_command_def split: list.splits if_splits)
qed

lemma eps_grow_commands: "eps_grow s t \<Longrightarrow> exec_commands M ls t = Some t' \<Longrightarrow> eps_grow s t'"
  by (induction ls arbitrary: t) (auto split: option.splits intro: eps_grow_command)

lemma eps_grow_pipe: "eps_grow s t \<Longrightarrow> handle_command_pipe M input t = Some t' \<Longrightarrow> eps_grow s t'"
  using eps_grow_commands by (auto simp: handle_command_pipe_def split: option.splits if_splits)

lemma eps_grow_reopen: "eps_grow s (reopen_command_pipe t) = eps_grow s t"
  by (simp add: reopen_command_pipe_def open_command_pipe_def clean_command_pipe_def case_prod_unfold Let_def)

lemma eps_grow_connection: "eps_grow s t \<Longrightarrow> eps_grow s (handle_tcp_connection M peer t)"
  by (simp add: handle_tcp_connection_def eps_grow_add case_prod_unfold Let_def)

end
