(* ===== verification/SystemInvariants.thy ===== *)
theory SystemInvariants
  imports Recording UlogSafety Growth
begin

text \<open>
  Invariants of the router together with its recorders. The handlers are made of steps of the router
  (\<open>router_step\<close>) and calls of recorders, which act on the router by a few of these steps. What
  single steps and calls keep, every event and every round of the loop keeps: the locale
  \<open>system_invariant\<close>, which is used for the buffers of the links, the buffers of recorders and the
  objects behind the recorders. For what only the router has, \<open>router_invariant\<close> is enough.
\<close>


section \<open>Steps of the router\<close>

text \<open>What the handlers of the main loop are made of, apart from the handlers of recorders.\<close>

inductive router_step :: "loglib \<Rightarrow> router \<Rightarrow> router \<Rightarrow> bool" for L where
  world: "router_step L s (s\<lparr>os := w\<rparr>)"
| route: "router_step L s (snd (route_to b n (u, s)))"
| unknown: "router_step L s (s\<lparr>msg_to_unknown := k\<rparr>)"
| throttle: "router_step L s (on_ep (\<lambda>e w. update_throttle_info e m w) n s)"
| dedup: "dedup_check_msg H b s = Some (ok, s1) \<Longrightarrow> router_step L s s1"
| learn: "router_step L s (add_sys_comp_id_of n b s)"
| read: "n < length (objs s) \<Longrightarrow> ep_read_msg (ll_mav L) (objs s ! n) (os s) = ((r, p), e1, w1) \<Longrightarrow> router_step L s (set_ep n e1 w1 s)"
| after: "router_step L s (after_read n ev rd s)"
| callback: "router_step L s (snd (run_callback cb s))"
| connect: "router_step L s (handle_tcp_connection (ll_mav L) peer s)"
| reopen: "router_step L s (reopen_command_pipe s)"
| pipe: "handle_command_pipe (ll_mav L) input s = Some s1 \<Longrightarrow> router_step L s s1"
| hangups: "router_step L s (process_tcp_hangups s)"
| exit: "router_step L s (request_exit k s)"

section \<open>Invariants of the system\<close>

text \<open>A property of the system that single steps of the router and whole calls of recorders keep is kept by
  every event and every round of the loop.\<close>

locale system_invariant =
  fixes L :: loglib and J :: "system \<Rightarrow> bool"
  assumes router: "J y \<Longrightarrow> router_step L (ml y) s \<Longrightarrow> J (with_ml s y)"
    and writes: "J y \<Longrightarrow> recorder_at n y \<Longrightarrow> recorder_write_msg L n b y = Some (r, y1) \<Longrightarrow> J y1"
    and timers: "J y \<Longrightarrow> recorder_cb L c n y = Some (again, y1) \<Longrightarrow> J y1"
    and drops: "J y \<Longrightarrow> J (drop_tlog y)"
begin

lemma os_step: "J y \<Longrightarrow> J (with_ml ((ml y)\<lparr>os := w\<rparr>) y)"
  by (rule router [OF _ router_step.world])

lemma route_to_step:
  assumes "J y" "sys_route_to L b n (u, y) = Some (u1, y1)" shows "J y1"
proof -
  obtain a w1 where a: "ep_accept_msg (sniffer_sysid (ml y)) (objs (ml y) ! n) b (os (ml y)) = (a, w1)" by fastforce
  show ?thesis
  proof (cases "recorder_at n y \<and> a = Accepted")
    case True
    then obtain r y2 where w: "recorder_write_msg L n b (with_ml ((ml y)\<lparr>os := w1\<rparr>) y) = Some (r, y2)"
      and y1: "y1 = (if is_throttling_enabled (objs (ml y2) ! n) (msg_id (b_curr b))
             then with_ml (on_ep (\<lambda>e w. update_throttle_info e (msg_id (b_curr b)) w) n (ml y2)) y2 else y2)"
      using assms(2) by (auto simp: sys_route_to_def a bind_eq_Some_conv)
    have "J y2" using writes [OF os_step [OF assms(1)] _ w] True by simp
    then show ?thesis using router [OF _ router_step.throttle] y1 by auto
  next
    case False
    then show ?thesis using assms(2) router [OF assms(1) router_step.route] by (auto simp: sys_route_to_def a case_prod_unfold Let_def)
  qed
qed

lemma route_all_step: "J (snd us) \<Longrightarrow> sys_route_all L b ns us = Some us1 \<Longrightarrow> J (snd us1)"
proof (induction ns arbitrary: us)
  case (Cons n ns)
  then obtain us2 where s: "sys_route_to L b n us = Some us2" "sys_route_all L b ns us2 = Some us1" by (auto simp: bind_eq_Some_conv)
  have "J (snd us2)" using route_to_step [of "snd us" b n "fst us" "fst us2" "snd us2"] s(1) Cons.prems(1) by simp
  then show ?case using Cons.IH s(2) by blast
qed simp

lemma route_msg_step: "J y \<Longrightarrow> sys_route_msg L b y = Some y1 \<Longrightarrow> J y1"
  using route_all_step [of "(True, y)" b] router [OF _ router_step.unknown]
  by (fastforce simp: sys_route_msg_def bind_eq_Some_conv)

lemma process_msg_step:
  assumes "J y" "sys_process_msg L H n b y = Some y1" shows "J y1"
proof -
  obtain ok s1 where d: "dedup_check_msg H b (ml y) = Some (ok, s1)" using assms(2) by (auto simp: sys_process_msg_def split: option.splits)
  have 1: "J (with_ml s1 y)" by (rule router [OF assms(1) router_step.dedup [OF d]])
  have 2: "J (with_ml (add_sys_comp_id_of n b s1) y)" using router [OF 1 router_step.learn] by simp
  show ?thesis using assms(2) 1 2 route_msg_step by (auto simp: sys_process_msg_def d split: if_splits)
qed

lemma handle_read_step: "J y \<Longrightarrow> sys_handle_read K H n y = Some (r, y1) \<Longrightarrow> K = L \<Longrightarrow> J y1"
proof (induction K H n y rule: sys_handle_read.induct)
  case (1 K H n y)
  note K = "1.prems"(3)
  have n: "\<not> length (objs (ml y)) \<le> n" using "1.prems"(2) by (auto simp: sys_handle_read.simps [of K] split: if_splits)
  obtain r1 b e1 w1 where rd: "ep_read_msg (ll_mav K) (objs (ml y) ! n) (os (ml y)) = ((r1, b), e1, w1)" by (metis prod.collapse)
  have j: "J (with_ml (set_ep n e1 w1 (ml y)) y)" using router [OF "1.prems"(1) router_step.read] n rd K by simp
  show ?case
  proof (cases "r1 \<le> 0")
    case True
    then show ?thesis using "1.prems"(2) n rd j by (auto simp: sys_handle_read.simps [of K _ _ y])
  next
    case False
    then obtain y2 where p: "sys_process_msg K H n (the b) (with_ml (set_ep n e1 w1 (ml y)) y) = Some y2" "sys_handle_read K H n y2 = Some (r, y1)"
      using "1.prems"(2) n rd by (auto simp: sys_handle_read.simps [of K _ _ y] split: option.splits)
    show ?thesis using "1.IH" [OF n rd [symmetric] refl refl False p(1) _ p(2) K] process_msg_step [OF j p(1) [unfolded K]] by blast
  qed
qed

lemma callback_step: "J y \<Longrightarrow> sys_run_callback L cb y = Some (again, y1) \<Longrightarrow> J y1"
  using router [OF _ router_step.callback, of y cb] timers os_step
  by (auto simp: sys_run_callback_def sys_print_statistics_def case_prod_unfold Let_def split: callback.splits if_splits)

lemma timeout_step: "J y \<Longrightarrow> sys_timeout_handle_read L t ret val y = Some y1 \<Longrightarrow> J y1"
  by (auto simp: sys_timeout_handle_read_def bind_eq_Some_conv split: option.splits if_splits intro: os_step callback_step)

lemma endpoint_step: "J y \<Longrightarrow> sys_endpoint_event L H n ev y = Some y1 \<Longrightarrow> J y1"
  using handle_read_step [OF _ _ refl] router [OF _ router_step.after]
  by (auto simp: sys_endpoint_event_def split: option.splits if_splits)

lemma event_step:
  assumes "J y" "sys_handle_event L H ev y = Some y1" shows "J y1"
proof -
  have p: "J (drop_tlog (with_ml s1 z))" if "J z" "handle_command_pipe (ll_mav L) input (ml z) = Some s1" for z input s1
    using drops [OF router [OF that(1) router_step.pipe [OF that(2)]]] .
  have r: "J (with_ml (reopen_command_pipe (ml y)) y)" by (rule router [OF assms(1) router_step.reopen])
  show ?thesis
    using assms p [OF assms(1)] p [OF r] endpoint_step [of y H _ ev y1] timeout_step [of y] router [OF assms(1) router_step.connect]
      router [OF _ router_step.exit]
    by (auto simp: sys_handle_event_def split: event_source.splits if_splits option.splits)
qed

lemma events_step: "J y \<Longrightarrow> sys_handle_events L H evs y = Some y1 \<Longrightarrow> J y1"
  by (induction evs arbitrary: y) (auto simp: bind_eq_Some_conv intro: event_step)

lemma round_step:
  assumes "J y" "sys_loop_round L H evs y = Some y1" shows "J y1"
proof -
  obtain y2 where y2: "sys_handle_events L H evs y = Some y2" using assms(2) by (auto simp: sys_loop_round_def bind_eq_Some_conv)
  define s where "s = (if should_process_tcp_hangups (os (ml y2)) then process_tcp_hangups (ml y2) else ml y2)"
  have "J y2" by (rule events_step [OF assms(1) y2])
  then have "J (with_ml s y2)" using router [OF _ router_step.hangups] by (simp add: s_def)
  from os_step [OF this] show ?thesis using assms(2) y2 by (auto simp: sys_loop_round_def s_def [symmetric])
qed

end

section \<open>What the timers of recorders do\<close>

lemma acts_ulog_cb: "ulog_cb L c u env = Some (b, u1, env1) \<Longrightarrow> rec_acts L (u, env) (u1, env1)"
  using acts_alive [OF starts_ulog stops_ulog, of L u env b u1 env1] acts_fsync [of L u env]
    acts_send_msg [of L u env "CommandLong (CMD_LOGGING_START L) (target_system_id u)" "target_system_id u"]
  by (auto simp: ulog_cb_def ulog_logging_start_timeout_def case_prod_unfold Let_def split: log_cb.splits)

lemma acts_binlog_cb: "binlog_cb L c u env = Some (b, u1, env1) \<Longrightarrow> rec_acts L (u, env) (u1, env1)"
  using acts_alive [OF starts_binlog stops_binlog, of L u env b u1 env1] acts_fsync [of L u env]
    acts_send_status [of L u env "BLOCK_START L" 1]
  by (auto simp: binlog_cb_def binlog_logging_start_timeout_def case_prod_unfold Let_def split: log_cb.splits)

lemma acts_tlog_cb: "tlog_cb c u env = Some (b, u1, env1) \<Longrightarrow> rec_acts L (u, env) (u1, env1)"
  using acts_alive [OF starts_tlog stops_tlog, of u env b u1 env1] acts_fsync [of L u env]
  by (auto simp: tlog_cb_def tlog_logging_start_timeout_def split: log_cb.splits)

lemma acts_logger_cb: "logger_cb L c l env = Some (b, l1, env1) \<Longrightarrow> logger_id l1 = logger_id l \<and> ml_acts L (le_ml env) (le_ml env1)"
  by (cases l) (auto simp: logger_cb_def bind_eq_Some_conv rec_acts_def dest!: acts_ulog_cb acts_binlog_cb)

lemma acts_log_endpoint_cb:
  "log_endpoint_cb L c ep env = Some (b, ep1, env1) \<Longrightarrow> log_endpoint_id ep1 = log_endpoint_id ep \<and> ml_acts L (le_ml env) (le_ml env1)"
  by (cases ep) (auto simp: log_endpoint_cb_def bind_eq_Some_conv dest!: acts_logger_cb split: option.splits)

lemma acts_recorder_cb:
  assumes "recorder_cb L c n y = Some (again, y1)" shows "sys_acts L y y1"
proof (cases "is_log n y")
  case True
  then obtain ep where "sy_log y = Some ep" by (auto simp: is_log_def split: option.splits)
  then show ?thesis using assms True acts_log_endpoint_cb [of L c ep "sy_env y"]
    by (auto simp: recorder_cb_def bind_eq_Some_conv sys_acts_def is_log_def is_tlog_def)
next
  case False
  then obtain t where t: "sy_tlog y = Some t" "is_tlog n y" using assms by (auto simp: recorder_cb_def is_tlog_def split: option.splits if_splits)
  then show ?thesis using assms False acts_tlog_cb [of c t "sy_env y" _ _ _ L]
    by (auto simp: recorder_cb_def bind_eq_Some_conv sys_acts_def rec_acts_def is_log_def is_tlog_def)
qed

section \<open>Invariants of the router\<close>

locale router_invariant =
  fixes L :: loglib and I :: "router \<Rightarrow> bool"
  assumes step: "I s \<Longrightarrow> router_step L s s' \<Longrightarrow> I s'"
begin

lemma route_step: "I s \<Longrightarrow> I (route_msg b s)"
proof -
  assume s: "I s"
  have "I (snd us) \<Longrightarrow> I (snd (fold (route_to b) ns us))" for ns us
  proof (induction ns arbitrary: us)
    case (Cons n ns)
    then show ?case using step [OF Cons.prems router_step.route [of L "snd us" b n "fst us"]] by simp
  qed simp
  from this [of "(True, s)"] show ?thesis using s step [OF _ router_step.unknown]
    by (auto simp: route_msg_def case_prod_unfold Let_def)
qed

lemma acts_step: "ml_acts L s t \<Longrightarrow> I s \<Longrightarrow> I t"
  by (induction rule: ml_acts.induct) (auto intro: route_step step [OF _ router_step.world])

end

sublocale router_invariant \<subseteq> sys: system_invariant L "\<lambda>y. I (ml y)"
proof
  fix y s n b r y1 c again
  assume i: "I (ml y)"
  show "router_step L (ml y) s \<Longrightarrow> I (ml (with_ml s y))" using step [OF i] by simp
  show "recorder_at n y \<Longrightarrow> recorder_write_msg L n b y = Some (r, y1) \<Longrightarrow> I (ml y1)"
    using acts_recorder_write_msg [of n y L b r y1] acts_step [OF _ i] by (auto simp: sys_acts_def)
  show "recorder_cb L c n y = Some (again, y1) \<Longrightarrow> I (ml y1)"
    using acts_recorder_cb [of L c n y again y1] acts_step [OF _ i] by (auto simp: sys_acts_def)
  show "I (ml (drop_tlog y))" using i by (simp add: drop_tlog_def split: option.split)
qed


section \<open>The invariants\<close>

text \<open>Buffers, caches, de-duplication and the vector of endpoints.\<close>

interpretation safe: router_invariant L "\<lambda>s. mavlib_ok (ll_mav L) \<longrightarrow> router_inv (ll_mav L) s \<and> index_inv s" for L
proof (unfold_locales, intro impI)
  fix s s'
  assume i: "mavlib_ok (ll_mav L) \<longrightarrow> router_inv (ll_mav L) s \<and> index_inv s" and m: "mavlib_ok (ll_mav L)"
  then have r: "router_inv (ll_mav L) s" and x: "index_inv s" by simp_all
  assume "router_step L s s'"
  then show "router_inv (ll_mav L) s' \<and> index_inv s'"
  proof (cases rule: router_step.cases)
    case (route b n u)
    have "same_eps s (snd (route_to b n (u, s)))" by (simp add: route_to_def case_prod_unfold Let_def split: accept_state.split)
    then show ?thesis using route router_inv_route_to [of "ll_mav L" "(u, s)"] r x same_eps_inv by auto
  next
    case (dedup H b ok)
    then show ?thesis using router_inv_dedup [OF r] dedup_check_msg_objs [of H b s] x by (auto simp: index_inv_def)
  next
    case (throttle k n)
    then show ?thesis using same_eps_inv [OF _ x] router_inv_on [OF r ep_inv_update_throttle] by simp
  next
    case (learn n b)
    then show ?thesis using same_eps_inv [OF _ x] router_inv_learn [OF r] by simp
  next
    case (read n k p e1 w1)
    have "ep_inv (ll_mav L) e1" using ep_inv_read_msg [OF m router_inv_nth [OF r read(2)], of "os s"] read(3) by simp
    then show ?thesis using read(1) router_inv_set_ep [OF r] same_eps_inv [OF _ x] by simp
  next
    case (after n ev rd)
    then show ?thesis using same_eps_inv [OF _ x] router_inv_after_read [OF r] by simp
  next
    case (callback cb)
    then show ?thesis using same_eps_inv [OF same_eps_callback x] router_inv_callback [OF r] by simp
  next
    case (connect peer)
    then show ?thesis using x router_inv_tcp_connection [OF m r]
      by (simp add: handle_tcp_connection_def index_inv_add case_prod_unfold Let_def)
  next
    case reopen
    then show ?thesis using r index_inv_reopen [OF x] by simp
  next
    case (pipe input)
    then show ?thesis using router_inv_pipe [OF m r] index_inv_pipe [OF x] by blast
  next
    case hangups
    then show ?thesis using index_inv_hangups [OF x] router_inv_hangups [OF r] by simp
  qed (use r x in \<open>simp_all add: index_inv_def request_exit_def\<close>)
qed


text \<open>Objects and their tables of systems only grow.\<close>

interpretation grow: router_invariant L "eps_grow s0" for L s0
proof
  fix s s'
  assume i: "eps_grow s0 s" and st: "router_step L s s'"
  show "eps_grow s0 s'"
    using st
  proof (cases rule: router_step.cases)
    case (route b n u)
    then show ?thesis using i eps_grow_route_to [of s0 "(u, s)"] by simp
  next
    case (dedup H b ok)
    then show ?thesis using i dedup_check_msg_objs [of H b s] by auto
  next
    case (read n k p e1 w1)
    have "grown (objs s ! n) e1" using grown_steps(4) [of "objs s ! n" "ll_mav L" "os s"] read(3) by simp
    then show ?thesis using read(1) eps_grow_set_ep [OF i] by simp
  next
    case (pipe input)
    then show ?thesis using eps_grow_pipe [OF i] by blast
  qed (use i in \<open>simp_all add: eps_grow_on eps_grow_learn eps_grow_after_read eps_grow_callback eps_grow_connection eps_grow_reopen eps_grow_hangups\<close>)
qed

lemma grow_acts: "ml_acts L s t \<Longrightarrow> eps_grow s t"
  using grow.acts_step [of L s t s] by simp

text \<open>The object behind every recorder is a recorder and knows the sender of its messages.\<close>

definition base_at :: "nat \<Rightarrow> router \<Rightarrow> bool" where
  "base_at n s \<longleftrightarrow> n < length (objs s) \<and> ep_type (objs s ! n) = LOG \<and> knows (objs s ! n) LOG_ENDPOINT_SYSTEM_ID 0"

lemma base_at_grow: "base_at n s \<Longrightarrow> eps_grow s t \<Longrightarrow> base_at n t"
  by (auto simp: base_at_def eps_grow_def grown_def knows_def)

lemma grow_step: "router_step L s t \<Longrightarrow> eps_grow s t"
  using grow.step [of s s L t] by simp

definition recorders_based :: "system \<Rightarrow> bool" where
  "recorders_based y \<longleftrightarrow> (\<forall>n. recorder_at n y \<longrightarrow> base_at n (ml y))"

lemma based_acts: "recorders_based y \<Longrightarrow> sys_acts L y y1 \<Longrightarrow> recorders_based y1"
  unfolding recorders_based_def sys_acts_def recorder_at_def using base_at_grow grow_acts by metis

interpretation based: system_invariant L recorders_based for L
proof
  fix y s n b r y1 c again
  assume i: "recorders_based y"
  show "router_step L (ml y) s \<Longrightarrow> recorders_based (with_ml s y)"
    using i base_at_grow [OF _ grow_step] by (auto simp: recorders_based_def)
  show "recorder_at n y \<Longrightarrow> recorder_write_msg L n b y = Some (r, y1) \<Longrightarrow> recorders_based y1"
    using based_acts [OF i] acts_recorder_write_msg by blast
  show "recorder_cb L c n y = Some (again, y1) \<Longrightarrow> recorders_based y1"
    using based_acts [OF i] acts_recorder_cb by blast
  show "recorders_based (drop_tlog y)"
    using i by (auto simp: recorders_based_def drop_tlog_def recorder_at_def is_log_def is_tlog_def split: option.splits)
qed

text \<open>The buffers of a recorder of ULog data.\<close>

fun logger_ok :: "logger \<Rightarrow> bool" where
  "logger_ok (ULogger u) = ulog_inv u"
| "logger_ok (BinLogger u) = True"

definition log_endpoint_ok :: "log_endpoint \<Rightarrow> bool" where
  "log_endpoint_ok ep =
     (case ep of Fixed l \<Rightarrow> logger_ok l | ByAutopilot a \<Rightarrow> (case al_logger a of None \<Rightarrow> True | Some l \<Rightarrow> logger_ok l))"

definition recorder_ok :: "system \<Rightarrow> bool" where
  "recorder_ok y = (case sy_log y of None \<Rightarrow> True | Some ep \<Rightarrow> log_endpoint_ok ep)"

lemma logger_ok_write: "logger_write_msg L b l env = Some (n, l1, env1) \<Longrightarrow> logger_ok l \<Longrightarrow> logger_ok l1"
  by (cases l) (auto simp: logger_write_msg_def bind_eq_Some_conv dest: ulog_inv_write_msg)

lemma log_endpoint_ok_write:
  assumes "log_endpoint_write_msg L b ep env = Some (n, ep1, env1)" "log_endpoint_ok ep" shows "log_endpoint_ok ep1"
proof (cases ep)
  case (Fixed l)
  then show ?thesis using assms logger_ok_write by (auto simp: log_endpoint_write_msg_def log_endpoint_ok_def bind_eq_Some_conv)
next
  case (ByAutopilot a)
  have "log_endpoint_ok (ByAutopilot a1)" if w: "autolog_write_msg L b a env = Some (n, a1, env1)" for a1
  proof (cases "al_logger a")
    case None
    then show ?thesis using w by (auto simp: autolog_write_msg_def log_endpoint_ok_def Let_def new_ULog_inv learn_target_def split: option.splits if_splits)
  next
    case (Some l)
    then show ?thesis using w assms(2) ByAutopilot logger_ok_write [of L b l env]
      by (auto simp: autolog_write_msg_def log_endpoint_ok_def bind_eq_Some_conv)
  qed
  then show ?thesis using assms(1) ByAutopilot by (auto simp: log_endpoint_write_msg_def bind_eq_Some_conv)
qed

lemma ulog_inv_cb: "ulog_cb L c u env = Some (b, u1, env1) \<Longrightarrow> ulog_inv u \<Longrightarrow> ulog_inv u1"
proof -
  assume s: "ulog_cb L c u env = Some (b, u1, env1)" and i: "ulog_inv u"
  show ?thesis
  proof (cases c)
    case StartCb
    then have "u1 = fst (send_msg L (CommandLong (CMD_LOGGING_START L) (target_system_id u)) (target_system_id u) u env)"
      using s by (auto simp: ulog_cb_def ulog_logging_start_timeout_def case_prod_unfold Let_def)
    then show ?thesis using i ulog_inv_more [OF send_msg_more] by simp
  next
    case FsyncCb
    then have "log_ep.more u1 = log_ep.more u" using s by (auto simp: ulog_cb_def fsync_cb_def case_prod_unfold Let_def split: if_splits)
    then show ?thesis using i ulog_inv_more by blast
  next
    case AliveCb
    then show ?thesis using s i
      by (auto simp: ulog_cb_def alive_timeout_cb_def bind_eq_Some_conv ulog_inv_fields dest: ulog_inv_stop ulog_inv_start split: if_splits)
  qed
qed

lemma logger_ok_cb: "logger_cb L c l env = Some (b, l1, env1) \<Longrightarrow> logger_ok l \<Longrightarrow> logger_ok l1"
  by (cases l) (auto simp: logger_cb_def bind_eq_Some_conv dest: ulog_inv_cb)

lemma log_endpoint_ok_cb: "log_endpoint_cb L c ep env = Some (b, ep1, env1) \<Longrightarrow> log_endpoint_ok ep \<Longrightarrow> log_endpoint_ok ep1"
  by (cases ep) (auto simp: log_endpoint_cb_def log_endpoint_ok_def bind_eq_Some_conv dest: logger_ok_cb split: option.splits)

interpretation intact: system_invariant L recorder_ok for L
proof
  fix y s n b r y1 c again
  assume i: "recorder_ok y"
  show "recorder_ok (with_ml s y)" using i by (simp add: recorder_ok_def)
  have e: "log_endpoint_ok (the (sy_log y))" if "is_log n y" using that i by (auto simp: recorder_ok_def is_log_def split: option.splits)
  show "recorder_write_msg L n b y = Some (r, y1) \<Longrightarrow> recorder_ok y1"
    using i e log_endpoint_ok_write [of L b] by (auto simp: recorder_write_msg_def recorder_ok_def bind_eq_Some_conv split: if_splits)
  show "recorder_cb L c n y = Some (again, y1) \<Longrightarrow> recorder_ok y1"
    using i e log_endpoint_ok_cb [of L c] by (auto simp: recorder_cb_def recorder_ok_def bind_eq_Some_conv split: if_splits)
  show "recorder_ok (drop_tlog y)" using i by (simp add: recorder_ok_def drop_tlog_def split: option.splits)
qed


section \<open>Reachable states\<close>

text \<open>The states of the process: after a successful start-up and after every round of events.\<close>

inductive sys_reachable :: "loglib \<Rightarrow> (bytes \<Rightarrow> u64) \<Rightarrow> system \<Rightarrow> bool" for L H where
  started: "objs (le_ml env) = [] \<Longrightarrow> g_endpoints (le_ml env) = [] \<Longrightarrow> msg_dedup (le_ml env) = dedup_init 0 \<Longrightarrow>
    sys_add_endpoints L config conf env = (True, y) \<Longrightarrow>
    sys_reachable L H (loop_start y)"
| round: "sys_reachable L H y \<Longrightarrow> \<not> should_exit (ml y) \<Longrightarrow> sys_loop_round L H evs y = Some y1 \<Longrightarrow> sys_reachable L H y1"

lemma sys_add_endpointsD:
  assumes "sys_add_endpoints L config conf env = (True, y)"
  obtains s1 where "add_links (ll_mav L) config (le_ml env) = (True, s1)"
    "y = with_ml (apply_options config (ml (add_log_endpoints L conf (env\<lparr>le_ml := s1\<rparr>)))) (add_log_endpoints L conf (env\<lparr>le_ml := s1\<rparr>))"
  using assms by (auto simp: sys_add_endpoints_def case_prod_unfold Let_def split: if_splits) (metis prod.collapse)

lemma grown_add_calls: "i < length h \<Longrightarrow> grown (h ! i) (add_sys_comp_id_calls k st h ! i)"
proof -
  assume i: "i < length h"
  note f = add_calls_frame [OF i, of k st]
  show ?thesis using conjunct1 [OF conjunct2 [OF f]] arg_cong [OF conjunct1 [OF f], of ep_type]
    by (simp add: grown_def ids_def)
qed

lemma add_log_baseE:
  obtains e where "ep_type e = LOG" "ep_inv M e \<or> \<not> mavlib_ok M"
    "objs (add_log_base M name s) = add_sys_comp_id (length (objs s)) LOG_ENDPOINT_SYSTEM_ID 0 (objs s @ [e])"
    "g_endpoints (add_log_base M name s) = g_endpoints s @ [length (objs s)]" "msg_dedup (add_log_base M name s) = msg_dedup s"
proof -
  define e where "e = Endpoint_init (length (objs s)) LOG name (malloc (RX_BUF_MAX_SIZE M) (os s)) (malloc TX_BUF_MAX_SIZE (os s))"
  have "ep_type e = LOG" "ep_inv M e \<or> \<not> mavlib_ok M" using ep_inv_fresh [of M] by (auto simp: e_def Endpoint_init_def)
  then show thesis using that [of e] by (simp add: add_log_base_def e_def [symmetric] Let_def)
qed

lemma add_log_base_grow: "eps_grow s (add_log_base M name s)"
proof -
  obtain e where "objs (add_log_base M name s) = add_sys_comp_id (length (objs s)) LOG_ENDPOINT_SYSTEM_ID 0 (objs s @ [e])"
    by (rule add_log_baseE)
  moreover have "grown (objs s ! i) (add_sys_comp_id_calls k st (objs s @ [e]) ! i)" if "i < length (objs s)" for i k st
    using grown_add_calls [of i "objs s @ [e]"] that by (simp add: nth_append)
  ultimately show ?thesis by (simp add: eps_grow_def add_sys_comp_id_def)
qed

lemma base_added: "base_at (length (objs s)) (add_log_base M name s)"
proof -
  let ?n = "length (objs s)"
  obtain e where e: "ep_type e = LOG" "objs (add_log_base M name s) = add_sys_comp_id ?n LOG_ENDPOINT_SYSTEM_ID 0 (objs s @ [e])"
    by (rule add_log_baseE)
  have "grown e (add_sys_comp_id ?n LOG_ENDPOINT_SYSTEM_ID 0 (objs s @ [e]) ! ?n)"
    using grown_add_calls [of ?n "objs s @ [e]"] by (simp add: add_sys_comp_id_def)
  moreover have "knows (add_sys_comp_id ?n LOG_ENDPOINT_SYSTEM_ID 0 (objs s @ [e]) ! ?n) LOG_ENDPOINT_SYSTEM_ID 0"
    by (rule add_sys_comp_id_knows) simp
  ultimately show ?thesis using e by (simp add: base_at_def grown_def add_sys_comp_id_def)
qed

lemma calm_add_calls: "i < length h \<Longrightarrow> calm (h ! i) (add_sys_comp_id_calls k st h ! i)"
proof -
  assume i: "i < length h"
  show ?thesis
    using grown_add_calls [OF i, of k st] arg_cong [OF conjunct1 [OF add_calls_frame [OF i, of k st]],
      of "\<lambda>e. (rx_data e, rx_len e, last_packet_len e, tx_data e, tx_len e, msg_cache e)"]
    by (simp add: calm_def)
qed

lemma add_log_base_safe:
  assumes "mavlib_ok M" "router_inv M s" "index_inv s"
  shows "router_inv M (add_log_base M name s) \<and> index_inv (add_log_base M name s)"
proof -
  let ?n = "length (objs s)"
  obtain e where e: "ep_inv M e" "objs (add_log_base M name s) = add_sys_comp_id ?n LOG_ENDPOINT_SYSTEM_ID 0 (objs s @ [e])"
    "g_endpoints (add_log_base M name s) = g_endpoints s @ [?n]" "msg_dedup (add_log_base M name s) = msg_dedup s"
    using add_log_baseE [of M name s] assms(1) by blast
  have "ep_inv M ((objs s @ [e]) ! i)" if "i < Suc ?n" for i
    using that e(1) router_inv_nth [OF assms(2)] by (auto simp: nth_append less_Suc_eq)
  then have "ep_inv M (add_sys_comp_id ?n LOG_ENDPOINT_SYSTEM_ID 0 (objs s @ [e]) ! i)" if "i < Suc ?n" for i
    using that calm_inv [OF calm_add_calls] by (simp add: add_sys_comp_id_def)
  then have "\<forall>x \<in> set (objs (add_log_base M name s)). ep_inv M x"
    unfolding e(2) by (auto simp: in_set_conv_nth add_sys_comp_id_def)
  then show ?thesis using assms e(2-4) by (auto simp: router_inv_def index_inv_def add_sys_comp_id_def less_Suc_eq)
qed

text \<open>The recorders after start-up.\<close>

lemma add_log_endpoints_ok:
  assumes "y = add_log_endpoints L conf env"
  shows "mavlib_ok (ll_mav L) \<longrightarrow> router_inv (ll_mav L) (le_ml env) \<and> index_inv (le_ml env) \<longrightarrow> router_inv (ll_mav L) (ml y) \<and> index_inv (ml y)"
    "recorders_based y" "recorder_ok y" "eps_grow (le_ml env) (ml y)"
proof -
  let ?b = "add_log_base (ll_mav L)"
  let ?n = "length (objs (le_ml env))"
  have 1: "length (objs (?b nm s)) = Suc (length (objs s))" for nm s by (simp add: add_log_base_def add_sys_comp_id_def Let_def)
  note y = assms [unfolded add_log_endpoints_def Let_def]
  show "mavlib_ok (ll_mav L) \<longrightarrow> router_inv (ll_mav L) (le_ml env) \<and> index_inv (le_ml env) \<longrightarrow> router_inv (ll_mav L) (ml y) \<and> index_inv (ml y)"
    using add_log_base_safe [of "ll_mav L"] by (simp add: y)
  show "recorder_ok y"
    by (auto simp: y recorder_ok_def log_endpoint_ok_def new_ULog_inv AutoLog_init_def autolog.defs log_ep.defs split: mav_dialect.split)
  show "eps_grow (le_ml env) (ml y)"
    using add_log_base_grow eps_grow_trans [OF add_log_base_grow add_log_base_grow] by (simp add: y)
  have i: "log_endpoint_id (case mavlink_dialect conf of Ardupilotmega \<Rightarrow> Fixed (BinLogger (BinLog_init ?n conf))
       | Common \<Rightarrow> Fixed (ULogger (new_ULog ?n (le_os env) conf)) | Auto \<Rightarrow> ByAutopilot (AutoLog_init ?n conf)) = ?n"
    by (simp add: BinLog_init_def new_ULog_def ULog_init_def AutoLog_init_def LogEndpoint_init_def log_ep.defs ulog.defs binlog.defs autolog.defs
        split: mav_dialect.split)
  have "base_at ?n (?b nm (?b mm (le_ml env)))" "base_at (Suc ?n) (?b nm (?b mm (le_ml env)))" for nm mm
    using base_at_grow [OF base_added add_log_base_grow] base_added [of "?b mm (le_ml env)"] 1 by auto
  then show "recorders_based y"
    using base_added i by (auto simp: y recorders_based_def recorder_at_def is_log_def is_tlog_def LogEndpoint_init_def)
qed


lemma sys_reachable_inv:
  assumes "sys_reachable L H y"
  shows "(mavlib_ok (ll_mav L) \<longrightarrow> router_inv (ll_mav L) (ml y) \<and> index_inv (ml y)) \<and> recorders_based y \<and> recorder_ok y"
  using assms
proof (induction rule: sys_reachable.induct)
  case (started env config conf y)
  obtain s1 where s1: "add_links (ll_mav L) config (le_ml env) = (True, s1)"
    and y: "y = with_ml (apply_options config (ml (add_log_endpoints L conf (env\<lparr>le_ml := s1\<rparr>)))) (add_log_endpoints L conf (env\<lparr>le_ml := s1\<rparr>))"
    using sys_add_endpointsD [OF started(4)] by blast
  define z where "z = add_log_endpoints L conf (env\<lparr>le_ml := s1\<rparr>)"
  have "fresh_router (le_ml env)" using started by (simp add: fresh_router_def)
  then have x: "index_inv s1" using add_links_index s1 by blast
  have "router_inv (ll_mav L) (le_ml env)" using started by (simp add: router_inv_def dedup_wf_init)
  then have "mavlib_ok (ll_mav L) \<Longrightarrow> router_inv (ll_mav L) s1" using router_inv_add_links [of "ll_mav L" "le_ml env" config] s1 by simp
  then have "mavlib_ok (ll_mav L) \<Longrightarrow> router_inv (ll_mav L) (ml z) \<and> index_inv (ml z)" using add_log_endpoints_ok(1) [OF z_def] x by simp
  moreover have "recorders_based z" "recorder_ok z" using add_log_endpoints_ok(2,3) [OF z_def] by auto
  ultimately show ?case unfolding y z_def [symmetric]
    by (auto simp: loop_start_def router_inv_apply_options index_inv_def recorders_based_def base_at_def recorder_ok_def)
next
  case (round y evs y1)
  then show ?case
    using safe.sys.round_step [of L y H evs y1] based.round_step [of y L H evs y1] intact.round_step [of y L H evs y1] by blast
qed

lemma sys_rounds_reachable:
  "sys_reachable L H y \<Longrightarrow> sys_loop_rounds L H rounds y = Some y1 \<Longrightarrow> sys_reachable L H y1"
  by (induction rounds arbitrary: y) (auto simp: bind_eq_Some_conv split: if_splits intro: sys_reachable.round)

end
