(* ===== verification/RecordingFacts.thy ===== *)
theory RecordingFacts
  imports SystemInvariants
begin

text \<open>
  Facts about the router with its recorders: recorders do not
  hear each other, a signal ends the program in order, without recorders the system is the router of
  \<open>Events\<close>, and what the telemetry log misses.
\<close>

section \<open>Properties\<close>

lemma base_rejects:
  assumes "base_at n s" "src_sysid (b_curr b) = LOG_ENDPOINT_SYSTEM_ID" "src_compid (b_curr b) = 0"
  shows "ep_accept_msg sn (objs s ! n) b w = (Rejected, w)"
  using assms by (simp add: base_at_def ep_accept_msg_def accept_msg_unfold Let_def)

text \<open>C8: no recorder accepts a message a recorder sends. In every state a handler goes through, a recorder of the
  router rejects what \<open>send_msg\<close> routes, so that \<open>route_msg\<close>, which recorders enter
  from inside their own handlers, never enters a recorder again.\<close>

theorem recorders_ignore_recorders:
  assumes "COMP_ID_ALL L = 0" "sys_reachable L H y" "recorder_at n y" "(router_step L)\<^sup>*\<^sup>* (ml y) s"
    "b = last (le_routed (snd (send_msg L m t ep env)))"
  shows "ep_accept_msg sn (objs s ! n) b w = (Rejected, w)"
proof -
  have "eps_grow (ml y) s" using assms(4) by (induction rule: rtranclp_induct) (auto intro: eps_grow_trans grow_step)
  moreover have "base_at n (ml y)" using sys_reachable_inv [OF assms(2)] assms(3) by (simp add: recorders_based_def)
  moreover have "src_sysid (b_curr b) = LOG_ENDPOINT_SYSTEM_ID" "src_compid (b_curr b) = 0"
    using assms(1,5) by (simp_all add: send_msg_def Let_def)
  ultimately show ?thesis using base_rejects base_at_grow by blast
qed

definition ex_sys_env :: log_env where
  "ex_sys_env = ex_log_env\<lparr>le_ml := ex_start\<rparr>"

lemma ex_sys_reachable:
  obtains y n where "sys_reachable ex_loglib (\<lambda>_. 0) y" "recorder_at n y" "n \<in> set (g_endpoints (ml y))"
proof -
  have M: "ll_mav ex_loglib = ex_mavlib" by (simp add: ex_loglib_def)
  obtain s where "add_endpoints ex_mavlib ex_configuration ex_start = (True, s)" by (rule ex_startup)
  then obtain s1 where s1: "add_links ex_mavlib ex_configuration ex_start = (True, s1)" using add_endpointsD by blast
  define env where "env = ex_sys_env\<lparr>le_ml := s1\<rparr>"
  define z where "z = add_log_endpoints ex_loglib ex_log_options env"
  have "sys_add_endpoints ex_loglib ex_configuration ex_log_options ex_sys_env = (True, with_ml (apply_options ex_configuration (ml z)) z)"
    by (simp add: sys_add_endpoints_def ex_sys_env_def M s1 z_def env_def Let_def)
  from sys_reachable.started [OF _ _ _ this]
  have r: "sys_reachable ex_loglib (\<lambda>_. 0) (loop_start (with_ml (apply_options ex_configuration (ml z)) z))"
    by (simp add: ex_sys_env_def ex_start_def)
  have z: "z = \<lparr>sy_env = env\<lparr>le_ml := add_log_base ex_mavlib ''AutoLog'' s1, le_fs := mark_unfinished_logs ''/logs'' (le_fs env)\<rparr>,
        sy_log = Some (ByAutopilot (AutoLog_init (length (objs s1)) ex_log_options)), sy_tlog = None\<rparr>"
    by (simp add: z_def add_log_endpoints_def ex_log_options_def log_endpoint_name_def env_def M)
  have "recorder_at (length (objs s1)) z" by (simp add: z recorder_at_def is_log_def AutoLog_init_def LogEndpoint_init_def log_ep.defs autolog.defs)
  moreover have "length (objs s1) \<in> set (g_endpoints (ml z))" by (simp add: z add_log_base_def Let_def)
  ultimately show thesis using that [OF r] by (simp add: loop_start_def)
qed

lemma recorders_ignore_recorders_witness:
  "\<exists>y n. sys_reachable ex_loglib (\<lambda>_. 0) y \<and> n \<in> set (g_endpoints (ml y)) \<and>
     ep_accept_msg 0 (objs (ml y) ! n)
       (last (le_routed (snd (send_msg ex_loglib (CommandLong 2510 1) 1 ex_binlog ex_log_env)))) ex_world = (Rejected, ex_world)"
proof -
  obtain y n where r: "sys_reachable ex_loglib (\<lambda>_. 0) y" "recorder_at n y" "n \<in> set (g_endpoints (ml y))" by (rule ex_sys_reachable)
  have "COMP_ID_ALL ex_loglib = 0" by (simp add: ex_loglib_def)
  from recorders_ignore_recorders [OF this r(1,2) rtranclp.rtrancl_refl refl] show ?thesis using r(1,3) by blast
qed

section \<open>The end\<close>

text \<open>A requested exit is never taken back.\<close>

lemma should_exit_steps [simp]:
  "should_exit (set_ep n e w s) = should_exit s" "should_exit (schedule_resend s) = should_exit s"
  "should_exit (snd (reschedule_resend s)) = should_exit s" "should_exit (on_ep f n s) = should_exit s"
  "should_exit (add_sys_comp_id_of n b s) = should_exit s" "should_exit (set_hangups s) = should_exit s"
  "should_exit (release n s) = should_exit s" "should_exit (add_object e w s) = should_exit s"
  by (simp_all add: set_ep_def schedule_resend_def reschedule_resend_def on_ep_def add_sys_comp_id_of_def set_hangups_def release_def
      add_object_def case_prod_unfold Let_def split: option.split ep_type.split)

lemma should_exit_fold: "(\<And>n s. should_exit (f n s) = should_exit s) \<Longrightarrow> should_exit (fold f ns s) = should_exit s"
  by (induction ns arbitrary: s) simp_all

lemma should_exit_commands: "exec_commands M ls s = Some s1 \<Longrightarrow> should_exit s1 = should_exit s"
proof (induction ls arbitrary: s)
  case (Cons l ls)
  then obtain s2 where 1: "exec_command M l s = Some s2" "exec_commands M ls s2 = Some s1" by (auto split: option.splits)
  have "should_exit s2 = should_exit s" using 1(1)
    by (auto simp: exec_command_def command_add_def command_remove_def command_throttle_def case_prod_unfold Let_def
        split: list.splits if_splits option.splits)
  then show ?case using Cons.IH 1(2) by simp
qed simp

interpretation exits: router_invariant L should_exit for L
proof
  fix s s'
  assume e: "should_exit s" and st: "router_step L s s'"
  show "should_exit s'"
    using st
  proof (cases rule: router_step.cases)
    case (route b n u)
    then show ?thesis using e by (simp add: route_to_def case_prod_unfold Let_def split: accept_state.split)
  next
    case (dedup H b ok)
    then show ?thesis using e dedup_check_msg_objs [of H b s] by auto
  next
    case (after n ev rd)
    then show ?thesis using e by (simp add: after_read_def request_exit_def case_prod_unfold Let_def)
  next
    case (callback cb)
    then show ?thesis using e
      by (simp add: run_callback_def ml_print_statistics_def resend_timeout_def log_aggregate_timeout_def should_exit_fold case_prod_unfold Let_def split: callback.split)
  next
    case (pipe input)
    then show ?thesis using e should_exit_commands by (auto simp: handle_command_pipe_def split: option.splits if_splits)
  next
    case hangups
    then show ?thesis using e by (simp add: process_tcp_hangups_def should_exit_fold Let_def)
  qed (use e in \<open>simp_all add: request_exit_def handle_tcp_connection_def reopen_command_pipe_def open_command_pipe_def clean_command_pipe_def
      case_prod_unfold Let_def\<close>)
qed

lemma exit_signal_round:
  assumes "ev \<in> set evs" "ev_src ev = ExitSignal" "sys_loop_round L H evs y = Some y1" shows "should_exit (ml y1)"
proof -
  have "should_exit (ml y2)" if "sys_handle_events L H evs y = Some y2" for y2
    using assms(1) that
  proof (induction evs arbitrary: y)
    case (Cons e evs)
    then obtain y3 where y3: "sys_handle_event L H e y = Some y3" "sys_handle_events L H evs y3 = Some y2" by (auto simp: bind_eq_Some_conv)
    show ?case
    proof (cases "e = ev")
      case True
      then have "should_exit (ml y3)" using y3(1) assms(2) by (auto simp: sys_handle_event_def request_exit_def)
      then show ?thesis using exits.sys.events_step [OF _ y3(2)] by simp
    qed (use Cons y3 in auto)
  qed simp
  moreover obtain y2 where y2: "sys_handle_events L H evs y = Some y2" using assms(3) by (auto simp: sys_loop_round_def bind_eq_Some_conv)
  ultimately have "should_exit (ml y2)" by simp
  then show ?thesis using assms(3) y2 exits.step [OF _ router_step.hangups] by (auto simp: sys_loop_round_def Let_def)
qed

fun logger_closed :: "logger \<Rightarrow> bool" where
  "logger_closed (ULogger u) = no_log u"
| "logger_closed (BinLogger u) = no_log u"

definition log_closed :: "system \<Rightarrow> bool" where
  "log_closed y =
     (case sy_log y of
        None \<Rightarrow> True | Some (Fixed l) \<Rightarrow> logger_closed l
      | Some (ByAutopilot a) \<Rightarrow> (case al_logger a of None \<Rightarrow> True | Some l \<Rightarrow> logger_closed l))"

lemma logger_stop_closed: "logger_stop L l env = Some (l1, env1) \<Longrightarrow> logger_closed l1"
  by (cases l) (auto simp: logger_stop_def bind_eq_Some_conv intro: ulg.stop_closes blg.stop_closes)

lemma sys_stop_closed:
  assumes "sys_stop L y = Some y1" shows "log_closed y1 \<and> sy_tlog y1 = sy_tlog y"
proof (cases "sy_log y")
  case (Some ep)
  then show ?thesis using assms
    by (cases ep) (auto simp: sys_stop_def log_endpoint_stop_def autolog_stop_def bind_eq_Some_conv log_closed_def logger_stop_closed split: option.splits)
qed (use assms in \<open>simp add: sys_stop_def log_closed_def\<close>)


lemma clear_endpoints_empty: "g_endpoints (clear_endpoints s) = []"
proof -
  have "g_endpoints (fold release ns t) = g_endpoints t" for ns t
    by (induction ns arbitrary: t) (simp_all add: release_def set_ep_def case_prod_unfold Let_def split: ep_type.split)
  then show ?thesis by (simp add: clear_endpoints_def)
qed

text \<open>C9: a signal ends the program in order. The round of events in which it arrives is the last one;
  then no endpoint, timer and command pipe is left and no flight log is open.\<close>

theorem shutdown_on_signal:
  assumes "ev \<in> set evs" "ev_src ev = ExitSignal" "sys_loop L H (evs # rounds) y = Some (r, y1)" "0 \<le> epollfd (ml y)"
  shows "sys_loop L H [evs] y = Some (r, y1) \<and> g_endpoints (ml y1) = [] \<and> g_commands_fd (ml y1) = -1 \<and>
    w_timeouts (os (ml y1)) = [] \<and> sy_tlog y1 = None \<and> log_closed y1"
proof -
  define z where "z = loop_start y"
  obtain y2 where y2: "sys_loop_rounds L H (evs # rounds) z = Some y2" using assms(3,4) by (auto simp: sys_loop_def z_def [symmetric] bind_eq_Some_conv)
  have one: "sys_loop_rounds L H [evs] z = Some y2"
  proof (cases "should_exit (ml z)")
    case False
    then obtain y3 where y3: "sys_loop_round L H evs z = Some y3" "sys_loop_rounds L H rounds y3 = Some y2"
      using y2 by (auto simp: bind_eq_Some_conv)
    have "should_exit (ml y3)" by (rule exit_signal_round [OF assms(1,2) y3(1)])
    then have "y2 = y3" using y3(2) by (cases rounds) auto
    then show ?thesis using False y3(1) by simp
  qed (use y2 in simp)
  obtain y3 where y3: "sys_stop L y2 = Some y3" using assms(3,4) y2 by (auto simp: sys_loop_def z_def [symmetric] bind_eq_Some_conv)
  have "sy_log (drop_tlog q) = sy_log q" "ml (drop_tlog q) = ml q" for q by (simp_all add: drop_tlog_def split: option.split)
  moreover have "sy_tlog (drop_tlog q) = None" if "g_endpoints (ml q) = []" for q using that by (simp add: drop_tlog_def split: option.split)
  ultimately show ?thesis
    using assms(3,4) y2 one y3 sys_stop_closed [OF y3] clear_endpoints_empty
    by (auto simp: sys_loop_def z_def [symmetric] clean_command_pipe_def Let_def log_closed_def)
qed


definition ex_exit :: event where
  "ex_exit = \<lparr>ev_src = ExitSignal, EPOLLIN = False, EPOLLOUT = False, EPOLLERR = False, EPOLLHUP = False\<rparr>"

definition ex_system :: system where
  "ex_system = \<lparr>sy_env = ex_log_env, sy_log = Some (Fixed (BinLogger ex_binlog)), sy_tlog = None\<rparr>"

lemma shutdown_on_signal_witness:
  "\<exists>r y1. sys_loop ex_loglib (\<lambda>_. 0) [[ex_exit], [ex_exit]] ex_system = Some (r, y1) \<and>
     sys_loop ex_loglib (\<lambda>_. 0) [[ex_exit]] ex_system = Some (r, y1) \<and> log_closed y1"
proof -
  have f: "lg_file ex_binlog = -1" by (simp add: ex_binlog_def BinLog_init_def LogEndpoint_init_def log_ep.defs binlog.defs)
  have "\<exists>p. sys_loop ex_loglib (\<lambda>_. 0) [[ex_exit], [ex_exit]] ex_system = Some p"
    by (simp add: sys_loop_def loop_start_def sys_loop_round_def sys_handle_event_def ex_exit_def ex_system_def sys_stop_def log_endpoint_stop_def logger_stop_def
        binlog_stop_def f Let_def with_ml_def request_exit_def)
  then obtain r y1 where l: "sys_loop ex_loglib (\<lambda>_. 0) [[ex_exit], [ex_exit]] ex_system = Some (r, y1)" by force
  have "ev_src ex_exit = ExitSignal" "0 \<le> epollfd (ml ex_system)"
    by (simp_all add: ex_exit_def ex_system_def ex_log_env_def ex_log_router_def)
  from shutdown_on_signal [OF _ this(1) l this(2)] l show ?thesis by auto
qed

section \<open>Without recorders\<close>

text \<open>Without recorders the system is the router of \<open>Events\<close>.\<close>

definition no_recorders :: "system \<Rightarrow> bool" where
  "no_recorders y \<longleftrightarrow> sy_log y = None \<and> sy_tlog y = None"

lemma no_recorders_simps [simp]:
  "no_recorders (with_ml s y) = no_recorders y" "no_recorders y \<Longrightarrow> is_log n y = False" "no_recorders y \<Longrightarrow> is_tlog n y = False"
  "no_recorders y \<Longrightarrow> recorder_at n y = False" "no_recorders y \<Longrightarrow> drop_tlog y = y"
  by (simp_all add: no_recorders_def is_log_def is_tlog_def recorder_at_def drop_tlog_def)

abbreviation lifted :: "system \<Rightarrow> router option \<Rightarrow> system option" where
  "lifted y \<equiv> map_option (\<lambda>s. with_ml s y)"

lemma plain_route_to: "no_recorders y \<Longrightarrow> sys_route_to L b n (u, y) = Some (map_prod id (\<lambda>s. with_ml s y) (route_to b n (u, ml y)))"
  by (simp add: sys_route_to_def case_prod_unfold Let_def map_prod_def)

lemma plain_route_all:
  "no_recorders y \<Longrightarrow> sys_route_all L b ns (u, y) = Some (map_prod id (\<lambda>s. with_ml s y) (fold (route_to b) ns (u, ml y)))"
proof (induction ns arbitrary: u y)
  case (Cons n ns)
  obtain u1 s1 where 1: "route_to b n (u, ml y) = (u1, s1)" by fastforce
  show ?case using Cons.IH [of "with_ml s1 y" u1] Cons.prems by (simp add: plain_route_to 1)
qed simp

lemma plain_route_msg: "no_recorders y \<Longrightarrow> sys_route_msg L b y = Some (with_ml (route_msg b (ml y)) y)"
  by (simp add: sys_route_msg_def plain_route_all route_msg_def case_prod_unfold Let_def)

lemma plain_process_msg: "no_recorders y \<Longrightarrow> sys_process_msg L H n b y = lifted y (process_msg H n b (ml y))"
  by (auto simp: sys_process_msg_def process_msg_def plain_route_msg split: option.split)

lemma plain_handle_read:
  "no_recorders y \<Longrightarrow> sys_handle_read L H n y = map_option (\<lambda>(r, s). (r, with_ml s y)) (handle_read (ll_mav L) H n (ml y))"
proof (induction L H n y rule: sys_handle_read.induct)
  case (1 L H n y)
  show ?case
  proof (cases "n < length (objs (ml y))")
    case n: True
    obtain r b e1 w1 where rd: "ep_read_msg (ll_mav L) (objs (ml y) ! n) (os (ml y)) = ((r, b), e1, w1)" by (metis prod.collapse)
    let ?s = "set_ep n e1 w1 (ml y)"
    have p: "sys_process_msg L H n (the b) (with_ml ?s y) = lifted y (process_msg H n (the b) ?s)"
      using plain_process_msg [of "with_ml ?s y" L H n "the b"] "1.prems" by (simp add: comp_def)
    show ?thesis
    proof (cases "0 < r \<and> process_msg H n (the b) ?s \<noteq> None")
      case True
      then obtain s1 where s1: "process_msg H n (the b) ?s = Some s1" by blast
      have "sys_handle_read L H n (with_ml s1 y) = map_option (\<lambda>(r, s). (r, with_ml s (with_ml s1 y))) (handle_read (ll_mav L) H n s1)"
        using "1.IH" [OF _ rd [symmetric] refl refl, of "with_ml s1 y"] n True p s1 "1.prems" by simp
      then show ?thesis using True n rd p s1 by (simp add: sys_handle_read.simps [of L H n y] handle_read.simps [of _ H n "ml y"])
    next
      case False
      then show ?thesis using n rd p by (auto simp: sys_handle_read.simps [of L H n y] handle_read.simps [of _ H n "ml y"])
    qed
  qed (simp add: sys_handle_read.simps [of L H n y] handle_read.simps [of _ H n "ml y"])
qed

lemma plain_callback:
  "no_recorders y \<Longrightarrow> sys_run_callback L cb y =
     (if cb_alive (ml y) cb then Some (map_prod id (\<lambda>s. with_ml s y) (run_callback cb (ml y))) else None)"
  by (cases cb) (simp_all add: sys_run_callback_def sys_print_statistics_def ep_statistics_def run_callback_def ml_print_statistics_def recorder_cb_def cb_alive_def case_prod_unfold Let_def map_prod_def)

lemma plain_timeout: "no_recorders y \<Longrightarrow> sys_timeout_handle_read L t ret val y = lifted y (timeout_handle_read t ret val (ml y))"
  by (simp add: sys_timeout_handle_read_def timeout_handle_read_def plain_callback case_prod_unfold Let_def split: option.split)

lemma plain_endpoint_event: "no_recorders y \<Longrightarrow> sys_endpoint_event L H n ev y = lifted y (endpoint_event (ll_mav L) H n ev (ml y))"
  by (auto simp: sys_endpoint_event_def endpoint_event_def plain_handle_read split: option.split)

lemma plain_event: "no_recorders y \<Longrightarrow> sys_handle_event L H ev y = lifted y (handle_event (ll_mav L) H ev (ml y))"
  by (auto simp: sys_handle_event_def handle_event_def plain_endpoint_event plain_timeout split: event_source.split option.split)

lemma plain_events: "no_recorders y \<Longrightarrow> sys_handle_events L H evs y = lifted y (handle_events (ll_mav L) H evs (ml y))"
proof (induction evs arbitrary: y)
  case (Cons ev evs)
  then show ?case by (cases "handle_event (ll_mav L) H ev (ml y)") (simp_all add: plain_event comp_def)
qed simp

lemma plain_round: "no_recorders y \<Longrightarrow> sys_loop_round L H evs y = lifted y (loop_round (ll_mav L) H evs (ml y))"
  by (cases "handle_events (ll_mav L) H evs (ml y)") (simp_all add: sys_loop_round_def loop_round_def plain_events Let_def)

lemma plain_rounds: "no_recorders y \<Longrightarrow> sys_loop_rounds L H rounds y = lifted y (loop_rounds (ll_mav L) H rounds (ml y))"
proof (induction rounds arbitrary: y)
  case (Cons evs rounds)
  then show ?case by (cases "loop_round (ll_mav L) H evs (ml y)") (simp_all add: plain_round comp_def)
qed simp

text \<open>Without recorders the event loop of the system is the event loop of the links alone, with the same
  result and the same final state.\<close>

lemma loop_without_recorders:
  assumes "sy_log y = None" "sy_tlog y = None"
  shows "sys_loop L H rounds y = map_option (\<lambda>(r, s). (r, with_ml s y)) (ml_loop (ll_mav L) H rounds (ml y))"
proof -
  have n: "no_recorders y" using assms by (simp add: no_recorders_def)
  show ?thesis using n assms
    by (cases "epollfd (ml y) < 0"; cases "loop_rounds (ll_mav L) H rounds ((ml y)\<lparr>os := snd (add_timeout 5000 CbLogAggregate (os (ml y)))\<rparr>)")
       (simp_all add: sys_loop_def loop_start_def ml_loop_def plain_rounds sys_stop_def Let_def)
qed

section \<open>The telemetry log\<close>

text \<open>The telemetry log gets only what is routed to it: a message for one system is not recorded unless that
  system is 2, whose messages it counts as its own, or traffic is sniffed with that number.\<close>

lemma targeted_not_in_telemetry:
  assumes "base_at n s" "set (sys_comp_ids (objs s ! n)) = {sys_comp_key LOG_ENDPOINT_SYSTEM_ID 0}" "sniffer_sysid s = 0"
    "0 < target_sysid (b_curr b)" "target_sysid (b_curr b) < 256" "target_sysid (b_curr b) \<noteq> 2"
  shows "fst (ep_accept_msg (sniffer_sysid s) (objs s ! n) b w) \<in> {Rejected, Filtered}"
proof -
  have "word_of_int (target_sysid (b_curr b)) \<noteq> (LOG_ENDPOINT_SYSTEM_ID :: u8)"
  proof
    assume "word_of_int (target_sysid (b_curr b)) = (LOG_ENDPOINT_SYSTEM_ID :: u8)"
    then have "uint (word_of_int (target_sysid (b_curr b)) :: u8) = 2" by simp
    then show False using assms(4-6) by (simp add: uint_word_of_int)
  qed
  then have "\<not> knows (objs s ! n) (word_of_int (target_sysid (b_curr b))) c" for c
    using assms(2) by (simp add: knows_def sys_comp_key_inject)
  then have "\<not> reaches (sniffer_sysid s) (objs s ! n) (b_curr b)" using assms(3,4) by (auto simp: reaches_def)
  then show ?thesis using assms(1) by (simp add: base_at_def ep_accept_msg_def accept_msg_unfold Let_def)
qed

text \<open>Removing the telemetry log by its name destroys it and leaves its timers; the next one that is due
  is run on the destroyed object.\<close>

lemma find_by_name_unlinked:
  "find_by_name name (s\<lparr>objs := fold (unlink_group_member x) ns (objs s)\<rparr>) = find_by_name name s"
proof -
  have "ep_name (fold (unlink_group_member x) ns h ! n) = ep_name (h ! n)" for n h
    by (induction ns arbitrary: h) (simp_all add: unlink_group_member_def nth_upd)
  then show ?thesis by (simp add: find_by_name_def)
qed

lemma removed_telemetry_timers_dangle:
  assumes "sy_tlog y = Some t" "\<not> is_log (lg_id t) y" "index_inv (ml y)" "base_at (lg_id t) (ml y)" "find_by_name ''TLog'' (ml y) = Some (lg_id t)"
    "find (\<lambda>x. to_id x = k) (w_timeouts (os (ml y))) = Some x" "to_cb x = CbLogFsync (lg_id t)" "timeout_due ret val x"
  shows "let y1 = drop_tlog (with_ml (command_remove [''remove'', ''TLog''] (ml y)) y)
    in sy_tlog y1 = None \<and> sys_timeout_handle_read L k ret val y1 = None"
proof -
  define s1 where "s1 = command_remove [''remove'', ''TLog''] (ml y)"
  define u where "u w = (ml y)\<lparr>objs := fold (unlink_group_member ''TLog'') (g_endpoints (ml y)) (objs (ml y)),
      g_endpoints := remove1 (lg_id t) (g_endpoints (ml y)), os := w\<rparr>" for w
  obtain w where w: "s1 = release (lg_id t) (u w)" "w_timeouts w = w_timeouts (os (ml y))"
    using assms(5) by (auto simp: s1_def command_remove_def find_by_name_unlinked u_def remove_fd_def Let_def)
  have ty: "ep_type (objs (u w) ! lg_id t) = LOG"
    using assms(4) links_only_fold [where f = "unlink_group_member ''TLog''", OF links_only_unlink, of "objs (ml y)" "g_endpoints (ml y)"]
    by (auto simp: base_at_def u_def links_only_def calm_def grown_def)
  then have "g_endpoints s1 = remove1 (lg_id t) (g_endpoints (ml y))" "w_timeouts (os s1) = w_timeouts (os (ml y))"
    using w by (simp_all add: release_def set_ep_def u_def Let_def)
  moreover have "lg_id t \<notin> set (remove1 (lg_id t) (g_endpoints (ml y)))" using assms(3) by (simp add: index_inv_def)
  ultimately have "drop_tlog (with_ml s1 y) = (with_ml s1 y)\<lparr>sy_tlog := None\<rparr>" "find (\<lambda>x. to_id x = k) (w_timeouts (os s1)) = Some x"
    using assms(1,6) by (simp_all add: drop_tlog_def)
  moreover have "\<not> is_log (lg_id t) ((with_ml s1 y)\<lparr>sy_tlog := None\<rparr>)" "\<not> is_tlog (lg_id t) ((with_ml s1 y)\<lparr>sy_tlog := None\<rparr>)"
    using assms(2) by (simp_all add: is_log_def is_tlog_def with_ml_def)
  ultimately show ?thesis
    using assms(7,8) by (simp add: s1_def [symmetric] sys_timeout_handle_read_def sys_run_callback_def recorder_cb_def Let_def)
qed

end
