(* ===== verification/Delivery.thy ===== *)
theory Delivery
  imports RecordingFacts
begin

text \<open>
  The way of a message through the whole system, recorders included, from the bytes that are read to the
  streams of the links: every packet of an event is processed, a message is not sent back to where it came
  from, it reaches every link that accepts it, and a message that waits for its turn has a timer.
  While a message is handled, recorders may route messages of their own (\<open>log_buffers\<close>), so
  a link gets those besides.
\<close>

section \<open>What a link gets from recorders\<close>

lemma gets_os:
  assumes "gets i ms s t" "lossless w' = lossless (os t)" "\<And>fd. wire_of fd w' = wire_of fd (os t)"
  shows "gets i ms s (t\<lparr>os := w'\<rparr>)"
  using assms net_up_os [of t w'] net_upD(2) [of t] by (simp add: gets_def stream_def)

lemma timeout_frame [simp]:
  "lossless (snd (add_timeout ms cb w)) = lossless w" "wire_of fd (snd (add_timeout ms cb w)) = wire_of fd w"
  "lossless (del_timeout k w) = lossless w" "wire_of fd (del_timeout k w) = wire_of fd w"
  by (simp_all add: add_timeout_def del_timeout_def mod_timeout_def lossless_def wire_of_def Let_def)

lemma acts_gets:
  assumes "ml_acts L s t" "net_up s" "is_link i s"
  shows "\<exists>ms. set ms \<subseteq> log_buffers L \<and> gets i ms s t"
  using assms
proof (induction rule: ml_acts.induct)
  case (none s)
  then show ?case using gets_refl [of s i] by (intro exI [where x = "[]"]) simp
next
  case (sent s t b)
  then obtain ms where ms: "set ms \<subseteq> log_buffers L" "gets i ms s t" by blast
  have t: "net_up t" "is_link i t" using ms(2) gets_link sent.prems by (auto simp: gets_def)
  show ?case using route_msg_gets [OF t, of b]
  proof
    assume "gets i [] t (route_msg b t)"
    then show ?thesis using gets_trans [OF ms(2)] ms(1) by fastforce
  next
    assume "gets i [b] t (route_msg b t)"
    then show ?thesis using gets_trans [OF ms(2)] ms(1) sent.hyps(2) by (intro exI [where x = "ms @ [b]"]) simp
  qed
next
  case (added s t ms cb)
  then obtain ns where "set ns \<subseteq> log_buffers L" "gets i ns s t" by blast
  then show ?case using gets_os [of i ns s t] by (intro exI [where x = ns]) simp
next
  case (marked s t k)
  then obtain ns where "set ns \<subseteq> log_buffers L" "gets i ns s t" by blast
  then show ?case using gets_os [of i ns s t] by (intro exI [where x = ns]) simp
qed

text \<open>One endpoint is served: a link that is not this endpoint, or does not accept the message, gets only what
  recorders send.\<close>

definition only_recorded :: "loglib \<Rightarrow> nat \<Rightarrow> system \<Rightarrow> buffer list \<Rightarrow> system \<Rightarrow> bool" where
  "only_recorded L i y ms y1 \<longleftrightarrow> set ms \<subseteq> log_buffers L \<and> (no_recorders y \<longrightarrow> ms = [] \<and> no_recorders y1) \<and>
     (\<forall>n. recorder_at n y1 = recorder_at n y) \<and> gets i ms (ml y) (ml y1)"

lemma only_recorded_trans:
  "only_recorded L i y ms y1 \<Longrightarrow> only_recorded L i y1 ns y2 \<Longrightarrow> only_recorded L i y (ms @ ns) y2"
  using gets_trans [of i ms "ml y" "ml y1" ns "ml y2"] by (auto simp: only_recorded_def)

lemma net_up_throttle:
  assumes "gets i ms s t" "n \<in> set (g_endpoints s)" "is_link i s"
  shows "gets i ms s (on_ep (\<lambda>e w. update_throttle_info e k w) n t)"
proof -
  obtain e1 w1 where u: "update_throttle_info (objs t ! n) k (os t) = (e1, w1)" by fastforce
  have t: "net_up t" "g_endpoints t = g_endpoints s" "is_link i t" using assms gets_link [OF assms(1)] by (simp_all add: gets_def)
  note f = update_throttle_written [OF u] and l = throttle_steps_link [OF u]
  have "local_step n t (set_ep n e1 w1 t)"
    using local_step_set_ep [OF t(1), of n w1 e1] assms(2) t(2) f l same_rules_throttle [OF u] net_upD(2,4) [OF t(1)] by auto
  moreover have "on_ep (\<lambda>e w. update_throttle_info e k w) n t = set_ep n e1 w1 t" by (simp add: on_ep_def u)
  moreover have n: "n < length (objs t)" using net_upD(3) [OF t(1)] assms(2) t(2) by simp
  have "gets n [] t (set_ep n e1 w1 t)" if "is_link n t"
    using calculation that f l n by (simp add: gets_def local_step_def set_ep_def)
  ultimately have "gets i [] t (on_ep (\<lambda>e w. update_throttle_info e k w) n t)" using gets_other t(3) by (cases "i = n") auto
  from gets_trans [OF assms(1) this] show ?thesis by simp
qed

lemma sys_route_to_gets:
  assumes "net_up (ml y)" "n \<in> set (g_endpoints (ml y))" "is_link i (ml y)" "sys_route_to L b n (u, y) = Some (u1, y1)"
    and "i \<noteq> n \<or> fst (ep_accept_msg (sniffer_sysid (ml y)) (objs (ml y) ! i) b (os (ml y))) \<noteq> Accepted"
  shows "\<exists>ms. only_recorded L i y ms y1"
proof -
  obtain a w1 where a: "ep_accept_msg (sniffer_sysid (ml y)) (objs (ml y) ! n) b (os (ml y)) = (a, w1)" by fastforce
  show ?thesis
  proof (cases "recorder_at n y \<and> a = Accepted")
    case True
    then obtain r y2 where w: "recorder_write_msg L n b (with_ml ((ml y)\<lparr>os := w1\<rparr>) y) = Some (r, y2)"
      and y1: "y1 = (if is_throttling_enabled (objs (ml y2) ! n) (msg_id (b_curr b))
             then with_ml (on_ep (\<lambda>e w. update_throttle_info e (msg_id (b_curr b)) w) n (ml y2)) y2 else y2)"
      using assms(4) by (auto simp: sys_route_to_def a bind_eq_Some_conv)
    have "sys_acts L (with_ml ((ml y)\<lparr>os := w1\<rparr>) y) y2" by (rule acts_recorder_write_msg [OF _ w]) (use True in simp)
    then have ac: "ml_acts L ((ml y)\<lparr>os := w1\<rparr>) (ml y2)" "\<And>k. recorder_at k y2 = recorder_at k y"
      by (simp_all add: sys_acts_def recorder_at_def)
    have "local_step n (ml y) ((ml y)\<lparr>os := w1\<rparr>)" by (rule local_step_os [OF assms(1) ep_accept_msg_world [OF a]])
    then have up: "net_up ((ml y)\<lparr>os := w1\<rparr>)" by (simp add: local_step_def)
    have g0: "gets i [] (ml y) ((ml y)\<lparr>os := w1\<rparr>)"
      using up tick_frame [OF ep_accept_msg_world [OF a]] by (simp add: gets_def)
    obtain ms where ms: "set ms \<subseteq> log_buffers L" "gets i ms ((ml y)\<lparr>os := w1\<rparr>) (ml y2)"
      using acts_gets [OF ac(1) up] assms(3) by auto
    have g: "gets i ms (ml y) (ml y2)" using gets_trans [OF g0 ms(2)] by simp
    have nr: "\<not> no_recorders y" using True by auto
    have "gets i ms (ml y) (ml y1)" "\<And>k. recorder_at k y1 = recorder_at k y"
      using g net_up_throttle [OF g assms(2,3)] ac(2) by (simp_all add: y1)
    then show ?thesis using ms(1) nr by (auto simp: only_recorded_def)
  next
    case False
    obtain u2 s1 where rt: "route_to b n (u, ml y) = (u2, s1)" by fastforce
    then have y1: "y1 = with_ml s1 y" using False assms(4) by (auto simp: sys_route_to_def a)
    note l = route_to_local [OF assms(1,2) rt]
    have "gets i [] (ml y) s1"
    proof (cases "i = n")
      case True
      then show ?thesis using gets_offered [OF l(1) _ l(2)] assms(3,5) by auto
    qed (use gets_other [OF l(1)] assms(3) in simp)
    then show ?thesis by (intro exI [where x = "[]"]) (simp add: only_recorded_def y1)
  qed
qed

lemma sys_route_all_gets:
  assumes "net_up (ml (snd us))" "set ns \<subseteq> set (g_endpoints (ml (snd us)))" "is_link i (ml (snd us))"
    and "sys_route_all L b ns us = Some us1" "i \<notin> set ns \<or> msg_known (objs (ml (snd us)) ! i) b"
  shows "\<exists>ms. only_recorded L i (snd us) ms (snd us1)"
  using assms
proof (induction ns arbitrary: us)
  case Nil
  then show ?case by (intro exI [where x = "[]"]) (simp add: only_recorded_def gets_refl)
next
  case (Cons n ns)
  obtain us2 where s: "sys_route_to L b n us = Some us2" "sys_route_all L b ns us2 = Some us1"
    using Cons.prems(4) by (auto simp: bind_eq_Some_conv)
  have "i \<noteq> n \<or> fst (ep_accept_msg (sniffer_sysid (ml (snd us))) (objs (ml (snd us)) ! i) b (os (ml (snd us)))) \<noteq> Accepted"
    using Cons.prems(5) accept_known [of "objs (ml (snd us)) ! i" b "sniffer_sysid (ml (snd us))" "os (ml (snd us))"] by auto
  then obtain ms where ms: "only_recorded L i (snd us) ms (snd us2)"
    using sys_route_to_gets [OF Cons.prems(1) _ Cons.prems(3), of n L b "fst us" "fst us2" "snd us2"] s(1) Cons.prems(2) by auto
  then have g: "gets i ms (ml (snd us)) (ml (snd us2))" by (simp add: only_recorded_def)
  have k: "msg_known (objs (ml (snd us2)) ! i) b = msg_known (objs (ml (snd us)) ! i) b"
    using g by (simp add: gets_def same_rules_def msg_known_def knows_def)
  obtain ns' where "only_recorded L i (snd us2) ns' (snd us1)"
    using Cons.IH [of us2] g Cons.prems(2,3,5) gets_link [OF g] s(2) k by (auto simp: gets_def)
  then show ?case using only_recorded_trans [OF ms] by blast
qed

lemma sys_route_all_append:
  "sys_route_all L b (as @ bs) us = Option.bind (sys_route_all L b as us) (sys_route_all L b bs)"
proof (induction as arbitrary: us)
  case (Cons a as)
  show ?case by (cases "sys_route_to L b a us") (simp_all add: Cons.IH)
qed simp

text \<open>All endpoints are served: a link that accepts the message gets it in its turn, between what recorders send, or
  has no room for it.\<close>

lemma sys_route_all_target:
  assumes "net_up (ml y)" "distinct ns" "set ns \<subseteq> set (g_endpoints (ml y))" "is_link i (ml y)" "\<not> recorder_at i y" "i \<in> set ns"
    and "sys_route_all L b ns (u, y) = Some (u1, y1)" "\<not> is_throttling_enabled (objs (ml y) ! i) (msg_id (b_curr b))"
  shows "\<exists>xs ys. set (xs @ ys) \<subseteq> log_buffers L \<and> (no_recorders y \<longrightarrow> xs = [] \<and> ys = []) \<and>
    (if fst (ep_accept_msg (sniffer_sysid (ml y)) (objs (ml y) ! i) b w) = Accepted
     then gets i (xs @ [b] @ ys) (ml y) (ml y1) \<or>
       gets i (xs @ ys) (ml y) (ml y1) \<and> TX_BUF_MAX_SIZE < tx_len (objs (ml y) ! i) + length (concat (map b_data xs)) + b_len b
     else gets i (xs @ ys) (ml y) (ml y1))"
proof -
  obtain as bs where ns: "ns = as @ i # bs" using assms(6) by (meson split_list)
  obtain us2 where 1: "sys_route_all L b as (u, y) = Some us2" using assms(7) by (auto simp: ns sys_route_all_append bind_eq_Some_conv)
  obtain us3 where 2: "sys_route_to L b i us2 = Some us3" using assms(7) 1 by (auto simp: ns sys_route_all_append bind_eq_Some_conv)
  have 3: "sys_route_all L b bs us3 = Some (u1, y1)" using assms(7) 1 2 by (simp add: ns sys_route_all_append)
  obtain xs where xs: "only_recorded L i y xs (snd us2)"
    using sys_route_all_gets [of "(u, y)" as i L b us2] 1 assms(1-4) by (auto simp: ns)
  then have g: "gets i xs (ml y) (ml (snd us2))" "\<not> recorder_at i (snd us2)" using assms(5) by (simp_all add: only_recorded_def)
  have y2: "net_up (ml (snd us2))" "g_endpoints (ml (snd us2)) = g_endpoints (ml y)" "is_link i (ml (snd us2))"
    "sniffer_sysid (ml (snd us2)) = sniffer_sysid (ml y)" "same_rules (objs (ml y) ! i) (objs (ml (snd us2)) ! i)"
    "tx_len (objs (ml (snd us2)) ! i) \<le> tx_len (objs (ml y) ! i) + length (concat (map b_data xs))"
    using g(1) gets_link [OF g(1)] assms(4) by (simp_all add: gets_def)
  obtain u3 s3 where rt: "route_to b i (fst us2, ml (snd us2)) = (u3, s3)" by fastforce
  have us3: "us3 = (u3, with_ml s3 (snd us2))"
    using 2 g(2) rt by (cases us2) (auto simp: sys_route_to_def case_prod_unfold Let_def)
  have i: "i \<in> set (g_endpoints (ml (snd us2)))" using assms(3,6) y2(2) by auto
  have acc: "fst (ep_accept_msg (sniffer_sysid (ml (snd us2))) (objs (ml (snd us2)) ! i) b (os (ml (snd us2)))) =
      fst (ep_accept_msg (sniffer_sysid (ml y)) (objs (ml y) ! i) b w)"
    using same_rules_accept [OF y2(5) assms(8)] by (simp add: y2(4))
  note o = gets_offered [OF route_to_local(1) [OF y2(1) i rt] y2(3) route_to_local(2) [OF y2(1) i rt y2(3)], unfolded acc]
  have nets: "net_up s3 \<and> g_endpoints s3 = g_endpoints (ml y) \<and> is_link i s3"
    using route_to_local(1) [OF y2(1) i rt] y2(2,3) same_rules_type [of "objs (ml (snd us2)) ! i" "objs s3 ! i"]
    by (auto simp: local_step_def is_link_def)
  obtain ys where ys: "only_recorded L i (snd us3) ys y1"
    using sys_route_all_gets [of us3 bs i L b "(u1, y1)"] 3 nets assms(2,3) by (auto simp: ns us3)
  then have gy: "gets i ys s3 (ml y1)" by (simp add: only_recorded_def us3)
  have sets: "set (xs @ ys) \<subseteq> log_buffers L" "no_recorders y \<longrightarrow> xs = [] \<and> ys = []"
    using xs ys by (auto simp: only_recorded_def us3)
  have tr: "gets i (xs @ zs @ ys) (ml y) (ml y1)" if "gets i zs (ml (snd us2)) s3" for zs
    using gets_trans [OF gets_trans [OF g(1) that] gy] by simp
  show ?thesis
    using o tr [of "[b]"] tr [of "[]"] sets y2(6) by (intro exI [where x = xs] exI [where x = ys]) auto
qed


section \<open>A message is handled\<close>

lemma sys_route_msg_gets:
  assumes "sys_route_msg L b y = Some y1"
  shows "\<exists>u y2. sys_route_all L b (g_endpoints (ml y)) (True, y) = Some (u, y2) \<and> (\<forall>i ms s. gets i ms s (ml y1) = gets i ms s (ml y2))"
proof -
  obtain u y2 where r: "sys_route_all L b (g_endpoints (ml y)) (True, y) = Some (u, y2)"
    and y1: "y1 = (if u then with_ml ((ml y2)\<lparr>msg_to_unknown := msg_to_unknown (ml y2) + 1\<rparr>) y2 else y2)"
    using assms by (auto simp: sys_route_msg_def bind_eq_Some_conv)
  have "\<forall>i ms s. gets i ms s (ml y1) = gets i ms s (ml y2)" by (simp add: y1)
  then show ?thesis using r by blast
qed

text \<open>The link a message came from gets only what recorders send.\<close>

lemma sys_process_msg_arrival:
  assumes "sys_process_msg L H n b y = Some y1" "net_up (ml y)" "is_link n (ml y)"
  shows "\<exists>ms. set ms \<subseteq> log_buffers L \<and> (no_recorders y \<longrightarrow> ms = []) \<and>
    stream (objs (ml y1) ! n) (os (ml y1)) = stream (objs (ml y) ! n) (os (ml y)) @ concat (map b_data ms)"
proof -
  obtain ok s1 where d: "dedup_check_msg H b (ml y) = Some (ok, s1)"
    using assms(1) by (auto simp: sys_process_msg_def split: option.splits)
  note fr = dedup_learn_frame [OF d assms(2)]
  have n: "n < length (objs (ml y))" using assms(2,3) net_upD(3) by (simp add: is_link_def)
  define s2 where "s2 = add_sys_comp_id_of n b s1"
  have s2: "stream (objs s2 ! n) (os s2) = stream (objs (ml y) ! n) (os (ml y))"
    using learn_fields(1) [OF n, of n b] fr(8,9) by (simp add: s2_def)
  have "y1 = with_ml s2 y \<or> y1 = with_ml s1 y \<or> sys_route_msg L b (with_ml s2 y) = Some y1"
    using assms(1) by (simp add: sys_process_msg_def d s2_def [symmetric] eq_commute split: if_splits)
  then consider "y1 = with_ml s2 y" | "y1 = with_ml s1 y" | "sys_route_msg L b (with_ml s2 y) = Some y1" by blast
  then show ?thesis
  proof cases
    case 3
    then obtain u y2 where r: "sys_route_all L b (g_endpoints s2) (True, with_ml s2 y) = Some (u, y2)"
      and g: "\<forall>i ms s. gets i ms s (ml y1) = gets i ms s (ml y2)" using sys_route_msg_gets [OF 3] by (simp only: with_ml_simps) blast
    have "msg_known (objs s2 ! n) b" using learn_known [of n s1 b] n by (simp add: s2_def fr(3))
    moreover have "net_up s2" "is_link n s2" using fr(2,6) assms(3) by (simp_all add: s2_def)
    ultimately obtain ms where "only_recorded L n (with_ml s2 y) ms y2"
      using sys_route_all_gets [of "(True, with_ml s2 y)" "g_endpoints s2" n L b "(u, y2)"] r by auto
    then have "set ms \<subseteq> log_buffers L" "no_recorders y \<longrightarrow> ms = []" "gets n ms s2 (ml y1)" using g by (simp_all add: only_recorded_def)
    then show ?thesis using s2 by (auto simp: gets_def)
  qed (use s2 fr in \<open>auto intro!: exI [where x = "[]"]\<close>)
qed

text \<open>C2: a message is not sent back. Handling a message that came in on a link, where the links are up and the kernel refuses
  bytes only temporarily, adds to the bytes this link sends and has waiting only messages that recorders compose while they record it
  (requests and acknowledgements), and nothing at all in a router without recorders, where handling it changes of the link only its table of systems.\<close>

theorem message_not_sent_back:
  assumes "sys_process_msg L H n b y = Some y1" "net_up (ml y)" "is_link n (ml y)"
  shows "\<exists>ms. set ms \<subseteq> log_buffers L \<and>
    stream (objs (ml y1) ! n) (os (ml y1)) = stream (objs (ml y) ! n) (os (ml y)) @ concat (map b_data ms) \<and>
    (no_recorders y \<longrightarrow> ms = [] \<and> only_ids_differ (objs (ml y) ! n) (objs (ml y1) ! n))"
proof -
  have n: "n < length (objs (ml y))" using assms(2,3) net_upD(3) by (simp add: is_link_def)
  have "only_ids_differ (objs (ml y) ! n) (objs (ml y1) ! n)" if "no_recorders y"
    using assms(1) process_msg_arrival [OF _ n] by (auto simp: plain_process_msg [OF that])
  then show ?thesis using sys_process_msg_arrival [OF assms] by blast
qed

text \<open>A message that is no duplicate and passes the incoming filters, seen from one link.\<close>

lemma sys_process_msg_target:
  assumes "dedup_check_msg H b (ml y) = Some (True, s1)" "allowed_by_incoming_filters (objs (ml y) ! n) b" "net_up (ml y)"
    and "is_link i (ml y)" "\<not> recorder_at i y" "\<not> is_throttling_enabled (objs (ml y) ! i) (msg_id (b_curr b))"
    and "sys_process_msg L H n b y = Some y1"
    and "a = fst (ep_accept_msg (sniffer_sysid (ml y)) (objs (add_sys_comp_id_of n b (ml y)) ! i) b (os (ml y)))"
  shows "\<exists>xs ys. set (xs @ ys) \<subseteq> log_buffers L \<and>
    (let sent = stream (objs (ml y1) ! i) (os (ml y1)); before = stream (objs (ml y) ! i) (os (ml y)) in
     if a = Accepted
     then sent = before @ concat (map b_data (xs @ [b] @ ys)) \<or>
       sent = before @ concat (map b_data (xs @ ys)) \<and>
       TX_BUF_MAX_SIZE < tx_len (objs (ml y) ! i) + length (concat (map b_data xs)) + b_len b
     else sent = before @ concat (map b_data (xs @ ys)))"
proof -
  note fr = dedup_learn_frame [OF assms(1,3)]
  define s2 where "s2 = add_sys_comp_id_of n b s1"
  have i: "i < length (objs (ml y))" using assms(3,4) net_upD(3) by (simp add: is_link_def)
  have o: "objs s2 = objs (add_sys_comp_id_of n b (ml y))" by (simp add: s2_def fr(9))
  have up: "net_up s2" "is_link i s2" "sniffer_sysid s2 = sniffer_sysid (ml y)"
    using fr(2,5,6) assms(4) by (simp_all add: s2_def)
  then have ig: "i \<in> set (g_endpoints s2)" by (simp add: is_link_def)
  note f = learn_fields [OF i, of n b]
  have before: "stream (objs s2 ! i) (os s2) = stream (objs (ml y) ! i) (os (ml y))" "tx_len (objs s2 ! i) = tx_len (objs (ml y) ! i)"
    using f(1,7) fr(8) by (simp_all add: o) (simp add: s2_def)
  have thr: "\<not> is_throttling_enabled (objs s2 ! i) (msg_id (b_curr b))" using assms(6) f(3) by (simp add: o)
  have "sys_route_msg L b (with_ml s2 y) = Some y1"
    using assms(2,7) by (simp add: sys_process_msg_def assms(1) fr(3) s2_def [symmetric])
  then obtain u y2 where r: "sys_route_all L b (g_endpoints s2) (True, with_ml s2 y) = Some (u, y2)"
    and g: "\<forall>i ms s. gets i ms s (ml y1) = gets i ms s (ml y2)" using sys_route_msg_gets [of L b "with_ml s2 y" y1] by (simp only: with_ml_simps) blast
  have "\<exists>xs ys. set (xs @ ys) \<subseteq> log_buffers L \<and> (no_recorders (with_ml s2 y) \<longrightarrow> xs = [] \<and> ys = []) \<and>
    (if a = Accepted
     then gets i (xs @ [b] @ ys) s2 (ml y2) \<or>
       gets i (xs @ ys) s2 (ml y2) \<and> TX_BUF_MAX_SIZE < tx_len (objs s2 ! i) + length (concat (map b_data xs)) + b_len b
     else gets i (xs @ ys) s2 (ml y2))"
    using sys_route_all_target [of "with_ml s2 y" "g_endpoints s2" i L b True u y2 "os (ml y)"] up ig net_upD(1) [OF up(1)] assms(5,8) thr r
    by (simp only: with_ml_simps o simp_thms subset_refl)
  then obtain xs ys where t: "set (xs @ ys) \<subseteq> log_buffers L"
    "if a = Accepted
     then gets i (xs @ [b] @ ys) s2 (ml y1) \<or>
       gets i (xs @ ys) s2 (ml y1) \<and> TX_BUF_MAX_SIZE < tx_len (objs s2 ! i) + length (concat (map b_data xs)) + b_len b
     else gets i (xs @ ys) s2 (ml y1)" unfolding g [rule_format, symmetric] by blast
  have st: "stream (objs (ml y1) ! i) (os (ml y1)) = stream (objs (ml y) ! i) (os (ml y)) @ concat (map b_data zs)" if "gets i zs s2 (ml y1)" for zs
    using that by (simp add: gets_def before(1))
  show ?thesis
    using t st [of "xs @ [b] @ ys"] st [of "xs @ ys"] unfolding before(2) Let_def by (intro exI [where x = xs] exI [where x = ys]) (auto split: if_splits)
qed


section \<open>Descriptors stay\<close>

text \<open>Where the kernel refuses bytes only temporarily, handling messages closes no descriptor.\<close>

definition fd_same :: "endpoint \<Rightarrow> endpoint \<times> world \<Rightarrow> bool" where
  "fd_same e x \<longleftrightarrow> ep_fd (fst x) = ep_fd e \<and> lossless (snd x)"

lemma fd_same_flush:
  assumes "lossless w"
  shows "fd_same e (snd (uart_flush_pending_msgs e w))" "fd_same e (snd (udp_flush_pending_msgs e w))"
    "fd_same e (snd (tcp_flush_pending_msgs e w))"
proof -
  have s: "lossless w1" "res = SndErr x \<Longrightarrow> x = EAGAIN" if "sys_send fd bs v = (res, w1)" "lossless v" for fd bs v res w1 x
    using that lossless_sys_send sys_send_lossless by blast+
  show "fd_same e (snd (uart_flush_pending_msgs e w))"
    using assms s by (auto simp: uart_flush_pending_msgs_def fd_same_def tx_consume_def count_written_def Let_def split: prod.split snd_res.split)
  show "fd_same e (snd (udp_flush_pending_msgs e w))"
    using assms s by (auto simp: udp_flush_pending_msgs_def unschedule_write_def fd_same_def tx_consume_def count_written_def Let_def split: prod.split snd_res.split)
  show "fd_same e (snd (tcp_flush_pending_msgs e w))"
    using assms s by (fastforce simp: tcp_flush_pending_msgs_def unschedule_write_def fd_same_def tx_consume_def count_written_def Let_def split: prod.split snd_res.split)
qed

lemma fd_same_net_write:
  assumes "\<And>e w. lossless w \<Longrightarrow> fd_same e (snd (flush e w))" "lossless w"
  shows "fd_same e (snd (net_write_msg flush e b w))"
proof -
  define x where "x = (if tx_len e > 0 \<and> tx_len e + b_len b > unat (coalesce_bytes (net e)) then snd (flush e w) else (e, w))"
  have "fd_same e x" using assms by (simp add: x_def fd_same_def)
  then show ?thesis using assms(1) [of "snd x" "tx_append (b_data b) (fst x)"]
    by (simp add: net_write_msg_def x_def [symmetric] case_prod_unfold Let_def) (simp add: fd_same_def tx_append_def schedule_write_def)
qed

lemma fd_same_ep_write: "lossless w \<Longrightarrow> fd_same e (snd (ep_write_msg e b w))"
proof -
  assume w: "lossless w"
  have "fd_same e (snd (uart_write_msg e b w))"
    using fd_same_flush(1) [OF w, of "count_written 0 1 (tx_append (b_data b) e)"] w
    by (simp add: uart_write_msg_def case_prod_unfold Let_def) (simp add: fd_same_def tx_append_def count_written_def)
  moreover have "fd_same e (snd (udp_write_msg e b w))"
    using fd_same_net_write [of udp_flush_pending_msgs, OF fd_same_flush(2) w] w
    by (cases "has_peer e") (simp_all add: udp_write_msg_net, simp add: fd_same_def udp_write_msg_def)
  moreover have "fd_same e (snd (tcp_write_msg e b w))"
    using fd_same_net_write [of tcp_flush_pending_msgs, OF fd_same_flush(3) w] by (simp add: tcp_write_msg_net)
  ultimately show ?thesis using w by (simp add: ep_write_msg_def fd_same_def split: ep_type.split)
qed

lemma fd_same_ml_write: "lossless w \<Longrightarrow> fd_same e (snd (ml_write_msg e b w))"
  using fd_same_ep_write [of w e b]
  by (simp add: ml_write_msg_def case_prod_unfold Let_def) (simp add: fd_same_def count_dropped_msg_def mod_fd_frame)

definition fds_kept :: "router \<Rightarrow> router \<Rightarrow> bool" where
  "fds_kept s s' \<longleftrightarrow> length (objs s') = length (objs s) \<and>
     (lossless (os s) \<longrightarrow> lossless (os s') \<and> (\<forall>i < length (objs s). ep_fd (objs s' ! i) = ep_fd (objs s ! i)))"

lemma fds_kept_refl [simp]: "fds_kept s s"
  by (simp add: fds_kept_def)

lemma fds_kept_trans: "fds_kept s t \<Longrightarrow> fds_kept t u \<Longrightarrow> fds_kept s u"
  by (simp add: fds_kept_def)

lemma nth_update_fd: "ep_fd e = ep_fd (h ! n) \<Longrightarrow> i < length h \<Longrightarrow> ep_fd (h[n := e] ! i) = ep_fd (h ! i)"
  by (cases "i = n") simp_all

lemma fds_kept_set_ep: "(lossless (os s) \<Longrightarrow> fd_same (objs s ! n) (e, w)) \<Longrightarrow> fds_kept s (set_ep n e w s)"
  by (cases "lossless (os s)") (auto simp: fds_kept_def fd_same_def set_ep_def nth_update_fd)

lemma fds_kept_schedule [simp]: "fds_kept s (schedule_resend t) = fds_kept s t"
  by (simp add: fds_kept_def)

lemma fds_kept_route_to: "fds_kept (snd us) (snd (route_to b n us))"
proof -
  obtain u s where us: "us = (u, s)" by fastforce
  obtain a w1 where a: "ep_accept_msg (sniffer_sysid s) (objs s ! n) b (os s) = (a, w1)" by fastforce
  have ll: "lossless w1 = lossless (os s)" by (rule tick_frame(2) [OF ep_accept_msg_world [OF a]])
  obtain r e1 w2 where wr: "ml_write_msg (objs s ! n) b w1 = (r, e1, w2)" by (metis prod_cases3)
  have "fds_kept s (snd (route_to b n (u, s)))"
  proof (cases a)
    case Accepted
    define w3 where "w3 = (if r = - EPIPE then w2\<lparr>should_process_tcp_hangups := True\<rparr> else w2)"
    obtain e2 w4 where up: "(if is_throttling_enabled e1 (msg_id (b_curr b))
        then update_throttle_info e1 (msg_id (b_curr b)) w3 else (e1, w3)) = (e2, w4)" by fastforce
    have "fd_same (objs s ! n) (e2, w4)" if "lossless (os s)"
      using fd_same_ml_write [of w1 "objs s ! n" b] that ll up update_throttle_written [of e1 "msg_id (b_curr b)" w3 e2 w4]
        same_rules_throttle [of e1 "msg_id (b_curr b)" w3 e2 w4]
      by (auto simp: fd_same_def wr w3_def same_rules_def same_link_def split: if_splits)
    moreover have "route_to b n (u, s) = (False, set_ep n e2 w4 s)"
      using up by (auto simp: route_to_def a Accepted wr w3_def [symmetric] Let_def split: if_splits)
    ultimately show ?thesis by (simp add: fds_kept_set_ep)
  next
    case Cached
    have "fds_kept s (set_ep n (cache_msg b (objs s ! n)) w1 s)" by (rule fds_kept_set_ep) (simp add: fd_same_def ll)
    then show ?thesis by (simp add: route_to_def a Cached)
  qed (simp_all add: route_to_def a fds_kept_def ll)
  then show ?thesis by (simp add: us)
qed

lemma fds_kept_fold: "fds_kept (snd us) (snd (fold (route_to b) ns us))"
proof (induction ns arbitrary: us)
  case (Cons n ns)
  show ?case using fds_kept_trans [OF fds_kept_route_to Cons.IH] by simp
qed simp

lemma fds_kept_unknown [simp]: "fds_kept s (t\<lparr>msg_to_unknown := k\<rparr>) = fds_kept s t"
  by (simp add: fds_kept_def)

lemma fds_kept_route_msg: "fds_kept s (route_msg b s)"
  using fds_kept_fold [of "(True, s)" b "g_endpoints s"] by (simp add: route_msg_def case_prod_unfold Let_def)

lemma fds_kept_acts: "ml_acts L s t \<Longrightarrow> fds_kept s t"
proof (induction rule: ml_acts.induct)
  case (sent s t b)
  then show ?case using fds_kept_trans [OF _ fds_kept_route_msg] by blast
qed (simp_all add: fds_kept_def)

lemma fds_kept_sys_route_to:
  assumes "sys_route_to L b n us = Some us1" shows "fds_kept (ml (snd us)) (ml (snd us1))"
proof -
  obtain u y where us: "us = (u, y)" by fastforce
  obtain a w1 where a: "ep_accept_msg (sniffer_sysid (ml y)) (objs (ml y) ! n) b (os (ml y)) = (a, w1)" by fastforce
  show ?thesis
  proof (cases "recorder_at n y \<and> a = Accepted")
    case True
    then obtain r y2 where w: "recorder_write_msg L n b (with_ml ((ml y)\<lparr>os := w1\<rparr>) y) = Some (r, y2)"
      and y1: "snd us1 = (if is_throttling_enabled (objs (ml y2) ! n) (msg_id (b_curr b))
             then with_ml (on_ep (\<lambda>e w. update_throttle_info e (msg_id (b_curr b)) w) n (ml y2)) y2 else y2)"
      using assms by (auto simp: us sys_route_to_def a bind_eq_Some_conv)
    have "sys_acts L (with_ml ((ml y)\<lparr>os := w1\<rparr>) y) y2" by (rule acts_recorder_write_msg [OF _ w]) (use True in simp)
    then have "fds_kept ((ml y)\<lparr>os := w1\<rparr>) (ml y2)" using fds_kept_acts by (auto simp: sys_acts_def)
    then have k: "fds_kept (ml y) (ml y2)" using tick_frame(2) [OF ep_accept_msg_world [OF a]] by (simp add: fds_kept_def)
    obtain e3 w3 where up: "update_throttle_info (objs (ml y2) ! n) (msg_id (b_curr b)) (os (ml y2)) = (e3, w3)" by fastforce
    have "fds_kept (ml y2) (set_ep n e3 w3 (ml y2))"
      using update_throttle_written [OF up] same_rules_throttle [OF up] by (intro fds_kept_set_ep) (simp add: fd_same_def same_rules_def same_link_def)
    then show ?thesis using fds_kept_trans [OF k] k by (simp add: us y1 on_ep_def up)
  next
    case False
    then show ?thesis using assms fds_kept_route_to [of "(u, ml y)" b n] by (auto simp: us sys_route_to_def a case_prod_unfold Let_def)
  qed
qed

lemma fds_kept_sys_route_all: "sys_route_all L b ns us = Some us1 \<Longrightarrow> fds_kept (ml (snd us)) (ml (snd us1))"
proof (induction ns arbitrary: us)
  case (Cons n ns)
  then obtain us2 where s: "sys_route_to L b n us = Some us2" "sys_route_all L b ns us2 = Some us1"
    by (auto simp: bind_eq_Some_conv)
  show ?case by (rule fds_kept_trans [OF fds_kept_sys_route_to [OF s(1)] Cons.IH [OF s(2)]])
qed simp

text \<open>Noting a sender and checking for a duplicate touch no descriptor.\<close>

lemma fds_kept_sys_process_msg:
  assumes "sys_process_msg L H n b y = Some y1" shows "fds_kept (ml y) (ml y1)"
proof -
  obtain ok s1 where d: "dedup_check_msg H b (ml y) = Some (ok, s1)"
    using assms by (auto simp: sys_process_msg_def split: option.splits)
  obtain d' t where "s1 = (ml y)\<lparr>msg_dedup := d', os := (os (ml y))\<lparr>w_tick := t\<rparr>\<rparr>" using dedup_check_msg_frame [OF d] .
  then have 1: "fds_kept (ml y) s1" by (simp add: fds_kept_def lossless_def)
  define s2 where "s2 = add_sys_comp_id_of n b s1"
  have "fds_kept s1 s2" using learn_fields(5) [of _ s1 n b] by (simp add: fds_kept_def s2_def)
  note 2 = fds_kept_trans [OF 1 this]
  have "y1 = with_ml s2 y \<or> y1 = with_ml s1 y \<or> sys_route_msg L b (with_ml s2 y) = Some y1"
    using assms by (simp add: sys_process_msg_def d s2_def [symmetric] eq_commute split: if_splits)
  moreover have "fds_kept s2 (ml y1)" if "sys_route_msg L b (with_ml s2 y) = Some y1"
    using that fds_kept_sys_route_all [of L b "g_endpoints s2" "(True, with_ml s2 y)"]
    by (auto simp: sys_route_msg_def bind_eq_Some_conv)
  ultimately show ?thesis using 1 2 fds_kept_trans by auto
qed


section \<open>Every packet is processed\<close>

text \<open>What the read handler does: it reads a message, processes it and goes on, until a read gives nothing.\<close>

inductive processes :: "loglib \<Rightarrow> (bytes \<Rightarrow> u64) \<Rightarrow> nat \<Rightarrow> system \<Rightarrow> buffer list \<Rightarrow> int \<Rightarrow> system \<Rightarrow> bool" for L H n where
  stop: "ep_read_msg (ll_mav L) (objs (ml y) ! n) (os (ml y)) = ((r, b), e1, w1) \<Longrightarrow> r \<le> 0 \<Longrightarrow>
     processes L H n y [] r (with_ml (set_ep n e1 w1 (ml y)) y)"
| step: "ep_read_msg (ll_mav L) (objs (ml y) ! n) (os (ml y)) = ((r, Some b), e1, w1) \<Longrightarrow> r > 0 \<Longrightarrow>
     sys_process_msg L H n b (with_ml (set_ep n e1 w1 (ml y)) y) = Some y1 \<Longrightarrow>
     processes L H n y1 bs r' y' \<Longrightarrow> processes L H n y (b # bs) r' y'"

lemma lossless_read_msg: "lossless (snd (snd (ep_read_msg M e w))) = lossless w"
proof -
  have r: "lossless (snd (sys_recv len w)) = lossless w" for len w
    by (simp add: sys_recv_def lossless_def Let_def split: rcv_res.split)
  have h: "lossless (snd (tcp_hangup e w)) = lossless w" for e w
    by (simp add: tcp_hangup_def tcp_schedule_reconnect_def tcp_close_def case_prod_unfold Let_def) (simp add: remove_fd_def lossless_def)
  have "lossless (snd (snd (ep_read len e w))) = lossless w" for len e w
    using r [of len w] h
    by (simp add: ep_read_def uart_read_def udp_read_def tcp_read_def case_prod_unfold Let_def split: ep_type.split rcv_res.split option.split)
  then have "lossless (snd (snd (Endpoint_read_msg M e w))) = lossless w"
    by (simp add: Endpoint_read_msg_def case_prod_unfold Let_def)
  then show ?thesis by (simp add: ep_read_msg_def case_prod_unfold Let_def split: ep_type.split option.split)
qed

lemma sys_handle_read_processes:
  assumes "sys_handle_read L H n y = Some (r, y')"
  shows "\<exists>bs. processes L H n y bs r y'"
  using assms
proof (induction L H n y rule: sys_handle_read.induct)
  case (1 L H n y)
  obtain k b e1 w1 where rd: "ep_read_msg (ll_mav L) (objs (ml y) ! n) (os (ml y)) = ((k, b), e1, w1)" by (metis prod.collapse)
  have n: "\<not> length (objs (ml y)) \<le> n" using "1.prems" by (auto simp: sys_handle_read.simps [of L _ _ y] split: if_splits)
  show ?case
  proof (cases "k \<le> 0")
    case True
    then show ?thesis using "1.prems" n rd processes.stop [OF rd] by (auto simp: sys_handle_read.simps [of L _ _ y])
  next
    case False
    then obtain y1 where p: "sys_process_msg L H n (the b) (with_ml (set_ep n e1 w1 (ml y)) y) = Some y1" "sys_handle_read L H n y1 = Some (r, y')"
      using "1.prems" n rd by (auto simp: sys_handle_read.simps [of L _ _ y] split: option.splits)
    obtain m where m: "b = Some m" using ep_read_msg_progress(2) [OF rd] False by auto
    obtain bs where "processes L H n y1 bs r y'" using "1.IH" [OF n rd [symmetric] refl refl False p(1) p(2)] by blast
    moreover have "sys_process_msg L H n m (with_ml (set_ep n e1 w1 (ml y)) y) = Some y1" "0 < k" using p(1) False by (simp_all add: m)
    ultimately show ?thesis using processes.step [OF rd [unfolded m]] by blast
  qed
qed

text \<open>The messages do not depend on what routing does with each of them in between.\<close>

lemma processes_read_loop:
  assumes "processes L H n y bs r y'" "n < length (objs (ml y))" "lossless (os (ml y))"
  shows "fst (read_loop (ll_mav L) (objs (ml y) ! n) (os (ml y))) = (r, bs)"
  using assms
proof (induction rule: processes.induct)
  case (stop y r b e1 w1)
  then show ?case by (simp add: read_loop.simps [of "ll_mav L"])
next
  case (step y r b e1 w1 y1 bs r' y')
  let ?y = "with_ml (set_ep n e1 w1 (ml y)) y"
  have fd: "ep_fd e1 = ep_fd (objs (ml y) ! n)" "ep_fd e1 \<ge> 0" "last_packet_len e1 \<noteq> 0"
    using ep_read_msg_fd [OF step.hyps(1,2)] by simp_all
  have w1: "lossless w1" using lossless_read_msg [of "ll_mav L" "objs (ml y) ! n" "os (ml y)"] step.hyps(1) step.prems(2) by simp
  have k: "fds_kept (set_ep n e1 w1 (ml y)) (ml y1)" "rx_kept (set_ep n e1 w1 (ml y)) (ml y1)"
    using fds_kept_sys_process_msg [OF step.hyps(3)] rx_kept_sys_process_msg [OF step.hyps(3)] by simp_all
  have y1: "n < length (objs (ml y1))" "lossless (os (ml y1))" "ep_fd (objs (ml y1) ! n) = ep_fd e1" "same_rx e1 (objs (ml y1) ! n)"
    using k step.prems w1 by (auto simp: fds_kept_def rx_kept_def set_ep_def dest: spec [where x = n])
  have "fst (read_loop (ll_mav L) (objs (ml y1) ! n) (os (ml y1))) = fst (read_loop (ll_mav L) e1 w1)"
    by (rule read_loop_same [OF y1(4) fd(3,2) y1(3)])
  then have "fst (read_loop (ll_mav L) e1 w1) = (r', bs)" using step.IH [OF y1(1,2)] by simp
  then show ?case using step.hyps(1,2) by (simp add: read_loop.simps [of "ll_mav L" "objs (ml y) ! n"] case_prod_unfold)
qed


text \<open>C5: every packet is processed. Let a link be between two packets with the beginning of one in its buffer, and let a read return bytes that fit behind it and complete
  well-formed packets, the last one perhaps begun only; let the kernel refuse bytes only temporarily. When the read handler returns, it has processed exactly these packets,
  in order, whatever routing and the recorders did with each of them, and its result is 0. In a router without recorders it does return.\<close>

theorem handler_processes_every_packet:
  assumes "mavlib_ok (ll_mav L)" "idle (ll_mav L) q0 (objs (ml y) ! n)" "n < length (objs (ml y))" "lossless (os (ml y))"
    and "w_rcv (os (ml y)) (w_rcvtick (os (ml y))) = RcvOk bs a" "bs \<noteq> []" "length q0 + length bs \<le> RX_BUF_MAX_SIZE (ll_mav L)"
    and "q0 @ bs = concat ps @ q" "\<forall>p \<in> set ps. well_formed (ll_mav L) p" "incomplete (ll_mav L) q"
  shows "(\<forall>r y'. sys_handle_read L H n y = Some (r, y') \<longrightarrow> r = 0 \<and> processes L H n y (map (msg_of (ll_mav L)) ps) 0 y') \<and>
    (no_recorders y \<and> dedup_wf (msg_dedup (ml y)) \<longrightarrow> (\<exists>y'. sys_handle_read L H n y = Some (0, y')))"
proof -
  obtain e' w' where "read_loop (ll_mav L) (objs (ml y) ! n) (os (ml y)) = ((0, map (msg_of (ll_mav L)) ps), e', w')"
    using read_loop_event [OF assms(1,2,5-10)] by metis
  then have l: "r = 0 \<and> ms = map (msg_of (ll_mav L)) ps" if "processes L H n y ms r y'" for ms r y'
    using processes_read_loop [OF that assms(3,4)] by simp
  have 1: "r = 0 \<and> processes L H n y (map (msg_of (ll_mav L)) ps) 0 y'" if "sys_handle_read L H n y = Some (r, y')" for r y'
    using sys_handle_read_processes [OF that] l by blast
  moreover have "\<exists>y'. sys_handle_read L H n y = Some (0, y')" if nr: "no_recorders y" "dedup_wf (msg_dedup (ml y))"
  proof -
    obtain r s' where "handle_read (ll_mav L) H n (ml y) = Some (r, s')" using handle_read_total [OF nr(2) assms(3)] by blast
    then have "sys_handle_read L H n y = Some (r, with_ml s' y)" by (simp add: plain_handle_read [OF nr(1)])
    with 1 show ?thesis by blast
  qed
  ultimately show ?thesis by blast
qed


text \<open>C35: the read handler of a router without recorders ends for every input and every behaviour of the operating system, without undefined
  behaviour of the de-duplication buffer; its last result is 0 or an error. (With a ULog recorder it may not: a message that claims to be
  65533 bytes long keeps the recorder in a loop.)\<close>

theorem handle_read_returns:
  assumes "no_recorders y" "dedup_wf (msg_dedup (ml y))" "n < length (objs (ml y))"
  shows "\<exists>r y'. sys_handle_read L H n y = Some (r, y') \<and> r \<le> 0 \<and> dedup_wf (msg_dedup (ml y'))"
proof -
  obtain r s' where "handle_read (ll_mav L) H n (ml y) = Some (r, s')" "r \<le> 0" "dedup_wf (msg_dedup s')"
    using handle_read_total [OF assms(2,3)] by blast
  then show ?thesis by (intro exI [where x = r] exI [where x = "with_ml s' y"]) (simp add: plain_handle_read [OF assms(1)])
qed


section \<open>A waiting message has a timer\<close>

text \<open>Whenever resending is scheduled its timer exists.\<close>

definition resend_timed :: "router \<Rightarrow> bool" where
  "resend_timed s \<longleftrightarrow> (resend_scheduled s \<longrightarrow> resend_timer s \<noteq> None)"

lemma resend_timed_fields [simp]:
  "resend_timed (s\<lparr>os := w\<rparr>) = resend_timed s" "resend_timed (s\<lparr>g_endpoints := ns\<rparr>) = resend_timed s"
  "resend_timed (s\<lparr>objs := es\<rparr>) = resend_timed s" "resend_timed (s\<lparr>g_commands_fd := fd\<rparr>) = resend_timed s"
  "resend_timed (s\<lparr>msg_to_unknown := k\<rparr>) = resend_timed s" "resend_timed (s\<lparr>msg_dedup := d\<rparr>) = resend_timed s"
  "resend_timed (s\<lparr>retcode := j, should_exit := x\<rparr>) = resend_timed s"
  by (simp_all add: resend_timed_def)

lemma resend_timed_steps [simp]:
  "resend_timed (set_ep n e w s) = resend_timed s" "resend_timed (snd (reschedule_resend s)) = resend_timed s"
  "resend_timed (on_ep f n s) = resend_timed s" "resend_timed (add_sys_comp_id_of n b s) = resend_timed s"
  "resend_timed (set_hangups s) = resend_timed s" "resend_timed (release n s) = resend_timed s"
  "resend_timed (add_object e w s) = resend_timed s"
  by (simp_all add: resend_timed_def set_ep_def reschedule_resend_def on_ep_def add_sys_comp_id_of_def set_hangups_def release_def
      add_object_def case_prod_unfold Let_def split: option.split ep_type.split)

lemma resend_timed_fold: "(\<And>n s. resend_timed (f n s) = resend_timed s) \<Longrightarrow> resend_timed (fold f ns s) = resend_timed s"
  by (induction ns arbitrary: s) simp_all

lemma resend_timed_schedule: "resend_timed s \<Longrightarrow> resend_timed (schedule_resend s)"
  by (simp add: schedule_resend_def case_prod_unfold Let_def split: option.split) (simp add: resend_timed_def)

lemma resend_timed_commands: "exec_commands M ls s = Some s1 \<Longrightarrow> resend_timed s1 = resend_timed s"
proof (induction ls arbitrary: s)
  case (Cons l ls)
  then obtain s2 where 1: "exec_command M l s = Some s2" "exec_commands M ls s2 = Some s1" by (auto split: option.splits)
  have "resend_timed s2 = resend_timed s" using 1(1)
    by (auto simp: exec_command_def command_add_def command_remove_def command_throttle_def case_prod_unfold Let_def
        split: list.splits if_splits option.splits)
  then show ?case using Cons.IH 1(2) by simp
qed simp

interpretation timed: router_invariant L resend_timed for L
proof
  fix s s'
  assume t: "resend_timed s" and st: "router_step L s s'"
  show "resend_timed s'"
    using st
  proof (cases rule: router_step.cases)
    case (route b n u)
    then show ?thesis using t resend_timed_schedule by (simp add: route_to_def case_prod_unfold Let_def split: accept_state.split)
  next
    case (dedup H b ok)
    obtain d k where "s' = s\<lparr>msg_dedup := d, os := (os s)\<lparr>w_tick := k\<rparr>\<rparr>" using dedup_check_msg_frame [OF dedup] .
    then show ?thesis using t by (simp add: resend_timed_def)
  next
    case (after n ev rd)
    then show ?thesis using t by (simp add: after_read_def request_exit_def case_prod_unfold Let_def)
  next
    case (callback cb)
    have "resend_timed (s1\<lparr>resend_scheduled := False, resend_timer := None\<rparr>)" for s1 by (simp add: resend_timed_def)
    then show ?thesis using t callback
      by (simp add: run_callback_def ml_print_statistics_def resend_timeout_def log_aggregate_timeout_def resend_timed_fold case_prod_unfold Let_def split: callback.split)
  next
    case (pipe input)
    then show ?thesis using t resend_timed_commands by (auto simp: handle_command_pipe_def split: option.splits if_splits)
  next
    case hangups
    then show ?thesis using t by (simp add: process_tcp_hangups_def resend_timed_fold Let_def)
  qed (use t in \<open>simp_all add: request_exit_def handle_tcp_connection_def reopen_command_pipe_def open_command_pipe_def clean_command_pipe_def
      case_prod_unfold Let_def\<close>)
qed


section \<open>Examples\<close>

definition ex_plain_system :: system where
  "ex_plain_system = with_ml ex_router (ex_system\<lparr>sy_log := None\<rparr>)"

lemma ex_plain_fields [simp]: "ml ex_plain_system = ex_router" "no_recorders ex_plain_system"
  by (simp_all add: ex_plain_system_def) (simp add: no_recorders_def ex_system_def)

lemma ex_links [simp]: "is_link 0 ex_router" "is_link (Suc 0) ex_router"
  by (simp_all add: is_link_def ex_endpoint_def Endpoint_init_def)

lemma message_not_sent_back_witness:
  "\<exists>y1. sys_process_msg ex_loglib (\<lambda>_. 0) 0 ex_buffer ex_plain_system = Some y1 \<and>
     only_ids_differ (objs ex_router ! 0) (objs (ml y1) ! 0)"
proof -
  obtain s' where p: "process_msg (\<lambda>_. 0) 0 ex_buffer ex_router = Some s'"
    using process_msg_total [OF ex_router_up(2), of "\<lambda>_. 0" 0 ex_buffer] by blast
  then have "sys_process_msg ex_loglib (\<lambda>_. 0) 0 ex_buffer ex_plain_system = Some (with_ml s' ex_plain_system)"
    by (simp add: plain_process_msg)
  from message_not_sent_back [OF this] this show ?thesis by auto
qed


definition ex_receiving_system :: system where
  "ex_receiving_system = with_ml (ex_router\<lparr>os := ex_world\<lparr>w_rcv := \<lambda>_. RcvOk (ex_packet1 @ ex_packet2) zero_sockaddr\<rparr>\<rparr>) ex_plain_system"

lemma handler_processes_every_packet_witness:
  "\<exists>y'. sys_handle_read ex_loglib (\<lambda>_. 0) 0 ex_receiving_system = Some (0, y') \<and>
     processes ex_loglib (\<lambda>_. 0) 0 ex_receiving_system (map (msg_of ex_mavlib) [ex_packet1, ex_packet2]) 0 y'"
proof -
  have M: "ll_mav ex_loglib = ex_mavlib" by (simp add: ex_loglib_def)
  have l: "length (ex_packet1 @ ex_packet2) \<le> 840" by (simp add: ex_packet1_def ex_packet2_def)
  have "lossless (ex_world\<lparr>w_rcv := r\<rparr>)" for r by (simp add: lossless_def ex_world_def)
  moreover have "ex_packet1 @ ex_packet2 \<noteq> []" by (simp add: ex_packet1_def)
  ultimately show ?thesis
    using handler_processes_every_packet [of ex_loglib "[]" ex_receiving_system 0 "ex_packet1 @ ex_packet2" zero_sockaddr "[ex_packet1, ex_packet2]" "[]" "\<lambda>_. 0"] l
    by (simp add: M incomplete_def dedup_wf_init ex_receiving_system_def RX_BUF_MAX_SIZE_def) blast
qed

lemma handle_read_returns_witness: "\<exists>r y'. sys_handle_read ex_loglib (\<lambda>_. 0) 1 ex_plain_system = Some (r, y') \<and> r \<le> 0"
  using handle_read_returns [of ex_plain_system 1 ex_loglib "\<lambda>_. 0"] dedup_wf_init by auto

lemma ex_plain_reachable:
  obtains y where "sys_reachable ex_loglib (\<lambda>_. 0) y" "no_recorders y" "g_endpoints (ml y) = [0, 1]"
proof -
  have M: "ll_mav ex_loglib = ex_mavlib" by (simp add: ex_loglib_def)
  obtain s where s: "add_endpoints ex_mavlib ex_configuration ex_start = (True, s)" "g_endpoints s = [0, 1]" by (rule ex_startup)
  then obtain s1 where s1: "add_links ex_mavlib ex_configuration ex_start = (True, s1)" "s = apply_options ex_configuration s1" using add_endpointsD by blast
  define z where "z = \<lparr>sy_env = ex_sys_env\<lparr>le_ml := s\<rparr>, sy_log = None, sy_tlog = None\<rparr>"
  have "sys_add_endpoints ex_loglib ex_configuration (ex_log_options\<lparr>logs_dir := []\<rparr>) ex_sys_env = (True, z)"
    by (simp add: sys_add_endpoints_def add_log_endpoints_def ex_sys_env_def M s1 z_def with_ml_def Let_def)
  from sys_reachable.started [OF _ _ _ this]
  have "sys_reachable ex_loglib (\<lambda>_. 0) (loop_start z)" by (simp add: ex_sys_env_def ex_start_def)
  then show thesis using that s(2) by (simp add: loop_start_def z_def no_recorders_def with_ml_def)
qed



end
