(* ===== verification/Diagnostics.thy ===== *)
theory Diagnostics
  imports Text
begin

text \<open>
  The log of the program itself (common/log.h, log.cpp). A message arrives formatted; what the log writes is the list of calls of
  \<open>writev\<close> and \<open>vsyslog\<close>, whose results the code ignores.
\<close>

section \<open>Levels\<close>

datatype log_level = Level_ERROR | Level_WARNING | Level_NOTICE | Level_INFO | Level_DEBUG | Level_TRACE
datatype log_backend = Backend_STDERR | Backend_SYSLOG

fun level_number :: "log_level \<Rightarrow> nat" where
  "level_number Level_ERROR = 0"
| "level_number Level_WARNING = 1"
| "level_number Level_NOTICE = 2"
| "level_number Level_INFO = 3"
| "level_number Level_DEBUG = 4"
| "level_number Level_TRACE = 5"

lemma level_number_inject: "level_number a = level_number b \<Longrightarrow> a = b"
  by (cases a; cases b) simp_all

text \<open>Levels are compared by their numbers.\<close>

instantiation log_level :: linorder
begin

definition less_eq_log_level :: "log_level \<Rightarrow> log_level \<Rightarrow> bool" where
  "less_eq_log_level a b \<longleftrightarrow> level_number a \<le> level_number b"

definition less_log_level :: "log_level \<Rightarrow> log_level \<Rightarrow> bool" where
  "less_log_level a b \<longleftrightarrow> level_number a < level_number b"

instance
  by standard (auto simp: less_eq_log_level_def less_log_level_def dest: level_number_inject)

end

section \<open>The log\<close>

record log_state =
  max_level :: log_level
  log_target_fd :: int
  show_colors :: bool
  the_backend :: log_backend
  writev_calls :: "(int \<times> string list) list"
  syslog_calls :: "(int \<times> string) list"

definition log_init :: log_state where
  "log_init = \<lparr>max_level = Level_INFO, log_target_fd = -1, show_colors = False, the_backend = Backend_STDERR,
     writev_calls = [], syslog_calls = []\<rparr>"

abbreviation LINE_MAX :: nat where "LINE_MAX \<equiv> 2048"

definition escape :: "string \<Rightarrow> string" where
  "escape s = CHR 0x1B # CHR ''['' # s"

definition COLOR_RESET :: string where "COLOR_RESET = escape ''0m''"

definition get_color :: "log_level \<Rightarrow> log_state \<Rightarrow> string option" where
  "get_color level g =
     (if \<not> show_colors g then None
      else case level of
             Level_ERROR \<Rightarrow> Some (escape ''31m'')
           | Level_WARNING \<Rightarrow> Some (escape ''0;33m'')
           | Level_NOTICE \<Rightarrow> Some (escape ''33;1m'')
           | Level_INFO \<Rightarrow> Some (escape ''37;1m'')
           | Level_DEBUG \<Rightarrow> Some (escape ''34;1m'')
           | Level_TRACE \<Rightarrow> None)"

text \<open>\<open>vsnprintf\<close> cuts the message; the pieces are given to one \<open>writev\<close>.\<close>

definition logv_to_fd :: "int \<Rightarrow> log_level \<Rightarrow> string \<Rightarrow> log_state \<Rightarrow> log_state" where
  "logv_to_fd fd level msg g =
     (let buffer = take (LINE_MAX - 1) msg;
          iovec = (case get_color level g of None \<Rightarrow> [buffer] | Some color \<Rightarrow> [color, buffer, COLOR_RESET]) @ [[CHR 0x0A]]
      in g\<lparr>writev_calls := writev_calls g @ [(fd, iovec)]\<rparr>)"

definition syslog_log_level :: "log_level \<Rightarrow> int" where
  "syslog_log_level level =
     (case level of Level_ERROR \<Rightarrow> 3 | Level_WARNING \<Rightarrow> 4 | Level_NOTICE \<Rightarrow> 5 | Level_INFO \<Rightarrow> 6 | Level_DEBUG \<Rightarrow> 7 | Level_TRACE \<Rightarrow> 7)"

definition logv :: "log_level \<Rightarrow> string \<Rightarrow> log_state \<Rightarrow> log_state" where
  "logv level msg g =
     (if max_level g < level then g
      else case the_backend g of
             Backend_STDERR \<Rightarrow> logv_to_fd (log_target_fd g) level msg g
           | Backend_SYSLOG \<Rightarrow> g\<lparr>syslog_calls := syslog_calls g @ [(syslog_log_level level, msg)]\<rparr>)"

text \<open>\<open>tty\<close> is the answer of \<open>isatty\<close>. An open log is not opened again.\<close>

definition log_open :: "log_backend \<Rightarrow> bool \<Rightarrow> log_state \<Rightarrow> int \<times> log_state" where
  "log_open backend tty g =
     (if \<not> log_target_fd g < 0 then (-1, logv Level_WARNING ''Expresssion `_target_fd < 0` is false'' g)
      else
        let g1 = g\<lparr>the_backend := backend\<rparr>
        in case backend of
             Backend_STDERR \<Rightarrow> (0, if tty then g1\<lparr>log_target_fd := 2, show_colors := True\<rparr> else g1\<lparr>log_target_fd := 2\<rparr>)
           | Backend_SYSLOG \<Rightarrow> (0, g1))"

definition log_close :: "log_state \<Rightarrow> int \<times> log_state" where
  "log_close g = (0, g)"

definition set_max_level :: "log_level \<Rightarrow> log_state \<Rightarrow> log_state" where
  "set_max_level level g = g\<lparr>max_level := level\<rparr>"

section \<open>Properties\<close>

lemma logv_effect:
  "logv level msg g =
     (if max_level g < level then g
      else if the_backend g = Backend_SYSLOG then g\<lparr>syslog_calls := syslog_calls g @ [(syslog_log_level level, msg)]\<rparr>
      else g\<lparr>writev_calls := writev_calls g @ [(log_target_fd g,
        (case get_color level g of None \<Rightarrow> [take 2047 msg] | Some c \<Rightarrow> [c, take 2047 msg, COLOR_RESET]) @ [[CHR 0x0A]])]\<rparr>)"
  by (simp add: logv_def logv_to_fd_def Let_def split: log_backend.split)

definition log_pieces :: "log_level \<Rightarrow> string \<Rightarrow> log_state \<Rightarrow> string list" where
  "log_pieces level msg g =
     (case get_color level g of None \<Rightarrow> [take 2047 msg] | Some c \<Rightarrow> [c, take 2047 msg, COLOR_RESET]) @ [[CHR 0x0A]]"

lemma log_pieces_frame [simp]: "log_pieces l m (g\<lparr>writev_calls := w\<rparr>) = log_pieces l m g"
  by (simp add: log_pieces_def get_color_def cong: log_level.case_cong)

text \<open>The log shows exactly the messages up to the level that was set, in order, each in one call
  that ends the line, cut to the size of the buffer and with its colour taken back.\<close>

lemma log_shows_selected:
  assumes "the_backend g = Backend_STDERR"
  shows "fold (\<lambda>(level, msg). logv level msg) msgs g =
    g\<lparr>writev_calls := writev_calls g @
      map (\<lambda>(level, msg). (log_target_fd g, log_pieces level msg g)) (filter (\<lambda>(level, msg). level \<le> max_level g) msgs)\<rparr>"
  using assms
proof (induction msgs arbitrary: g)
  case (Cons x msgs)
  obtain level msg where x: "x = (level, msg)" by fastforce
  show ?case
  proof (cases "level \<le> max_level g")
    case True
    define w where "w = writev_calls g @ [(log_target_fd g, log_pieces level msg g)]"
    have "logv level msg g = g\<lparr>writev_calls := w\<rparr>" using True Cons.prems by (simp add: logv_effect w_def log_pieces_def)
    then show ?thesis using Cons.IH [of "g\<lparr>writev_calls := w\<rparr>"] Cons.prems True x by (simp add: w_def)
  next
    case False
    then show ?thesis using Cons.IH [of g] Cons.prems x by (simp add: logv_effect)
  qed
qed simp

lemma log_shows_selected_witness:
  "writev_calls (fold (\<lambda>(level, msg). logv level msg) [(Level_DEBUG, ''a''), (Level_ERROR, ''b'')] (snd (log_open Backend_STDERR False log_init))) =
     [(2, [''b'', [CHR 0x0A]])]"
  by (subst log_shows_selected) (simp_all add: log_open_def log_init_def log_pieces_def get_color_def less_eq_log_level_def)

end
