(* ===== verification/Options.thy ===== *)
theory Options
  imports Recording Diagnostics "HOL-Library.List_Lexorder" "HOL-Library.Char_ord"
begin

text \<open>
  The program's options and the start of the process (main.cpp), with the option tables of the
  endpoints (endpoint.cpp) and of the recorders (logendpoint.cpp). The command line is read by
  \<open>getopt_long\<close>, which is modelled as GNU's: options and other arguments may mix, and the others are
  left in their order. What the process finds besides the file system is the record \<open>proc_env\<close>:
  environment variables and which paths are character devices. \<open>None\<close> is undefined behaviour or a failed
  assertion of the code it calls.
\<close>

section \<open>State\<close>

record full_config = configuration +
  conf_file_name :: string
  conf_dir :: string
  debug_log_level :: log_level
  log_backend :: log_backend
  log_config :: log_options

record proc_env =
  pe_getenv :: "string \<Rightarrow> string option"
  pe_chardev :: "string \<Rightarrow> bool"

abbreviation DEFAULT_BAUDRATE :: u32 where "DEFAULT_BAUDRATE \<equiv> 115200"

definition default_log_options :: log_options where
  "default_log_options =
     \<lparr>logs_dir = [], lo_mode = always, mavlink_dialect = Auto, min_free_space = 0, max_log_files = 0, fcu_id = -1, log_telemetry = False\<rparr>"

definition default_config :: full_config where
  "default_config =
     \<lparr>cfg_tcp_port = 5760, report_msg_statistics = False, cfg_dedup_period_ms = 0, command_pipe_path = [], uart_configs = [],
      udp_configs = [], tcp_configs = [], cfg_sniffer_sysid = 0, conf_file_name = [], conf_dir = [], debug_log_level = Level_INFO,
      log_backend = Backend_STDERR, log_config = default_log_options\<rparr>"

definition default_ep_config :: "string \<Rightarrow> ep_config" where
  "default_ep_config name =
     \<lparr>c_name = name, allow_msg_id_out = [], block_msg_id_out = [], allow_src_comp_out = [], block_src_comp_out = [],
      allow_src_sys_out = [], block_src_sys_out = [], allow_msg_id_in = [], block_msg_id_in = [], allow_src_comp_in = [],
      block_src_comp_in = [], allow_src_sys_in = [], block_src_sys_in = [], c_group = [], message_throttling = [], throttle_cache = []\<rparr>"

definition default_uart :: "string \<Rightarrow> uart_config" where
  "default_uart name = ep_config.extend (default_ep_config name) (uart_config.fields [] [] False)"

definition default_udp :: "string \<Rightarrow> udp_config" where
  "default_udp name = ep_config.extend (default_ep_config name) (udp_config.fields [] 0 Undefined 0 0 [])"

definition default_tcp :: "string \<Rightarrow> tcp_config" where
  "default_tcp name = ep_config.extend (default_ep_config name) (tcp_config.fields [] 0 5 0 0 [])"

section \<open>Option tables\<close>

text \<open>A table entry: key, whether it is required, parser, size of the field, field.\<close>

definition field_option ::
  "string \<Rightarrow> bool \<Rightarrow> (nat \<Rightarrow> string \<Rightarrow> 'v \<Rightarrow> (int \<times> 'v) option) \<Rightarrow> nat \<Rightarrow> ('d \<Rightarrow> 'v) \<Rightarrow> (('v \<Rightarrow> 'v) \<Rightarrow> 'd \<Rightarrow> 'd) \<Rightarrow> 'd option_entry" where
  "field_option key required parse sz get upd =
     \<lparr>ot_key = key, ot_required = required,
      ot_parser = (\<lambda>val d. case parse sz val (get d) of None \<Rightarrow> None | Some (ret, v) \<Rightarrow> Some (ret, upd (\<lambda>_. v) d))\<rparr>"

definition parse_udp_mode :: "nat \<Rightarrow> string \<Rightarrow> udp_mode \<Rightarrow> (int \<times> udp_mode) option" where
  "parse_udp_mode storage_len val m =
     (if val = [] then None
      else if storage_len < 1 then Some (- ENOBUFS, m)
      else if length val > INT_MAX then Some (- EINVAL, m)
      else if memcaseeq val ''normal'' then Some (0, Client)
      else if memcaseeq val ''eavesdropping'' then Some (0, Server)
      else if memcaseeq val ''server'' then Some (0, Server)
      else if memcaseeq val ''receiver'' then Some (0, Receiver)
      else Some (- EINVAL, m))"

text \<open>The filters, which are in all tables.\<close>

definition filter_options :: "('a) ep_config_scheme option_entry list" where
  "filter_options =
     [field_option ''AllowMsgIdOut'' False parse_uint32_vector 24 allow_msg_id_out allow_msg_id_out_update,
      field_option ''BlockMsgIdOut'' False parse_uint32_vector 24 block_msg_id_out block_msg_id_out_update,
      field_option ''AllowSrcCompOut'' False parse_uint8_vector 24 allow_src_comp_out allow_src_comp_out_update,
      field_option ''BlockSrcCompOut'' False parse_uint8_vector 24 block_src_comp_out block_src_comp_out_update,
      field_option ''AllowSrcSysOut'' False parse_uint8_vector 24 allow_src_sys_out allow_src_sys_out_update,
      field_option ''BlockSrcSysOut'' False parse_uint8_vector 24 block_src_sys_out block_src_sys_out_update,
      field_option ''AllowMsgIdIn'' False parse_uint32_vector 24 allow_msg_id_in allow_msg_id_in_update,
      field_option ''BlockMsgIdIn'' False parse_uint32_vector 24 block_msg_id_in block_msg_id_in_update,
      field_option ''AllowSrcCompIn'' False parse_uint8_vector 24 allow_src_comp_in allow_src_comp_in_update,
      field_option ''BlockSrcCompIn'' False parse_uint8_vector 24 block_src_comp_in block_src_comp_in_update,
      field_option ''AllowSrcSysIn'' False parse_uint8_vector 24 allow_src_sys_in allow_src_sys_in_update,
      field_option ''BlockSrcSysIn'' False parse_uint8_vector 24 block_src_sys_in block_src_sys_in_update,
      field_option ''group'' False parse_stdstring 32 c_group c_group_update]"

definition throttle_options :: "('a) ep_config_scheme option_entry list" where
  "throttle_options =
     [field_option ''MsgThrottling'' False parse_pair_vector 24 message_throttling message_throttling_update,
      field_option ''ThrottleCache'' False parse_uint32_vector 24 throttle_cache throttle_cache_update]"

definition uart_option_table :: "uart_config option_entry list" where
  "uart_option_table =
     [field_option ''baud'' False parse_uint32_vector 24 c_baudrates c_baudrates_update,
      field_option ''device'' True parse_stdstring 32 device device_update,
      field_option ''FlowControl'' False parse_bool 1 flowcontrol flowcontrol_update]
     @ filter_options @ throttle_options"

definition udp_option_table :: "udp_config option_entry list" where
  "udp_option_table =
     [field_option ''address'' True parse_stdstring 32 u_address u_address_update,
      field_option ''mode'' True parse_udp_mode 4 u_mode u_mode_update,
      field_option ''port'' False parse_ul 8 u_port u_port_update,
      field_option ''filter'' False parse_uint32_vector 24 allow_msg_id_out allow_msg_id_out_update]
     @ filter_options
     @ [field_option ''CoalesceBytes'' False parse_ul 8 u_coalesce_bytes u_coalesce_bytes_update,
        field_option ''CoalesceMs'' False parse_ul 8 u_coalesce_ms u_coalesce_ms_update,
        field_option ''CoalesceNoDelay'' False parse_uint32_vector 24 u_coalesce_nodelay u_coalesce_nodelay_update]
     @ throttle_options"

definition tcp_option_table :: "tcp_config option_entry list" where
  "tcp_option_table =
     [field_option ''address'' True parse_stdstring 32 t_address t_address_update,
      field_option ''port'' True parse_ul 8 t_port t_port_update,
      field_option ''RetryTimeout'' False parse_i 4 t_retry_timeout t_retry_timeout_update]
     @ filter_options
     @ [field_option ''CoalesceBytes'' False parse_ul 8 t_coalesce_bytes t_coalesce_bytes_update,
        field_option ''CoalesceMs'' False parse_ul 8 t_coalesce_ms t_coalesce_ms_update,
        field_option ''CoalesceNoDelay'' False parse_uint32_vector 24 t_coalesce_nodelay t_coalesce_nodelay_update]
     @ throttle_options"

definition log_option_table :: "log_options option_entry list" where
  "log_option_table =
     [field_option ''Log'' False parse_stdstring 32 logs_dir logs_dir_update,
      field_option ''LogMode'' False parse_log_mode 4 lo_mode lo_mode_update,
      field_option ''MavlinkDialect'' False parse_mavlink_dialect 4 mavlink_dialect mavlink_dialect_update,
      field_option ''MinFreeSpace'' False parse_ul 8 min_free_space min_free_space_update,
      field_option ''MaxLogFiles'' False parse_ul 8 max_log_files max_log_files_update,
      field_option ''LogSystemId'' False parse_fcu_id 4 fcu_id fcu_id_update,
      field_option ''LogTelemetry'' False parse_bool 1 log_telemetry log_telemetry_update]"

section \<open>Values\<close>

definition find_next_udp_port :: "string \<Rightarrow> ('a) configuration_scheme \<Rightarrow> u64" where
  "find_next_udp_port ip config =
     (if list_ex (\<lambda>c. ip = u_address c \<and> u_port c = 14550) (udp_configs config) then 14551 else 14550)"

text \<open>The part before the last colon and the number behind it, with its text.\<close>

definition split_on_last_colon :: "string \<Rightarrow> (string \<times> u64 \<times> string) option" where
  "split_on_last_colon s =
     (if CHR '':'' \<notin> set s then Some (s, ULONG_MAX, [])
      else
        let tail = rev (takeWhile (\<lambda>c. c \<noteq> CHR '':'') (rev s)); base = take (length s - length tail - 1) s
        in case safe_atoul tail of Inl _ \<Rightarrow> None | Inr n \<Rightarrow> Some (base, n, tail))"

definition log_level_from_str :: "string \<Rightarrow> log_level option" where
  "log_level_from_str s =
     (if strcaseeq s ''error'' then Some Level_ERROR
      else if strcaseeq s ''warning'' then Some Level_WARNING
      else if strcaseeq s ''info'' then Some Level_INFO
      else if strcaseeq s ''debug'' then Some Level_DEBUG
      else if strcaseeq s ''trace'' then Some Level_TRACE
      else None)"

definition parse_log_level :: "nat \<Rightarrow> string \<Rightarrow> log_level \<Rightarrow> (int \<times> log_level) option" where
  "parse_log_level storage_len val level =
     (if val = [] then None
      else if storage_len < 4 then Some (- ENOBUFS, level)
      else if length val > 10 then Some (- EINVAL, level)
      else case log_level_from_str (c_str val) of None \<Rightarrow> Some (- EINVAL, level) | Some l \<Rightarrow> Some (0, l))"

definition global_option_table :: "full_config option_entry list" where
  "global_option_table =
     [field_option ''TcpServerPort'' False parse_ul 8 cfg_tcp_port cfg_tcp_port_update,
      field_option ''ReportStats'' False parse_bool 1 report_msg_statistics report_msg_statistics_update,
      field_option ''DebugLogLevel'' False parse_log_level 4 debug_log_level debug_log_level_update,
      field_option ''DeduplicationPeriod'' False parse_ul 8 cfg_dedup_period_ms cfg_dedup_period_ms_update,
      field_option ''SnifferSysid'' False parse_ul 8 cfg_sniffer_sysid cfg_sniffer_sysid_update,
      field_option ''CommandPipePath'' False parse_stdstring 32 command_pipe_path command_pipe_path_update]"

section \<open>The command line\<close>

definition long_options :: "(string \<times> bool \<times> char) list" where
  "long_options =
     [(''endpoints'', True, CHR ''e''), (''conf-file'', True, CHR ''c''), (''conf-dir'', True, CHR ''d''),
      (''report_msg_statistics'', False, CHR ''r''), (''tcp-port'', True, CHR ''t''), (''tcp-endpoint'', True, CHR ''p''),
      (''log'', True, CHR ''l''), (''telemetry-log'', False, CHR ''T''), (''debug-log-level'', True, CHR ''g''),
      (''syslog'', False, CHR ''y''), (''verbose'', False, CHR ''v''), (''version'', False, CHR ''V''),
      (''sniffer-sysid'', True, CHR ''s'')]"

definition short_options :: string where
  "short_options = ''he:rt:c:d:l:p:g:vV:s:T:y''"

text \<open>Whether a letter is an option, and whether it takes an argument.\<close>

fun short_takes :: "string \<Rightarrow> char \<Rightarrow> bool option" where
  "short_takes [] c = None"
| "short_takes (x # xs) c =
     (if x = c \<and> c \<noteq> CHR '':'' then Some (xs \<noteq> [] \<and> hd xs = CHR '':'') else short_takes xs c)"

text \<open>What \<open>getopt_long\<close> returns for the letters of an argument, with the arguments left after it;
  \<open>CHR ''?''\<close> is its answer to an error.\<close>

fun short_cluster :: "string \<Rightarrow> string list \<Rightarrow> (char \<times> string) list \<times> string list" where
  "short_cluster [] rest = ([], rest)"
| "short_cluster (c # cs) rest =
     (case short_takes short_options c of
        Some True \<Rightarrow>
          (if cs \<noteq> [] then ([(c, cs)], rest)
           else case rest of [] \<Rightarrow> ([(CHR ''?'', [])], []) | a # rest1 \<Rightarrow> ([(c, a)], rest1))
      | r \<Rightarrow>
          (let (opts, rest1) = short_cluster cs rest
           in ((if r = None then CHR ''?'' else c, []) # opts, rest1)))"

definition long_matches :: "string \<Rightarrow> (string \<times> bool \<times> char) list" where
  "long_matches name =
     (let exact = filter (\<lambda>x. fst x = name) long_options
      in if exact \<noteq> [] then exact else filter (\<lambda>x. take (length name) (fst x) = name) long_options)"

definition long_option :: "string \<Rightarrow> string list \<Rightarrow> (char \<times> string) \<times> string list" where
  "long_option s rest =
     (let name = takeWhile (\<lambda>c. c \<noteq> CHR ''='') s; has_value = (CHR ''='' \<in> set s); val = drop (length name + 1) s
      in case long_matches name of
           [(_, True, c)] \<Rightarrow>
             if has_value then ((c, val), rest)
             else (case rest of [] \<Rightarrow> ((CHR ''?'', []), []) | a # rest1 \<Rightarrow> ((c, a), rest1))
         | [(_, False, c)] \<Rightarrow> if has_value then ((CHR ''?'', []), rest) else ((c, []), rest)
         | _ \<Rightarrow> ((CHR ''?'', []), rest))"

lemma short_cluster_le: "length (snd (short_cluster cs rest)) \<le> length rest"
  by (induction cs rest rule: short_cluster.induct) (auto simp: case_prod_unfold Let_def split: option.split bool.split list.split)

lemma long_option_le: "length (snd (long_option s rest)) \<le> length rest"
  by (auto simp: long_option_def Let_def split: list.split bool.split)

text \<open>The options in their order, and the arguments behind them once all are read.\<close>

function getopt_all :: "string list \<Rightarrow> (char \<times> string) list \<times> string list" where
  "getopt_all [] = ([], [])"
| "getopt_all (a # rest) =
     (if a = ''--'' then ([], rest)
      else if take 2 a = ''--'' then
        (let (opt, rest1) = long_option (drop 2 a) rest; (opts, args) = getopt_all rest1 in (opt # opts, args))
      else if take 1 a = ''-'' \<and> length a > 1 then
        (let (opts1, rest1) = short_cluster (tl a) rest; (opts, args) = getopt_all rest1 in (opts1 @ opts, args))
      else (let (opts, args) = getopt_all rest in (opts, a # args)))"
  by pat_completeness auto
termination
proof (relation "measure length", goal_cases)
  case (2 a rest x xa y)
  then show ?case using long_option_le [of "drop 2 a" rest] by (metis in_measure le_imp_less_Suc length_Cons snd_conv)
next
  case (3 a rest x xa y)
  then show ?case using short_cluster_le [of "tl a" rest] by (metis in_measure le_imp_less_Suc length_Cons snd_conv)
qed simp_all

declare getopt_all.simps(2) [simp del]

text \<open>\<open>None\<close>: the version was printed.\<close>

fun pre_parse_opts :: "(char \<times> string) list \<Rightarrow> full_config \<Rightarrow> full_config option" where
  "pre_parse_opts [] config = Some config"
| "pre_parse_opts ((c, arg) # opts) config =
     (if c = CHR ''c'' then pre_parse_opts opts (config\<lparr>conf_file_name := arg\<rparr>)
      else if c = CHR ''d'' then pre_parse_opts opts (config\<lparr>conf_dir := arg\<rparr>)
      else if c = CHR ''y'' then pre_parse_opts opts (config\<lparr>log_backend := Backend_SYSLOG\<rparr>)
      else if c = CHR ''V'' then None
      else pre_parse_opts opts config)"

definition pre_parse_argv :: "string list \<Rightarrow> full_config \<Rightarrow> full_config option" where
  "pre_parse_argv argv config = pre_parse_opts (fst (getopt_all argv)) config"

text \<open>A branch of the switch in \<open>parse_argv\<close>: \<open>Inl\<close> is a return.\<close>

definition parse_opt :: "char \<Rightarrow> string \<Rightarrow> full_config \<Rightarrow> int + full_config" where
  "parse_opt c arg config =
     (if c = CHR ''h'' then Inl 0
      else if c = CHR ''e'' then
        (case split_on_last_colon arg of
           None \<Rightarrow> Inl (- EINVAL)
         | Some (ip, port, _) \<Rightarrow>
             let opt_udp = (default_udp ''CLI'')\<lparr>u_mode := Client\<rparr>;
                 opt_udp1 = opt_udp\<lparr>u_port := if port \<noteq> ULONG_MAX then port else find_next_udp_port (u_address opt_udp) config\<rparr>;
                 opt_udp2 = opt_udp1\<lparr>u_address := ip\<rparr>
             in if \<not> udp_validate_config opt_udp2 then Inl (- EINVAL)
                else Inr (config\<lparr>udp_configs := udp_configs config @ [opt_udp2]\<rparr>))
      else if c = CHR ''r'' then Inr (config\<lparr>report_msg_statistics := True\<rparr>)
      else if c = CHR ''t'' then
        (case safe_atoul arg of Inl _ \<Rightarrow> Inl (- EINVAL) | Inr n \<Rightarrow> Inr (config\<lparr>cfg_tcp_port := n\<rparr>))
      else if c = CHR ''l'' then Inr (config\<lparr>log_config := (log_config config)\<lparr>logs_dir := arg\<rparr>\<rparr>)
      else if c = CHR ''T'' then Inr (config\<lparr>log_config := (log_config config)\<lparr>log_telemetry := True\<rparr>\<rparr>)
      else if c = CHR ''g'' then
        (case log_level_from_str arg of None \<Rightarrow> Inl (- EINVAL) | Some l \<Rightarrow> Inr (config\<lparr>debug_log_level := l\<rparr>))
      else if c = CHR ''v'' then Inr (config\<lparr>debug_log_level := Level_DEBUG\<rparr>)
      else if c = CHR ''s'' then
        (let id = word_of_int (atoi arg) :: u16
         in if id = 0 \<or> id > 255 then Inl (- EINVAL) else Inr (config\<lparr>cfg_sniffer_sysid := ucast id\<rparr>))
      else if c = CHR ''p'' then
        (case split_on_last_colon arg of
           None \<Rightarrow> Inl (- EINVAL)
         | Some (ip, port, _) \<Rightarrow>
             let opt_tcp = (default_tcp ''CLI'')\<lparr>t_port := port, t_address := ip\<rparr>
             in if port = ULONG_MAX \<or> \<not> tcp_validate_config opt_tcp then Inl (- EINVAL)
                else Inr (config\<lparr>tcp_configs := tcp_configs config @ [opt_tcp]\<rparr>))
      else if c \<in> {CHR ''c'', CHR ''d'', CHR ''y'', CHR ''V''} then Inr config
      else Inl (- EINVAL))"

fun parse_opts :: "(char \<times> string) list \<Rightarrow> full_config \<Rightarrow> int + full_config" where
  "parse_opts [] config = Inr config"
| "parse_opts ((c, arg) # opts) config =
     (case parse_opt c arg config of Inl ret \<Rightarrow> Inl ret | Inr config1 \<Rightarrow> parse_opts opts config1)"

definition parse_positional :: "proc_env \<Rightarrow> string \<Rightarrow> full_config \<Rightarrow> int + full_config" where
  "parse_positional env arg config =
     (case split_on_last_colon arg of
        None \<Rightarrow> Inl (- EINVAL)
      | Some (base, number, tail) \<Rightarrow>
          if \<not> pe_chardev env base then
            (let opt_udp = (default_udp ''CLI'')\<lparr>u_mode := Server, u_port := number, u_address := base\<rparr>
             in if number = ULONG_MAX \<or> \<not> udp_validate_config opt_udp then Inl (- EINVAL)
                else Inr (config\<lparr>udp_configs := udp_configs config @ [opt_udp]\<rparr>))
          else
            let opt_uart = (default_uart ''CLI'')\<lparr>device := base,
                  c_baudrates := [if number \<noteq> ULONG_MAX then word_of_int (atoi tail) else DEFAULT_BAUDRATE]\<rparr>
            in Inr (config\<lparr>uart_configs := uart_configs config @ [opt_uart]\<rparr>))"

fun parse_positionals :: "proc_env \<Rightarrow> string list \<Rightarrow> full_config \<Rightarrow> int + full_config" where
  "parse_positionals env [] config = Inr config"
| "parse_positionals env (a # args) config =
     (case parse_positional env a config of Inl ret \<Rightarrow> Inl ret | Inr config1 \<Rightarrow> parse_positionals env args config1)"

text \<open>\<open>Inr\<close> is the return of 2.\<close>

definition parse_argv :: "proc_env \<Rightarrow> string list \<Rightarrow> full_config \<Rightarrow> int + full_config" where
  "parse_argv env argv config =
     (let (opts, args) = getopt_all argv
      in case parse_opts opts config of Inl ret \<Rightarrow> Inl ret | Inr config1 \<Rightarrow> parse_positionals env args config1)"

section \<open>Configuration files\<close>

definition get_conf_file_name :: "proc_env \<Rightarrow> full_config \<Rightarrow> string" where
  "get_conf_file_name env config =
     (if conf_file_name config \<noteq> [] then conf_file_name config
      else case pe_getenv env ''MAVLINK_ROUTERD_CONF_FILE'' of Some s \<Rightarrow> s | None \<Rightarrow> ''/etc/mavlink-router/main.conf'')"

definition get_conf_dir :: "proc_env \<Rightarrow> full_config \<Rightarrow> string" where
  "get_conf_dir env config =
     (if conf_dir config \<noteq> [] then conf_dir config
      else case pe_getenv env ''MAVLINK_ROUTERD_CONF_DIR'' of Some s \<Rightarrow> s | None \<Rightarrow> ''/etc/mavlink-router/config.d'')"

text \<open>The loops over \<open>get_sections\<close>, with their bodies as arguments.\<close>

partial_function (option) each_section ::
  "string \<Rightarrow> conf \<Rightarrow> (section_iter \<Rightarrow> full_config \<Rightarrow> (int \<times> full_config) option) \<Rightarrow> section_iter \<Rightarrow> full_config
   \<Rightarrow> (int \<times> full_config) option" where
  "each_section pattern c body iter config =
     (case get_sections pattern iter c of
        None \<Rightarrow> None
      | Some (r, iter1) \<Rightarrow>
          if r \<noteq> 0 then Some (0, config)
          else
            (case body iter1 config of
               None \<Rightarrow> None
             | Some (ret, config1) \<Rightarrow> if ret \<noteq> 0 then Some (ret, config1) else each_section pattern c body iter1 config1))"

declare each_section.simps [code]

abbreviation uart_pattern :: string where "uart_pattern \<equiv> ''uartendpoint *''"
abbreviation udp_pattern :: string where "udp_pattern \<equiv> ''udpendpoint *''"
abbreviation tcp_pattern :: string where "tcp_pattern \<equiv> ''tcpendpoint *''"

definition add_uart_section :: "conf \<Rightarrow> section_iter \<Rightarrow> full_config \<Rightarrow> (int \<times> full_config) option" where
  "add_uart_section c iter config =
     (case extract_options_iter iter uart_option_table (default_uart (drop (length uart_pattern - 1) (iter_name iter))) c of
        None \<Rightarrow> None
      | Some (ret, opt_uart) \<Rightarrow>
          if ret \<noteq> 0 then Some (ret, config)
          else
            let opt_uart1 = (if c_baudrates opt_uart = [] then opt_uart\<lparr>c_baudrates := [DEFAULT_BAUDRATE]\<rparr> else opt_uart)
            in if \<not> uart_validate_config opt_uart1 then Some (- EINVAL, config)
               else Some (0, config\<lparr>uart_configs := uart_configs config @ [opt_uart1]\<rparr>))"

definition add_udp_section :: "conf \<Rightarrow> section_iter \<Rightarrow> full_config \<Rightarrow> (int \<times> full_config) option" where
  "add_udp_section c iter config =
     (case extract_options_iter iter udp_option_table
             ((default_udp (drop (length udp_pattern - 1) (iter_name iter)))\<lparr>u_port := ULONG_MAX\<rparr>) c of
        None \<Rightarrow> None
      | Some (ret, opt_udp) \<Rightarrow>
          if ret \<noteq> 0 then Some (ret, config)
          else
            let opt_udp1 = (if u_mode opt_udp = Client \<and> u_port opt_udp = ULONG_MAX
                            then opt_udp\<lparr>u_port := find_next_udp_port (u_address opt_udp) config\<rparr> else opt_udp)
            in if \<not> udp_validate_config opt_udp1 then Some (- EINVAL, config)
               else Some (0, config\<lparr>udp_configs := udp_configs config @ [opt_udp1]\<rparr>))"

definition add_tcp_section :: "conf \<Rightarrow> section_iter \<Rightarrow> full_config \<Rightarrow> (int \<times> full_config) option" where
  "add_tcp_section c iter config =
     (case extract_options_iter iter tcp_option_table
             ((default_tcp (drop (length tcp_pattern - 1) (iter_name iter)))\<lparr>t_port := ULONG_MAX\<rparr>) c of
        None \<Rightarrow> None
      | Some (ret, opt_tcp) \<Rightarrow>
          if ret \<noteq> 0 then Some (ret, config)
          else if \<not> tcp_validate_config opt_tcp then Some (- EINVAL, config)
          else Some (0, config\<lparr>tcp_configs := tcp_configs config @ [opt_tcp]\<rparr>))"

abbreviation iter0 :: section_iter where "iter0 \<equiv> \<lparr>iter_name = [], iter_ptr = None\<rparr>"

definition parse_general :: "conf \<Rightarrow> full_config \<Rightarrow> (int \<times> full_config) option" where
  "parse_general c config =
     do {
       (ret, config1) \<leftarrow> extract_options ''General'' global_option_table config c;
       if ret < 0 then Some (ret, config1)
       else do {
         (ret2, log) \<leftarrow> extract_options ''General'' log_option_table (log_config config1) c;
         Some (ret2, config1\<lparr>log_config := log\<rparr>)
       }
     }"

definition parse_confs :: "conf \<Rightarrow> full_config \<Rightarrow> (int \<times> full_config) option" where
  "parse_confs c config =
     do {
       (ret, config1) \<leftarrow> parse_general c config;
       if ret < 0 then Some (ret, config1)
       else do {
         (ret1, config2) \<leftarrow> each_section uart_pattern c (add_uart_section c) iter0 config1;
         if ret1 \<noteq> 0 then Some (ret1, config2)
         else do {
           (ret2, config3) \<leftarrow> each_section udp_pattern c (add_udp_section c) iter0 config2;
           if ret2 \<noteq> 0 then Some (ret2, config3)
           else each_section tcp_pattern c (add_tcp_section c) iter0 config3
         }
       }
     }"

text \<open>The loop over a directory: the regular files, or an error; the array has 128 places, and the
  check against its size comes after the write.\<close>

fun gather_files :: "string \<Rightarrow> string list \<Rightarrow> string list \<Rightarrow> fsys \<Rightarrow> ((int + string list) \<times> fsys) option" where
  "gather_files dirname [] files fs = Some (Inr files, fs)"
| "gather_files dirname (n # names) files fs =
     (if length (join_path dirname n) \<ge> PATH_MAX then Some (Inl (- EINVAL), fs)
      else case fs_stat (join_path dirname n) fs of
             (Inr (File _), fs1) \<Rightarrow>
               if length files \<ge> 128 then None else gather_files dirname names (files @ [join_path dirname n]) fs1
           | (_, fs1) \<Rightarrow> gather_files dirname names files fs1)"

fun parse_all :: "string list \<Rightarrow> fsys \<Rightarrow> conf \<Rightarrow> int \<times> conf \<times> fsys" where
  "parse_all [] fs c = (0, c, fs)"
| "parse_all (f # files) fs c =
     (case ConfFile_parse f fs c of (ret, c1, fs1) \<Rightarrow> if ret < 0 then (ret, c1, fs1) else parse_all files fs1 c1)"

definition read_conf_dir :: "string \<Rightarrow> fsys \<Rightarrow> conf \<Rightarrow> (int \<times> conf \<times> fsys) option" where
  "read_conf_dir dirname fs c =
     (case fs_readdir dirname fs of
        (Inl _, fs1) \<Rightarrow> Some (0, c, fs1)
      | (Inr names, fs1) \<Rightarrow>
          do {
            (r, fs2) \<leftarrow> gather_files dirname names [] fs1;
            Some (case r of Inl ret \<Rightarrow> (ret, c, fs2) | Inr files \<Rightarrow> parse_all (sort files) fs2 c)
          })"

definition parse_conf_files :: "proc_env \<Rightarrow> fsys \<Rightarrow> full_config \<Rightarrow> (int \<times> full_config \<times> fsys) option" where
  "parse_conf_files env fs config =
     (let (ret, c1, fs1) = ConfFile_parse (get_conf_file_name env config) fs ConfFile_init
      in if ret < 0 \<and> ret \<noteq> - ENOENT then Some (ret, config, fs1)
         else do {
           (ret1, c2, fs2) \<leftarrow> read_conf_dir (get_conf_dir env config) fs1 c1;
           if ret1 < 0 then Some (ret1, config, fs2)
           else do { (ret2, config1) \<leftarrow> parse_confs c2 config; Some (ret2, config1, fs2) }
         })"

section \<open>Where a section was read from\<close>

text \<open>The list of files in the message about a required field that is missing; it has 128 places.\<close>

fun list_filenames :: "config list \<Rightarrow> string list \<Rightarrow> log_state \<Rightarrow> log_state" where
  "list_filenames [] files g = g"
| "list_filenames (c # cs) files g =
     (if cfg_filename c \<in> set files then list_filenames cs files g
      else if length files = 128 then logv Level_ERROR ([CHR 0x09] @ ''and others.'') g
      else list_filenames cs (files @ [cfg_filename c]) (logv Level_ERROR (CHR 0x09 # cfg_filename c) g))"

definition print_filenames :: "conf_section \<Rightarrow> log_state \<Rightarrow> log_state" where
  "print_filenames s g = (if max_level g < Level_ERROR then g else list_filenames (sec_configs s) [] g)"

section \<open>The process\<close>

text \<open>\<open>main\<close> up to the loop: the exit code, or the configuration and the main loop with its recorders.\<close>

datatype start_result =
    Exited nat
  | Started full_config system

definition start_main :: "loglib \<Rightarrow> proc_env \<Rightarrow> string list \<Rightarrow> log_env \<Rightarrow> start_result option" where
  "start_main L env argv lenv =
     (case ml_init (le_ml lenv) of
        None \<Rightarrow> None
      | Some s0 \<Rightarrow>
     (case pre_parse_argv argv default_config of
        None \<Rightarrow> Some (Exited 0)
      | Some config \<Rightarrow>
          (case parse_conf_files env (le_fs lenv) config of
             None \<Rightarrow> None
           | Some (ret, config1, fs1) \<Rightarrow>
               if ret < 0 then Some (Exited 1)
               else
                 (case parse_argv env argv config1 of
                    Inl _ \<Rightarrow> Some (Exited 1)
                  | Inr config2 \<Rightarrow>
                      let (r, s1) = ml_open s0
                      in if r < 0 then Some (Exited 1)
                         else
                           let (ok, y) = sys_add_endpoints L (configuration.truncate config2) (log_config config2)
                                 (lenv\<lparr>le_ml := s1, le_fs := fs1\<rparr>)
                           in Some (if ok then Started config2 y else Exited 1)))))"

text \<open>What \<open>main\<close> itself does to the log: it opens it with the back end of the command line, shows the version of the build and sets the level once all
  settings are read. \<open>tty\<close> says whether the error output is a terminal. Lines that the parsers write are not in it.\<close>

definition main_log :: "string \<Rightarrow> bool \<Rightarrow> proc_env \<Rightarrow> string list \<Rightarrow> fsys \<Rightarrow> log_state" where
  "main_log BUILD_VERSION tty env argv fs =
     (case pre_parse_argv argv default_config of
        None \<Rightarrow> log_init
      | Some config \<Rightarrow>
          let g = logv Level_INFO (''mavlink-router version '' @ BUILD_VERSION) (snd (log_open (log_backend config) tty log_init))
          in case parse_conf_files env fs config of
               None \<Rightarrow> g
             | Some (ret, config1, _) \<Rightarrow>
                 if ret < 0 then g
                 else (case parse_argv env argv config1 of Inl _ \<Rightarrow> g | Inr config2 \<Rightarrow> set_max_level (debug_log_level config2) g))"

text \<open>\<open>main\<close>: its exit status, where the loop runs on rounds of events.\<close>

definition router_main :: "loglib \<Rightarrow> (bytes \<Rightarrow> u64) \<Rightarrow> event list list \<Rightarrow> proc_env \<Rightarrow> string list \<Rightarrow> log_env \<Rightarrow> nat option" where
  "router_main L H rounds env argv lenv =
     (case start_main L env argv lenv of
        None \<Rightarrow> None
      | Some (Exited code) \<Rightarrow> Some code
      | Some (Started _ y) \<Rightarrow>
          (case sys_loop L H rounds y of None \<Rightarrow> None | Some (r, _) \<Rightarrow> Some (if r \<noteq> 0 then 1 else 0)))"

end
