(* ===== verification/OptionsFacts.thy ===== *)
theory OptionsFacts
  imports Options EventFacts
begin

text \<open>
  Facts about the options: the loops over the sections are traversals and end, what the files and the
  command line say reaches the configuration in the order of precedence, and only endpoints that passed
  their check are accepted.
\<close>

text \<open>The loops over the sections are traversals of the list.\<close>

fun run_sections ::
  "string \<Rightarrow> (section_iter \<Rightarrow> full_config \<Rightarrow> (int \<times> full_config) option) \<Rightarrow> conf_section list \<Rightarrow> full_config \<Rightarrow> (int \<times> full_config) option" where
  "run_sections pattern body [] config = Some (0, config)"
| "run_sections pattern body (s # ss) config =
     (if fnmatch pattern (c_str (sec_name s)) then
        (case body \<lparr>iter_name = sec_name s, iter_ptr = Some (sec_addr s)\<rparr> config of
           None \<Rightarrow> None
         | Some (ret, config1) \<Rightarrow> if ret \<noteq> 0 then Some (ret, config1) else run_sections pattern body ss config1)
      else run_sections pattern body ss config)"

definition names_fit :: "conf \<Rightarrow> bool" where
  "names_fit c \<longleftrightarrow> list_all (\<lambda>s. length (sec_name s) < MAX_SECTION_NAME) (conf_sections c)"

definition iter_before :: "conf \<Rightarrow> section_iter \<Rightarrow> conf_section list \<Rightarrow> bool" where
  "iter_before c iter ss \<longleftrightarrow>
     (case iter_ptr iter of
        None \<Rightarrow> ss = conf_sections c
      | Some p \<Rightarrow> \<exists>pre s. conf_sections c = pre @ s # ss \<and> sec_addr s = p)"

lemma dropWhile_to: "\<forall>x\<in>set pre. P x \<Longrightarrow> \<not> P s \<Longrightarrow> dropWhile P (pre @ s # ss) = s # ss"
  by (induction pre) auto

lemma get_sections_before:
  assumes "distinct (map sec_addr (conf_sections c))" "iter_before c iter ss"
  shows "get_sections pattern iter c = search_sections pattern ss"
proof (cases "iter_ptr iter")
  case (Some p)
  then obtain pre s where s: "conf_sections c = pre @ s # ss" "sec_addr s = p" using assms(2) by (auto simp: iter_before_def)
  then have "dropWhile (\<lambda>s. sec_addr s \<noteq> p) (conf_sections c) = s # ss"
    using assms(1) by (simp add: s(1)) (rule dropWhile_to, auto simp: image_iff)
  then show ?thesis using Some by (simp add: get_sections_def)
qed (use assms(2) in \<open>simp add: get_sections_def iter_before_def\<close>)

lemma search_sections_cases:
  assumes "list_all (\<lambda>s. length (sec_name s) < MAX_SECTION_NAME) ss"
  obtains (found) nm s ss' where "ss = nm @ s # ss'" "\<forall>x\<in>set nm. \<not> fnmatch pattern (c_str (sec_name x))" "fnmatch pattern (c_str (sec_name s))"
      "search_sections pattern ss = Some (0, \<lparr>iter_name = sec_name s, iter_ptr = Some (sec_addr s)\<rparr>)"
  | (none) "\<forall>x\<in>set ss. \<not> fnmatch pattern (c_str (sec_name x))" "\<exists>r it. search_sections pattern ss = Some (r, it) \<and> r \<noteq> 0"
  using assms
proof (induction ss arbitrary: thesis)
  case (Cons s ss)
  show ?case
  proof (cases "fnmatch pattern (c_str (sec_name s))")
    case True
    then show ?thesis using Cons.prems(1) [of "[]" s ss] Cons.prems(3) by simp
  next
    case False
    then have e: "search_sections pattern (s # ss) = search_sections pattern ss" using Cons.prems(3) by simp
    show ?thesis
    proof (rule Cons.IH)
      show "list_all (\<lambda>s. length (sec_name s) < MAX_SECTION_NAME) ss" using Cons.prems(3) by simp
      show thesis if "ss = nm @ t # ss'" "\<forall>x\<in>set nm. \<not> fnmatch pattern (c_str (sec_name x))" "fnmatch pattern (c_str (sec_name t))"
        "search_sections pattern ss = Some (0, \<lparr>iter_name = sec_name t, iter_ptr = Some (sec_addr t)\<rparr>)" for nm t ss'
        using Cons.prems(1) [of "s # nm" t ss'] that False e by simp
      show thesis if "\<forall>x\<in>set ss. \<not> fnmatch pattern (c_str (sec_name x))" "\<exists>r it. search_sections pattern ss = Some (r, it) \<and> r \<noteq> 0"
        using Cons.prems(2) that False e by simp
    qed
  qed
qed simp

lemma run_sections_skip:
  "\<forall>x\<in>set nm. \<not> fnmatch pattern (c_str (sec_name x)) \<Longrightarrow> run_sections pattern body (nm @ ss) config = run_sections pattern body ss config"
  by (induction nm) auto

lemma each_section_run:
  assumes "distinct (map sec_addr (conf_sections c))" "list_all (\<lambda>s. length (sec_name s) < MAX_SECTION_NAME) ss" "iter_before c iter ss"
  shows "each_section pattern c body iter config = run_sections pattern body ss config"
  using assms
proof (induction "length ss" arbitrary: ss iter config rule: less_induct)
  case less
  note g = get_sections_before [OF assms(1) less.prems(3), of pattern]
  from less.prems(2) show ?case
  proof (cases rule: search_sections_cases [of _ pattern])
    case (found nm s ss')
    let ?it = "\<lparr>iter_name = sec_name s, iter_ptr = Some (sec_addr s)\<rparr>"
    have ib: "iter_before c ?it ss'"
    proof (cases "iter_ptr iter")
      case None
      then have "conf_sections c = nm @ s # ss'" using less.prems(3) found(1) by (simp add: iter_before_def)
      then show ?thesis by (auto simp: iter_before_def)
    next
      case (Some p)
      then obtain pre t where "conf_sections c = pre @ t # ss" using less.prems(3) by (auto simp: iter_before_def)
      then have "conf_sections c = (pre @ t # nm) @ s # ss'" using found(1) by simp
      then show ?thesis by (auto simp: iter_before_def)
    qed
    have l: "length ss' < length ss" "list_all (\<lambda>s. length (sec_name s) < MAX_SECTION_NAME) ss'" using found(1) less.prems(2) by simp_all
    have IH: "each_section pattern c body ?it config1 = run_sections pattern body ss' config1" for config1
      by (rule less.hyps [OF l(1) assms(1) l(2) ib])
    have "run_sections pattern body ss config = run_sections pattern body (s # ss') config"
      using found(1) run_sections_skip [OF found(2)] by simp
    then show ?thesis
      unfolding each_section.simps [of pattern c body iter] g found(4)
      using found(3) by (simp add: IH split: option.split)
  next
    case none
    then have "run_sections pattern body ss config = Some (0, config)" using run_sections_skip [of ss pattern body "[]" config] by simp
    then show ?thesis using none(2) unfolding each_section.simps [of pattern c body iter] g by auto
  qed
qed

text \<open>Extraction returns.\<close>

lemma field_option_simps [simp]:
  "ot_key (field_option k r p n g u) = k" "ot_required (field_option k r p n g u) = r"
  "ot_parser (field_option k r p n g u) v d = None \<longleftrightarrow> p n v (g d) = None"
  by (auto simp: field_option_def split: option.split)

definition total_parser :: "(nat \<Rightarrow> string \<Rightarrow> 'v \<Rightarrow> (int \<times> 'v) option) \<Rightarrow> bool" where
  "total_parser p \<longleftrightarrow> (\<forall>n v x. v \<noteq> [] \<longrightarrow> p n v x \<noteq> None)"

lemma total_parsers:
  "total_parser parse_stdstring" "total_parser parse_uint8_vector" "total_parser parse_uint32_vector" "total_parser parse_i"
  "total_parser parse_ul" "total_parser parse_bool" "total_parser parse_log_mode" "total_parser parse_mavlink_dialect"
  "total_parser parse_fcu_id" "total_parser parse_udp_mode" "total_parser parse_log_level"
  by (auto simp: total_parser_def parse_stdstring_def parse_uint8_vector_def parse_uint32_vector_def parse_i_def parse_ul_def
      parse_bool_def parse_log_mode_def parse_mavlink_dialect_def parse_fcu_id_def parse_udp_mode_def parse_log_level_def
      split: option.split sum.split)

text \<open>No pair of a throttling list is made of commas.\<close>

definition pairs_ok :: "string \<Rightarrow> bool" where
  "pairs_ok val \<longleftrightarrow> (\<forall>token\<in>set (strtok_on (CHR '';'') (c_str val)). strtok_on (CHR '','') token \<noteq> [])"

lemma push_pairs_total: "\<forall>token\<in>set ts. strtok_on (CHR '','') token \<noteq> [] \<Longrightarrow> push_pairs ts x \<noteq> None"
  by (induction ts x rule: push_pairs.induct) (auto split: list.split)

lemma parse_pair_vector_total: "v \<noteq> [] \<Longrightarrow> pairs_ok v \<Longrightarrow> parse_pair_vector n v x \<noteq> None"
  using push_pairs_total by (simp add: parse_pair_vector_def pairs_ok_def)

definition total_entry :: "'d option_entry \<Rightarrow> bool" where
  "total_entry t \<longleftrightarrow> (\<forall>v d. v \<noteq> [] \<longrightarrow> (ot_key t = ''MsgThrottling'' \<longrightarrow> pairs_ok v) \<longrightarrow> ot_parser t v d \<noteq> None)"

lemma total_field: "total_parser p \<Longrightarrow> total_entry (field_option k r p n g u)"
  by (simp add: total_entry_def total_parser_def)

lemma total_throttling: "total_entry (field_option ''MsgThrottling'' r parse_pair_vector n g u)"
  by (simp add: total_entry_def parse_pair_vector_total)

lemmas total_entries = total_field [OF total_parsers(1)] total_field [OF total_parsers(2)] total_field [OF total_parsers(3)]
  total_field [OF total_parsers(4)] total_field [OF total_parsers(5)] total_field [OF total_parsers(6)] total_field [OF total_parsers(7)]
  total_field [OF total_parsers(8)] total_field [OF total_parsers(9)] total_field [OF total_parsers(10)] total_field [OF total_parsers(11)]
  total_throttling

lemma total_tables:
  "list_all total_entry uart_option_table" "list_all total_entry udp_option_table" "list_all total_entry tcp_option_table"
  "list_all total_entry log_option_table" "list_all total_entry global_option_table"
  by (simp_all add: uart_option_table_def udp_option_table_def tcp_option_table_def log_option_table_def global_option_table_def
      filter_options_def throttle_options_def total_entries)

definition throttling_ok :: "conf \<Rightarrow> bool" where
  "throttling_ok c \<longleftrightarrow> (\<forall>s\<in>set (conf_sections c). \<forall>q. find_config ''MsgThrottling'' (sec_configs s) = Some q \<longrightarrow> pairs_ok (cfg_value q))"

lemma extract_returns:
  assumes "section_wf s" "\<And>q. find_config ''MsgThrottling'' (sec_configs s) = Some q \<Longrightarrow> pairs_ok (cfg_value q)" "list_all total_entry table"
  shows "extract_from_section (sec_configs s) table data \<noteq> None"
  using assms(3)
proof (induction table arbitrary: data)
  case (Cons t table)
  show ?case
  proof (cases "find_config (ot_key t) (sec_configs s)")
    case (Some q)
    have "cfg_value q \<noteq> []" using find_config_wf [OF assms(1) Some] by simp
    moreover have "ot_key t = ''MsgThrottling'' \<longrightarrow> pairs_ok (cfg_value q)" using assms(2) Some by auto
    moreover have "total_entry t" using Cons.prems by simp
    ultimately have "ot_parser t (cfg_value q) data \<noteq> None" by (simp add: total_entry_def)
    then obtain r d where "ot_parser t (cfg_value q) data = Some (r, d)" by auto
    then show ?thesis using Some Cons by auto
  qed (use Cons in auto)
qed simp

lemma extract_iter_returns:
  assumes "conf_wf c" "throttling_ok c" "s \<in> set (conf_sections c)" "iter_ptr it = Some (sec_addr s)" "list_all total_entry table"
  shows "extract_options_iter it table data c \<noteq> None"
proof -
  have "\<exists>x. find (\<lambda>s. Some (sec_addr s) = iter_ptr it) (conf_sections c) = Some x" using assms(3,4) by (auto simp: find_None_iff simp flip: not_None_eq)
  then obtain x where x: "find (\<lambda>s. Some (sec_addr s) = iter_ptr it) (conf_sections c) = Some x" by blast
  then have i: "x \<in> set (conf_sections c)" by (auto simp: find_Some_iff)
  then have "section_wf x" using assms(1) by (auto simp: conf_wf_def list_all_iff)
  moreover have "\<And>q. find_config ''MsgThrottling'' (sec_configs x) = Some q \<Longrightarrow> pairs_ok (cfg_value q)" using assms(2) i by (auto simp: throttling_ok_def)
  ultimately show ?thesis using extract_returns [of x table data] assms(5) by (simp add: extract_options_iter_def x)
qed

lemma run_sections_returns:
  assumes "\<And>s config. s \<in> set ss \<Longrightarrow> body \<lparr>iter_name = sec_name s, iter_ptr = Some (sec_addr s)\<rparr> config \<noteq> None"
  shows "run_sections pattern body ss config \<noteq> None"
  using assms
proof (induction ss arbitrary: config)
  case (Cons s ss)
  have "body \<lparr>iter_name = sec_name s, iter_ptr = Some (sec_addr s)\<rparr> config \<noteq> None" by (rule Cons.prems) simp
  then obtain r config1 where "body \<lparr>iter_name = sec_name s, iter_ptr = Some (sec_addr s)\<rparr> config = Some (r, config1)" by auto
  moreover have "run_sections pattern body ss config2 \<noteq> None" for config2 using Cons.prems by (intro Cons.IH) simp
  ultimately show ?case by simp
qed simp

definition all_valid :: "full_config \<Rightarrow> bool" where
  "all_valid config \<longleftrightarrow> list_all uart_validate_config (uart_configs config) \<and> list_all udp_validate_config (udp_configs config)
     \<and> list_all tcp_validate_config (tcp_configs config)"

lemma add_section_returns:
  assumes "conf_wf c" "throttling_ok c" "s \<in> set (conf_sections c)"
  defines "it \<equiv> \<lparr>iter_name = sec_name s, iter_ptr = Some (sec_addr s)\<rparr>"
  shows "add_uart_section c it config \<noteq> None" "add_udp_section c it config \<noteq> None" "add_tcp_section c it config \<noteq> None"
proof -
  note e = extract_iter_returns [OF assms(1-3), of it]
  have p: "iter_ptr it = Some (sec_addr s)" by (simp add: it_def)
  show "add_uart_section c it config \<noteq> None"
    using e [OF p total_tables(1)] by (auto simp: add_uart_section_def Let_def split: option.split)
  show "add_udp_section c it config \<noteq> None"
    using e [OF p total_tables(2)] by (auto simp: add_udp_section_def Let_def split: option.split)
  show "add_tcp_section c it config \<noteq> None"
    using e [OF p total_tables(3)] by (auto simp: add_tcp_section_def Let_def split: option.split)
qed

lemma each_section_eq:
  assumes "conf_wf c" "names_fit c"
  shows "each_section pattern c body iter0 config = run_sections pattern body (conf_sections c) config"
  using assms by (intro each_section_run) (auto simp: conf_wf_def names_fit_def iter_before_def)

lemma parse_general_returns:
  assumes "conf_wf c" "throttling_ok c"
  shows "parse_general c config \<noteq> None"
proof -
  have x: "extract_options n table data c \<noteq> None" if "list_all total_entry table" for n table and data :: 'd
  proof (cases "find_section n c")
    case (Some s)
    then have "s \<in> set (conf_sections c)" by (auto simp: find_section_def find_Some_iff)
    then have "section_wf s" "\<And>q. find_config ''MsgThrottling'' (sec_configs s) = Some q \<Longrightarrow> pairs_ok (cfg_value q)"
      using assms by (auto simp: conf_wf_def list_all_iff throttling_ok_def)
    from extract_returns [OF this that] Some show ?thesis by (simp add: extract_options_def)
  qed (simp add: extract_options_def)
  obtain r config1 where "extract_options ''General'' global_option_table config c = Some (r, config1)"
    using x [OF total_tables(5)] by (metis not_None_eq surj_pair)
  moreover obtain r2 l where "extract_options ''General'' log_option_table (log_config config1) c = Some (r2, l)"
    using x [OF total_tables(4)] by (metis not_None_eq surj_pair)
  ultimately show ?thesis by (simp add: parse_general_def)
qed

text \<open>C26: reading the settings ends: for every configuration the parser builds, unless a section name has
  the full 100 characters or a throttling list has a pair of commas, \<open>parse_confs\<close> returns; the loop over
  the sections of a kind, driven by an iterator, is the traversal of the sections whose name matches.\<close>

theorem parse_confs_returns:
  assumes "conf_wf c" "names_fit c" "throttling_ok c"
  shows "(\<exists>ret config1. parse_confs c config = Some (ret, config1))
    \<and> each_section pattern c body iter0 config = run_sections pattern body (conf_sections c) config"
proof -
  note e = each_section_eq [OF assms(1,2)]
  note r = run_sections_returns [of "conf_sections c"]
  obtain r0 config1 where g: "parse_general c config = Some (r0, config1)" using parse_general_returns [OF assms(1,3)] by (metis not_None_eq surj_pair)
  have u: "run_sections uart_pattern (add_uart_section c) (conf_sections c) x \<noteq> None"
    "run_sections udp_pattern (add_udp_section c) (conf_sections c) x \<noteq> None"
    "run_sections tcp_pattern (add_tcp_section c) (conf_sections c) x \<noteq> None" for x
    by (intro r add_section_returns [OF assms(1,3)], assumption)+
  obtain r1 c2 where u1: "run_sections uart_pattern (add_uart_section c) (conf_sections c) config1 = Some (r1, c2)" using u(1) by fastforce
  obtain r2 c3 where u2: "run_sections udp_pattern (add_udp_section c) (conf_sections c) c2 = Some (r2, c3)" using u(2) by fastforce
  obtain r3 c4 where u3: "run_sections tcp_pattern (add_tcp_section c) (conf_sections c) c3 = Some (r3, c4)" using u(3) by fastforce
  have "parse_confs c config \<noteq> None"
    using g u1 u2 u3 by (simp add: parse_confs_def e)
  then show ?thesis using e by auto
qed

text \<open>The endpoints of a configuration are valid.\<close>

lemma all_valid_add:
  "all_valid (config\<lparr>uart_configs := uart_configs config @ [u]\<rparr>) \<longleftrightarrow> all_valid config \<and> uart_validate_config u"
  "all_valid (config\<lparr>udp_configs := udp_configs config @ [v]\<rparr>) \<longleftrightarrow> all_valid config \<and> udp_validate_config v"
  "all_valid (config\<lparr>tcp_configs := tcp_configs config @ [w]\<rparr>) \<longleftrightarrow> all_valid config \<and> tcp_validate_config w"
  by (auto simp: all_valid_def)

lemma add_section_valid:
  "add_uart_section c it config = Some (r, config1) \<Longrightarrow> all_valid config \<Longrightarrow> all_valid config1"
  "add_udp_section c it config = Some (r, config1) \<Longrightarrow> all_valid config \<Longrightarrow> all_valid config1"
  "add_tcp_section c it config = Some (r, config1) \<Longrightarrow> all_valid config \<Longrightarrow> all_valid config1"
  by (auto simp: add_uart_section_def add_udp_section_def add_tcp_section_def Let_def all_valid_add split: option.splits if_splits)

lemma each_section_invariant:
  assumes "\<And>it config r config1. body it config = Some (r, config1) \<Longrightarrow> P config \<Longrightarrow> P config1"
    and "each_section pattern c body it config = Some y" "P config"
  shows "P (snd y)"
proof -
  have "each_section pattern c body it config = Some y \<Longrightarrow>
    (\<forall>it config r config1. body it config = Some (r, config1) \<longrightarrow> P config \<longrightarrow> P config1) \<longrightarrow> P config \<longrightarrow> P (snd y)"
  proof (rule each_section.raw_induct [where P = "\<lambda>pattern c body it config y.
      (\<forall>it config r config1. body it config = Some (r, config1) \<longrightarrow> P config \<longrightarrow> P config1) \<longrightarrow> P config \<longrightarrow> P (snd y)"], goal_cases)
    case (1 f pattern c body it config y)
    show ?case
    proof (intro impI)
      assume B: "\<forall>it config r config1. body it config = Some (r, config1) \<longrightarrow> P config \<longrightarrow> P config1" and p: "P config"
      from 1(3) show "P (snd y)"
      proof (cases "get_sections pattern it c")
        case (Some x)
        obtain r it1 where x: "x = (r, it1)" by (cases x)
        show ?thesis
        proof (cases "r = 0")
          case True
          then obtain ret config1 where b: "body it1 config = Some (ret, config1)" using 1(3) Some x by (auto split: option.splits)
          then have p1: "P config1" using B p by blast
          show ?thesis
          proof (cases "ret = 0")
            case True
            then have "f pattern c body it1 config1 = Some y" using 1(3) Some x \<open>r = 0\<close> b by simp
            then show ?thesis using 1(2) B p1 by blast
          qed (use 1(3) Some x \<open>r = 0\<close> b p1 in auto)
        qed (use 1(3) Some x p in auto)
      qed simp
    qed
  qed
  then show ?thesis using assms by blast
qed

lemma extract_section_invariant:
  assumes "\<And>t v d r d1. t \<in> set table \<Longrightarrow> ot_parser t v d = Some (r, d1) \<Longrightarrow> P d \<Longrightarrow> P d1" "P data"
    and "extract_from_section cs table data = Some (r, data1)"
  shows "P data1"
  using assms
proof (induction table arbitrary: data)
  case (Cons t table)
  have step: "P d1" if "ot_parser t v d = Some (x, d1)" "P d" for v d x d1 using Cons.prems(1) [of t v d x d1] that by simp
  have IH: "P data1" if "P d" "extract_from_section cs table d = Some (r, data1)" for d
    using Cons.IH [OF _ that] Cons.prems(1) by (meson list.set_intros(2))
  show ?case
  proof (cases "find_config (ot_key t) cs")
    case None
    then show ?thesis using Cons.prems(2,3) IH by (auto split: if_splits)
  next
    case (Some q)
    then obtain x d1 where x: "ot_parser t (cfg_value q) data = Some (x, d1)" using Cons.prems(3) by (auto split: option.splits)
    then have "P d1" using step Cons.prems(2) by blast
    then show ?thesis using Cons.prems(3) Some x IH by (auto split: if_splits)
  qed
qed simp

lemma extract_invariant:
  assumes "\<And>t v d r d1. t \<in> set table \<Longrightarrow> ot_parser t v d = Some (r, d1) \<Longrightarrow> P d \<Longrightarrow> P d1" "P data"
    and "extract_options n table data c = Some (r, data1)"
  shows "P data1"
proof (cases "find_section n c")
  case (Some s)
  then have e: "extract_from_section (sec_configs s) table data = Some (r, data1)" using assms(3) by (simp add: extract_options_def)
  show ?thesis by (rule extract_section_invariant [where P = P, OF _ assms(2) e]) (rule assms(1))
qed (use assms(2,3) in \<open>simp add: extract_options_def\<close>)

lemma field_option_Some:
  "ot_parser (field_option k r p n g u) v d = Some (ret, d1) \<Longrightarrow> \<exists>x. d1 = u (\<lambda>_. x) d"
  by (auto simp: field_option_def split: option.splits)

lemma parse_general_endpoints:
  assumes "parse_general c config = Some (r, config1)"
  shows "uart_configs config1 = uart_configs config \<and> udp_configs config1 = udp_configs config \<and> tcp_configs config1 = tcp_configs config"
proof -
  obtain r1 config2 where e: "extract_options ''General'' global_option_table config c = Some (r1, config2)"
    using assms by (auto simp: parse_general_def bind_eq_Some_conv)
  have "uart_configs config2 = uart_configs config \<and> udp_configs config2 = udp_configs config \<and> tcp_configs config2 = tcp_configs config"
    by (rule extract_invariant [OF _ _ e]) (auto simp: global_option_table_def dest!: field_option_Some)
  moreover have "uart_configs config1 = uart_configs config2 \<and> udp_configs config1 = udp_configs config2 \<and> tcp_configs config1 = tcp_configs config2"
    using assms e by (auto simp: parse_general_def bind_eq_Some_conv split: if_splits)
  ultimately show ?thesis by simp
qed

lemma parse_confs_valid:
  assumes "parse_confs c config = Some (r, config1)" "all_valid config"
  shows "all_valid config1"
proof -
  obtain r0 c1 where g: "parse_general c config = Some (r0, c1)" using assms(1) by (auto simp: parse_confs_def bind_eq_Some_conv)
  have v1: "all_valid c1" using parse_general_endpoints [OF g] assms(2) by (simp add: all_valid_def)
  show ?thesis
  proof (cases "r0 < 0")
    case False
    obtain r1 c2 where u: "each_section uart_pattern c (add_uart_section c) iter0 c1 = Some (r1, c2)"
      using assms(1) g False by (auto simp: parse_confs_def bind_eq_Some_conv)
    have v2: "all_valid c2" using each_section_invariant [where P = all_valid, OF add_section_valid(1) u v1] by simp
    show ?thesis
    proof (cases "r1 = 0")
      case True
      obtain r2 c3 where w: "each_section udp_pattern c (add_udp_section c) iter0 c2 = Some (r2, c3)"
        using assms(1) g False u True by (auto simp: parse_confs_def bind_eq_Some_conv)
      have v3: "all_valid c3" using each_section_invariant [where P = all_valid, OF add_section_valid(2) w v2] by simp
      show ?thesis
      proof (cases "r2 = 0")
        case True
        then have "each_section tcp_pattern c (add_tcp_section c) iter0 c3 = Some (r, config1)"
          using assms(1) g False u \<open>r1 = 0\<close> w by (simp add: parse_confs_def)
        from each_section_invariant [where P = all_valid, OF add_section_valid(3) this v3] show ?thesis by simp
      qed (use assms(1) g False u \<open>r1 = 0\<close> w v3 in \<open>auto simp: parse_confs_def\<close>)
    qed (use assms(1) g False u v2 in \<open>auto simp: parse_confs_def\<close>)
  qed (use assms(1) g v1 in \<open>auto simp: parse_confs_def\<close>)
qed

lemma parse_opt_valid:
  assumes "parse_opt ch arg config = Inr config1" "all_valid config"
  shows "all_valid config1"
proof -
  have "all_valid (config\<lparr>cfg_tcp_port := n\<rparr>) = all_valid config" "all_valid (config\<lparr>report_msg_statistics := b\<rparr>) = all_valid config"
    "all_valid (config\<lparr>log_config := l\<rparr>) = all_valid config" "all_valid (config\<lparr>debug_log_level := d\<rparr>) = all_valid config"
    "all_valid (config\<lparr>cfg_sniffer_sysid := n\<rparr>) = all_valid config" for n b l d
    by (simp_all add: all_valid_def)
  then show ?thesis using assms
    by (auto simp: parse_opt_def Let_def all_valid_add split: if_splits option.splits sum.splits)
qed

lemma parse_opts_valid: "parse_opts opts config = Inr config1 \<Longrightarrow> all_valid config \<Longrightarrow> all_valid config1"
  by (induction opts config rule: parse_opts.induct) (auto split: sum.splits dest: parse_opt_valid)

lemma parse_positional_valid:
  "parse_positional env a config = Inr config1 \<Longrightarrow> \<not> pe_chardev env [] \<Longrightarrow> all_valid config \<Longrightarrow> all_valid config1"
  by (auto simp: parse_positional_def Let_def all_valid_add uart_validate_config_def split: if_splits option.splits)

lemma parse_positionals_valid:
  "parse_positionals env args config = Inr config1 \<Longrightarrow> \<not> pe_chardev env [] \<Longrightarrow> all_valid config \<Longrightarrow> all_valid config1"
  by (induction env args config rule: parse_positionals.induct) (auto split: sum.splits dest: parse_positional_valid)

lemma pre_parse_valid: "pre_parse_opts opts config = Some config1 \<Longrightarrow> all_valid config1 = all_valid config"
  by (induction opts config rule: pre_parse_opts.induct) (auto simp: all_valid_def split: if_splits)

text \<open>C16: only checked endpoints are started: whatever the configuration files and the command line say,
  when they are accepted, every endpoint they give passes the check of its kind (device and baud rate,
  address, port and mode).\<close>

theorem accepted_endpoints_valid:
  assumes "pre_parse_argv argv default_config = Some config" "parse_conf_files env fs config = Some (ret, config1, fs1)"
    "parse_argv env argv config1 = Inr config2" "\<not> pe_chardev env []"
  shows "list_all uart_validate_config (uart_configs config2) \<and> list_all udp_validate_config (udp_configs config2)
    \<and> list_all tcp_validate_config (tcp_configs config2)"
proof -
  have "all_valid default_config" by (simp add: all_valid_def default_config_def)
  then have v: "all_valid config" using assms(1) by (simp add: pre_parse_argv_def pre_parse_valid)
  have "all_valid config1"
    using assms(2) v by (auto simp: parse_conf_files_def bind_eq_Some_conv Let_def split: prod.splits if_splits dest: parse_confs_valid)
  then have "all_valid config2"
    using assms(3,4) by (auto simp: parse_argv_def split: prod.splits sum.splits dest: parse_opts_valid intro: parse_positionals_valid)
  then show ?thesis by (simp add: all_valid_def)
qed

text \<open>What an option sets.\<close>

definition extends :: "full_config \<Rightarrow> full_config \<Rightarrow> bool" where
  "extends config config1 \<longleftrightarrow> (\<exists>us. uart_configs config1 = uart_configs config @ us) \<and> (\<exists>vs. udp_configs config1 = udp_configs config @ vs)
     \<and> (\<exists>ts. tcp_configs config1 = tcp_configs config @ ts)
     \<and> cfg_dedup_period_ms config1 = cfg_dedup_period_ms config \<and> command_pipe_path config1 = command_pipe_path config
     \<and> lo_mode (log_config config1) = lo_mode (log_config config)"

lemma extends_refl: "extends config config"
  by (simp add: extends_def)

lemma extends_trans: "extends a b \<Longrightarrow> extends b c \<Longrightarrow> extends a c"
  by (auto simp: extends_def)

text \<open>The last argument an option was given, or the value it has without.\<close>

definition chosen :: "(char \<times> string) list \<Rightarrow> char \<Rightarrow> (string \<Rightarrow> 'v) \<Rightarrow> 'v \<Rightarrow> 'v" where
  "chosen opts ch f v = (case map_of (rev opts) ch of None \<Rightarrow> v | Some a \<Rightarrow> f a)"

lemma chosen_simps [simp]:
  "chosen [] ch f v = v" "chosen ((c, a) # opts) ch f v = chosen opts ch f (if c = ch then f a else v)"
  by (auto simp: chosen_def map_add_def split: option.split)

text \<open>\<open>-v\<close> counts as \<open>-g debug\<close>.\<close>

definition level_opts :: "(char \<times> string) list \<Rightarrow> (char \<times> string) list" where
  "level_opts opts = map (\<lambda>(c, a). if c = CHR ''v'' then (CHR ''g'', ''debug'') else (c, a)) opts"

lemma level_opts_simps [simp]:
  "level_opts [] = []" "level_opts ((c, a) # opts) = (if c = CHR ''v'' then (CHR ''g'', ''debug'') else (c, a)) # level_opts opts"
  by (simp_all add: level_opts_def)

definition cli_values :: "(char \<times> string) list \<Rightarrow> full_config \<Rightarrow> full_config \<Rightarrow> bool" where
  "cli_values opts config config1 \<longleftrightarrow>
     cfg_tcp_port config1 = chosen opts (CHR ''t'') (\<lambda>a. projr (safe_atoul a)) (cfg_tcp_port config)
     \<and> logs_dir (log_config config1) = chosen opts (CHR ''l'') (\<lambda>a. a) (logs_dir (log_config config))
     \<and> cfg_sniffer_sysid config1 = chosen opts (CHR ''s'') (\<lambda>a. ucast (word_of_int (atoi a) :: u16)) (cfg_sniffer_sysid config)
     \<and> report_msg_statistics config1 = chosen opts (CHR ''r'') (\<lambda>_. True) (report_msg_statistics config)
     \<and> log_telemetry (log_config config1) = chosen opts (CHR ''T'') (\<lambda>_. True) (log_telemetry (log_config config))
     \<and> debug_log_level config1 = chosen (level_opts opts) (CHR ''g'') (\<lambda>a. the (log_level_from_str a)) (debug_log_level config)"

lemma log_level_debug: "log_level_from_str ''debug'' = Some Level_DEBUG"
  by (simp add: log_level_from_str_def strcaseeq_def to_lower_def)

lemma parse_opt_effect:
  assumes "parse_opt c a config = Inr config1"
  shows "cli_values [(c, a)] config config1" "extends config config1"
  using assms by (auto simp: parse_opt_def cli_values_def extends_def log_level_debug Let_def split: if_splits option.splits sum.splits)

lemma cli_values_Cons: "cli_values [x] a b \<Longrightarrow> cli_values opts b c \<Longrightarrow> cli_values (x # opts) a c"
  by (cases x) (auto simp: cli_values_def)

lemma parse_opts_effect:
  "parse_opts opts config = Inr config1 \<Longrightarrow> cli_values opts config config1 \<and> extends config config1"
proof (induction opts config rule: parse_opts.induct)
  case (2 c a opts config)
  then obtain config2 where p: "parse_opt c a config = Inr config2" "parse_opts opts config2 = Inr config1" by (auto split: sum.splits)
  then show ?case using 2 parse_opt_effect [OF p(1)] by (auto intro: cli_values_Cons extends_trans)
qed (simp add: cli_values_def extends_refl)

lemma parse_positional_effect:
  assumes "parse_positional env a config = Inr config1"
  shows "cli_values [] config config1 \<and> extends config config1"
  using assms by (auto simp: parse_positional_def cli_values_def extends_def Let_def split: if_splits option.splits)

lemma parse_positionals_effect:
  "parse_positionals env args config = Inr config1 \<Longrightarrow> cli_values [] config config1 \<and> extends config config1"
proof (induction env args config rule: parse_positionals.induct)
  case (2 env a args config)
  then obtain config2 where p: "parse_positional env a config = Inr config2" "parse_positionals env args config2 = Inr config1" by (auto split: sum.splits)
  then show ?case using 2 parse_positional_effect [OF p(1)] by (auto simp: cli_values_def intro: extends_trans)
qed (simp add: cli_values_def extends_refl)


definition ex_argv :: "string list" where
  "ex_argv = [''-t'', ''5761'', ''-r'', ''-e'', ''127.0.0.1:14551'']"

definition ex_proc_env :: proc_env where
  "ex_proc_env = \<lparr>pe_getenv = (\<lambda>_. None), pe_chardev = (\<lambda>_. False)\<rparr>"

lemma ex_getopt: "getopt_all ex_argv = ([(CHR ''t'', ''5761''), (CHR ''r'', []), (CHR ''e'', ''127.0.0.1:14551'')], [])"
  by (simp add: ex_argv_def getopt_all.simps(2) short_options_def)

lemma ex_safe_atoul: "safe_atoul ''5761'' = Inr 5761" "safe_atoul ''14551'' = Inr 14551"
  by (simp_all add: safe_atoul_def strtoul_base0_def scan_number_def number_base_def digit_val_def to_lower_def is_space_def is_digit_def Let_def)

lemma ex_parse_argv: "\<exists>config1. parse_argv ex_proc_env ex_argv default_config = Inr config1 \<and> udp_configs config1 \<noteq> []"
  by (simp add: parse_argv_def ex_getopt parse_opt_def ex_safe_atoul split_on_last_colon_def udp_validate_config_def default_udp_def
      validate_ip_def validate_ipv4_def is_digit_def Let_def ep_config.extend_def udp_config.fields_def default_ep_config_def)

lemma ex_no_files: "parse_conf_files ex_proc_env ex_fs default_config = Some (0, default_config, snd (tick (snd (tick ex_fs))))"
proof -
  have e: "ConfFile_parse ''/etc/mavlink-router/main.conf'' ex_fs ConfFile_init = (- ENOENT, ConfFile_init, snd (tick ex_fs))"
    by (simp add: ConfFile_parse_def fs_stat_def path_of_def strtok_on_def lookup_node_def ex_fs_def tick_def)
  have d: "read_conf_dir ''/etc/mavlink-router/config.d'' (snd (tick ex_fs)) ConfFile_init = Some (0, ConfFile_init, snd (tick (snd (tick ex_fs))))"
    by (simp add: read_conf_dir_def fs_readdir_def fs_stat_def path_of_def strtok_on_def lookup_node_def ex_fs_def tick_def)
  have s: "conf_sections ConfFile_init = []" by (simp add: ConfFile_init_def)
  have "parse_confs ConfFile_init default_config = Some (0, default_config)"
    by (simp add: parse_confs_def parse_general_def extract_options_def find_section_def s each_section.simps get_sections_def
        global_option_table_def log_option_table_def)
  then show ?thesis
    by (simp add: parse_conf_files_def get_conf_file_name_def get_conf_dir_def ex_proc_env_def default_config_def e d)
qed

definition ex_process :: log_env where
  "ex_process = ex_log_env\<lparr>le_ml := ex_start\<lparr>initialized := False, epollfd := -1\<rparr>, le_fs := ex_fs\<rparr>"

definition ex_cli :: "string list" where
  "ex_cli = [''-t'', ''5760'', ''-t'', ''5761'', ''-v'']"

lemma ex_cli_getopt: "getopt_all ex_cli = ([(CHR ''t'', ''5760''), (CHR ''t'', ''5761''), (CHR ''v'', [])], [])"
  by (simp add: ex_cli_def getopt_all.simps(2) short_options_def)

lemma ex_started:
  "\<exists>y. start_main ex_loglib ex_proc_env [] ex_process = Some (Started default_config y)"
  "\<exists>y. start_main ex_loglib ex_proc_env ex_cli ex_process = Some (Started (default_config\<lparr>cfg_tcp_port := 5761, debug_log_level := Level_DEBUG\<rparr>) y)"
proof -
  have w: "w_sys (os ex_start) = (\<lambda>_. 0)" by (simp add: ex_start_def)
  obtain s1 where o: "ml_open (ex_start\<lparr>epollfd := -1, initialized := True\<rparr>) = (0, s1)" "w_sys (os s1) = (\<lambda>_. 0)" "objs s1 = []" "g_endpoints s1 = []"
    using w by (simp add: ml_open_def sys_call_def Let_def) (simp add: ex_start_def)
  have st: "\<exists>y. start_main ex_loglib ex_proc_env argv ex_process = Some (Started c y)"
    if p: "pre_parse_argv argv default_config = Some default_config" "parse_argv ex_proc_env argv default_config = Inr c"
      and l: "fst (add_links ex_mavlib (configuration.truncate c) s1)" for argv c
  proof -
    have "fst (sys_add_endpoints ex_loglib (configuration.truncate c) (log_config c)
             (ex_process\<lparr>le_ml := s1, le_fs := snd (tick (snd (tick ex_fs)))\<rparr>))"
      using l by (simp add: sys_add_endpoints_def ex_loglib_def case_prod_unfold Let_def)
    then show ?thesis using ex_no_files o(1) p by (simp add: start_main_def ml_init_def ex_process_def case_prod_unfold Let_def)
  qed
  show "\<exists>y. start_main ex_loglib ex_proc_env [] ex_process = Some (Started default_config y)"
    by (rule st) (use o in \<open>simp_all add: pre_parse_argv_def parse_argv_def add_links_def default_config_def configuration.truncate_def case_prod_unfold Let_def\<close>)
  show "\<exists>y. start_main ex_loglib ex_proc_env ex_cli ex_process = Some (Started (default_config\<lparr>cfg_tcp_port := 5761, debug_log_level := Level_DEBUG\<rparr>) y)"
  proof (rule st)
    have n: "safe_atoul ''5760'' = Inr 5760" by (simp add: safe_atoul_def strtoul_base0_def scan_number_def number_base_def digit_val_def to_lower_def is_space_def is_digit_def Let_def)
    show "parse_argv ex_proc_env ex_cli default_config = Inr (default_config\<lparr>cfg_tcp_port := 5761, debug_log_level := Level_DEBUG\<rparr>)"
      by (simp add: parse_argv_def ex_cli_getopt parse_opt_def ex_safe_atoul n)
  qed (use o in \<open>simp_all add: pre_parse_argv_def ex_cli_getopt add_links_def default_config_def configuration.truncate_def tcp_server_open_def sys_call_def case_prod_unfold Let_def\<close>)
qed


lemma accepted_endpoints_valid_witness:
  "\<exists>config2. parse_argv ex_proc_env ex_argv default_config = Inr config2 \<and> udp_configs config2 \<noteq> []
     \<and> list_all udp_validate_config (udp_configs config2)"
proof -
  obtain config2 where p: "parse_argv ex_proc_env ex_argv default_config = Inr config2" "udp_configs config2 \<noteq> []" using ex_parse_argv by blast
  have "pre_parse_argv ex_argv default_config = Some default_config" by (simp add: pre_parse_argv_def ex_getopt)
  from accepted_endpoints_valid [OF this ex_no_files p(1)] p show ?thesis by (simp add: ex_proc_env_def)
qed

definition ex_conf :: conf where
  "ex_conf = \<lparr>conf_files = [],
     conf_sections =
       [\<lparr>sec_addr = 1, sec_name = ''UdpEndpoint a'', sec_configs =
          [\<lparr>cfg_key = ''MsgThrottling'', cfg_value = ''0,5;30,2'', cfg_filename = ''f'', cfg_line = 4\<rparr>]\<rparr>,
        \<lparr>sec_addr = 0, sec_name = ''General'', sec_configs =
          [\<lparr>cfg_key = ''tcpserverport'', cfg_value = ''5761'', cfg_filename = ''f'', cfg_line = 2\<rparr>]\<rparr>]\<rparr>"

lemma ex_conf_ok: "conf_wf ex_conf" "names_fit ex_conf" "throttling_ok ex_conf"
  by (auto simp: ex_conf_def conf_wf_def section_wf_def config_wf_def trimmed_def is_space_def canon_def c_str_def names_fit_def
      throttling_ok_def find_config_def memcaseeq_def to_lower_def pairs_ok_def strtok_on_def)

lemma parse_confs_returns_witness:
  "\<exists>ret config1. parse_confs ex_conf default_config = Some (ret, config1)"
  using parse_confs_returns [OF ex_conf_ok, of default_config "[]" "\<lambda>_ _. None"] by blast

text \<open>Where a value of the files goes.\<close>

lemma extract_append:
  "extract_from_section cs (xs @ ys) data =
     (case extract_from_section cs xs data of
        None \<Rightarrow> None
      | Some (r, d) \<Rightarrow> if r < 0 then Some (r, d) else extract_from_section cs ys d)"
  by (induction xs arbitrary: data) (auto split: option.split)

lemma extract_field:
  assumes "extract_from_section cs (xs @ field_option k req p n g u # ys) data = Some (r, data1)" "\<not> r < 0"
    and "\<And>t v d x d1. t \<in> set xs \<union> set ys \<Longrightarrow> ot_parser t v d = Some (x, d1) \<Longrightarrow> g d1 = g d" "\<And>f d. g (u f d) = f (g d)"
  shows "case find_config k cs of None \<Rightarrow> g data1 = g data | Some q \<Rightarrow> (\<exists>ret. p n (cfg_value q) (g data) = Some (ret, g data1) \<and> \<not> ret < 0)"
proof -
  let ?t = "field_option k req p n g u"
  obtain r1 d1 where x: "extract_from_section cs xs data = Some (r1, d1)" "\<not> r1 < 0" "extract_from_section cs (?t # ys) d1 = Some (r, data1)"
    using assms(1,2) by (auto simp: extract_append split: option.splits if_splits)
  have step: "t \<in> set xs \<union> set ys \<Longrightarrow> ot_parser t v d = Some (x, d1) \<Longrightarrow> g d = a \<Longrightarrow> g d1 = a" for t v d x d1 a
    using assms(3) by metis
  have g1: "g d1 = g data"
    by (rule extract_section_invariant [where P = "\<lambda>d. g d = g data", OF _ refl x(1)]) (metis step UnI1)
  have keep: "g data1 = g d" if "extract_from_section cs ys d = Some (r, data1)" for d
    by (rule extract_section_invariant [where P = "\<lambda>e. g e = g d", OF _ refl that]) (metis step UnI2)
  show ?thesis
  proof (cases "find_config k cs")
    case None
    then have "extract_from_section cs ys d1 = Some (r, data1)" using x(3) assms(2) by (auto split: if_splits)
    then show ?thesis using None keep g1 by simp
  next
    case (Some q)
    then obtain ret d2 where q: "ot_parser ?t (cfg_value q) d1 = Some (ret, d2)" "\<not> ret < 0" "extract_from_section cs ys d2 = Some (r, data1)"
      using x(3) assms(2) by (auto split: option.splits if_splits)
    then obtain v where "p n (cfg_value q) (g d1) = Some (ret, v)" "d2 = u (\<lambda>_. v) d1"
      by (auto simp: field_option_def split: option.splits)
    then show ?thesis using Some q(2) keep [OF q(3)] g1 assms(4) by simp
  qed
qed

text \<open>The value of a key in a section.\<close>

definition setting :: "conf \<Rightarrow> string \<Rightarrow> string \<Rightarrow> string option" where
  "setting c n k = (case conf_view c (canon n) of None \<Rightarrow> None | Some opts \<Rightarrow> opts (canon k))"

lemma extract_options_field:
  assumes "extract_options sn table data c = Some (r, data1)" "\<not> r < 0" "table = xs @ field_option k req p n g u # ys"
    and "\<And>t v d x d1. t \<in> set xs \<union> set ys \<Longrightarrow> ot_parser t v d = Some (x, d1) \<Longrightarrow> g d1 = g d" "\<And>f d. g (u f d) = f (g d)"
  shows "case setting c sn k of None \<Rightarrow> g data1 = g data | Some v \<Rightarrow> (\<exists>ret. p n v (g data) = Some (ret, g data1) \<and> \<not> ret < 0)"
proof (cases "find_section sn c")
  case None
  then have "setting c sn k = None" "data1 = data"
    using assms(1) by (auto simp: extract_options_def find_section_canon setting_def conf_view_def)
  then show ?thesis by simp
next
  case (Some s)
  then have e: "extract_from_section (sec_configs s) (xs @ field_option k req p n g u # ys) data = Some (r, data1)"
    using assms(1,3) by (simp add: extract_options_def)
  have "setting c sn k = map_option cfg_value (find_config k (sec_configs s))"
    using Some by (simp add: setting_def conf_view_def find_section_canon options_view_def find_config_canon)
  then show ?thesis using extract_field [OF e assms(2,4,5)] by (cases "find_config k (sec_configs s)") auto
qed

lemma safe_atoul_negative: "safe_atoul s = Inl e \<Longrightarrow> e < 0"
  by (auto simp: safe_atoul_def strtoul_base0_def Let_def split: option.splits if_splits prod.splits)

lemma number_setting:
  assumes "case w of None \<Rightarrow> A | Some v \<Rightarrow> (\<exists>ret. parse_ul 8 v x = Some (ret, y) \<and> \<not> ret < 0)"
  shows "case w of None \<Rightarrow> A | Some v \<Rightarrow> safe_atoul (c_str v) = Inr y"
  using assms safe_atoul_negative by (cases w) (auto simp: parse_ul_def split: if_splits sum.splits)

lemma text_setting:
  assumes "case w of None \<Rightarrow> A | Some v \<Rightarrow> (\<exists>ret. parse_stdstring 32 v x = Some (ret, y) \<and> \<not> ret < 0)"
  shows "case w of None \<Rightarrow> A | Some v \<Rightarrow> y = v"
  using assms by (cases w) (auto simp: parse_stdstring_def split: if_splits)

text \<open>C39: the settings of the files reach the program: when the section \<open>General\<close> is accepted, the TCP port,
  the de-duplication period, the sniffer, the command pipe and the log directory have the values the files
  give them, in whatever case the keys are written, and keep their defaults where the files say nothing.\<close>

theorem general_settings_used:
  assumes "parse_general c config = Some (ret, config1)" "\<not> ret < 0"
  shows "(case setting c ''General'' ''TcpServerPort'' of
       None \<Rightarrow> cfg_tcp_port config1 = cfg_tcp_port config | Some v \<Rightarrow> safe_atoul (c_str v) = Inr (cfg_tcp_port config1))
    \<and> (case setting c ''General'' ''DeduplicationPeriod'' of
       None \<Rightarrow> cfg_dedup_period_ms config1 = cfg_dedup_period_ms config | Some v \<Rightarrow> safe_atoul (c_str v) = Inr (cfg_dedup_period_ms config1))
    \<and> (case setting c ''General'' ''SnifferSysid'' of
       None \<Rightarrow> cfg_sniffer_sysid config1 = cfg_sniffer_sysid config | Some v \<Rightarrow> safe_atoul (c_str v) = Inr (cfg_sniffer_sysid config1))
    \<and> (case setting c ''General'' ''CommandPipePath'' of
       None \<Rightarrow> command_pipe_path config1 = command_pipe_path config | Some v \<Rightarrow> command_pipe_path config1 = v)
    \<and> (case setting c ''General'' ''Log'' of
       None \<Rightarrow> logs_dir (log_config config1) = logs_dir (log_config config) | Some v \<Rightarrow> logs_dir (log_config config1) = v)"
proof -
  obtain r1 config2 where e: "extract_options ''General'' global_option_table config c = Some (r1, config2)" "\<not> r1 < 0"
    using assms by (auto simp: parse_general_def bind_eq_Some_conv split: if_splits)
  then obtain l where l: "extract_options ''General'' log_option_table (log_config config2) c = Some (ret, l)" "config1 = config2\<lparr>log_config := l\<rparr>"
    using assms by (auto simp: parse_general_def bind_eq_Some_conv)
  have lc: "log_config config2 = log_config config"
    by (rule extract_invariant [where P = "\<lambda>d. log_config d = log_config config", OF _ refl e(1)])
       (auto simp: global_option_table_def dest!: field_option_Some)
  note f = extract_options_field [OF e]
  note g = extract_options_field [OF l(1) assms(2), unfolded lc]
  have sTcpServerPort: "case setting c ''General'' ''TcpServerPort'' of None \<Rightarrow> cfg_tcp_port config2 = cfg_tcp_port config
      | Some v \<Rightarrow> (\<exists>ret. parse_ul 8 v (cfg_tcp_port config) = Some (ret, cfg_tcp_port config2) \<and> \<not> ret < 0)"
    by (rule f [where xs = "take 0 global_option_table" and ys = "drop 1 global_option_table"]) (auto simp: global_option_table_def dest!: field_option_Some)
  have sDeduplicationPeriod: "case setting c ''General'' ''DeduplicationPeriod'' of None \<Rightarrow> cfg_dedup_period_ms config2 = cfg_dedup_period_ms config
      | Some v \<Rightarrow> (\<exists>ret. parse_ul 8 v (cfg_dedup_period_ms config) = Some (ret, cfg_dedup_period_ms config2) \<and> \<not> ret < 0)"
    by (rule f [where xs = "take 3 global_option_table" and ys = "drop 4 global_option_table"]) (auto simp: global_option_table_def dest!: field_option_Some)
  have sSnifferSysid: "case setting c ''General'' ''SnifferSysid'' of None \<Rightarrow> cfg_sniffer_sysid config2 = cfg_sniffer_sysid config
      | Some v \<Rightarrow> (\<exists>ret. parse_ul 8 v (cfg_sniffer_sysid config) = Some (ret, cfg_sniffer_sysid config2) \<and> \<not> ret < 0)"
    by (rule f [where xs = "take 4 global_option_table" and ys = "drop 5 global_option_table"]) (auto simp: global_option_table_def dest!: field_option_Some)
  have sCommandPipePath: "case setting c ''General'' ''CommandPipePath'' of None \<Rightarrow> command_pipe_path config2 = command_pipe_path config
      | Some v \<Rightarrow> (\<exists>ret. parse_stdstring 32 v (command_pipe_path config) = Some (ret, command_pipe_path config2) \<and> \<not> ret < 0)"
    by (rule f [where xs = "take 5 global_option_table" and ys = "drop 6 global_option_table"]) (auto simp: global_option_table_def dest!: field_option_Some)
  have sLog: "case setting c ''General'' ''Log'' of None \<Rightarrow> logs_dir l = logs_dir (log_config config)
      | Some v \<Rightarrow> (\<exists>ret. parse_stdstring 32 v (logs_dir (log_config config)) = Some (ret, logs_dir l) \<and> \<not> ret < 0)"
    by (rule g [where xs = "take 0 log_option_table" and ys = "drop 1 log_option_table"]) (auto simp: log_option_table_def dest!: field_option_Some)
  have q: "cfg_tcp_port config1 = cfg_tcp_port config2" "cfg_dedup_period_ms config1 = cfg_dedup_period_ms config2"
    "cfg_sniffer_sysid config1 = cfg_sniffer_sysid config2" "command_pipe_path config1 = command_pipe_path config2" "log_config config1 = l"
    by (simp_all add: l(2))
  show ?thesis unfolding q
    using number_setting [OF sTcpServerPort] number_setting [OF sDeduplicationPeriod] number_setting [OF sSnifferSysid]
      text_setting [OF sCommandPipePath] text_setting [OF sLog] by blast
qed

lemma general_settings_used_witness:
  "\<exists>ret config1. parse_general ex_conf default_config = Some (ret, config1) \<and> cfg_tcp_port config1 = 5761 \<and> cfg_dedup_period_ms config1 = 0"
proof -
  have s: "setting ex_conf ''General'' ''TcpServerPort'' = Some ''5761''" "setting ex_conf ''General'' ''DeduplicationPeriod'' = None"
    by (simp_all add: setting_def conf_view_def ex_conf_def canon_def c_str_def to_lower_def options_view_def char_of_def bit_0)
  obtain sc where sec: "find_section ''General'' ex_conf = Some sc"
    and cs: "sec_configs sc = [\<lparr>cfg_key = ''tcpserverport'', cfg_value = ''5761'', cfg_filename = ''f'', cfg_line = 2\<rparr>]"
    by (simp add: find_section_def ex_conf_def memcaseeq_def to_lower_def)
  have cf: "find_config k (sec_configs sc) =
      (if memcaseeq k ''tcpserverport'' then Some \<lparr>cfg_key = ''tcpserverport'', cfg_value = ''5761'', cfg_filename = ''f'', cfg_line = 2\<rparr> else None)" for k
    by (simp add: find_config_def cs)
  have c5: "c_str ''5761'' = ''5761''" by (simp add: c_str_def)
  have "\<exists>config1. parse_general ex_conf default_config = Some (0, config1)"
    by (simp add: parse_general_def extract_options_def sec global_option_table_def log_option_table_def cf memcaseeq_def to_lower_def
        field_option_def parse_ul_def char_of_def bit_0 c5 ex_safe_atoul)
  then obtain config1 where p: "parse_general ex_conf default_config = Some (0, config1)" by blast
  from general_settings_used [OF p] p show ?thesis by (simp add: s c5 ex_safe_atoul default_config_def)
qed

text \<open>Ports that are not given.\<close>

lemma default_port_taken:
  assumes "c \<in> set (udp_configs config)" "u_address c = ip" "u_port c = 14550" "d \<in> set (udp_configs config)" "u_address d = ip" "u_port d = 14551"
  shows "\<exists>d\<in>set (udp_configs config). u_address d = ip \<and> u_port d = find_next_udp_port ip config"
  using assms by (auto simp: find_next_udp_port_def list_ex_iff)

text \<open>On the command line the port is looked up before the address is known, so it is always 14550.\<close>

lemma cli_default_port:
  assumes "all_valid config" "parse_opt (CHR ''e'') ip config = Inr config1" "CHR '':'' \<notin> set ip"
  shows "u_address (last (udp_configs config1)) = ip \<and> u_port (last (udp_configs config1)) = 14550"
proof -
  have "u_address (default_udp ''CLI'') = []" by (simp add: default_udp_def ep_config.extend_def udp_config.fields_def default_ep_config_def)
  moreover have "find_next_udp_port [] config = 14550"
    using assms(1) by (auto simp: find_next_udp_port_def all_valid_def list_all_iff list_ex_iff udp_validate_config_def)
  ultimately show ?thesis using assms(2,3) by (auto simp: parse_opt_def split_on_last_colon_def Let_def split: if_splits)
qed

text \<open>The letters of the version and of the telemetry log want an argument, which the long options do not; help is a failure.\<close>

lemma letters_and_names_differ:
  "getopt_all [''-V''] = ([(CHR ''?'', [])], [])" "getopt_all [''--version''] = ([(CHR ''V'', [])], [])"
  "getopt_all [''-T''] = ([(CHR ''?'', [])], [])" "getopt_all [''--telemetry-log''] = ([(CHR ''T'', [])], [])"
  by (simp_all add: getopt_all.simps(2) short_options_def long_option_def long_matches_def long_options_def)

lemma help_fails: "parse_argv env [''-h''] config = Inl 0"
  by (simp add: parse_argv_def getopt_all.simps(2) short_options_def parse_opt_def)

section \<open>The log of the process\<close>

text \<open>Names in the order in which they first appear.\<close>

fun first_names :: "string list \<Rightarrow> string list \<Rightarrow> string list" where
  "first_names seen [] = []"
| "first_names seen (n # ns) = (if n \<in> set seen then first_names seen ns else n # first_names (seen @ [n]) ns)"

lemma first_names_distinct: "distinct (first_names seen ns) \<and> set (first_names seen ns) = set ns - set seen"
  by (induction seen ns rule: first_names.induct) auto

lemma list_filenames_shows:
  assumes "length files \<le> 128"
  shows "list_filenames cs files g =
    fold (logv Level_ERROR)
      (let ns = first_names files (map cfg_filename cs); k = 128 - length files
       in map (Cons (CHR 0x09)) (take k ns) @ (if length ns > k then [[CHR 0x09] @ ''and others.''] else [])) g"
  using assms
proof (induction cs files g rule: list_filenames.induct)
  case (2 c cs files g)
  show ?case
  proof (cases "cfg_filename c \<in> set files \<or> length files = 128")
    case False
    then obtain k where k: "128 - length files = Suc k" "128 - length (files @ [cfg_filename c]) = k"
      using "2.prems" by (cases "128 - length files") auto
    then show ?thesis using 2 False by (simp add: Let_def k)
  qed (use 2 in \<open>auto simp: Let_def\<close>)
qed simp

text \<open>A message about a section names each of its files once, in order, up to 128 of them.\<close>

lemma print_filenames_shows:
  "print_filenames s g =
     fold (logv Level_ERROR)
       (let ns = first_names [] (map cfg_filename (sec_configs s))
        in map (Cons (CHR 0x09)) (take 128 ns) @ (if length ns > 128 then [[CHR 0x09] @ ''and others.''] else [])) g"
  by (cases "max_level g") (simp_all add: print_filenames_def list_filenames_shows less_log_level_def)

text \<open>A process that started logs at the level of its settings. The line with the version comes before that level is set and is shown at every level.\<close>

lemma started_log:
  assumes "start_main L env argv lenv = Some (Started config y)" "the_backend (main_log version tty env argv (le_fs lenv)) = Backend_STDERR"
  shows "max_level (main_log version tty env argv (le_fs lenv)) = debug_log_level config"
    and "writev_calls (main_log version tty env argv (le_fs lenv)) = [(2, log_pieces Level_INFO (''mavlink-router version '' @ version) (main_log version tty env argv (le_fs lenv)))]"
proof -
  show "max_level (main_log version tty env argv (le_fs lenv)) = debug_log_level config"
    using assms(1) by (auto simp: start_main_def main_log_def set_max_level_def case_prod_unfold Let_def split: option.splits if_splits sum.splits)
  obtain c where c: "pre_parse_argv argv default_config = Some c" and l: "debug_log_level config = max_level (main_log version tty env argv (le_fs lenv))"
    "main_log version tty env argv (le_fs lenv) =
       set_max_level (debug_log_level config) (logv Level_INFO (''mavlink-router version '' @ version) (snd (log_open (log_backend c) tty log_init)))"
    using assms(1) by (auto simp: start_main_def main_log_def set_max_level_def case_prod_unfold Let_def split: option.splits if_splits sum.splits)
  show "writev_calls (main_log version tty env argv (le_fs lenv)) = [(2, log_pieces Level_INFO (''mavlink-router version '' @ version) (main_log version tty env argv (le_fs lenv)))]"
    using assms(2) unfolding l(2)
    by (cases "log_backend c") (simp_all add: set_max_level_def log_open_def log_init_def logv_def logv_to_fd_def log_pieces_def get_color_def less_log_level_def Let_def)
qed

end
