(* ===== verification/ExampleLib.thy ===== *)
theory ExampleLib
  imports Text
begin

text \<open>
  What the example programs (examples/*.cpp) share: messages of the generated MAVLink library, whose parser is
  a parameter, the loop that feeds received bytes to the parser, single-precision numbers with infinities and
  NaN, and the time stamps they compare.
\<close>

section \<open>Messages\<close>

text \<open>\<open>mavlink_message_t\<close>, up to what the programs read of it. The bytes of the payload are only given to the decoders
  of the library.\<close>

record mavmsg =
  mm_sysid :: u8
  mm_msgid :: u32
  mm_payload :: bytes

text \<open>\<open>mavlink_parse_char\<close> with the state of its channel: a message may be complete after a byte.\<close>

type_synonym 'p parser = "'p \<Rightarrow> u8 \<Rightarrow> 'p \<times> mavmsg option"

text \<open>The loop over the bytes of one read, with the handler of messages.\<close>

fun feed :: "'p parser \<Rightarrow> (mavmsg \<Rightarrow> 's \<Rightarrow> 's) \<Rightarrow> bytes \<Rightarrow> 'p \<times> 's \<Rightarrow> 'p \<times> 's" where
  "feed P handle [] ps = ps"
| "feed P handle (b # bs) ps =
     (let (p1, m) = P (fst ps) b
      in feed P handle bs (p1, case m of None \<Rightarrow> snd ps | Some msg \<Rightarrow> handle msg (snd ps)))"

text \<open>The messages a parser finds in bytes.\<close>

fun parsed :: "'p parser \<Rightarrow> 'p \<Rightarrow> bytes \<Rightarrow> mavmsg list" where
  "parsed P p [] = []"
| "parsed P p (b # bs) = (case P p b of (p1, m) \<Rightarrow> (case m of None \<Rightarrow> [] | Some msg \<Rightarrow> [msg]) @ parsed P p1 bs)"

definition parser_after :: "'p parser \<Rightarrow> 'p \<Rightarrow> bytes \<Rightarrow> 'p" where
  "parser_after P p bs = fold (\<lambda>b p. fst (P p b)) bs p"

lemma feed_fold: "feed P handle bs (p, s) = (parser_after P p bs, fold handle (parsed P p bs) s)"
  by (induction bs arbitrary: p s) (auto simp: parser_after_def case_prod_unfold Let_def split: option.split)

lemma parsed_append: "parsed P p (as @ bs) = parsed P p as @ parsed P (parser_after P p as) bs"
  by (induction as arbitrary: p) (auto simp: parser_after_def split: prod.split)

text \<open>The result of a read; an interrupted one is repeated.\<close>

datatype recv = RecvErr int | RecvBytes bytes

abbreviation EINTR :: int where "EINTR \<equiv> 4"

text \<open>An argument with an address and possibly a port after a colon.\<close>

definition parse_address :: "string \<Rightarrow> int \<Rightarrow> string \<times> int" where
  "parse_address a port =
     (case dropWhile (\<lambda>c. c \<noteq> CHR '':'') a of [] \<Rightarrow> (a, port) | _ # p \<Rightarrow> (takeWhile (\<lambda>c. c \<noteq> CHR '':'') a, atoi p))"

section \<open>Numbers\<close>

datatype flt = Fin rat | PInf | NInf | NaN

definition flt_of :: "rat \<Rightarrow> flt" where
  "flt_of r = (let q = f32_round r in if q \<ge> 2 ^ 128 then PInf else if q \<le> - (2 ^ 128) then NInf else Fin q)"

fun flt_less :: "flt \<Rightarrow> flt \<Rightarrow> bool" where
  "flt_less (Fin a) (Fin b) = (a < b)"
| "flt_less NaN _ = False"
| "flt_less _ NaN = False"
| "flt_less NInf b = (b \<noteq> NInf)"
| "flt_less a NInf = False"
| "flt_less PInf b = False"
| "flt_less a PInf = (a \<noteq> PInf)"

fun flt_neg :: "flt \<Rightarrow> flt" where
  "flt_neg (Fin a) = Fin (- a)"
| "flt_neg PInf = NInf"
| "flt_neg NInf = PInf"
| "flt_neg NaN = NaN"

fun flt_add :: "flt \<Rightarrow> flt \<Rightarrow> flt" where
  "flt_add (Fin a) (Fin b) = flt_of (a + b)"
| "flt_add NaN _ = NaN"
| "flt_add _ NaN = NaN"
| "flt_add (Fin _) b = b"
| "flt_add a (Fin _) = a"
| "flt_add a b = (if a = b then a else NaN)"

definition flt_sub :: "flt \<Rightarrow> flt \<Rightarrow> flt" where
  "flt_sub a b = flt_add a (flt_neg b)"

fun flt_abs :: "flt \<Rightarrow> flt" where
  "flt_abs (Fin a) = Fin \<bar>a\<bar>"
| "flt_abs NInf = PInf"
| "flt_abs a = a"

lemma flt_less_NaN [simp]: "\<not> flt_less a NaN" "\<not> flt_less NaN a"
  by (cases a; simp)+

lemma flt_less_irrefl [simp]: "\<not> flt_less a a"
  by (cases a) simp_all

lemma flt_less_trans: "flt_less a b \<Longrightarrow> flt_less b c \<Longrightarrow> flt_less a c"
  by (cases a; cases b; cases c) auto

section \<open>Time\<close>

record mono_time =
  mt_sec :: int
  mt_nsec :: int

text \<open>Positive if the first is greater, negative if the second is.\<close>

definition timespec_compare :: "mono_time \<Rightarrow> mono_time \<Rightarrow> int" where
  "timespec_compare t1 t2 = (let r = mt_sec t1 - mt_sec t2 in if r \<noteq> 0 then r else mt_nsec t1 - mt_nsec t2)"

definition mono_ns :: "mono_time \<Rightarrow> int" where
  "mono_ns t = mt_sec t * 1000000000 + mt_nsec t"

definition mono_ok :: "mono_time \<Rightarrow> bool" where
  "mono_ok t \<longleftrightarrow> 0 \<le> mt_nsec t \<and> mt_nsec t < 1000000000"

text \<open>The comparison is that of the nanoseconds.\<close>

lemma timespec_compare_ns:
  assumes "mono_ok a" "mono_ok b"
  shows "0 < timespec_compare a b \<longleftrightarrow> mono_ns b < mono_ns a" "timespec_compare a b < 0 \<longleftrightarrow> mono_ns a < mono_ns b"
  using assms by (auto simp: timespec_compare_def mono_ns_def mono_ok_def Let_def)

end
