(* ===== verification/ArmAuthorizer.thy ===== *)
theory ArmAuthorizer
  imports ExampleLib
begin

text \<open>
  The example \<open>arm-authorizer\<close> (examples/arm-authorizer.cpp): a program that decides whether a vehicle may arm. On a request it
  asks for the mission, item by item, and refuses if an item is too high. Ids, constants and decoders of the generated
  MAVLink library are parameters. Every message it sends has the system id 10 as sender and all components as target, and the result of
  \<open>sendto\<close> is ignored everywhere, so sending is appending to \<open>au_sent\<close>.
\<close>

section \<open>Data\<close>

record command_long =
  cl_command :: u16
  cl_target_system :: u8

record mission_count =
  mc_count :: u16
  mc_target_system :: u8

record mission_item_int =
  mi_seq :: u16
  mi_target_system :: u8
  mi_z :: flt

record command_ack =
  ack_target_system :: u8
  ack_command :: u16
  ack_result :: u8
  ack_progress :: u8
  ack_result_param2 :: int

record armlib =
  MSG_ID_COMMAND_LONG :: u32
  MSG_ID_MISSION_COUNT :: u32
  MSG_ID_MISSION_ITEM_INT :: u32
  CMD_ARM_AUTHORIZATION_REQUEST :: u16
  RES_ACCEPTED :: u8
  RES_DENIED :: u8
  RES_FAILED :: u8
  RES_IN_PROGRESS :: u8
  REASON_INVALID_WAYPOINT :: u8
  REASON_TIMEOUT :: u8
  command_long_decode :: "mavmsg \<Rightarrow> command_long"
  mission_count_decode :: "mavmsg \<Rightarrow> mission_count"
  mission_item_int_decode :: "mavmsg \<Rightarrow> mission_item_int"

datatype auth_msg =
    CommandAck command_ack
  | MissionRequestList u8
  | MissionRequestInt u8 u16
  | MissionAck u8
  | AuthHeartbeat

datatype state_t = STATE_IDLE | STATE_WAITING_MISSING_COUNT | STATE_WAITING_MISSION_ITEMS | STATE_LAST

text \<open>The static variables, the clock and what was sent.\<close>

record authorizer =
  au_should_exit :: bool
  au_state :: state_t
  au_target_system :: u8
  mission_item_count :: u16
  mission_valid :: bool
  first_mission_item_invalid :: u16
  auth_request_timeout :: mono_time
  heartbeat_timeout :: mono_time
  au_clock :: "nat \<Rightarrow> mono_time"
  au_tick :: nat
  au_sent :: "auth_msg list"

abbreviation AUTH_SYSTEM_ID :: u8 where "AUTH_SYSTEM_ID \<equiv> 10"
abbreviation AUTH_TIMEOUT_SEC :: int where "AUTH_TIMEOUT_SEC \<equiv> 10"
abbreviation HEARTBEAT_TIMEOUT_SEC :: int where "HEARTBEAT_TIMEOUT_SEC \<equiv> 3"
abbreviation MAX_VALID_ALTITUDE :: flt where "MAX_VALID_ALTITUDE \<equiv> Fin 15"
abbreviation AUTHORIZATION_TIMEOUT_SEC :: int where "AUTHORIZATION_TIMEOUT_SEC \<equiv> 60"

abbreviation mono_zero :: mono_time where "mono_zero \<equiv> \<lparr>mt_sec = 0, mt_nsec = 0\<rparr>"

definition authorizer_init :: "(nat \<Rightarrow> mono_time) \<Rightarrow> authorizer" where
  "authorizer_init clock =
     \<lparr>au_should_exit = False, au_state = STATE_IDLE, au_target_system = 0, mission_item_count = 0, mission_valid = False,
      first_mission_item_invalid = 0, auth_request_timeout = mono_zero, heartbeat_timeout = mono_zero,
      au_clock = clock, au_tick = 0, au_sent = []\<rparr>"

section \<open>Sending\<close>

definition auth_send :: "auth_msg \<Rightarrow> authorizer \<Rightarrow> authorizer" where
  "auth_send m s = s\<lparr>au_sent := au_sent s @ [m]\<rparr>"

definition command_ack_send :: "armlib \<Rightarrow> u8 \<Rightarrow> u8 \<Rightarrow> int \<Rightarrow> authorizer \<Rightarrow> authorizer" where
  "command_ack_send L result progress param2 s =
     auth_send (CommandAck \<lparr>ack_target_system = au_target_system s, ack_command = CMD_ARM_AUTHORIZATION_REQUEST L,
       ack_result = result, ack_progress = progress, ack_result_param2 = param2\<rparr>) s"

definition mission_request_int_send :: "u16 \<Rightarrow> authorizer \<Rightarrow> authorizer" where
  "mission_request_int_send seq s = auth_send (MissionRequestInt (au_target_system s) seq) s"

definition mission_ack_send :: "authorizer \<Rightarrow> authorizer" where
  "mission_ack_send s = auth_send (MissionAck (au_target_system s)) s"

definition auth_clock :: "authorizer \<Rightarrow> mono_time \<times> authorizer" where
  "auth_clock s = (au_clock s (au_tick s), s\<lparr>au_tick := au_tick s + 1\<rparr>)"

section \<open>Handlers\<close>

definition handle_command_long :: "armlib \<Rightarrow> mavmsg \<Rightarrow> command_long \<Rightarrow> authorizer \<Rightarrow> authorizer" where
  "handle_command_long L msg cmd s =
     (if cl_command cmd \<noteq> CMD_ARM_AUTHORIZATION_REQUEST L \<or> au_state s \<noteq> STATE_IDLE \<or> cl_target_system cmd \<noteq> AUTH_SYSTEM_ID then s
      else
        let s1 = s\<lparr>au_target_system := mm_sysid msg, au_state := STATE_WAITING_MISSING_COUNT\<rparr>;
            s2 = command_ack_send L (RES_IN_PROGRESS L) 255 0 s1;
            s3 = auth_send (MissionRequestList (au_target_system s2)) s2;
            (now, s4) = auth_clock s3
        in s4\<lparr>auth_request_timeout := now\<lparr>mt_sec := mt_sec now + AUTH_TIMEOUT_SEC\<rparr>\<rparr>)"

definition handle_mission_count :: "armlib \<Rightarrow> mission_count \<Rightarrow> authorizer \<Rightarrow> authorizer" where
  "handle_mission_count L mc s =
     (if au_state s \<noteq> STATE_WAITING_MISSING_COUNT \<or> mc_target_system mc \<noteq> AUTH_SYSTEM_ID then s
      else if mc_count mc = 0 then
        (command_ack_send L (RES_DENIED L) (REASON_INVALID_WAYPOINT L) 0 s)\<lparr>au_state := STATE_IDLE\<rparr>
      else
        mission_request_int_send 0
          (s\<lparr>mission_item_count := mc_count mc, au_state := STATE_WAITING_MISSION_ITEMS, mission_valid := True\<rparr>))"

text \<open>The number of the next item is computed in 16 bits.\<close>

definition handle_mission_item_int :: "armlib \<Rightarrow> mission_item_int \<Rightarrow> authorizer \<Rightarrow> authorizer" where
  "handle_mission_item_int L item s =
     (if au_state s \<noteq> STATE_WAITING_MISSION_ITEMS \<or> mi_target_system item \<noteq> AUTH_SYSTEM_ID then s
      else
        let s1 = (if mission_valid s \<and> flt_less MAX_VALID_ALTITUDE (mi_z item)
                  then s\<lparr>mission_valid := False, first_mission_item_invalid := mi_seq item\<rparr> else s);
            seq = mi_seq item + 1
        in if seq = mission_item_count s1 then
             (mission_ack_send
               (if mission_valid s1 then command_ack_send L (RES_ACCEPTED L) 0 AUTHORIZATION_TIMEOUT_SEC s1
                else command_ack_send L (RES_DENIED L) (REASON_INVALID_WAYPOINT L) (uint (first_mission_item_invalid s1)) s1))
             \<lparr>au_state := STATE_IDLE\<rparr>
           else mission_request_int_send seq s1)"

definition auth_handle_new_message :: "armlib \<Rightarrow> mavmsg \<Rightarrow> authorizer \<Rightarrow> authorizer" where
  "auth_handle_new_message L msg s =
     (if mm_msgid msg = MSG_ID_COMMAND_LONG L then handle_command_long L msg (command_long_decode L msg) s
      else if mm_msgid msg = MSG_ID_MISSION_COUNT L then handle_mission_count L (mission_count_decode L msg) s
      else if mm_msgid msg = MSG_ID_MISSION_ITEM_INT L then handle_mission_item_int L (mission_item_int_decode L msg) s
      else s)"

section \<open>The loop\<close>

text \<open>What follows the received bytes in a round: the heartbeat and the time limit of a request.\<close>

definition auth_check :: "armlib \<Rightarrow> authorizer \<Rightarrow> authorizer" where
  "auth_check L s =
     (let (now, s1) = auth_clock s;
          s2 = (if timespec_compare now (heartbeat_timeout s1) > 0
                then (auth_send AuthHeartbeat s1)
                  \<lparr>heartbeat_timeout := \<lparr>mt_sec = mt_sec now + HEARTBEAT_TIMEOUT_SEC, mt_nsec = mt_nsec now\<rparr>\<rparr>
                else s1)
      in if au_state s2 \<noteq> STATE_IDLE \<and> timespec_compare now (auth_request_timeout s2) > 0
         then (mission_ack_send (command_ack_send L (RES_FAILED L) (REASON_TIMEOUT L) 0 s2))\<lparr>au_state := STATE_IDLE\<rparr>
         else s2)"

text \<open>A round of the loop gets the result of \<open>recvfrom\<close>; the flag says that a signal is handled in it.\<close>

fun auth_loop :: "'p parser \<Rightarrow> armlib \<Rightarrow> (bool \<times> recv) list \<Rightarrow> 'p \<times> authorizer \<Rightarrow> 'p \<times> authorizer" where
  "auth_loop P L [] ps = ps"
| "auth_loop P L ((sig, r) # rs) (p, s) =
     (if au_should_exit s then (p, s)
      else
        let s1 = (if sig then s\<lparr>au_should_exit := True\<rparr> else s)
        in case r of
             RecvErr errno \<Rightarrow> if errno = EINTR then auth_loop P L rs (p, s1) else (p, s1)
           | RecvBytes bs \<Rightarrow>
               let (p2, s2) = feed P (auth_handle_new_message L) bs (p, s1) in auth_loop P L rs (p2, auth_check L s2))"

text \<open>\<open>main\<close>, with the results of \<open>socket\<close> and \<open>connect\<close>.\<close>

definition auth_main :: "'p parser \<Rightarrow> armlib \<Rightarrow> int \<Rightarrow> int \<Rightarrow> (bool \<times> recv) list \<Rightarrow> 'p \<times> authorizer \<Rightarrow> int \<times> 'p \<times> authorizer" where
  "auth_main P L sock conn rs ps =
     (if sock = -1 then (1, ps)
      else if conn \<noteq> 0 then (-1, ps)
      else (0, auth_loop P L rs (fst ps, (snd ps)\<lparr>heartbeat_timeout := mono_zero\<rparr>)))"

end
