(* ===== verification/ArmAuthorizerFacts.thy ===== *)
theory ArmAuthorizerFacts
  imports ArmAuthorizer
begin

text \<open>
  Facts about the example \<open>arm-authorizer\<close>: the answer to a request with a whole mission, what an acceptance implies
  after any messages, that every request is answered once, and what the program does not check.
\<close>


section \<open>A whole request\<close>

lemma auth_sends [simp]:
  "au_state (auth_send m s) = au_state s" "au_target_system (auth_send m s) = au_target_system s" "au_sent (auth_send m s) = au_sent s @ [m]"
  "mission_item_count (auth_send m s) = mission_item_count s" "mission_valid (auth_send m s) = mission_valid s"
  "first_mission_item_invalid (auth_send m s) = first_mission_item_invalid s"
  by (simp_all add: auth_send_def)

lemmas auth_sending = command_ack_send_def mission_request_int_send_def mission_ack_send_def

text \<open>The answer to a request, from the altitudes of the items.\<close>

definition too_high :: "mission_item_int \<Rightarrow> bool" where
  "too_high item \<longleftrightarrow> flt_less MAX_VALID_ALTITUDE (mi_z item)"

definition verdict :: "armlib \<Rightarrow> u8 \<Rightarrow> mission_item_int list \<Rightarrow> command_ack" where
  "verdict L t items =
     (case find too_high items of
        None \<Rightarrow> \<lparr>ack_target_system = t, ack_command = CMD_ARM_AUTHORIZATION_REQUEST L, ack_result = RES_ACCEPTED L, ack_progress = 0,
                 ack_result_param2 = AUTHORIZATION_TIMEOUT_SEC\<rparr>
      | Some item \<Rightarrow> \<lparr>ack_target_system = t, ack_command = CMD_ARM_AUTHORIZATION_REQUEST L, ack_result = RES_DENIED L,
                 ack_progress = REASON_INVALID_WAYPOINT L, ack_result_param2 = uint (mi_seq item)\<rparr>)"

text \<open>What the variables say of the items seen so far.\<close>

definition seen :: "mission_item_int list \<Rightarrow> authorizer \<Rightarrow> bool" where
  "seen items s \<longleftrightarrow> (case find too_high items of None \<Rightarrow> mission_valid s | Some item \<Rightarrow> \<not> mission_valid s \<and> first_mission_item_invalid s = mi_seq item)"

lemma find_snoc: "find P (xs @ [x]) = (case find P xs of None \<Rightarrow> if P x then Some x else None | Some y \<Rightarrow> Some y)"
  by (induction xs) auto

lemma mission_item_step:
  assumes "au_state s = STATE_WAITING_MISSION_ITEMS" "mi_target_system item = AUTH_SYSTEM_ID" "seen items s"
  shows "if mi_seq item + 1 = mission_item_count s
    then au_state (handle_mission_item_int L item s) = STATE_IDLE \<and>
      au_sent (handle_mission_item_int L item s) = au_sent s @ [CommandAck (verdict L (au_target_system s) (items @ [item])), MissionAck (au_target_system s)]
    else au_state (handle_mission_item_int L item s) = STATE_WAITING_MISSION_ITEMS \<and> seen (items @ [item]) (handle_mission_item_int L item s) \<and>
      mission_item_count (handle_mission_item_int L item s) = mission_item_count s \<and> au_target_system (handle_mission_item_int L item s) = au_target_system s \<and>
      au_sent (handle_mission_item_int L item s) = au_sent s @ [MissionRequestInt (au_target_system s) (mi_seq item + 1)]"
  using assms
  by (auto simp: handle_mission_item_int_def seen_def verdict_def find_snoc too_high_def auth_sending Let_def split: option.splits)

definition item_for_us :: "armlib \<Rightarrow> mavmsg \<Rightarrow> bool" where
  "item_for_us L m \<longleftrightarrow> mm_msgid m = MSG_ID_MISSION_ITEM_INT L \<and> mm_msgid m \<noteq> MSG_ID_COMMAND_LONG L \<and> mm_msgid m \<noteq> MSG_ID_MISSION_COUNT L
     \<and> mi_target_system (mission_item_int_decode L m) = AUTH_SYSTEM_ID"

definition count_for_us :: "armlib \<Rightarrow> mavmsg \<Rightarrow> bool" where
  "count_for_us L m \<longleftrightarrow> mm_msgid m = MSG_ID_MISSION_COUNT L \<and> mm_msgid m \<noteq> MSG_ID_COMMAND_LONG L
     \<and> mc_target_system (mission_count_decode L m) = AUTH_SYSTEM_ID"

definition request_for_us :: "armlib \<Rightarrow> mavmsg \<Rightarrow> bool" where
  "request_for_us L m \<longleftrightarrow> mm_msgid m = MSG_ID_COMMAND_LONG L \<and> cl_target_system (command_long_decode L m) = AUTH_SYSTEM_ID
     \<and> cl_command (command_long_decode L m) = CMD_ARM_AUTHORIZATION_REQUEST L"

lemma mission_items_run:
  assumes "au_state s = STATE_WAITING_MISSION_ITEMS" "seen items s" "ms \<noteq> []" "unat (mission_item_count s) = i + length ms"
    "\<And>j. j < length ms \<Longrightarrow> item_for_us L (ms ! j) \<and> mi_seq (mission_item_int_decode L (ms ! j)) = of_nat (i + j)"
  shows "au_state (fold (auth_handle_new_message L) ms s) = STATE_IDLE \<and>
    au_sent (fold (auth_handle_new_message L) ms s) =
      au_sent s @ map (\<lambda>j. MissionRequestInt (au_target_system s) (of_nat j)) [Suc i..<i + length ms] @
      [CommandAck (verdict L (au_target_system s) (items @ map (mission_item_int_decode L) ms)), MissionAck (au_target_system s)]"
  using assms
proof (induction ms arbitrary: s items i)
  case (Cons m ms)
  let ?it = "mission_item_int_decode L m"
  have m: "item_for_us L m" "mi_seq ?it = of_nat i" using Cons.prems(5) [of 0] by simp_all
  have h: "auth_handle_new_message L m s = handle_mission_item_int L ?it s" using m(1) by (auto simp: auth_handle_new_message_def item_for_us_def)
  note st = mission_item_step [OF Cons.prems(1) _ Cons.prems(2), of ?it L]
  have t: "mi_target_system ?it = AUTH_SYSTEM_ID" using m(1) by (simp add: item_for_us_def)
  have c: "mission_item_count s = of_nat (i + length (m # ms))" unfolding Cons.prems(4) [symmetric] by simp
  have b: "i + length (m # ms) < 2 ^ 16" using unsigned_less [of "mission_item_count s", where ?'a=nat] Cons.prems(4) by simp
  show ?case
  proof (cases "ms = []")
    case True
    then have "mi_seq ?it + 1 = mission_item_count s" using m(2) c by simp
    then show ?thesis using st [OF t] True by (simp add: h)
  next
    case False
    have "mi_seq ?it + 1 \<noteq> mission_item_count s"
    proof
      assume "mi_seq ?it + 1 = mission_item_count s"
      then have "(of_nat (Suc i) :: u16) = mission_item_count s" using m(2) by (simp add: add.commute)
      then have "unat (of_nat (Suc i) :: u16) = i + length (m # ms)" using Cons.prems(4) by simp
      moreover have "unat (of_nat (Suc i) :: u16) = Suc i" using b False by (cases ms) (simp_all add: unat_of_nat del: of_nat_Suc)
      ultimately show False using False by simp
    qed
    note w = st [OF t, unfolded if_not_P [OF this]]
    let ?s = "handle_mission_item_int L ?it s"
    have "item_for_us L (ms ! j) \<and> mi_seq (mission_item_int_decode L (ms ! j)) = of_nat (Suc i + j)" if "j < length ms" for j
      using Cons.prems(5) [of "Suc j"] that by simp
    from Cons.IH [of ?s "items @ [?it]" "Suc i", OF _ _ False _ this] w Cons.prems(4)
    have ih: "au_state (fold (auth_handle_new_message L) ms ?s) = STATE_IDLE \<and>
      au_sent (fold (auth_handle_new_message L) ms ?s) =
      au_sent ?s @ map (\<lambda>j. MissionRequestInt (au_target_system ?s) (of_nat j)) [Suc (Suc i)..<Suc i + length ms] @
      [CommandAck (verdict L (au_target_system ?s) ((items @ [?it]) @ map (mission_item_int_decode L) ms)), MissionAck (au_target_system ?s)]"
      by simp
    have u: "[Suc i..<Suc (i + length ms)] = Suc i # [Suc (Suc i)..<Suc (i + length ms)]"
      using False by (subst upt_conv_Cons) (simp_all del: upt_Suc)
    show ?thesis using ih w m(2) by (simp add: h u add.commute del: upt_Suc)
  qed
qed simp

lemma request_step:
  assumes "au_state s = STATE_IDLE" "request_for_us L req" "s1 = auth_handle_new_message L req s"
  shows "au_state s1 = STATE_WAITING_MISSING_COUNT" "au_target_system s1 = mm_sysid req" "au_sent s1 = au_sent s @
      [CommandAck \<lparr>ack_target_system = mm_sysid req, ack_command = CMD_ARM_AUTHORIZATION_REQUEST L, ack_result = RES_IN_PROGRESS L,
         ack_progress = 255, ack_result_param2 = 0\<rparr>, MissionRequestList (mm_sysid req)]"
  using assms by (simp_all add: auth_handle_new_message_def request_for_us_def handle_command_long_def auth_sending auth_clock_def Let_def)

lemma count_step:
  assumes "au_state s = STATE_WAITING_MISSING_COUNT" "count_for_us L cnt" "mc_count (mission_count_decode L cnt) \<noteq> 0"
    "s1 = auth_handle_new_message L cnt s"
  shows "au_state s1 = STATE_WAITING_MISSION_ITEMS" "au_target_system s1 = au_target_system s"
    "mission_item_count s1 = mc_count (mission_count_decode L cnt)" "seen [] s1" "au_sent s1 = au_sent s @ [MissionRequestInt (au_target_system s) 0]"
  using assms by (auto simp: auth_handle_new_message_def count_for_us_def handle_mission_count_def auth_sending seen_def)

lemma handle_item: "item_for_us L m \<Longrightarrow> auth_handle_new_message L m s = handle_mission_item_int L (mission_item_int_decode L m) s"
  by (auto simp: auth_handle_new_message_def item_for_us_def)

text \<open>C22: a request is decided by the mission. When the number of items and then all items in order
  arrive, the program asks for each of them, answers that arming is accepted exactly if no item is higher than the
  limit and otherwise denied with the number of the first item that is, and is idle again.\<close>

theorem mission_decides_authorization:
  assumes "au_state s = STATE_IDLE" "request_for_us L req" "count_for_us L cnt" "unat (mc_count (mission_count_decode L cnt)) = length ms" "ms \<noteq> []"
    "\<And>j. j < length ms \<Longrightarrow> item_for_us L (ms ! j) \<and> mi_seq (mission_item_int_decode L (ms ! j)) = of_nat j"
  shows "au_state (fold (auth_handle_new_message L) (req # cnt # ms) s) = STATE_IDLE \<and>
    au_sent (fold (auth_handle_new_message L) (req # cnt # ms) s) = au_sent s @
      [CommandAck \<lparr>ack_target_system = mm_sysid req, ack_command = CMD_ARM_AUTHORIZATION_REQUEST L, ack_result = RES_IN_PROGRESS L,
         ack_progress = 255, ack_result_param2 = 0\<rparr>, MissionRequestList (mm_sysid req)] @
      map (\<lambda>j. MissionRequestInt (mm_sysid req) (of_nat j)) [0..<length ms] @
      [CommandAck (verdict L (mm_sysid req) (map (mission_item_int_decode L) ms)), MissionAck (mm_sysid req)]"
proof -
  define s1 where "s1 = auth_handle_new_message L req s"
  note 1 = request_step [OF assms(1,2) s1_def]
  define s2 where "s2 = auth_handle_new_message L cnt s1"
  have "mc_count (mission_count_decode L cnt) \<noteq> 0" using assms(4,5) by auto
  note 2 = count_step [OF 1(1) assms(3) this s2_def]
  have u: "[0..<length ms] = 0 # [Suc 0..<length ms]" using assms(5) by (simp add: upt_rec [of 0])
  from mission_items_run [OF 2(1,4) assms(5), of 0 L] assms(4,6) 1 2
  show ?thesis by (simp add: s1_def [symmetric] s2_def [symmetric] u)
qed

definition ex_armlib :: armlib where
  "ex_armlib =
     \<lparr>MSG_ID_COMMAND_LONG = 76, MSG_ID_MISSION_COUNT = 44, MSG_ID_MISSION_ITEM_INT = 73, CMD_ARM_AUTHORIZATION_REQUEST = 3001,
      RES_ACCEPTED = 0, RES_DENIED = 2, RES_FAILED = 4, RES_IN_PROGRESS = 5, REASON_INVALID_WAYPOINT = 2, REASON_TIMEOUT = 3,
      command_long_decode = (\<lambda>_. \<lparr>cl_command = 3001, cl_target_system = 10\<rparr>),
      mission_count_decode = (\<lambda>m. \<lparr>mc_count = ucast (mm_payload m ! 0), mc_target_system = 10\<rparr>),
      mission_item_int_decode = (\<lambda>m. \<lparr>mi_seq = ucast (mm_payload m ! 0), mi_target_system = 10, mi_z = Fin (of_nat (unat (mm_payload m ! 1)))\<rparr>)\<rparr>"

definition ex_arm_msg :: "u32 \<Rightarrow> bytes \<Rightarrow> mavmsg" where
  "ex_arm_msg k d = \<lparr>mm_sysid = 1, mm_msgid = k, mm_payload = d\<rparr>"

lemma ex_arm_for_us [simp]:
  "request_for_us ex_armlib (ex_arm_msg 76 d)" "count_for_us ex_armlib (ex_arm_msg 44 d)" "item_for_us ex_armlib (ex_arm_msg 73 d)" "mm_sysid (ex_arm_msg k d) = 1"
  "mc_count (mission_count_decode ex_armlib (ex_arm_msg k d)) = ucast (d ! 0)"
  "mission_item_int_decode ex_armlib (ex_arm_msg k d) = \<lparr>mi_seq = ucast (d ! 0), mi_target_system = 10, mi_z = Fin (of_nat (unat (d ! 1)))\<rparr>"
  by (simp_all add: request_for_us_def count_for_us_def item_for_us_def ex_armlib_def ex_arm_msg_def)

text \<open>A mission of two items, the second one too high.\<close>

lemma mission_decides_authorization_witness:
  "last (butlast (au_sent (fold (auth_handle_new_message ex_armlib) [ex_arm_msg 76 [], ex_arm_msg 44 [2], ex_arm_msg 73 [0, 10], ex_arm_msg 73 [1, 16]]
     (authorizer_init (\<lambda>_. mono_zero))))) =
   CommandAck \<lparr>ack_target_system = 1, ack_command = 3001, ack_result = 2, ack_progress = 2, ack_result_param2 = 1\<rparr>"
proof -
  have j: "j = 0 \<or> j = 1" if "j < length [ex_arm_msg 73 [0, 10], ex_arm_msg 73 [1, 16]]" for j using that by auto
  have v: "verdict ex_armlib 1 (map (mission_item_int_decode ex_armlib) [ex_arm_msg 73 [0, 10], ex_arm_msg 73 [1, 16]]) =
      \<lparr>ack_target_system = 1, ack_command = 3001, ack_result = 2, ack_progress = 2, ack_result_param2 = 1\<rparr>"
    by (simp add: verdict_def too_high_def) (simp add: ex_armlib_def)
  let ?ms = "[ex_arm_msg 73 [0, 10], ex_arm_msg 73 [1, 16]]"
  have 1: "item_for_us ex_armlib (?ms ! j) \<and> mi_seq (mission_item_int_decode ex_armlib (?ms ! j)) = of_nat j" if "j < length ?ms" for j
    using j [OF that] by auto
  have 0: "au_state (authorizer_init (\<lambda>_. mono_zero)) = STATE_IDLE" "au_sent (authorizer_init (\<lambda>_. mono_zero)) = []"
    by (simp_all add: authorizer_init_def)
  have 2: "unat (mc_count (mission_count_decode ex_armlib (ex_arm_msg 44 [2]))) = length ?ms" by simp
  from mission_decides_authorization [OF 0(1) ex_arm_for_us(1) [of "[]"] ex_arm_for_us(2) 2 _ 1] v show ?thesis
    by (simp add: 0(2) butlast_append)
qed

section \<open>Any sequence of messages and checks\<close>

datatype auth_act = Msg mavmsg | Check

fun auth_do :: "armlib \<Rightarrow> auth_act \<Rightarrow> authorizer \<Rightarrow> authorizer" where
  "auth_do L (Msg m) s = auth_handle_new_message L m s"
| "auth_do L Check s = auth_check L s"

text \<open>The loop is such a sequence.\<close>

lemma auth_do_exit [simp]: "au_should_exit (auth_do L a s) = au_should_exit s"
  by (cases a) (simp_all add: auth_handle_new_message_def handle_command_long_def handle_mission_count_def handle_mission_item_int_def auth_check_def
      auth_sending auth_send_def auth_clock_def Let_def case_prod_unfold)

text \<open>Every request gets one answer: of the acknowledgements sent, those that announce work and those that end it alternate in
  number.\<close>

definition acks :: "(u8 \<Rightarrow> bool) \<Rightarrow> auth_msg list \<Rightarrow> nat" where
  "acks P ms = length (filter (\<lambda>m. case m of CommandAck a \<Rightarrow> P (ack_result a) | _ \<Rightarrow> False) ms)"

definition results_differ :: "armlib \<Rightarrow> bool" where
  "results_differ L \<longleftrightarrow> RES_IN_PROGRESS L \<notin> {RES_ACCEPTED L, RES_DENIED L, RES_FAILED L} \<and> RES_ACCEPTED L \<notin> {RES_DENIED L, RES_FAILED L}"

definition answered :: "armlib \<Rightarrow> authorizer \<Rightarrow> bool" where
  "answered L s \<longleftrightarrow> acks (\<lambda>r. r = RES_IN_PROGRESS L) (au_sent s) =
     acks (\<lambda>r. r \<noteq> RES_IN_PROGRESS L) (au_sent s) + (if au_state s = STATE_IDLE then 0 else 1)"

lemma acks_simps [simp]:
  "acks P [] = 0" "acks P (as @ bs) = acks P as + acks P bs" "acks P (CommandAck a # ms) = (if P (ack_result a) then 1 else 0) + acks P ms"
  "acks P (MissionRequestList t # ms) = acks P ms" "acks P (MissionRequestInt t q # ms) = acks P ms"
  "acks P (MissionAck t # ms) = acks P ms" "acks P (AuthHeartbeat # ms) = acks P ms"
  by (simp_all add: acks_def)

lemma answered_step:
  assumes "results_differ L" "answered L s" shows "answered L (auth_do L a s)"
proof -
  have r: "RES_ACCEPTED L \<noteq> RES_IN_PROGRESS L" "RES_DENIED L \<noteq> RES_IN_PROGRESS L" "RES_FAILED L \<noteq> RES_IN_PROGRESS L"
    using assms(1) by (auto simp: results_differ_def)
  show ?thesis
  proof (cases a)
    case (Msg m)
    then show ?thesis using assms(2) r
      by (auto simp: auth_handle_new_message_def handle_command_long_def handle_mission_count_def handle_mission_item_int_def answered_def
          auth_sending auth_clock_def Let_def)
  next
    case Check
    then show ?thesis using assms(2) r
      by (auto simp: auth_check_def answered_def auth_sending auth_clock_def Let_def)
  qed
qed


definition auth_run :: "armlib \<Rightarrow> (nat \<Rightarrow> mono_time) \<Rightarrow> auth_act list \<Rightarrow> authorizer" where
  "auth_run L clock acts = fold (auth_do L) acts (authorizer_init clock)"

lemma auth_run_snoc [simp]: "auth_run L clock (acts @ [a]) = auth_do L a (auth_run L clock acts)"
  by (simp add: auth_run_def)

lemma answered_run: "results_differ L \<Longrightarrow> answered L (auth_run L clock acts)"
  by (induction acts rule: rev_induct) (auto simp: answered_step, simp add: auth_run_def answered_def authorizer_init_def)

text \<open>A count is taken up when it arrives while a request waits for it; its items are read as long as the program waits
  for items.\<close>

definition taken_up :: "armlib \<Rightarrow> (nat \<Rightarrow> mono_time) \<Rightarrow> auth_act list \<Rightarrow> mavmsg \<Rightarrow> auth_act list \<Rightarrow> bool" where
  "taken_up L clock pre c mid \<longleftrightarrow> au_state (auth_run L clock pre) = STATE_WAITING_MISSING_COUNT \<and>
     (\<forall>k \<le> length mid. au_state (auth_run L clock (pre @ Msg c # take k mid)) = STATE_WAITING_MISSION_ITEMS)"

lemma taken_up_snoc:
  assumes "taken_up L clock pre c mid" "au_state (auth_run L clock (pre @ Msg c # mid @ [a])) = STATE_WAITING_MISSION_ITEMS"
  shows "taken_up L clock pre c (mid @ [a])"
  unfolding taken_up_def
proof (intro conjI allI impI)
  fix k assume "k \<le> length (mid @ [a])"
  then consider "k \<le> length mid" | "k = Suc (length mid)" by fastforce
  then show "au_state (auth_run L clock (pre @ Msg c # take k (mid @ [a]))) = STATE_WAITING_MISSION_ITEMS"
    using assms by cases (simp_all add: taken_up_def)
qed (use assms in \<open>simp add: taken_up_def\<close>)

text \<open>While items are awaited, what the program knows of the mission.\<close>

definition mission_known :: "armlib \<Rightarrow> (nat \<Rightarrow> mono_time) \<Rightarrow> auth_act list \<Rightarrow> authorizer \<Rightarrow> bool" where
  "mission_known L clock acts s \<longleftrightarrow> (au_state s = STATE_WAITING_MISSION_ITEMS \<longrightarrow>
     (\<exists>pre c mid. acts = pre @ Msg c # mid \<and> count_for_us L c \<and> taken_up L clock pre c mid \<and> mission_item_count s = mc_count (mission_count_decode L c) \<and>
        (mission_valid s \<longrightarrow> (\<forall>m. Msg m \<in> set mid \<longrightarrow> item_for_us L m \<longrightarrow> \<not> too_high (mission_item_int_decode L m)))))"

lemma mission_known_same:
  assumes "mission_known L clock acts s" "s' = auth_run L clock (acts @ [a])" "au_state s' = au_state s" "mission_item_count s' = mission_item_count s" "mission_valid s' \<longrightarrow> mission_valid s"
    "\<And>m. a = Msg m \<Longrightarrow> mission_valid s' \<Longrightarrow> item_for_us L m \<Longrightarrow> \<not> too_high (mission_item_int_decode L m)"
  shows "mission_known L clock (acts @ [a]) s'"
  unfolding mission_known_def
proof
  assume st: "au_state s' = STATE_WAITING_MISSION_ITEMS"
  then obtain pre c mid where m: "acts = pre @ Msg c # mid" "count_for_us L c" "taken_up L clock pre c mid" "mission_item_count s = mc_count (mission_count_decode L c)"
      "mission_valid s \<longrightarrow> (\<forall>m. Msg m \<in> set mid \<longrightarrow> item_for_us L m \<longrightarrow> \<not> too_high (mission_item_int_decode L m))"
    using assms(1,3) unfolding mission_known_def by auto
  have "taken_up L clock pre c (mid @ [a])" using taken_up_snoc [OF m(3)] st assms(2) m(1) by simp
  then show "\<exists>pre c mid. acts @ [a] = pre @ Msg c # mid \<and> count_for_us L c \<and> taken_up L clock pre c mid \<and> mission_item_count s' = mc_count (mission_count_decode L c) \<and>
        (mission_valid s' \<longrightarrow> (\<forall>m. Msg m \<in> set mid \<longrightarrow> item_for_us L m \<longrightarrow> \<not> too_high (mission_item_int_decode L m)))"
    using m assms(4-6) by (intro exI [of _ pre] exI [of _ c] exI [of _ "mid @ [a]"]) auto
qed

lemma mission_known_idle: "au_state s \<noteq> STATE_WAITING_MISSION_ITEMS \<Longrightarrow> mission_known L clock acts s"
  by (simp add: mission_known_def)

lemma mission_known_item:
  assumes "mission_known L clock acts s" "au_state s = STATE_WAITING_MISSION_ITEMS" "item_for_us L m"
    "handle_mission_item_int L (mission_item_int_decode L m) s = auth_run L clock (acts @ [Msg m])"
  shows "mission_known L clock (acts @ [Msg m]) (handle_mission_item_int L (mission_item_int_decode L m) s)"
proof (cases "mi_seq (mission_item_int_decode L m) + 1 = mission_item_count s")
  case True
  then show ?thesis using assms(2,3) by (intro mission_known_idle) (simp add: handle_mission_item_int_def item_for_us_def Let_def)
next
  case False
  let ?it = "mission_item_int_decode L m"
  have e: "handle_mission_item_int L ?it s = mission_request_int_send (mi_seq ?it + 1)
      (if mission_valid s \<and> too_high ?it then s\<lparr>mission_valid := False, first_mission_item_invalid := mi_seq ?it\<rparr> else s)"
    using False assms(2,3) by (auto simp: handle_mission_item_int_def item_for_us_def too_high_def Let_def)
  show ?thesis unfolding e by (rule mission_known_same [OF assms(1) assms(4) [unfolded e]]) (auto simp: auth_sending split: if_splits)
qed

lemma mission_known_step:
  assumes "mission_known L clock acts s" "s = auth_run L clock acts" shows "mission_known L clock (acts @ [a]) (auth_do L a s)"
proof (cases a)
  case Check
  have "au_state (auth_check L s) = STATE_IDLE \<or>
      (au_state (auth_check L s) = au_state s \<and> mission_item_count (auth_check L s) = mission_item_count s \<and> mission_valid (auth_check L s) = mission_valid s)"
    by (simp add: auth_check_def auth_sending auth_clock_def Let_def)
  then show ?thesis using mission_known_same [OF assms(1), of "auth_check L s" Check] mission_known_idle Check assms(2) by auto
next
  case (Msg m)
  define s' where "s' = auth_handle_new_message L m s"
  have "(au_state s = STATE_WAITING_MISSION_ITEMS \<and> item_for_us L m \<and> s' = handle_mission_item_int L (mission_item_int_decode L m) s)
    \<or> (au_state s' = STATE_WAITING_MISSION_ITEMS \<and> au_state s = STATE_WAITING_MISSING_COUNT \<and> count_for_us L m \<and> mission_item_count s' = mc_count (mission_count_decode L m))
    \<or> au_state s' \<noteq> STATE_WAITING_MISSION_ITEMS \<or> (s' = s \<and> \<not> item_for_us L m)"
  proof (cases "mm_msgid m = MSG_ID_COMMAND_LONG L")
    case True
    then show ?thesis
      by (auto simp: s'_def auth_handle_new_message_def handle_command_long_def item_for_us_def auth_sending auth_clock_def Let_def)
  next
    case c: False
    show ?thesis
    proof (cases "mm_msgid m = MSG_ID_MISSION_COUNT L")
      case True
      then show ?thesis using c
        by (auto simp: s'_def auth_handle_new_message_def handle_mission_count_def item_for_us_def count_for_us_def auth_sending)
    next
      case False
      then show ?thesis using c by (auto simp: s'_def auth_handle_new_message_def handle_mission_item_int_def item_for_us_def)
    qed
  qed
  then consider (item) "au_state s = STATE_WAITING_MISSION_ITEMS" "item_for_us L m" "s' = handle_mission_item_int L (mission_item_int_decode L m) s"
    | (count) "au_state s' = STATE_WAITING_MISSION_ITEMS" "au_state s = STATE_WAITING_MISSING_COUNT" "count_for_us L m" "mission_item_count s' = mc_count (mission_count_decode L m)"
    | (other) "au_state s' \<noteq> STATE_WAITING_MISSION_ITEMS" | (same) "s' = s" "\<not> item_for_us L m"
    by blast
  then have "mission_known L clock (acts @ [Msg m]) s'"
  proof cases
    case item
    have "handle_mission_item_int L (mission_item_int_decode L m) s = auth_run L clock (acts @ [Msg m])"
      using item(3) assms(2) s'_def by simp
    from mission_known_item [OF assms(1) item(1,2) this] show ?thesis by (simp only: item(3))
  next
    case count
    then have "taken_up L clock acts m []" using assms(2) s'_def by (simp add: taken_up_def)
    then show ?thesis using count unfolding mission_known_def by (intro impI exI [of _ acts] exI [of _ m] exI [of _ "[]"]) simp
  next
    case other
    then show ?thesis by (rule mission_known_idle)
  next
    case same
    then show ?thesis using assms(2) s'_def by (intro mission_known_same [OF assms(1)]) auto
  qed
  then show ?thesis using Msg s'_def by simp
qed


lemma mission_known_run: "mission_known L clock acts (auth_run L clock acts)"
  by (induction acts rule: rev_induct) (simp_all add: mission_known_step, simp add: mission_known_def auth_run_def authorizer_init_def)

text \<open>An acknowledgement of success is sent for the last item of a mission only.\<close>

lemma accepted_for_item:
  assumes "results_differ L" "au_sent (auth_do L a s) = au_sent s @ new" "CommandAck ack \<in> set new" "ack_result ack = RES_ACCEPTED L"
  obtains m where "a = Msg m" "item_for_us L m" "au_state s = STATE_WAITING_MISSION_ITEMS" "mission_valid s"
    "mi_seq (mission_item_int_decode L m) + 1 = mission_item_count s" "\<not> too_high (mission_item_int_decode L m)"
proof -
  have r: "RES_ACCEPTED L \<noteq> RES_IN_PROGRESS L" "RES_ACCEPTED L \<noteq> RES_DENIED L" "RES_ACCEPTED L \<noteq> RES_FAILED L"
    using assms(1) by (auto simp: results_differ_def)
  show thesis
  proof (cases a)
    case Check
    then show thesis using assms r by (auto simp: auth_check_def auth_sending auth_clock_def Let_def split: if_splits)
  next
    case (Msg m)
    let ?it = "mission_item_int_decode L m"
    have h: "auth_handle_new_message L m s = handle_mission_item_int L ?it s \<and> item_for_us L m"
      using assms(2-4) Msg r
      by (auto simp: auth_handle_new_message_def handle_command_long_def handle_mission_count_def handle_mission_item_int_def item_for_us_def auth_sending
          auth_clock_def Let_def split: if_splits)
    then show thesis using assms(2-4) Msg r
      by (intro that [of m]) (auto simp: handle_mission_item_int_def too_high_def auth_sending Let_def split: if_splits)
  qed
qed

text \<open>C30: arming is accepted only for the last item of a mission whose items were all low enough. Whatever messages and
  checks came before, the acceptance answers an item for this system; the mission it belongs to is the one whose count
  was received while a request waited for it and whose items have been read since without interruption, its number is
  the last one of that count, and no item received since the count was higher than the limit. Counts that arrive while
  items are read are ignored by the program and do not matter here.\<close>

theorem accepted_only_valid_missions:
  assumes "results_differ L" "au_sent (auth_run L clock (acts @ [a])) = au_sent (auth_run L clock acts) @ new"
    "CommandAck ack \<in> set new" "ack_result ack = RES_ACCEPTED L"
  shows "\<exists>pre c mid m. acts = pre @ Msg c # mid \<and> a = Msg m \<and> count_for_us L c \<and> item_for_us L m \<and>
    au_state (auth_run L clock pre) = STATE_WAITING_MISSING_COUNT \<and>
    (\<forall>k \<le> length mid. au_state (auth_run L clock (pre @ Msg c # take k mid)) = STATE_WAITING_MISSION_ITEMS) \<and>
    mi_seq (mission_item_int_decode L m) + 1 = mc_count (mission_count_decode L c) \<and>
    (\<forall>i. Msg i \<in> set (mid @ [a]) \<longrightarrow> item_for_us L i \<longrightarrow> \<not> flt_less MAX_VALID_ALTITUDE (mi_z (mission_item_int_decode L i)))"
proof -
  let ?s = "auth_run L clock acts"
  obtain m where m: "a = Msg m" "item_for_us L m" "au_state ?s = STATE_WAITING_MISSION_ITEMS" "mission_valid ?s"
    "mi_seq (mission_item_int_decode L m) + 1 = mission_item_count ?s" "\<not> too_high (mission_item_int_decode L m)"
    using accepted_for_item [OF assms(1) _ assms(3,4), of a ?s] assms(2) by auto
  obtain pre c mid where "acts = pre @ Msg c # mid" "count_for_us L c" "taken_up L clock pre c mid" "mission_item_count ?s = mc_count (mission_count_decode L c)"
    "\<forall>m. Msg m \<in> set mid \<longrightarrow> item_for_us L m \<longrightarrow> \<not> too_high (mission_item_int_decode L m)"
    using mission_known_run [of L clock acts] m(3,4) unfolding mission_known_def by blast
  then show ?thesis using m by (intro exI [of _ pre] exI [of _ c] exI [of _ mid] exI [of _ m]) (auto simp: too_high_def taken_up_def)
qed

lemma accepted_only_valid_missions_witness:
  "\<exists>new ack. au_sent (auth_run ex_armlib (\<lambda>_. mono_zero) ([Msg (ex_arm_msg 76 []), Msg (ex_arm_msg 44 [1])] @ [Msg (ex_arm_msg 73 [0, 3])])) =
       au_sent (auth_run ex_armlib (\<lambda>_. mono_zero) [Msg (ex_arm_msg 76 []), Msg (ex_arm_msg 44 [1])]) @ new \<and>
     CommandAck ack \<in> set new \<and> ack_result ack = 0 \<and> \<not> flt_less MAX_VALID_ALTITUDE (mi_z (mission_item_int_decode ex_armlib (ex_arm_msg 73 [0, 3])))"
proof -
  let ?a = "\<lparr>ack_target_system = 1, ack_command = 3001, ack_result = 0, ack_progress = 0, ack_result_param2 = 60\<rparr>"
  have n: "au_sent (auth_run ex_armlib (\<lambda>_. mono_zero) ([Msg (ex_arm_msg 76 []), Msg (ex_arm_msg 44 [1])] @ [Msg (ex_arm_msg 73 [0, 3])])) =
       au_sent (auth_run ex_armlib (\<lambda>_. mono_zero) [Msg (ex_arm_msg 76 []), Msg (ex_arm_msg 44 [1])]) @ [CommandAck ?a, MissionAck 1]"
    by (simp add: auth_run_def auth_handle_new_message_def handle_command_long_def handle_mission_count_def handle_mission_item_int_def
        authorizer_init_def ex_armlib_def ex_arm_msg_def auth_sending auth_send_def auth_clock_def Let_def)
  have "results_differ ex_armlib" "ack_result ?a = RES_ACCEPTED ex_armlib" by (simp_all add: results_differ_def ex_armlib_def)
  from accepted_only_valid_missions [OF this(1) n _ this(2)] n show ?thesis by fastforce
qed

text \<open>The loop does nothing else than handling messages and checking times.\<close>

lemma auth_do_exit_update: "auth_do L a (s\<lparr>au_should_exit := b\<rparr>) = (auth_do L a s)\<lparr>au_should_exit := b\<rparr>"
  by (cases a) (simp_all add: auth_handle_new_message_def handle_command_long_def handle_mission_count_def handle_mission_item_int_def auth_check_def
      auth_sending auth_send_def auth_clock_def Let_def case_prod_unfold)

lemma auth_dos_exit_update: "fold (auth_do L) acts (s\<lparr>au_should_exit := b\<rparr>) = (fold (auth_do L) acts s)\<lparr>au_should_exit := b\<rparr>"
  by (induction acts arbitrary: s) (simp_all add: auth_do_exit_update)

lemma auth_loop_acts: "\<exists>acts b. snd (auth_loop P L rs (p, s)) = (fold (auth_do L) acts s)\<lparr>au_should_exit := b\<rparr>"
proof (induction rs arbitrary: p s)
  case Nil
  show ?case by (rule exI [of _ "[]"], rule exI [of _ "au_should_exit s"]) simp
next
  case (Cons x rs)
  obtain sig r where x: "x = (sig, r)" by fastforce
  define b where "b = (sig \<or> au_should_exit s)"
  have s1: "(if sig then s\<lparr>au_should_exit := True\<rparr> else s) = s\<lparr>au_should_exit := b\<rparr>" by (simp add: b_def)
  have 0: ?case if "snd (auth_loop P L (x # rs) (p, s)) = s\<lparr>au_should_exit := c\<rparr>" for c
    using that by (intro exI [of _ "[]"]) auto
  show ?case
  proof (cases "au_should_exit s")
    case True
    show ?thesis by (rule 0 [of True]) (use True x in simp)
  next
    case False
    show ?thesis
    proof (cases r)
      case (RecvErr e)
      obtain acts c where "snd (auth_loop P L rs (p, s\<lparr>au_should_exit := b\<rparr>)) = (fold (auth_do L) acts (s\<lparr>au_should_exit := b\<rparr>))\<lparr>au_should_exit := c\<rparr>"
        using Cons.IH by blast
      then have "e = EINTR \<Longrightarrow> snd (auth_loop P L (x # rs) (p, s)) = (fold (auth_do L) acts s)\<lparr>au_should_exit := c\<rparr>"
        using False x RecvErr by (simp add: s1 auth_dos_exit_update)
      moreover have "e \<noteq> EINTR \<Longrightarrow> snd (auth_loop P L (x # rs) (p, s)) = s\<lparr>au_should_exit := b\<rparr>" using False x RecvErr by (simp add: s1)
      ultimately show ?thesis using 0 by blast
    next
      case (RecvBytes bs)
      define as where "as = map Msg (parsed P p bs) @ [Check]"
      have f: "fold (auth_handle_new_message L) ms t = fold (auth_do L) (map Msg ms) t" for ms t by (induction ms arbitrary: t) simp_all
      obtain acts c where "snd (auth_loop P L rs (parser_after P p bs, fold (auth_do L) as (s\<lparr>au_should_exit := b\<rparr>))) =
          (fold (auth_do L) acts (fold (auth_do L) as (s\<lparr>au_should_exit := b\<rparr>)))\<lparr>au_should_exit := c\<rparr>"
        using Cons.IH by blast
      then have "snd (auth_loop P L (x # rs) (p, s)) = (fold (auth_do L) (as @ acts) s)\<lparr>au_should_exit := c\<rparr>"
        using False x RecvBytes by (simp add: s1 feed_fold f as_def auth_dos_exit_update auth_do_exit_update auth_do_exit_update [where a = Check, simplified])
      then show ?thesis by blast
    qed
  qed
qed

text \<open>C23: every request is answered once. Whatever bytes, errors and times the program meets, it has sent as many final
  answers as announcements of work, and one less exactly while it is working on a request.\<close>

theorem requests_answered_once:
  assumes "results_differ L" "auth_main P L sock conn rs (p, authorizer_init clock) = (code, p1, s)"
  shows "acks (\<lambda>r. r = RES_IN_PROGRESS L) (au_sent s) = acks (\<lambda>r. r \<noteq> RES_IN_PROGRESS L) (au_sent s) + (if au_state s = STATE_IDLE then 0 else 1)"
proof -
  obtain acts b where "snd (auth_loop P L rs (p, authorizer_init clock)) = (auth_run L clock acts)\<lparr>au_should_exit := b\<rparr>"
    using auth_loop_acts [of P L rs p "authorizer_init clock"] unfolding auth_run_def by blast
  moreover have "(authorizer_init clock)\<lparr>heartbeat_timeout := mono_zero\<rparr> = authorizer_init clock" by (simp add: authorizer_init_def)
  ultimately have "s = (auth_run L clock acts)\<lparr>au_should_exit := b\<rparr> \<or> s = authorizer_init clock"
    using assms(2) by (auto simp: auth_main_def split: if_splits)
  then show ?thesis using answered_run [OF assms(1), of clock acts] by (auto simp: answered_def authorizer_init_def)
qed


lemma requests_answered_once_witness:
  "\<exists>s. auth_main (\<lambda>p b. (p, Some (ex_arm_msg (ucast b) [1]))) ex_armlib 3 0 [(False, RecvBytes [76])] ((), authorizer_init (\<lambda>_. mono_zero)) = (0, (), s)
     \<and> au_state s = STATE_WAITING_MISSING_COUNT \<and> acks (\<lambda>r. r = 5) (au_sent s) = acks (\<lambda>r. r \<noteq> 5) (au_sent s) + 1"
proof -
  have "\<exists>s. auth_main (\<lambda>p b. (p, Some (ex_arm_msg (ucast b) [1]))) ex_armlib 3 0 [(False, RecvBytes [76])] ((), authorizer_init (\<lambda>_. mono_zero)) = (0, (), s)
     \<and> au_state s = STATE_WAITING_MISSING_COUNT"
    by (simp add: auth_main_def auth_handle_new_message_def handle_command_long_def auth_check_def authorizer_init_def ex_armlib_def ex_arm_msg_def
        auth_sending auth_send_def auth_clock_def timespec_compare_def Let_def)
  then obtain s where s: "auth_main (\<lambda>p b. (p, Some (ex_arm_msg (ucast b) [1]))) ex_armlib 3 0 [(False, RecvBytes [76])] ((), authorizer_init (\<lambda>_. mono_zero)) = (0, (), s)"
    "au_state s = STATE_WAITING_MISSING_COUNT" by blast
  have "results_differ ex_armlib" "RES_IN_PROGRESS ex_armlib = 5" by (simp_all add: results_differ_def ex_armlib_def)
  from requests_answered_once [OF this(1) s(1)] s this(2) show ?thesis by simp
qed

section \<open>What is not checked\<close>

text \<open>Whether the items before the last one were received is not checked: the last item alone is enough.\<close>

lemma last_item_alone_authorizes:
  assumes "au_state s = STATE_IDLE" "request_for_us L req" "count_for_us L cnt" "item_for_us L m"
    "mc_count (mission_count_decode L cnt) \<noteq> 0" "mi_seq (mission_item_int_decode L m) + 1 = mc_count (mission_count_decode L cnt)"
    "\<not> too_high (mission_item_int_decode L m)"
  shows "\<exists>ack. CommandAck ack \<in> set (au_sent (fold (auth_handle_new_message L) [req, cnt, m] s)) \<and> ack_result ack = RES_ACCEPTED L"
proof -
  define s1 where "s1 = auth_handle_new_message L req s"
  define s2 where "s2 = auth_handle_new_message L cnt s1"
  note 1 = request_step [OF assms(1,2) s1_def]
  note 2 = count_step [OF 1(1) assms(3,5) s2_def]
  let ?it = "mission_item_int_decode L m"
  have "mi_target_system ?it = AUTH_SYSTEM_ID" using assms(4) by (simp add: item_for_us_def)
  from mission_item_step [OF 2(1) this 2(4), of L] assms(6) 2(3)
  have "au_sent (handle_mission_item_int L ?it s2) = au_sent s2 @ [CommandAck (verdict L (au_target_system s2) [?it]), MissionAck (au_target_system s2)]"
    by simp
  moreover have "ack_result (verdict L (au_target_system s2) [?it]) = RES_ACCEPTED L" using assms(7) by (simp add: verdict_def)
  ultimately show ?thesis by (auto simp: s1_def [symmetric] s2_def [symmetric] handle_item [OF assms(4)])
qed

text \<open>An altitude that is no number is not too high.\<close>

lemma altitude_without_value_accepted: "mi_z item = NaN \<Longrightarrow> \<not> too_high item"
  by (simp add: too_high_def)

end
