(* ===== verification/Offboard.thy ===== *)
theory Offboard
  imports ExampleLib
begin

text \<open>
  The example \<open>px4-offboard-mode\<close> (examples/px4-offboard-mode.cpp): a program that flies a vehicle along a square by a list of
  tasks, one step every 50 ms. Ids, constants and decoders of the generated MAVLink library are parameters. What
  is printed is the list \<open>ob_out\<close> of lines, what is sent \<open>ob_sent\<close>; the result of \<open>sendto\<close> is only
  reported on the error output. Every message has the sender 11 and the target system 1, all components.
\<close>

section \<open>Data\<close>

datatype px4_modes = PX4_MODE_UNKNOWN | PX4_MODE_OFFBOARD | PX4_MODE_LAST

definition mode_name :: "px4_modes \<Rightarrow> string" where
  "mode_name m = (if m = PX4_MODE_OFFBOARD then ''offboard'' else ''unknown'')"

datatype actions =
  ARM_DISARM | SET_MODE | MOVE_X | MOVE_Y | MOVE_Z | WAIT_MOVE | LAND | WAIT_LAND | CHECK_STATE | END

record tasks =
  action :: actions
  param1 :: int

abbreviation task :: "actions \<Rightarrow> int \<Rightarrow> tasks" where "task a p \<equiv> \<lparr>action = a, param1 = p\<rparr>"

definition task_list :: "tasks list" where
  "task_list =
     [task CHECK_STATE 0, task SET_MODE 0, task ARM_DISARM 1, task MOVE_Z (-5), task WAIT_MOVE 0, task MOVE_X 5, task WAIT_MOVE 0,
      task MOVE_Y 5, task WAIT_MOVE 0, task MOVE_X (-5), task WAIT_MOVE 0, task MOVE_Y (-5), task WAIT_MOVE 0, task LAND 0,
      task WAIT_LAND 0, task ARM_DISARM 0, task END 0]"

record offlib =
  OB_ID_HEARTBEAT :: u32
  OB_ID_COMMAND_ACK :: u32
  OB_ID_LOCAL_POSITION_NED :: u32
  OB_ID_EXTENDED_SYS_STATE :: u32
  OB_ID_HOME_POSITION :: u32
  FLAG_SAFETY_ARMED :: u8
  FLAG_CUSTOM_MODE_ENABLED :: u8
  LANDED_STATE_IN_AIR :: u8
  LANDED_STATE_ON_GROUND :: u8
  LANDED_STATE_LANDING :: u8
  OB_RESULT_ACCEPTED :: u8
  CMD_DO_SET_MODE :: u16
  CMD_COMPONENT_ARM_DISARM :: u16
  CMD_NAV_LAND :: u16
  ob_heartbeat_decode :: "mavmsg \<Rightarrow> u8 \<times> u32"
  ob_command_ack_decode :: "mavmsg \<Rightarrow> u16 \<times> u8"
  local_position_ned_decode :: "mavmsg \<Rightarrow> flt \<times> flt \<times> flt"
  extended_sys_state_decode :: "mavmsg \<Rightarrow> u8"

text \<open>A set point is valid in X, Y, Z and yaw; a command has seven parameters.\<close>

record set_position =
  sp_time_boot_ms :: u32
  sp_type_mask :: u16
  sp_x :: flt
  sp_y :: flt
  sp_z :: flt
  sp_yaw :: flt

datatype ob_msg = SetPosition set_position | ObCommand u16 "flt list"

text \<open>The static variables of the program, those inside functions too.\<close>

record offboard =
  ob_should_exit :: bool
  current_mode :: px4_modes
  ob_armed :: bool
  in_the_air :: bool
  landing :: bool
  vehicle_x :: flt
  vehicle_y :: flt
  vehicle_z :: flt
  have_basic_info_mask :: u8
  task_list_index :: u8
  home_first :: bool
  initial_msec :: u64
  set_x :: flt
  set_y :: flt
  set_z :: flt
  set_yaw :: flt
  wait_count :: u8
  ob_now_usec :: "nat \<Rightarrow> u64"
  ob_tick :: nat
  ob_out :: "string list"
  ob_sent :: "ob_msg list"

abbreviation TARGET_SYSTEM_ID :: u8 where "TARGET_SYSTEM_ID \<equiv> 1"
abbreviation PX4_MAIN_MODE_CUSTOM :: rat where "PX4_MAIN_MODE_CUSTOM \<equiv> 1"
abbreviation PX4_CUSTOM_MODE_OFFBOARD :: nat where "PX4_CUSTOM_MODE_OFFBOARD \<equiv> 6"
abbreviation SETPOINT_RANGE :: flt where "SETPOINT_RANGE \<equiv> Fin (1 / 4)"
abbreviation BASIC_INFO_HEARTBEAT_BIT :: u8 where "BASIC_INFO_HEARTBEAT_BIT \<equiv> 1"
abbreviation BASIC_INFO_LOCAL_POSITION_NED_BIT :: u8 where "BASIC_INFO_LOCAL_POSITION_NED_BIT \<equiv> 2"
abbreviation BASIC_INFO_EXTENDED_SYS_STATE_BIT :: u8 where "BASIC_INFO_EXTENDED_SYS_STATE_BIT \<equiv> 4"
abbreviation BASIC_INFO_HOME_POSITION :: u8 where "BASIC_INFO_HOME_POSITION \<equiv> 8"
abbreviation BASIC_INFO_ALL_BITS :: u8 where "BASIC_INFO_ALL_BITS \<equiv> 15"

definition offboard_init :: "(nat \<Rightarrow> u64) \<Rightarrow> offboard" where
  "offboard_init clock =
     \<lparr>ob_should_exit = False, current_mode = PX4_MODE_UNKNOWN, ob_armed = False, in_the_air = False, landing = False,
      vehicle_x = Fin 0, vehicle_y = Fin 0, vehicle_z = Fin 0, have_basic_info_mask = 0, task_list_index = 0, home_first = True,
      initial_msec = 0, set_x = Fin 0, set_y = Fin 0, set_z = Fin 0, set_yaw = Fin 0, wait_count = 15,
      ob_now_usec = clock, ob_tick = 0, ob_out = [], ob_sent = []\<rparr>"

definition ob_print :: "string \<Rightarrow> offboard \<Rightarrow> offboard" where
  "ob_print line s = s\<lparr>ob_out := ob_out s @ [line]\<rparr>"

definition ob_send :: "ob_msg \<Rightarrow> offboard \<Rightarrow> offboard" where
  "ob_send m s = s\<lparr>ob_sent := ob_sent s @ [m]\<rparr>"

section \<open>Messages of the vehicle\<close>

definition ob_handle_command_ack :: "offlib \<Rightarrow> u16 \<times> u8 \<Rightarrow> offboard \<Rightarrow> offboard" where
  "ob_handle_command_ack L ack s =
     (if fst ack = CMD_DO_SET_MODE L then (if snd ack \<noteq> OB_RESULT_ACCEPTED L then ob_print ''Set mode has failed'' s else s)
      else if fst ack = CMD_COMPONENT_ARM_DISARM L then
        (if snd ack \<noteq> OB_RESULT_ACCEPTED L then ob_print ''Arm or disarm command has failed'' s else s)
      else s)"

definition handle_heartbeat :: "offlib \<Rightarrow> u8 \<times> u32 \<Rightarrow> offboard \<Rightarrow> offboard" where
  "handle_heartbeat L hb s =
     (let (base_mode, custom_mode) = hb;
          s1 = (if base_mode AND FLAG_SAFETY_ARMED L \<noteq> 0
                then (if \<not> ob_armed s then ob_print ''Status: Vehicle armed'' s else s)\<lparr>ob_armed := True\<rparr>
                else (if ob_armed s then ob_print ''Status: Vehicle disarmed'' s else s)\<lparr>ob_armed := False\<rparr>)
      in if base_mode AND FLAG_CUSTOM_MODE_ENABLED L \<noteq> 0 then
           (let base_custom_mode = ucast (drop_bit 16 custom_mode) :: u8;
                m = (if unat base_custom_mode = PX4_CUSTOM_MODE_OFFBOARD then PX4_MODE_OFFBOARD else PX4_MODE_UNKNOWN)
            in (if m \<noteq> current_mode s1 then ob_print (''Status: Current mode '' @ mode_name m) s1 else s1)\<lparr>current_mode := m\<rparr>)
         else s1)"

definition handle_extended_sys_state :: "offlib \<Rightarrow> u8 \<Rightarrow> offboard \<Rightarrow> offboard" where
  "handle_extended_sys_state L landed_state s =
     (if landed_state = LANDED_STATE_IN_AIR L then
        (if \<not> in_the_air s then ob_print ''Status: Vehicle in the air'' s else s)\<lparr>in_the_air := True, landing := False\<rparr>
      else if landed_state = LANDED_STATE_ON_GROUND L then
        (if in_the_air s then ob_print ''Status: Vehicle in the ground'' s else s)\<lparr>in_the_air := False, landing := False\<rparr>
      else if landed_state = LANDED_STATE_LANDING L then
        (if \<not> landing s then ob_print ''Status: Landing started'' s else s)\<lparr>landing := True\<rparr>
      else s)"

definition handle_home_position :: "offboard \<Rightarrow> offboard" where
  "handle_home_position s = (if home_first s then (ob_print ''Status: Got home position'' s)\<lparr>home_first := False\<rparr> else s)"

definition have_info :: "u8 \<Rightarrow> offboard \<Rightarrow> offboard" where
  "have_info b s = s\<lparr>have_basic_info_mask := have_basic_info_mask s OR b\<rparr>"

definition ob_handle_new_message :: "offlib \<Rightarrow> mavmsg \<Rightarrow> offboard \<Rightarrow> offboard" where
  "ob_handle_new_message L msg s =
     (if mm_sysid msg \<noteq> TARGET_SYSTEM_ID then s
      else if mm_msgid msg = OB_ID_HEARTBEAT L then
        have_info BASIC_INFO_HEARTBEAT_BIT (handle_heartbeat L (ob_heartbeat_decode L msg) s)
      else if mm_msgid msg = OB_ID_COMMAND_ACK L then ob_handle_command_ack L (ob_command_ack_decode L msg) s
      else if mm_msgid msg = OB_ID_LOCAL_POSITION_NED L then
        (case local_position_ned_decode L msg of
           (x, y, z) \<Rightarrow> have_info BASIC_INFO_LOCAL_POSITION_NED_BIT (s\<lparr>vehicle_x := x, vehicle_y := y, vehicle_z := z\<rparr>))
      else if mm_msgid msg = OB_ID_EXTENDED_SYS_STATE L then
        have_info BASIC_INFO_EXTENDED_SYS_STATE_BIT (handle_extended_sys_state L (extended_sys_state_decode L msg) s)
      else if mm_msgid msg = OB_ID_HOME_POSITION L then have_info BASIC_INFO_HOME_POSITION (handle_home_position s)
      else s)"

section \<open>Messages to the vehicle\<close>

text \<open>\<open>NSEC_PER_MSEC\<close> is used where the clock gives microseconds.\<close>

abbreviation NSEC_PER_MSEC :: u64 where "NSEC_PER_MSEC \<equiv> 1000000"

definition position_set_send :: "flt \<Rightarrow> flt \<Rightarrow> flt \<Rightarrow> flt \<Rightarrow> offboard \<Rightarrow> offboard" where
  "position_set_send x y z yaw s =
     (let now_msec = ob_now_usec s (ob_tick s) div NSEC_PER_MSEC;
          s1 = s\<lparr>ob_tick := ob_tick s + 1\<rparr>;
          (t, s2) = (if initial_msec s1 = 0 then (0, s1\<lparr>initial_msec := now_msec\<rparr>)
                     else (ucast (now_msec - initial_msec s1), s1))
      in ob_send (SetPosition \<lparr>sp_time_boot_ms = t, sp_type_mask = NOT (1 OR 2 OR 4 OR 1024), sp_x = x, sp_y = y, sp_z = z, sp_yaw = yaw\<rparr>) s2)"

definition ob_command :: "u16 \<Rightarrow> flt list \<Rightarrow> offboard \<Rightarrow> offboard" where
  "ob_command cmd ps s = ob_send (ObCommand cmd (ps @ replicate (7 - length ps) (Fin 0))) s"

definition set_mode_send :: "offlib \<Rightarrow> px4_modes \<Rightarrow> offboard \<Rightarrow> offboard" where
  "set_mode_send L m s =
     (if m = PX4_MODE_OFFBOARD
      then ob_command (CMD_DO_SET_MODE L) [flt_of PX4_MAIN_MODE_CUSTOM, flt_of (of_nat PX4_CUSTOM_MODE_OFFBOARD)] s
      else ob_print ''Error: Mode not handled'' s)"

definition next_action_print :: "tasks \<Rightarrow> offboard \<Rightarrow> offboard" where
  "next_action_print t s =
     (case action t of
        ARM_DISARM \<Rightarrow> ob_print (''Requesting '' @ (if param1 t \<noteq> 0 then ''arm'' else ''disarm'') @ ''...'') s
      | SET_MODE \<Rightarrow> ob_print (''Requesting mode '' @ mode_name PX4_MODE_OFFBOARD @ ''...'') s
      | MOVE_X \<Rightarrow> ob_print (''Moving '' @ show_int (param1 t) @ '' meters in X....'') s
      | MOVE_Y \<Rightarrow> ob_print (''Moving '' @ show_int (param1 t) @ '' meters in Y....'') s
      | MOVE_Z \<Rightarrow> ob_print (''Moving '' @ show_int (param1 t) @ '' meters in Z....'') s
      | WAIT_MOVE \<Rightarrow> s
      | LAND \<Rightarrow> ob_print ''Requesting land...'' s
      | WAIT_LAND \<Rightarrow> ob_print ''Waiting landing...'' s
      | END \<Rightarrow> ob_print ''Offboard mission completed'' s
      | CHECK_STATE \<Rightarrow> ob_print (''Unknown action action id=8'') s)"

section \<open>The step of the task list\<close>

definition next_task :: "offboard \<Rightarrow> offboard" where
  "next_task s = s\<lparr>task_list_index := task_list_index s + 1\<rparr>"

definition waiting_for :: "u8 \<Rightarrow> string list" where
  "waiting_for m =
     [''Waiting for:''] @
     (if m AND BASIC_INFO_HEARTBEAT_BIT = 0 then [[CHR 0x09] @ ''- heartbeat''] else []) @
     (if m AND BASIC_INFO_LOCAL_POSITION_NED_BIT = 0 then [[CHR 0x09] @ ''- local position NED''] else []) @
     (if m AND BASIC_INFO_EXTENDED_SYS_STATE_BIT = 0 then [[CHR 0x09] @ ''- basic extended info''] else []) @
     (if m AND BASIC_INFO_HOME_POSITION = 0 then [[CHR 0x09] @ ''- home position(GPS fix)''] else [])"

definition check_state :: "offboard \<Rightarrow> offboard" where
  "check_state s =
     (if have_basic_info_mask s = BASIC_INFO_ALL_BITS then
        (if \<not> ob_armed s \<and> \<not> in_the_air s then next_task s else ob_print ''Invalid initial state, please land and disarm'' s)
      else if wait_count s = 15 then s\<lparr>ob_out := ob_out s @ waiting_for (have_basic_info_mask s), wait_count := 0\<rparr>
      else s\<lparr>wait_count := wait_count s + 1\<rparr>)"

definition near :: "flt \<Rightarrow> flt \<Rightarrow> bool" where
  "near v p \<longleftrightarrow> flt_less (flt_abs (flt_sub v p)) SETPOINT_RANGE"

definition do_task :: "offlib \<Rightarrow> tasks \<Rightarrow> offboard \<Rightarrow> offboard" where
  "do_task L t s =
     (case action t of
        CHECK_STATE \<Rightarrow> check_state s
      | SET_MODE \<Rightarrow> if current_mode s = PX4_MODE_OFFBOARD then next_task s else set_mode_send L PX4_MODE_OFFBOARD s
      | ARM_DISARM \<Rightarrow>
          if (if ob_armed s then 1 else 0) = param1 t then next_task s
          else ob_command (CMD_COMPONENT_ARM_DISARM L) [flt_of (of_int (param1 t))] s
      | LAND \<Rightarrow> if landing s then next_task s else ob_command (CMD_NAV_LAND L) (replicate 7 NaN) s
      | WAIT_LAND \<Rightarrow> if \<not> in_the_air s then next_task s else s
      | MOVE_Z \<Rightarrow> next_task (s\<lparr>set_z := flt_add (set_z s) (flt_of (of_int (param1 t)))\<rparr>)
      | MOVE_X \<Rightarrow> next_task (s\<lparr>set_x := flt_add (set_x s) (flt_of (of_int (param1 t)))\<rparr>)
      | MOVE_Y \<Rightarrow> next_task (s\<lparr>set_y := flt_add (set_y s) (flt_of (of_int (param1 t)))\<rparr>)
      | WAIT_MOVE \<Rightarrow>
          if near (vehicle_z s) (set_z s) \<and> near (vehicle_y s) (set_y s) \<and> near (vehicle_x s) (set_x s)
          then ob_print ''Target reached'' (next_task s) else s
      | END \<Rightarrow> s\<lparr>ob_should_exit := True\<rparr>)"

text \<open>The task that follows is read from the array: behind it, \<open>None\<close>.\<close>

definition timeout_callback :: "offlib \<Rightarrow> offboard \<Rightarrow> offboard option" where
  "timeout_callback L s =
     (let i = unat (task_list_index s)
      in if i \<ge> length task_list then Some s
         else
           let s1 = do_task L (task_list ! i) s;
               s2 = position_set_send (set_x s1) (set_y s1) (set_z s1) (set_yaw s1) s1;
               j = unat (task_list_index s2)
           in if j = i then Some s2
              else if j \<ge> length task_list then None
              else Some (next_action_print (task_list ! j) s2))"

section \<open>The loop\<close>

text \<open>What one call of \<open>poll\<close> returns and the handlers read: the number of descriptors, input on the socket and the result of
  \<open>recvfrom\<close>, input on the timer and what reading it returns. A signal may be handled in the round.\<close>

record poll_round =
  pr_ret :: int
  pr_tcp :: bool
  pr_recv :: recv
  pr_timer :: bool
  pr_read :: "int \<times> nat"
  pr_signal :: bool

definition tcp_fd_poll_handle :: "'p parser \<Rightarrow> offlib \<Rightarrow> poll_round \<Rightarrow> 'p \<times> offboard \<Rightarrow> ('p \<times> offboard) option" where
  "tcp_fd_poll_handle P L d ps =
     Some (if pr_tcp d then (case pr_recv d of RecvErr _ \<Rightarrow> ps | RecvBytes bs \<Rightarrow> feed P (ob_handle_new_message L) bs ps) else ps)"

definition timeout_fd_poll_handle :: "offlib \<Rightarrow> poll_round \<Rightarrow> 'p \<times> offboard \<Rightarrow> ('p \<times> offboard) option" where
  "timeout_fd_poll_handle L d ps =
     (if pr_timer d then
        (if fst (pr_read d) < 1 \<or> snd (pr_read d) = 0 then Some ps
         else map_option (\<lambda>s. (fst ps, s)) (timeout_callback L (snd ps)))
      else Some ps)"

text \<open>The loop over the descriptors counts the result down for every one of them.\<close>

fun serve :: "int \<Rightarrow> ('s \<Rightarrow> 's option) list \<Rightarrow> 's \<Rightarrow> 's option" where
  "serve ret [] s = Some s"
| "serve ret (h # hs) s = (if ret = 0 then Some s else case h s of None \<Rightarrow> None | Some s1 \<Rightarrow> serve (ret - 1) hs s1)"

fun ob_loop :: "'p parser \<Rightarrow> offlib \<Rightarrow> poll_round list \<Rightarrow> 'p \<times> offboard \<Rightarrow> ('p \<times> offboard) option" where
  "ob_loop P L [] ps = Some ps"
| "ob_loop P L (d # ds) ps =
     (if ob_should_exit (snd ps) then Some ps
      else
        let ps1 = (if pr_signal d then (fst ps, (snd ps)\<lparr>ob_should_exit := True\<rparr>) else ps)
        in if pr_ret d < 1 then Some ps1
           else case serve (pr_ret d) [tcp_fd_poll_handle P L d, timeout_fd_poll_handle L d] ps1 of
                  None \<Rightarrow> None
                | Some ps2 \<Rightarrow> ob_loop P L ds ps2)"

section \<open>Start\<close>

text \<open>The results of \<open>socket\<close>, \<open>connect\<close>, \<open>fcntl\<close>, \<open>timerfd_create\<close> and the two calls of
  \<open>sigaction\<close>.\<close>

definition setup_connection :: "int \<Rightarrow> int \<Rightarrow> int \<Rightarrow> int" where
  "setup_connection sock conn fc = (if sock = -1 then -1 else if conn \<noteq> 0 then -1 else if fc < 0 then -1 else 0)"

definition setup_timeout :: "int \<Rightarrow> int" where
  "setup_timeout tfd = (if tfd < 0 then -1 else 0)"

definition setup_signal_handlers :: "int \<Rightarrow> int \<Rightarrow> int" where
  "setup_signal_handlers term_res int_res = (if term_res \<noteq> 0 \<or> int_res \<noteq> 0 then -1 else 0)"

definition ob_address :: "string list \<Rightarrow> string \<times> int" where
  "ob_address argv = (if length argv > 1 then parse_address (argv ! 1) 5760 else (''127.0.0.1'', 5760))"

definition ob_main ::
  "'p parser \<Rightarrow> offlib \<Rightarrow> int \<times> int \<times> int \<Rightarrow> int \<Rightarrow> int \<times> int \<Rightarrow> poll_round list \<Rightarrow> 'p \<times> offboard \<Rightarrow> (int \<times> 'p \<times> offboard) option" where
  "ob_main P L conn tfd sig ds ps =
     (if (case conn of (sock, c, fc) \<Rightarrow> setup_connection sock c fc < 0) \<or> setup_timeout tfd < 0 \<or> setup_signal_handlers (fst sig) (snd sig) < 0
      then Some (1, ps)
      else map_option (\<lambda>q. (0, q)) (ob_loop P L ds ps))"

end
