(* ===== verification/OffboardFacts.thy ===== *)
theory OffboardFacts
  imports Offboard
begin

text \<open>
  Facts about the example \<open>px4-offboard-mode\<close>: it stays inside its list of tasks, its set point is that of the tasks done, commands
  come in the order of the tasks, and the timer is not served when it alone is ready.
\<close>

section \<open>The course\<close>


lemma flt_of_values [simp]: "flt_of 0 = Fin 0" "flt_of 5 = Fin 5" "flt_of (-5) = Fin (-5)" "flt_of 1 = Fin 1" "flt_of 6 = Fin 6"
  by code_simp+

text \<open>The set point is the sum of the moves of the tasks that are done.\<close>

definition moved :: "actions \<Rightarrow> nat \<Rightarrow> int" where
  "moved a i = sum_list (map param1 (filter (\<lambda>t. action t = a) (take i task_list)))"

definition on_course :: "offboard \<Rightarrow> bool" where
  "on_course s \<longleftrightarrow> (let i = unat (task_list_index s)
     in i < length task_list \<and> set_x s = Fin (of_int (moved MOVE_X i)) \<and> set_y s = Fin (of_int (moved MOVE_Y i)) \<and>
        set_z s = Fin (of_int (moved MOVE_Z i)) \<and> set_yaw s = Fin 0)"

lemma on_course_frame [simp]:
  "on_course (s\<lparr>ob_out := l\<rparr>) = on_course s" "on_course (s\<lparr>ob_sent := m\<rparr>) = on_course s" "on_course (s\<lparr>ob_tick := n\<rparr>) = on_course s"
  "on_course (s\<lparr>initial_msec := k\<rparr>) = on_course s" "on_course (s\<lparr>ob_should_exit := b\<rparr>) = on_course s" "on_course (s\<lparr>wait_count := w\<rparr>) = on_course s"
  "on_course (s\<lparr>ob_armed := b\<rparr>) = on_course s" "on_course (s\<lparr>in_the_air := b\<rparr>) = on_course s" "on_course (s\<lparr>landing := b\<rparr>) = on_course s"
  "on_course (s\<lparr>current_mode := pm\<rparr>) = on_course s" "on_course (s\<lparr>have_basic_info_mask := hm\<rparr>) = on_course s" "on_course (s\<lparr>home_first := b\<rparr>) = on_course s"
  "on_course (s\<lparr>vehicle_x := vx, vehicle_y := vy, vehicle_z := vz\<rparr>) = on_course s"
  by (simp_all add: on_course_def)

lemma on_course_prints [simp]:
  "on_course (ob_print l s) = on_course s" "on_course (ob_send m s) = on_course s" "on_course (ob_command c ps s) = on_course s"
  "on_course (position_set_send x y z yaw s) = on_course s" "on_course (set_mode_send L pm s) = on_course s" "on_course (next_action_print t s) = on_course s"
  by (simp_all add: ob_print_def ob_send_def ob_command_def position_set_send_def set_mode_send_def next_action_print_def Let_def split: actions.split)

lemma on_course_handlers [simp]:
  "on_course (ob_handle_command_ack L a s) = on_course s" "on_course (handle_heartbeat L hb s) = on_course s"
  "on_course (handle_extended_sys_state L ls s) = on_course s" "on_course (handle_home_position s) = on_course s" "on_course (have_info b s) = on_course s"
  by (simp_all add: ob_handle_command_ack_def handle_heartbeat_def handle_extended_sys_state_def handle_home_position_def have_info_def
      case_prod_unfold Let_def)

lemma on_course_message [simp]: "on_course (ob_handle_new_message L m s) = on_course s"
  by (simp add: ob_handle_new_message_def split: prod.split)

lemma length_task_list [simp]: "length task_list = 17"
  by (simp add: task_list_def)

lemma moved_values:
  "\<forall>i \<in> set [0..<17]. moved MOVE_X i = (if 5 < i \<and> i \<le> 9 then 5 else 0) \<and> moved MOVE_Y i = (if 7 < i \<and> i \<le> 11 then 5 else 0)
     \<and> moved MOVE_Z i = (if 3 < i then -5 else 0)"
  by code_simp

lemma task_actions:
  "\<forall>i \<in> set [0..<17]. (action (task_list ! i) = MOVE_X \<longrightarrow> (i, param1 (task_list ! i)) \<in> {(5, 5), (9, -5)}) \<and>
     (action (task_list ! i) = MOVE_Y \<longrightarrow> (i, param1 (task_list ! i)) \<in> {(7, 5), (11, -5)}) \<and>
     (action (task_list ! i) = MOVE_Z \<longrightarrow> (i, param1 (task_list ! i)) = (3, -5)) \<and> (i = 16 \<longrightarrow> action (task_list ! i) = END)"
  by code_simp

lemma moved_Suc: "i < length task_list \<Longrightarrow> moved a (Suc i) = moved a i + (if action (task_list ! i) = a then param1 (task_list ! i) else 0)"
  unfolding moved_def by (subst take_Suc_conv_app_nth) simp_all

text \<open>Adding a move to the set point is exact.\<close>

lemma move_exact:
  assumes "i < 17" "action (task_list ! i) = a" "a \<in> {MOVE_X, MOVE_Y, MOVE_Z}"
  shows "flt_add (Fin (of_int (moved a i))) (flt_of (of_int (param1 (task_list ! i)))) = Fin (of_int (moved a (Suc i)))"
proof -
  have i: "i \<in> set [0..<17]" using assms(1) by simp
  note m = bspec [OF moved_values i] and t = bspec [OF task_actions i]
  have s: "moved a (Suc i) = moved a i + param1 (task_list ! i)" using moved_Suc [of i a] assms(1,2) by simp
  from assms(3) consider "a = MOVE_X" | "a = MOVE_Y" | "a = MOVE_Z" by blast
  then show ?thesis
  proof cases
    case 1
    then show ?thesis unfolding s using t assms(2) m by auto
  next
    case 2
    then show ?thesis unfolding s using t assms(2) m by auto
  next
    case 3
    then show ?thesis unfolding s using t assms(2) m by auto
  qed
qed

text \<open>A step stays at its task or goes to the next one, with the set point of the tasks done.\<close>

lemma on_course_next:
  assumes "on_course s" "unat (task_list_index s) = i" "i < 16"
    "set_x s' = (if action (task_list ! i) = MOVE_X then flt_add (set_x s) (flt_of (of_int (param1 (task_list ! i)))) else set_x s)"
    "set_y s' = (if action (task_list ! i) = MOVE_Y then flt_add (set_y s) (flt_of (of_int (param1 (task_list ! i)))) else set_y s)"
    "set_z s' = (if action (task_list ! i) = MOVE_Z then flt_add (set_z s) (flt_of (of_int (param1 (task_list ! i)))) else set_z s)"
    "set_yaw s' = set_yaw s" "task_list_index s' = task_list_index s + 1"
  shows "on_course s' \<and> unat (task_list_index s') = Suc i"
proof -
  have u: "unat (task_list_index s + 1) = Suc i" using assms(2,3) by (subst unat_add_lem [THEN iffD1]) auto
  have "i < 17" using assms(3) by simp
  then show ?thesis
    using assms u move_exact [of i MOVE_X] move_exact [of i MOVE_Y] move_exact [of i MOVE_Z] moved_Suc [of i]
    by (simp add: on_course_def Let_def)
qed

lemma do_task_course:
  assumes "on_course s" "unat (task_list_index s) = i"
  shows "on_course (do_task L (task_list ! i) s) \<and>
    (unat (task_list_index (do_task L (task_list ! i) s)) = i \<or> (i < 16 \<and> unat (task_list_index (do_task L (task_list ! i) s)) = Suc i))"
proof -
  have i: "i < 17" using assms by (simp add: on_course_def Let_def)
  have e: "i < 16" if "action (task_list ! i) \<noteq> END"
    using that i bspec [OF task_actions, of i] by (cases "i = 16") auto
  have idx: "task_list_index (ob_print l s) = task_list_index s" "task_list_index (ob_command c ps s) = task_list_index s"
      "task_list_index (set_mode_send L pm s) = task_list_index s" for l c ps pm s
    by (simp_all add: ob_print_def ob_command_def ob_send_def set_mode_send_def)
  note n = on_course_next [OF assms]
  show ?thesis
    using assms e n [of "next_task s"] n [of "next_task (s\<lparr>set_x := flt_add (set_x s) (flt_of (of_int (param1 (task_list ! i))))\<rparr>)"]
      n [of "next_task (s\<lparr>set_y := flt_add (set_y s) (flt_of (of_int (param1 (task_list ! i))))\<rparr>)"]
      n [of "next_task (s\<lparr>set_z := flt_add (set_z s) (flt_of (of_int (param1 (task_list ! i))))\<rparr>)"]
    by (cases "action (task_list ! i)") (simp_all add: do_task_def check_state_def idx, simp_all add: next_task_def)
qed


lemma callback_course:
  assumes "on_course s" shows "\<exists>s'. timeout_callback L s = Some s' \<and> on_course s'"
proof -
  let ?i = "unat (task_list_index s)"
  have i: "?i < 17" using assms by (simp add: on_course_def Let_def)
  define s1 where "s1 = do_task L (task_list ! ?i) s"
  note d = do_task_course [OF assms refl, of L, folded s1_def]
  have x: "task_list_index (position_set_send x y z yaw u) = task_list_index u" for x y z yaw u
    by (simp add: position_set_send_def ob_send_def Let_def)
  have "unat (task_list_index s1) < 17" using d i by auto
  then show ?thesis using d i by (auto simp: timeout_callback_def s1_def [symmetric] x Let_def)
qed

section \<open>Invariants of the loop\<close>

text \<open>What messages, the signal and the timer keep, and under which the timer reads no task behind the list, holds
  however the program runs.\<close>

locale offboard_invariant =
  fixes L :: offlib and J :: "offboard \<Rightarrow> bool"
  assumes message: "J s \<Longrightarrow> J (ob_handle_new_message L m s)"
    and signal: "J s \<Longrightarrow> J (s\<lparr>ob_should_exit := True\<rparr>)"
    and tick: "J s \<Longrightarrow> \<exists>s'. timeout_callback L s = Some s' \<and> J s'"
begin

lemma round_keeps:
  assumes "J (snd ps)"
  shows "\<exists>ps'. serve k [tcp_fd_poll_handle P L d, timeout_fd_poll_handle L d] ps = Some ps' \<and> J (snd ps')"
proof -
  have f: "J s \<Longrightarrow> J (fold (ob_handle_new_message L) ms s)" for ms s by (induction ms arbitrary: s) (simp_all add: message)
  obtain ps1 where 1: "tcp_fd_poll_handle P L d ps = Some ps1" "J (snd ps1)"
    using assms by (cases ps) (auto simp: tcp_fd_poll_handle_def feed_fold f split: recv.split)
  have "\<exists>ps2. timeout_fd_poll_handle L d ps1 = Some ps2 \<and> J (snd ps2)"
    using 1(2) tick [OF 1(2)] by (auto simp: timeout_fd_poll_handle_def simp del: split_paired_Ex)
  then show ?thesis using assms 1 by (auto simp del: split_paired_Ex)
qed

lemma loop_keeps: "J (snd ps) \<Longrightarrow> \<exists>ps'. ob_loop P L ds ps = Some ps' \<and> J (snd ps')"
proof (induction ds arbitrary: ps)
  case (Cons d ds)
  define ps1 where "ps1 = (if pr_signal d then (fst ps, (snd ps)\<lparr>ob_should_exit := True\<rparr>) else ps)"
  have 1: "J (snd ps1)" using Cons.prems signal by (simp add: ps1_def)
  then obtain ps2 where "serve (pr_ret d) [tcp_fd_poll_handle P L d, timeout_fd_poll_handle L d] ps1 = Some ps2" "J (snd ps2)"
    using round_keeps by blast
  then show ?case using Cons.IH [of ps2] Cons.prems 1 by (simp add: ps1_def [symmetric] Let_def del: serve.simps split_paired_Ex)
qed simp

lemma main_keeps:
  assumes "J s" shows "\<exists>code p1 s1. ob_main P L conn tfd sig ds (p, s) = Some (code, p1, s1) \<and> J s1"
proof -
  obtain p1 s1 where "ob_loop P L ds (p, s) = Some (p1, s1)" "J s1" using loop_keeps [of "(p, s)" P ds] assms by auto
  then show ?thesis using assms by (auto simp: ob_main_def)
qed

end

section \<open>The set points sent\<close>

text \<open>The place after the first tasks of the list, and the places in the messages sent.\<close>

definition place_after :: "nat \<Rightarrow> flt \<times> flt \<times> flt \<times> flt" where
  "place_after i = (Fin (of_int (moved MOVE_X i)), Fin (of_int (moved MOVE_Y i)), Fin (of_int (moved MOVE_Z i)), Fin 0)"

fun set_points :: "ob_msg list \<Rightarrow> (flt \<times> flt \<times> flt \<times> flt) list" where
  "set_points [] = []"
| "set_points (SetPosition q # ms) = (sp_x q, sp_y q, sp_z q, sp_yaw q) # set_points ms"
| "set_points (ObCommand c ps # ms) = set_points ms"

lemma set_points_append [simp]: "set_points (as @ bs) = set_points as @ set_points bs"
  by (induction as rule: set_points.induct) simp_all

definition points_on_course :: "offboard \<Rightarrow> bool" where
  "points_on_course s \<longleftrightarrow> on_course s \<and>
     (\<exists>is. sorted is \<and> set is \<subseteq> {..unat (task_list_index s)} \<and> set_points (ob_sent s) = map place_after is)"

lemma do_task_points: "set_points (ob_sent (do_task L t s)) = set_points (ob_sent s)"
  by (cases "action t")
     (simp_all add: do_task_def check_state_def ob_command_def ob_send_def set_mode_send_def next_task_def ob_print_def)

lemma handlers_frame [simp]:
  "ob_sent (ob_handle_command_ack L a s) = ob_sent s" "ob_sent (handle_heartbeat L hb s) = ob_sent s"
  "ob_sent (handle_extended_sys_state L ls s) = ob_sent s" "ob_sent (handle_home_position s) = ob_sent s" "ob_sent (have_info b s) = ob_sent s"
  "task_list_index (ob_handle_command_ack L a s) = task_list_index s" "task_list_index (handle_heartbeat L hb s) = task_list_index s"
  "task_list_index (handle_extended_sys_state L ls s) = task_list_index s" "task_list_index (handle_home_position s) = task_list_index s"
  "task_list_index (have_info b s) = task_list_index s"
  by (simp_all add: ob_handle_command_ack_def handle_heartbeat_def handle_extended_sys_state_def handle_home_position_def have_info_def
      ob_print_def case_prod_unfold Let_def)

lemma message_frame [simp]:
  "ob_sent (ob_handle_new_message L m s) = ob_sent s" "task_list_index (ob_handle_new_message L m s) = task_list_index s"
  by (simp_all add: ob_handle_new_message_def split: prod.split)

lemma print_frame [simp]:
  "ob_sent (next_action_print t s) = ob_sent s" "task_list_index (next_action_print t s) = task_list_index s"
  by (simp_all add: next_action_print_def ob_print_def split: actions.split)

lemma position_set_send_frame:
  "\<exists>q. ob_sent (position_set_send x y z yaw s) = ob_sent s @ [SetPosition q] \<and> (sp_x q, sp_y q, sp_z q, sp_yaw q) = (x, y, z, yaw)"
  "task_list_index (position_set_send x y z yaw s) = task_list_index s"
  by (simp_all add: position_set_send_def ob_send_def Let_def)

lemma points_on_course_tick:
  assumes "points_on_course s" shows "\<exists>s'. timeout_callback L s = Some s' \<and> points_on_course s'"
proof -
  let ?i = "unat (task_list_index s)"
  obtain "is" where c: "on_course s" and l: "sorted is" "set is \<subseteq> {..?i}" "set_points (ob_sent s) = map place_after is"
    using assms by (auto simp: points_on_course_def)
  obtain s' where s': "timeout_callback L s = Some s'" "on_course s'" using callback_course [OF c] by blast
  define s1 where "s1 = do_task L (task_list ! ?i) s"
  note d = do_task_course [OF c refl, of L, folded s1_def]
  let ?j = "unat (task_list_index s1)"
  have j: "?i \<le> ?j" using d by auto
  have pl: "(set_x s1, set_y s1, set_z s1, set_yaw s1) = place_after ?j" using d by (simp add: on_course_def place_after_def Let_def)
  let ?p = "position_set_send (set_x s1) (set_y s1) (set_z s1) (set_yaw s1) s1"
  have "set_points (ob_sent ?p) = map place_after (is @ [?j])"
    using position_set_send_frame(1) [of "set_x s1" "set_y s1" "set_z s1" "set_yaw s1" s1] l(3) pl do_task_points [of L "task_list ! ?i" s]
    by (auto simp: s1_def [symmetric])
  moreover have "ob_sent s' = ob_sent ?p \<and> task_list_index s' = task_list_index s1"
    using s' c position_set_send_frame(2) by (auto simp: timeout_callback_def s1_def [symmetric] on_course_def Let_def split: if_splits)
  moreover have "sorted (is @ [?j])" "set (is @ [?j]) \<subseteq> {..?j}" using l(1,2) j by (auto simp: sorted_append)
  ultimately show ?thesis unfolding points_on_course_def using s' by metis
qed

interpretation points: offboard_invariant L points_on_course for L
  by unfold_locales (auto simp: points_on_course_def points_on_course_tick [unfolded points_on_course_def])

text \<open>C24: however the socket, the timer and signals behave, the program never reads a task behind its list, and the places
  in the set points it sends follow the course: each is, in X, Y, Z and yaw, the exact sum of the moves of the first \<open>i\<close>
  tasks of the list, the numbers \<open>i\<close> do not fall from one message to the next, and none is greater than the number of
  tasks done, so that the four moves of the square lead back to the start.\<close>

theorem offboard_follows_course:
  "\<exists>code p1 s is. ob_main P L conn tfd sig ds (p, offboard_init clock) = Some (code, p1, s) \<and>
     unat (task_list_index s) < length task_list \<and> sorted is \<and> set is \<subseteq> {..unat (task_list_index s)} \<and>
     set_points (ob_sent s) = map place_after is"
proof -
  have "on_course (offboard_init clock)" by (simp add: on_course_def offboard_init_def moved_def)
  then have "points_on_course (offboard_init clock)" by (simp add: points_on_course_def) (simp add: offboard_init_def)
  from points.main_keeps [OF this, where P = P and L = L and conn = conn and tfd = tfd and sig = sig and ds = ds and p = p]
  show ?thesis unfolding points_on_course_def on_course_def Let_def by blast
qed

section \<open>Commands\<close>

text \<open>The task a command belongs to.\<close>

fun command_task :: "offlib \<Rightarrow> ob_msg \<Rightarrow> nat" where
  "command_task L (SetPosition _) = 0"
| "command_task L (ObCommand c ps) =
     (if c = CMD_DO_SET_MODE L then 1 else if c = CMD_COMPONENT_ARM_DISARM L then (if hd ps = Fin 1 then 2 else 15) else 13)"

definition is_command :: "ob_msg \<Rightarrow> bool" where
  "is_command m = (case m of SetPosition _ \<Rightarrow> False | ObCommand _ _ \<Rightarrow> True)"

definition commands_differ :: "offlib \<Rightarrow> bool" where
  "commands_differ L \<longleftrightarrow> CMD_COMPONENT_ARM_DISARM L \<noteq> CMD_DO_SET_MODE L \<and> CMD_NAV_LAND L \<notin> {CMD_DO_SET_MODE L, CMD_COMPONENT_ARM_DISARM L}"

definition in_order :: "offlib \<Rightarrow> offboard \<Rightarrow> bool" where
  "in_order L s \<longleftrightarrow> on_course s \<and> sorted (map (command_task L) (filter is_command (ob_sent s))) \<and>
     (\<forall>m \<in> set (filter is_command (ob_sent s)). command_task L m \<le> unat (task_list_index s))"

text \<open>What a step sends besides the set point: nothing, or the command of its task.\<close>

lemma task_table:
  "\<forall>i \<in> set [0..<17]. (action (task_list ! i) = SET_MODE \<longrightarrow> i = 1) \<and> (action (task_list ! i) = LAND \<longrightarrow> i = 13) \<and>
     (action (task_list ! i) = ARM_DISARM \<longrightarrow> (i, param1 (task_list ! i)) \<in> {(2, 1), (15, 0)})"
  by code_simp

lemma do_task_sends:
  assumes "commands_differ L" "i < 17"
  shows "ob_sent (do_task L (task_list ! i) s) = ob_sent s \<or>
    (\<exists>m. ob_sent (do_task L (task_list ! i) s) = ob_sent s @ [m] \<and> is_command m \<and> command_task L m = i \<and>
       task_list_index (do_task L (task_list ! i) s) = task_list_index s)"
proof -
  have t: "(action (task_list ! i) = SET_MODE \<longrightarrow> i = 1) \<and> (action (task_list ! i) = LAND \<longrightarrow> i = 13) \<and>
     (action (task_list ! i) = ARM_DISARM \<longrightarrow> (i, param1 (task_list ! i)) \<in> {(2, 1), (15, 0)})"
    using bspec [OF task_table, of i] assms(2) by simp
  show ?thesis using t assms(1)
    by (cases "action (task_list ! i)")
       (auto simp: do_task_def check_state_def ob_command_def ob_send_def set_mode_send_def next_task_def ob_print_def is_command_def commands_differ_def)
qed


lemma in_order_same:
  "in_order L s \<Longrightarrow> on_course s' \<Longrightarrow> ob_sent s' = ob_sent s \<Longrightarrow> unat (task_list_index s) \<le> unat (task_list_index s') \<Longrightarrow> in_order L s'"
  by (auto simp: in_order_def)

lemma in_order_task:
  assumes "commands_differ L" "in_order L s" "i = unat (task_list_index s)" shows "in_order L (do_task L (task_list ! i) s)"
proof -
  have c: "on_course s" using assms(2) by (simp add: in_order_def)
  note d = do_task_course [OF c assms(3) [symmetric], of L]
  have i: "i < 17" using c assms(3) by (simp add: on_course_def Let_def)
  consider "ob_sent (do_task L (task_list ! i) s) = ob_sent s"
    | m where "ob_sent (do_task L (task_list ! i) s) = ob_sent s @ [m]" "is_command m" "command_task L m = i"
       "task_list_index (do_task L (task_list ! i) s) = task_list_index s"
    using do_task_sends [OF assms(1) i, of s] by blast
  then show ?thesis
  proof cases
    case 1
    then show ?thesis using in_order_same [OF assms(2) _ 1] d assms(3) by auto
  next
    case (2 m)
    then show ?thesis using assms(2,3) d by (auto simp: in_order_def sorted_append)
  qed
qed

lemma in_order_tick:
  assumes "commands_differ L" "in_order L s" shows "\<exists>s'. timeout_callback L s = Some s' \<and> in_order L s'"
proof -
  let ?i = "unat (task_list_index s)"
  have c: "on_course s" using assms(2) by (simp add: in_order_def)
  obtain s' where s': "timeout_callback L s = Some s'" "on_course s'" using callback_course [OF c] by blast
  define s1 where "s1 = do_task L (task_list ! ?i) s"
  have o: "in_order L s1" unfolding s1_def by (rule in_order_task [OF assms refl])
  have p: "\<exists>q. ob_sent (position_set_send x y z yaw u) = ob_sent u @ [SetPosition q]" "task_list_index (position_set_send x y z yaw u) = task_list_index u" for x y z yaw u
    by (simp_all add: position_set_send_def ob_send_def Let_def)
  have n: "ob_sent (next_action_print t u) = ob_sent u" "task_list_index (next_action_print t u) = task_list_index u" for t u
    by (simp_all add: next_action_print_def ob_print_def split: actions.split)
  have "\<exists>q. ob_sent s' = ob_sent s1 @ [SetPosition q]" "task_list_index s' = task_list_index s1"
    using s' c p by (auto simp: timeout_callback_def s1_def [symmetric] n on_course_def Let_def split: if_splits)
  then show ?thesis using s' o by (auto simp: in_order_def is_command_def)
qed

interpretation order: offboard_invariant L "\<lambda>s. on_course s \<and> (commands_differ L \<longrightarrow> in_order L s)" for L
proof
  fix s m
  assume s: "on_course s \<and> (commands_differ L \<longrightarrow> in_order L s)"
  show "on_course (ob_handle_new_message L m s) \<and> (commands_differ L \<longrightarrow> in_order L (ob_handle_new_message L m s))"
    using s in_order_same [of L s "ob_handle_new_message L m s"] by simp
  show "on_course (s\<lparr>ob_should_exit := True\<rparr>) \<and> (commands_differ L \<longrightarrow> in_order L (s\<lparr>ob_should_exit := True\<rparr>))"
    using s in_order_same [of L s "s\<lparr>ob_should_exit := True\<rparr>"] by simp
  show "\<exists>s'. timeout_callback L s = Some s' \<and> on_course s' \<and> (commands_differ L \<longrightarrow> in_order L s')"
  proof (cases "commands_differ L")
    case True
    then show ?thesis using s in_order_tick [OF True, of s] by (auto simp: in_order_def)
  next
    case False
    then show ?thesis using s callback_course by blast
  qed
qed

text \<open>C25: commands are sent in the order of the tasks they belong to, which are the request of the mode, arming,
  landing and disarming: none follows a command of a later task, and none is sent before the program has come to its task.\<close>

theorem commands_in_task_order:
  assumes "commands_differ L" "ob_main P L conn tfd sig ds (p, offboard_init clock) = Some (code, p1, s)"
  shows "sorted (map (command_task L) (filter is_command (ob_sent s))) \<and>
    (\<forall>m \<in> set (filter is_command (ob_sent s)). command_task L m \<le> unat (task_list_index s))"
proof -
  have "on_course (offboard_init clock)" by (simp add: on_course_def offboard_init_def moved_def)
  then have "on_course (offboard_init clock) \<and> (commands_differ L \<longrightarrow> in_order L (offboard_init clock))"
    by (simp add: in_order_def offboard_init_def)
  from order.main_keeps [OF this, of P conn tfd sig ds p] show ?thesis using assms by (auto simp: in_order_def)
qed

definition ex_offlib :: offlib where
  "ex_offlib =
     \<lparr>OB_ID_HEARTBEAT = 0, OB_ID_COMMAND_ACK = 77, OB_ID_LOCAL_POSITION_NED = 32, OB_ID_EXTENDED_SYS_STATE = 245, OB_ID_HOME_POSITION = 242,
      FLAG_SAFETY_ARMED = 128, FLAG_CUSTOM_MODE_ENABLED = 1, LANDED_STATE_IN_AIR = 2, LANDED_STATE_ON_GROUND = 1, LANDED_STATE_LANDING = 4,
      OB_RESULT_ACCEPTED = 0, CMD_DO_SET_MODE = 176, CMD_COMPONENT_ARM_DISARM = 400, CMD_NAV_LAND = 21,
      ob_heartbeat_decode = (\<lambda>_. (0, 0)), ob_command_ack_decode = (\<lambda>_. (0, 0)), local_position_ned_decode = (\<lambda>_. (Fin 0, Fin 0, Fin 0)),
      extended_sys_state_decode = (\<lambda>_. 1)\<rparr>"

definition ex_round :: "bytes \<Rightarrow> poll_round" where
  "ex_round bs = \<lparr>pr_ret = 2, pr_tcp = True, pr_recv = RecvBytes bs, pr_timer = True, pr_read = (8, 1), pr_signal = False\<rparr>"

definition ex_byte_parser :: "unit parser" where
  "ex_byte_parser p b = (p, Some \<lparr>mm_sysid = 1, mm_msgid = ucast b, mm_payload = []\<rparr>)"

text \<open>After the basic information arrived, the mode is requested.\<close>

lemma commands_in_task_order_witness:
  "\<exists>code s. ob_main ex_byte_parser ex_offlib (3, 0, 0) 4 (0, 0) [ex_round [0, 32, 245, 242], ex_round [0]] ((), offboard_init (\<lambda>_. 0)) = Some (code, (), s) \<and>
     length (filter is_command (ob_sent s)) = 1 \<and> sorted (map (command_task ex_offlib) (filter is_command (ob_sent s)))"
proof -
  have "map_option (\<lambda>(c, p, s). length (filter is_command (ob_sent s)))
      (ob_main ex_byte_parser ex_offlib (3, 0, 0) 4 (0, 0) [ex_round [0, 32, 245, 242], ex_round [0]] ((), offboard_init (\<lambda>_. 0))) = Some 1"
    by code_simp
  then obtain code s where s: "ob_main ex_byte_parser ex_offlib (3, 0, 0) 4 (0, 0) [ex_round [0, 32, 245, 242], ex_round [0]] ((), offboard_init (\<lambda>_. 0)) = Some (code, (), s)"
    "length (filter is_command (ob_sent s)) = 1" by auto
  have "commands_differ ex_offlib" by (simp add: commands_differ_def ex_offlib_def)
  from commands_in_task_order [OF this s(1)] s show ?thesis by auto
qed

text \<open>The timer is served only together with the socket: when it alone is ready, the count is used up at the
  socket, and the step of the task list is not made.\<close>

lemma lone_timer_not_served:
  "pr_ret d = 1 \<Longrightarrow> \<not> pr_tcp d \<Longrightarrow> serve (pr_ret d) [tcp_fd_poll_handle P L d, timeout_fd_poll_handle L d] ps = Some ps"
  by (simp add: tcp_fd_poll_handle_def)

lemma both_served:
  "pr_ret d = 2 \<Longrightarrow> \<not> pr_tcp d \<Longrightarrow> pr_timer d \<Longrightarrow> 1 \<le> fst (pr_read d) \<Longrightarrow> snd (pr_read d) \<noteq> 0 \<Longrightarrow>
   serve (pr_ret d) [tcp_fd_poll_handle P L d, timeout_fd_poll_handle L d] (p, s) = map_option (Pair p) (timeout_callback L s)"
  by (simp add: tcp_fd_poll_handle_def timeout_fd_poll_handle_def split: option.split)

end
