(* ===== verification/HeartbeatPrint.thy ===== *)
theory HeartbeatPrint
  imports ExampleLib
begin

text \<open>
  The example \<open>heartbeat-print\<close> (examples/heartbeat-print.cpp): prints every heartbeat it receives. The lines printed are the list
  \<open>hp_out\<close>; the id and the decoder of the heartbeat are parameters.
\<close>

record hplib =
  HP_ID_HEARTBEAT :: u32
  hp_heartbeat_decode :: "mavmsg \<Rightarrow> u8 \<times> u8"

record printer =
  hp_should_exit :: bool
  hp_out :: "string list"

text \<open>The version and the type of a heartbeat.\<close>

definition heartbeat_lines :: "u8 \<times> u8 \<Rightarrow> string list" where
  "heartbeat_lines hb =
     [''HEARTBEAT:'', [CHR 0x09] @ ''mavlink_version: '' @ show_nat (unat (fst hb)), [CHR 0x09] @ ''type: '' @ show_nat (unat (snd hb))]"

definition hp_handle_new_message :: "hplib \<Rightarrow> mavmsg \<Rightarrow> printer \<Rightarrow> printer" where
  "hp_handle_new_message L msg s =
     (if mm_msgid msg = HP_ID_HEARTBEAT L then s\<lparr>hp_out := hp_out s @ heartbeat_lines (hp_heartbeat_decode L msg)\<rparr> else s)"

text \<open>A round gets the result of \<open>read\<close> and whether a signal is handled in it.\<close>

fun hp_loop :: "'p parser \<Rightarrow> hplib \<Rightarrow> (bool \<times> recv) list \<Rightarrow> 'p \<times> printer \<Rightarrow> 'p \<times> printer" where
  "hp_loop P L [] ps = ps"
| "hp_loop P L ((sig, r) # rs) (p, s) =
     (if hp_should_exit s then (p, s)
      else
        let s1 = (if sig then s\<lparr>hp_should_exit := True\<rparr> else s)
        in case r of
             RecvErr errno \<Rightarrow> if errno = EINTR then hp_loop P L rs (p, s1) else (p, s1)
           | RecvBytes bs \<Rightarrow> hp_loop P L rs (feed P (hp_handle_new_message L) bs (p, s1)))"

text \<open>\<open>main\<close>, with the results of \<open>socket\<close> and \<open>bind\<close>; the address is the one it binds to.\<close>

definition hp_main ::
  "'p parser \<Rightarrow> hplib \<Rightarrow> string list \<Rightarrow> int \<Rightarrow> (string \<times> int \<Rightarrow> int) \<Rightarrow> (bool \<times> recv) list \<Rightarrow> 'p \<times> printer \<Rightarrow> int \<times> 'p \<times> printer" where
  "hp_main P L argv sock do_bind rs ps =
     (if length argv < 2 then (-1, fst ps, (snd ps)\<lparr>hp_out := hp_out (snd ps) @ [''Usage: heartbeat-print <ip>:<port>'']\<rparr>)
      else if sock = -1 then (1, ps)
      else
        let (ip, port) = parse_address (argv ! 1) 14550;
            s1 = (snd ps)\<lparr>hp_out := hp_out (snd ps) @ [''Connecting to: '' @ ip @ '':'' @ show_int port]\<rparr>
        in if do_bind (ip, port) = -1 then (1, fst ps, s1) else (0, hp_loop P L rs (fst ps, s1)))"

section \<open>Properties\<close>

lemma hp_messages:
  "fold (hp_handle_new_message L) ms s =
     s\<lparr>hp_out := hp_out s @ concat (map (\<lambda>m. heartbeat_lines (hp_heartbeat_decode L m)) (filter (\<lambda>m. mm_msgid m = HP_ID_HEARTBEAT L) ms))\<rparr>"
  by (induction ms arbitrary: s) (simp_all add: hp_handle_new_message_def)

text \<open>C31: every heartbeat is printed once, in order, however the datagrams cut the stream of bytes and
  whatever interrupts the reads.\<close>

theorem every_heartbeat_printed:
  assumes "\<not> hp_should_exit s" "\<And>x. x \<in> set rs \<Longrightarrow> \<not> fst x \<and> (snd x = RecvErr EINTR \<or> (\<exists>bs. snd x = RecvBytes bs))"
  shows "snd (hp_loop P L rs (p, s)) = s\<lparr>hp_out := hp_out s @ concat (map (\<lambda>m. heartbeat_lines (hp_heartbeat_decode L m))
    (filter (\<lambda>m. mm_msgid m = HP_ID_HEARTBEAT L) (parsed P p (concat (map (\<lambda>x. case snd x of RecvErr _ \<Rightarrow> [] | RecvBytes bs \<Rightarrow> bs) rs)))))\<rparr>"
  using assms
proof (induction rs arbitrary: p s)
  case (Cons x rs)
  obtain sig r where x: "x = (sig, r)" by fastforce
  have sig: "\<not> sig" using Cons.prems(2) [of x] x by simp
  show ?case
  proof (cases r)
    case (RecvErr e)
    then have "e = EINTR" using Cons.prems(2) [of x] x by auto
    then show ?thesis using Cons.IH [of s p] Cons.prems x sig RecvErr by simp
  next
    case (RecvBytes bs)
    define s1 where "s1 = fold (hp_handle_new_message L) (parsed P p bs) s"
    have s1: "\<not> hp_should_exit s1" using Cons.prems(1) by (simp add: s1_def hp_messages)
    have "hp_loop P L (x # rs) (p, s) = hp_loop P L rs (parser_after P p bs, s1)"
      using Cons.prems(1) x sig RecvBytes by (simp add: feed_fold s1_def)
    then show ?thesis using Cons.IH [OF s1] Cons.prems(2) x RecvBytes by (simp add: parsed_append s1_def hp_messages)
  qed
qed simp

definition ex_hplib :: hplib where
  "ex_hplib = \<lparr>HP_ID_HEARTBEAT = 0, hp_heartbeat_decode = (\<lambda>m. (3, mm_payload m ! 0))\<rparr>"

text \<open>A parser that takes two bytes per message, the id and the type, here cut between two reads.\<close>

lemma every_heartbeat_printed_witness:
  "length (hp_out (snd (hp_loop (\<lambda>p b. case p of None \<Rightarrow> (Some b, None) | Some a \<Rightarrow> (None, Some \<lparr>mm_sysid = 1, mm_msgid = ucast a, mm_payload = [b]\<rparr>))
     ex_hplib [(False, RecvBytes [0]), (False, RecvErr EINTR), (False, RecvBytes [2, 5, 1])] (None, \<lparr>hp_should_exit = False, hp_out = []\<rparr>)))) = 3"
  by (subst every_heartbeat_printed) (auto simp: ex_hplib_def heartbeat_lines_def)

end
