(* ===== verification/UnitTests.thy ===== *)
theory UnitTests
  imports RecordingFacts Options
begin

unbundle bit_operations_syntax

text \<open>
  The tests the repository keeps beside the code (endpoints_test.cpp, mainloop_test.cpp), run on the model: a test is the conjunction of
  its expectations, and holds for any contents of memory, any world and any other content of the message. The endpoint with
  scripted results of \<open>write_msg\<close> is a serial link in the states that give these results.
\<close>

section \<open>Fixtures\<close>

text \<open>\<open>TestEndpoint\<close> is the base class, whose methods do not depend on its type; \<open>accept_msg\<close> is its own.\<close>

definition TestEndpoint :: "bytes \<Rightarrow> bytes \<Rightarrow> endpoint" where
  "TestEndpoint rx tx = Endpoint_init 0 LOG ''foobar'' rx tx"

definition set_sys_comp_ids :: "u16 list \<Rightarrow> endpoint \<Rightarrow> endpoint" where
  "set_sys_comp_ids known e = e\<lparr>sys_comp_ids := known\<rparr>"

definition build_sys_comp_id :: "u32 \<Rightarrow> u32 \<Rightarrow> u16" where
  "build_sys_comp_id sysid compid = ucast (push_bit 8 (sysid AND 0xFF) OR (compid AND 0xFF))"

definition test_msg :: "u32 \<Rightarrow> u8 \<Rightarrow> u8 \<Rightarrow> int \<Rightarrow> int \<Rightarrow> buffer \<Rightarrow> buffer" where
  "test_msg mid src_s src_c tgt_s tgt_c b =
     b\<lparr>b_curr := (b_curr b)\<lparr>msg_id := mid, src_sysid := src_s, src_compid := src_c, target_sysid := tgt_s, target_compid := tgt_c\<rparr>\<rparr>"

definition accepts :: "endpoint \<Rightarrow> buffer \<Rightarrow> world \<Rightarrow> accept_state" where
  "accepts e b w = fst (accept_msg 0 e b w)"

section \<open>Endpoint\<close>

definition test_HasSysId :: "endpoint \<Rightarrow> bool" where
  "test_HasSysId endpoint \<longleftrightarrow>
     \<not> has_sys_id endpoint 4 \<and>
     (let known = [build_sys_comp_id 12 1]; e = set_sys_comp_ids known endpoint
      in has_sys_id e 12 \<and> \<not> has_sys_id e 11 \<and> \<not> has_sys_id e 13 \<and> \<not> has_sys_id e 0 \<and> \<not> has_sys_id e 255 \<and>
         (let e = set_sys_comp_ids (known @ [build_sys_comp_id 254 1]) e
          in has_sys_id e 12 \<and> has_sys_id e 254 \<and> \<not> has_sys_id e 11 \<and> \<not> has_sys_id e 13 \<and> \<not> has_sys_id e 253 \<and>
             \<not> has_sys_id e 255 \<and> \<not> has_sys_id e 0))"

definition test_HasSysCompId :: "endpoint \<Rightarrow> bool" where
  "test_HasSysCompId endpoint \<longleftrightarrow>
     \<not> has_sys_comp_id2 endpoint 4 0 \<and>
     (let known = [build_sys_comp_id 12 1]; e = set_sys_comp_ids known endpoint
      in has_sys_comp_id2 e 12 1 \<and> \<not> has_sys_comp_id2 e 12 0 \<and> \<not> has_sys_comp_id2 e 13 1 \<and> \<not> has_sys_comp_id2 e 13 0 \<and>
         \<not> has_sys_comp_id2 e 0 1 \<and> \<not> has_sys_comp_id2 e 0 0 \<and>
         (let e = set_sys_comp_ids (known @ [build_sys_comp_id 254 190]) e
          in has_sys_comp_id2 e 12 1 \<and> \<not> has_sys_comp_id2 e 12 0 \<and> \<not> has_sys_comp_id2 e 13 1 \<and> \<not> has_sys_comp_id2 e 13 0 \<and>
             \<not> has_sys_comp_id2 e 0 1 \<and> \<not> has_sys_comp_id2 e 0 0 \<and>
             has_sys_comp_id2 e 254 190 \<and> \<not> has_sys_comp_id2 e 254 0 \<and> \<not> has_sys_comp_id2 e 254 1 \<and>
             \<not> has_sys_comp_id2 e 255 190 \<and> \<not> has_sys_comp_id2 e 255 0 \<and> \<not> has_sys_comp_id2 e 255 1))"

definition test_AcceptMsg_EmptyKnownSystems :: "endpoint \<Rightarrow> buffer \<Rightarrow> world \<Rightarrow> bool" where
  "test_AcceptMsg_EmptyKnownSystems e b w \<longleftrightarrow>
     accepts e (test_msg 1 1 1 (-1) (-1) b) w = Accepted \<and>
     accepts e (test_msg 1 1 1 254 190 b) w = Rejected \<and>
     accepts e (test_msg 1 1 1 254 0 b) w = Rejected \<and>
     accepts e (test_msg 1 1 1 254 (-1) b) w = Rejected"

definition test_AcceptMsg_WithKnownSystems :: "endpoint \<Rightarrow> buffer \<Rightarrow> world \<Rightarrow> bool" where
  "test_AcceptMsg_WithKnownSystems endpoint b w \<longleftrightarrow>
     (let e = set_sys_comp_ids [build_sys_comp_id 12 1] endpoint
      in accepts e (test_msg 1 12 1 (-1) (-1) b) w = Rejected \<and>
         accepts e (test_msg 1 1 1 (-1) (-1) b) w = Accepted \<and>
         accepts e (test_msg 1 1 1 0 0 b) w = Accepted \<and>
         accepts e (test_msg 1 1 1 12 0 b) w = Accepted \<and>
         accepts e (test_msg 1 1 1 12 190 b) w = Rejected \<and>
         accepts e (test_msg 1 1 1 13 0 b) w = Rejected)"

section \<open>Filters\<close>

definition test_AcceptMsg_OutMsgIdFilter :: "endpoint \<Rightarrow> buffer \<Rightarrow> world \<Rightarrow> bool" where
  "test_AcceptMsg_OutMsgIdFilter endpoint b w \<longleftrightarrow>
     (let e = filter_add_allowed_out_msg_id 1 endpoint
      in accepts e (test_msg 1 1 1 (-1) (-1) b) w = Accepted \<and>
         accepts e (test_msg 2 1 1 (-1) (-1) b) w = Filtered \<and>
         accepts e (test_msg 255 1 1 (-1) (-1) b) w = Filtered \<and>
         accepts e (test_msg 368 1 1 (-1) (-1) b) w = Filtered)"

definition test_BlockMsg_OutMsgIdFilter :: "endpoint \<Rightarrow> buffer \<Rightarrow> world \<Rightarrow> bool" where
  "test_BlockMsg_OutMsgIdFilter endpoint b w \<longleftrightarrow>
     (let e = filter_add_blocked_out_msg_id 100 endpoint
      in accepts e (test_msg 100 1 1 (-1) (-1) b) w = Filtered \<and>
         accepts e (test_msg 2 1 1 (-1) (-1) b) w = Accepted \<and>
         accepts e (test_msg 255 1 1 (-1) (-1) b) w = Accepted \<and>
         accepts e (test_msg 368 1 1 (-1) (-1) b) w = Accepted)"

definition test_AcceptMsg_OutCompFilter :: "endpoint \<Rightarrow> buffer \<Rightarrow> world \<Rightarrow> bool" where
  "test_AcceptMsg_OutCompFilter endpoint b w \<longleftrightarrow>
     (let e = filter_add_allowed_out_src_comp 1 endpoint
      in accepts e (test_msg 1 1 1 (-1) (-1) b) w = Accepted \<and>
         accepts e (test_msg 1 1 2 (-1) (-1) b) w = Filtered \<and>
         accepts e (test_msg 1 1 255 (-1) (-1) b) w = Filtered)"

definition test_BlockMsg_OutCompFilter :: "endpoint \<Rightarrow> buffer \<Rightarrow> world \<Rightarrow> bool" where
  "test_BlockMsg_OutCompFilter endpoint b w \<longleftrightarrow>
     (let e = filter_add_blocked_out_src_comp 100 endpoint
      in accepts e (test_msg 1 1 100 (-1) (-1) b) w = Filtered \<and>
         accepts e (test_msg 1 1 2 (-1) (-1) b) w = Accepted \<and>
         accepts e (test_msg 1 1 255 (-1) (-1) b) w = Accepted)"

definition test_AcceptMsg_OutSysFilter :: "endpoint \<Rightarrow> buffer \<Rightarrow> world \<Rightarrow> bool" where
  "test_AcceptMsg_OutSysFilter endpoint b w \<longleftrightarrow>
     (let e = filter_add_allowed_out_src_sys 42 endpoint
      in accepts e (test_msg 1 42 1 (-1) (-1) b) w = Accepted \<and>
         accepts e (test_msg 1 2 1 (-1) (-1) b) w = Filtered \<and>
         accepts e (test_msg 1 255 1 (-1) (-1) b) w = Filtered)"

definition test_BlockMsg_OutSysFilter :: "endpoint \<Rightarrow> buffer \<Rightarrow> world \<Rightarrow> bool" where
  "test_BlockMsg_OutSysFilter endpoint b w \<longleftrightarrow>
     (let e = filter_add_blocked_out_src_sys 42 endpoint
      in accepts e (test_msg 1 42 1 (-1) (-1) b) w = Filtered \<and>
         accepts e (test_msg 1 2 1 (-1) (-1) b) w = Accepted \<and>
         accepts e (test_msg 1 255 1 (-1) (-1) b) w = Accepted)"

definition test_AcceptMsg_InMsgIdFilter :: "endpoint \<Rightarrow> buffer \<Rightarrow> bool" where
  "test_AcceptMsg_InMsgIdFilter endpoint b \<longleftrightarrow>
     (let e = filter_add_allowed_in_msg_id 1 endpoint
      in allowed_by_incoming_filters e (test_msg 1 1 1 (-1) (-1) b) \<and>
         \<not> allowed_by_incoming_filters e (test_msg 2 1 1 (-1) (-1) b) \<and>
         \<not> allowed_by_incoming_filters e (test_msg 255 1 1 (-1) (-1) b) \<and>
         \<not> allowed_by_incoming_filters e (test_msg 368 1 1 (-1) (-1) b))"

definition test_BlockMsg_InMsgIdFilter :: "endpoint \<Rightarrow> buffer \<Rightarrow> bool" where
  "test_BlockMsg_InMsgIdFilter endpoint b \<longleftrightarrow>
     (let e = filter_add_blocked_in_msg_id 78 endpoint
      in \<not> allowed_by_incoming_filters e (test_msg 78 1 1 (-1) (-1) b) \<and>
         allowed_by_incoming_filters e (test_msg 2 1 1 (-1) (-1) b) \<and>
         allowed_by_incoming_filters e (test_msg 255 1 1 (-1) (-1) b) \<and>
         allowed_by_incoming_filters e (test_msg 368 1 1 (-1) (-1) b))"

definition test_AcceptMsg_InCompFilter :: "endpoint \<Rightarrow> buffer \<Rightarrow> bool" where
  "test_AcceptMsg_InCompFilter endpoint b \<longleftrightarrow>
     (let e = filter_add_allowed_in_src_comp 1 endpoint
      in allowed_by_incoming_filters e (test_msg 1 1 1 (-1) (-1) b) \<and>
         \<not> allowed_by_incoming_filters e (test_msg 1 1 2 (-1) (-1) b) \<and>
         \<not> allowed_by_incoming_filters e (test_msg 1 1 255 (-1) (-1) b))"

definition test_BlockMsg_InCompFilter :: "endpoint \<Rightarrow> buffer \<Rightarrow> bool" where
  "test_BlockMsg_InCompFilter endpoint b \<longleftrightarrow>
     (let e = filter_add_blocked_in_src_comp 96 endpoint
      in \<not> allowed_by_incoming_filters e (test_msg 1 1 96 (-1) (-1) b) \<and>
         allowed_by_incoming_filters e (test_msg 1 1 2 (-1) (-1) b) \<and>
         allowed_by_incoming_filters e (test_msg 1 1 255 (-1) (-1) b))"

definition test_AcceptMsg_InSysFilter :: "endpoint \<Rightarrow> buffer \<Rightarrow> bool" where
  "test_AcceptMsg_InSysFilter endpoint b \<longleftrightarrow>
     (let e = filter_add_allowed_in_src_sys 23 endpoint
      in allowed_by_incoming_filters e (test_msg 1 23 1 (-1) (-1) b) \<and>
         \<not> allowed_by_incoming_filters e (test_msg 1 2 1 (-1) (-1) b) \<and>
         \<not> allowed_by_incoming_filters e (test_msg 1 255 1 (-1) (-1) b))"

definition test_BlockMsg_InSysFilter :: "endpoint \<Rightarrow> buffer \<Rightarrow> bool" where
  "test_BlockMsg_InSysFilter endpoint b \<longleftrightarrow>
     (let e = filter_add_blocked_in_src_sys 23 endpoint
      in \<not> allowed_by_incoming_filters e (test_msg 1 23 1 (-1) (-1) b) \<and>
         allowed_by_incoming_filters e (test_msg 1 2 1 (-1) (-1) b) \<and>
         allowed_by_incoming_filters e (test_msg 1 255 1 (-1) (-1) b))"

section \<open>Throttle cache\<close>

definition CacheTestEndpoint :: "bytes \<Rightarrow> bytes \<Rightarrow> endpoint" where
  "CacheTestEndpoint rx tx = (Endpoint_init 0 UART ''cache'' rx tx)\<lparr>ep_fd := 0\<rparr>"

abbreviation TEST_MSG_ID :: u32 where "TEST_MSG_ID \<equiv> 30"

definition throttle_test_msg :: buffer where
  "throttle_test_msg =
     \<lparr>b_data = replicate 32 0,
      b_curr = \<lparr>msg_id = TEST_MSG_ID, target_sysid = -1, target_compid = -1, src_sysid = 1, src_compid = 1, payload_len = 4, payload = Some 10\<rparr>\<rparr>"

text \<open>\<open>-ENOBUFS\<close> is the answer of a full transmit buffer; what the link took is counted in its statistics.\<close>

definition test_RefusedMsgIsKeptForRetry :: "endpoint \<Rightarrow> world \<Rightarrow> bool" where
  "test_RefusedMsgIsKeptForRetry endpoint w \<longleftrightarrow>
     (let e1 = cache_msg throttle_test_msg (endpoint\<lparr>tx_len := TX_BUF_MAX_SIZE\<rparr>);
          (e2, w2) = resend_cached_msgs e1 w;
          (e3, w3) = resend_cached_msgs (e2\<lparr>tx_len := 0\<rparr>) w2
      in has_cached_msgs e1 \<and> ws_total (wstat e2) = 0 \<and> has_cached_msgs e2 \<and> ws_total (wstat e3) = 1 \<and> \<not> has_cached_msgs e3)"

text \<open>\<open>-EAGAIN\<close> is the answer when the kernel takes a part of the message.\<close>

definition test_DoesNotDuplicateOnEagain :: "endpoint \<Rightarrow> world \<Rightarrow> bool" where
  "test_DoesNotDuplicateOnEagain endpoint w \<longleftrightarrow>
     (let (e1, w1) = resend_cached_msgs (cache_msg throttle_test_msg endpoint) w;
          (e2, w2) = resend_cached_msgs e1 w1
      in ws_total (wstat e1) = 1 \<and> \<not> has_cached_msgs e1 \<and> ws_total (wstat e2) = 1)"

definition test_AcceptMsgKeepsCachedBacklogInOrder :: "endpoint \<Rightarrow> world \<Rightarrow> bool" where
  "test_AcceptMsgKeepsCachedBacklogInOrder endpoint w \<longleftrightarrow>
     (let (e1, w1) = set_message_throttling TEST_MSG_ID 1 endpoint w;
          e2 = throttle_cache_add_msg_id TEST_MSG_ID e1;
          (a1, w2) = accept_msg 0 e2 throttle_test_msg w1;
          (e3, w3) = update_throttle_info e2 TEST_MSG_ID w2;
          (a2, w4) = accept_msg 0 e3 throttle_test_msg w3;
          e4 = cache_msg throttle_test_msg e3;
          (e5, w5) = set_message_throttling TEST_MSG_ID 0 e4 w4;
          (e6, w6) = set_message_throttling TEST_MSG_ID 1 e5 w5;
          (a3, w7) = accept_msg 0 e6 throttle_test_msg w6
      in a1 = Accepted \<and> a2 = Cached \<and> a3 = Cached)"

definition test_ThrottledMsgWithoutCachingIsDiscarded :: "endpoint \<Rightarrow> world \<Rightarrow> bool" where
  "test_ThrottledMsgWithoutCachingIsDiscarded endpoint w \<longleftrightarrow>
     (let (e1, w1) = set_message_throttling TEST_MSG_ID 1 endpoint w;
          (a1, w2) = accept_msg 0 e1 throttle_test_msg w1;
          (e2, w3) = update_throttle_info e1 TEST_MSG_ID w2;
          (a2, w4) = accept_msg 0 e2 throttle_test_msg w3
      in a1 = Accepted \<and> a2 = Throttled)"

section \<open>Links\<close>

definition test_Uart_Init :: "nat \<Rightarrow> bytes \<Rightarrow> bytes \<Rightarrow> bool" where
  "test_Uart_Init this rx tx \<longleftrightarrow> ep_type (UartEndpoint this ''testname'' rx tx) = UART"

definition test_Uart_ConfigValidateBaud :: bool where
  "test_Uart_ConfigValidateBaud \<longleftrightarrow>
     (let config = (default_uart [])\<lparr>device := ''/dev/ttyUSB0''\<rparr>
      in uart_validate_config (config\<lparr>c_baudrates := [115200]\<rparr>) \<and> uart_validate_config (config\<lparr>c_baudrates := [115200, 57600]\<rparr>) \<and>
         \<not> uart_validate_config (config\<lparr>c_baudrates := []\<rparr>))"

definition test_Uart_ConfigValidateDevice :: bool where
  "test_Uart_ConfigValidateDevice \<longleftrightarrow>
     (let config = (default_uart [])\<lparr>c_baudrates := [115200]\<rparr>
      in uart_validate_config (config\<lparr>device := ''/dev/ttyUSB0''\<rparr>) \<and> \<not> uart_validate_config (config\<lparr>device := []\<rparr>))"

definition test_Udp_Init :: "nat \<Rightarrow> bytes \<Rightarrow> bytes \<Rightarrow> world \<Rightarrow> bool" where
  "test_Udp_Init this rx tx w \<longleftrightarrow> ep_type (fst (UdpEndpoint this ''testname'' rx tx w)) = UDP"

definition test_Udp_ConfigValidateAddress :: bool where
  "test_Udp_ConfigValidateAddress \<longleftrightarrow>
     (let config = (default_udp [])\<lparr>u_port := 14550, u_mode := Client\<rparr>
      in udp_validate_config (config\<lparr>u_address := ''127.0.0.1''\<rparr>) \<and> udp_validate_config (config\<lparr>u_address := ''[::1]''\<rparr>) \<and>
         \<not> udp_validate_config (config\<lparr>u_address := []\<rparr>) \<and> \<not> udp_validate_config (config\<lparr>u_address := ''[127.0.0.1]''\<rparr>) \<and>
         \<not> udp_validate_config (config\<lparr>u_address := ''::1''\<rparr>))"

definition test_UdpPortRangeCheck :: "udp_mode \<Rightarrow> bool" where
  "test_UdpPortRangeCheck m \<longleftrightarrow>
     (let config = (default_udp [])\<lparr>u_address := ''127.0.0.1'', u_mode := m\<rparr>
      in udp_validate_config (config\<lparr>u_port := 14550\<rparr>) \<and> udp_validate_config (config\<lparr>u_port := ULONG_MAX - 1\<rparr>) \<and>
         udp_validate_config (config\<lparr>u_port := 1\<rparr>) \<and> \<not> udp_validate_config (config\<lparr>u_port := ULONG_MAX\<rparr>) \<and>
         \<not> udp_validate_config (config\<lparr>u_port := 0\<rparr>))"

definition test_Udp_ConfigValidateMode :: bool where
  "test_Udp_ConfigValidateMode \<longleftrightarrow>
     (let config = (default_udp [])\<lparr>u_address := ''127.0.0.1'', u_port := 14550\<rparr>
      in udp_validate_config (config\<lparr>u_mode := Client\<rparr>) \<and> udp_validate_config (config\<lparr>u_mode := Server\<rparr>) \<and>
         \<not> udp_validate_config (config\<lparr>u_mode := Undefined\<rparr>))"

definition test_Tcp_Init :: "nat \<Rightarrow> bytes \<Rightarrow> bytes \<Rightarrow> world \<Rightarrow> bool" where
  "test_Tcp_Init this rx tx w \<longleftrightarrow>
     (let e = fst (TcpEndpoint this ''testname'' rx tx w) in ep_type e = TCP \<and> is_valid e)"

definition test_Tcp_ConfigValidateAddress :: bool where
  "test_Tcp_ConfigValidateAddress \<longleftrightarrow>
     (let config = (default_tcp [])\<lparr>t_port := 14550\<rparr>
      in tcp_validate_config (config\<lparr>t_address := ''127.0.0.1''\<rparr>) \<and> tcp_validate_config (config\<lparr>t_address := ''[::1]''\<rparr>) \<and>
         \<not> tcp_validate_config (config\<lparr>t_address := []\<rparr>) \<and> \<not> tcp_validate_config (config\<lparr>t_address := ''[127.0.0.1]''\<rparr>) \<and>
         \<not> tcp_validate_config (config\<lparr>t_address := ''::1''\<rparr>))"

definition test_Tcp_ConfigValidatePort :: bool where
  "test_Tcp_ConfigValidatePort \<longleftrightarrow>
     (let config = (default_tcp [])\<lparr>t_address := ''127.0.0.1''\<rparr>
      in tcp_validate_config (config\<lparr>t_port := 14550\<rparr>) \<and> tcp_validate_config (config\<lparr>t_port := ULONG_MAX - 1\<rparr>) \<and>
         tcp_validate_config (config\<lparr>t_port := 1\<rparr>) \<and> \<not> tcp_validate_config (config\<lparr>t_port := ULONG_MAX\<rparr>) \<and>
         \<not> tcp_validate_config (config\<lparr>t_port := 0\<rparr>))"

section \<open>Recorders and the main loop\<close>

text \<open>The type of the object made for each dialect, and of the telemetry log behind it.\<close>

definition test_Log_Init :: "loglib \<Rightarrow> log_env \<Rightarrow> bool" where
  "test_Log_Init L env \<longleftrightarrow>
     list_all (\<lambda>d.
       let conf = default_log_options\<lparr>logs_dir := ''./'', mavlink_dialect := d, log_telemetry := True\<rparr>;
           n = length (objs (le_ml env)); y = add_log_endpoints L conf env
       in ep_type (objs (ml y) ! n) = LOG \<and> ep_type (objs (ml y) ! Suc n) = LOG) [Ardupilotmega, Common, Auto]"

text \<open>One test of mainloop_test.cpp: the code asked for, the result of the loop, and the singleton it leaves to the next test.\<close>

definition test_termination :: "int \<Rightarrow> mavlib \<Rightarrow> (bytes \<Rightarrow> u64) \<Rightarrow> event list list \<Rightarrow> router \<Rightarrow> (int \<times> router) option" where
  "test_termination code M H rounds s =
     (case ml_init s of
        None \<Rightarrow> None
      | Some s1 \<Rightarrow>
          (case ml_loop M H rounds (request_exit code (snd (ml_open s1))) of
             None \<Rightarrow> None
           | Some (ret, s2) \<Rightarrow> Some (ret, ml_teardown s2)))"

section \<open>The tests pass\<close>

lemmas fixture_simps = TestEndpoint_def Endpoint_init_def set_sys_comp_ids_def build_sys_comp_id_def test_msg_def accepts_def no_filters_def Let_def

lemma knows_tests_pass: "test_HasSysId (TestEndpoint rx tx)" "test_HasSysCompId (TestEndpoint rx tx)"
  by (simp_all add: test_HasSysId_def test_HasSysCompId_def fixture_simps has_sys_id_def has_sys_comp_id_def has_sys_comp_id2_def)

lemmas accept_simps = accept_msg_def has_sys_comp_id_def has_sys_comp_id2_def has_sys_id_def allowed_by_outgoing_filters_def allowed_by_incoming_filters_def
  is_routing_target_def is_throttling_enabled_def

lemma accept_tests_pass:
  "test_AcceptMsg_EmptyKnownSystems (TestEndpoint rx tx) b w" "test_AcceptMsg_WithKnownSystems (TestEndpoint rx tx) b w"
  by (simp_all add: test_AcceptMsg_EmptyKnownSystems_def test_AcceptMsg_WithKnownSystems_def fixture_simps accept_simps)

lemma out_filter_tests_pass:
  "test_AcceptMsg_OutMsgIdFilter (TestEndpoint rx tx) b w"
  "test_BlockMsg_OutMsgIdFilter (TestEndpoint rx tx) b w"
  "test_AcceptMsg_OutCompFilter (TestEndpoint rx tx) b w"
  "test_BlockMsg_OutCompFilter (TestEndpoint rx tx) b w"
  "test_AcceptMsg_OutSysFilter (TestEndpoint rx tx) b w"
  "test_BlockMsg_OutSysFilter (TestEndpoint rx tx) b w"
  by (simp_all add: test_AcceptMsg_OutMsgIdFilter_def test_BlockMsg_OutMsgIdFilter_def test_AcceptMsg_OutCompFilter_def test_BlockMsg_OutCompFilter_def test_AcceptMsg_OutSysFilter_def test_BlockMsg_OutSysFilter_def
      filter_add_allowed_out_msg_id_def filter_add_blocked_out_msg_id_def filter_add_allowed_out_src_comp_def filter_add_blocked_out_src_comp_def filter_add_allowed_out_src_sys_def filter_add_blocked_out_src_sys_def fixture_simps accept_simps)

lemma in_filter_tests_pass:
  "test_AcceptMsg_InMsgIdFilter (TestEndpoint rx tx) b"
  "test_BlockMsg_InMsgIdFilter (TestEndpoint rx tx) b"
  "test_AcceptMsg_InCompFilter (TestEndpoint rx tx) b"
  "test_BlockMsg_InCompFilter (TestEndpoint rx tx) b"
  "test_AcceptMsg_InSysFilter (TestEndpoint rx tx) b"
  "test_BlockMsg_InSysFilter (TestEndpoint rx tx) b"
  by (simp_all add: test_AcceptMsg_InMsgIdFilter_def test_BlockMsg_InMsgIdFilter_def test_AcceptMsg_InCompFilter_def test_BlockMsg_InCompFilter_def test_AcceptMsg_InSysFilter_def test_BlockMsg_InSysFilter_def
      filter_add_allowed_in_msg_id_def filter_add_blocked_in_msg_id_def filter_add_allowed_in_src_comp_def filter_add_blocked_in_src_comp_def filter_add_allowed_in_src_sys_def filter_add_blocked_in_src_sys_def fixture_simps accept_simps)

lemmas throttle_test_simps = CacheTestEndpoint_def throttle_test_msg_def Endpoint_init_def no_filters_def accept_simps
  set_message_throttling_def throttle_cache_add_msg_id_def should_throttle_msg_def update_throttle_info_def steady_now_def
  cache_msg_def cache_size_def cached_queue_def has_cached_msgs_def has_cached_msg_id_def om_get_def om_del_def FLT_EPSILON_def period_us_examples Let_def

text \<open>The clock does not go back, and the test takes less than the period of a second.\<close>

lemma throttle_tests_pass:
  assumes "\<And>k. w_clock w (w_tick w) \<le> w_clock w (w_tick w + k) \<and> w_clock w (w_tick w + k) < w_clock w (w_tick w) + 1000000000"
  shows "test_AcceptMsgKeepsCachedBacklogInOrder (CacheTestEndpoint rx tx) w" "test_ThrottledMsgWithoutCachingIsDiscarded (CacheTestEndpoint rx tx) w"
  using assms [of "Suc 0"] assms [of "Suc (Suc 0)"] assms [of "Suc (Suc (Suc 0))"]
  by (simp_all add: test_AcceptMsgKeepsCachedBacklogInOrder_def test_ThrottledMsgWithoutCachingIsDiscarded_def throttle_test_simps)

lemmas resend_test_simps = CacheTestEndpoint_def throttle_test_msg_def Endpoint_init_def cache_msg_def cache_size_def cached_queue_def has_cached_msgs_def
  om_get_def resend_cached_msgs_def should_throttle_msg_def update_throttle_info_def ep_write_msg_def uart_write_msg_def as_buffer_def CachedMsg_def
  uart_flush_pending_msgs_def sys_send_def count_written_def tx_append_def tx_consume_def mod_fd_def Let_def

lemma resend_tests_pass:
  "(\<And>k. w_snd w k = SndOk 32) \<Longrightarrow> test_RefusedMsgIsKeptForRetry (CacheTestEndpoint rx tx) w"
  "(\<And>k. w_snd w k = SndOk 3) \<Longrightarrow> test_DoesNotDuplicateOnEagain (CacheTestEndpoint rx tx) w"
  by (simp_all add: test_RefusedMsgIsKeptForRetry_def test_DoesNotDuplicateOnEagain_def resend_test_simps)

lemma init_tests_pass: "test_Uart_Init this rx tx" "test_Udp_Init this rx tx w" "test_Tcp_Init this rx tx w"
  by (simp_all add: test_Uart_Init_def test_Udp_Init_def test_Tcp_Init_def UartEndpoint_def UdpEndpoint_def TcpEndpoint_def new_write_schedule_timer_def
      Endpoint_init_def is_valid_def case_prod_unfold Let_def)

lemma validate_tests_pass:
  test_Uart_ConfigValidateBaud test_Uart_ConfigValidateDevice test_Udp_ConfigValidateAddress "list_all test_UdpPortRangeCheck [Client, Server]"
  test_Udp_ConfigValidateMode test_Tcp_ConfigValidateAddress test_Tcp_ConfigValidatePort
  by code_simp+

lemma recorder_test_passes: "test_Log_Init L env"
proof -
  have new: "ep_type (objs (add_log_base M name s) ! length (objs s)) = LOG \<and> length (objs (add_log_base M name s)) = Suc (length (objs s))" for M name s
  proof -
    obtain e where "ep_type e = LOG" "objs (add_log_base M name s) = add_sys_comp_id (length (objs s)) LOG_ENDPOINT_SYSTEM_ID 0 (objs s @ [e])"
      by (rule add_log_baseE)
    then show ?thesis using grown_add_calls [of "length (objs s)" "objs s @ [e]"] by (simp add: add_sys_comp_id_def grown_def)
  qed
  have old: "ep_type (objs (add_log_base M name s) ! k) = ep_type (objs s ! k)" if "k < length (objs s)" for M name s k
    using add_log_base_grow [of s M name] that by (simp add: eps_grow_def grown_def)
  have "ep_type (objs (add_log_base M n2 (add_log_base M n1 s)) ! length (objs s)) = LOG"
    "ep_type (objs (add_log_base M n2 (add_log_base M n1 s)) ! Suc (length (objs s))) = LOG" for M n1 n2 s
    using new [of M n1 s] new [of M n2 "add_log_base M n1 s"] old [of "length (objs s)" "add_log_base M n1 s" M n2] by auto
  then show ?thesis by (simp add: test_Log_Init_def add_log_endpoints_def Let_def)
qed

text \<open>The two tests of the main loop, one after the other on the same singleton: the second one opens a main loop that is open.\<close>

lemma mainloop_tests_pass:
  assumes "\<not> initialized s" "epollfd s = -1" "g_endpoints s = []" "\<not> w_sys (os s) (w_systick (os s)) < 0"
  shows "\<exists>s1 s2. test_termination 0 M H rounds s = Some (0, s1) \<and> test_termination (-1) M H rounds s1 = Some (-1, s2)"
proof -
  have r: "loop_rounds M H rounds t = Some t" if "should_exit t" for t using that by (cases rounds) simp_all
  show ?thesis using assms
    by (simp add: test_termination_def ml_init_def ml_open_def sys_call_def request_exit_def ml_loop_def r clear_endpoints_def clean_command_pipe_def
        ml_teardown_def Let_def)
qed

end
