(* ===== verification/Spec2Isabelle.thy ===== *)
theory Spec2Isabelle
  imports SetupFacts Delivery OptionsFacts ArmAuthorizerFacts OffboardFacts HeartbeatPrint UnitTests
begin

text \<open>
  \<^bold>\<open>Verification of mavlink-router\<close>

  The router forwards MAVLink packets between serial lines, UDP sockets and TCP connections. An
  \<open>Endpoint\<close> (src/src/endpoint.h, endpoint.cpp) owns a link, its buffers, filters, statistics, the
  table of systems seen on it and a cache of throttled messages; \<open>Mainloop\<close> (src/src/mainloop.h,
  mainloop.cpp) is a singleton with the vector of endpoints, an epoll loop, timers
  (timeout.cpp, pollable.cpp), a de-duplication buffer (dedup.cpp), a TCP server and a command pipe.
  Bytes read on one endpoint become packets, each packet is checked for duplicates and against the
  incoming filters, its sender is noted on the endpoint and its group, and it is offered to every
  endpoint, which accepts, filters, rejects, throttles or caches it. Recorders (src/src/logendpoint.cpp,
  ulog.cpp, binlog.cpp, tlog.cpp, autolog.cpp) are endpoints that write flight logs and telemetry to
  files. The process (src/src/main.cpp) reads configuration files (src/src/common/conf_file.cpp,
  util.cpp) and its command line, and starts the main loop with the endpoints they give. Three small
  programs (src/examples/) talk to a vehicle through the router.

  \<^bold>\<open>How the model is made\<close>

  The model is a shallow embedding. Classes are records, virtual calls a case distinction on the
  endpoint type, references between objects are numbers in the list \<open>objs\<close> of all endpoints ever
  created, machine integers are words of their width, raw buffers are lists with \<open>memcpy\<close> and
  \<open>memmove\<close>. Every operation takes the endpoint (or the router) and the \<open>world\<close>, and returns the C
  result with the new ones. The world holds the answers of the operating system, which are arbitrary
  functions of a call counter, and records what the code handed to it. \<open>None\<close> is undefined behaviour
  of the C++ code (erasing a missing hash, reading an empty vector, entering a destroyed object).

  \<^item> \<open>Prelude\<close>: integers, errno, raw memory, ordered maps (locale \<open>ordered_map\<close>), step functions
    and their simulation (locale \<open>simulation\<close>).
  \<^item> \<open>World\<close>: system calls, epoll registration, timeouts (\<open>Mainloop::add_timeout\<close> to
    \<open>_del_timeouts\<close>, \<open>Timeout\<close>).
  \<^item> \<open>Wire\<close>: \<open>struct buffer\<close>, packet headers, \<open>CachedMsg\<close>, and the MAVLink C library as the parameter
    \<open>mavlib\<close> with the law \<open>mavlib_ok\<close>; it is a submodule and not among the sources.
  \<^item> \<open>Dedup\<close>: dedup.cpp; the hash function is a parameter. It simulates a specification that
    remembers when each hash was accepted.
  \<^item> \<open>Float32\<close>: the rounding of \<open>float\<close> and \<open>double\<close> used by throttling, on rationals.
  \<^item> \<open>Endpoint\<close>: state, filters, \<open>accept_msg\<close>, throttling, cache of throttled messages.
  \<^item> \<open>Transport\<close>, \<open>Links\<close>: the transmit and reception side of the three links. The locale
    \<open>transport\<close> states what a link promises; it is interpreted for each link and for the virtual
    calls, and gives that bytes leave complete and in order.
  \<^item> \<open>Framing\<close>: \<open>Endpoint::read_msg\<close>.
  \<^item> \<open>Resend\<close>: \<open>resend_queued_msgs\<close>, \<open>resend_cached_msgs\<close>.
  \<^item> \<open>Serial\<close>: the attributes of a serial line and what \<open>reset_uart\<close> (common/xtermios.cpp) and \<open>UartEndpoint\<close> make of them.
    \<open>Setup\<close>: configurations, validation, constructors, \<open>open\<close>, \<open>setup\<close>, reconnection, baud rates, the interface of an IPv6
    address. \<open>SetupFacts\<close>: the line after a set-up, link-local addresses.
  \<^item> \<open>Statistics\<close>: the report of the counters of an endpoint, which the timer of \<open>Mainloop::print_statistics\<close> writes to the
    standard output.
  \<^item> \<open>EndpointGroups\<close>: \<open>_add_sys_comp_id\<close> with its recursion over group members as a stack of calls.
  \<^item> \<open>Router\<close>, \<open>Routing\<close>: \<open>handle_read\<close>, \<open>route_msg\<close>, the resend timer; end-to-end lemmas.
  \<^item> \<open>Events\<close>, \<open>EventFacts\<close>: callbacks, hang-ups, connections, commands, the event loop, start-up.
  \<^item> \<open>Safety\<close>: the inductive predicate \<open>reachable\<close> of the states of the event loop without recorders, and
    the invariants that hold in all of them. \<open>Growth\<close>: endpoints keep their kind and forget no system.
  \<^item> \<open>Text\<close>, \<open>Files\<close>: the functions of the C library on strings and numbers, and a file system whose
    calls fail, and whose writes are short, as arbitrary functions of a call counter say.
  \<^item> \<open>Util\<close>: util.cpp. \<open>ConfFile\<close>: conf_file.cpp, with an option table as a list of entries for any
    record. \<open>ConfSpec\<close>: the specification of a file by its lines, and of the settings as a map;
    the locale \<open>config_store\<close> is what the users of the parser rely on.
  \<^item> \<open>LogEndpoint\<close>, \<open>LogFiles\<close>: what recorders share (names, rotation, creation, timers, starting
    and stopping with the vehicle). \<open>Ulog\<close>, \<open>UlogFacts\<close>: ulog.cpp. \<open>Recorders\<close>, \<open>RecorderFacts\<close>: binlog.cpp,
    tlog.cpp, autolog.cpp, and \<open>Mainloop\<close>'s part. The locale \<open>recorder\<close> is the contract of the virtual
    \<open>start\<close> and \<open>stop\<close>, interpreted for the three recorders. The generated MAVLink code is the parameter \<open>loglib\<close>.
  \<^item> \<open>Recording\<close>: the whole process, router and recorders in one record \<open>system\<close>: the recorders are endpoints
    of the vector, get messages by \<open>route_msg\<close>, send theirs by \<open>route_msg\<close> again, run on the timers of the main loop and
    are stopped at its end. \<open>RecorderActs\<close> says what a recorder does to the router (\<open>ml_acts\<close>: route messages, set and
    delete timers, nothing else), \<open>UlogSafety\<close> the invariant of the ULog buffer under every handler.
  \<^item> \<open>SystemInvariants\<close>: the locale \<open>router_invariant\<close> (a relation kept by the steps of the router) gives by a
    \<open>sublocale\<close> the locale \<open>system_invariant\<close> (kept by the steps of the whole process); both are interpreted for the
    memory safety of the router, for its growth, and for the ties between recorders and their endpoints. \<open>sys_reachable\<close> are
    the states of the process. \<open>RecordingFacts\<close>: properties of the composition.
  \<^item> \<open>Options\<close>, \<open>OptionsFacts\<close>: main.cpp and the option tables of endpoint.cpp and logendpoint.cpp, with
    \<open>getopt_long\<close> as GNU's library has it.
  \<^item> \<open>Diagnostics\<close>: common/log.cpp.
  \<^item> \<open>UnitTests\<close>: endpoints_test.cpp and mainloop_test.cpp, every test as a predicate on the model.
  \<^item> \<open>ExampleLib\<close>, \<open>ArmAuthorizer\<close>, \<open>ArmAuthorizerFacts\<close>, \<open>Offboard\<close>, \<open>OffboardFacts\<close>, \<open>HeartbeatPrint\<close>: the three example
    programs, each with its static variables as a record and its loop over the results of the reads. The parser and the
    decoders of the MAVLink library are parameters. The locale \<open>offboard_invariant\<close> lifts what every handler keeps
    to the loop.

  \<^bold>\<open>What is shown\<close>

  Safety: in every state of the process, from the command line through any rounds of the event loop with
  recorders, all buffers have their size with the valid bytes inside, caches are bounded, the vector of endpoints has distinct
  existing entries, the recorders' buffers and endpoints are consistent; and in the states of the router alone events of these
  endpoints are handled without undefined behaviour.

  Routing: a message reaches exactly the endpoints that accept it, whole and in order, or is counted
  as dropped; it is never sent back; the decision is the documented one. Framing: packets survive any
  fragmentation, garbage in front of a packet is skipped, a wrong checksum is not forwarded, no byte
  outside the buffer is touched, the loops end. Links: the transmit buffer is not overrun, the stream
  of bytes is the concatenation of the messages taken, under short writes and temporary refusals of
  the kernel. Throttling and its cache: the rate is bounded, the cache is a bounded queue per message
  id, resending takes from the front, and a cached message always has an armed timer. Groups: after
  start-up and after every new system the members of a group know the same systems. De-duplication
  refines its specification. Timers are exact and their list is swept exactly. Some lemmas state
  where the code departs from its documentation or loses something; they are marked as such in their
  text.

  Configuration: parsing refines the specification by lines, printed files load back, the data
  structure is well-formed whatever files are read, extraction ends, the values reach the program, the
  command line wins, and only endpoints that pass their check are accepted. Log files: a new log
  overwrites nothing, rotation removes only finished logs, the oldest first and no more than needed, and
  a stopped log is finished. Recorders: the ULog file is the stream of the pieces byte by byte,
  the BinLog file has every block at its place and no block is acknowledged that is not there, and
  recording follows the arming of the vehicle. In the main loop, recorders do not record what recorders send, a signal
  ends the loop with the flight log finished, and without recorders the process behaves as the router alone.

  Examples: the authorizer accepts a mission that is answered as requested exactly when no item is too high, and each request
  gets one final answer; the offboard program sends its commands in the order of its tasks and its set points on the course of
  its list; every heartbeat is printed.

  Set-up and reports: a serial line is raw after a successful set-up whatever it was before, with the configured speed and flow
  control; an address of this host gets the number of its interface; a started process shows the messages up to its level in
  order. The tests of the repository pass on the model, which ties the definitions to the expectations of its authors.

  \<^bold>\<open>Bounds and termination\<close>

  Nothing runs on fuel. The read loops end by the measure \<open>rx_measure\<close>: only the first iteration
  reads, at most \<open>RX_BUF_MAX_SIZE\<close> bytes, the others consume them. The propagation in a group ends
  because every call that does something adds a system to an endpoint that lacked it. Loops that need
  not end are \<open>partial_function\<close>s with the value \<open>None\<close>: the flushing of ULog messages (which returns when no
  message is larger than the buffer of rests, and does not for the size 0xFFFD), the creation of
  directories, the loops over the sections (which always end). The event loop
  is run on a finite list of rounds, since it ends only on request; every round is total up to
  undefined behaviour.

  \<^bold>\<open>What is not modelled\<close>

  The help text, the macros of common/dbg.h and common/macro.h and the version string only produce text and keep no state. The
  messages the router itself logs are not threaded through its handlers, since no decision depends on them. The answers of all
  system calls are inputs of the model: addresses and numbers of the interfaces, results and short counts of reads and writes,
  the clock. A terminal takes all the attributes of a call that succeeds; a driver that refuses some of them silently is
  not modelled. Links, permissions and the names \<open>.\<close> and \<open>..\<close> of the file system, sequences of \<open>int\<close> counters in
  printed texts, and times of the clock outside 64 bits, are left out as well.
\<close>

section \<open>The whole process\<close>

text \<open>The state in which \<open>main\<close> is entered: the static variables of the main loop as they are initialised.\<close>

definition fresh_process :: "log_env \<Rightarrow> bool" where
  "fresh_process env \<longleftrightarrow> \<not> initialized (le_ml env) \<and> epollfd (le_ml env) = -1 \<and> objs (le_ml env) = [] \<and> g_endpoints (le_ml env) = [] \<and> msg_dedup (le_ml env) = dedup_init 0"

lemma started_reachable:
  assumes "fresh_process lenv" "start_main L env argv lenv = Some (Started config y)" shows "sys_reachable L H (loop_start y)"
proof -
  define s0 where "s0 = (le_ml lenv)\<lparr>initialized := True\<rparr>"
  have s0: "ml_init (le_ml lenv) = Some s0" using assms(1) by (simp add: ml_init_def fresh_process_def s0_def)
  obtain c1 where c1: "pre_parse_argv argv default_config = Some c1" using assms(2) s0 by (auto simp: start_main_def split: option.splits)
  obtain ret c2 fs1 where c2: "parse_conf_files env (le_fs lenv) c1 = Some (ret, c2, fs1)" using assms(2) s0 c1 by (auto simp: start_main_def split: option.splits)
  have s: "objs (snd (ml_open s)) = objs s" "g_endpoints (snd (ml_open s)) = g_endpoints s" "msg_dedup (snd (ml_open s)) = msg_dedup s" for s
    by (simp_all add: ml_open_def case_prod_unfold Let_def)
  obtain s1 where s1: "s1 = snd (ml_open s0)"
    and y: "sys_add_endpoints L (configuration.truncate config) (log_config config) (lenv\<lparr>le_ml := s1, le_fs := fs1\<rparr>) = (True, y)"
    using assms(2) s0 c1 c2 by (auto simp: start_main_def case_prod_unfold Let_def split: if_splits sum.splits) (metis prod.collapse)
  show ?thesis by (rule sys_reachable.started [OF _ _ _ y]) (use assms(1) in \<open>simp_all add: s1 s s0_def fresh_process_def\<close>)
qed

text \<open>C3: whatever the command line, the configuration files and the recorders they ask for, and whatever events the
  rounds of the main loop bring, every state of the process that started has all buffers of its endpoints at their
  size with the valid bytes inside, bounded caches, a consistent de-duplication buffer, a vector of distinct existing
  endpoints, and recorders whose buffers are sound and whose endpoints exist.\<close>

theorem process_states_safe:
  assumes "mavlib_ok (ll_mav L)" "fresh_process lenv" "start_main L env argv lenv = Some (Started config y)"
    "sys_loop_rounds L H rounds (loop_start y) = Some y1"
  shows "(\<forall>e \<in> set (objs (ml y1)). rx_inv (ll_mav L) e \<and> tx_inv e \<and> cache_inv e) \<and> dedup_wf (msg_dedup (ml y1)) \<and>
    distinct (g_endpoints (ml y1)) \<and> (\<forall>n \<in> set (g_endpoints (ml y1)). n < length (objs (ml y1))) \<and> recorder_ok y1"
  using sys_reachable_inv [OF sys_rounds_reachable [OF started_reachable [OF assms(2,3)] assms(4)]] assms(1)
  by (simp add: router_inv_def ep_inv_def index_inv_def)

lemma process_states_safe_witness:
  "\<exists>y. start_main ex_loglib ex_proc_env [] ex_process = Some (Started default_config y) \<and> recorder_ok (loop_start y) \<and> distinct (g_endpoints (ml (loop_start y)))"
proof -
  obtain y where y: "start_main ex_loglib ex_proc_env [] ex_process = Some (Started default_config y)" using ex_started(1) by blast
  have "mavlib_ok (ll_mav ex_loglib)" "fresh_process ex_process"
    by (simp_all add: ex_loglib_def mavlib_ok_ex fresh_process_def ex_process_def ex_start_def)
  from process_states_safe [OF this y, of "\<lambda>_. 0" "[]"] y show ?thesis by auto
qed

end
